(* ===== verification/Helix_Prelude.thy ===== *)
theory Helix_Prelude
  imports Main "HOL-Library.AList" "HOL-Library.Word"
begin

text \<open>
  What every component of the development shares: the JavaScript values and
  standard-library operations the TypeScript sources use (strings, \<open>Map\<close>, \<open>Set\<close>,
  byte arrays), the error values their exceptions become, and the two interfaces
  several components implement, a state machine with an invariant and a codec.

  A JavaScript string is modelled by Isabelle's \<^typ>\<open>string\<close>: one \<^typ>\<open>char\<close> is one
  UTF-16 code unit below 256, so the model covers the strings over the Latin-1 range.
  A \<open>Map\<close> is an association list with distinct keys, because the sources iterate over
  maps and a JavaScript \<open>Map\<close> iterates in insertion order: \<^const>\<open>AList.update\<close> replaces
  in place or appends at the end, exactly as \<open>Map.prototype.set\<close> does.
\<close>

named_theorems js_simps \<open>evaluation rules for the modelled JavaScript library\<close>

section \<open>Strings\<close>

text \<open>The code units below 256 that \<open>String.prototype.trim\<close> strips.\<close>

definition js_space :: "char \<Rightarrow> bool" where
  "js_space c = List.member [CHR 0x09, CHR 0x0A, CHR 0x0B, CHR 0x0C, CHR 0x0D, CHR 0x20, CHR 0xA0] c"

definition trim_start :: "string \<Rightarrow> string" where
  "trim_start s = dropWhile js_space s"

definition trim_end :: "string \<Rightarrow> string" where
  "trim_end s = rev (dropWhile js_space (rev s))"

definition trim :: "string \<Rightarrow> string" where
  "trim s = trim_end (trim_start s)"

definition starts_with :: "string \<Rightarrow> string \<Rightarrow> bool" where
  "starts_with p s = (take (length p) s = p)"

text \<open>\<open>split\<close> at a one-character separator: always at least one segment.\<close>

fun split_on :: "char \<Rightarrow> string \<Rightarrow> string list" where
  "split_on d [] = [[]]"
| "split_on d (c # cs) =
     (if c = d then [] # split_on d cs
      else case split_on d cs of [] \<Rightarrow> [[c]] | w # ws \<Rightarrow> (c # w) # ws)"

fun join_with :: "string \<Rightarrow> string list \<Rightarrow> string" where
  "join_with sep [] = []"
| "join_with sep [x] = x"
| "join_with sep (x # xs) = x @ sep @ join_with sep xs"

text \<open>
  \<open>toUpperCase\<close> on the modelled range: ASCII and Latin-1 letters move by 32, the sharp s
  becomes two letters; micro and y-diaeresis, whose capitals lie outside the range, stay.
\<close>

definition upper_char :: "char \<Rightarrow> string" where
  "upper_char c =
     (let n = of_char c :: nat
      in if 97 \<le> n \<and> n \<le> 122 then [char_of (n - 32)]
         else if n = 223 then ''SS''
         else if 224 \<le> n \<and> n \<le> 254 \<and> n \<noteq> 247 then [char_of (n - 32)]
         else [c])"

definition to_upper :: "string \<Rightarrow> string" where
  "to_upper s = concat (map upper_char s)"

text \<open>\<open>s.replaceAll(c, '')\<close> for a one-character pattern.\<close>

definition remove_char :: "char \<Rightarrow> string \<Rightarrow> string" where
  "remove_char d s = filter (\<lambda>c. c \<noteq> d) s"

text \<open>\<open>s.includes(p)\<close>.\<close>

fun str_includes :: "string \<Rightarrow> string \<Rightarrow> bool" where
  "str_includes p [] = (p = [])"
| "str_includes p (c # cs) = (starts_with p (c # cs) \<or> str_includes p cs)"

text \<open>\<open>new TextEncoder().encode(s)\<close> and \<open>Buffer.from(s, 'utf8')\<close> on the modelled range.\<close>

type_synonym byte = "8 word"
type_synonym bytes = "8 word list"

definition utf8_char :: "char \<Rightarrow> bytes" where
  "utf8_char c =
     (let n = of_char c :: nat
      in if n < 128 then [word_of_nat n] else [word_of_nat (192 + n div 64), word_of_nat (128 + n mod 64)])"

definition utf8 :: "string \<Rightarrow> bytes" where
  "utf8 s = concat (map utf8_char s)"

text \<open>\<open>buffer.toString('utf8')\<close> of bytes that encode a string of the modelled range.\<close>

fun utf8_decode :: "bytes \<Rightarrow> string" where
  "utf8_decode [] = []"
| "utf8_decode [b] = [char_of (unat b)]"
| "utf8_decode (b # c # r) =
     (if b < 128 then char_of (unat b) # utf8_decode (c # r)
      else char_of ((unat b - 192) * 64 + (unat c - 128)) # utf8_decode r)"

lemma utf8_decode_char: "utf8_decode (utf8_char c @ r) = c # utf8_decode r"
proof -
  define n where "n = (of_char c :: nat)"
  have n: "n < 256" "char_of n = c" by (simp_all add: n_def)
  show ?thesis
  proof (cases "n < 128")
    case True
    then have "utf8_char c = [word_of_nat n]" by (simp add: utf8_char_def n_def Let_def)
    moreover have "unat (word_of_nat n :: byte) = n" "(word_of_nat n :: byte) < 128"
      using True by (simp_all add: unat_of_nat word_less_nat_alt)
    ultimately show ?thesis using n by (cases r) simp_all
  next
    case False
    then have u: "utf8_char c = [word_of_nat (192 + n div 64), word_of_nat (128 + n mod 64)]"
      by (simp add: utf8_char_def n_def Let_def)
    have "192 + n div 64 < 256" "128 + n mod 64 < 256" using n by (simp_all add: div_less_iff_less_mult)
    then have w: "unat (word_of_nat (192 + n div 64) :: byte) = 192 + n div 64"
        "unat (word_of_nat (128 + n mod 64) :: byte) = 128 + n mod 64"
      by (simp_all add: unat_of_nat del: of_nat_add)
    then have "\<not> (word_of_nat (192 + n div 64) :: byte) < 128" by (simp add: word_less_nat_alt del: of_nat_add)
    with w n show ?thesis by (simp add: u del: of_nat_add)
  qed
qed

lemma utf8_decode_utf8: "utf8_decode (utf8 s) = s"
  by (induction s) (simp_all add: utf8_def utf8_decode_char)

lemma utf8_inject: "utf8 s = utf8 t \<longleftrightarrow> s = t"
  by (metis utf8_decode_utf8)

definition digit_char :: "nat \<Rightarrow> char" where
  "digit_char n = char_of (48 + n)"

text \<open>\<open>String(n)\<close> of a natural number.\<close>

fun nat_str :: "nat \<Rightarrow> string" where
  "nat_str n = (if n < 10 then [digit_char n] else nat_str (n div 10) @ [digit_char (n mod 10)])"

declare nat_str.simps [simp del]

lemma js_space_simps [js_simps]:
  "js_space c \<longleftrightarrow> c \<in> {CHR 0x09, CHR 0x0A, CHR 0x0B, CHR 0x0C, CHR 0x0D, CHR 0x20, CHR 0xA0}"
  by (simp add: js_space_def)

lemma trim_Nil [simp]: "trim [] = []"
  by (simp add: trim_def trim_start_def trim_end_def)

lemma trim_end_eq_self: "s = [] \<or> \<not> js_space (last s) \<Longrightarrow> trim_end s = s"
  by (cases s rule: rev_cases) (auto simp: trim_end_def)

lemma trim_end_last: "trim_end s \<noteq> [] \<Longrightarrow> \<not> js_space (last (trim_end s))"
proof -
  assume "trim_end s \<noteq> []"
  then have ne: "dropWhile js_space (rev s) \<noteq> []" by (simp add: trim_end_def)
  then have "\<not> js_space (hd (dropWhile js_space (rev s)))" by (rule hd_dropWhile)
  with ne show ?thesis by (simp add: trim_end_def last_rev)
qed

lemma trim_end_prefix: "\<exists>ws. s = trim_end s @ ws"
proof -
  have "rev s = takeWhile js_space (rev s) @ dropWhile js_space (rev s)" by simp
  then have "s = rev (dropWhile js_space (rev s)) @ rev (takeWhile js_space (rev s))"
    by (metis rev_append rev_rev_ident)
  then show ?thesis by (auto simp: trim_end_def)
qed

lemma trim_start_hd: "trim_start s \<noteq> [] \<Longrightarrow> \<not> js_space (hd (trim_start s))"
  by (simp add: trim_start_def hd_dropWhile)

lemma trim_start_eq_self: "s = [] \<or> \<not> js_space (hd s) \<Longrightarrow> trim_start s = s"
  by (cases s) (auto simp: trim_start_def)

lemma trim_hd: "trim s \<noteq> [] \<Longrightarrow> \<not> js_space (hd (trim s))"
proof -
  assume ne: "trim s \<noteq> []"
  obtain ws where ws: "trim_start s = trim s @ ws"
    using trim_end_prefix[of "trim_start s"] by (auto simp: trim_def)
  with ne have "hd (trim_start s) = hd (trim s)" by simp
  moreover from ws ne have "trim_start s \<noteq> []" by auto
  ultimately show ?thesis using trim_start_hd by metis
qed

lemma trim_last: "trim s \<noteq> [] \<Longrightarrow> \<not> js_space (last (trim s))"
  by (simp add: trim_def trim_end_last)

text \<open>A string that neither starts nor ends with white space is its own trimming.\<close>

lemma trim_id: "s = [] \<or> (\<not> js_space (hd s) \<and> \<not> js_space (last s)) \<Longrightarrow> trim s = s"
  by (auto simp: trim_def trim_start_eq_self trim_end_eq_self)

lemma trim_trim [simp]: "trim (trim s) = trim s"
  by (rule trim_id) (use trim_hd trim_last in blast)

lemma starts_with_append [simp]: "starts_with p (p @ s)"
  by (simp add: starts_with_def)

lemma starts_with_iff: "starts_with p s \<longleftrightarrow> (\<exists>r. s = p @ r)"
  by (metis append_take_drop_id append_eq_conv_conj starts_with_def)

lemma split_on_ne [simp]: "split_on d s \<noteq> []"
  by (induction s) (auto split: list.splits)

lemma split_on_no_sep: "d \<notin> set s \<Longrightarrow> split_on d s = [s]"
  by (induction s) auto

lemma split_on_append:
  "d \<notin> set a \<Longrightarrow> split_on d (a @ d # b) = a # split_on d b"
  by (induction a) auto

lemma split_on_segments: "w \<in> set (split_on d s) \<Longrightarrow> d \<notin> set w"
  by (induction s arbitrary: w) (fastforce split: list.splits if_splits)+

lemma join_split: "join_with [d] (split_on d s) = s"
proof (induction s)
  case (Cons c cs)
  then show ?case
  proof (cases "split_on d cs")
    case (Cons w ws)
    with Cons.IH show ?thesis by (cases ws) auto
  qed simp
qed simp

lemma split_join:
  "ws \<noteq> [] \<Longrightarrow> (\<forall>w \<in> set ws. d \<notin> set w) \<Longrightarrow> split_on d (join_with [d] ws) = ws"
proof (induction "[d]" ws rule: join_with.induct)
  case (3 x v xs)
  then show ?case by (simp add: split_on_append)
qed (simp_all add: split_on_no_sep)

lemma of_digit_char: "n < 10 \<Longrightarrow> of_char (digit_char n) = 48 + n"
  by (simp add: digit_char_def)

text \<open>Reading decimal digits back inverts printing, so printing is injective.\<close>

definition read_digits :: "string \<Rightarrow> nat" where
  "read_digits s = foldl (\<lambda>a c. a * 10 + (of_char c - 48)) 0 s"

lemma read_nat_str [simp]: "read_digits (nat_str n) = n"
proof (induction n rule: nat_str.induct)
  case (1 n)
  then show ?case
    by (subst nat_str.simps) (auto simp: read_digits_def of_digit_char)
qed

lemma nat_str_inject [simp]: "nat_str m = nat_str n \<longleftrightarrow> m = n"
  by (metis read_nat_str)

lemma nat_str_digits: "c \<in> set (nat_str n) \<Longrightarrow> 48 \<le> (of_char c :: nat) \<and> (of_char c :: nat) \<le> 57"
proof (induction n rule: nat_str.induct)
  case (1 n)
  then show ?case
    by (subst (asm) nat_str.simps) (auto simp: of_digit_char split: if_splits)
qed

lemma nat_str_ne [simp]: "nat_str n \<noteq> []"
  by (subst nat_str.simps) simp

section \<open>Maps and sets that remember insertion order\<close>

type_synonym ('k, 'v) js_map = "('k \<times> 'v) list"

abbreviation map_get :: "('k, 'v) js_map \<Rightarrow> 'k \<Rightarrow> 'v option" where
  "map_get m k \<equiv> map_of m k"

abbreviation map_has :: "('k, 'v) js_map \<Rightarrow> 'k \<Rightarrow> bool" where
  "map_has m k \<equiv> map_of m k \<noteq> None"

abbreviation map_set :: "'k \<Rightarrow> 'v \<Rightarrow> ('k, 'v) js_map \<Rightarrow> ('k, 'v) js_map" where
  "map_set \<equiv> AList.update"

abbreviation map_delete :: "'k \<Rightarrow> ('k, 'v) js_map \<Rightarrow> ('k, 'v) js_map" where
  "map_delete \<equiv> AList.delete"

abbreviation map_keys :: "('k, 'v) js_map \<Rightarrow> 'k list" where
  "map_keys m \<equiv> map fst m"

abbreviation map_ok :: "('k, 'v) js_map \<Rightarrow> bool" where
  "map_ok m \<equiv> distinct (map fst m)"

text \<open>\<open>new Map(entries)\<close>: the entries are set in order, so a later entry wins.\<close>

definition map_from :: "('k \<times> 'v) list \<Rightarrow> ('k, 'v) js_map" where
  "map_from es = foldl (\<lambda>m (k, v). map_set k v m) [] es"

definition set_add :: "'a \<Rightarrow> 'a list \<Rightarrow> 'a list" where
  "set_add x xs = (if x \<in> set xs then xs else xs @ [x])"

lemma map_get_set [simp]:
  "map_of (map_set k v m) k' = (if k' = k then Some v else map_of m k')"
  by (simp add: AList.update_conv')

lemma map_get_delete [simp]:
  "map_of (map_delete k m) k' = (if k' = k then None else map_of m k')"
  by (simp add: AList.delete_conv')

lemma map_ok_set [simp]: "map_ok m \<Longrightarrow> map_ok (map_set k v m)"
  by (rule AList.distinct_update)

lemma map_ok_delete [simp]: "map_ok m \<Longrightarrow> map_ok (map_delete k m)"
  by (simp add: AList.delete_keys distinct_removeAll)

lemma map_ok_filter [simp]: "map_ok m \<Longrightarrow> map_ok (filter P m)"
  by (rule distinct_map_filter)

lemma map_get_iff_mem: "map_ok m \<Longrightarrow> map_of m k = Some v \<longleftrightarrow> (k, v) \<in> set m"
  by (rule map_of_eq_Some_iff)

text \<open>Lookups stay lookups: the library would turn them into membership.\<close>

declare map_of_eq_Some_iff [simp del] Some_eq_map_of_iff [simp del]

lemma map_get_filter:
  "map_ok m \<Longrightarrow> map_of (filter P m) k =
     (case map_of m k of None \<Rightarrow> None | Some v \<Rightarrow> if P (k, v) then Some v else None)"
proof (induction m)
  case (Cons e m)
  obtain k' v' where e: "e = (k', v')" by (cases e)
  with Cons.prems have "k' \<notin> fst ` set m" "map_ok m" by auto
  then have "map_of m k' = None" by (simp add: map_of_eq_None_iff)
  with Cons.IH[OF \<open>map_ok m\<close>] e show ?case by auto
qed simp

lemma map_set_fresh: "k \<notin> set (map_keys m) \<Longrightarrow> map_set k v m = m @ [(k, v)]"
  by (induction m) auto

lemma map_keys_set: "set (map_keys (map_set k v m)) = insert k (set (map_keys m))"
  by (simp add: AList.dom_update)

lemma set_map_set:
  "map_ok m \<Longrightarrow> set (map_set k v m) = insert (k, v) {e \<in> set m. fst e \<noteq> k}"
  by (induction m) (auto simp: rev_image_eqI)

lemma map_from_get: "map_of (map_from es) k = map_of (rev es) k"
  by (induction es rule: rev_induct) (auto simp: map_from_def split: prod.splits)

lemma map_from_ok [simp]: "map_ok (map_from es)"
  by (induction es rule: rev_induct) (auto simp: map_from_def split: prod.splits)

lemma set_add_set [simp]: "set (set_add x xs) = insert x (set xs)"
  by (auto simp: set_add_def)

lemma set_add_distinct [simp]: "distinct xs \<Longrightarrow> distinct (set_add x xs)"
  by (simp add: set_add_def)

section \<open>State machines\<close>

text \<open>
  A component with state is a step function \<open>input \<Rightarrow> state \<Rightarrow> state option\<close>; \<open>None\<close>
  is a step that does not return. \<open>run\<close> feeds a list of inputs. A component's theory
  interprets the interface with its own step function and invariant, which lifts every
  one-step law to whole runs.
\<close>

fun run_steps :: "('i \<Rightarrow> 's \<Rightarrow> 's option) \<Rightarrow> 'i list \<Rightarrow> 's \<Rightarrow> 's option" where
  "run_steps step [] s = Some s"
| "run_steps step (i # is) s = Option.bind (step i s) (run_steps step is)"

locale state_machine =
  fixes step :: "'i \<Rightarrow> 's \<Rightarrow> 's option"
    and inv :: "'s \<Rightarrow> bool"
  assumes step_inv: "inv s \<Longrightarrow> step i s = Some s' \<Longrightarrow> inv s'"
begin

lemma run_inv: "inv s \<Longrightarrow> run_steps step is s = Some s' \<Longrightarrow> inv s'"
  by (induction "is" arbitrary: s) (auto split: bind_splits dest: step_inv)

lemma run_append:
  "run_steps step (is @ js) s = Option.bind (run_steps step is s) (run_steps step js)"
  by (induction "is" arbitrary: s) (auto split: bind_splits)

text \<open>A reflexive and transitive relation that every step respects holds along a run.\<close>

lemma run_relates:
  assumes "\<And>s. R s s" "\<And>a b c. R a b \<Longrightarrow> R b c \<Longrightarrow> R a c"
    and "\<And>i s s'. inv s \<Longrightarrow> step i s = Some s' \<Longrightarrow> R s s'"
  shows "inv s \<Longrightarrow> run_steps step is s = Some s' \<Longrightarrow> R s s'"
proof (induction "is" arbitrary: s)
  case (Cons i "is")
  then obtain t where t: "step i s = Some t" "run_steps step is t = Some s'"
    by (auto split: bind_splits)
  with Cons have "R s t" "R t s'" using assms(3) step_inv by blast+
  then show ?case by (rule assms(2))
qed (simp add: assms(1))

end

text \<open>A machine whose steps always return: then every run does.\<close>

locale total_machine = state_machine +
  assumes step_total: "inv s \<Longrightarrow> \<exists>s'. step i s = Some s'"
begin

lemma run_total: "inv s \<Longrightarrow> \<exists>s'. run_steps step is s = Some s'"
  by (induction "is" arbitrary: s) (auto dest: step_total step_inv simp: bind_eq_Some_conv, metis step_total step_inv)

end

section \<open>Codecs\<close>

text \<open>
  A codec promises that decoding what it encoded gives the value back, on the values
  it is for. Its clients need only that: distinct values have distinct encodings.
\<close>

locale codec =
  fixes enc :: "'a \<Rightarrow> 'w"
    and dec :: "'w \<Rightarrow> 'a option"
    and valid :: "'a \<Rightarrow> bool"
  assumes dec_enc: "valid a \<Longrightarrow> dec (enc a) = Some a"
begin

lemma enc_inject: "valid a \<Longrightarrow> valid b \<Longrightarrow> enc a = enc b \<longleftrightarrow> a = b"
  by (metis dec_enc option.inject)

lemma enc_inj_on: "inj_on enc {a. valid a}"
  by (rule inj_onI) (simp add: enc_inject)

end

text \<open>A codec whose accepted wire values are exactly the encodings of valid values.\<close>

locale exact_codec = codec +
  assumes enc_dec: "dec w = Some a \<Longrightarrow> valid a \<and> enc a = w"
begin

lemma dec_iff: "dec w = Some a \<longleftrightarrow> valid a \<and> enc a = w"
  using dec_enc enc_dec by blast

lemma dec_inject: "dec w = Some a \<Longrightarrow> dec w' = Some a \<Longrightarrow> w = w'"
  by (simp add: dec_iff)

end

section \<open>Small facts about lists and options\<close>

lemma bind_Some_iff: "Option.bind x f = Some y \<longleftrightarrow> (\<exists>v. x = Some v \<and> f v = Some y)"
  by (cases x) auto

lemma nth_update_cases:
  "i < length xs \<Longrightarrow> xs[i := v] ! j = (if j = i then v else xs ! j)"
  by (simp add: nth_list_update)

lemma nth_update_other: "xs[i := v] ! j = w \<Longrightarrow> w \<noteq> v \<Longrightarrow> xs ! j = w"
  by (cases "i < length xs"; cases "i = j") (auto simp: list_update_beyond)

lemma nth_update_split: "xs[i := v] ! j = w \<Longrightarrow> j < length xs \<Longrightarrow> (j = i \<and> w = v) \<or> xs ! j = w"
  by (cases "i = j") auto

lemma find_Some_mem: "find P xs = Some x \<Longrightarrow> x \<in> set xs \<and> P x"
  by (induction xs) (auto split: if_splits)

lemma find_distinct:
  "distinct (map f xs) \<Longrightarrow> x \<in> set xs \<Longrightarrow> f x = k \<Longrightarrow> find (\<lambda>y. f y = k) xs = Some x"
  by (induction xs) (auto simp: rev_image_eqI)

lemma find_None_iff_all: "find P xs = None \<longleftrightarrow> (\<forall>x \<in> set xs. \<not> P x)"
  by (induction xs) auto

end
