(* ===== verification/Json.thy ===== *)
theory Json
  imports Helix_Prelude
begin

text \<open>
  JSON values and the two library functions the sources call on them, \<open>JSON.stringify\<close>
  without spacing and \<open>JSON.parse\<close>. An object is a list of entries in insertion order.
  Numbers are the integers: the protocol, the release service and the feature store put
  no others on the wire. Text with a fraction, an exponent or a character above
  \<open>0xFF\<close> is outside this model of \<open>JSON.parse\<close>, and so are
  object keys that read as array indices, which JavaScript iterates first.
\<close>

datatype json =
    JNull | JBool bool | JNum int | JStr string | JArr "json list" | JObj "(string \<times> json) list"

fun json_get :: "json \<Rightarrow> string \<Rightarrow> json option" where
  "json_get (JObj es) k = map_of es k"
| "json_get _ _ = None"

section \<open>Printing\<close>

definition hex_digit :: "nat \<Rightarrow> char" where
  "hex_digit n = (if n < 10 then char_of (48 + n) else char_of (87 + n))"

definition esc_char :: "char \<Rightarrow> string" where
  "esc_char c =
     (let n = of_char c :: nat
      in if n = 0x22 then [CHR 0x5C, CHR 0x22]
         else if n = 0x5C then [CHR 0x5C, CHR 0x5C]
         else if n = 0x08 then [CHR 0x5C, CHR ''b'']
         else if n = 0x0C then [CHR 0x5C, CHR ''f'']
         else if n = 0x0A then [CHR 0x5C, CHR ''n'']
         else if n = 0x0D then [CHR 0x5C, CHR ''r'']
         else if n = 0x09 then [CHR 0x5C, CHR ''t'']
         else if n < 0x20 then [CHR 0x5C, CHR ''u'', CHR ''0'', CHR ''0'', hex_digit (n div 16), hex_digit (n mod 16)]
         else [c])"

definition print_str :: "string \<Rightarrow> string" where
  "print_str s = CHR 0x22 # concat (map esc_char s) @ [CHR 0x22]"

definition print_int :: "int \<Rightarrow> string" where
  "print_int n = (if n < 0 then CHR ''-'' # nat_str (nat (- n)) else nat_str (nat n))"

fun json_print :: "json \<Rightarrow> string"
  and print_elems :: "json list \<Rightarrow> string"
  and print_members :: "(string \<times> json) list \<Rightarrow> string" where
  "json_print JNull = ''null''"
| "json_print (JBool True) = ''true''"
| "json_print (JBool False) = ''false''"
| "json_print (JNum n) = print_int n"
| "json_print (JStr s) = print_str s"
| "json_print (JArr vs) = ''['' @ print_elems vs @ '']''"
| "json_print (JObj es) = ''{'' @ print_members es @ ''}''"
| "print_elems [] = []"
| "print_elems [v] = json_print v"
| "print_elems (v # vs) = json_print v @ '','' @ print_elems vs"
| "print_members [] = []"
| "print_members [(k, v)] = print_str k @ '':'' @ json_print v"
| "print_members ((k, v) # es) = print_str k @ '':'' @ json_print v @ '','' @ print_members es"

section \<open>Parsing\<close>

definition json_ws :: "char \<Rightarrow> bool" where
  "json_ws c = (c = CHR 0x20 \<or> c = CHR 0x09 \<or> c = CHR 0x0A \<or> c = CHR 0x0D)"

definition skip_ws :: "string \<Rightarrow> string" where
  "skip_ws s = dropWhile json_ws s"

definition hex_value :: "char \<Rightarrow> nat option" where
  "hex_value c =
     (let n = of_char c :: nat
      in if 48 \<le> n \<and> n \<le> 57 then Some (n - 48)
         else if 97 \<le> n \<and> n \<le> 102 then Some (n - 87)
         else if 65 \<le> n \<and> n \<le> 70 then Some (n - 55) else None)"

definition unescape :: "char \<Rightarrow> char option" where
  "unescape c = map_of [(CHR 0x22, CHR 0x22), (CHR 0x5C, CHR 0x5C), (CHR ''/'', CHR ''/''),
     (CHR ''b'', CHR 0x08), (CHR ''f'', CHR 0x0C), (CHR ''n'', CHR 0x0A), (CHR ''r'', CHR 0x0D),
     (CHR ''t'', CHR 0x09)] c"

text \<open>After the opening quote; unescaped control characters are a syntax error.\<close>

fun parse_chars :: "string \<Rightarrow> (string \<times> string) option" where
  "parse_chars [] = None"
| "parse_chars (c # r) =
     (if c = CHR 0x22 then Some ([], r)
      else if c = CHR 0x5C then
        (case r of
           [] \<Rightarrow> None
         | e # r1 \<Rightarrow>
             if e = CHR ''u'' then
               (case r1 of
                  a # b # x # y # r2 \<Rightarrow>
                    (case (hex_value a, hex_value b, hex_value x, hex_value y) of
                       (Some 0, Some 0, Some h, Some l) \<Rightarrow>
                         map_option (\<lambda>(s, t). (char_of (h * 16 + l) # s, t)) (parse_chars r2)
                     | _ \<Rightarrow> None)
                | _ \<Rightarrow> None)
             else
               (case unescape e of
                  None \<Rightarrow> None
                | Some d \<Rightarrow> map_option (\<lambda>(s, t). (d # s, t)) (parse_chars r1)))
      else if (of_char c :: nat) < 0x20 then None
      else map_option (\<lambda>(s, t). (c # s, t)) (parse_chars r))"

definition is_digit :: "char \<Rightarrow> bool" where
  "is_digit c = (48 \<le> (of_char c :: nat) \<and> (of_char c :: nat) \<le> 57)"

definition number_tail :: "char \<Rightarrow> bool" where
  "number_tail c = (is_digit c \<or> c = CHR ''.'' \<or> c = CHR ''e'' \<or> c = CHR ''E'')"

text \<open>Digits without a leading zero, and no fraction or exponent after them.\<close>

definition parse_nat :: "string \<Rightarrow> (nat \<times> string) option" where
  "parse_nat s =
     (let ds = takeWhile is_digit s; r = dropWhile is_digit s
      in if ds = [] \<or> (hd ds = CHR ''0'' \<and> tl ds \<noteq> []) \<or> (r \<noteq> [] \<and> number_tail (hd r)) then None
         else Some (read_digits ds, r))"

definition parse_int :: "string \<Rightarrow> (int \<times> string) option" where
  "parse_int s =
     (case s of
        c # r \<Rightarrow> if c = CHR ''-'' then map_option (\<lambda>(n, t). (- int n, t)) (parse_nat r)
                 else map_option (\<lambda>(n, t). (int n, t)) (parse_nat s)
      | [] \<Rightarrow> None)"

text \<open>An entry set again keeps its place and takes the later value, as in an object literal.\<close>

definition obj_of :: "(string \<times> json) list \<Rightarrow> json" where
  "obj_of es = JObj (map_from es)"

text \<open>White space, then the given character.\<close>

definition expect :: "char \<Rightarrow> string \<Rightarrow> string option" where
  "expect d s = (case skip_ws s of [] \<Rightarrow> None | c # r \<Rightarrow> if c = d then Some r else None)"

text \<open>The grammar, by recursive descent; the first argument bounds the nesting.\<close>

fun parse_value :: "nat \<Rightarrow> string \<Rightarrow> (json \<times> string) option"
  and parse_elems :: "nat \<Rightarrow> string \<Rightarrow> (json list \<times> string) option"
  and parse_members :: "nat \<Rightarrow> string \<Rightarrow> ((string \<times> json) list \<times> string) option" where
  "parse_value 0 s = None"
| "parse_value (Suc n) s0 =
     (let s = skip_ws s0
      in if starts_with ''null'' s then Some (JNull, drop 4 s)
         else if starts_with ''true'' s then Some (JBool True, drop 4 s)
         else if starts_with ''false'' s then Some (JBool False, drop 5 s)
         else (case s of
           [] \<Rightarrow> None
         | c # r \<Rightarrow>
             if c = CHR 0x22 then map_option (\<lambda>(x, t). (JStr x, t)) (parse_chars r)
             else if c = CHR ''['' then
               (case expect (CHR '']'') r of
                  Some t \<Rightarrow> Some (JArr [], t)
                | None \<Rightarrow> map_option (\<lambda>(vs, t). (JArr vs, t)) (parse_elems n r))
             else if c = CHR ''{'' then
               (case expect (CHR ''}'') r of
                  Some t \<Rightarrow> Some (JObj [], t)
                | None \<Rightarrow> map_option (\<lambda>(es, t). (obj_of es, t)) (parse_members n r))
             else map_option (\<lambda>(x, t). (JNum x, t)) (parse_int s)))"
| "parse_elems 0 s = None"
| "parse_elems (Suc n) s =
     (case parse_value n s of
        None \<Rightarrow> None
      | Some (v, r) \<Rightarrow>
          (case expect (CHR '','') r of
             Some t \<Rightarrow> map_option (\<lambda>(vs, u). (v # vs, u)) (parse_elems n t)
           | None \<Rightarrow> map_option (\<lambda>t. ([v], t)) (expect (CHR '']'') r)))"
| "parse_members 0 s = None"
| "parse_members (Suc n) s =
     Option.bind (expect (CHR 0x22) s) (\<lambda>r.
     Option.bind (parse_chars r) (\<lambda>(k, r1).
     Option.bind (expect (CHR '':'') r1) (\<lambda>r2.
     Option.bind (parse_value n r2) (\<lambda>(v, r3).
       (case expect (CHR '','') r3 of
          Some t \<Rightarrow> map_option (\<lambda>(es, u). ((k, v) # es, u)) (parse_members n t)
        | None \<Rightarrow> map_option (\<lambda>t. ([(k, v)], t)) (expect (CHR ''}'') r3))))))"

text \<open>\<open>JSON.parse\<close>: each level of nesting uses at least one character, so the length of
  the text bounds the recursion.\<close>

definition json_parse :: "string \<Rightarrow> json option" where
  "json_parse s =
     (case parse_value (2 * length s + 2) s of
        Some (v, r) \<Rightarrow> if skip_ws r = [] then Some v else None
      | None \<Rightarrow> None)"

section \<open>Round trip\<close>

lemma starts_with_Cons [simp]: "starts_with (p # ps) (c # cs) \<longleftrightarrow> c = p \<and> starts_with ps cs"
  by (auto simp: starts_with_def)

lemma starts_with_Nil [simp]: "starts_with [] s" "\<not> starts_with (p # ps) []"
  by (simp_all add: starts_with_def)

lemma skip_ws_id [simp]: "\<not> json_ws c \<Longrightarrow> skip_ws (c # r) = c # r"
  by (simp add: skip_ws_def)

lemma hex_value_digit [simp]: "n < 16 \<Longrightarrow> hex_value (hex_digit n) = Some n"
  by (auto simp: hex_digit_def hex_value_def Let_def)

lemma parse_esc_char:
  "parse_chars (esc_char c @ t) = map_option (\<lambda>(s, u). (c # s, u)) (parse_chars t)"
proof -
  define n where "n = (of_char c :: nat)"
  have c: "c = char_of n" by (simp add: n_def)
  have named: "n = 0x22 \<Longrightarrow> c = CHR 0x22" "n = 0x5C \<Longrightarrow> c = CHR 0x5C" "n = 8 \<Longrightarrow> c = CHR 0x08"
    "n = 0xC \<Longrightarrow> c = CHR 0x0C" "n = 0xA \<Longrightarrow> c = CHR 0x0A" "n = 0xD \<Longrightarrow> c = CHR 0x0D" "n = 9 \<Longrightarrow> c = CHR 0x09"
    by (simp_all add: n_def flip: of_char_eq_iff[where 'a = nat])
  consider "n \<in> {0x22, 0x5C, 8, 0xC, 0xA, 0xD, 9}" | "n \<notin> {0x22, 0x5C, 8, 0xC, 0xA, 0xD, 9}" "n < 0x20"
    | "n \<notin> {0x22, 0x5C, 8, 0xC, 0xA, 0xD, 9}" "\<not> n < 0x20" by blast
  then show ?thesis
  proof cases
    case 1
    then show ?thesis using named by (auto simp: esc_char_def unescape_def)
  next
    case 2
    then have "esc_char c = [CHR 0x5C, CHR ''u'', CHR ''0'', CHR ''0'', hex_digit (n div 16), hex_digit (n mod 16)]"
      by (simp add: esc_char_def n_def[symmetric] Let_def)
    moreover have "hex_value (CHR ''0'') = Some 0" by (simp add: hex_value_def)
    moreover have "hex_value (hex_digit (n div 16)) = Some (n div 16)" "hex_value (hex_digit (n mod 16)) = Some (n mod 16)"
      using 2 by simp_all
    moreover have "n div 16 * 16 + n mod 16 = n" by simp
    ultimately show ?thesis by (simp add: c)
  next
    case 3
    then have "esc_char c = [c]" by (simp add: esc_char_def n_def[symmetric] Let_def)
    moreover have "c \<noteq> CHR 0x22" "c \<noteq> CHR 0x5C" using 3 by (auto simp: n_def)
    ultimately show ?thesis using 3 by (simp add: n_def)
  qed
qed

lemma parse_print_chars: "parse_chars (concat (map esc_char s) @ CHR 0x22 # r) = Some (s, r)"
  by (induction s) (simp_all add: parse_esc_char)

lemma nat_str_hd_zero: "hd (nat_str n) = CHR ''0'' \<Longrightarrow> n = 0"
proof (induction n rule: nat_str.induct)
  case (1 n)
  show ?case
  proof (cases "n < 10")
    case True
    then have "digit_char n = CHR ''0''" using 1(2) by (subst (asm) nat_str.simps) simp
    then have "(of_char (digit_char n) :: nat) = 48" by simp
    then show ?thesis using True by (simp add: of_digit_char)
  next
    case False
    have "hd (nat_str n) = hd (nat_str (n div 10))"
      using False by (subst nat_str.simps) simp
    with 1 False have "n div 10 = 0" by simp
    with False show ?thesis by simp
  qed
qed

definition no_tail :: "string \<Rightarrow> bool" where
  "no_tail r \<longleftrightarrow> r = [] \<or> \<not> number_tail (hd r)"

lemma parse_nat_str:
  assumes "no_tail r"
  shows "parse_nat (nat_str n @ r) = Some (n, r)"
proof -
  have d: "\<forall>c \<in> set (nat_str n). is_digit c" using nat_str_digits by (auto simp: is_digit_def)
  have nd: "r = [] \<or> \<not> is_digit (hd r)" using assms by (auto simp: no_tail_def number_tail_def)
  then have "takeWhile is_digit r = []" "dropWhile is_digit r = r" by (cases r; simp)+
  with d have t: "takeWhile is_digit (nat_str n @ r) = nat_str n" "dropWhile is_digit (nat_str n @ r) = r"
    by (simp_all add: takeWhile_append2 dropWhile_append2)
  have "hd (nat_str n) = CHR ''0'' \<Longrightarrow> tl (nat_str n) = []"
    by (drule nat_str_hd_zero) (simp add: nat_str.simps)
  then show ?thesis using assms by (auto simp: parse_nat_def t no_tail_def Let_def)
qed

lemma nat_str_hd_digit: "\<exists>c cs. nat_str n = c # cs \<and> is_digit c"
  using nat_str_digits[of "hd (nat_str n)" n] by (cases "nat_str n") (auto simp: is_digit_def)

lemma parse_print_int: "no_tail r \<Longrightarrow> parse_int (print_int n @ r) = Some (n, r)"
proof (cases "n < 0")
  case True
  then show "no_tail r \<Longrightarrow> ?thesis"
    by (simp add: print_int_def parse_int_def parse_nat_str)
next
  case False
  obtain c cs where c: "nat_str (nat n) = c # cs" "is_digit c" using nat_str_hd_digit by blast
  then have "c \<noteq> CHR ''-''" by (auto simp: is_digit_def)
  then show "no_tail r \<Longrightarrow> ?thesis"
    using parse_nat_str[of r "nat n"] False c by (simp add: print_int_def parse_int_def)
qed

text \<open>The nesting a value needs, and the values \<open>JSON.parse\<close> can return.\<close>

fun need :: "json \<Rightarrow> nat" and need_elems :: "json list \<Rightarrow> nat"
  and need_members :: "(string \<times> json) list \<Rightarrow> nat" where
  "need (JArr vs) = Suc (need_elems vs)"
| "need (JObj es) = Suc (need_members es)"
| "need _ = 1"
| "need_elems [] = 0"
| "need_elems (v # vs) = Suc (max (need v) (need_elems vs))"
| "need_members [] = 0"
| "need_members ((k, v) # es) = Suc (max (need v) (need_members es))"

fun json_ok :: "json \<Rightarrow> bool" where
  "json_ok (JArr vs) = (\<forall>v \<in> set vs. json_ok v)"
| "json_ok (JObj es) = (map_ok es \<and> (\<forall>e \<in> set es. json_ok (snd e)))"
| "json_ok _ = True"

lemma map_from_id: "map_ok es \<Longrightarrow> map_from es = es"
proof (induction es rule: rev_induct)
  case (snoc e es)
  then have "map_from (es @ [e]) = map_set (fst e) (snd e) es"
    by (cases e) (simp add: map_from_def)
  with snoc.prems show ?case by (simp add: map_set_fresh)
qed (simp add: map_from_def)

lemma print_elems_Cons: "print_elems (v # vs) = json_print v @ (if vs = [] then [] else '','' @ print_elems vs)"
  by (cases vs) simp_all

lemma print_members_Cons:
  "print_members ((k, v) # es) =
     print_str k @ '':'' @ json_print v @ (if es = [] then [] else '','' @ print_members es)"
  by (cases es) simp_all

lemma print_hd:
  "\<exists>c cs. json_print v = c # cs \<and> \<not> json_ws c \<and> c \<noteq> CHR '']'' \<and> c \<noteq> CHR ''}''"
proof (cases v)
  case (JBool b)
  then show ?thesis by (cases b) (simp_all add: json_ws_def)
next
  case (JNum n)
  obtain c cs where "nat_str (nat (if n < 0 then - n else n)) = c # cs" "is_digit c"
    using nat_str_hd_digit by blast
  then show ?thesis using JNum by (auto simp: print_int_def json_ws_def is_digit_def)
qed (simp_all add: json_ws_def print_str_def)

lemma no_tail_simps [simp]:
  "no_tail (CHR '','' # r)" "no_tail (CHR '']'' # r)" "no_tail (CHR ''}'' # r)" "no_tail []"
  by (simp_all add: no_tail_def number_tail_def is_digit_def)

lemma expect_simps [simp]:
  "\<not> json_ws c \<Longrightarrow> expect d (c # r) = (if c = d then Some r else None)"
  "expect d [] = None"
  by (simp_all add: expect_def) (simp add: skip_ws_def)

lemma json_ws_simps [simp]:
  "\<not> json_ws (CHR '','')" "\<not> json_ws (CHR '']'')" "\<not> json_ws (CHR ''}'')" "\<not> json_ws (CHR ''['')"
  "\<not> json_ws (CHR ''{'')" "\<not> json_ws (CHR '':'')" "\<not> json_ws (CHR 0x22)" "\<not> json_ws (CHR ''n'')"
  "\<not> json_ws (CHR ''t'')" "\<not> json_ws (CHR ''f'')" "\<not> json_ws (CHR ''-'')"
  by (simp_all add: json_ws_def)

lemma print_int_hd: "\<exists>c cs. print_int i = c # cs \<and> (is_digit c \<or> c = CHR ''-'')"
  using nat_str_hd_digit[of "nat i"] nat_str_hd_digit[of "nat (- i)"] by (auto simp: print_int_def)

lemma parse_value_int:
  assumes "no_tail r"
  shows "parse_value (Suc n) (print_int i @ r) = Some (JNum i, r)"
proof -
  obtain c cs where c: "print_int i = c # cs" "is_digit c \<or> c = CHR ''-''"
    using print_int_hd by blast
  then have "\<not> json_ws c \<and> c \<noteq> CHR ''n'' \<and> c \<noteq> CHR ''t'' \<and> c \<noteq> CHR ''f'' \<and> c \<noteq> CHR 0x22 \<and>
      c \<noteq> CHR ''['' \<and> c \<noteq> CHR ''{''"
    by (auto simp: json_ws_def is_digit_def)
  then show ?thesis using parse_print_int[OF assms, of i] c(1) by (simp add: Let_def)
qed

lemma expect_elems: "vs \<noteq> [] \<Longrightarrow> expect (CHR '']'') (print_elems vs @ r) = None"
  by (cases vs) (use print_hd[of "hd vs"] in \<open>auto simp: print_elems_Cons\<close>)

lemma expect_members: "es \<noteq> [] \<Longrightarrow> expect (CHR ''}'') (print_members es @ r) = None"
  by (cases es) (auto simp: print_members_Cons print_str_def)

lemmas json_induct = need_need_elems_need_members.induct
  [case_names Arr Obj Null Bool Int Str NoElem Elem NoMember Member]

lemma parse_print:
  "need v \<le> n \<Longrightarrow> json_ok v \<Longrightarrow> no_tail r \<Longrightarrow> parse_value n (json_print v @ r) = Some (v, r)"
  "vs \<noteq> [] \<Longrightarrow> need_elems vs \<le> n \<Longrightarrow> \<forall>v \<in> set vs. json_ok v \<Longrightarrow>
     parse_elems n (print_elems vs @ CHR '']'' # r) = Some (vs, r)"
  "es \<noteq> [] \<Longrightarrow> need_members es \<le> n \<Longrightarrow> \<forall>e \<in> set es. json_ok (snd e) \<Longrightarrow>
     parse_members n (print_members es @ CHR ''}'' # r) = Some (es, r)"
proof (induction v and vs and es arbitrary: n r and n r and n r rule: json_induct)
  case (Arr vs)
  then obtain m where n: "n = Suc m" "need_elems vs \<le> m" by (cases n) auto
  show ?case
  proof (cases "vs = []")
    case False
    then have "parse_elems m (print_elems vs @ CHR '']'' # r) = Some (vs, r)"
      using Arr n by simp
    with expect_elems[OF False] show ?thesis by (simp add: n Let_def)
  qed (simp add: n Let_def)
next
  case (Obj es)
  then obtain m where n: "n = Suc m" "need_members es \<le> m" by (cases n) auto
  have es: "obj_of es = JObj es" using Obj(3) by (simp add: obj_of_def map_from_id)
  show ?case
  proof (cases "es = []")
    case False
    then have "parse_members m (print_members es @ CHR ''}'' # r) = Some (es, r)"
      using Obj n by simp
    with expect_members[OF False] show ?thesis by (simp add: n es Let_def)
  qed (simp add: n Let_def)
next
  case (Null n)
  then show ?case by (cases n) (simp_all add: Let_def)
next
  case (Bool b)
  then show ?case by (cases n; cases b) (simp_all add: Let_def)
next
  case (Int i)
  then show ?case by (cases n) (simp_all add: parse_value_int del: parse_value.simps)
next
  case (Str s)
  then show ?case by (cases n) (simp_all add: print_str_def Let_def parse_print_chars)
next
  case (Elem v vs)
  then obtain m where n: "n = Suc m" "need v \<le> m" "need_elems vs \<le> m" by (cases n) auto
  show ?case
  proof (cases "vs = []")
    case True
    with Elem(1)[OF n(2), of "CHR '']'' # r"] Elem(5) n show ?thesis by simp
  next
    case False
    with Elem(1)[OF n(2), of "CHR '','' # print_elems vs @ CHR '']'' # r"] Elem(2)[OF False n(3)] Elem(5) n
    show ?thesis by (simp add: print_elems_Cons)
  qed
next
  case (Member k v es)
  then obtain m where n: "n = Suc m" "need v \<le> m" "need_members es \<le> m" by (cases n) auto
  have k: "parse_chars (concat (map esc_char k) @ CHR 0x22 # t) = Some (k, t)" for t
    by (rule parse_print_chars)
  show ?case
  proof (cases "es = []")
    case True
    with Member(1)[OF n(2), of "CHR ''}'' # r"] Member(5) n k show ?thesis
      by (simp add: print_str_def)
  next
    case False
    with Member(1)[OF n(2), of "CHR '','' # print_members es @ CHR ''}'' # r"] Member(2)[OF False n(3)] Member(5) n k
    show ?thesis by (simp add: print_members_Cons print_str_def)
  qed
qed auto

lemma need_bound:
  "need v \<le> length (json_print v)" "need_elems vs \<le> Suc (length (print_elems vs))"
  "need_members es \<le> Suc (length (print_members es))"
proof (induction v and vs and es rule: json_induct)
  case (Bool b) then show ?case by (cases b) simp_all
next
  case (Int i) then show ?case by (simp add: print_int_def Suc_le_eq)
next
  case (Str s) then show ?case by (simp add: print_str_def)
next
  case (Elem v vs) then show ?case by (simp add: print_elems_Cons)
next
  case (Member k v es) then show ?case by (simp add: print_members_Cons)
qed simp_all

lemma json_parse_print: "json_ok v \<Longrightarrow> json_parse (json_print v) = Some v"
  using parse_print(1)[of v "2 * length (json_print v) + 2" "[]"] need_bound(1)[of v]
  by (simp add: json_parse_def skip_ws_def)

interpretation json_codec: codec json_print json_parse json_ok
  by unfold_locales (rule json_parse_print)

end
