(* ===== verification/Trpc.thy ===== *)
theory Trpc
  imports Helix_Prelude
begin

text \<open>
  What the API routers of the backend share: the errors a procedure throws, the trimmed
  non-empty text of an input schema, and the bearer-token check of devices
  (\<open>web/packages/helix-backend/src/lib/device.ts\<close>). A database table is the list of its
  rows; a query is a search of that list.
\<close>

datatype trpc_code =
    UNAUTHORIZED | FORBIDDEN | NOT_FOUND | BAD_REQUEST | CONFLICT | PRECONDITION_FAILED | INTERNAL_ERROR

datatype trpc_error = TRPC trpc_code string

text \<open>\<open>z.string().trim().min(1)\<close>.\<close>

definition z_text :: "string \<Rightarrow> trpc_error + string" where
  "z_text s = (if trim s = [] then Inl (TRPC BAD_REQUEST ''required'') else Inr (trim s))"

definition bind_sum :: "'e + 'a \<Rightarrow> ('a \<Rightarrow> 'e + 'b) \<Rightarrow> 'e + 'b" where
  "bind_sum x f = (case x of Inl e \<Rightarrow> Inl e | Inr v \<Rightarrow> f v)"

lemma bind_sum_simps [simp]: "bind_sum (Inl e) f = Inl e" "bind_sum (Inr v) f = f v"
  by (simp_all add: bind_sum_def)

lemma bind_sum_Inr: "bind_sum x f = Inr y \<longleftrightarrow> (\<exists>v. x = Inr v \<and> f v = Inr y)"
  by (cases x) simp_all

lemma let_pair_Inr:
  "(let (a, b) = u in Inr (a, f a b)) = Inr (v, w) \<longleftrightarrow> (\<exists>b. u = (v, b) \<and> w = f v b)"
  by (cases u) auto

lemma z_text_Inr: "z_text s = Inr t \<longleftrightarrow> t = trim s \<and> t \<noteq> []"
  by (auto simp: z_text_def)

lemma z_text_id: "trim s = s \<Longrightarrow> s \<noteq> [] \<Longrightarrow> z_text s = Inr s"
  by (simp add: z_text_def)

section \<open>Devices\<close>

record device_row =
  dv_id :: string
  dv_accessToken :: string
  dv_isActive :: bool

definition BEARER_PREFIX :: string where
  "BEARER_PREFIX = ''Bearer ''"

text \<open>The \<open>authorization\<close> header, if any.\<close>

definition read_bearer_token :: "string option \<Rightarrow> string option" where
  "read_bearer_token header =
     (let headerValue = (case header of None \<Rightarrow> [] | Some h \<Rightarrow> h);
          matched = (if starts_with BEARER_PREFIX headerValue then trim (drop (length BEARER_PREFIX) headerValue) else [])
      in if matched = [] then None else Some matched)"

definition verify_device_id_token :: "string \<Rightarrow> string \<Rightarrow> device_row list \<Rightarrow> bool" where
  "verify_device_id_token deviceId token db =
     (find (\<lambda>d. dv_accessToken d = token \<and> dv_isActive d \<and> dv_id d = deviceId) db \<noteq> None)"

lemma verify_device_id_token_iff:
  "verify_device_id_token i t db \<longleftrightarrow> (\<exists>d \<in> set db. dv_accessToken d = t \<and> dv_isActive d \<and> dv_id d = i)"
  by (auto simp: verify_device_id_token_def find_None_iff_all)

end
