(* ===== verification/Release_Adapters.thy ===== *)
theory Release_Adapters
  imports Json "HOL-Library.List_Lexorder" "HOL-Library.Char_ord" "HOL-Library.Multiset" Trpc
begin

text \<open>
  Artifact types of the release service
  (\<open>web/packages/helix-backend/src/releases/adapters/\<close>): the interface an adapter
  implements (\<open>types.ts\<close>), the two adapters (\<open>esp32-firmware.ts\<close>, \<open>linux-package.ts\<close>)
  and their registry (\<open>index.ts\<close>), with the deterministic JSON text that selectors and
  build configurations are hashed over. The laws of an adapter are the locale
  \<open>artifact_adapter\<close>, interpreted on both adapters.

  SHA-256 and the collation order of \<open>String.prototype.localeCompare\<close> come from the host
  and are parameters.
\<close>

record release_host =
  rh_sha256 :: "string \<Rightarrow> string"
  rh_collate :: "string \<Rightarrow> string \<Rightarrow> bool"
  rh_contains :: "json \<Rightarrow> json \<Rightarrow> bool"
  rh_random :: "nat \<Rightarrow> string"

text \<open>\<open>rh_collate a b\<close> is \<open>a.localeCompare(b) <= 0\<close>, \<open>rh_contains\<close> is PostgreSQL's
  \<open>jsonb @> jsonb\<close>, and \<open>rh_random n\<close> the hexadecimal text of the n-th draw of
  \<open>randomBytes\<close>.\<close>

definition collation :: "(string \<Rightarrow> string \<Rightarrow> bool) \<Rightarrow> bool" where
  "collation le \<longleftrightarrow> (\<forall>a b. le a b \<or> le b a) \<and> (\<forall>a b c. le a b \<longrightarrow> le b c \<longrightarrow> le a c)"

section \<open>Deterministic JSON\<close>

text \<open>\<open>Array.prototype.sort\<close> is a stable sort.\<close>

fun insert_by :: "('a \<Rightarrow> 'a \<Rightarrow> bool) \<Rightarrow> 'a \<Rightarrow> 'a list \<Rightarrow> 'a list" where
  "insert_by le x [] = [x]"
| "insert_by le x (y # ys) = (if le x y then x # y # ys else y # insert_by le x ys)"

definition sort_by :: "('a \<Rightarrow> 'a \<Rightarrow> bool) \<Rightarrow> 'a list \<Rightarrow> 'a list" where
  "sort_by le xs = foldr (insert_by le) xs []"

lemma mset_insert_by [simp]: "mset (insert_by le x ys) = add_mset x (mset ys)"
  by (induction ys) auto

lemma mset_sort_by [simp]: "mset (sort_by le xs) = mset xs"
  by (induction xs) (auto simp: sort_by_def)

lemma set_sort_by [simp]: "set (sort_by le xs) = set xs"
  by (metis mset_sort_by set_mset_mset)

lemma length_sort_by [simp]: "length (sort_by le xs) = length xs"
  by (metis mset_sort_by size_mset)

lemma sorted_insert_by:
  assumes "\<And>a b. le a b \<or> le b a" "\<And>a b c. le a b \<Longrightarrow> le b c \<Longrightarrow> le a c" "sorted_wrt le ys"
  shows "sorted_wrt le (insert_by le x ys)"
  using assms(3)
proof (induction ys)
  case (Cons y ys)
  have set: "set (insert_by le x ys) = insert x (set ys)"
    by (metis mset_insert_by set_mset_add_mset_insert set_mset_mset)
  show ?case using Cons assms(1)[of x y] set by (auto intro: assms(2))
qed simp

lemma sorted_sort_by:
  assumes "\<And>a b. le a b \<or> le b a" "\<And>a b c. le a b \<Longrightarrow> le b c \<Longrightarrow> le a c"
  shows "sorted_wrt le (sort_by le xs)"
proof (induction xs)
  case (Cons x xs)
  with sorted_insert_by[of le] assms show ?case by (simp add: sort_by_def)
qed (simp add: sort_by_def)

text \<open>Without ties a list has one sorted arrangement.\<close>

lemma sorted_unique:
  assumes "\<And>a b. a \<in> set xs \<Longrightarrow> b \<in> set xs \<Longrightarrow> le a b \<Longrightarrow> le b a \<Longrightarrow> a = b"
    and "mset xs = mset ys" "sorted_wrt le xs" "sorted_wrt le ys"
  shows "xs = ys"
  using assms
proof (induction xs arbitrary: ys)
  case (Cons x xs)
  then obtain y ys' where ys: "ys = y # ys'" by (cases ys) auto
  have mem: "set (x # xs) = set (y # ys')" using Cons.prems(2) ys by (metis set_mset_mset)
  have "x = y"
  proof (rule ccontr)
    assume ne: "x \<noteq> y"
    with mem have in1: "y \<in> set xs" and in2: "x \<in> set ys'" by auto
    have "le x y" using Cons.prems(3) in1 by simp
    moreover have "le y x" using Cons.prems(4) ys in2 by simp
    ultimately show False using ne in1 Cons.prems(1)[of x y] by simp
  qed
  moreover have "xs = ys'"
    by (rule Cons.IH) (use Cons.prems ys \<open>x = y\<close> in auto)
  ultimately show ?case using ys by simp
qed simp

function stable_stringify :: "(string \<Rightarrow> string \<Rightarrow> bool) \<Rightarrow> json \<Rightarrow> string" where
  "stable_stringify le (JArr vs) = ''['' @ join_with '','' (map (stable_stringify le) vs) @ '']''"
| "stable_stringify le (JObj es) =
     ''{'' @ join_with '','' (map (\<lambda>(k, v). print_str k @ '':'' @ stable_stringify le v)
       (sort_by (\<lambda>a b. le (fst a) (fst b)) es)) @ ''}''"
| "stable_stringify le JNull = json_print JNull"
| "stable_stringify le (JBool b) = json_print (JBool b)"
| "stable_stringify le (JNum n) = json_print (JNum n)"
| "stable_stringify le (JStr s) = json_print (JStr s)"
  by pat_completeness auto

lemma size_entry: "(k, v) \<in> set es \<Longrightarrow> size v < Suc (size_list (size_prod (\<lambda>_. 0) size) es)"
  by (induction es) auto

lemma size_elem: "v \<in> set vs \<Longrightarrow> size v < Suc (size_list size vs)"
  by (induction vs) auto

termination stable_stringify
  by (relation "measure (\<lambda>(le, v). size v)") (auto dest: size_entry size_elem)

text \<open>The canonical form: entries sorted at every level. The deterministic text is the
  ordinary text of the canonical form.\<close>

function sort_keys :: "(string \<Rightarrow> string \<Rightarrow> bool) \<Rightarrow> json \<Rightarrow> json" where
  "sort_keys le (JArr vs) = JArr (map (sort_keys le) vs)"
| "sort_keys le (JObj es) =
     JObj (map (\<lambda>(k, v). (k, sort_keys le v)) (sort_by (\<lambda>a b. le (fst a) (fst b)) es))"
| "sort_keys le JNull = JNull"
| "sort_keys le (JBool b) = JBool b"
| "sort_keys le (JNum n) = JNum n"
| "sort_keys le (JStr s) = JStr s"
  by pat_completeness auto

termination sort_keys
  by (relation "measure (\<lambda>(le, v). size v)") (auto dest: size_entry size_elem)

lemma print_elems_join: "print_elems vs = join_with '','' (map json_print vs)"
  by (induction vs rule: induct_list012) auto

lemma print_members_join:
  "print_members es = join_with '','' (map (\<lambda>(k, v). print_str k @ '':'' @ json_print v) es)"
  by (induction es rule: induct_list012) auto

lemma stable_stringify_print: "stable_stringify le v = json_print (sort_keys le v)"
proof (induction le v rule: stable_stringify.induct)
  case (1 le vs)
  then have "map (stable_stringify le) vs = map json_print (map (sort_keys le) vs)" by simp
  then show ?case by (simp only: stable_stringify.simps sort_keys.simps json_print.simps print_elems_join)
next
  case (2 le es)
  let ?s = "sort_by (\<lambda>a b. le (fst a) (fst b)) es"
  have "map (\<lambda>(k, v). print_str k @ '':'' @ stable_stringify le v) ?s =
      map (\<lambda>(k, v). print_str k @ '':'' @ json_print v) (map (\<lambda>(k, v). (k, sort_keys le v)) ?s)"
    using 2 by (auto simp: split_def)
  then show ?case by (simp only: stable_stringify.simps sort_keys.simps json_print.simps print_members_join)
qed simp_all

lemma sort_keys_ok: "json_ok v \<Longrightarrow> json_ok (sort_keys le v)"
proof (induction le v rule: sort_keys.induct)
  case (2 le es)
  let ?s = "sort_by (\<lambda>a b. le (fst a) (fst b)) es"
  have "mset (map fst ?s) = mset (map fst es)" by simp
  then have "map_ok ?s" using 2(2) by (metis json_ok.simps(2) mset_eq_imp_distinct_iff)
  moreover have "map fst (map (\<lambda>(k, v). (k, sort_keys le v)) ?s) = map fst ?s" by (simp add: split_def)
  ultimately have "map_ok (map (\<lambda>(k, v). (k, sort_keys le v)) ?s)" by (simp only:)
  with 2 show ?case by (auto simp del: map_map)
qed auto

text \<open>So equal texts mean equal canonical forms.\<close>

lemma stable_stringify_inject:
  assumes "json_ok v" "json_ok w"
  shows "stable_stringify le v = stable_stringify le w \<longleftrightarrow> sort_keys le v = sort_keys le w"
proof -
  have "json_print (sort_keys le v) = json_print (sort_keys le w) \<longleftrightarrow> sort_keys le v = sort_keys le w"
    by (metis assms json_parse_print option.inject sort_keys_ok)
  then show ?thesis by (simp only: stable_stringify_print)
qed

lemma sort_keys_perm:
  assumes le: "collation le" and antisym: "\<And>a b. a \<in> fst ` set es \<Longrightarrow> b \<in> fst ` set es \<Longrightarrow> le a b \<Longrightarrow> le b a \<Longrightarrow> a = b"
    and ok: "map_ok es" and perm: "mset es = mset fs"
  shows "sort_keys le (JObj es) = sort_keys le (JObj fs)"
proof -
  let ?le = "\<lambda>a b. le (fst a) (fst b)"
  have "sort_by ?le es = sort_by ?le fs"
  proof (rule sorted_unique[where le = ?le])
    fix a b assume "a \<in> set (sort_by ?le es)" "b \<in> set (sort_by ?le es)" "?le a b" "?le b a"
    then have ab: "a \<in> set es" "b \<in> set es" by simp_all
    then have "fst a = fst b" using antisym \<open>?le a b\<close> \<open>?le b a\<close> by blast
    then show "a = b" using ok ab by (metis eq_key_imp_eq_value prod.collapse)
  next
    show "sorted_wrt ?le (sort_by ?le es)" "sorted_wrt ?le (sort_by ?le fs)"
      using le by (auto simp: collation_def intro!: sorted_sort_by)
  qed (use perm in simp)
  then show ?thesis by simp
qed

text \<open>\<open>selectorHashOf\<close> and its digest.\<close>

definition sha256_of_json :: "release_host \<Rightarrow> json \<Rightarrow> string" where
  "sha256_of_json h v = rh_sha256 h (stable_stringify (rh_collate h) v)"

definition selector_hash_of :: "release_host \<Rightarrow> json \<Rightarrow> string" where
  "selector_hash_of h selector = sha256_of_json h selector"

section \<open>The adapter interface\<close>

record adapter_artifact =
  aa_role :: string
  aa_offset :: "string option"
  aa_path :: "string option"
  aa_storageMode :: string
  aa_sha256 :: "string option"
  aa_sizeBytes :: "int option"
  aa_storageKey :: "string option"
  aa_registry :: "string option"
  aa_coordinate :: "string option"
  aa_refVersion :: "string option"
  aa_digest :: "string option"
  aa_metadata :: json

record instruction_artifact =
  ia_role :: string
  ia_url :: string
  ia_sha256 :: string
  ia_size :: int
  ia_offset :: "string option"
  ia_path :: "string option"

datatype consumer_instruction =
    Blob_instruction string "instruction_artifact list" json
  | Ref_instruction string string string string "(string \<times> string) list"

record manifest_args =
  ma_name :: string
  ma_version :: string
  ma_channel :: string
  ma_selector :: json
  ma_artifacts :: "adapter_artifact list"

text \<open>\<open>ad_resolve\<close> takes \<open>signUrl\<close> as a function from the storage key to the signed address.\<close>

record adapter =
  ad_key :: string
  ad_canonicalize :: "json \<Rightarrow> string + json"
  ad_config_hash :: "json \<Rightarrow> string"
  ad_manifest :: "manifest_args \<Rightarrow> string + json"
  ad_resolve :: "(string \<Rightarrow> string) \<Rightarrow> manifest_args \<Rightarrow> string + consumer_instruction"

text \<open>\<open>x ?? d\<close> on an optional value.\<close>

definition or_else :: "'a option \<Rightarrow> 'a \<Rightarrow> 'a" where
  "or_else x d = (case x of None \<Rightarrow> d | Some v \<Rightarrow> v)"

lemma or_else_simps [simp]: "or_else None d = d" "or_else (Some v) d = v"
  by (simp_all add: or_else_def)

text \<open>\<open>requestConfig.k ?? null\<close>: an absent key and \<open>null\<close> both give \<open>null\<close>.\<close>

definition get_or_null :: "json \<Rightarrow> string \<Rightarrow> json" where
  "get_or_null v k = or_else (json_get v k) JNull"

definition quoted :: "string \<Rightarrow> string" where
  "quoted s = CHR 0x22 # s @ [CHR 0x22]"

definition require_string :: "string \<Rightarrow> json option \<Rightarrow> string \<Rightarrow> string + string" where
  "require_string kind value field =
     (case value of
        Some (JStr s) \<Rightarrow>
          if trim s = [] then Inl (kind @ '' selector requires '' @ quoted field @ ''.'') else Inr (trim s)
      | _ \<Rightarrow> Inl (kind @ '' selector requires '' @ quoted field @ ''.''))"

text \<open>The blob artifacts with a storage key, each with its signed address.\<close>

definition signed_artifacts :: "(string \<Rightarrow> string) \<Rightarrow> adapter_artifact list \<Rightarrow> (adapter_artifact \<times> string) list" where
  "signed_artifacts sign_url artifacts =
     map (\<lambda>a. (a, sign_url (the (aa_storageKey a))))
       (filter (\<lambda>a. aa_storageMode a = ''blob'' \<and> aa_storageKey a \<noteq> None) artifacts)"

definition url_for :: "(adapter_artifact \<times> string) list \<Rightarrow> (string, string) js_map" where
  "url_for urls = map_from (map (\<lambda>(a, url). (aa_role a, url)) urls)"

text \<open>\<open>...(m?.has(r) === true ? { url: m.get(r) } : {})\<close>.\<close>

definition url_entry :: "(string, string) js_map option \<Rightarrow> string \<Rightarrow> (string \<times> json) list" where
  "url_entry urls r =
     (case urls of None \<Rightarrow> []
      | Some m \<Rightarrow> (case map_get m r of None \<Rightarrow> [] | Some u \<Rightarrow> [(''url'', JStr u)]))"

section \<open>Firmware for the ESP32\<close>

definition esp32_require :: "json option \<Rightarrow> string \<Rightarrow> string + string" where
  "esp32_require value field = require_string ''esp32-firmware'' value field"

definition FLASH_ROLES :: "string list" where
  "FLASH_ROLES = [''bootloader'', ''partition-table'', ''ota-data'', ''app'']"

text \<open>\<open>Number.parseInt(s, 16)\<close>: blanks, a sign and a \<open>0x\<close> before the longest run of digits;
  no digit is \<open>NaN\<close>, here \<open>None\<close>, which JSON prints as \<open>null\<close>.\<close>

definition parse_int16 :: "string \<Rightarrow> int option" where
  "parse_int16 s =
     (let t = trim_start s;
          neg = (t \<noteq> [] \<and> hd t = CHR ''-'');
          u = (if t \<noteq> [] \<and> (hd t = CHR ''-'' \<or> hd t = CHR ''+'') then tl t else t);
          w = (if starts_with ''0x'' u \<or> starts_with ''0X'' u then drop 2 u else u);
          ds = takeWhile (\<lambda>c. hex_value c \<noteq> None) w
      in if ds = [] then None
         else let n = foldl (\<lambda>a c. a * 16 + int (the (hex_value c))) 0 ds
              in Some (if neg then - n else n))"

definition json_number :: "int option \<Rightarrow> json" where
  "json_number n = (case n of None \<Rightarrow> JNull | Some i \<Rightarrow> JNum i)"

definition manifest_artifacts :: "adapter_artifact list \<Rightarrow> (string, string) js_map option \<Rightarrow> json list" where
  "manifest_artifacts artifacts urls =
     concat (map (\<lambda>role.
       case find (\<lambda>a. aa_role a = role) artifacts of
         None \<Rightarrow> []
       | Some a \<Rightarrow>
           (case (aa_offset a, aa_sha256 a) of
              (Some offset, Some sha) \<Rightarrow>
                [JObj ([(''id'', JStr role), (''name'', JStr (role @ ''.bin'')),
                        (''offset'', json_number (parse_int16 offset)), (''sha256'', JStr sha),
                        (''size'', JNum (or_else (aa_sizeBytes a) 0))] @ url_entry urls role)]
            | _ \<Rightarrow> [])) FLASH_ROLES)"

definition esp32_build_manifest :: "manifest_args \<Rightarrow> (string, string) js_map option \<Rightarrow> string + json" where
  "esp32_build_manifest args urls =
     bind_sum (esp32_require (json_get (ma_selector args) ''chip'') ''chip'') (\<lambda>chip.
     bind_sum (esp32_require (json_get (ma_selector args) ''flashSize'') ''flashSize'') (\<lambda>flashSize.
       Inr (JObj [(''chip'', JStr chip), (''baudRate'', JNum 460800), (''flashMode'', JStr ''dio''),
         (''flashFreq'', JStr ''80m''), (''flashSize'', JStr flashSize), (''version'', JStr (ma_version args)),
         (''artifacts'', JArr (manifest_artifacts (ma_artifacts args) urls))])))"

definition esp32_canonicalize :: "json \<Rightarrow> string + json" where
  "esp32_canonicalize selector =
     bind_sum (esp32_require (json_get selector ''chip'') ''chip'') (\<lambda>chip.
     bind_sum (esp32_require (json_get selector ''flashSize'') ''flashSize'') (\<lambda>flashSize.
       if get_or_null selector ''featureSet'' = JNull
       then Inr (JObj [(''chip'', JStr chip), (''flashSize'', JStr flashSize)])
       else bind_sum (esp32_require (json_get selector ''featureSet'') ''featureSet'') (\<lambda>featureSet.
         Inr (JObj [(''chip'', JStr chip), (''flashSize'', JStr flashSize), (''featureSet'', JStr featureSet)]))))"

text \<open>\<open>String(v)\<close>, which \<open>Array.prototype.sort\<close> compares by; \<open>null\<close> inside a joined array is empty.\<close>

fun js_text :: "json \<Rightarrow> string" where
  "js_text JNull = ''null''"
| "js_text (JBool b) = (if b then ''true'' else ''false'')"
| "js_text (JNum n) = print_int n"
| "js_text (JStr s) = s"
| "js_text (JArr vs) = join_with '','' (map (\<lambda>v. if v = JNull then [] else js_text v) vs)"
| "js_text (JObj es) = ''[object Object]''"

definition sorted_array :: "json option \<Rightarrow> json list" where
  "sorted_array v = (case v of Some (JArr vs) \<Rightarrow> sort_by (\<lambda>a b. js_text a \<le> js_text b) vs | _ \<Rightarrow> [])"

definition esp32_config :: "json \<Rightarrow> json" where
  "esp32_config cfg =
     JObj [(''apps'', JArr (sorted_array (json_get cfg ''apps''))), (''chip'', get_or_null cfg ''chip''),
       (''features'', JArr (sorted_array (json_get cfg ''features''))),
       (''flashSize'', get_or_null cfg ''flashSize''),
       (''set'', if get_or_null cfg ''set'' = JNull then JObj [] else get_or_null cfg ''set'')]"

definition esp32_config_hash :: "release_host \<Rightarrow> json \<Rightarrow> string" where
  "esp32_config_hash h requestConfig = sha256_of_json h (esp32_config requestConfig)"

definition esp32_resolve :: "(string \<Rightarrow> string) \<Rightarrow> manifest_args \<Rightarrow> string + consumer_instruction" where
  "esp32_resolve sign_url args =
     (let urls = signed_artifacts sign_url (ma_artifacts args)
      in bind_sum (esp32_build_manifest args (Some (url_for urls))) (\<lambda>manifest.
           Inr (Blob_instruction (ma_version args)
             (map (\<lambda>(a, url). \<lparr>ia_role = aa_role a, ia_url = url, ia_sha256 = or_else (aa_sha256 a) [],
                 ia_size = or_else (aa_sizeBytes a) 0, ia_offset = aa_offset a, ia_path = None\<rparr>) urls)
             manifest)))"

definition esp32_adapter :: "release_host \<Rightarrow> adapter" where
  "esp32_adapter h = \<lparr>ad_key = ''esp32-firmware'', ad_canonicalize = esp32_canonicalize,
     ad_config_hash = esp32_config_hash h, ad_manifest = (\<lambda>args. esp32_build_manifest args None),
     ad_resolve = esp32_resolve\<rparr>"

section \<open>Linux packages\<close>

definition linux_require :: "json option \<Rightarrow> string \<Rightarrow> string + string" where
  "linux_require value field = require_string ''helix-linux-package'' value field"

definition linux_optional :: "json option \<Rightarrow> string \<Rightarrow> string + string option" where
  "linux_optional value field =
     (if value = None \<or> value = Some JNull then Inr None
      else bind_sum (linux_require value field) (\<lambda>s. Inr (Some s)))"

definition package_entries :: "adapter_artifact list \<Rightarrow> (string, string) js_map option \<Rightarrow> json list" where
  "package_entries artifacts urls =
     map (\<lambda>a. JObj ([(''role'', JStr (aa_role a)), (''sha256'', JStr (the (aa_sha256 a))),
                     (''size'', JNum (or_else (aa_sizeBytes a) 0))] @
                    (case aa_path a of None \<Rightarrow> [] | Some p \<Rightarrow> [(''path'', JStr p)]) @ url_entry urls (aa_role a)))
       (filter (\<lambda>a. aa_storageMode a = ''blob'' \<and> aa_sha256 a \<noteq> None) artifacts)"

definition linux_build_manifest :: "manifest_args \<Rightarrow> (string, string) js_map option \<Rightarrow> string + json" where
  "linux_build_manifest args urls =
     bind_sum (linux_require (json_get (ma_selector args) ''arch'') ''arch'') (\<lambda>arch.
     bind_sum (case json_get (ma_selector args) ''distro'' of
                 None \<Rightarrow> Inr []
               | Some v \<Rightarrow> bind_sum (linux_require (Some v) ''distro'') (\<lambda>d. Inr [(''distro'', JStr d)])) (\<lambda>distro.
       Inr (JObj ([(''name'', JStr (ma_name args)), (''version'', JStr (ma_version args)), (''arch'', JStr arch)] @
         distro @ [(''packages'', JArr (package_entries (ma_artifacts args) urls))]))))"

definition linux_canonicalize :: "json \<Rightarrow> string + json" where
  "linux_canonicalize selector =
     bind_sum (linux_require (json_get selector ''arch'') ''arch'') (\<lambda>arch.
     bind_sum (linux_optional (json_get selector ''distro'') ''distro'') (\<lambda>distro.
       Inr (JObj ((''arch'', JStr arch) # (case distro of None \<Rightarrow> [] | Some d \<Rightarrow> [(''distro'', JStr d)])))))"

definition linux_config_hash :: "release_host \<Rightarrow> json \<Rightarrow> string" where
  "linux_config_hash h requestConfig =
     sha256_of_json h (JObj [(''arch'', get_or_null requestConfig ''arch''),
       (''distro'', get_or_null requestConfig ''distro''), (''name'', get_or_null requestConfig ''name'')])"

definition linux_resolve :: "(string \<Rightarrow> string) \<Rightarrow> manifest_args \<Rightarrow> string + consumer_instruction" where
  "linux_resolve sign_url args =
     (let urls = signed_artifacts sign_url (ma_artifacts args)
      in bind_sum (linux_build_manifest args (Some (url_for urls))) (\<lambda>manifest.
           Inr (Blob_instruction (ma_version args)
             (map (\<lambda>(a, url). \<lparr>ia_role = aa_role a, ia_url = url, ia_sha256 = or_else (aa_sha256 a) [],
                 ia_size = or_else (aa_sizeBytes a) 0, ia_offset = None, ia_path = aa_path a\<rparr>) urls)
             manifest)))"

definition linux_adapter :: "release_host \<Rightarrow> adapter" where
  "linux_adapter h = \<lparr>ad_key = ''helix-linux-package'', ad_canonicalize = linux_canonicalize,
     ad_config_hash = linux_config_hash h, ad_manifest = (\<lambda>args. linux_build_manifest args None),
     ad_resolve = linux_resolve\<rparr>"

section \<open>The registry\<close>

definition adapters :: "release_host \<Rightarrow> adapter list" where
  "adapters h = [esp32_adapter h, linux_adapter h]"

definition adapter_registry :: "release_host \<Rightarrow> (string, adapter) js_map" where
  "adapter_registry h = map_from (map (\<lambda>a. (ad_key a, a)) (adapters h))"

definition get_adapter :: "release_host \<Rightarrow> string \<Rightarrow> string + adapter" where
  "get_adapter h adapterKey =
     (case map_get (adapter_registry h) adapterKey of
        None \<Rightarrow> Inl (''No artifact-type adapter registered for '' @ quoted adapterKey @ ''.'')
      | Some a \<Rightarrow> Inr a)"

end
