(* ===== verification/Adapter_Laws.thy ===== *)
theory Adapter_Laws
  imports Release_Adapters
begin

text \<open>
  What the release service relies on in an adapter, as the locale \<open>artifact_adapter\<close>, and
  its interpretation on both adapters; and what the deterministic hashes identify.
\<close>

section \<open>Canonical forms and lookups\<close>

lemma map_of_same_set:
  "map_ok m \<Longrightarrow> map_ok n \<Longrightarrow> (\<And>k. map_of m k = map_of n k) \<Longrightarrow> mset m = mset n"
proof -
  assume ok: "map_ok m" "map_ok n" and eq: "\<And>k. map_of m k = map_of n k"
  have "(k, v) \<in> set m \<longleftrightarrow> (k, v) \<in> set n" for k v using ok eq by (metis map_get_iff_mem)
  then have "set m = set n" by auto
  with ok show ?thesis by (metis distinct_map set_eq_iff_mset_eq_distinct)
qed

lemma map_of_sort_by: "map_ok m \<Longrightarrow> map_of (sort_by le m) k = map_of m k"
proof -
  assume ok: "map_ok m"
  have "mset (map fst (sort_by le m)) = mset (map fst m)" by simp
  then have "map_ok (sort_by le m)" using ok by (metis mset_eq_imp_distinct_iff)
  with ok show ?thesis by (metis map_of_eqI map_get_iff_mem set_sort_by not_Some_eq)
qed

lemma map_of_map_values: "map_of (map (\<lambda>(k, v). (k, f v)) m) k = map_option f (map_of m k)"
  by (induction m) auto

definition separates :: "(string \<Rightarrow> string \<Rightarrow> bool) \<Rightarrow> string set \<Rightarrow> bool" where
  "separates le K \<longleftrightarrow> (\<forall>a \<in> K. \<forall>b \<in> K. le a b \<longrightarrow> le b a \<longrightarrow> a = b)"

lemma map_insert_by:
  "(\<And>a b. le (g a) (g b) \<longleftrightarrow> le' a b) \<Longrightarrow> map g (insert_by le' x ys) = insert_by le (g x) (map g ys)"
  by (induction ys) auto

lemma map_sort_by:
  "(\<And>a b. le (g a) (g b) \<longleftrightarrow> le' a b) \<Longrightarrow> map g (sort_by le' xs) = sort_by le (map g xs)"
  by (induction xs) (simp_all add: sort_by_def map_insert_by[of le g le'])

text \<open>Two objects have one canonical form exactly when they hold the same entries up to the
  canonical form of the values.\<close>

lemma sort_keys_iff:
  assumes le: "collation le" "separates le (set (map_keys es))" and ok: "map_ok es" "map_ok fs"
  shows "sort_keys le (JObj es) = sort_keys le (JObj fs) \<longleftrightarrow>
    (\<forall>k. map_option (sort_keys le) (map_of es k) = map_option (sort_keys le) (map_of fs k))"
proof
  assume "sort_keys le (JObj es) = sort_keys le (JObj fs)"
  then have "map_of (map (\<lambda>(k, v). (k, sort_keys le v)) (sort_by (\<lambda>a b. le (fst a) (fst b)) es)) =
      map_of (map (\<lambda>(k, v). (k, sort_keys le v)) (sort_by (\<lambda>a b. le (fst a) (fst b)) fs))" by simp
  then show "\<forall>k. map_option (sort_keys le) (map_of es k) = map_option (sort_keys le) (map_of fs k)"
    unfolding fun_eq_iff map_of_map_values map_of_sort_by[OF ok(1)] map_of_sort_by[OF ok(2)] .
next
  assume eq: "\<forall>k. map_option (sort_keys le) (map_of es k) = map_option (sort_keys le) (map_of fs k)"
  let ?le = "\<lambda>a b. le (fst a) (fst b)" and ?g = "\<lambda>(k, v). (k, sort_keys le v)"
  have com: "map ?g (sort_by ?le xs) = sort_by ?le (map ?g xs)" for xs
    by (rule map_sort_by) auto
  have keys: "map_keys (map ?g xs) = map_keys xs" for xs :: "(string \<times> json) list" by auto
  have "mset (map ?g es) = mset (map ?g fs)"
  proof (rule map_of_same_set)
    show "map_ok (map ?g es)" "map_ok (map ?g fs)" using ok by (simp_all only: keys)
    show "map_of (map ?g es) k = map_of (map ?g fs) k" for k using eq by (simp only: map_of_map_values)
  qed
  moreover have "sorted_wrt ?le (sort_by ?le xs)" for xs :: "(string \<times> json) list"
    by (rule sorted_sort_by) (use le(1) in \<open>auto simp: collation_def\<close>)
  moreover have "a = b" if "a \<in> set (map ?g es)" "b \<in> set (map ?g es)" "?le a b" "?le b a" for a b
  proof -
    have "fst ` set (map ?g es) = set (map_keys es)" by force
    then have "fst a \<in> set (map_keys es)" "fst b \<in> set (map_keys es)" using that by blast+
    then have "fst a = fst b" using le(2) that unfolding separates_def by blast
    moreover have "map_ok (map ?g es)" using ok(1) by (simp only: keys)
    ultimately show "a = b" using that by (metis eq_key_imp_eq_value prod.collapse)
  qed
  ultimately have "sort_by ?le (map ?g es) = sort_by ?le (map ?g fs)"
    by (intro sorted_unique[where le = ?le]) simp_all
  then show "sort_keys le (JObj es) = sort_keys le (JObj fs)" by (simp only: sort_keys.simps com)
qed

lemma same_keys_values:
  "map_keys es = map_keys fs \<Longrightarrow> map_ok es \<Longrightarrow>
   (\<forall>k. map_option f (map_of es k) = map_option f (map_of fs k)) \<longleftrightarrow> map (\<lambda>e. f (snd e)) es = map (\<lambda>e. f (snd e)) fs"
proof (induction es arbitrary: fs)
  case (Cons e es)
  then obtain g gs where fs: "fs = g # gs" "fst g = fst e" "map_keys gs = map_keys es" by (cases fs) auto
  have no: "map_of es (fst e) = None" "map_of gs (fst e) = None"
  proof -
    have "fst e \<notin> set (map_keys es)" using Cons.prems(2) by simp
    then show "map_of es (fst e) = None" by (simp add: map_of_eq_None_iff)
    have "fst e \<notin> set (map_keys gs)" unfolding fs(3) by (rule \<open>fst e \<notin> set (map_keys es)\<close>)
    then show "map_of gs (fst e) = None" by (simp add: map_of_eq_None_iff)
  qed
  have cons: "map_of (x # xs) k = (if k = fst x then Some (snd x) else map_of xs k)" for x :: "'a \<times> 'b" and xs k
    by (cases x) simp
  have "(\<forall>k. map_option f (map_of (e # es) k) = map_option f (map_of fs k)) \<longleftrightarrow>
      f (snd e) = f (snd g) \<and> (\<forall>k. k \<noteq> fst e \<longrightarrow> map_option f (map_of es k) = map_option f (map_of gs k))"
    unfolding fs(1) cons fs(2) by (auto split: if_splits)
  also have "\<dots> \<longleftrightarrow> f (snd e) = f (snd g) \<and> (\<forall>k. map_option f (map_of es k) = map_option f (map_of gs k))"
    using no by metis
  finally have "(\<forall>k. map_option f (map_of (e # es) k) = map_option f (map_of fs k)) \<longleftrightarrow>
      f (snd e) = f (snd g) \<and> (\<forall>k. map_option f (map_of es k) = map_option f (map_of gs k))" .
  then show ?case using Cons.IH[of gs] Cons.prems fs by simp
qed simp

text \<open>With the same keys in the same places it is enough to compare the values.\<close>

lemma sort_keys_fields:
  assumes "collation le" "separates le (set (map_keys es))" "map_ok es" "map_keys es = map_keys fs"
  shows "sort_keys le (JObj es) = sort_keys le (JObj fs) \<longleftrightarrow>
    map (\<lambda>e. sort_keys le (snd e)) es = map (\<lambda>e. sort_keys le (snd e)) fs"
proof -
  have "map_ok fs" using assms(3,4) by metis
  then show ?thesis
    using sort_keys_iff[OF assms(1-3)] same_keys_values[OF assms(4,3)] by (simp only:)
qed

lemma sort_by_text_iff: "sort_by (\<le>) xs = sort_by (\<le>) ys \<longleftrightarrow> mset xs = mset (ys :: string list)"
proof
  assume eq: "mset xs = mset ys"
  have sorted: "sorted_wrt (\<le>) (sort_by (\<le>) zs)" for zs :: "string list"
    by (rule sorted_sort_by) (rule linear, erule (1) order_trans)
  show "sort_by (\<le>) xs = sort_by (\<le>) ys"
    by (rule sorted_unique[where le = "(\<le>)", OF _ _ sorted sorted]) (use eq in simp_all)
qed (metis mset_sort_by)

text \<open>A hash tells two values apart unless their texts collide.\<close>

definition no_collision :: "release_host \<Rightarrow> json \<Rightarrow> json \<Rightarrow> bool" where
  "no_collision h v w \<longleftrightarrow>
     (rh_sha256 h (stable_stringify (rh_collate h) v) = rh_sha256 h (stable_stringify (rh_collate h) w) \<longrightarrow>
      stable_stringify (rh_collate h) v = stable_stringify (rh_collate h) w)"

lemma sha256_of_json_iff:
  "json_ok v \<Longrightarrow> json_ok w \<Longrightarrow> no_collision h v w \<Longrightarrow>
   sha256_of_json h v = sha256_of_json h w \<longleftrightarrow> sort_keys (rh_collate h) v = sort_keys (rh_collate h) w"
  unfolding sha256_of_json_def no_collision_def using stable_stringify_inject[of v w "rh_collate h"] by metis

section \<open>The laws of an adapter\<close>

definition flat_strings :: "json \<Rightarrow> bool" where
  "flat_strings t \<longleftrightarrow> (\<exists>es. t = JObj es \<and> map_ok es \<and> (\<forall>e \<in> set es. \<exists>x. snd e = JStr x \<and> x \<noteq> [] \<and> trim x = x))"

locale artifact_adapter =
  fixes a :: adapter
  assumes canonical_idem: "ad_canonicalize a s = Inr t \<Longrightarrow> ad_canonicalize a t = Inr t"
    and canonical_lookup: "(\<And>k. json_get s k = json_get s' k) \<Longrightarrow> ad_canonicalize a s = ad_canonicalize a s'"
    and canonical_flat: "ad_canonicalize a s = Inr t \<Longrightarrow> flat_strings t"
    and manifest_total: "ad_canonicalize a s = Inr (ma_selector m) \<Longrightarrow> \<exists>j. ad_manifest a m = Inr j"
    and resolve_blobs: "ad_canonicalize a s = Inr (ma_selector m) \<Longrightarrow>
      \<exists>is j. ad_resolve a sign m = Inr (Blob_instruction (ma_version m) is j) \<and>
        map (\<lambda>i. (ia_role i, ia_url i)) is =
        map (\<lambda>x. (aa_role x, sign (the (aa_storageKey x))))
          (filter (\<lambda>x. aa_storageMode x = ''blob'' \<and> aa_storageKey x \<noteq> None) (ma_artifacts m))"
begin

lemma canonical_ok: "ad_canonicalize a s = Inr t \<Longrightarrow> json_ok t"
  using canonical_flat[of s t] unfolding flat_strings_def by fastforce

lemma canonical_determined:
  assumes "ad_canonicalize a s = Inr t" "ad_canonicalize a s' = Inr t'" "\<And>k. json_get t k = json_get t' k"
  shows "t = t'"
proof -
  have "Inr t = ad_canonicalize a t" using canonical_idem[OF assms(1)] by (rule sym)
  also have "\<dots> = ad_canonicalize a t'" by (rule canonical_lookup) (rule assms(3))
  also have "\<dots> = Inr t'" by (rule canonical_idem[OF assms(2)])
  finally show ?thesis by simp
qed

text \<open>Canonical selectors have equal hashes exactly when they are equal.\<close>

lemma selector_hash_iff:
  assumes s: "ad_canonicalize a s = Inr t" "ad_canonicalize a s' = Inr t'" and nc: "no_collision h t t'"
  shows "selector_hash_of h t = selector_hash_of h t' \<longleftrightarrow> t = t'"
proof
  obtain es where es: "t = JObj es" "map_ok es" "\<forall>e \<in> set es. \<exists>x. snd e = JStr x"
    using canonical_flat[OF s(1)] unfolding flat_strings_def by blast
  obtain fs where fs: "t' = JObj fs" "map_ok fs" "\<forall>e \<in> set fs. \<exists>x. snd e = JStr x"
    using canonical_flat[OF s(2)] unfolding flat_strings_def by blast
  let ?le = "rh_collate h"
  have id: "map (\<lambda>(k, v). (k, sort_keys ?le v)) xs = xs" if "\<forall>e \<in> set xs. \<exists>x. snd e = JStr x" for xs
    using that by (induction xs) auto
  assume "selector_hash_of h t = selector_hash_of h t'"
  then have "sort_keys ?le t = sort_keys ?le t'"
    using sha256_of_json_iff[OF canonical_ok[OF s(1)] canonical_ok[OF s(2)] nc] by (simp add: selector_hash_of_def)
  then have "sort_by (\<lambda>a b. ?le (fst a) (fst b)) es = sort_by (\<lambda>a b. ?le (fst a) (fst b)) fs"
    using es fs by (simp add: id)
  then have "map_of (sort_by (\<lambda>a b. ?le (fst a) (fst b)) es) k = map_of (sort_by (\<lambda>a b. ?le (fst a) (fst b)) fs) k" for k
    by (rule arg_cong)
  then have "map_of es k = map_of fs k" for k
    unfolding map_of_sort_by[OF es(2)] map_of_sort_by[OF fs(2)] .
  then show "t = t'" using canonical_determined[OF s] es(1) fs(1) by simp
qed simp

end

section \<open>Both adapters obey them\<close>

lemma require_string_Inr:
  "require_string kind v f = Inr t \<longleftrightarrow> (\<exists>s. v = Some (JStr s) \<and> t = trim s \<and> t \<noteq> [])"
  by (auto simp: require_string_def split: option.splits json.splits if_splits)

lemmas require_simps = esp32_require_def linux_require_def require_string_Inr bind_sum_Inr

lemma signed_artifacts_roles:
  "map (\<lambda>p. (aa_role (fst p), snd p)) (signed_artifacts sign as) =
   map (\<lambda>x. (aa_role x, sign (the (aa_storageKey x))))
     (filter (\<lambda>x. aa_storageMode x = ''blob'' \<and> aa_storageKey x \<noteq> None) as)"
  by (simp add: signed_artifacts_def)

lemma esp32_canonicalize_Inr:
  "esp32_canonicalize s = Inr t \<longleftrightarrow>
   (\<exists>c f. json_get s ''chip'' = Some (JStr c) \<and> json_get s ''flashSize'' = Some (JStr f) \<and> trim c \<noteq> [] \<and> trim f \<noteq> [] \<and>
     (if get_or_null s ''featureSet'' = JNull then t = JObj [(''chip'', JStr (trim c)), (''flashSize'', JStr (trim f))]
      else \<exists>x. json_get s ''featureSet'' = Some (JStr x) \<and> trim x \<noteq> [] \<and>
        t = JObj [(''chip'', JStr (trim c)), (''flashSize'', JStr (trim f)), (''featureSet'', JStr (trim x))]))"
  by (cases "get_or_null s ''featureSet'' = JNull") (auto simp: esp32_canonicalize_def require_simps)

lemma esp32_build_manifest_ok:
  "esp32_canonicalize s = Inr (ma_selector m) \<Longrightarrow> \<exists>j. esp32_build_manifest m urls = Inr j"
  unfolding esp32_canonicalize_Inr
  by (auto simp: esp32_build_manifest_def esp32_require_def require_string_def split: if_splits)

interpretation esp32: artifact_adapter "esp32_adapter h" for h
proof unfold_locales
  fix s t s' m sign
  show "ad_canonicalize (esp32_adapter h) s = Inr t \<Longrightarrow> ad_canonicalize (esp32_adapter h) t = Inr t"
    by (auto simp: esp32_adapter_def esp32_canonicalize_Inr get_or_null_def split: if_splits)
  assume "\<And>k. json_get s k = json_get s' k"
  then have "json_get s = json_get s'" by (rule ext)
  then show "ad_canonicalize (esp32_adapter h) s = ad_canonicalize (esp32_adapter h) s'"
    by (simp add: esp32_adapter_def esp32_canonicalize_def get_or_null_def cong: if_cong)
next
  fix s t m sign
  show "ad_canonicalize (esp32_adapter h) s = Inr t \<Longrightarrow> flat_strings t"
    by (auto simp: esp32_adapter_def esp32_canonicalize_Inr flat_strings_def split: if_splits)
  show "ad_canonicalize (esp32_adapter h) s = Inr (ma_selector m) \<Longrightarrow> \<exists>j. ad_manifest (esp32_adapter h) m = Inr j"
    by (simp add: esp32_adapter_def esp32_build_manifest_ok)
  assume "ad_canonicalize (esp32_adapter h) s = Inr (ma_selector m)"
  then obtain j where "esp32_build_manifest m (Some (url_for (signed_artifacts sign (ma_artifacts m)))) = Inr j"
    using esp32_build_manifest_ok by (fastforce simp: esp32_adapter_def)
  then show "\<exists>is j. ad_resolve (esp32_adapter h) sign m = Inr (Blob_instruction (ma_version m) is j) \<and>
      map (\<lambda>i. (ia_role i, ia_url i)) is = map (\<lambda>x. (aa_role x, sign (the (aa_storageKey x))))
        (filter (\<lambda>x. aa_storageMode x = ''blob'' \<and> aa_storageKey x \<noteq> None) (ma_artifacts m))"
    by (auto simp: esp32_adapter_def esp32_resolve_def Let_def split_def comp_def signed_artifacts_def)
qed

lemma linux_canonicalize_Inr:
  "linux_canonicalize s = Inr t \<longleftrightarrow>
   (\<exists>r. json_get s ''arch'' = Some (JStr r) \<and> trim r \<noteq> [] \<and>
     (if json_get s ''distro'' = None \<or> json_get s ''distro'' = Some JNull then t = JObj [(''arch'', JStr (trim r))]
      else \<exists>x. json_get s ''distro'' = Some (JStr x) \<and> trim x \<noteq> [] \<and>
        t = JObj [(''arch'', JStr (trim r)), (''distro'', JStr (trim x))]))"
  by (cases "json_get s ''distro'' = None \<or> json_get s ''distro'' = Some JNull")
    (auto simp: linux_canonicalize_def linux_optional_def require_simps)

lemma linux_build_manifest_ok:
  "linux_canonicalize s = Inr (ma_selector m) \<Longrightarrow> \<exists>j. linux_build_manifest m urls = Inr j"
  unfolding linux_canonicalize_Inr
  by (auto simp: linux_build_manifest_def linux_require_def require_string_def split: if_splits)

interpretation linux: artifact_adapter "linux_adapter h" for h
proof unfold_locales
  fix s t s' m sign
  show "ad_canonicalize (linux_adapter h) s = Inr t \<Longrightarrow> ad_canonicalize (linux_adapter h) t = Inr t"
    by (auto simp: linux_adapter_def linux_canonicalize_Inr split: if_splits)
  assume "\<And>k. json_get s k = json_get s' k"
  then have "json_get s = json_get s'" by (rule ext)
  then show "ad_canonicalize (linux_adapter h) s = ad_canonicalize (linux_adapter h) s'"
    by (simp add: linux_adapter_def linux_canonicalize_def)
next
  fix s t m sign
  show "ad_canonicalize (linux_adapter h) s = Inr t \<Longrightarrow> flat_strings t"
    by (auto simp: linux_adapter_def linux_canonicalize_Inr flat_strings_def split: if_splits)
  show "ad_canonicalize (linux_adapter h) s = Inr (ma_selector m) \<Longrightarrow> \<exists>j. ad_manifest (linux_adapter h) m = Inr j"
    by (simp add: linux_adapter_def linux_build_manifest_ok)
  assume "ad_canonicalize (linux_adapter h) s = Inr (ma_selector m)"
  then obtain j where "linux_build_manifest m (Some (url_for (signed_artifacts sign (ma_artifacts m)))) = Inr j"
    using linux_build_manifest_ok by (fastforce simp: linux_adapter_def)
  then show "\<exists>is j. ad_resolve (linux_adapter h) sign m = Inr (Blob_instruction (ma_version m) is j) \<and>
      map (\<lambda>i. (ia_role i, ia_url i)) is = map (\<lambda>x. (aa_role x, sign (the (aa_storageKey x))))
        (filter (\<lambda>x. aa_storageMode x = ''blob'' \<and> aa_storageKey x \<noteq> None) (ma_artifacts m))"
    by (auto simp: linux_adapter_def linux_resolve_def Let_def split_def comp_def signed_artifacts_def)
qed

lemma get_adapter_cases:
  "get_adapter h k = Inr a \<longleftrightarrow>
     (k = ''esp32-firmware'' \<and> a = esp32_adapter h) \<or> (k = ''helix-linux-package'' \<and> a = linux_adapter h)"
  by (auto simp: get_adapter_def adapter_registry_def adapters_def map_from_def esp32_adapter_def linux_adapter_def
      split: if_splits)

lemma get_adapter_laws: "get_adapter h k = Inr a \<Longrightarrow> artifact_adapter a"
  using esp32.artifact_adapter_axioms linux.artifact_adapter_axioms by (auto simp: get_adapter_cases)

text \<open>Selectors name variants: an adapter that the registry finds brings a selector into a
  canonical form that it leaves as it is, that holds the trimmed texts of the selector's
  own fields and nothing else, that depends only on the entries and not on their order,
  and from which the manifest can always be built; and two canonical selectors have the
  same hash exactly when they are the same, unless SHA-256 collides on their texts.\<close>

theorem selector_identity:
  assumes a: "get_adapter h key = Inr a" and s: "ad_canonicalize a s = Inr t"
  shows "ad_canonicalize a t = Inr t \<and> flat_strings t \<and>
    (\<forall>s'. (\<forall>k. json_get s k = json_get s' k) \<longrightarrow> ad_canonicalize a s' = Inr t) \<and>
    (\<forall>k v. json_get t k = Some v \<longrightarrow> (\<exists>x. json_get s k = Some (JStr x) \<and> v = JStr (trim x))) \<and>
    (\<forall>m. ma_selector m = t \<longrightarrow> (\<exists>j. ad_manifest a m = Inr j)) \<and>
    (\<forall>s' t'. ad_canonicalize a s' = Inr t' \<longrightarrow> no_collision h t t' \<longrightarrow>
      (selector_hash_of h t = selector_hash_of h t' \<longleftrightarrow> t = t'))"
proof -
  have laws: "artifact_adapter a" by (rule get_adapter_laws[OF a])
  have "json_get t k = Some v \<Longrightarrow> \<exists>x. json_get s k = Some (JStr x) \<and> v = JStr (trim x)" for k v
    using a s by (auto simp: get_adapter_cases esp32_adapter_def linux_adapter_def esp32_canonicalize_Inr
        linux_canonicalize_Inr split: if_splits)
  moreover have "ad_canonicalize a s' = Inr t" if "\<forall>k. json_get s k = json_get s' k" for s'
    using artifact_adapter.canonical_lookup[OF laws, of s s'] that s by simp
  ultimately show ?thesis
    using artifact_adapter.canonical_idem[OF laws s] artifact_adapter.canonical_flat[OF laws s]
      artifact_adapter.manifest_total[OF laws, of t] artifact_adapter.selector_hash_iff[OF laws s] by blast
qed

definition demo_host :: release_host where
  "demo_host = \<lparr>rh_sha256 = (\<lambda>s. s), rh_collate = (\<le>), rh_contains = (\<lambda>v w. v = w), rh_random = nat_str\<rparr>"

definition demo_selector :: json where
  "demo_selector = JObj [(''flashSize'', JStr '' 4MB''), (''note'', JNull), (''chip'', JStr ''esp32s3'')]"

theorem selector_identity_witness:
  "ad_canonicalize (esp32_adapter demo_host) demo_selector =
     Inr (JObj [(''chip'', JStr ''esp32s3''), (''flashSize'', JStr ''4MB'')]) \<and>
   ad_canonicalize (esp32_adapter demo_host) (JObj [(''chip'', JStr ''esp32s3''), (''flashSize'', JStr ''4MB'')]) =
     Inr (JObj [(''chip'', JStr ''esp32s3''), (''flashSize'', JStr ''4MB'')])"
proof -
  have a: "get_adapter demo_host ''esp32-firmware'' = Inr (esp32_adapter demo_host)"
    by (simp add: get_adapter_cases)
  have s: "ad_canonicalize (esp32_adapter demo_host) demo_selector =
      Inr (JObj [(''chip'', JStr ''esp32s3''), (''flashSize'', JStr ''4MB'')])"
    by code_simp
  show ?thesis using selector_identity[OF a s] s by blast
qed

section \<open>Which build configurations are the same\<close>

text \<open>The configuration of a custom build (\<open>releases/build-dispatch.ts\<close>) and the JSON the
  request handler makes of it.\<close>

record build_config =
  bc_apps :: "string list"
  bc_features :: "string list"
  bc_set :: "(string \<times> string) list"
  bc_chip :: string
  bc_flashSize :: string

definition build_config_json :: "build_config \<Rightarrow> json" where
  "build_config_json c =
     JObj [(''apps'', JArr (map JStr (bc_apps c))), (''features'', JArr (map JStr (bc_features c))),
       (''set'', JObj (map (\<lambda>(k, v). (k, JStr v)) (bc_set c))), (''chip'', JStr (bc_chip c)),
       (''flashSize'', JStr (bc_flashSize c))]"

lemma sorted_array_texts: "sorted_array (Some (JArr (map JStr xs))) = map JStr (sort_by (\<le>) xs)"
  using map_sort_by[of "\<lambda>a b. js_text a \<le> js_text b" JStr "(\<le>)" xs] by (simp add: sorted_array_def)

lemma esp32_config_json:
  "esp32_config (build_config_json c) =
     JObj [(''apps'', JArr (map JStr (sort_by (\<le>) (bc_apps c)))), (''chip'', JStr (bc_chip c)),
       (''features'', JArr (map JStr (sort_by (\<le>) (bc_features c)))), (''flashSize'', JStr (bc_flashSize c)),
       (''set'', JObj (map (\<lambda>(k, v). (k, JStr v)) (bc_set c)))]"
  by (simp add: esp32_config_def build_config_json_def get_or_null_def sorted_array_texts)

lemma map_JStr_eq: "map JStr xs = map JStr ys \<longleftrightarrow> xs = ys"
  by (rule inj_map_eq_map) (simp add: inj_on_def)

lemma sort_keys_texts: "sort_keys le (JArr (map JStr xs)) = JArr (map JStr xs)"
  by (simp add: comp_def)

lemma texts_same:
  "map_option (sort_keys le) (map_option JStr x) = map_option (sort_keys le) (map_option JStr y) \<longleftrightarrow> x = y"
  by (cases x; cases y) auto

definition config_keys :: "string set" where
  "config_keys = {''apps'', ''chip'', ''features'', ''flashSize'', ''set''}"

lemma config_fields:
  assumes "collation le" "separates le config_keys"
  shows "sort_keys le (JObj [(''apps'', JArr (map JStr a)), (''chip'', JStr c), (''features'', JArr (map JStr f)),
      (''flashSize'', JStr z), (''set'', s)]) =
    sort_keys le (JObj [(''apps'', JArr (map JStr a')), (''chip'', JStr c'), (''features'', JArr (map JStr f')),
      (''flashSize'', JStr z'), (''set'', s')]) \<longleftrightarrow>
    a = a' \<and> f = f' \<and> sort_keys le s = sort_keys le s' \<and> c = c' \<and> z = z'"
  by (subst sort_keys_fields)
    (use assms in \<open>auto simp: config_keys_def insert_commute sort_keys_texts map_JStr_eq simp del: sort_keys.simps(1,2)\<close>)

text \<open>A custom build is found again whatever order its options were picked in: two
  configurations have the same hash exactly when they name the same apps and the same
  features, each as often, the same chip and flash size, and set the same options to the
  same values, unless SHA-256 collides on their texts.\<close>

theorem config_hash_identity:
  assumes le: "collation (rh_collate h)" "separates (rh_collate h) (config_keys \<union> set (map_keys (bc_set c)))"
    and ok: "map_ok (bc_set c)" "map_ok (bc_set d)"
    and nc: "no_collision h (esp32_config (build_config_json c)) (esp32_config (build_config_json d))"
  shows "esp32_config_hash h (build_config_json c) = esp32_config_hash h (build_config_json d) \<longleftrightarrow>
    mset (bc_apps c) = mset (bc_apps d) \<and> mset (bc_features c) = mset (bc_features d) \<and>
    map_of (bc_set c) = map_of (bc_set d) \<and> bc_chip c = bc_chip d \<and> bc_flashSize c = bc_flashSize d"
proof -
  let ?le = "rh_collate h" and ?s = "\<lambda>c. JObj (map (\<lambda>(k, v). (k, JStr v)) (bc_set c))"
  have sep: "separates ?le config_keys" "separates ?le (set (map_keys (map (\<lambda>(k, v). (k, JStr v)) (bc_set c))))"
    using le(2) by (auto simp: separates_def split_def)
  have keys: "map_keys (map (\<lambda>(k, v). (k, JStr v)) m) = map_keys m" for m :: "(string \<times> string) list" by auto
  have texts: "map_ok (map (\<lambda>(k, v). (k, JStr v)) (bc_set c))" "map_ok (map (\<lambda>(k, v). (k, JStr v)) (bc_set d))"
    using ok by (simp_all only: keys)
  have "sort_keys ?le (?s c) = sort_keys ?le (?s d) \<longleftrightarrow>
      (\<forall>k. map_option (sort_keys ?le) (map_option JStr (map_of (bc_set c) k)) =
           map_option (sort_keys ?le) (map_option JStr (map_of (bc_set d) k)))"
    using sort_keys_iff[OF le(1) sep(2) texts] unfolding map_of_map_values .
  also have "\<dots> \<longleftrightarrow> map_of (bc_set c) = map_of (bc_set d)"
    unfolding fun_eq_iff texts_same ..
  finally have set: "sort_keys ?le (?s c) = sort_keys ?le (?s d) \<longleftrightarrow> map_of (bc_set c) = map_of (bc_set d)" .
  have "esp32_config_hash h (build_config_json c) = esp32_config_hash h (build_config_json d) \<longleftrightarrow>
      sort_keys ?le (esp32_config (build_config_json c)) = sort_keys ?le (esp32_config (build_config_json d))"
    unfolding esp32_config_hash_def
    by (rule sha256_of_json_iff[OF _ _ nc]) (use texts in \<open>auto simp: esp32_config_json\<close>)
  also have "\<dots> \<longleftrightarrow> mset (bc_apps c) = mset (bc_apps d) \<and> mset (bc_features c) = mset (bc_features d) \<and>
      sort_keys ?le (?s c) = sort_keys ?le (?s d) \<and> bc_chip c = bc_chip d \<and> bc_flashSize c = bc_flashSize d"
    unfolding esp32_config_json config_fields[OF le(1) sep(1)] sort_by_text_iff ..
  finally show ?thesis unfolding set .
qed

lemma demo_host_laws: "collation (rh_collate demo_host)" "separates (rh_collate demo_host) K" "no_collision demo_host v w"
  by (auto simp: demo_host_def collation_def separates_def no_collision_def intro: order_trans)

definition demo_config :: build_config where
  "demo_config = \<lparr>bc_apps = [''wifi'', ''audio''], bc_features = [''ota''], bc_set = [(''LOG'', ''1''), (''PSRAM'', ''y'')],
     bc_chip = ''esp32s3'', bc_flashSize = ''4MB''\<rparr>"

theorem config_hash_identity_witness:
  "esp32_config_hash demo_host (build_config_json demo_config) =
     esp32_config_hash demo_host (build_config_json (demo_config\<lparr>bc_apps := [''audio'', ''wifi''],
       bc_set := [(''PSRAM'', ''y''), (''LOG'', ''1'')]\<rparr>)) \<and>
   esp32_config_hash demo_host (build_config_json demo_config) \<noteq>
     esp32_config_hash demo_host (build_config_json (demo_config\<lparr>bc_apps := [''wifi'']\<rparr>))"
proof
  have ok: "map_ok (bc_set demo_config)" by (simp add: demo_config_def)
  show "esp32_config_hash demo_host (build_config_json demo_config) =
     esp32_config_hash demo_host (build_config_json (demo_config\<lparr>bc_apps := [''audio'', ''wifi''],
       bc_set := [(''PSRAM'', ''y''), (''LOG'', ''1'')]\<rparr>))"
    by (rule config_hash_identity[OF demo_host_laws(1,2) ok _ demo_host_laws(3), THEN iffD2])
      (auto simp: demo_config_def fun_eq_iff)
  show "esp32_config_hash demo_host (build_config_json demo_config) \<noteq>
     esp32_config_hash demo_host (build_config_json (demo_config\<lparr>bc_apps := [''wifi'']\<rparr>))"
    by (subst config_hash_identity[OF demo_host_laws(1,2) ok _ demo_host_laws(3)])
      (auto simp: demo_config_def)
qed

end
