(* ===== verification/Storage_Keys.thy ===== *)
theory Storage_Keys
  imports Helix_Prelude
begin

text \<open>
  Names of stored objects (\<open>web/packages/helix-backend/src/storage/object-keys.ts\<close>):
  content-addressed keys of release blobs, and the keys of a device's own files, built
  from path segments that hold no empty, current-directory or parent-directory segment.
  \<open>path.posix.join\<close> of the Node library is written out, with its normalisation.
\<close>

definition DEVICE_STORAGE_PREFIX :: string where
  "DEVICE_STORAGE_PREFIX = ''devices''"

definition PACKAGE_STORAGE_PREFIX :: string where
  "PACKAGE_STORAGE_PREFIX = ''device-packages''"

definition CAS_STORAGE_PREFIX :: string where
  "CAS_STORAGE_PREFIX = ''cas''"

datatype storage_path_error = StoragePathError string

definition storage_error_text :: "storage_path_error \<Rightarrow> string" where
  "storage_error_text e = (case e of StoragePathError f \<Rightarrow>
     f @ '' must not contain empty, current-directory, or parent-directory segments.'')"

definition hex_char :: "char \<Rightarrow> bool" where
  "hex_char c = (let n = of_char c :: nat in (48 \<le> n \<and> n \<le> 57) \<or> (97 \<le> n \<and> n \<le> 102))"

text \<open>\<open>/^[0-9a-f]{64}$/\<close>.\<close>

definition sha256_hex :: "string \<Rightarrow> bool" where
  "sha256_hex s = (length s = 64 \<and> (\<forall>c \<in> set s. hex_char c))"

definition join_cas_key :: "string \<Rightarrow> storage_path_error + string" where
  "join_cas_key sha256 =
     (if \<not> sha256_hex sha256 then Inl (StoragePathError ''sha256'')
      else Inr (CAS_STORAGE_PREFIX @ ''/'' @ sha256))"

text \<open>\<open>value.trim().replace(/^\/+|\/+$/g, '')\<close>, then the segments.\<close>

definition strip_slashes :: "string \<Rightarrow> string" where
  "strip_slashes s =
     rev (dropWhile (\<lambda>c. c = CHR ''/'') (rev (dropWhile (\<lambda>c. c = CHR ''/'') s)))"

definition normalize_storage_path_segments :: "string \<Rightarrow> string \<Rightarrow> storage_path_error + string list" where
  "normalize_storage_path_segments value fieldName =
     (let normalized = strip_slashes (trim value)
      in if normalized = [] then Inl (StoragePathError fieldName)
         else let segments = split_on (CHR ''/'') normalized
              in if list_ex (\<lambda>g. g = [] \<or> g = ''.'' \<or> g = ''..'') segments
                 then Inl (StoragePathError fieldName) else Inr segments)"

section \<open>Posix paths\<close>

text \<open>\<open>normalizeString\<close> of Node: the kept segments, last first.\<close>

fun norm_segments :: "bool \<Rightarrow> string list \<Rightarrow> string list \<Rightarrow> string list" where
  "norm_segments absolute kept [] = rev kept"
| "norm_segments absolute kept (g # gs) =
     (if g = [] \<or> g = ''.'' then norm_segments absolute kept gs
      else if g = ''..'' then
        (if kept \<noteq> [] \<and> hd kept \<noteq> ''..'' then norm_segments absolute (tl kept) gs
         else if absolute then norm_segments absolute kept gs
         else norm_segments absolute (''..'' # kept) gs)
      else norm_segments absolute (g # kept) gs)"

definition posix_normalize :: "string \<Rightarrow> string" where
  "posix_normalize p =
     (if p = [] then ''.''
      else let absolute = (hd p = CHR ''/''); trailing = (last p = CHR ''/'');
               body = join_with ''/'' (norm_segments absolute [] (split_on (CHR ''/'') p))
           in if body = [] then (if absolute then ''/'' else if trailing then ''./'' else ''.'')
              else (if absolute then ''/'' else []) @ body @ (if trailing then ''/'' else []))"

definition posix_join :: "string list \<Rightarrow> string" where
  "posix_join parts =
     (let ne = filter (\<lambda>p. p \<noteq> []) parts
      in if ne = [] then ''.'' else posix_normalize (join_with ''/'' ne))"

section \<open>Keys of devices and packages\<close>

definition join_device_storage_key :: "string \<Rightarrow> string \<Rightarrow> storage_path_error + string" where
  "join_device_storage_key deviceId objectPath =
     (case normalize_storage_path_segments deviceId ''deviceId'' of
        Inl e \<Rightarrow> Inl e
      | Inr ds \<Rightarrow>
          (case normalize_storage_path_segments objectPath ''path'' of
             Inl e \<Rightarrow> Inl e
           | Inr ps \<Rightarrow> Inr (posix_join (DEVICE_STORAGE_PREFIX # ds @ ps))))"

definition join_package_storage_key :: "string \<Rightarrow> storage_path_error + string" where
  "join_package_storage_key objectPath =
     (case normalize_storage_path_segments objectPath ''path'' of
        Inl e \<Rightarrow> Inl e
      | Inr ps \<Rightarrow> Inr (posix_join (PACKAGE_STORAGE_PREFIX # ps)))"

section \<open>Lemmas\<close>

definition plain_segment :: "string \<Rightarrow> bool" where
  "plain_segment g \<longleftrightarrow> g \<noteq> [] \<and> g \<noteq> ''.'' \<and> g \<noteq> ''..'' \<and> CHR ''/'' \<notin> set g"

lemma norm_segments_plain:
  "\<forall>g \<in> set gs. plain_segment g \<Longrightarrow> norm_segments a kept gs = rev kept @ gs"
  by (induction gs arbitrary: kept) (auto simp: plain_segment_def)

lemma join_with_ends:
  assumes "\<forall>g \<in> set gs. plain_segment g" "gs \<noteq> []"
  shows "join_with ''/'' gs \<noteq> [] \<and> hd (join_with ''/'' gs) = hd (hd gs) \<and>
    last (join_with ''/'' gs) = last (last gs)"
  using assms
  by (induction gs rule: induct_list012) (auto simp: plain_segment_def)

text \<open>On plain segments \<open>path.posix.join\<close> is joining with a slash.\<close>

lemma posix_join_plain:
  assumes gs: "\<forall>g \<in> set gs. plain_segment g" "gs \<noteq> []"
  shows "posix_join gs = join_with ''/'' gs"
proof -
  have ne: "filter (\<lambda>p. p \<noteq> []) gs = gs" using gs(1) by (simp add: plain_segment_def)
  have split: "split_on (CHR ''/'') (join_with ''/'' gs) = gs"
    using gs by (intro split_join) (auto simp: plain_segment_def)
  have "hd gs \<in> set gs" "last gs \<in> set gs" using gs(2) by simp_all
  then have "hd (hd gs) \<noteq> CHR ''/''" "last (last gs) \<noteq> CHR ''/''"
    using gs(1) unfolding plain_segment_def by (metis hd_in_set, metis last_in_set)
  with join_with_ends[OF gs] gs(2) show ?thesis
    by (simp add: posix_join_def ne posix_normalize_def split norm_segments_plain[OF gs(1)] Let_def)
qed

lemma segments_Inr:
  "normalize_storage_path_segments v f = Inr gs \<longleftrightarrow>
     strip_slashes (trim v) \<noteq> [] \<and> gs = split_on (CHR ''/'') (strip_slashes (trim v)) \<and>
     (\<forall>g \<in> set gs. plain_segment g)"
proof -
  have "list_ex (\<lambda>g. g = [] \<or> g = ''.'' \<or> g = ''..'') (split_on (CHR ''/'') w) \<longleftrightarrow>
      \<not> (\<forall>g \<in> set (split_on (CHR ''/'') w). plain_segment g)" for w
    using split_on_segments[of _ "CHR ''/''" w] unfolding plain_segment_def list_ex_iff by blast
  then show ?thesis unfolding normalize_storage_path_segments_def Let_def
    by (cases "strip_slashes (trim v) = []") auto
qed

lemma segments_plain:
  "normalize_storage_path_segments v f = Inr gs \<Longrightarrow> gs \<noteq> [] \<and> (\<forall>g \<in> set gs. plain_segment g)"
  by (simp only: segments_Inr) simp

lemma strip_no_slash: "CHR ''/'' \<notin> set v \<Longrightarrow> strip_slashes v = v"
proof -
  have "dropWhile (\<lambda>c. c = CHR ''/'') w = w" if "CHR ''/'' \<notin> set w" for w
    using that by (cases w) auto
  then show "CHR ''/'' \<notin> set v \<Longrightarrow> strip_slashes v = v" by (simp add: strip_slashes_def)
qed

lemma segments_single:
  "normalize_storage_path_segments v f = Inr gs \<Longrightarrow> trim v = v \<Longrightarrow> CHR ''/'' \<notin> set v \<Longrightarrow> gs = [v]"
  by (simp only: segments_Inr) (simp add: strip_no_slash split_on_no_sep)

lemma prefix_plain:
  "plain_segment DEVICE_STORAGE_PREFIX" "plain_segment PACKAGE_STORAGE_PREFIX"
  "CHR ''/'' \<notin> set CAS_STORAGE_PREFIX" "CAS_STORAGE_PREFIX \<noteq> DEVICE_STORAGE_PREFIX"
  "PACKAGE_STORAGE_PREFIX \<noteq> DEVICE_STORAGE_PREFIX"
  by (simp_all add: plain_segment_def DEVICE_STORAGE_PREFIX_def PACKAGE_STORAGE_PREFIX_def CAS_STORAGE_PREFIX_def)

lemma split_posix_join:
  assumes "\<forall>g \<in> set gs. plain_segment g" "gs \<noteq> []"
  shows "split_on (CHR ''/'') (posix_join gs) = gs"
  unfolding posix_join_plain[OF assms]
  by (rule split_join) (use assms in \<open>simp_all add: plain_segment_def\<close>)

lemma device_key_segments:
  assumes "join_device_storage_key d p = Inr k"
  shows "\<exists>ds ps. normalize_storage_path_segments d ''deviceId'' = Inr ds \<and>
    normalize_storage_path_segments p ''path'' = Inr ps \<and> split_on (CHR ''/'') k = DEVICE_STORAGE_PREFIX # ds @ ps"
proof -
  obtain ds ps where ds: "normalize_storage_path_segments d ''deviceId'' = Inr ds"
    and ps: "normalize_storage_path_segments p ''path'' = Inr ps"
    and k: "k = posix_join (DEVICE_STORAGE_PREFIX # ds @ ps)"
    using assms by (auto simp: join_device_storage_key_def split: sum.splits)
  have "\<forall>g \<in> set (DEVICE_STORAGE_PREFIX # ds @ ps). plain_segment g"
    using segments_plain[OF ds] segments_plain[OF ps] prefix_plain(1) by auto
  then have "split_on (CHR ''/'') k = DEVICE_STORAGE_PREFIX # ds @ ps"
    unfolding k by (rule split_posix_join) simp
  with ds ps show ?thesis by blast
qed

lemma cas_key_inject:
  "join_cas_key a = Inr k \<Longrightarrow> join_cas_key b = Inr k \<Longrightarrow> a = b"
  by (auto simp: join_cas_key_def split: if_splits)

text \<open>C28: The files of a device live in a place of their own. A key made for a device whose
  id is one path segment has the segments \<open>devices\<close>, the id, and then the plain
  segments of the path, none of them empty, a dot or two dots; so two such devices never
  share a key, equal keys mean equal paths up to surrounding blanks and slashes, and no
  device key is a content-addressed key of a release or a package key.\<close>

theorem device_keys_isolated:
  assumes d: "trim d = d" "CHR ''/'' \<notin> set d" and k: "join_device_storage_key d p = Inr k"
  shows "(\<exists>ps. normalize_storage_path_segments p ''path'' = Inr ps \<and> (\<forall>g \<in> set ps. plain_segment g) \<and>
      split_on (CHR ''/'') k = [DEVICE_STORAGE_PREFIX, d] @ ps) \<and>
    (\<forall>d' p'. trim d' = d' \<longrightarrow> CHR ''/'' \<notin> set d' \<longrightarrow> join_device_storage_key d' p' = Inr k \<longrightarrow>
      d' = d \<and> normalize_storage_path_segments p' ''path'' = normalize_storage_path_segments p ''path'') \<and>
    (\<forall>h. join_cas_key h \<noteq> Inr k) \<and> (\<forall>q. join_package_storage_key q \<noteq> Inr k)"
proof -
  obtain ds ps where ds: "normalize_storage_path_segments d ''deviceId'' = Inr ds"
    and ps: "normalize_storage_path_segments p ''path'' = Inr ps"
    and split: "split_on (CHR ''/'') k = DEVICE_STORAGE_PREFIX # ds @ ps"
    using device_key_segments[OF k] by blast
  have seg: "split_on (CHR ''/'') k = [DEVICE_STORAGE_PREFIX, d] @ ps"
    using segments_single[OF ds d] split by simp
  have other: "d' = d \<and> normalize_storage_path_segments p' ''path'' = normalize_storage_path_segments p ''path''"
    if d': "trim d' = d'" "CHR ''/'' \<notin> set d'" and k': "join_device_storage_key d' p' = Inr k" for d' p'
  proof -
    obtain ds' ps' where ds': "normalize_storage_path_segments d' ''deviceId'' = Inr ds'"
      and ps': "normalize_storage_path_segments p' ''path'' = Inr ps'"
      and split': "split_on (CHR ''/'') k = DEVICE_STORAGE_PREFIX # ds' @ ps'"
      using device_key_segments[OF k'] by blast
    with segments_single[OF ds' d'] seg ps show ?thesis by simp
  qed
  have cas: "join_cas_key h \<noteq> Inr k" for h
  proof
    assume "join_cas_key h = Inr k"
    then have "k = CAS_STORAGE_PREFIX @ CHR ''/'' # h" by (simp add: join_cas_key_def split: if_splits)
    then have "split_on (CHR ''/'') k = CAS_STORAGE_PREFIX # split_on (CHR ''/'') h"
      using prefix_plain(3) by (simp add: split_on_append)
    with seg prefix_plain(4) show False by simp
  qed
  have package: "join_package_storage_key q \<noteq> Inr k" for q
  proof
    assume "join_package_storage_key q = Inr k"
    then obtain qs where qs: "normalize_storage_path_segments q ''path'' = Inr qs"
      and kq: "k = posix_join (PACKAGE_STORAGE_PREFIX # qs)"
      by (auto simp: join_package_storage_key_def split: sum.splits)
    have "split_on (CHR ''/'') k = PACKAGE_STORAGE_PREFIX # qs"
      unfolding kq using segments_plain[OF qs] prefix_plain(2) by (intro split_posix_join) auto
    with seg prefix_plain(5) show False by simp
  qed
  show ?thesis using ps segments_plain[OF ps] seg other cas package by blast
qed

theorem device_keys_isolated_witness:
  "join_device_storage_key ''dev-1'' ''/logs/today.txt'' = Inr ''devices/dev-1/logs/today.txt'' \<and>
   (\<forall>h. join_cas_key h \<noteq> Inr ''devices/dev-1/logs/today.txt'')"
proof -
  have k: "join_device_storage_key ''dev-1'' ''/logs/today.txt'' = Inr ''devices/dev-1/logs/today.txt''"
    by code_simp
  have d: "trim ''dev-1'' = ''dev-1''" "CHR ''/'' \<notin> set ''dev-1''" by (code_simp, simp)
  show ?thesis using device_keys_isolated[OF d k] by (intro conjI k) (elim conjE)
qed

text \<open>Nothing here limits a device id to one segment, and then two devices can share a key.\<close>

lemma device_keys_shared:
  "join_device_storage_key ''a'' ''b/c'' = Inr ''devices/a/b/c''"
  "join_device_storage_key ''a/b'' ''c'' = Inr ''devices/a/b/c''"
  by code_simp+

end
