(* ===== verification/Release_Store.thy ===== *)
theory Release_Store
  imports Adapter_Laws Storage_Keys
begin

text \<open>
  The tables of the release service (\<open>db/release-schema.ts\<close>) and the one way releases enter
  them, \<open>ingestRelease\<close> (\<open>web/packages/helix-backend/src/releases/ingest.ts\<close>), which both the
  CI registration and the callback of a custom build use.

  A table is the list of its rows in insertion order; a query is a search of that list, an
  insert appends, an update maps. Identifiers are drawn from the host's random source: the
  n-th draw is \<open>rh_random h n\<close>, and \<open>rd_draws\<close> counts the draws. The transaction of
  \<open>ingestRelease\<close> is its result: an error returns no new database. The clock is read once
  per request and is an argument. Columns that no modelled operation reads or writes (the
  display settings of a type, sort order, start of a build, names of tokens) are left out.
\<close>

section \<open>Tables\<close>

record artifact_type_row =
  ty_key :: string
  ty_displayName :: string
  ty_adapterKey :: string

record artifact_row =
  ar_id :: string
  ar_typeKey :: string
  ar_storageMode :: string
  ar_metadata :: json
  ar_sha256 :: "string option"
  ar_sizeBytes :: "int option"
  ar_storageKey :: "string option"
  ar_contentType :: "string option"
  ar_registry :: "string option"
  ar_coordinate :: "string option"
  ar_refVersion :: "string option"
  ar_digest :: "string option"
  ar_refMetadata :: "json option"

record release_row =
  re_id :: string
  re_typeKey :: string
  re_name :: string
  re_version :: string
  re_channel :: string
  re_status :: string
  re_ownerUserId :: "string option"
  re_buildId :: "string option"
  re_sourceCommit :: "string option"
  re_sourceDirty :: bool
  re_config :: json
  re_analysis :: "json option"
  re_createdAt :: nat
  re_publishedAt :: "nat option"

record variant_row =
  va_id :: string
  va_releaseId :: string
  va_selector :: json
  va_selectorHash :: string
  va_name :: "string option"
  va_manifest :: json
  va_analysis :: "json option"
  va_buildId :: "string option"
  va_status :: string
  va_createdAt :: nat

record variant_artifact_row =
  vl_id :: string
  vl_variantId :: string
  vl_artifactId :: string
  vl_role :: string
  vl_offset :: "string option"
  vl_path :: "string option"

record build_row =
  bu_id :: string
  bu_typeKey :: string
  bu_source :: string
  bu_ownerUserId :: "string option"
  bu_status :: string
  bu_requestConfig :: json
  bu_configHash :: string
  bu_selector :: "json option"
  bu_releaseId :: "string option"
  bu_variantId :: "string option"
  bu_callbackTokenHash :: "string option"
  bu_callbackExpiresAt :: "nat option"
  bu_analysis :: "json option"
  bu_errorSummary :: "string option"
  bu_durationMs :: "int option"
  bu_createdAt :: nat
  bu_finishedAt :: "nat option"

record channel_head_row =
  ch_id :: string
  ch_typeKey :: string
  ch_name :: string
  ch_channel :: string
  ch_releaseId :: string
  ch_updatedAt :: nat

record profile_track_row =
  pt_id :: string
  pt_profileId :: string
  pt_typeKey :: string
  pt_releaseName :: string
  pt_channel :: "string option"
  pt_pinnedReleaseId :: "string option"
  pt_selector :: "json option"
  pt_autoUpdate :: bool

record device_profile_row =
  dp_deviceId :: string
  dp_profileId :: string

record ci_token_scopes =
  sc_typeKeys :: "string list option"
  sc_names :: "string list option"
  sc_canPublish :: "bool option"

record ci_token_row =
  ct_id :: string
  ct_tokenPrefix :: string
  ct_tokenHash :: string
  ct_scopes :: "ci_token_scopes option"
  ct_lastUsedAt :: "nat option"
  ct_expiresAt :: "nat option"
  ct_revokedAt :: "nat option"

record releases_db =
  rd_types :: "artifact_type_row list"
  rd_artifacts :: "artifact_row list"
  rd_releases :: "release_row list"
  rd_variants :: "variant_row list"
  rd_links :: "variant_artifact_row list"
  rd_heads :: "channel_head_row list"
  rd_builds :: "build_row list"
  rd_tokens :: "ci_token_row list"
  rd_tracks :: "profile_track_row list"
  rd_deviceProfiles :: "device_profile_row list"
  rd_draws :: nat

section \<open>Release descriptors\<close>

record artifact_ref =
  rf_registry :: string
  rf_coordinate :: string
  rf_refVersion :: string
  rf_digest :: string
  rf_metadata :: "json option"

text \<open>A blob has its digest, size, content type and metadata; a reference names a registry entry.\<close>

datatype artifact_body =
    Blob_body string int "string option" "json option"
  | Ref_body artifact_ref

record ingest_artifact =
  in_role :: string
  in_offset :: "string option"
  in_path :: "string option"
  in_body :: artifact_body

record ingest_variant =
  iv_selector :: json
  iv_name :: "string option"
  iv_analysis :: "json option"
  iv_artifacts :: "ingest_artifact list"

record release_descriptor =
  de_typeKey :: string
  de_name :: string
  de_version :: string
  de_channel :: string
  de_sourceCommit :: "string option"
  de_sourceDirty :: "bool option"
  de_config :: "json option"
  de_analysis :: "json option"
  de_publish :: bool
  de_variants :: "ingest_variant list"

record ingest_context =
  ic_ownerUserId :: "string option"
  ic_buildId :: "string option"

section \<open>Upserts\<close>

definition prefixed_id :: "release_host \<Rightarrow> string \<Rightarrow> nat \<Rightarrow> string" where
  "prefixed_id h prefix n = prefix @ ''_'' @ rh_random h n"

text \<open>One draw: the identifier and the database that counts it.\<close>

definition draw_id :: "release_host \<Rightarrow> string \<Rightarrow> releases_db \<Rightarrow> string \<times> releases_db" where
  "draw_id h prefix db = (prefixed_id h prefix (rd_draws db), db\<lparr>rd_draws := Suc (rd_draws db)\<rparr>)"

definition cas_key :: "string \<Rightarrow> string + string" where
  "cas_key sha = (case join_cas_key sha of Inl e \<Rightarrow> Inl (storage_error_text e) | Inr k \<Rightarrow> Inr k)"

definition to_adapter_artifact :: "ingest_artifact \<Rightarrow> string + adapter_artifact" where
  "to_adapter_artifact input =
     (case in_body input of
        Ref_body rf \<Rightarrow>
          Inr \<lparr>aa_role = in_role input, aa_offset = in_offset input, aa_path = in_path input,
            aa_storageMode = ''ref'', aa_sha256 = None, aa_sizeBytes = None, aa_storageKey = None,
            aa_registry = Some (rf_registry rf), aa_coordinate = Some (rf_coordinate rf),
            aa_refVersion = Some (rf_refVersion rf), aa_digest = Some (rf_digest rf),
            aa_metadata = or_else (rf_metadata rf) (JObj [])\<rparr>
      | Blob_body sha len contentType metadata \<Rightarrow>
          bind_sum (cas_key sha) (\<lambda>key.
            Inr \<lparr>aa_role = in_role input, aa_offset = in_offset input, aa_path = in_path input,
              aa_storageMode = ''blob'', aa_sha256 = Some sha, aa_sizeBytes = Some len, aa_storageKey = Some key,
              aa_registry = None, aa_coordinate = None, aa_refVersion = None, aa_digest = None,
              aa_metadata = or_else metadata (JObj [])\<rparr>))"

definition same_ref :: "artifact_ref \<Rightarrow> artifact_row \<Rightarrow> bool" where
  "same_ref rf a \<longleftrightarrow> ar_storageMode a = ''ref'' \<and> ar_registry a = Some (rf_registry rf) \<and>
     ar_coordinate a = Some (rf_coordinate rf) \<and> ar_digest a = Some (rf_digest rf)"

definition same_blob :: "string \<Rightarrow> artifact_row \<Rightarrow> bool" where
  "same_blob sha a \<longleftrightarrow> ar_storageMode a = ''blob'' \<and> ar_sha256 a = Some sha"

definition ref_row :: "string \<Rightarrow> string \<Rightarrow> artifact_ref \<Rightarrow> artifact_row" where
  "ref_row rowId typeKey rf =
     \<lparr>ar_id = rowId, ar_typeKey = typeKey, ar_storageMode = ''ref'', ar_metadata = or_else (rf_metadata rf) (JObj []),
      ar_sha256 = None, ar_sizeBytes = None, ar_storageKey = None, ar_contentType = None,
      ar_registry = Some (rf_registry rf), ar_coordinate = Some (rf_coordinate rf),
      ar_refVersion = Some (rf_refVersion rf), ar_digest = Some (rf_digest rf), ar_refMetadata = rf_metadata rf\<rparr>"

definition blob_row ::
    "string \<Rightarrow> string \<Rightarrow> string \<Rightarrow> int \<Rightarrow> string option \<Rightarrow> json option \<Rightarrow> string \<Rightarrow> artifact_row" where
  "blob_row rowId typeKey sha len contentType metadata key =
     \<lparr>ar_id = rowId, ar_typeKey = typeKey, ar_storageMode = ''blob'', ar_metadata = or_else metadata (JObj []),
      ar_sha256 = Some sha, ar_sizeBytes = Some len, ar_storageKey = Some key, ar_contentType = contentType,
      ar_registry = None, ar_coordinate = None, ar_refVersion = None, ar_digest = None, ar_refMetadata = None\<rparr>"

definition upsert_artifact ::
    "release_host \<Rightarrow> string \<Rightarrow> ingest_artifact \<Rightarrow> releases_db \<Rightarrow> string + (string \<times> releases_db)" where
  "upsert_artifact h typeKey input db =
     (case in_body input of
        Ref_body rf \<Rightarrow>
          (case find (same_ref rf) (rd_artifacts db) of
             Some existing \<Rightarrow> Inr (ar_id existing, db)
           | None \<Rightarrow>
               (let (rowId, db1) = draw_id h ''art'' db
                in Inr (rowId, db1\<lparr>rd_artifacts := rd_artifacts db1 @ [ref_row rowId typeKey rf]\<rparr>)))
      | Blob_body sha len contentType metadata \<Rightarrow>
          (case find (same_blob sha) (rd_artifacts db) of
             Some existing \<Rightarrow> Inr (ar_id existing, db)
           | None \<Rightarrow>
               (let (rowId, db1) = draw_id h ''art'' db
                in bind_sum (cas_key sha) (\<lambda>key.
                     Inr (rowId, db1\<lparr>rd_artifacts := rd_artifacts db1 @
                       [blob_row rowId typeKey sha len contentType metadata key]\<rparr>)))))"

definition new_release :: "string \<Rightarrow> nat \<Rightarrow> release_descriptor \<Rightarrow> ingest_context \<Rightarrow> release_row" where
  "new_release rowId now d c =
     \<lparr>re_id = rowId, re_typeKey = de_typeKey d, re_name = de_name d, re_version = de_version d,
      re_channel = de_channel d, re_status = (if de_publish d then ''ready'' else ''draft''),
      re_ownerUserId = ic_ownerUserId c, re_buildId = ic_buildId c,
      re_sourceCommit = de_sourceCommit d, re_sourceDirty = or_else (de_sourceDirty d) False,
      re_config = or_else (de_config d) (JObj []), re_analysis = de_analysis d, re_createdAt = now,
      re_publishedAt = (if de_publish d then Some now else None)\<rparr>"

definition upsert_release ::
    "release_host \<Rightarrow> nat \<Rightarrow> release_descriptor \<Rightarrow> ingest_context \<Rightarrow> releases_db \<Rightarrow> string \<times> releases_db" where
  "upsert_release h now d c db =
     (case find (\<lambda>r. re_typeKey r = de_typeKey d \<and> re_name r = de_name d \<and> re_version r = de_version d)
             (rd_releases db) of
        Some existing \<Rightarrow> (re_id existing, db)
      | None \<Rightarrow>
          (let (rowId, db1) = draw_id h ''rel'' db
           in (rowId, db1\<lparr>rd_releases := rd_releases db1 @ [new_release rowId now d c]\<rparr>)))"

definition new_variant ::
    "string \<Rightarrow> nat \<Rightarrow> string \<Rightarrow> json \<Rightarrow> string \<Rightarrow> ingest_variant \<Rightarrow> json \<Rightarrow> string option \<Rightarrow> variant_row" where
  "new_variant rowId now releaseId selector selectorHash iv manifest buildId =
     \<lparr>va_id = rowId, va_releaseId = releaseId, va_selector = selector, va_selectorHash = selectorHash,
      va_name = iv_name iv, va_manifest = manifest, va_analysis = iv_analysis iv,
      va_buildId = buildId, va_status = ''ready'', va_createdAt = now\<rparr>"

definition upsert_variant ::
    "release_host \<Rightarrow> nat \<Rightarrow> string \<Rightarrow> json \<Rightarrow> string \<Rightarrow> ingest_variant \<Rightarrow> json \<Rightarrow> string option \<Rightarrow>
     releases_db \<Rightarrow> string \<times> releases_db" where
  "upsert_variant h now releaseId selector selectorHash iv manifest buildId db =
     (case find (\<lambda>v. va_releaseId v = releaseId \<and> va_selectorHash v = selectorHash) (rd_variants db) of
        Some existing \<Rightarrow> (va_id existing, db)
      | None \<Rightarrow>
          (let (rowId, db1) = draw_id h ''var'' db
           in (rowId, db1\<lparr>rd_variants := rd_variants db1 @
                [new_variant rowId now releaseId selector selectorHash iv manifest buildId]\<rparr>)))"

definition upsert_variant_artifact ::
    "release_host \<Rightarrow> string \<Rightarrow> ingest_artifact \<Rightarrow> string \<Rightarrow> releases_db \<Rightarrow> releases_db" where
  "upsert_variant_artifact h variantId input artifactId db =
     (case find (\<lambda>l. vl_variantId l = variantId \<and> vl_role l = in_role input) (rd_links db) of
        Some existing \<Rightarrow> db
      | None \<Rightarrow>
          (let (rowId, db1) = draw_id h ''vart'' db
           in db1\<lparr>rd_links := rd_links db1 @
                [\<lparr>vl_id = rowId, vl_variantId = variantId, vl_artifactId = artifactId, vl_role = in_role input,
                  vl_offset = in_offset input, vl_path = in_path input\<rparr>]\<rparr>))"

definition publish_release ::
    "release_host \<Rightarrow> nat \<Rightarrow> release_descriptor \<Rightarrow> string \<Rightarrow> releases_db \<Rightarrow> releases_db" where
  "publish_release h now d releaseId db =
     (let db0 = db\<lparr>rd_releases := map (\<lambda>r. if re_id r = releaseId
            then r\<lparr>re_status := ''ready'', re_publishedAt := Some now\<rparr> else r) (rd_releases db)\<rparr>
      in case find (\<lambda>x. ch_typeKey x = de_typeKey d \<and> ch_name x = de_name d \<and> ch_channel x = de_channel d)
                (rd_heads db0) of
           None \<Rightarrow>
             (let (rowId, db1) = draw_id h ''head'' db0
              in db1\<lparr>rd_heads := rd_heads db1 @
                   [\<lparr>ch_id = rowId, ch_typeKey = de_typeKey d, ch_name = de_name d, ch_channel = de_channel d,
                     ch_releaseId = releaseId, ch_updatedAt = now\<rparr>]\<rparr>)
         | Some head \<Rightarrow>
             db0\<lparr>rd_heads := map (\<lambda>x. if ch_id x = ch_id head
                then x\<lparr>ch_releaseId := releaseId, ch_updatedAt := now\<rparr> else x) (rd_heads db0)\<rparr>)"

section \<open>Ingestion\<close>

text \<open>The artifacts of a variant: the links to make, and what the adapter sees of them.\<close>

fun ingest_artifacts ::
    "release_host \<Rightarrow> string \<Rightarrow> ingest_artifact list \<Rightarrow> releases_db \<Rightarrow>
     string + ((ingest_artifact \<times> string) list \<times> adapter_artifact list \<times> releases_db)" where
  "ingest_artifacts h typeKey [] db = Inr ([], [], db)"
| "ingest_artifacts h typeKey (a # as) db =
     bind_sum (upsert_artifact h typeKey a db) (\<lambda>(artifactId, db1).
     bind_sum (to_adapter_artifact a) (\<lambda>aa.
     bind_sum (ingest_artifacts h typeKey as db1) (\<lambda>(links, aas, db2).
       Inr ((a, artifactId) # links, aa # aas, db2))))"

definition link_artifacts ::
    "release_host \<Rightarrow> string \<Rightarrow> (ingest_artifact \<times> string) list \<Rightarrow> releases_db \<Rightarrow> releases_db" where
  "link_artifacts h variantId links db = fold (\<lambda>(a, i). upsert_variant_artifact h variantId a i) links db"

definition manifest_args_of :: "release_descriptor \<Rightarrow> json \<Rightarrow> adapter_artifact list \<Rightarrow> manifest_args" where
  "manifest_args_of d selector aas =
     \<lparr>ma_name = de_name d, ma_version = de_version d, ma_channel = de_channel d, ma_selector = selector,
      ma_artifacts = aas\<rparr>"

definition ingest_variant_of ::
    "release_host \<Rightarrow> nat \<Rightarrow> adapter \<Rightarrow> release_descriptor \<Rightarrow> ingest_context \<Rightarrow> string \<Rightarrow> ingest_variant \<Rightarrow>
     releases_db \<Rightarrow> string + (string \<times> releases_db)" where
  "ingest_variant_of h now a d c releaseId iv db =
     bind_sum (ad_canonicalize a (iv_selector iv)) (\<lambda>selector.
     bind_sum (ingest_artifacts h (de_typeKey d) (iv_artifacts iv) db) (\<lambda>(links, aas, db1).
     bind_sum (ad_manifest a (manifest_args_of d selector aas)) (\<lambda>manifest.
       (let (variantId, db2) =
              upsert_variant h now releaseId selector (selector_hash_of h selector) iv manifest (ic_buildId c) db1
        in Inr (variantId, link_artifacts h variantId links db2)))))"

fun ingest_variants ::
    "release_host \<Rightarrow> nat \<Rightarrow> adapter \<Rightarrow> release_descriptor \<Rightarrow> ingest_context \<Rightarrow> string \<Rightarrow> ingest_variant list \<Rightarrow>
     releases_db \<Rightarrow> string + (string list \<times> releases_db)" where
  "ingest_variants h now a d c releaseId [] db = Inr ([], db)"
| "ingest_variants h now a d c releaseId (iv # ivs) db =
     bind_sum (ingest_variant_of h now a d c releaseId iv db) (\<lambda>(variantId, db1).
     bind_sum (ingest_variants h now a d c releaseId ivs db1) (\<lambda>(variantIds, db2).
       Inr (variantId # variantIds, db2)))"

record ingest_result =
  ir_releaseId :: string
  ir_variantIds :: "string list"

definition ingest_release ::
    "release_host \<Rightarrow> nat \<Rightarrow> release_descriptor \<Rightarrow> ingest_context \<Rightarrow> releases_db \<Rightarrow>
     string + (ingest_result \<times> releases_db)" where
  "ingest_release h now d c db =
     (case find (\<lambda>t. ty_key t = de_typeKey d) (rd_types db) of
        None \<Rightarrow> Inl (''Unknown artifact type '' @ quoted (de_typeKey d) @ ''.'')
      | Some ty \<Rightarrow>
          bind_sum (get_adapter h (ty_adapterKey ty)) (\<lambda>a.
            (let (releaseId, db1) = upsert_release h now d c db
             in bind_sum (ingest_variants h now a d c releaseId (de_variants d) db1) (\<lambda>(variantIds, db2).
                  Inr (\<lparr>ir_releaseId = releaseId, ir_variantIds = variantIds\<rparr>,
                       if de_publish d then publish_release h now d releaseId db2 else db2)))))"

end
