(* ===== verification/Features.thy ===== *)
theory Features
  imports Release_Store
begin

text \<open>
  Device feature flags (\<open>web/packages/helix-backend/src/features/\<close>): the registry of known
  features (\<open>registry.ts\<close>), the seed of the catalog (\<open>seed.ts\<close>), the resolution of a device's
  features (\<open>resolve.ts\<close>) and the administrator's procedures (\<open>admin-router.ts\<close>). Overrides win
  over profile grants, grants over the default.
\<close>

section \<open>Registry\<close>

record feature_definition =
  fd_key :: string

type_synonym feature_registry = "(string, feature_definition) js_map"

definition registry_register :: "string \<Rightarrow> feature_registry \<Rightarrow> feature_definition \<times> feature_registry" where
  "registry_register key features =
     (case map_get features key of
        Some existing \<Rightarrow> (existing, features)
      | None \<Rightarrow> (let d = \<lparr>fd_key = key\<rparr> in (d, map_set key d features)))"

definition registry_has :: "string \<Rightarrow> feature_registry \<Rightarrow> bool" where
  "registry_has key features = map_has features key"

definition registry_list :: "feature_registry \<Rightarrow> feature_definition list" where
  "registry_list features = map snd features"

definition registry_keys :: "feature_registry \<Rightarrow> string list" where
  "registry_keys features = map_keys features"

text \<open>\<open>defineFeature\<close>: the registry behind the global symbol is the state.\<close>

definition define_feature :: "string \<Rightarrow> feature_registry \<Rightarrow> feature_definition \<times> feature_registry" where
  "define_feature key featureRegistry = registry_register key featureRegistry"

section \<open>Tables\<close>

record profile_feature_row =
  pf_profileId :: string
  pf_featureKey :: string

record feature_override_row =
  fo_deviceId :: string
  fo_featureKey :: string
  fo_enabled :: bool
  fo_note :: "string option"
  fo_createdBy :: "string option"

text \<open>The key columns of \<open>feature\<close> and \<open>profile\<close>, and three tables of rows.\<close>

record feature_db =
  ft_feature :: "string list"
  ft_profile :: "string list"
  ft_deviceProfile :: "device_profile_row list"
  ft_profileFeature :: "profile_feature_row list"
  ft_override :: "feature_override_row list"

definition seed_features :: "string list \<Rightarrow> feature_db \<Rightarrow> feature_db" where
  "seed_features keys db =
     (if length keys = 0 then db else db\<lparr>ft_feature := foldl (\<lambda>fs k. set_add k fs) (ft_feature db) keys\<rparr>)"

section \<open>Resolution\<close>

datatype feature_source = SrcOverride | SrcProfile | SrcDefault

record feature_resolution =
  fr_enabled :: bool
  fr_source :: feature_source

definition resolution :: "bool \<Rightarrow> feature_source \<Rightarrow> feature_resolution" where
  "resolution e s = \<lparr>fr_enabled = e, fr_source = s\<rparr>"

text \<open>\<open>if (result.has(key)) result.set(key, \<dots>)\<close> for every row.\<close>

fun set_known :: "(string \<times> feature_resolution) list \<Rightarrow> (string, feature_resolution) js_map
    \<Rightarrow> (string, feature_resolution) js_map" where
  "set_known [] result = result"
| "set_known ((key, v) # rows) result =
     set_known rows (if map_has result key then map_set key v result else result)"

definition resolve_device_features :: "feature_db \<Rightarrow> string \<Rightarrow> (string, feature_resolution) js_map" where
  "resolve_device_features db deviceId =
     (let result = map_from (map (\<lambda>key. (key, resolution False SrcDefault)) (ft_feature db));
          profiles = map dp_profileId (filter (\<lambda>r. dp_deviceId r = deviceId) (ft_deviceProfile db));
          result1 = (if 0 < length profiles
            then set_known (map (\<lambda>r. (pf_featureKey r, resolution True SrcProfile))
                   (filter (\<lambda>r. List.member profiles (pf_profileId r)) (ft_profileFeature db))) result
            else result)
      in set_known (map (\<lambda>r. (fo_featureKey r, resolution (fo_enabled r) SrcOverride))
           (filter (\<lambda>r. fo_deviceId r = deviceId) (ft_override db))) result1)"

definition device_has_feature :: "feature_db \<Rightarrow> string \<Rightarrow> string \<Rightarrow> bool" where
  "device_has_feature db deviceId key =
     (case map_get (resolve_device_features db deviceId) key of None \<Rightarrow> False | Some r \<Rightarrow> fr_enabled r)"

section \<open>The administrator's procedures\<close>

record admin_user =
  au_id :: string
  au_role :: "string option"

text \<open>The middleware of every procedure.\<close>

definition admin_procedure :: "admin_user option \<Rightarrow> string list \<Rightarrow> (admin_user \<Rightarrow> trpc_error + 'a) \<Rightarrow> trpc_error + 'a" where
  "admin_procedure user adminRoles next =
     (case user of
        None \<Rightarrow> Inl (TRPC FORBIDDEN ''Sysadmin access required'')
      | Some u \<Rightarrow> (if or_else (au_role u) [] \<notin> set adminRoles then Inl (TRPC FORBIDDEN ''Sysadmin access required'')
                   else next u))"

definition features_catalog :: "(string \<Rightarrow> string \<Rightarrow> bool) \<Rightarrow> admin_user option \<Rightarrow> string list \<Rightarrow> feature_db \<Rightarrow> trpc_error + string list" where
  "features_catalog le user roles db = admin_procedure user roles (\<lambda>u. Inr (sort_by le (ft_feature db)))"

definition profile_features ::
    "(string \<Rightarrow> string \<Rightarrow> bool) \<Rightarrow> admin_user option \<Rightarrow> string list \<Rightarrow> string \<Rightarrow> feature_db \<Rightarrow> trpc_error + (string \<times> bool) list" where
  "profile_features le user roles profileId db = admin_procedure user roles (\<lambda>u.
     let catalog = sort_by le (ft_feature db);
         enabled = map pf_featureKey (filter (\<lambda>r. pf_profileId r = profileId) (ft_profileFeature db))
     in Inr (map (\<lambda>key. (key, List.member enabled key)) catalog))"

text \<open>The foreign key of \<open>profile_feature\<close> rejects an unknown profile.\<close>

definition set_profile_feature ::
    "admin_user option \<Rightarrow> string list \<Rightarrow> string \<Rightarrow> string \<Rightarrow> bool \<Rightarrow> feature_db \<Rightarrow> trpc_error + feature_db" where
  "set_profile_feature user roles profileId featureKey enabled db = admin_procedure user roles (\<lambda>u.
     if enabled
     then if profileId \<notin> set (ft_profile db) then Inl (TRPC INTERNAL_ERROR ''foreign key'')
          else Inr (db\<lparr>ft_profileFeature :=
            set_add \<lparr>pf_profileId = profileId, pf_featureKey = featureKey\<rparr> (ft_profileFeature db)\<rparr>)
     else Inr (db\<lparr>ft_profileFeature :=
            filter (\<lambda>r. \<not> (pf_profileId r = profileId \<and> pf_featureKey r = featureKey)) (ft_profileFeature db)\<rparr>))"

definition device_overrides ::
    "(string \<Rightarrow> string \<Rightarrow> bool) \<Rightarrow> admin_user option \<Rightarrow> string list \<Rightarrow> string \<Rightarrow> feature_db
      \<Rightarrow> trpc_error + (string \<times> bool \<times> string option) list" where
  "device_overrides le user roles deviceId db = admin_procedure user roles (\<lambda>u.
     Inr (map (\<lambda>r. (fo_featureKey r, fo_enabled r, fo_note r))
       (sort_by (\<lambda>a b. le (fo_featureKey a) (fo_featureKey b)) (filter (\<lambda>r. fo_deviceId r = deviceId) (ft_override db)))))"

definition override_of :: "string \<Rightarrow> string \<Rightarrow> feature_override_row \<Rightarrow> bool" where
  "override_of deviceId featureKey r = (fo_deviceId r = deviceId \<and> fo_featureKey r = featureKey)"

definition new_override :: "string \<Rightarrow> string \<Rightarrow> bool \<Rightarrow> string \<Rightarrow> feature_override_row" where
  "new_override deviceId featureKey enabled createdBy =
     \<lparr>fo_deviceId = deviceId, fo_featureKey = featureKey, fo_enabled = enabled, fo_note = None, fo_createdBy = Some createdBy\<rparr>"

definition upsert_override :: "string \<Rightarrow> string \<Rightarrow> bool \<Rightarrow> string \<Rightarrow> feature_override_row list \<Rightarrow> feature_override_row list" where
  "upsert_override deviceId featureKey enabled createdBy rows =
     (if \<exists>r\<in>set rows. override_of deviceId featureKey r
      then map (\<lambda>r. if override_of deviceId featureKey r
          then r\<lparr>fo_enabled := enabled, fo_createdBy := Some createdBy\<rparr> else r) rows
      else rows @ [new_override deviceId featureKey enabled createdBy])"

definition set_device_override ::
    "admin_user option \<Rightarrow> string list \<Rightarrow> string \<Rightarrow> string \<Rightarrow> bool option \<Rightarrow> feature_db \<Rightarrow> trpc_error + feature_db" where
  "set_device_override user roles deviceId featureKey enabled db = admin_procedure user roles (\<lambda>u.
     case enabled of
       None \<Rightarrow> Inr (db\<lparr>ft_override := filter (\<lambda>r. \<not> override_of deviceId featureKey r) (ft_override db)\<rparr>)
     | Some e \<Rightarrow> Inr (db\<lparr>ft_override := upsert_override deviceId featureKey e (au_id u) (ft_override db)\<rparr>))"

definition resolve_device ::
    "admin_user option \<Rightarrow> string list \<Rightarrow> string \<Rightarrow> feature_db \<Rightarrow> trpc_error + (string \<times> feature_resolution) list" where
  "resolve_device user roles deviceId db = admin_procedure user roles (\<lambda>u. Inr (resolve_device_features db deviceId))"

section \<open>Lemmas\<close>

lemma resolution_simps [simp]: "fr_enabled (resolution e s) = e" "fr_source (resolution e s) = s"
    "resolution e s = resolution e' s' \<longleftrightarrow> e = e' \<and> s = s'"
  by (auto simp: resolution_def)

lemma set_known_get:
  "map_of (set_known rows result) k =
     (if map_of result k = None then None
      else case map_of (rev rows) k of None \<Rightarrow> map_of result k | Some v \<Rightarrow> Some v)"
proof (induction rows arbitrary: result)
  case Nil
  then show ?case by simp
next
  case (Cons row rows)
  obtain key v where "row = (key, v)" by (cases row)
  with Cons[of "if map_has result key then map_set key v result else result"] show ?case
    by (auto simp: map_add_def split: option.split)
qed

lemma map_of_const: "map_of (map (\<lambda>x. (f x, c)) xs) k = (if k \<in> f ` set xs then Some c else None)"
  by (induction xs) auto

lemma map_of_rev_const: "map_of (rev (map (\<lambda>x. (f x, c)) xs)) k = (if k \<in> f ` set xs then Some c else None)"
  using map_of_const[of f c "rev xs" k] by (simp add: rev_map)

text \<open>Primary keys are unique.\<close>

definition features_ok :: "feature_db \<Rightarrow> bool" where
  "features_ok db \<longleftrightarrow> distinct (ft_feature db) \<and> distinct (ft_profileFeature db)
     \<and> distinct (map (\<lambda>r. (fo_deviceId r, fo_featureKey r)) (ft_override db))
     \<and> (\<forall>r\<in>set (ft_profileFeature db). pf_profileId r \<in> set (ft_profile db))"

definition granted :: "feature_db \<Rightarrow> string \<Rightarrow> string \<Rightarrow> bool" where
  "granted db deviceId key \<longleftrightarrow> (\<exists>d\<in>set (ft_deviceProfile db). \<exists>p\<in>set (ft_profileFeature db).
     dp_deviceId d = deviceId \<and> pf_profileId p = dp_profileId d \<and> pf_featureKey p = key)"

definition override_keys :: "feature_override_row list \<Rightarrow> ((string \<times> string) \<times> bool) list" where
  "override_keys rows = map (\<lambda>r. ((fo_deviceId r, fo_featureKey r), fo_enabled r)) rows"

definition override_value :: "feature_db \<Rightarrow> string \<Rightarrow> string \<Rightarrow> bool option" where
  "override_value db deviceId key = map_of (override_keys (ft_override db)) (deviceId, key)"

text \<open>The specification of \<open>resolveDeviceFeatures\<close>: override over profile over default.\<close>

definition effective :: "feature_db \<Rightarrow> string \<Rightarrow> string \<Rightarrow> feature_resolution option" where
  "effective db deviceId key =
     (if key \<notin> set (ft_feature db) then None
      else case override_value db deviceId key of
             Some e \<Rightarrow> Some (resolution e SrcOverride)
           | None \<Rightarrow> Some (if granted db deviceId key then resolution True SrcProfile else resolution False SrcDefault))"

lemma override_keys_simps [simp]:
  "override_keys [] = []"
  "override_keys (r # rows) = ((fo_deviceId r, fo_featureKey r), fo_enabled r) # override_keys rows"
  "override_keys (rows @ rows') = override_keys rows @ override_keys rows'"
  by (simp_all add: override_keys_def)

lemma override_keys_fst: "map fst (override_keys rows) = map (\<lambda>r. (fo_deviceId r, fo_featureKey r)) rows"
  by (simp add: override_keys_def)

lemma overrides_get:
  "map_ok (override_keys rows) \<Longrightarrow> map_of (rev (map (\<lambda>r. (fo_featureKey r, resolution (fo_enabled r) SrcOverride))
       (filter (\<lambda>r. fo_deviceId r = deviceId) rows))) key
     = map_option (\<lambda>e. resolution e SrcOverride) (map_of (override_keys rows) (deviceId, key))"
proof (induction rows)
  case Nil
  then show ?case by simp
next
  case (Cons r rows)
  have "map_of (override_keys rows) (fo_deviceId r, fo_featureKey r) = None"
    using Cons.prems by (simp add: map_of_eq_None_iff)
  with Cons show ?case by (auto simp: map_add_def split: option.split)
qed

lemma resolve_effective:
  assumes "features_ok db"
  shows "map_of (resolve_device_features db deviceId) key = effective db deviceId key"
proof -
  let ?profiles = "map dp_profileId (filter (\<lambda>r. dp_deviceId r = deviceId) (ft_deviceProfile db))"
  let ?grants = "filter (\<lambda>r. List.member ?profiles (pf_profileId r)) (ft_profileFeature db)"
  have grant: "key \<in> pf_featureKey ` set ?grants \<longleftrightarrow> granted db deviceId key"
    by (auto simp: granted_def image_iff)
  have none: "?grants = []" if "?profiles = []" using that by simp
  have catalog: "map_of (map_from (map (\<lambda>key. (key, resolution False SrcDefault)) (ft_feature db))) key
      = (if key \<in> set (ft_feature db) then Some (resolution False SrcDefault) else None)"
    using map_of_rev_const[of id "resolution False SrcDefault" "ft_feature db" key] by (simp add: map_from_get)
  have skip: "(if 0 < length ?profiles then set_known (map f ?grants) m else m) = set_known (map f ?grants) m" for f m
    using none by (cases ?profiles) auto
  have over: "map_of (rev (map (\<lambda>r. (fo_featureKey r, resolution (fo_enabled r) SrcOverride))
           (filter (\<lambda>r. fo_deviceId r = deviceId) (ft_override db)))) key
       = map_option (\<lambda>e. resolution e SrcOverride) (override_value db deviceId key)"
    unfolding override_value_def using assms
    by (intro overrides_get) (simp add: features_ok_def override_keys_fst)
  show ?thesis
    unfolding resolve_device_features_def Let_def skip set_known_get over map_of_rev_const grant catalog effective_def
    by (auto split: option.split)
qed

lemma override_value_set:
  assumes "set_device_override user roles deviceId featureKey enabled db = Inr db'"
  shows "override_value db' d k = (if d = deviceId \<and> k = featureKey then enabled else override_value db d k)"
proof (cases enabled)
  case None
  then have db': "ft_override db' = filter (\<lambda>r. \<not> override_of deviceId featureKey r) (ft_override db)"
    using assms by (auto simp: set_device_override_def admin_procedure_def split: option.splits if_splits)
  have "map_of (override_keys (filter (\<lambda>r. \<not> override_of deviceId featureKey r) rows)) (d, k)
      = (if d = deviceId \<and> k = featureKey then None else map_of (override_keys rows) (d, k))" for rows
    by (induction rows) (auto simp: override_of_def)
  with None show ?thesis by (simp add: override_value_def db')
next
  case (Some e)
  then obtain u where db': "ft_override db' = upsert_override deviceId featureKey e u (ft_override db)"
    using assms by (auto simp: set_device_override_def admin_procedure_def split: option.splits if_splits)
  have found: "map_of (override_keys (map (\<lambda>r. if override_of deviceId featureKey r
          then r\<lparr>fo_enabled := e, fo_createdBy := Some u\<rparr> else r) rows)) (d, k)
      = (if d = deviceId \<and> k = featureKey \<and> (\<exists>r\<in>set rows. override_of deviceId featureKey r) then Some e
         else map_of (override_keys rows) (d, k))" for rows
    by (induction rows) (auto simp: override_of_def)
  have absent: "map_of (override_keys rows) (deviceId, featureKey) = None"
    if "\<not> (\<exists>r\<in>set rows. override_of deviceId featureKey r)" for rows
    using that by (induction rows) (auto simp: override_of_def)
  show ?thesis
    unfolding override_value_def db' upsert_override_def
    using found[of "ft_override db"] absent[of "ft_override db"] Some
    by (cases "\<exists>r\<in>set (ft_override db). override_of deviceId featureKey r")
      (auto simp: map_add_def new_override_def split: option.split)
qed

lemma set_override_frame:
  "set_device_override user roles deviceId featureKey enabled db = Inr db' \<Longrightarrow>
     ft_feature db' = ft_feature db \<and> ft_profileFeature db' = ft_profileFeature db
     \<and> ft_deviceProfile db' = ft_deviceProfile db \<and> ft_profile db' = ft_profile db"
  by (auto simp: set_device_override_def admin_procedure_def split: option.splits if_splits)

lemma upsert_override_keys:
  "distinct (map (\<lambda>r. (fo_deviceId r, fo_featureKey r)) rows) \<Longrightarrow>
     distinct (map (\<lambda>r. (fo_deviceId r, fo_featureKey r)) (upsert_override d k e u rows))"
proof -
  assume dist: "distinct (map (\<lambda>r. (fo_deviceId r, fo_featureKey r)) rows)"
  have "map (\<lambda>r. (fo_deviceId r, fo_featureKey r)) (map (\<lambda>r. if override_of d k r
          then r\<lparr>fo_enabled := e, fo_createdBy := Some u\<rparr> else r) rows) = map (\<lambda>r. (fo_deviceId r, fo_featureKey r)) rows"
    by simp
  with dist show ?thesis
    by (auto simp: upsert_override_def new_override_def override_of_def simp del: map_map)
qed

lemma set_override_ok:
  assumes "features_ok db" and "set_device_override user roles deviceId featureKey enabled db = Inr db'"
  shows "features_ok db'"
  using assms upsert_override_keys[of "ft_override db"]
  by (auto simp: features_ok_def set_device_override_def admin_procedure_def distinct_map_filter
      split: option.splits if_splits)

lemma set_profile_feature_ok:
  assumes "features_ok db" and "set_profile_feature user roles profileId featureKey enabled db = Inr db'"
  shows "features_ok db'"
  using assms by (auto simp: features_ok_def set_profile_feature_def admin_procedure_def split: option.splits if_splits)

lemma seed_features_ok: "features_ok db \<Longrightarrow> features_ok (seed_features keys db)"
proof -
  have "distinct fs \<Longrightarrow> distinct (foldl (\<lambda>fs k. set_add k fs) fs ks)" for fs and ks :: "string list"
    by (induction ks arbitrary: fs) auto
  then show "features_ok db \<Longrightarrow> features_ok (seed_features keys db)" by (simp add: features_ok_def seed_features_def)
qed

section \<open>The property\<close>

text \<open>A device's features are those of the catalog, an override of the device winning over a
  grant of its profiles and a grant over the default. Only an administrator changes an override;
  the change decides exactly that feature of exactly that device, clearing it gives the feature
  back to the profiles, and the keys of the tables stay unique.\<close>

theorem override_precedence:
  assumes "features_ok db"
  shows "map_of (resolve_device_features db deviceId) key = effective db deviceId key
    \<and> (user = None \<or> or_else (au_role (the user)) [] \<notin> set roles \<longrightarrow>
        set_device_override user roles deviceId key enabled db = Inl (TRPC FORBIDDEN ''Sysadmin access required''))
    \<and> (\<forall>db'. set_device_override user roles deviceId key enabled db = Inr db' \<longrightarrow> features_ok db'
        \<and> (\<forall>d k. device_has_feature db' d k =
             (if d = deviceId \<and> k = key \<and> k \<in> set (ft_feature db)
              then (case enabled of Some e \<Rightarrow> e | None \<Rightarrow> granted db d k) else device_has_feature db d k)))"
proof (intro conjI allI impI)
  show "map_of (resolve_device_features db deviceId) key = effective db deviceId key"
    using assms by (rule resolve_effective)
  show "set_device_override user roles deviceId key enabled db = Inl (TRPC FORBIDDEN ''Sysadmin access required'')"
    if "user = None \<or> or_else (au_role (the user)) [] \<notin> set roles"
    using that by (auto simp: set_device_override_def admin_procedure_def split: option.split)
next
  fix db'
  assume set: "set_device_override user roles deviceId key enabled db = Inr db'"
  show ok: "features_ok db'" by (rule set_override_ok[OF assms set])
  fix d k
  have "granted db' d k = granted db d k" using set_override_frame[OF set] by (simp add: granted_def)
  then show "device_has_feature db' d k =
             (if d = deviceId \<and> k = key \<and> k \<in> set (ft_feature db)
              then (case enabled of Some e \<Rightarrow> e | None \<Rightarrow> granted db d k) else device_has_feature db d k)"
    using override_value_set[OF set, of d k] set_override_frame[OF set]
    by (auto simp: device_has_feature_def resolve_effective[OF ok] resolve_effective[OF assms] effective_def
        split: option.split)
qed

definition demo_features :: feature_db where
  "demo_features = \<lparr>ft_feature = [''log''], ft_profile = [''p''],
     ft_deviceProfile = [\<lparr>dp_deviceId = ''d'', dp_profileId = ''p''\<rparr>],
     ft_profileFeature = [\<lparr>pf_profileId = ''p'', pf_featureKey = ''log''\<rparr>], ft_override = []\<rparr>"

definition demo_admin :: admin_user where
  "demo_admin = \<lparr>au_id = ''root'', au_role = Some ''admin''\<rparr>"

theorem override_precedence_witness:
  "map_of (resolve_device_features demo_features ''d'') ''log'' = Some (resolution True SrcProfile)
   \<and> (\<exists>db'. set_device_override (Some demo_admin) [''admin''] ''d'' ''log'' (Some False) demo_features = Inr db'
        \<and> \<not> device_has_feature db' ''d'' ''log'')"
proof -
  have ok: "features_ok demo_features" by (simp add: features_ok_def demo_features_def)
  have eff: "effective demo_features ''d'' ''log'' = Some (resolution True SrcProfile)"
    by (simp add: effective_def override_value_def granted_def demo_features_def)
  have run: "\<exists>db'. set_device_override (Some demo_admin) [''admin''] ''d'' ''log'' (Some False) demo_features = Inr db'"
    by (simp add: set_device_override_def admin_procedure_def demo_admin_def or_else_def)
  have mem: "''log'' \<in> set (ft_feature demo_features)" by (simp add: demo_features_def)
  from override_precedence[OF ok, of "''d''" "''log''" "Some demo_admin" "[''admin'']" "Some False"] eff run mem
  show ?thesis by force
qed

end
