(* ===== verification/Admin_Query.thy ===== *)
theory Admin_Query
  imports Features
begin

text \<open>
  What the administrators' list procedures share (\<open>profiles/admin-router.ts\<close>,
  \<open>devices/admin-router.ts\<close>, \<open>users/admin-router.ts\<close>, \<open>releases/admin-router.ts\<close>): the input
  schema of a page, name search by \<open>ILIKE\<close>, sorting by several columns, and cutting out a page.
  A query scans its table in the order of the rows; rows that the sorting does not tell apart
  stay in that order. Texts are compared by the database's collation and letters folded by its
  locale, which are parameters.
\<close>

section \<open>Pages\<close>

definition PER_PAGE_MAX :: nat where
  "PER_PAGE_MAX = 50"

text \<open>\<open>page\<close> and \<open>perPage\<close> of the input schema, after their defaults.\<close>

definition z_page :: "int \<Rightarrow> int \<Rightarrow> trpc_error + nat \<times> nat" where
  "z_page page perPage =
     (if page < 1 then Inl (TRPC BAD_REQUEST ''page'')
      else if perPage < 1 \<or> int PER_PAGE_MAX < perPage then Inl (TRPC BAD_REQUEST ''perPage'')
      else Inr (nat page, nat perPage))"

definition page_rows :: "nat \<Rightarrow> nat \<Rightarrow> 'r list \<Rightarrow> 'r list" where
  "page_rows page perPage rows = take perPage (drop ((page - 1) * perPage) rows)"

text \<open>\<open>Math.max(1, Math.ceil(total / perPage))\<close>.\<close>

definition page_count :: "nat \<Rightarrow> nat \<Rightarrow> nat" where
  "page_count rowCount perPage = max 1 ((rowCount + perPage - 1) div perPage)"

record 'r page =
  pg_rows :: "'r list"
  pg_pageCount :: nat

definition paginate :: "nat \<Rightarrow> nat \<Rightarrow> 'r list \<Rightarrow> 'r page" where
  "paginate page perPage rows =
     \<lparr>pg_rows = page_rows page perPage rows, pg_pageCount = page_count (length rows) perPage\<rparr>"

section \<open>Sorting\<close>

record sort_item =
  si_id :: string
  si_desc :: bool

type_synonym 'r column = "'r \<Rightarrow> 'r \<Rightarrow> bool"

definition direction :: "bool \<Rightarrow> 'r column \<Rightarrow> 'r column" where
  "direction desc column = (if desc then (\<lambda>a b. column b a) else column)"

text \<open>\<open>ORDER BY\<close> several columns.\<close>

fun then_by :: "'r column list \<Rightarrow> 'r column" where
  "then_by [] a b = True"
| "then_by (c # cs) a b = (c a b \<and> (c b a \<longrightarrow> then_by cs a b))"

text \<open>An unknown column sorts by creation time.\<close>

definition order_by_columns :: "(string \<times> 'r column) list \<Rightarrow> 'r column \<Rightarrow> sort_item list \<Rightarrow> 'r column" where
  "order_by_columns sortable createdAt items =
     (let chosen = (if 0 < length items then items else [\<lparr>si_id = ''createdAt'', si_desc = True\<rparr>])
      in then_by (map (\<lambda>item. direction (si_desc item)
           (case map_of sortable (si_id item) of Some c \<Rightarrow> c | None \<Rightarrow> createdAt)) chosen))"

text \<open>\<open>orderFor\<close> drops the unknown columns.\<close>

definition order_for :: "sort_item list \<Rightarrow> (string \<times> 'r column) list \<Rightarrow> 'r column \<Rightarrow> 'r column" where
  "order_for items columns fallback =
     (let active = filter (\<lambda>item. map_of columns (si_id item) \<noteq> None) items;
          chosen = (if 0 < length active then active else [\<lparr>si_id = [], si_desc = True\<rparr>])
      in then_by (map (\<lambda>item. direction (si_desc item)
           (case map_of columns (si_id item) of Some c \<Rightarrow> c | None \<Rightarrow> fallback)) chosen))"

text \<open>A nullable column: \<open>NULL\<close> sorts as the greatest value.\<close>

definition nullable :: "('v \<Rightarrow> 'v \<Rightarrow> bool) \<Rightarrow> 'v option \<Rightarrow> 'v option \<Rightarrow> bool" where
  "nullable le a b =
     (case (a, b) of (_, None) \<Rightarrow> True | (None, Some _) \<Rightarrow> False | (Some x, Some y) \<Rightarrow> le x y)"

section \<open>Name search\<close>

text \<open>\<open>LIKE\<close>: a percent sign stands for any text, an underscore for any character, a backslash
  makes the next character literal.\<close>

fun like_match :: "string \<Rightarrow> string \<Rightarrow> bool" where
  "like_match [] s = (s = [])"
| "like_match (p # ps) s =
     (if p = CHR ''%'' then like_match ps s \<or> (case s of [] \<Rightarrow> False | c # cs \<Rightarrow> like_match (p # ps) cs)
      else if p = CHR ''_'' then (case s of [] \<Rightarrow> False | c # cs \<Rightarrow> like_match ps cs)
      else if p = CHR 0x5C then
        (case ps of [] \<Rightarrow> False
         | q # qs \<Rightarrow> (case s of [] \<Rightarrow> False | c # cs \<Rightarrow> c = q \<and> like_match qs cs))
      else (case s of [] \<Rightarrow> False | c # cs \<Rightarrow> c = p \<and> like_match ps cs))"

definition ilike :: "(char \<Rightarrow> char) \<Rightarrow> string \<Rightarrow> string \<Rightarrow> bool" where
  "ilike fold_case value pattern = like_match (map fold_case pattern) (map fold_case value)"

text \<open>The search box: a blank term is no filter.\<close>

definition name_filter :: "(char \<Rightarrow> char) \<Rightarrow> ('r \<Rightarrow> string) \<Rightarrow> string \<Rightarrow> 'r \<Rightarrow> bool" where
  "name_filter fold_case column term r =
     (if trim term = [] then True
      else ilike fold_case (column r) (CHR ''%'' # trim term @ ''%''))"

section \<open>Rankings\<close>

text \<open>What \<open>ORDER BY\<close> needs of a column.\<close>

locale ranking =
  fixes le :: "'r \<Rightarrow> 'r \<Rightarrow> bool"
  assumes total: "le a b \<or> le b a"
    and trans: "le a b \<Longrightarrow> le b c \<Longrightarrow> le a c"
begin

lemma sorted: "sorted_wrt le (sort_by le rows)"
  by (rule sorted_sort_by) (use total trans in blast)+

lemma refl: "le a a"
  using total by blast

end

lemma ranking_direction: "ranking c \<Longrightarrow> ranking (direction d c)"
  by (unfold_locales; cases d) (auto simp: direction_def ranking.total intro: ranking.trans)

lemma ranking_then_by: "(\<And>c. c \<in> set cs \<Longrightarrow> ranking c) \<Longrightarrow> ranking (then_by cs)"
proof (induction cs)
  case Nil
  show ?case by unfold_locales simp_all
next
  case (Cons c cs)
  then have c: "ranking c" and cs: "ranking (then_by cs)" by simp_all
  show ?case
  proof
    show "then_by (c # cs) a b \<or> then_by (c # cs) b a" for a b
      using ranking.total[OF c, of a b] ranking.total[OF cs, of a b] by auto
    show "then_by (c # cs) a b \<Longrightarrow> then_by (c # cs) b d \<Longrightarrow> then_by (c # cs) a d" for a b d
      using ranking.trans[OF c] ranking.trans[OF cs, of a b d] by auto
  qed
qed

lemma ranking_order_by_columns:
  assumes "\<And>c. c \<in> snd ` set sortable \<Longrightarrow> ranking c" and "ranking createdAt"
  shows "ranking (order_by_columns sortable createdAt items)"
  unfolding order_by_columns_def Let_def
  by (rule ranking_then_by) (use assms map_of_SomeD in \<open>fastforce intro!: ranking_direction split: option.split\<close>)

lemma ranking_order_for:
  assumes "\<And>c. c \<in> snd ` set columns \<Longrightarrow> ranking c" and "ranking fallback"
  shows "ranking (order_for items columns fallback)"
  unfolding order_for_def Let_def
  by (rule ranking_then_by) (use assms map_of_SomeD in \<open>fastforce intro!: ranking_direction split: option.split\<close>)

lemma ranking_key: "ranking le \<Longrightarrow> ranking (\<lambda>a b. le (f a) (f b))"
  unfolding ranking_def by blast

lemma ranking_le: "ranking ((\<le>) :: 'a :: linorder \<Rightarrow> 'a \<Rightarrow> bool)"
  by unfold_locales auto

lemma ranking_collation: "collation le \<longleftrightarrow> ranking le"
  by (auto simp: collation_def ranking_def)

lemma ranking_nullable: "ranking le \<Longrightarrow> ranking (nullable le)"
  by unfold_locales (auto simp: nullable_def ranking.total intro: ranking.trans split: option.splits)

section \<open>Every row is on one page\<close>

lemma page_rows_length: "length (page_rows page perPage rows) \<le> perPage"
  by (simp add: page_rows_def)

lemma pages_upto: "concat (map (\<lambda>i. page_rows (Suc i) perPage rows) [0..<n]) = take (n * perPage) rows"
  by (induction n) (simp_all add: page_rows_def take_add[symmetric] add.commute)

lemma page_count_covers:
  assumes "0 < perPage"
  shows "n \<le> page_count n perPage * perPage"
proof -
  let ?q = "(n + perPage - 1) div perPage"
  have "n + perPage - 1 = ?q * perPage + (n + perPage - 1) mod perPage" by simp
  moreover have "(n + perPage - 1) mod perPage < perPage" using assms by simp
  ultimately have "n \<le> ?q * perPage" by linarith
  also have "\<dots> \<le> page_count n perPage * perPage" by (simp add: page_count_def)
  finally show ?thesis .
qed

lemma pages_concat:
  assumes "0 < perPage"
  shows "concat (map (\<lambda>p. page_rows p perPage rows) [1..<Suc (page_count (length rows) perPage)]) = rows"
proof -
  have "map (\<lambda>p. page_rows p perPage rows) [1..<Suc m] = map (\<lambda>i. page_rows (Suc i) perPage rows) [0..<m]" for m
    by (simp only: One_nat_def map_Suc_upt[symmetric] map_map comp_def)
  with pages_upto[of perPage rows "page_count (length rows) perPage"] page_count_covers[OF assms]
  show ?thesis by simp
qed

section \<open>Search without wildcards\<close>

definition plain_char :: "char \<Rightarrow> bool" where
  "plain_char c \<longleftrightarrow> c \<noteq> CHR ''%'' \<and> c \<noteq> CHR ''_'' \<and> c \<noteq> CHR 0x5C"

lemma like_any: "like_match ''%'' s"
  by (induction s) auto

lemma like_prefix: "(\<And>c. c \<in> set t \<Longrightarrow> plain_char c) \<Longrightarrow> like_match (t @ ''%'') s \<longleftrightarrow> starts_with t s"
proof (induction t arbitrary: s)
  case Nil
  then show ?case using like_any by (simp add: starts_with_def)
next
  case (Cons p t)
  then have p: "p \<noteq> CHR ''%''" "p \<noteq> CHR ''_''" "p \<noteq> CHR 0x5C" and t: "\<And>c. c \<in> set t \<Longrightarrow> plain_char c"
    by (auto simp: plain_char_def)
  show ?case using p Cons.IH[OF t] by (cases s) (auto simp: starts_with_def)
qed

lemma like_percent:
  "like_match (CHR ''%'' # ps) [] = like_match ps []"
  "like_match (CHR ''%'' # ps) (c # cs) \<longleftrightarrow> like_match ps (c # cs) \<or> like_match (CHR ''%'' # ps) cs"
  by simp_all

lemma like_contains:
  assumes "\<And>c. c \<in> set t \<Longrightarrow> plain_char c"
  shows "like_match (CHR ''%'' # t @ ''%'') s \<longleftrightarrow> str_includes t s"
proof -
  have prefix: "like_match (t @ ''%'') s \<longleftrightarrow> starts_with t s" for s using assms by (rule like_prefix)
  show ?thesis
  proof (induction s)
    case Nil
    show ?case unfolding like_percent prefix by (auto simp: starts_with_def)
  next
    case (Cons c s)
    then show ?case unfolding like_percent prefix by simp
  qed
qed

text \<open>A term is not escaped: an underscore finds every name.\<close>

lemma underscore_matches: "s \<noteq> [] \<Longrightarrow> like_match ''%_%'' s"
proof (induction s)
  case (Cons c cs)
  have "like_match ''_%'' (c # cs)" using like_any[of cs] by simp
  then show ?case unfolding like_percent ..
qed simp

lemma underscore_finds_all:
  assumes "\<And>c. fold_case c = c" "column r \<noteq> []"
  shows "name_filter fold_case column ''_'' r"
proof -
  have t: "trim ''_'' = ''_''" by code_simp
  have id: "map fold_case s = s" for s using assms(1) by (simp add: map_idI)
  show ?thesis unfolding name_filter_def ilike_def t id using underscore_matches[OF assms(2)] by simp
qed

end
