(* ===== verification/Event_Bridge.thy ===== *)
theory Event_Bridge
  imports Json
begin

text \<open>
  Device events up to the durable queue (\<open>web/packages/helix-backend/src/events/\<close>): topics and
  envelopes (\<open>topic.ts\<close>), the producer side of the queue (\<open>queue.ts\<close>) and the MQTT ingestion
  bridge that publishes in micro-batches (\<open>mqtt-bridge.ts\<close>). The broker is a list of topics
  and the list of the batches it acknowledged; whether it acknowledges is an input.
\<close>

section \<open>Topics and envelopes\<close>

definition TOPIC_NAMESPACE :: string where "TOPIC_NAMESPACE = ''helix''"
definition EVENT_SUBTOPIC :: string where "EVENT_SUBTOPIC = ''event''"
definition EVENT_TOPIC_SEGMENT_COUNT :: nat where "EVENT_TOPIC_SEGMENT_COUNT = 6"

record device_event_topic =
  et_deviceId :: string
  et_service :: string

definition device_event_subscription_topics :: "string list" where
  "device_event_subscription_topics = [TOPIC_NAMESPACE @ ''/device/+/service/+/'' @ EVENT_SUBTOPIC]"

definition build_device_event_topic :: "string \<Rightarrow> string \<Rightarrow> string" where
  "build_device_event_topic deviceId service =
     TOPIC_NAMESPACE @ ''/device/'' @ deviceId @ ''/service/'' @ service @ ''/'' @ EVENT_SUBTOPIC"

definition parse_device_event_topic :: "string \<Rightarrow> device_event_topic option" where
  "parse_device_event_topic topic =
     (let segments = split_on (CHR ''/'') topic
      in if length segments \<noteq> EVENT_TOPIC_SEGMENT_COUNT \<or> segments ! 0 \<noteq> TOPIC_NAMESPACE
            \<or> segments ! 1 \<noteq> ''device'' \<or> segments ! 3 \<noteq> ''service'' \<or> segments ! 5 \<noteq> EVENT_SUBTOPIC
         then None
         else let deviceId = trim (segments ! 2); service = trim (segments ! 4)
           in if deviceId = [] \<or> service = [] then None
              else Some \<lparr>et_deviceId = deviceId, et_service = service\<rparr>)"

text \<open>A field of a parsed value; \<open>None\<close> stands for \<open>undefined\<close>.\<close>

definition normalize_optional_string :: "json option \<Rightarrow> string option" where
  "normalize_optional_string value =
     (case value of Some (JStr s) \<Rightarrow> (if trim s \<noteq> [] then Some (trim s) else None) | _ \<Rightarrow> None)"

definition is_device_event_envelope :: "json \<Rightarrow> bool" where
  "is_device_event_envelope v =
     (case v of JObj es \<Rightarrow> normalize_optional_string (json_get v ''type'') \<noteq> None | _ \<Rightarrow> False)"

definition parse_device_event_envelope :: "string \<Rightarrow> json option" where
  "parse_device_event_envelope payload =
     (case json_parse payload of
        None \<Rightarrow> None
      | Some v \<Rightarrow> (if is_device_event_envelope v then Some v else None))"

section \<open>The queue\<close>

record raw_device_event =
  re_deviceId :: string
  re_receivedAt :: string
  re_payload :: string

datatype kafka_header = HeaderOne string | HeaderMany "string list"

record kafka_message =
  km_key :: "string option"
  km_receivedAt :: "kafka_header option"
  km_value :: "string option"

record event_queue_options =
  qo_brokers :: "string list"
  qo_topic :: string
  qo_topicPartitions :: nat

record event_queue =
  eq_topics :: "(string \<times> nat) list"
  eq_producer :: bool
  eq_sends :: "kafka_message list list"

datatype queue_error = NoBrokers | ProducerNotConnected | SendFailed

definition queue_start :: "event_queue_options \<Rightarrow> bool option \<Rightarrow> event_queue \<Rightarrow> queue_error + event_queue" where
  "queue_start opts connectProducer q =
     (if length (qo_brokers opts) = 0 then Inl NoBrokers
      else let topics = (if qo_topic opts \<notin> fst ` set (eq_topics q)
               then eq_topics q @ [(qo_topic opts, qo_topicPartitions opts)] else eq_topics q)
        in Inr (q\<lparr>eq_topics := topics,
             eq_producer := (case connectProducer of None \<Rightarrow> True | Some c \<Rightarrow> c) \<or> eq_producer q\<rparr>))"

definition queue_stop :: "event_queue \<Rightarrow> event_queue" where
  "queue_stop q = q\<lparr>eq_producer := False\<rparr>"

definition to_kafka :: "raw_device_event \<Rightarrow> kafka_message" where
  "to_kafka e = \<lparr>km_key = Some (re_deviceId e), km_receivedAt = Some (HeaderOne (re_receivedAt e)),
     km_value = Some (re_payload e)\<rparr>"

text \<open>\<open>acked\<close>: whether the broker acknowledges the send.\<close>

definition publish_batch :: "bool \<Rightarrow> raw_device_event list \<Rightarrow> event_queue \<Rightarrow> queue_error + event_queue" where
  "publish_batch acked events q =
     (if \<not> eq_producer q then Inl ProducerNotConnected
      else if length events = 0 then Inr q
      else if \<not> acked then Inl SendFailed
      else Inr (q\<lparr>eq_sends := eq_sends q @ [map to_kafka events]\<rparr>))"

definition publish_event :: "bool \<Rightarrow> raw_device_event \<Rightarrow> event_queue \<Rightarrow> queue_error + event_queue" where
  "publish_event acked event q = publish_batch acked [event] q"

section \<open>The ingestion bridge\<close>

definition DEFAULT_BATCH_SIZE :: nat where "DEFAULT_BATCH_SIZE = 500"

record ingestion_bridge =
  ib_buffer :: "raw_device_event list"
  ib_flushTimer :: bool
  ib_queue :: event_queue
  ib_subscribed :: "string list"

text \<open>A batch the queue refuses is logged and lost.\<close>

definition bridge_flush :: "bool \<Rightarrow> ingestion_bridge \<Rightarrow> ingestion_bridge" where
  "bridge_flush acked b =
     (let b' = b\<lparr>ib_flushTimer := False\<rparr>
      in if length (ib_buffer b) = 0 then b'
         else case publish_batch acked (ib_buffer b) (ib_queue b) of
                Inl _ \<Rightarrow> b'\<lparr>ib_buffer := []\<rparr>
              | Inr q \<Rightarrow> b'\<lparr>ib_buffer := [], ib_queue := q\<rparr>)"

definition schedule_flush :: "ingestion_bridge \<Rightarrow> ingestion_bridge" where
  "schedule_flush b = b\<lparr>ib_flushTimer := True\<rparr>"

definition bridge_message ::
    "nat \<Rightarrow> bool \<Rightarrow> string \<Rightarrow> string \<Rightarrow> string \<Rightarrow> ingestion_bridge \<Rightarrow> ingestion_bridge" where
  "bridge_message batchSize acked now topic payload b =
     (case parse_device_event_topic topic of
        None \<Rightarrow> b
      | Some t \<Rightarrow>
          (let b' = b\<lparr>ib_buffer := ib_buffer b @
                 [\<lparr>re_deviceId = et_deviceId t, re_receivedAt = now, re_payload = payload\<rparr>]\<rparr>
           in if batchSize \<le> length (ib_buffer b') then bridge_flush acked b' else schedule_flush b'))"

definition bridge_connect :: "bool \<Rightarrow> ingestion_bridge \<Rightarrow> ingestion_bridge" where
  "bridge_connect acked b =
     (if acked then b\<lparr>ib_subscribed := device_event_subscription_topics\<rparr> else b)"

definition bridge_timer :: "bool \<Rightarrow> ingestion_bridge \<Rightarrow> ingestion_bridge" where
  "bridge_timer acked b = (if ib_flushTimer b then bridge_flush acked b else b)"

definition attach_ingestion :: "event_queue \<Rightarrow> ingestion_bridge" where
  "attach_ingestion q = \<lparr>ib_buffer = [], ib_flushTimer = False, ib_queue = q, ib_subscribed = []\<rparr>"

text \<open>What the MQTT client and the timer call: \<open>topic payload now acked\<close>.\<close>

datatype bridge_event = MqttMessage string string string bool | MqttConnect bool | FlushTimer bool

fun bridge_step :: "nat \<Rightarrow> bridge_event \<Rightarrow> ingestion_bridge \<Rightarrow> ingestion_bridge" where
  "bridge_step batchSize (MqttMessage topic payload now acked) b = bridge_message batchSize acked now topic payload b"
| "bridge_step batchSize (MqttConnect acked) b = bridge_connect acked b"
| "bridge_step batchSize (FlushTimer acked) b = bridge_timer acked b"

definition bridge_run :: "nat \<Rightarrow> bridge_event list \<Rightarrow> ingestion_bridge \<Rightarrow> ingestion_bridge" where
  "bridge_run batchSize events b = fold (bridge_step batchSize) events b"

section \<open>Topics round trip\<close>

lemma split_on_plain: "d \<notin> set xs \<Longrightarrow> split_on d (xs @ d # ys) = xs # split_on d ys"
  by (induction xs) auto

lemma split_on_none: "d \<notin> set xs \<Longrightarrow> split_on d xs = [xs]"
  by (induction xs) auto

lemma split_on_topic:
  assumes "CHR ''/'' \<notin> set deviceId" and "CHR ''/'' \<notin> set service"
  shows "split_on (CHR ''/'') (build_device_event_topic deviceId service)
     = [''helix'', ''device'', deviceId, ''service'', service, ''event'']"
  by (simp add: build_device_event_topic_def TOPIC_NAMESPACE_def EVENT_SUBTOPIC_def
      split_on_plain[OF assms(1)] split_on_plain[OF assms(2)])

text \<open>The parser trims, so a topic names the device without surrounding white space.\<close>

lemma parse_build_topic:
  assumes "CHR ''/'' \<notin> set deviceId" and "CHR ''/'' \<notin> set service" and "trim deviceId \<noteq> []" and "trim service \<noteq> []"
  shows "parse_device_event_topic (build_device_event_topic deviceId service)
     = Some \<lparr>et_deviceId = trim deviceId, et_service = trim service\<rparr>"
  using assms(3,4)
  by (simp add: parse_device_event_topic_def split_on_topic[OF assms(1,2)] EVENT_TOPIC_SEGMENT_COUNT_def
      TOPIC_NAMESPACE_def EVENT_SUBTOPIC_def)

section \<open>Micro-batching\<close>

text \<open>The events of a run, in order.\<close>

fun accepted_events :: "bridge_event list \<Rightarrow> raw_device_event list" where
  "accepted_events [] = []"
| "accepted_events (MqttMessage topic payload now acked # es) =
     (case parse_device_event_topic topic of
        None \<Rightarrow> accepted_events es
      | Some t \<Rightarrow> \<lparr>re_deviceId = et_deviceId t, re_receivedAt = now, re_payload = payload\<rparr> # accepted_events es)"
| "accepted_events (_ # es) = accepted_events es"

fun send_acked :: "bridge_event \<Rightarrow> bool" where
  "send_acked (MqttMessage topic payload now acked) = acked"
| "send_acked (MqttConnect acked) = True"
| "send_acked (FlushTimer acked) = acked"

definition bridge_ok :: "nat \<Rightarrow> ingestion_bridge \<Rightarrow> bool" where
  "bridge_ok batchSize b \<longleftrightarrow> length (ib_buffer b) < max 1 batchSize \<and> (ib_buffer b \<noteq> [] \<longrightarrow> ib_flushTimer b)
     \<and> (\<forall>batch\<in>set (eq_sends (ib_queue b)). batch \<noteq> [] \<and> length batch \<le> max 1 batchSize)"

lemma publish_batch_ok:
  assumes "publish_batch acked events q = Inr q'" and "events \<noteq> []"
  shows "eq_sends q' = eq_sends q @ [map to_kafka events]" and "eq_producer q'" and "eq_producer q" and acked
  using assms by (auto simp: publish_batch_def split: if_splits)

lemma bridge_flush_ok:
  assumes "length (ib_buffer b) \<le> max 1 batchSize"
    and "\<forall>batch\<in>set (eq_sends (ib_queue b)). batch \<noteq> [] \<and> length batch \<le> max 1 batchSize"
  shows "bridge_ok batchSize (bridge_flush acked b)"
proof (cases "ib_buffer b = []")
  case True
  with assms show ?thesis by (simp add: bridge_flush_def bridge_ok_def)
next
  case False
  with assms publish_batch_ok(1)[OF _ False, of acked "ib_queue b"] show ?thesis
    by (cases "publish_batch acked (ib_buffer b) (ib_queue b)") (auto simp: bridge_flush_def bridge_ok_def Let_def)
qed

lemma bridge_step_ok: "bridge_ok batchSize b \<Longrightarrow> bridge_ok batchSize (bridge_step batchSize e b)"
proof (cases e)
  case (MqttMessage topic payload now acked)
  assume ok: "bridge_ok batchSize b"
  show ?thesis
  proof (cases "parse_device_event_topic topic")
    case None
    with ok MqttMessage show ?thesis by (simp add: bridge_message_def)
  next
    case (Some t)
    let ?b = "b\<lparr>ib_buffer := ib_buffer b @ [\<lparr>re_deviceId = et_deviceId t, re_receivedAt = now, re_payload = payload\<rparr>]\<rparr>"
    have "bridge_ok batchSize (bridge_flush acked ?b)"
      using ok by (intro bridge_flush_ok) (auto simp: bridge_ok_def)
    with ok Some MqttMessage show ?thesis
      by (auto simp: bridge_message_def Let_def schedule_flush_def bridge_ok_def)
  qed
next
  case (MqttConnect acked)
  assume "bridge_ok batchSize b"
  with MqttConnect show ?thesis by (simp add: bridge_connect_def bridge_ok_def)
next
  case (FlushTimer acked)
  assume ok: "bridge_ok batchSize b"
  then have "bridge_ok batchSize (bridge_flush acked b)"
    by (intro bridge_flush_ok) (auto simp: bridge_ok_def)
  with ok FlushTimer show ?thesis by (simp add: bridge_timer_def)
qed

text \<open>What the queue holds and what is still buffered, as one sequence.\<close>

definition pipeline_content :: "ingestion_bridge \<Rightarrow> kafka_message list" where
  "pipeline_content b = concat (eq_sends (ib_queue b)) @ map to_kafka (ib_buffer b)"

lemma bridge_flush_content:
  "eq_producer (ib_queue b) \<Longrightarrow> pipeline_content (bridge_flush True b) = pipeline_content b
     \<and> eq_producer (ib_queue (bridge_flush True b))"
  by (auto simp: bridge_flush_def publish_batch_def pipeline_content_def Let_def)

lemma bridge_step_content:
  assumes "eq_producer (ib_queue b)" and "send_acked e"
  shows "pipeline_content (bridge_step batchSize e b) = pipeline_content b @ map to_kafka (accepted_events [e])
     \<and> eq_producer (ib_queue (bridge_step batchSize e b))"
proof (cases e)
  case (MqttMessage topic payload now acked)
  then show ?thesis
    using assms bridge_flush_content
    by (auto simp: bridge_message_def Let_def schedule_flush_def pipeline_content_def split: option.split)
next
  case (MqttConnect acked)
  with assms show ?thesis by (simp add: bridge_connect_def pipeline_content_def)
next
  case (FlushTimer acked)
  with assms bridge_flush_content[of b] show ?thesis by (simp add: bridge_timer_def)
qed

lemma accepted_events_Cons: "accepted_events (e # es) = accepted_events [e] @ accepted_events es"
  by (cases e) (auto split: option.split)

lemma bridge_run_ok: "bridge_ok batchSize b \<Longrightarrow> bridge_ok batchSize (bridge_run batchSize es b)"
  unfolding bridge_run_def by (induction es arbitrary: b) (auto intro: bridge_step_ok)

lemma bridge_run_content:
  "eq_producer (ib_queue b) \<Longrightarrow> \<forall>e\<in>set es. send_acked e \<Longrightarrow>
     pipeline_content (bridge_run batchSize es b) = pipeline_content b @ map to_kafka (accepted_events es)
     \<and> eq_producer (ib_queue (bridge_run batchSize es b))"
  unfolding bridge_run_def
proof (induction es arbitrary: b)
  case Nil
  then show ?case by simp
next
  case (Cons e es)
  then have "pipeline_content (bridge_step batchSize e b) = pipeline_content b @ map to_kafka (accepted_events [e])"
      "eq_producer (ib_queue (bridge_step batchSize e b))"
    using bridge_step_content by auto
  with Cons show ?case by (simp add: accepted_events_Cons[of e es])
qed

text \<open>The bridge publishes in batches of at most the batch size and never buffers that many; a
  non-empty buffer always has its timer armed. With a connected producer and a broker that
  acknowledges, every event whose topic parses is published once, in order: what the queue holds
  is a prefix of the accepted events, and once the timer has fired it is all of them.\<close>

theorem bridge_batches:
  assumes "eq_sends q = []"
  shows "bridge_ok batchSize (bridge_run batchSize es (attach_ingestion q))
    \<and> (eq_producer q \<longrightarrow> (\<forall>e\<in>set es. send_acked e) \<longrightarrow>
       concat (eq_sends (ib_queue (bridge_run batchSize es (attach_ingestion q))))
         @ map to_kafka (ib_buffer (bridge_run batchSize es (attach_ingestion q)))
         = map to_kafka (accepted_events es)
       \<and> concat (eq_sends (ib_queue (bridge_run batchSize (es @ [FlushTimer True]) (attach_ingestion q))))
         = map to_kafka (accepted_events es))"
proof (intro conjI[OF _ impI[OF impI]])
  have start: "bridge_ok batchSize (attach_ingestion q)" "pipeline_content (attach_ingestion q) = []"
    using assms by (simp_all add: bridge_ok_def attach_ingestion_def pipeline_content_def)
  then show ok: "bridge_ok batchSize (bridge_run batchSize es (attach_ingestion q))" by (intro bridge_run_ok)
  assume "eq_producer q" and acked: "\<forall>e\<in>set es. send_acked e"
  then have prod: "eq_producer (ib_queue (attach_ingestion q))" by (simp add: attach_ingestion_def)
  note run = bridge_run_content[OF prod acked, of batchSize, unfolded start(2)]
  let ?b = "bridge_run batchSize es (attach_ingestion q)"
  have "pipeline_content (bridge_timer True ?b) = pipeline_content ?b" "ib_buffer (bridge_timer True ?b) = []"
    using run bridge_flush_content[of ?b] ok
    by (auto simp: bridge_timer_def bridge_ok_def bridge_flush_def Let_def split: sum.split)
  then show "concat (eq_sends (ib_queue ?b)) @ map to_kafka (ib_buffer ?b) = map to_kafka (accepted_events es)
       \<and> concat (eq_sends (ib_queue (bridge_run batchSize (es @ [FlushTimer True]) (attach_ingestion q))))
         = map to_kafka (accepted_events es)"
    using run by (simp add: pipeline_content_def bridge_run_def)
qed

definition demo_queue :: event_queue where
  "demo_queue = \<lparr>eq_topics = [], eq_producer = True, eq_sends = []\<rparr>"

theorem bridge_batches_witness:
  "concat (eq_sends (ib_queue (bridge_run 2 ([MqttMessage ''helix/device/d/service/s/event'' ''{}'' ''now'' True] @ [FlushTimer True])
     (attach_ingestion demo_queue)))) = [\<lparr>km_key = Some ''d'', km_receivedAt = Some (HeaderOne ''now''), km_value = Some ''{}''\<rparr>]"
proof -
  have "parse_device_event_topic ''helix/device/d/service/s/event'' = Some \<lparr>et_deviceId = ''d'', et_service = ''s''\<rparr>"
    using parse_build_topic[of "''d''" "''s''"] trim_id[of "''d''"] trim_id[of "''s''"]
    by (simp add: build_device_event_topic_def TOPIC_NAMESPACE_def EVENT_SUBTOPIC_def js_space_simps)
  then show ?thesis
    using bridge_batches[of demo_queue 2 "[MqttMessage ''helix/device/d/service/s/event'' ''{}'' ''now'' True]"]
    by (simp add: demo_queue_def to_kafka_def)
qed

end
