(* ===== verification/Event_Writer.thy ===== *)
theory Event_Writer
  imports Event_Bridge
begin

text \<open>
  The consumer side of the event queue (\<open>events/writer.ts\<close>): a queued message becomes a row of
  \<open>device_event\<close>, chunks of rows are inserted with \<open>ON CONFLICT DO NOTHING\<close> on the device and
  message id, and offsets are committed after the insert. Messages are delivered from a log of
  offsets; after a crash delivery starts again at the committed offset. The invariant says that
  nothing committed is missing and nothing is stored twice, wherever the writer is interrupted.
\<close>

section \<open>Rows\<close>

record event_row =
  de_id :: string
  de_deviceId :: string
  de_eventType :: string
  de_eventPayload :: json
  de_messageId :: string
  de_eventTimestamp :: "int option"
  de_receivedAt :: "int option"

text \<open>\<open>date s\<close> is the time of \<open>new Date(s)\<close>, \<open>None\<close> for an invalid date.\<close>

definition parse_event_timestamp :: "(string \<Rightarrow> int option) \<Rightarrow> string option \<Rightarrow> int option" where
  "parse_event_timestamp date value = (case value of None \<Rightarrow> None | Some v \<Rightarrow> date v)"

definition header_value :: "kafka_header option \<Rightarrow> string option" where
  "header_value value =
     (let single = (case value of None \<Rightarrow> None | Some (HeaderOne s) \<Rightarrow> Some s
                    | Some (HeaderMany ss) \<Rightarrow> (case ss of [] \<Rightarrow> None | s # _ \<Rightarrow> Some s))
      in case single of None \<Rightarrow> None | Some s \<Rightarrow> normalize_optional_string (Some (JStr s)))"

definition new_event_row ::
    "(string \<Rightarrow> int option) \<Rightarrow> string \<Rightarrow> string \<Rightarrow> string \<Rightarrow> json \<Rightarrow> string \<Rightarrow> event_row" where
  "new_event_row date rid deviceId receivedAt envelope messageId =
     \<lparr>de_id = rid, de_deviceId = deviceId,
      de_eventType = (case json_get envelope ''type'' of Some (JStr t) \<Rightarrow> t | _ \<Rightarrow> []),
      de_eventPayload = (case json_get envelope ''payload'' of None \<Rightarrow> JObj [] | Some JNull \<Rightarrow> JObj [] | Some v \<Rightarrow> v),
      de_messageId = messageId,
      de_eventTimestamp = parse_event_timestamp date (normalize_optional_string (json_get envelope ''timestamp'')),
      de_receivedAt = date receivedAt\<rparr>"

definition to_row :: "(string \<Rightarrow> int option) \<Rightarrow> string \<Rightarrow> kafka_message \<Rightarrow> event_row option" where
  "to_row date rid message =
     (let deviceId = normalize_optional_string (map_option JStr (km_key message));
          receivedAt = header_value (km_receivedAt message);
          envelope = parse_device_event_envelope (case km_value message of None \<Rightarrow> [] | Some v \<Rightarrow> v)
      in case (deviceId, receivedAt, envelope) of
           (Some dev, Some rcv, Some env) \<Rightarrow>
             (case normalize_optional_string (json_get env ''msgId'') of
                None \<Rightarrow> None
              | Some messageId \<Rightarrow> Some (new_event_row date rid dev rcv env messageId))
         | _ \<Rightarrow> None)"

definition event_key :: "event_row \<Rightarrow> string \<times> string" where
  "event_key r = (de_deviceId r, de_messageId r)"

text \<open>The rows of a chunk; \<open>uuid n\<close> is the \<open>n\<close>-th identifier \<open>randomUUID\<close> returns.\<close>

fun chunk_rows :: "(string \<Rightarrow> int option) \<Rightarrow> (nat \<Rightarrow> string) \<Rightarrow> nat \<Rightarrow> kafka_message list \<Rightarrow> event_row list" where
  "chunk_rows date uuid n [] = []"
| "chunk_rows date uuid n (m # ms) =
     (case to_row date (uuid n) m of
        None \<Rightarrow> chunk_rows date uuid n ms
      | Some row \<Rightarrow> row # chunk_rows date uuid (Suc n) ms)"

definition insert_row :: "event_row list \<Rightarrow> event_row \<Rightarrow> event_row list" where
  "insert_row table r = (if event_key r \<in> event_key ` set table then table else table @ [r])"

text \<open>An invalid date has no database representation: the driver throws before the statement runs.\<close>

definition write_chunk :: "bool \<Rightarrow> event_row list \<Rightarrow> event_row list \<Rightarrow> event_row list option" where
  "write_chunk ok rows table =
     (if length rows = 0 then Some table
      else if \<not> ok \<or> (\<exists>r\<in>set rows. de_receivedAt r = None) then None
      else Some (foldl insert_row table rows))"

section \<open>Batches\<close>

text \<open>
  A message of a partition with its offset; the broker numbers them in order. The ghost field
  \<open>ew_begin\<close> is where the consumer group last began without a committed offset.
\<close>

type_synonym logged = "nat \<times> kafka_message"

record event_writer =
  ew_table :: "event_row list"
  ew_committed :: "nat option"
  ew_position :: nat
  ew_draws :: nat
  ew_begin :: nat

record chunk_env =
  ce_running :: bool
  ce_insert_ok :: bool
  ce_commit_ok :: bool
  ce_heartbeat_ok :: bool

datatype batch_result = BatchDone | BatchStopped | BatchFailed

definition increment_offset :: "nat \<Rightarrow> nat" where
  "increment_offset n = n + 1"

text \<open>One chunk: rows, insert, \<open>resolveOffset\<close> of every message, commit after the last one.\<close>

definition process_chunk ::
    "(string \<Rightarrow> int option) \<Rightarrow> (nat \<Rightarrow> string) \<Rightarrow> chunk_env \<Rightarrow> logged list \<Rightarrow> event_writer \<Rightarrow> batch_result \<times> event_writer" where
  "process_chunk date uuid e chunk s =
     (let rows = chunk_rows date uuid (ew_draws s) (map snd chunk);
          s1 = s\<lparr>ew_draws := ew_draws s + length rows\<rparr>
      in case write_chunk (ce_insert_ok e) rows (ew_table s) of
           None \<Rightarrow> (BatchFailed, s1)
         | Some table \<Rightarrow>
             (let s2 = s1\<lparr>ew_table := table\<rparr>
              in if chunk = [] then (if ce_heartbeat_ok e then BatchDone else BatchFailed, s2)
                 else let s3 = s2\<lparr>ew_position := increment_offset (fst (last chunk))\<rparr>
                   in if \<not> ce_commit_ok e then (BatchFailed, s3)
                      else (if ce_heartbeat_ok e then BatchDone else BatchFailed,
                            s3\<lparr>ew_committed := Some (increment_offset (fst (last chunk)))\<rparr>)))"

text \<open>\<open>None\<close> is a loop that never ends: a batch size of zero never advances \<open>start\<close>.\<close>

partial_function (option) each_batch ::
    "(string \<Rightarrow> int option) \<Rightarrow> (nat \<Rightarrow> string) \<Rightarrow> nat \<Rightarrow> (nat \<Rightarrow> chunk_env) \<Rightarrow> logged list \<Rightarrow> nat \<Rightarrow> nat
      \<Rightarrow> event_writer \<Rightarrow> (batch_result \<times> event_writer) option" where
  "each_batch date uuid batchSize env messages start k s =
     (if length messages \<le> start then Some (BatchDone, s)
      else if \<not> ce_running (env k) then Some (BatchStopped, s)
      else case process_chunk date uuid (env k) (take batchSize (drop start messages)) s of
             (BatchDone, s') \<Rightarrow> each_batch date uuid batchSize env messages (start + batchSize) (Suc k) s'
           | r \<Rightarrow> Some r)"

section \<open>Delivery\<close>

text \<open>The next \<open>n\<close> messages at or after the position, in offset order.\<close>

definition fetch :: "logged list \<Rightarrow> nat \<Rightarrow> nat \<Rightarrow> logged list" where
  "fetch log n pos = take n (dropWhile (\<lambda>m. fst m < pos) log)"

definition log_end :: "logged list \<Rightarrow> nat" where
  "log_end log = (if log = [] then 0 else increment_offset (fst (last log)))"

text \<open>
  \<open>subscribe({ fromBeginning: false })\<close>: the consumer group goes on at its committed offset;
  as long as it has none it begins at the end of the partition.
\<close>

definition join_group :: "logged list \<Rightarrow> event_writer \<Rightarrow> event_writer" where
  "join_group log s =
     (case ew_committed s of
        Some c \<Rightarrow> s\<lparr>ew_position := c\<rparr>
      | None \<Rightarrow> s\<lparr>ew_position := log_end log, ew_begin := log_end log\<rparr>)"

definition idle_writer :: event_writer where
  "idle_writer = \<lparr>ew_table = [], ew_committed = None, ew_position = 0, ew_draws = 0, ew_begin = 0\<rparr>"

text \<open>Messages are queued, batches of any size are delivered and cut short anywhere, and the
  consumer crashes or is rebalanced and joins its group again, in any order.\<close>

inductive writer_moves ::
    "(string \<Rightarrow> int option) \<Rightarrow> (nat \<Rightarrow> string) \<Rightarrow> nat \<Rightarrow> logged list \<times> event_writer \<Rightarrow> logged list \<times> event_writer \<Rightarrow> bool"
  for date :: "string \<Rightarrow> int option" and uuid :: "nat \<Rightarrow> string" and batchSize :: nat where
  queued: "log_end log \<le> n \<Longrightarrow> writer_moves date uuid batchSize (log, s) (log @ [(n, m)], s)"
| delivered: "each_batch date uuid batchSize env (fetch log n (ew_position s)) 0 0 s = Some (r, s') \<Longrightarrow>
     writer_moves date uuid batchSize (log, s) (log, s')"
| rejoined: "writer_moves date uuid batchSize (log, s) (log, join_group log s)"

abbreviation writer_runs ::
    "(string \<Rightarrow> int option) \<Rightarrow> (nat \<Rightarrow> string) \<Rightarrow> nat \<Rightarrow> logged list \<times> event_writer \<Rightarrow> logged list \<times> event_writer \<Rightarrow> bool" where
  "writer_runs date uuid batchSize \<equiv> (writer_moves date uuid batchSize)\<^sup>*\<^sup>*"

section \<open>Rows and keys\<close>

text \<open>The key does not depend on the random identifier.\<close>

definition message_key :: "kafka_message \<Rightarrow> (string \<times> string) option" where
  "message_key m = map_option event_key (to_row (\<lambda>_. None) [] m)"

lemma to_row_key: "map_option event_key (to_row date rid m) = message_key m"
  by (auto simp: message_key_def to_row_def Let_def new_event_row_def event_key_def split: option.split)

lemma to_row_id: "to_row date rid m = Some r \<Longrightarrow> de_id r = rid"
  by (auto simp: to_row_def new_event_row_def Let_def split: option.splits)

lemma to_row_None: "to_row date rid m = None \<longleftrightarrow> message_key m = None"
  using to_row_key[of date rid m] by (metis option.map_disc_iff)

lemma to_row_Some_key: "to_row date rid m = Some r \<Longrightarrow> message_key m = Some (event_key r)"
  using to_row_key[of date rid m] by simp

section \<open>What the table holds\<close>

text \<open>Every message of \<open>ms\<close> is stored.\<close>

definition stored :: "event_row list \<Rightarrow> kafka_message list \<Rightarrow> bool" where
  "stored table ms \<longleftrightarrow> (\<forall>m\<in>set ms. \<forall>k. message_key m = Some k \<longrightarrow> k \<in> event_key ` set table)"

text \<open>Keys are distinct, and every row is that of a message of the log; from offset \<open>b\<close> on it is
  the first with its key.\<close>

definition first_since :: "nat \<Rightarrow> logged list \<Rightarrow> logged \<Rightarrow> bool" where
  "first_since b log m \<longleftrightarrow> m \<in> set log \<and>
     (\<forall>m' \<in> set log. b \<le> fst m' \<and> fst m' < fst m \<longrightarrow> message_key (snd m') \<noteq> message_key (snd m))"

definition table_of :: "(string \<Rightarrow> int option) \<Rightarrow> nat \<Rightarrow> logged list \<Rightarrow> event_row list \<Rightarrow> bool" where
  "table_of date b log table \<longleftrightarrow> distinct (map event_key table)
     \<and> (\<forall>r\<in>set table. \<exists>m. first_since b log m \<and> to_row date (de_id r) (snd m) = Some r)"

definition since :: "nat \<Rightarrow> logged list \<Rightarrow> kafka_message list" where
  "since b log = map snd (filter (\<lambda>m. b \<le> fst m) log)"

lemma since_append [simp]: "since b (l @ k) = since b l @ since b k"
  by (simp add: since_def)

lemma since_Nil [simp]: "since b [] = []"
  by (simp add: since_def)

lemma stored_append [simp]: "stored t (a @ b) \<longleftrightarrow> stored t a \<and> stored t b"
  by (auto simp: stored_def)

lemma stored_subset: "stored t ms \<Longrightarrow> set ms' \<subseteq> set ms \<Longrightarrow> stored t ms'"
  unfolding stored_def by blast

lemma stored_mono: "stored t ms \<Longrightarrow> set t \<subseteq> set t' \<Longrightarrow> stored t' ms"
  unfolding stored_def by blast

lemma insert_row_set: "set t \<subseteq> set (insert_row t r)" "event_key r \<in> event_key ` set (insert_row t r)"
  by (auto simp: insert_row_def)

lemma foldl_insert_set: "set t \<subseteq> set (foldl insert_row t rows)"
proof (induction rows arbitrary: t)
  case (Cons r rows)
  then show ?case using insert_row_set(1)[of t r] by force
qed simp

text \<open>Inserting the rows of the next messages of the log.\<close>

lemma insert_chunk:
  assumes "sorted_wrt (<) (map fst log)"
  shows "table_of date b log table \<Longrightarrow> stored table (since b pre) \<Longrightarrow> log = pre @ chunk @ post \<Longrightarrow>
     table_of date b log (foldl insert_row table (chunk_rows date uuid n (map snd chunk)))
     \<and> stored (foldl insert_row table (chunk_rows date uuid n (map snd chunk))) (since b (pre @ chunk))"
proof (induction chunk arbitrary: table pre n)
  case Nil
  then show ?case by simp
next
  case (Cons m ms)
  show ?case
  proof (cases "to_row date (uuid n) (snd m)")
    case None
    then have "stored table (since b (pre @ [m]))"
      using Cons.prems(2) to_row_None[of date "uuid n" "snd m"] by (simp add: stored_def since_def)
    with Cons.IH[of table "pre @ [m]" n] Cons.prems None show ?thesis by simp
  next
    case (Some r)
    have key: "message_key (snd m) = Some (event_key r)" using Some by (rule to_row_Some_key)
    have "stored (insert_row table r) (since b pre)" using Cons.prems(2) insert_row_set(1) by (rule stored_mono)
    then have stored: "stored (insert_row table r) (since b (pre @ [m]))"
      using insert_row_set(2)[of r table] key by (simp add: stored_def since_def del: split_paired_All)
    have "table_of date b log (insert_row table r)"
    proof (cases "event_key r \<in> event_key ` set table")
      case True
      with Cons.prems(1) show ?thesis by (simp add: insert_row_def)
    next
      case False
      have "message_key (snd m') \<noteq> message_key (snd m)" if "m' \<in> set log" "b \<le> fst m'" "fst m' < fst m" for m'
      proof -
        have "fst m < fst k" if "k \<in> set ms \<or> k \<in> set post" for k
          using that assms unfolding Cons.prems(3) by (auto simp: sorted_wrt_append)
        from this[of m'] that(1,3) have "m' \<in> set pre" unfolding Cons.prems(3) by auto
        then have "snd m' \<in> set (since b pre)" using that(2) by (simp add: since_def)
        then show ?thesis using Cons.prems(2) key False unfolding stored_def by metis
      qed
      then have "first_since b log m" using Cons.prems(3) by (simp add: first_since_def del: split_paired_All)
      then have "\<exists>m. first_since b log m \<and> to_row date (de_id r) (snd m) = Some r" using Some to_row_id[OF Some] by metis
      with Cons.prems(1) False show ?thesis by (auto simp: table_of_def insert_row_def)
    qed
    with Cons.IH[of "insert_row table r" "pre @ [m]" "Suc n"] stored Cons.prems(3) Some show ?thesis by simp
  qed
qed

section \<open>The invariant\<close>

definition between :: "nat \<Rightarrow> nat \<Rightarrow> logged list \<Rightarrow> kafka_message list" where
  "between b n log = map snd (filter (\<lambda>m. b \<le> fst m \<and> fst m < n) log)"

definition writer_inv :: "(string \<Rightarrow> int option) \<Rightarrow> logged list \<Rightarrow> event_writer \<Rightarrow> bool" where
  "writer_inv date log s \<longleftrightarrow> table_of date (ew_begin s) log (ew_table s)
     \<and> ew_begin s \<le> log_end log
     \<and> ew_position s \<le> log_end log \<and> stored (ew_table s) (between (ew_begin s) (ew_position s) log)
     \<and> (\<forall>c. ew_committed s = Some c \<longrightarrow> c \<le> log_end log \<and> stored (ew_table s) (between (ew_begin s) c log))"

lemma between_last:
  assumes "sorted_wrt (<) (map fst log)" and "log = pre @ chunk @ post" and "chunk \<noteq> []"
  shows "set (between b (increment_offset (fst (last chunk))) log) \<subseteq> set (since b (pre @ chunk))"
proof -
  have "fst (last chunk) < fst m" if "m \<in> set post" for m
    using assms that by (auto simp: sorted_wrt_append)
  then show ?thesis using assms(2) by (force simp: between_def since_def increment_offset_def)
qed

lemma below_log_end:
  assumes "sorted_wrt (<) (map fst log)" "m \<in> set log"
  shows "increment_offset (fst m) \<le> log_end log"
proof -
  obtain ms k where log: "log = ms @ [k]" using assms(2) by (cases log rule: rev_cases) auto
  then have "fst m \<le> fst k" using assms by (auto simp: sorted_wrt_append less_imp_le)
  then show ?thesis by (simp add: log log_end_def increment_offset_def)
qed

lemma write_chunk_Some: "write_chunk ok rows table = Some t \<Longrightarrow> t = foldl insert_row table rows"
  by (auto simp: write_chunk_def split: if_splits)

lemma process_chunk_inv:
  assumes sorted: "sorted_wrt (<) (map fst log)" and inv: "writer_inv date log s"
    and log: "log = pre @ chunk @ post" and pre: "stored (ew_table s) (since (ew_begin s) pre)"
    and run: "process_chunk date uuid e chunk s = (r, s')"
  shows "writer_inv date log s' \<and> ew_begin s' = ew_begin s \<and> (ew_committed s \<noteq> None \<longrightarrow> ew_committed s' \<noteq> None)
    \<and> (r = BatchDone \<longrightarrow> stored (ew_table s') (since (ew_begin s) (pre @ chunk)))"
proof -
  let ?rows = "chunk_rows date uuid (ew_draws s) (map snd chunk)"
  let ?table = "foldl insert_row (ew_table s) ?rows"
  have new: "table_of date (ew_begin s) log ?table" "stored ?table (since (ew_begin s) (pre @ chunk))"
    using insert_chunk[OF sorted, of date "ew_begin s" "ew_table s" pre chunk post uuid "ew_draws s"] inv pre log
    by (auto simp: writer_inv_def)
  have sub: "set (ew_table s) \<subseteq> set ?table" by (rule foldl_insert_set)
  then have old: "stored ?table (between (ew_begin s) (ew_position s) log)"
    "\<And>c. ew_committed s = Some c \<Longrightarrow> stored ?table (between (ew_begin s) c log)"
    using inv stored_mono unfolding writer_inv_def by blast+
  have last: "chunk \<noteq> [] \<Longrightarrow> stored ?table (between (ew_begin s) (increment_offset (fst (last chunk))) log)"
    "chunk \<noteq> [] \<Longrightarrow> increment_offset (fst (last chunk)) \<le> log_end log"
    using stored_subset[OF new(2) between_last[OF sorted log]] below_log_end[OF sorted, of "last chunk"] log by simp_all
  show ?thesis
  proof (cases "write_chunk (ce_insert_ok e) ?rows (ew_table s)")
    case None
    with run inv show ?thesis by (auto simp: process_chunk_def Let_def writer_inv_def)
  next
    case (Some table)
    then have "table = ?table" by (rule write_chunk_Some)
    with Some run new old last inv show ?thesis
      by (auto simp: process_chunk_def Let_def writer_inv_def split: if_splits)
  qed
qed

lemma chunk_of_log:
  assumes "log = pre @ messages @ post"
  shows "log = (pre @ take start messages) @ take b (drop start messages) @ drop b (drop start messages) @ post"
    and "(pre @ take start messages) @ take b (drop start messages) = pre @ take (start + b) messages"
  using assms append_take_drop_id[of start messages] append_take_drop_id[of b "drop start messages"]
  by (metis append.assoc) (simp add: take_add)

text \<open>A batch leaves the beginning alone and does not forget that there was a commit.\<close>

definition keeps_start :: "event_writer \<Rightarrow> event_writer \<Rightarrow> bool" where
  "keeps_start s t \<longleftrightarrow> ew_begin t = ew_begin s \<and> (ew_committed s \<noteq> None \<longrightarrow> ew_committed t \<noteq> None)"

lemma keeps_start_trans: "keeps_start r s \<Longrightarrow> keeps_start s t \<Longrightarrow> keeps_start r t"
  by (auto simp: keeps_start_def)

lemma each_batch_inv:
  assumes sorted: "sorted_wrt (<) (map fst log)" and log: "log = pre @ messages @ post"
    and run: "each_batch date uuid batchSize env messages start k s = Some y"
    and inv: "writer_inv date log s" "stored (ew_table s) (since (ew_begin s) (pre @ take start messages))"
  shows "writer_inv date log (snd y) \<and> keeps_start s (snd y)"
proof -
  let ?P = "\<lambda>dt u b en ms st k s y. dt = date \<longrightarrow> ms = messages \<longrightarrow> writer_inv date log s
      \<longrightarrow> stored (ew_table s) (since (ew_begin s) (pre @ take st messages))
      \<longrightarrow> writer_inv date log (snd (y :: batch_result \<times> event_writer)) \<and> keeps_start s (snd y)"
  have "?P date uuid batchSize env messages start k s y"
  proof (rule each_batch.raw_induct[where P = ?P, OF _ run], intro impI)
    fix loop dt u b en ms st k' s' y'
    assume IH: "\<And>dt u b en ms st k s y. loop dt u b en ms st k s = Some y \<Longrightarrow> ?P dt u b en ms st k s y"
      and step: "(if length ms \<le> st then Some (BatchDone, s')
         else if \<not> ce_running (en k') then Some (BatchStopped, s')
         else case process_chunk dt u (en k') (take b (drop st ms)) s' of
             (BatchDone, s2) \<Rightarrow> loop dt u b en ms (st + b) (Suc k') s2
           | (BatchStopped, s2) \<Rightarrow> Some (BatchStopped, s2) | (BatchFailed, s2) \<Rightarrow> Some (BatchFailed, s2)) = Some y'"
      and eqs: "dt = date" "ms = messages" and pre: "writer_inv date log s'"
        "stored (ew_table s') (since (ew_begin s') (pre @ take st messages))"
    obtain r s2 where chunk: "process_chunk dt u (en k') (take b (drop st ms)) s' = (r, s2)" by (metis surj_pair)
    note inv = process_chunk_inv[OF sorted pre(1) chunk_of_log(1)[OF log] pre(2) chunk[unfolded eqs]]
    show "writer_inv date log (snd y') \<and> keeps_start s' (snd y')"
    proof (cases "length ms \<le> st \<or> \<not> ce_running (en k') \<or> r \<noteq> BatchDone")
      case True
      with step pre(1) inv show ?thesis unfolding chunk by (cases r) (auto simp: keeps_start_def split: if_splits)
    next
      case False
      with step chunk have "loop dt u b en ms (st + b) (Suc k') s2 = Some y'" by simp
      moreover have "writer_inv date log s2" "keeps_start s' s2"
        "stored (ew_table s2) (since (ew_begin s2) (pre @ take (st + b) messages))"
        using inv False unfolding chunk_of_log(2)[OF log] keeps_start_def by simp_all
      ultimately show ?thesis using IH eqs keeps_start_trans by blast
    qed
  qed
  with inv show ?thesis by blast
qed

lemma fetch_of_log:
  "log = takeWhile (\<lambda>m. fst m < pos) log @ fetch log n pos @ drop n (dropWhile (\<lambda>m. fst m < pos) log)"
  by (simp add: fetch_def)

lemma stored_before:
  assumes "writer_inv date log s"
  shows "stored (ew_table s) (since (ew_begin s) (takeWhile (\<lambda>m. fst m < ew_position s) log))"
proof -
  have "set (since (ew_begin s) (takeWhile (\<lambda>m. fst m < ew_position s) log)) \<subseteq> set (between (ew_begin s) (ew_position s) log)"
    by (auto simp: between_def since_def dest: set_takeWhileD)
  then show ?thesis using assms stored_subset unfolding writer_inv_def by blast
qed

lemma deliver_inv:
  assumes "sorted_wrt (<) (map fst log)" "writer_inv date log s"
    and "each_batch date uuid batchSize env (fetch log n (ew_position s)) 0 0 s = Some (r, s')"
  shows "writer_inv date log s' \<and> keeps_start s s'"
  using each_batch_inv[OF assms(1) fetch_of_log assms(3,2)] stored_before[OF assms(2)] by simp

lemma log_end_snoc [simp]: "log_end (log @ [m]) = increment_offset (fst m)"
  by (simp add: log_end_def)

text \<open>Queueing a message at or after the end.\<close>

lemma message_offset_ok:
  assumes "sorted_wrt (<) (map fst log)" "log_end log \<le> n"
  shows "sorted_wrt (<) (map fst (log @ [(n, m)]))" "c \<le> log_end log \<Longrightarrow> between b c (log @ [(n, m)]) = between b c log"
    "log_end log \<le> log_end (log @ [(n, m)])"
    "first_since b log k \<Longrightarrow> first_since b (log @ [(n, m)]) k"
proof -
  have below: "fst k < n" if "k \<in> set log" for k
    using below_log_end[OF assms(1) that] assms(2) by (simp add: increment_offset_def)
  then show "sorted_wrt (<) (map fst (log @ [(n, m)]))" using assms(1) by (auto simp: sorted_wrt_append)
  show "c \<le> log_end log \<Longrightarrow> between b c (log @ [(n, m)]) = between b c log" using assms(2) by (simp add: between_def)
  show "log_end log \<le> log_end (log @ [(n, m)])" using assms(2) by (simp add: increment_offset_def)
  show "first_since b (log @ [(n, m)]) k" if "first_since b log k"
    using that below[of k] by (auto simp: first_since_def)
qed

lemma move_inv:
  assumes "writer_moves date uuid batchSize (log, s) (log', s')" "sorted_wrt (<) (map fst log)" "writer_inv date log s"
  shows "sorted_wrt (<) (map fst log') \<and> writer_inv date log' s' \<and> (ew_committed s \<noteq> None \<longrightarrow> keeps_start s s')"
  using assms(1)
proof (cases rule: writer_moves.cases)
  case (queued n m)
  note ok = message_offset_ok[OF assms(2) queued(3)]
  have "table_of date b (log @ [(n, m)]) t" if "table_of date b log t" for b t
    using that ok(4) unfolding table_of_def by blast
  then have "writer_inv date (log @ [(n, m)]) s"
    using assms(3) ok(2) order.trans[OF _ ok(3)] by (simp add: writer_inv_def)
  with queued(1,2) ok(1) show ?thesis by (simp add: keeps_start_def)
next
  case (delivered env n r)
  with deliver_inv[OF assms(2,3) delivered(2)] assms(2) show ?thesis by simp
next
  case rejoined
  have end_begin: "between (log_end log) (log_end log) log = []" by (auto simp: between_def filter_empty_conv)
  have "first_since (log_end log) log k" if "first_since b log k" "b \<le> log_end log" for b k
    using that by (auto simp: first_since_def)
  then show ?thesis using assms(2,3) rejoined end_begin
    by (cases "ew_committed s") (auto simp: join_group_def writer_inv_def keeps_start_def table_of_def stored_def, blast)
qed

lemma runs_inv:
  assumes "writer_runs date uuid batchSize (log, s) (log', s')" "sorted_wrt (<) (map fst log)" "writer_inv date log s"
  shows "sorted_wrt (<) (map fst log') \<and> writer_inv date log' s' \<and> (ew_committed s \<noteq> None \<longrightarrow> keeps_start s s')"
  using assms(1)
proof (induction rule: rtranclp_induct2)
  case refl
  with assms show ?case by (simp add: keeps_start_def)
next
  case (step log1 s1 log2 s2)
  then have "sorted_wrt (<) (map fst log1)" "writer_inv date log1 s1" "ew_committed s \<noteq> None \<longrightarrow> keeps_start s s1" by simp_all
  with move_inv[OF step.hyps(2)] show ?case using keeps_start_trans by (metis keeps_start_def)
qed

lemma start_inv: "writer_inv date log (join_group log idle_writer)"
  by (auto simp: writer_inv_def join_group_def idle_writer_def table_of_def stored_def between_def)

section \<open>Progress\<close>

definition good_env :: "nat \<Rightarrow> chunk_env" where
  "good_env k = \<lparr>ce_running = True, ce_insert_ok = True, ce_commit_ok = True, ce_heartbeat_ok = True\<rparr>"

lemma chunk_rows_dates:
  "\<forall>m\<in>set ms. \<forall>rid r. to_row date rid m = Some r \<longrightarrow> de_receivedAt r \<noteq> None \<Longrightarrow>
     r \<in> set (chunk_rows date uuid n ms) \<Longrightarrow> de_receivedAt r \<noteq> None"
  by (induction ms arbitrary: n) (auto split: option.splits)

lemma process_chunk_good:
  assumes "\<forall>m\<in>set (map snd chunk). \<forall>rid r. to_row date rid m = Some r \<longrightarrow> de_receivedAt r \<noteq> None"
  shows "\<exists>s'. process_chunk date uuid (good_env k) chunk s = (BatchDone, s')
     \<and> (chunk \<noteq> [] \<longrightarrow> ew_committed s' = Some (increment_offset (fst (last chunk))))"
proof -
  have "\<exists>t. write_chunk True (chunk_rows date uuid (ew_draws s) (map snd chunk)) (ew_table s) = Some t"
  proof -
    have "\<not> (\<exists>r\<in>set (chunk_rows date uuid (ew_draws s) (map snd chunk)). de_receivedAt r = None)"
      using chunk_rows_dates[OF assms] by blast
    then show ?thesis unfolding write_chunk_def by (metis (no_types, lifting))
  qed
  then show ?thesis by (auto simp: process_chunk_def good_env_def Let_def)
qed

lemma each_batch_good:
  assumes sorted: "sorted_wrt (<) (map fst log)" and log: "log = pre @ messages @ post" and "0 < batchSize"
    and dates: "\<forall>m\<in>set (map snd log). \<forall>rid r. to_row date rid m = Some r \<longrightarrow> de_receivedAt r \<noteq> None"
  shows "writer_inv date log s \<Longrightarrow> stored (ew_table s) (since (ew_begin s) (pre @ take start messages)) \<Longrightarrow>
     \<exists>s'. each_batch date uuid batchSize good_env messages start k s = Some (BatchDone, s')
       \<and> ew_begin s' = ew_begin s \<and> stored (ew_table s') (since (ew_begin s) (pre @ messages))"
proof (induction "length messages - start" arbitrary: start k s rule: less_induct)
  case less
  show ?case
  proof (cases "length messages \<le> start")
    case True
    with less.prems show ?thesis by (subst each_batch.simps) simp
  next
    case False
    have "set (take batchSize (drop start messages)) \<subseteq> set log"
      unfolding log using set_take_subset set_drop_subset by fastforce
    then have "\<forall>m\<in>set (map snd (take batchSize (drop start messages))). \<forall>rid r. to_row date rid m = Some r \<longrightarrow> de_receivedAt r \<noteq> None"
      using dates by auto
    then obtain s1 where chunk: "process_chunk date uuid (good_env k) (take batchSize (drop start messages)) s = (BatchDone, s1)"
      using process_chunk_good by blast
    have "writer_inv date log s1" "ew_begin s1 = ew_begin s"
      "stored (ew_table s1) (since (ew_begin s1) (pre @ take (start + batchSize) messages))"
      using process_chunk_inv[OF sorted less.prems(1) chunk_of_log(1)[OF log] less.prems(2) chunk]
      unfolding chunk_of_log(2)[OF log] by simp_all
    note now = this
    have "length messages - (start + batchSize) < length messages - start" using False assms(3) by simp
    with less.hyps now(1,3) obtain s' where "each_batch date uuid batchSize good_env messages (start + batchSize) (Suc k) s1 = Some (BatchDone, s')"
        "ew_begin s' = ew_begin s1" "stored (ew_table s') (since (ew_begin s1) (pre @ messages))"
      by blast
    with chunk now(2) False show ?thesis by (subst each_batch.simps) (simp add: good_env_def)
  qed
qed

text \<open>With batch size zero the loop on a non-empty batch never advances.\<close>

lemma each_batch_zero: "messages \<noteq> [] \<Longrightarrow> each_batch date uuid 0 good_env messages 0 k s = None"
proof (rule ccontr)
  assume ne: "messages \<noteq> []" and "each_batch date uuid 0 good_env messages 0 k s \<noteq> None"
  then obtain y where run: "each_batch date uuid 0 good_env messages 0 k s = Some y" by blast
  let ?P = "\<lambda>(dt :: string \<Rightarrow> int option) (u :: nat \<Rightarrow> string) (b :: nat) en ms (st :: nat) (k :: nat) (s :: event_writer) (y :: batch_result \<times> event_writer).
      b = 0 \<longrightarrow> en = good_env \<longrightarrow> ms = messages \<longrightarrow> st = 0 \<longrightarrow> False"
  have "?P date uuid 0 good_env messages 0 k s y"
    by (rule each_batch.raw_induct[where P = ?P, OF _ run], intro impI)
      (auto simp: ne good_env_def process_chunk_def write_chunk_def Let_def split: batch_result.splits if_splits, blast)
  then show False by simp
qed

section \<open>The property\<close>

definition stored_once :: "logged list \<Rightarrow> event_row list \<Rightarrow> bool" where
  "stored_once log table \<longleftrightarrow>
     (\<forall>m\<in>set log. \<forall>k. message_key (snd m) = Some k \<longrightarrow> (\<exists>!i. i < length table \<and> event_key (table ! i) = k))"

lemma stored_once_intro:
  assumes "distinct (map event_key table)" and "stored table (map snd log)"
  shows "stored_once log table"
  unfolding stored_once_def
proof (intro ballI allI impI)
  fix m k
  assume "m \<in> set log" and "message_key (snd m) = Some k"
  then have "k \<in> set (map event_key table)" using assms(2) unfolding stored_def by (metis (no_types) image_eqI set_map)
  then show "\<exists>!i. i < length table \<and> event_key (table ! i) = k"
    using distinct_Ex1[OF assms(1), of k] by auto
qed

lemma fetch_all: "fetch log (length log) pos = dropWhile (\<lambda>m. fst m < pos) log"
  by (simp add: fetch_def length_dropWhile_le)

lemma delivery_finishes:
  assumes sorted: "sorted_wrt (<) (map fst log)" and inv: "writer_inv date log s" and pos: "0 < batchSize"
    and dates: "\<forall>m\<in>set (map snd log). \<forall>rid r. to_row date rid m = Some r \<longrightarrow> de_receivedAt r \<noteq> None"
  shows "\<exists>s'. each_batch date uuid batchSize good_env (fetch log (length log) (ew_position s)) 0 0 s = Some (BatchDone, s')
            \<and> ew_begin s' = ew_begin s \<and> stored_once (filter (\<lambda>m. ew_begin s \<le> fst m) log) (ew_table s')"
proof -
  obtain s' where run: "each_batch date uuid batchSize good_env (fetch log (length log) (ew_position s)) 0 0 s = Some (BatchDone, s')"
      and all: "ew_begin s' = ew_begin s" "stored (ew_table s')
        (since (ew_begin s) (takeWhile (\<lambda>m. fst m < ew_position s) log @ fetch log (length log) (ew_position s)))"
    using each_batch_good[OF sorted fetch_of_log[of log "ew_position s" "length log"] pos dates inv, where start = 0]
      stored_before[OF inv]
    by auto
  have "distinct (map event_key (ew_table s'))"
    using deliver_inv[OF sorted inv run] by (simp add: writer_inv_def table_of_def)
  moreover have "stored (ew_table s') (since (ew_begin s) log)" using all(2) by (simp add: fetch_all flip: since_append)
  ultimately show ?thesis using run all(1) stored_once_intro by (auto simp: since_def)
qed

text \<open>C7: A writer joins its group with nothing committed, begins at the end of the partition, and then
  messages are queued, deliveries are cut short by lost inserts, lost commits and rebalances, and
  the consumer crashes and joins again, in any order. No device message id is ever stored twice,
  and every row is that of a queued message, the first with its key from the current beginning on.
  From the first committed offset on the beginning never moves again, and every well-formed
  message from there up to the committed offset is stored: none is skipped. One undisturbed
  delivery of what is left ends, with a positive batch size and valid receipt times, with every
  well-formed message from the beginning on in exactly one row.\<close>

theorem events_exactly_once:
  assumes sorted: "sorted_wrt (<) (map fst log0)"
    and run: "writer_runs date uuid batchSize (log0, join_group log0 idle_writer) (log, s)"
  shows "distinct (map event_key (ew_table s))
    \<and> (\<forall>r\<in>set (ew_table s). \<exists>m. first_since (ew_begin s) log m \<and> to_row date (de_id r) (snd m) = Some r)
    \<and> (\<forall>c. ew_committed s = Some c \<longrightarrow> (\<forall>m\<in>set log. ew_begin s \<le> fst m \<and> fst m < c \<longrightarrow>
         (\<forall>k. message_key (snd m) = Some k \<longrightarrow> k \<in> event_key ` set (ew_table s))))
    \<and> (\<forall>log' s'. ew_committed s \<noteq> None \<longrightarrow> writer_runs date uuid batchSize (log, s) (log', s') \<longrightarrow>
         ew_begin s' = ew_begin s \<and> ew_committed s' \<noteq> None)
    \<and> (0 < batchSize \<longrightarrow> (\<forall>m\<in>set (map snd log). \<forall>rid r. to_row date rid m = Some r \<longrightarrow> de_receivedAt r \<noteq> None) \<longrightarrow>
         (\<exists>s'. each_batch date uuid batchSize good_env (fetch log (length log) (ew_position s)) 0 0 s = Some (BatchDone, s')
            \<and> ew_begin s' = ew_begin s \<and> stored_once (filter (\<lambda>m. ew_begin s \<le> fst m) log) (ew_table s')))"
proof -
  have inv: "sorted_wrt (<) (map fst log)" "writer_inv date log s"
    using runs_inv[OF run sorted start_inv] by simp_all
  have committed: "k \<in> event_key ` set (ew_table s)"
    if c: "ew_committed s = Some c" and m: "m \<in> set log" "ew_begin s \<le> fst m \<and> fst m < c" "message_key (snd m) = Some k" for c m k
  proof -
    have "snd m \<in> set (between (ew_begin s) c log)" using m(1,2) by (simp add: between_def)
    with inv(2) c m(3) show ?thesis unfolding writer_inv_def stored_def by blast
  qed
  have stays: "ew_begin s' = ew_begin s \<and> ew_committed s' \<noteq> None"
    if "ew_committed s \<noteq> None" "writer_runs date uuid batchSize (log, s) (log', s')" for log' s'
    using runs_inv[OF that(2) inv] that(1) by (simp add: keeps_start_def)
  show ?thesis
    using inv(2) committed stays delivery_finishes[OF inv] unfolding writer_inv_def table_of_def by blast
qed

definition demo_message :: kafka_message where
  "demo_message = \<lparr>km_key = Some ''d'', km_receivedAt = Some (HeaderOne ''t''),
     km_value = Some (json_print (JObj [(''msgId'', JStr ''m''), (''type'', JStr ''boot'')]))\<rparr>"

lemma demo_row: "to_row date rid demo_message = Some (new_event_row date rid ''d'' ''t''
    (JObj [(''msgId'', JStr ''m''), (''type'', JStr ''boot'')]) ''m'')"
proof -
  have "json_ok (JObj [(''msgId'', JStr ''m''), (''type'', JStr ''boot'')])" by simp
  then have "json_parse (json_print (JObj [(''msgId'', JStr ''m''), (''type'', JStr ''boot'')]))
      = Some (JObj [(''msgId'', JStr ''m''), (''type'', JStr ''boot'')])"
    by (rule json_parse_print)
  moreover have "trim ''d'' = ''d''" "trim ''t'' = ''t''" "trim ''m'' = ''m''" "trim ''boot'' = ''boot''"
    by (simp_all add: trim_id js_space_simps)
  ultimately show ?thesis
    by (simp add: to_row_def demo_message_def normalize_optional_string_def header_value_def
        parse_device_event_envelope_def is_device_event_envelope_def)
qed

lemma demo_runs: "writer_runs date uuid b ([], join_group [] idle_writer)
    ([(0, demo_message), (1, demo_message)], join_group [] idle_writer)"
proof -
  have one: "writer_moves date uuid b ([], s) ([(0, demo_message)], s)" for s
    using queued[of "[]" 0 date uuid b s demo_message] by (simp add: log_end_def)
  have two: "writer_moves date uuid b ([(0, demo_message)], s) ([(0, demo_message), (1, demo_message)], s)" for s
    using queued[of "[(0, demo_message)]" 1 date uuid b s demo_message] by (simp add: log_end_def increment_offset_def)
  show ?thesis by (rule converse_rtranclp_into_rtranclp[OF one r_into_rtranclp[of "writer_moves date uuid b", OF two]])
qed

theorem events_exactly_once_witness:
  "\<exists>s'. each_batch (\<lambda>s. Some 7) (\<lambda>n. ''u'') 10 good_env (fetch [(0, demo_message), (1, demo_message)] 2 0) 0 0
       (join_group [] idle_writer) = Some (BatchDone, s') \<and> stored_once [(0, demo_message), (1, demo_message)] (ew_table s')"
proof -
  have start: "join_group [] idle_writer = idle_writer" by (simp add: join_group_def idle_writer_def log_end_def)
  have "sorted_wrt (<) (map fst ([] :: logged list))" by simp
  note ex = events_exactly_once[OF this demo_runs[of "\<lambda>s. Some 7" "\<lambda>n. ''u''" 10]]
  have dates: "\<forall>m\<in>set (map snd [(0 :: nat, demo_message), (1, demo_message)]). \<forall>rid r. to_row (\<lambda>s. Some 7) rid m = Some r \<longrightarrow>
      de_receivedAt r \<noteq> None"
    by (simp add: demo_row new_event_row_def)
  show ?thesis
    using ex[THEN conjunct2, THEN conjunct2, THEN conjunct2, THEN conjunct2, THEN mp, THEN mp, OF _ dates]
    unfolding start by (auto simp: idle_writer_def numeral_2_eq_2)
qed

text \<open>The first batch is interrupted before anything of the group is committed: the consumer that
  takes over begins after it, and the message is never stored.\<close>

lemma uncommitted_batch_skipped:
  "writer_runs date uuid b ([], join_group [] idle_writer)
     ([(0, demo_message), (1, demo_message)], (join_group [] idle_writer)\<lparr>ew_position := 2, ew_begin := 2\<rparr>)"
  using rtranclp.rtrancl_into_rtrancl[OF demo_runs rejoined, of date uuid b]
  by (simp add: join_group_def idle_writer_def log_end_def increment_offset_def numeral_2_eq_2)

end
