(* ===== verification/Device_Registry.thy ===== *)
theory Device_Registry
  imports Admin_Query Event_Writer
begin

text \<open>
  The registry of devices and its administration
  (\<open>web/packages/helix-backend/src/devices/admin-router.ts\<close>, tables of \<open>db/schema.ts\<close>):
  registering a device, switching it on and off, rotating its access token, deleting it, listing.
  Deleting a row of \<open>device\<close> deletes its rows of \<open>device_certificate\<close>, a foreign key with
  \<open>ON DELETE CASCADE\<close>; events have no foreign key and are deleted by the procedure.
\<close>

section \<open>Tables\<close>

record registry_row = device_row +
  rg_name :: string
  rg_description :: "string option"
  rg_createdAt :: nat
  rg_updatedAt :: nat

record certificate_row =
  cf_id :: string
  cf_deviceId :: string
  cf_serialNumber :: string
  cf_fingerprintSha256 :: string
  cf_subjectCommonName :: "string option"
  cf_notBefore :: int
  cf_notAfter :: int
  cf_issuedAt :: nat
  cf_status :: string
  cf_revokedAt :: "nat option"
  cf_revocationReason :: "string option"
  cf_revokedByUserId :: "string option"

record registry_db =
  rb_devices :: "registry_row list"
  rb_events :: "event_row list"
  rb_certs :: "certificate_row list"
  rb_draws :: nat

text \<open>The columns the bearer-token check reads.\<close>

definition login_rows :: "registry_db \<Rightarrow> device_row list" where
  "login_rows db = map device_row.truncate (rb_devices db)"

section \<open>Operations\<close>

definition DEVICE_NAME_MAX :: nat where "DEVICE_NAME_MAX = 200"
definition DESCRIPTION_MAX :: nat where "DESCRIPTION_MAX = 500"
definition EVENTS_LIMIT_MAX :: nat where "EVENTS_LIMIT_MAX = 100"

text \<open>\<open>z.string().min(1).max(NAME_MAX)\<close>, and an optional description.\<close>

definition z_name :: "string \<Rightarrow> trpc_error + string" where
  "z_name s = (if s = [] \<or> DEVICE_NAME_MAX < length s then Inl (TRPC BAD_REQUEST ''name'') else Inr s)"

definition z_description :: "string option \<Rightarrow> trpc_error + string option" where
  "z_description d =
     (case d of Some s \<Rightarrow> if DESCRIPTION_MAX < length s then Inl (TRPC BAD_REQUEST ''description'') else Inr d | None \<Rightarrow> Inr d)"

text \<open>\<open>randomBytes(TOKEN_BYTES).toString('hex')\<close>: the next draw of the random source.\<close>

definition new_token :: "release_host \<Rightarrow> registry_db \<Rightarrow> string" where
  "new_token h db = rh_random h (rb_draws db)"

definition new_device :: "string \<Rightarrow> string \<Rightarrow> string option \<Rightarrow> string \<Rightarrow> nat \<Rightarrow> registry_row" where
  "new_device i name description token now =
     \<lparr>dv_id = i, dv_accessToken = token, dv_isActive = True, rg_name = name, rg_description = description,
      rg_createdAt = now, rg_updatedAt = now\<rparr>"

text \<open>The primary key and the unique index on the token reject a second row.\<close>

definition insert_device :: "registry_row \<Rightarrow> registry_db \<Rightarrow> trpc_error + registry_db" where
  "insert_device r db =
     (if \<exists>d \<in> set (rb_devices db). dv_id d = dv_id r \<or> dv_accessToken d = dv_accessToken r
      then Inl (TRPC INTERNAL_ERROR ''unique'') else Inr (db\<lparr>rb_devices := rb_devices db @ [r]\<rparr>))"

record registered =
  rr_id :: string
  rr_name :: string
  rr_accessToken :: string

definition device_create ::
    "release_host \<Rightarrow> nat \<Rightarrow> admin_user option \<Rightarrow> string list \<Rightarrow> string \<Rightarrow> string option \<Rightarrow> registry_db
      \<Rightarrow> trpc_error + registered \<times> registry_db" where
  "device_create h now user roles name description db = admin_procedure user roles (\<lambda>u.
     bind_sum (z_name name) (\<lambda>name. bind_sum (z_description description) (\<lambda>description.
       let i = prefixed_id h ''dev'' (rb_draws db);
           db1 = db\<lparr>rb_draws := Suc (rb_draws db)\<rparr>;
           accessToken = new_token h db1;
           db2 = db1\<lparr>rb_draws := Suc (rb_draws db1)\<rparr>
       in bind_sum (insert_device (new_device i name description accessToken now) db2) (\<lambda>db3.
            Inr (\<lparr>rr_id = i, rr_name = name, rr_accessToken = accessToken\<rparr>, db3)))))"

text \<open>Every update of a row sets \<open>updatedAt\<close>.\<close>

definition update_device :: "nat \<Rightarrow> string \<Rightarrow> (registry_row \<Rightarrow> registry_row) \<Rightarrow> registry_db \<Rightarrow> registry_db" where
  "update_device now i f db = db\<lparr>rb_devices :=
     map (\<lambda>r. if dv_id r = i then (f r)\<lparr>rg_updatedAt := now\<rparr> else r) (rb_devices db)\<rparr>"

definition device_set_active ::
    "nat \<Rightarrow> admin_user option \<Rightarrow> string list \<Rightarrow> string \<Rightarrow> bool \<Rightarrow> registry_db \<Rightarrow> trpc_error + registry_db" where
  "device_set_active now user roles i isActive db = admin_procedure user roles (\<lambda>u.
     Inr (update_device now i (\<lambda>r. r\<lparr>dv_isActive := isActive\<rparr>) db))"

definition device_rotate_token ::
    "release_host \<Rightarrow> nat \<Rightarrow> admin_user option \<Rightarrow> string list \<Rightarrow> string \<Rightarrow> registry_db \<Rightarrow> trpc_error + string \<times> registry_db" where
  "device_rotate_token h now user roles i db = admin_procedure user roles (\<lambda>u.
     let accessToken = new_token h db;
         db1 = db\<lparr>rb_draws := Suc (rb_draws db)\<rparr>
     in if \<exists>d \<in> set (rb_devices db). dv_id d \<noteq> i \<and> dv_accessToken d = accessToken \<and> i \<in> dv_id ` set (rb_devices db)
        then Inl (TRPC INTERNAL_ERROR ''unique'')
        else if i \<notin> dv_id ` set (rb_devices db) then Inl (TRPC NOT_FOUND ''Device not found'')
        else Inr (accessToken, update_device now i (\<lambda>r. r\<lparr>dv_accessToken := accessToken\<rparr>) db1))"

definition device_delete ::
    "admin_user option \<Rightarrow> string list \<Rightarrow> string \<Rightarrow> registry_db \<Rightarrow> trpc_error + registry_db" where
  "device_delete user roles i db = admin_procedure user roles (\<lambda>u.
     let db1 = db\<lparr>rb_events := filter (\<lambda>e. de_deviceId e \<noteq> i) (rb_events db)\<rparr>
     in Inr (db1\<lparr>rb_devices := filter (\<lambda>r. dv_id r \<noteq> i) (rb_devices db1),
                rb_certs := filter (\<lambda>c. cf_deviceId c \<noteq> i) (rb_certs db1)\<rparr>))"

section \<open>Queries\<close>

text \<open>\<open>max(coalesce(event_timestamp, received_at))\<close> over the events of a device.\<close>

definition seen_at :: "event_row \<Rightarrow> int option" where
  "seen_at e = (case de_eventTimestamp e of None \<Rightarrow> de_receivedAt e | Some t \<Rightarrow> Some t)"

fun max_option :: "int option list \<Rightarrow> int option" where
  "max_option [] = None"
| "max_option (None # xs) = max_option xs"
| "max_option (Some x # xs) = (case max_option xs of None \<Rightarrow> Some x | Some y \<Rightarrow> Some (max x y))"

definition device_history :: "registry_db \<Rightarrow> string \<Rightarrow> event_row list" where
  "device_history db i = filter (\<lambda>e. de_deviceId e = i) (rb_events db)"

record device_listing =
  dl_id :: string
  dl_name :: string
  dl_description :: "string option"
  dl_isActive :: bool
  dl_eventCount :: nat
  dl_lastSeenAt :: "int option"
  dl_createdAt :: nat
  dl_updatedAt :: nat

definition device_listing_of :: "registry_db \<Rightarrow> registry_row \<Rightarrow> device_listing" where
  "device_listing_of db r =
     \<lparr>dl_id = dv_id r, dl_name = rg_name r, dl_description = rg_description r, dl_isActive = dv_isActive r,
      dl_eventCount = length (device_history db (dv_id r)),
      dl_lastSeenAt = max_option (map seen_at (device_history db (dv_id r))),
      dl_createdAt = rg_createdAt r, dl_updatedAt = rg_updatedAt r\<rparr>"

definition device_sortable :: "(string \<Rightarrow> string \<Rightarrow> bool) \<Rightarrow> (string \<times> registry_row column) list" where
  "device_sortable le = [(''name'', \<lambda>a b. le (rg_name a) (rg_name b)),
     (''createdAt'', \<lambda>a b. rg_createdAt a \<le> rg_createdAt b), (''updatedAt'', \<lambda>a b. rg_updatedAt a \<le> rg_updatedAt b)]"

text \<open>Selecting both states, or neither, is no filter.\<close>

definition status_filter :: "string list \<Rightarrow> registry_row \<Rightarrow> bool" where
  "status_filter status r =
     (let wantsActive = List.member status ''active''; wantsInactive = List.member status ''inactive''
      in wantsActive \<noteq> wantsInactive \<longrightarrow> dv_isActive r = wantsActive)"

definition device_matches :: "(char \<Rightarrow> char) \<Rightarrow> string \<Rightarrow> string list \<Rightarrow> registry_row \<Rightarrow> bool" where
  "device_matches fold_case name status r \<longleftrightarrow> name_filter fold_case rg_name name r \<and> status_filter status r"

definition device_list ::
    "(char \<Rightarrow> char) \<Rightarrow> (string \<Rightarrow> string \<Rightarrow> bool) \<Rightarrow> admin_user option \<Rightarrow> string list \<Rightarrow> int \<Rightarrow> int \<Rightarrow> string \<Rightarrow> string list
      \<Rightarrow> sort_item list \<Rightarrow> registry_db \<Rightarrow> trpc_error + device_listing page" where
  "device_list fold_case le user roles page perPage name status sorting db = admin_procedure user roles (\<lambda>u.
     bind_sum (z_page page perPage) (\<lambda>(page, perPage).
       Inr (paginate page perPage (map (device_listing_of db)
         (sort_by (order_by_columns (device_sortable le) (\<lambda>a b. rg_createdAt a \<le> rg_createdAt b) sorting)
           (filter (device_matches fold_case name status) (rb_devices db)))))))"

text \<open>Open to everyone; the access token is not part of the answer.\<close>

definition device_get :: "string \<Rightarrow> registry_db \<Rightarrow> device_listing option" where
  "device_get i db = map_option (device_listing_of db) (find (\<lambda>r. dv_id r = i) (rb_devices db))"

definition device_events ::
    "admin_user option \<Rightarrow> string list \<Rightarrow> string \<Rightarrow> int \<Rightarrow> registry_db \<Rightarrow> trpc_error + event_row list" where
  "device_events user roles i limit db = admin_procedure user roles (\<lambda>u.
     if limit < 1 \<or> int EVENTS_LIMIT_MAX < limit then Inl (TRPC BAD_REQUEST ''limit'')
     else Inr (take (nat limit) (sort_by (direction True (\<lambda>a b. nullable (\<le>) (de_receivedAt a) (de_receivedAt b)))
       (device_history db i))))"

section \<open>Runs\<close>

text \<open>What an operation does to the logins of devices.\<close>

datatype login_change =
    Registered string string
  | Switched string bool
  | Rotated string string
  | Removed string

inductive registry_step :: "release_host \<Rightarrow> login_change \<Rightarrow> registry_db \<Rightarrow> registry_db \<Rightarrow> bool" for h where
  create: "device_create h now user roles name description db = Inr (r, db')
    \<Longrightarrow> registry_step h (Registered (rr_id r) (rr_accessToken r)) db db'"
| set_active: "device_set_active now user roles i isActive db = Inr db' \<Longrightarrow> registry_step h (Switched i isActive) db db'"
| rotate: "device_rotate_token h now user roles i db = Inr (token, db') \<Longrightarrow> registry_step h (Rotated i token) db db'"
| delete: "device_delete user roles i db = Inr db' \<Longrightarrow> registry_step h (Removed i) db db'"

inductive registry_run :: "release_host \<Rightarrow> login_change list \<Rightarrow> registry_db \<Rightarrow> registry_db \<Rightarrow> bool" for h where
  stop: "registry_run h [] db db"
| more: "registry_step h c db db1 \<Longrightarrow> registry_run h cs db1 db2 \<Longrightarrow> registry_run h (c # cs) db db2"

inductive_cases registry_stepE: "registry_step h c db db'"

text \<open>The abstract registry: the token and the switch of every device.\<close>

type_synonym logins = "string \<rightharpoonup> string \<times> bool"

definition logins_of :: "registry_db \<Rightarrow> logins" where
  "logins_of db = map_of (map (\<lambda>r. (dv_id r, (dv_accessToken r, dv_isActive r))) (rb_devices db))"

fun login_effect :: "login_change \<Rightarrow> logins \<Rightarrow> logins" where
  "login_effect (Registered i t) m = m(i \<mapsto> (t, True))"
| "login_effect (Switched i a) m = (case m i of None \<Rightarrow> m | Some (t, _) \<Rightarrow> m(i \<mapsto> (t, a)))"
| "login_effect (Rotated i t) m = (case m i of None \<Rightarrow> m | Some (_, a) \<Rightarrow> m(i \<mapsto> (t, a)))"
| "login_effect (Removed i) m = m(i := None)"

definition drawn :: "(nat \<Rightarrow> string) \<Rightarrow> nat \<Rightarrow> string \<Rightarrow> bool" where
  "drawn f n s \<longleftrightarrow> (\<exists>m<n. s = f m)"

lemma drawn_Suc [simp]: "drawn f (Suc n) s \<longleftrightarrow> s = f n \<or> drawn f n s"
  by (auto simp: drawn_def less_Suc_eq)

text \<open>Identifiers and tokens are unique and come from earlier draws; certificates belong to devices.\<close>

definition registry_ok :: "release_host \<Rightarrow> registry_db \<Rightarrow> bool" where
  "registry_ok h db \<longleftrightarrow> distinct (map dv_id (rb_devices db)) \<and> distinct (map dv_accessToken (rb_devices db))
     \<and> (\<forall>r\<in>set (rb_devices db). drawn (prefixed_id h ''dev'') (rb_draws db) (dv_id r)
          \<and> drawn (rh_random h) (rb_draws db) (dv_accessToken r))
     \<and> distinct (map cf_serialNumber (rb_certs db))
     \<and> (\<forall>c\<in>set (rb_certs db). cf_deviceId c \<in> dv_id ` set (rb_devices db))"

definition tokens :: "registry_db \<Rightarrow> string set" where
  "tokens db = dv_accessToken ` set (rb_devices db)"

end
