(* ===== verification/Release_Ingest.thy ===== *)
theory Release_Ingest
  imports Release_Store
begin

text \<open>
  Ingestion keeps the tables of the release service in order and is idempotent: what it
  creates is found again by its natural key. \<open>db_ok\<close> is the well-formedness of the
  database, \<open>extends\<close> the order in which it grows.
\<close>

section \<open>Well-formed tables\<close>

text \<open>Identifiers are distinct earlier draws, and no two rows share the natural key, which is
  the unique index of the table.\<close>

definition table_ok ::
    "release_host \<Rightarrow> string \<Rightarrow> nat \<Rightarrow> ('r \<Rightarrow> string) \<Rightarrow> ('r \<Rightarrow> 'k) \<Rightarrow> 'r list \<Rightarrow> bool" where
  "table_ok h prefix n id_of key_of rows \<longleftrightarrow>
     distinct (map id_of rows) \<and> distinct (map key_of rows) \<and>
     (\<forall>r \<in> set rows. \<exists>m < n. id_of r = prefixed_id h prefix m)"

lemma prefixed_id_inject:
  "inj (rh_random h) \<Longrightarrow> prefixed_id h p m = prefixed_id h p n \<longleftrightarrow> m = n"
  by (auto simp: prefixed_id_def inj_eq)

lemma table_ok_mono: "table_ok h p n f g rows \<Longrightarrow> n \<le> n' \<Longrightarrow> table_ok h p n' f g rows"
  unfolding table_ok_def using less_le_trans by blast

lemma table_ok_fresh:
  "inj (rh_random h) \<Longrightarrow> table_ok h p n f g rows \<Longrightarrow> r \<in> set rows \<Longrightarrow> f r \<noteq> prefixed_id h p n"
  unfolding table_ok_def using prefixed_id_inject by (metis less_irrefl)

lemma table_ok_append:
  "inj (rh_random h) \<Longrightarrow> table_ok h p n f g rows \<Longrightarrow> f r = prefixed_id h p n \<Longrightarrow> g r \<notin> g ` set rows \<Longrightarrow>
   table_ok h p (Suc n) f g (rows @ [r])"
  using table_ok_fresh[of h p n f g rows] unfolding table_ok_def
  by (auto simp: image_iff less_Suc_eq)

lemma table_ok_map:
  assumes "table_ok h p n f g rows" "\<And>r. f (u r) = f r" "\<And>r. g (u r) = g r"
  shows "table_ok h p n f g (map u rows)"
  using assms by (simp add: table_ok_def comp_def)

definition artifact_key :: "artifact_row \<Rightarrow> string \<times> string option list" where
  "artifact_key a = (ar_storageMode a,
     if ar_storageMode a = ''blob'' then [ar_sha256 a] else [ar_registry a, ar_coordinate a, ar_digest a])"

definition release_key :: "release_row \<Rightarrow> string \<times> string \<times> string" where
  "release_key r = (re_typeKey r, re_name r, re_version r)"

definition variant_key :: "variant_row \<Rightarrow> string \<times> string" where
  "variant_key v = (va_releaseId v, va_selectorHash v)"

definition link_key :: "variant_artifact_row \<Rightarrow> string \<times> string" where
  "link_key l = (vl_variantId l, vl_role l)"

definition head_key :: "channel_head_row \<Rightarrow> string \<times> string \<times> string" where
  "head_key x = (ch_typeKey x, ch_name x, ch_channel x)"

definition artifact_row_ok :: "artifact_row \<Rightarrow> bool" where
  "artifact_row_ok a \<longleftrightarrow> ar_storageMode a = ''ref'' \<or>
     (ar_storageMode a = ''blob'' \<and> (\<exists>sha k. ar_sha256 a = Some sha \<and> join_cas_key sha = Inr k \<and> ar_storageKey a = Some k))"

definition tables_ok :: "release_host \<Rightarrow> releases_db \<Rightarrow> bool" where
  "tables_ok h db \<longleftrightarrow>
     table_ok h ''art'' (rd_draws db) ar_id artifact_key (rd_artifacts db) \<and>
     table_ok h ''rel'' (rd_draws db) re_id release_key (rd_releases db) \<and>
     table_ok h ''var'' (rd_draws db) va_id variant_key (rd_variants db) \<and>
     table_ok h ''vart'' (rd_draws db) vl_id link_key (rd_links db) \<and>
     table_ok h ''head'' (rd_draws db) ch_id head_key (rd_heads db)"

text \<open>Every reference from one table to another has its row.\<close>

definition references_ok :: "releases_db \<Rightarrow> bool" where
  "references_ok db \<longleftrightarrow>
     (\<forall>a \<in> set (rd_artifacts db). artifact_row_ok a) \<and>
     (\<forall>v \<in> set (rd_variants db). va_releaseId v \<in> re_id ` set (rd_releases db)) \<and>
     (\<forall>l \<in> set (rd_links db). vl_variantId l \<in> va_id ` set (rd_variants db) \<and>
        vl_artifactId l \<in> ar_id ` set (rd_artifacts db)) \<and>
     (\<forall>x \<in> set (rd_heads db). ch_releaseId x \<in> re_id ` set (rd_releases db))"

definition db_ok :: "release_host \<Rightarrow> releases_db \<Rightarrow> bool" where
  "db_ok h db \<longleftrightarrow> tables_ok h db \<and> references_ok db"

lemma db_okD:
  assumes "db_ok h db"
  shows "table_ok h ''art'' (rd_draws db) ar_id artifact_key (rd_artifacts db)"
    "table_ok h ''rel'' (rd_draws db) re_id release_key (rd_releases db)"
    "table_ok h ''var'' (rd_draws db) va_id variant_key (rd_variants db)"
    "table_ok h ''vart'' (rd_draws db) vl_id link_key (rd_links db)"
    "table_ok h ''head'' (rd_draws db) ch_id head_key (rd_heads db)"
    "\<forall>a \<in> set (rd_artifacts db). artifact_row_ok a"
    "\<forall>v \<in> set (rd_variants db). va_releaseId v \<in> re_id ` set (rd_releases db)"
    "\<forall>l \<in> set (rd_links db). vl_variantId l \<in> va_id ` set (rd_variants db) \<and>
        vl_artifactId l \<in> ar_id ` set (rd_artifacts db)"
    "\<forall>x \<in> set (rd_heads db). ch_releaseId x \<in> re_id ` set (rd_releases db)"
  using assms by (simp_all add: db_ok_def tables_ok_def references_ok_def)

lemmas table_step = table_ok_append table_ok_mono[OF _ le_SucI[OF order_refl]]

section \<open>Growth\<close>

definition appended :: "'a list \<Rightarrow> 'a list \<Rightarrow> bool" where
  "appended xs ys \<longleftrightarrow> (\<exists>zs. ys = xs @ zs)"

lemma appended_refl [simp]: "appended xs xs"
  by (simp add: appended_def)

lemma appended_snoc [simp]: "appended xs (xs @ ys)"
  by (auto simp: appended_def)

lemma appended_trans: "appended xs ys \<Longrightarrow> appended ys zs \<Longrightarrow> appended xs zs"
  by (auto simp: appended_def)

lemma appended_set: "appended xs ys \<Longrightarrow> set xs \<subseteq> set ys"
  by (auto simp: appended_def)

lemma find_appended: "appended xs ys \<Longrightarrow> find P xs = Some x \<Longrightarrow> find P ys = Some x"
proof -
  have "find P as = Some x \<Longrightarrow> find P (as @ zs) = Some x" for as zs by (induction as) auto
  then show "appended xs ys \<Longrightarrow> find P xs = Some x \<Longrightarrow> find P ys = Some x" by (auto simp: appended_def)
qed

lemma find_snoc: "find P xs = None \<Longrightarrow> P x \<Longrightarrow> find P (xs @ [x]) = Some x"
  by (induction xs) (auto split: if_splits)

text \<open>A release keeps its identity while its status changes.\<close>

definition release_identity :: "release_row \<Rightarrow> string \<times> string \<times> string \<times> string" where
  "release_identity r = (re_id r, release_key r)"

text \<open>So does the head of a channel while it moves.\<close>

definition head_identity :: "channel_head_row \<Rightarrow> string \<times> string \<times> string \<times> string" where
  "head_identity x = (ch_id x, head_key x)"

definition extends :: "releases_db \<Rightarrow> releases_db \<Rightarrow> bool" where
  "extends db db' \<longleftrightarrow>
     appended (rd_artifacts db) (rd_artifacts db') \<and> appended (rd_variants db) (rd_variants db') \<and>
     appended (rd_links db) (rd_links db') \<and> rd_types db' = rd_types db \<and>
     appended (map release_identity (rd_releases db)) (map release_identity (rd_releases db')) \<and>
     appended (map head_identity (rd_heads db)) (map head_identity (rd_heads db')) \<and>
     rd_builds db' = rd_builds db \<and> rd_tokens db' = rd_tokens db \<and> rd_tracks db' = rd_tracks db \<and>
     rd_deviceProfiles db' = rd_deviceProfiles db"

lemma extends_refl [simp]: "extends db db"
  by (simp add: extends_def)

lemma extends_trans [trans]: "extends a b \<Longrightarrow> extends b c \<Longrightarrow> extends a c"
  unfolding extends_def by (auto intro: appended_trans)

lemma draw_id_simps: "draw_id h p db = (prefixed_id h p (rd_draws db), db\<lparr>rd_draws := Suc (rd_draws db)\<rparr>)"
  by (simp add: draw_id_def)

section \<open>Artifacts\<close>

lemma cas_key_Inr: "cas_key sha = Inr k \<longleftrightarrow> join_cas_key sha = Inr k"
  by (auto simp: cas_key_def split: sum.splits)

definition matches_artifact :: "ingest_artifact \<Rightarrow> artifact_row \<Rightarrow> bool" where
  "matches_artifact input a \<longleftrightarrow>
     (case in_body input of Ref_body rf \<Rightarrow> same_ref rf a | Blob_body sha len ct md \<Rightarrow> same_blob sha a)"

text \<open>Either the artifact is there, or a new row for it is appended.\<close>

lemma upsert_artifact_cases:
  assumes "upsert_artifact h ty a db = Inr (i, db')"
  obtains (found) e where "find (matches_artifact a) (rd_artifacts db) = Some e" "i = ar_id e" "db' = db"
  | (created) row where "find (matches_artifact a) (rd_artifacts db) = None" "matches_artifact a row"
      "ar_id row = i" "i = prefixed_id h ''art'' (rd_draws db)" "artifact_row_ok row"
      "db' = db\<lparr>rd_draws := Suc (rd_draws db), rd_artifacts := rd_artifacts db @ [row]\<rparr>"
proof (cases "in_body a")
  case (Ref_body rf)
  then have m: "matches_artifact a = same_ref rf" by (simp add: matches_artifact_def fun_eq_iff)
  show thesis
  proof (cases "find (same_ref rf) (rd_artifacts db)")
    case None
    let ?row = "ref_row (prefixed_id h ''art'' (rd_draws db)) ty rf"
    have "matches_artifact a ?row" "artifact_row_ok ?row"
      by (simp_all add: m same_ref_def artifact_row_ok_def ref_row_def)
    moreover have r: "i = prefixed_id h ''art'' (rd_draws db)"
        "db' = db\<lparr>rd_draws := Suc (rd_draws db), rd_artifacts := rd_artifacts db @ [?row]\<rparr>"
      using assms None Ref_body by (auto simp: upsert_artifact_def draw_id_simps)
    moreover have "ar_id ?row = i" using r(1) by (simp add: ref_row_def)
    ultimately show thesis using created[OF None[folded m]] by blast
  next
    case (Some e)
    show thesis by (rule found[OF Some[folded m]]) (use assms Some Ref_body in \<open>auto simp: upsert_artifact_def\<close>)
  qed
next
  case (Blob_body sha len ct md)
  then have m: "matches_artifact a = same_blob sha" by (simp add: matches_artifact_def fun_eq_iff)
  show thesis
  proof (cases "find (same_blob sha) (rd_artifacts db)")
    case None
    obtain k where k: "join_cas_key sha = Inr k"
      and r: "i = prefixed_id h ''art'' (rd_draws db)"
        "db' = db\<lparr>rd_draws := Suc (rd_draws db), rd_artifacts := rd_artifacts db @
           [blob_row (prefixed_id h ''art'' (rd_draws db)) ty sha len ct md k]\<rparr>"
      using assms None Blob_body by (auto simp: upsert_artifact_def draw_id_simps bind_sum_Inr cas_key_Inr)
    let ?row = "blob_row (prefixed_id h ''art'' (rd_draws db)) ty sha len ct md k"
    have "matches_artifact a ?row" "artifact_row_ok ?row" "ar_id ?row = i"
      using k r by (simp_all add: m same_blob_def artifact_row_ok_def blob_row_def)
    then show thesis using created[OF None[folded m]] r by blast
  next
    case (Some e)
    show thesis by (rule found[OF Some[folded m]]) (use assms Some Blob_body in \<open>auto simp: upsert_artifact_def\<close>)
  qed
qed

lemma find_None_neq: "find P xs = None \<Longrightarrow> x \<in> set xs \<Longrightarrow> \<not> P x"
  by (auto simp: find_None_iff)

lemma matches_artifact_key:
  "matches_artifact a x \<Longrightarrow> artifact_key x = artifact_key y \<Longrightarrow> artifact_row_ok y \<Longrightarrow> matches_artifact a y"
  by (auto simp: matches_artifact_def artifact_key_def same_ref_def same_blob_def artifact_row_ok_def
      split: artifact_body.splits if_splits)

lemma upsert_artifact_extends: "upsert_artifact h ty a db = Inr (i, db') \<Longrightarrow> extends db db'"
  by (erule upsert_artifact_cases) (simp_all add: extends_def)

lemma upsert_artifact_again:
  assumes "upsert_artifact h ty a db = Inr (i, db')" "extends db' db''"
  shows "upsert_artifact h ty' a db'' = Inr (i, db'')"
proof -
  have "\<exists>e. find (matches_artifact a) (rd_artifacts db') = Some e \<and> i = ar_id e"
    using assms(1) by (rule upsert_artifact_cases) (auto simp: find_snoc)
  then obtain e where "find (matches_artifact a) (rd_artifacts db'') = Some e" "i = ar_id e"
    using find_appended assms(2) unfolding extends_def by metis
  then show ?thesis
    by (cases "in_body a") (simp_all add: upsert_artifact_def matches_artifact_def[abs_def])
qed

lemma upsert_artifact_ok:
  assumes inj: "inj (rh_random h)" and ok: "db_ok h db" and up: "upsert_artifact h ty a db = Inr (i, db')"
  shows "db_ok h db' \<and> i \<in> ar_id ` set (rd_artifacts db')"
  using up
proof (cases rule: upsert_artifact_cases)
  case (found e)
  then show ?thesis using ok find_Some_mem[of _ "rd_artifacts db" e] by auto
next
  case (created row)
  note d = db_okD[OF ok]
  have "artifact_key row \<notin> artifact_key ` set (rd_artifacts db)"
  proof
    assume "artifact_key row \<in> artifact_key ` set (rd_artifacts db)"
    then obtain y where y: "y \<in> set (rd_artifacts db)" "artifact_key row = artifact_key y" by auto
    then have "matches_artifact a y" using matches_artifact_key created(2) d(6) by blast
    then show False using find_None_neq[OF created(1) y(1)] by simp
  qed
  then have "table_ok h ''art'' (Suc (rd_draws db)) ar_id artifact_key (rd_artifacts db @ [row])"
    using table_step(1)[OF inj d(1)] created by simp
  moreover have "references_ok db'" using ok created unfolding db_ok_def references_ok_def by auto
  ultimately show ?thesis
    using d(2-5)[THEN table_step(2)] created by (simp add: db_ok_def tables_ok_def)
qed

section \<open>Releases, variants and links\<close>

definition same_release :: "release_descriptor \<Rightarrow> release_row \<Rightarrow> bool" where
  "same_release d r \<longleftrightarrow> re_typeKey r = de_typeKey d \<and> re_name r = de_name d \<and> re_version r = de_version d"

lemma same_release_key: "same_release d r \<longleftrightarrow> release_key r = (de_typeKey d, de_name d, de_version d)"
  by (simp add: same_release_def release_key_def)

lemma upsert_release_cases:
  assumes "upsert_release h now d c db = (i, db')"
  obtains (found) r where "find (same_release d) (rd_releases db) = Some r" "i = re_id r" "db' = db"
  | (created) row where "find (same_release d) (rd_releases db) = None" "same_release d row" "re_id row = i"
      "i = prefixed_id h ''rel'' (rd_draws db)" "re_channel row = de_channel d"
      "db' = db\<lparr>rd_draws := Suc (rd_draws db), rd_releases := rd_releases db @ [row]\<rparr>"
proof -
  have f: "find (\<lambda>r. re_typeKey r = de_typeKey d \<and> re_name r = de_name d \<and> re_version r = de_version d) =
      find (same_release d)" by (simp add: same_release_def[abs_def])
  show thesis
  proof (cases "find (same_release d) (rd_releases db)")
    case None
    let ?row = "new_release (prefixed_id h ''rel'' (rd_draws db)) now d c"
    have "i = prefixed_id h ''rel'' (rd_draws db)"
      "db' = db\<lparr>rd_draws := Suc (rd_draws db), rd_releases := rd_releases db @ [?row]\<rparr>"
      using assms unfolding upsert_release_def f None by (auto simp: draw_id_simps)
    moreover have "same_release d ?row" "re_id ?row = prefixed_id h ''rel'' (rd_draws db)" "re_channel ?row = de_channel d"
      by (simp_all add: new_release_def same_release_def)
    ultimately show thesis using created[OF None] by blast
  next
    case (Some r)
    show thesis by (rule found[OF Some]) (use assms in \<open>simp_all add: upsert_release_def f Some\<close>)
  qed
qed

lemma find_release_identity:
  "map_option re_id (find (same_release d) rs) =
   map_option fst (find (\<lambda>q. snd q = (de_typeKey d, de_name d, de_version d)) (map release_identity rs))"
  by (induction rs) (auto simp: release_identity_def same_release_key)

lemma extends_find_release:
  assumes "extends db db'" "find (same_release d) (rd_releases db) = Some r"
  shows "\<exists>r'. find (same_release d) (rd_releases db') = Some r' \<and> re_id r' = re_id r"
proof -
  let ?P = "\<lambda>q. snd q = (de_typeKey d, de_name d, de_version d)"
  obtain q where q: "find ?P (map release_identity (rd_releases db)) = Some q" "fst q = re_id r"
    using find_release_identity[of d "rd_releases db"] assms(2) by (auto simp: map_option_case split: option.splits)
  have "appended (map release_identity (rd_releases db)) (map release_identity (rd_releases db'))"
    using assms(1) by (simp add: extends_def)
  from find_appended[OF this q(1)] have "find ?P (map release_identity (rd_releases db')) = Some q" .
  then show ?thesis using find_release_identity[of d "rd_releases db'"] q(2) by auto
qed

lemma upsert_release_again:
  assumes "upsert_release h now d c db = (i, db')" "extends db' db''"
  shows "upsert_release h now' d c' db'' = (i, db'')"
proof -
  have "\<exists>r. find (same_release d) (rd_releases db') = Some r \<and> re_id r = i"
    using assms(1) by (rule upsert_release_cases) (auto simp: find_snoc)
  then obtain r where "find (same_release d) (rd_releases db'') = Some r" "re_id r = i"
    using extends_find_release[OF assms(2)] by auto
  then show ?thesis by (simp add: upsert_release_def same_release_def[abs_def])
qed

lemma upsert_release_ok:
  assumes inj: "inj (rh_random h)" and ok: "db_ok h db" and up: "upsert_release h now d c db = (i, db')"
  shows "extends db db' \<and> db_ok h db' \<and> (\<exists>r \<in> set (rd_releases db'). re_id r = i \<and> same_release d r)"
  using up
proof (cases rule: upsert_release_cases)
  case (found r)
  then show ?thesis using ok find_Some_mem[of _ "rd_releases db" r] by auto
next
  case (created row)
  note d = db_okD[OF ok]
  have "release_key row \<notin> release_key ` set (rd_releases db)"
    using find_None_neq[OF created(1)] created(2) unfolding same_release_key by (metis imageE)
  then have "table_ok h ''rel'' (Suc (rd_draws db)) re_id release_key (rd_releases db @ [row])"
    using table_step(1)[OF inj d(2)] created by simp
  moreover have "references_ok db'" using ok created unfolding db_ok_def references_ok_def by auto
  ultimately show ?thesis
    using d(1,3-5)[THEN table_step(2)] created by (auto simp: db_ok_def tables_ok_def extends_def)
qed

lemma upsert_variant_cases:
  assumes "upsert_variant h now rid sel hash iv m b db = (i, db')"
  obtains (found) v where "find (\<lambda>v. va_releaseId v = rid \<and> va_selectorHash v = hash) (rd_variants db) = Some v"
      "i = va_id v" "db' = db"
  | (created) row where "find (\<lambda>v. va_releaseId v = rid \<and> va_selectorHash v = hash) (rd_variants db) = None"
      "va_releaseId row = rid" "va_selectorHash row = hash" "va_id row = i" "va_selector row = sel" "va_status row = ''ready''"
      "i = prefixed_id h ''var'' (rd_draws db)"
      "db' = db\<lparr>rd_draws := Suc (rd_draws db), rd_variants := rd_variants db @ [row]\<rparr>"
proof (cases "find (\<lambda>v. va_releaseId v = rid \<and> va_selectorHash v = hash) (rd_variants db)")
  case None
  let ?row = "new_variant (prefixed_id h ''var'' (rd_draws db)) now rid sel hash iv m b"
  have "i = prefixed_id h ''var'' (rd_draws db)"
    "db' = db\<lparr>rd_draws := Suc (rd_draws db), rd_variants := rd_variants db @ [?row]\<rparr>"
    using assms unfolding upsert_variant_def None by (auto simp: draw_id_simps)
  moreover have "va_releaseId ?row = rid" "va_selectorHash ?row = hash" "va_selector ?row = sel"
    "va_status ?row = ''ready''" "va_id ?row = prefixed_id h ''var'' (rd_draws db)"
    by (simp_all add: new_variant_def)
  ultimately show thesis using created[OF None] by blast
next
  case (Some v)
  show thesis by (rule found[OF Some]) (use assms in \<open>simp_all add: upsert_variant_def Some\<close>)
qed

lemma upsert_variant_again:
  assumes "upsert_variant h now rid sel hash iv m b db = (i, db')" "extends db' db''"
  shows "upsert_variant h now' rid sel hash iv m b' db'' = (i, db'')"
proof -
  have "\<exists>v. find (\<lambda>v. va_releaseId v = rid \<and> va_selectorHash v = hash) (rd_variants db') = Some v \<and> va_id v = i"
    using assms(1) by (rule upsert_variant_cases) (auto simp: find_snoc)
  then obtain v where v: "find (\<lambda>v. va_releaseId v = rid \<and> va_selectorHash v = hash) (rd_variants db') = Some v" "va_id v = i"
    by blast
  have "appended (rd_variants db') (rd_variants db'')" using assms(2) by (simp add: extends_def)
  from find_appended[OF this v(1)] v(2) show ?thesis by (simp add: upsert_variant_def)
qed

lemma upsert_variant_ok:
  assumes inj: "inj (rh_random h)" and ok: "db_ok h db" and rel: "rid \<in> re_id ` set (rd_releases db)"
    and up: "upsert_variant h now rid sel hash iv m b db = (i, db')"
  shows "extends db db' \<and> db_ok h db' \<and>
    (\<exists>v \<in> set (rd_variants db'). va_id v = i \<and> va_releaseId v = rid \<and> va_selectorHash v = hash) \<and>
    rd_releases db' = rd_releases db \<and> rd_artifacts db' = rd_artifacts db"
  using up
proof (cases rule: upsert_variant_cases)
  case (found v)
  then show ?thesis using ok find_Some_mem[of _ "rd_variants db" v] by auto
next
  case (created row)
  note d = db_okD[OF ok]
  have "variant_key row \<notin> variant_key ` set (rd_variants db)"
    using find_None_neq[OF created(1)] created(2,3) by (force simp: variant_key_def)
  then have "table_ok h ''var'' (Suc (rd_draws db)) va_id variant_key (rd_variants db @ [row])"
    using table_step(1)[OF inj d(3)] created by simp
  moreover have "references_ok db'" using ok rel created unfolding db_ok_def references_ok_def by auto
  ultimately show ?thesis
    using d(1,2,4,5)[THEN table_step(2)] created by (auto simp: db_ok_def tables_ok_def extends_def)
qed

lemma upsert_link_cases:
  obtains (found) l where "find (\<lambda>l. vl_variantId l = vid \<and> vl_role l = in_role a) (rd_links db) = Some l"
      "upsert_variant_artifact h vid a i db = db"
  | (created) row where "find (\<lambda>l. vl_variantId l = vid \<and> vl_role l = in_role a) (rd_links db) = None"
      "vl_variantId row = vid" "vl_role row = in_role a" "vl_artifactId row = i"
      "vl_id row = prefixed_id h ''vart'' (rd_draws db)"
      "upsert_variant_artifact h vid a i db = db\<lparr>rd_draws := Suc (rd_draws db), rd_links := rd_links db @ [row]\<rparr>"
proof (cases "find (\<lambda>l. vl_variantId l = vid \<and> vl_role l = in_role a) (rd_links db)")
  case None
  show thesis
    by (rule created[OF None, of "\<lparr>vl_id = prefixed_id h ''vart'' (rd_draws db), vl_variantId = vid,
        vl_artifactId = i, vl_role = in_role a, vl_offset = in_offset a, vl_path = in_path a\<rparr>"])
      (simp_all add: upsert_variant_artifact_def None draw_id_simps)
next
  case (Some l)
  show thesis by (rule found[OF Some]) (simp add: upsert_variant_artifact_def Some)
qed

lemma upsert_link_again:
  assumes "extends (upsert_variant_artifact h vid a i db) db''"
  shows "upsert_variant_artifact h vid a i' db'' = db''"
proof -
  have "\<exists>l. find (\<lambda>l. vl_variantId l = vid \<and> vl_role l = in_role a) (rd_links (upsert_variant_artifact h vid a i db)) = Some l"
    by (rule upsert_link_cases[of vid a db h i]) (auto simp: find_snoc)
  then obtain l where "find (\<lambda>l. vl_variantId l = vid \<and> vl_role l = in_role a) (rd_links db'') = Some l"
    using find_appended assms unfolding extends_def by metis
  then show ?thesis by (simp add: upsert_variant_artifact_def)
qed

lemma upsert_link_ok:
  assumes inj: "inj (rh_random h)" and ok: "db_ok h db"
    and refs: "vid \<in> va_id ` set (rd_variants db)" "i \<in> ar_id ` set (rd_artifacts db)"
  shows "extends db (upsert_variant_artifact h vid a i db) \<and> db_ok h (upsert_variant_artifact h vid a i db) \<and>
    rd_releases (upsert_variant_artifact h vid a i db) = rd_releases db \<and>
    rd_variants (upsert_variant_artifact h vid a i db) = rd_variants db \<and>
    rd_artifacts (upsert_variant_artifact h vid a i db) = rd_artifacts db"
proof (cases rule: upsert_link_cases[of vid a db h i])
  case (created row)
  note d = db_okD[OF ok]
  have "link_key row \<notin> link_key ` set (rd_links db)"
    using find_None_neq[OF created(1)] created(2,3) by (force simp: link_key_def)
  then have "table_ok h ''vart'' (Suc (rd_draws db)) vl_id link_key (rd_links db @ [row])"
    using table_step(1)[OF inj d(4)] created by simp
  moreover have "references_ok (upsert_variant_artifact h vid a i db)"
    using ok refs created unfolding db_ok_def references_ok_def by auto
  ultimately show ?thesis
    using d(1-3,5)[THEN table_step(2)] created by (auto simp: db_ok_def tables_ok_def extends_def)
qed (use ok in simp)

section \<open>The loops of ingestion\<close>

lemma extends_ids:
  assumes "extends db db'"
  shows "ar_id ` set (rd_artifacts db) \<subseteq> ar_id ` set (rd_artifacts db')"
    "set (rd_variants db) \<subseteq> set (rd_variants db')"
    "set (rd_links db) \<subseteq> set (rd_links db')"
    "release_identity ` set (rd_releases db) \<subseteq> release_identity ` set (rd_releases db')"
    "re_id ` set (rd_releases db) \<subseteq> re_id ` set (rd_releases db')"
proof -
  note e = assms[unfolded extends_def]
  show "set (rd_variants db) \<subseteq> set (rd_variants db')" "set (rd_links db) \<subseteq> set (rd_links db')"
    "ar_id ` set (rd_artifacts db) \<subseteq> ar_id ` set (rd_artifacts db')"
    using e appended_set by blast+
  show r: "release_identity ` set (rd_releases db) \<subseteq> release_identity ` set (rd_releases db')"
    using e appended_set by (metis set_map)
  have "re_id ` A = fst ` release_identity ` A" for A by (simp add: image_image release_identity_def)
  with r show "re_id ` set (rd_releases db) \<subseteq> re_id ` set (rd_releases db')"
    by (simp only: image_mono)
qed

lemma ingest_artifacts_Cons:
  "ingest_artifacts h ty (a # as) db = Inr (links, aas, db') \<longleftrightarrow>
   (\<exists>i db1 aa links1 aas1. upsert_artifact h ty a db = Inr (i, db1) \<and> to_adapter_artifact a = Inr aa \<and>
     ingest_artifacts h ty as db1 = Inr (links1, aas1, db') \<and> links = (a, i) # links1 \<and> aas = aa # aas1)"
  by (auto simp: bind_sum_Inr)

lemma ingest_artifacts_ok:
  assumes inj: "inj (rh_random h)"
  shows "db_ok h db \<Longrightarrow> ingest_artifacts h ty as db = Inr (links, aas, db') \<Longrightarrow>
    extends db db' \<and> db_ok h db' \<and> map fst links = as \<and> snd ` set links \<subseteq> ar_id ` set (rd_artifacts db')"
proof (induction as arbitrary: db links aas)
  case (Cons a as)
  then obtain i db1 aa links1 aas1 where up: "upsert_artifact h ty a db = Inr (i, db1)"
    and rest: "ingest_artifacts h ty as db1 = Inr (links1, aas1, db')" and links: "links = (a, i) # links1"
    unfolding ingest_artifacts_Cons by blast
  note one = upsert_artifact_ok[OF inj Cons.prems(1) up]
  then have ih: "extends db1 db' \<and> db_ok h db' \<and> map fst links1 = as \<and> snd ` set links1 \<subseteq> ar_id ` set (rd_artifacts db')"
    using Cons.IH[OF _ rest] by blast
  then show ?case using one upsert_artifact_extends[OF up] extends_trans links extends_ids(1)[of db1 db'] by auto
qed simp

lemma ingest_artifacts_extends:
  "ingest_artifacts h ty as db = Inr (links, aas, db') \<Longrightarrow> extends db db'"
proof (induction as arbitrary: db links aas)
  case (Cons a as)
  then show ?case unfolding ingest_artifacts_Cons using upsert_artifact_extends extends_trans by blast
qed simp

lemma ingest_artifacts_again:
  "ingest_artifacts h ty as db = Inr (links, aas, db') \<Longrightarrow> extends db' db'' \<Longrightarrow>
   ingest_artifacts h ty as db'' = Inr (links, aas, db'')"
proof (induction as arbitrary: db links aas)
  case (Cons a as)
  then obtain i db1 aa links1 aas1 where up: "upsert_artifact h ty a db = Inr (i, db1)"
    and aa: "to_adapter_artifact a = Inr aa" and rest: "ingest_artifacts h ty as db1 = Inr (links1, aas1, db')"
    and eq: "links = (a, i) # links1" "aas = aa # aas1"
    unfolding ingest_artifacts_Cons by blast
  have "extends db1 db''" using ingest_artifacts_extends[OF rest] Cons.prems(2) by (rule extends_trans)
  then have "upsert_artifact h ty a db'' = Inr (i, db'')" by (rule upsert_artifact_again[OF up])
  with Cons.IH[OF rest Cons.prems(2)] aa eq show ?case by simp
qed simp

lemma link_artifacts_simps:
  "link_artifacts h vid [] db = db"
  "link_artifacts h vid (x # xs) db = link_artifacts h vid xs (upsert_variant_artifact h vid (fst x) (snd x) db)"
  by (auto simp: link_artifacts_def split: prod.splits)

lemma upsert_link_found:
  "\<exists>l \<in> set (rd_links (upsert_variant_artifact h vid a i db)). vl_variantId l = vid \<and> vl_role l = in_role a"
  by (rule upsert_link_cases[of vid a db h i]) (auto dest!: find_Some_mem)

lemma bex_subset: "A \<subseteq> B \<Longrightarrow> \<exists>x \<in> A. P x \<Longrightarrow> \<exists>x \<in> B. P x"
  by blast

lemma link_artifacts_ok:
  assumes inj: "inj (rh_random h)"
  shows "db_ok h db \<Longrightarrow> vid \<in> va_id ` set (rd_variants db) \<Longrightarrow> snd ` set links \<subseteq> ar_id ` set (rd_artifacts db) \<Longrightarrow>
    extends db (link_artifacts h vid links db) \<and> db_ok h (link_artifacts h vid links db) \<and>
    rd_variants (link_artifacts h vid links db) = rd_variants db \<and>
    (\<forall>a \<in> fst ` set links. \<exists>l \<in> set (rd_links (link_artifacts h vid links db)). vl_variantId l = vid \<and> vl_role l = in_role a)"
proof (induction links arbitrary: db)
  case (Cons x xs)
  let ?db1 = "upsert_variant_artifact h vid (fst x) (snd x) db"
  have one: "extends db ?db1 \<and> db_ok h ?db1 \<and> rd_releases ?db1 = rd_releases db \<and>
      rd_variants ?db1 = rd_variants db \<and> rd_artifacts ?db1 = rd_artifacts db"
    using upsert_link_ok[OF inj Cons.prems(1,2)] Cons.prems(3) by simp
  then have rest: "extends ?db1 (link_artifacts h vid xs ?db1) \<and> db_ok h (link_artifacts h vid xs ?db1) \<and>
      rd_variants (link_artifacts h vid xs ?db1) = rd_variants ?db1 \<and>
      (\<forall>a \<in> fst ` set xs. \<exists>l \<in> set (rd_links (link_artifacts h vid xs ?db1)). vl_variantId l = vid \<and> vl_role l = in_role a)"
    using Cons.IH[of ?db1] Cons.prems by simp
  have "set (rd_links ?db1) \<subseteq> set (rd_links (link_artifacts h vid xs ?db1))" using extends_ids(3) rest by blast
  from bex_subset[OF this upsert_link_found]
  have "\<exists>l \<in> set (rd_links (link_artifacts h vid xs ?db1)). vl_variantId l = vid \<and> vl_role l = in_role (fst x)" .
  with one rest show ?case unfolding link_artifacts_simps using extends_trans by auto
qed (simp add: link_artifacts_simps)

lemma link_artifacts_extends:
  "extends db (link_artifacts h vid links db)"
proof (induction links arbitrary: db)
  case (Cons x xs)
  have "extends db (upsert_variant_artifact h vid (fst x) (snd x) db)"
    by (rule upsert_link_cases[of vid "fst x" db h "snd x"]) (simp_all add: extends_def)
  then show ?case unfolding link_artifacts_simps using Cons.IH extends_trans by blast
qed (simp add: link_artifacts_simps)

lemma link_artifacts_again:
  "extends (link_artifacts h vid links db) db'' \<Longrightarrow> link_artifacts h vid links db'' = db''"
proof (induction links arbitrary: db)
  case (Cons x xs)
  let ?db1 = "upsert_variant_artifact h vid (fst x) (snd x) db"
  have "extends ?db1 db''" using Cons.prems link_artifacts_extends extends_trans unfolding link_artifacts_simps by blast
  then have "upsert_variant_artifact h vid (fst x) (snd x) db'' = db''" by (rule upsert_link_again)
  with Cons.IH[of ?db1] Cons.prems show ?case unfolding link_artifacts_simps by simp
qed (simp add: link_artifacts_simps)

text \<open>What one variant of the descriptor leaves in the database.\<close>

definition variant_hash :: "release_host \<Rightarrow> adapter \<Rightarrow> ingest_variant \<Rightarrow> string" where
  "variant_hash h a iv = (case ad_canonicalize a (iv_selector iv) of Inl _ \<Rightarrow> [] | Inr selector \<Rightarrow> selector_hash_of h selector)"

definition variant_stored :: "release_host \<Rightarrow> adapter \<Rightarrow> releases_db \<Rightarrow> string \<Rightarrow> ingest_variant \<Rightarrow> string \<Rightarrow> bool" where
  "variant_stored h a db releaseId iv vid \<longleftrightarrow>
     (\<exists>v \<in> set (rd_variants db). va_id v = vid \<and> va_releaseId v = releaseId \<and> va_selectorHash v = variant_hash h a iv) \<and>
     (\<forall>x \<in> set (iv_artifacts iv). \<exists>l \<in> set (rd_links db). vl_variantId l = vid \<and> vl_role l = in_role x)"

lemma variant_stored_extends: "variant_stored h a db r iv v \<Longrightarrow> extends db db' \<Longrightarrow> variant_stored h a db' r iv v"
  using extends_ids(2,3) unfolding variant_stored_def by blast

lemma ingest_variant_of_Inr:
  "ingest_variant_of h now a d c rid iv db = Inr (vid, db') \<longleftrightarrow>
   (\<exists>sel links aas db1 m db2. ad_canonicalize a (iv_selector iv) = Inr sel \<and>
     ingest_artifacts h (de_typeKey d) (iv_artifacts iv) db = Inr (links, aas, db1) \<and>
     ad_manifest a (manifest_args_of d sel aas) = Inr m \<and>
     upsert_variant h now rid sel (selector_hash_of h sel) iv m (ic_buildId c) db1 = (vid, db2) \<and>
     db' = link_artifacts h vid links db2)"
  unfolding ingest_variant_of_def bind_sum_Inr split_paired_Ex prod.case let_pair_Inr by blast

lemma upsert_variant_extends:
  "upsert_variant h now rid sel hash iv m b db = (i, db') \<Longrightarrow> extends db db'"
  by (erule upsert_variant_cases) (simp_all add: extends_def)

lemma ingest_variant_of_ok:
  assumes inj: "inj (rh_random h)" and ok: "db_ok h db" and rel: "rid \<in> re_id ` set (rd_releases db)"
    and run: "ingest_variant_of h now a d c rid iv db = Inr (vid, db')"
  shows "extends db db' \<and> db_ok h db' \<and> variant_stored h a db' rid iv vid"
proof -
  obtain sel links aas db1 m db2
    where canon: "ad_canonicalize a (iv_selector iv) = Inr sel"
      and arts: "ingest_artifacts h (de_typeKey d) (iv_artifacts iv) db = Inr (links, aas, db1)"
      and var: "upsert_variant h now rid sel (selector_hash_of h sel) iv m (ic_buildId c) db1 = (vid, db2)"
      and db': "db' = link_artifacts h vid links db2"
    using run unfolding ingest_variant_of_Inr by blast
  have hash: "variant_hash h a iv = selector_hash_of h sel" by (simp add: variant_hash_def canon)
  note a1 = ingest_artifacts_ok[OF inj ok arts]
  have "rid \<in> re_id ` set (rd_releases db1)" using extends_ids(5) a1 rel by blast
  note v1 = upsert_variant_ok[OF inj _ this var]
  have v2: "extends db1 db2" "db_ok h db2" "rd_artifacts db2 = rd_artifacts db1"
      "\<exists>v \<in> set (rd_variants db2). va_id v = vid \<and> va_releaseId v = rid \<and> va_selectorHash v = variant_hash h a iv"
    using v1 a1 unfolding hash by blast+
  then have "vid \<in> va_id ` set (rd_variants db2)" by blast
  note l1 = link_artifacts_ok[OF inj v2(2) this, of links]
  have ids: "snd ` set links \<subseteq> ar_id ` set (rd_artifacts db2)" using a1 v2(3) by simp
  have "set (iv_artifacts iv) = fst ` set links" using a1 by (metis set_map)
  then have stored: "variant_stored h a db' rid iv vid" using l1[OF ids] v2(4) unfolding variant_stored_def db' by simp
  have "extends db db2" using a1 v2(1) extends_trans by blast
  then have "extends db db'" using l1[OF ids] extends_trans unfolding db' by blast
  then show ?thesis using l1[OF ids] stored unfolding db' by (intro conjI) simp_all
qed

lemma ingest_variant_of_extends:
  "ingest_variant_of h now a d c rid iv db = Inr (vid, db') \<Longrightarrow> extends db db'"
  unfolding ingest_variant_of_Inr
  using ingest_artifacts_extends upsert_variant_extends link_artifacts_extends extends_trans by meson

lemma ingest_variant_of_again:
  assumes run: "ingest_variant_of h now a d c rid iv db = Inr (vid, db')" and ext: "extends db' db''"
  shows "ingest_variant_of h now' a d c' rid iv db'' = Inr (vid, db'')"
proof -
  obtain sel links aas db1 m db2 where sel: "ad_canonicalize a (iv_selector iv) = Inr sel"
      and arts: "ingest_artifacts h (de_typeKey d) (iv_artifacts iv) db = Inr (links, aas, db1)"
      and m: "ad_manifest a (manifest_args_of d sel aas) = Inr m"
      and var: "upsert_variant h now rid sel (selector_hash_of h sel) iv m (ic_buildId c) db1 = (vid, db2)"
      and db': "db' = link_artifacts h vid links db2"
    using run unfolding ingest_variant_of_Inr by blast
  have e2: "extends db2 db''" using link_artifacts_extends ext extends_trans unfolding db' by blast
  have e1: "extends db1 db''" using upsert_variant_extends[OF var] e2 by (rule extends_trans)
  show ?thesis
    unfolding ingest_variant_of_Inr
    using sel ingest_artifacts_again[OF arts e1] m upsert_variant_again[OF var e2]
      link_artifacts_again[OF ext[unfolded db']] by metis
qed

lemma ingest_variants_Cons:
  "ingest_variants h now a d c rid (iv # ivs) db = Inr (vids, db') \<longleftrightarrow>
   (\<exists>vid db1 vids1. ingest_variant_of h now a d c rid iv db = Inr (vid, db1) \<and>
     ingest_variants h now a d c rid ivs db1 = Inr (vids1, db') \<and> vids = vid # vids1)"
  by (auto simp: bind_sum_Inr)

lemma ingest_variants_extends:
  "ingest_variants h now a d c rid ivs db = Inr (vids, db') \<Longrightarrow> extends db db'"
proof (induction ivs arbitrary: db vids)
  case (Cons iv ivs)
  then show ?case unfolding ingest_variants_Cons using ingest_variant_of_extends extends_trans by blast
qed simp

lemma ingest_variants_ok:
  assumes inj: "inj (rh_random h)"
  shows "db_ok h db \<Longrightarrow> rid \<in> re_id ` set (rd_releases db) \<Longrightarrow>
    ingest_variants h now a d c rid ivs db = Inr (vids, db') \<Longrightarrow>
    extends db db' \<and> db_ok h db' \<and> list_all2 (variant_stored h a db' rid) ivs vids"
proof (induction ivs arbitrary: db vids)
  case (Cons iv ivs)
  then obtain vid db1 vids1 where one: "ingest_variant_of h now a d c rid iv db = Inr (vid, db1)"
    and rest: "ingest_variants h now a d c rid ivs db1 = Inr (vids1, db')" and vids: "vids = vid # vids1"
    unfolding ingest_variants_Cons by blast
  note o = ingest_variant_of_ok[OF inj Cons.prems(1,2) one]
  have "rid \<in> re_id ` set (rd_releases db1)" using extends_ids(5) o Cons.prems(2) by blast
  note r = Cons.IH[OF _ this rest]
  show ?case using o r variant_stored_extends extends_trans unfolding vids by auto
qed simp

text \<open>Storing variants leaves releases and channel heads alone.\<close>

lemma ingest_artifacts_frame:
  "ingest_artifacts h ty as db = Inr (links, aas, db') \<Longrightarrow> rd_releases db' = rd_releases db \<and> rd_heads db' = rd_heads db"
proof (induction as arbitrary: db links aas)
  case (Cons x xs)
  then obtain i db1 links1 aas1 where up: "upsert_artifact h ty x db = Inr (i, db1)"
    and rest: "ingest_artifacts h ty xs db1 = Inr (links1, aas1, db')"
    unfolding ingest_artifacts_Cons by blast
  have "rd_releases db1 = rd_releases db \<and> rd_heads db1 = rd_heads db" using up by (rule upsert_artifact_cases) simp_all
  with Cons.IH[OF rest] show ?case by simp
qed simp

lemma link_artifacts_frame:
  "rd_releases (link_artifacts h vid links db) = rd_releases db \<and> rd_heads (link_artifacts h vid links db) = rd_heads db"
proof (induction links arbitrary: db)
  case (Cons x xs)
  have "rd_releases (upsert_variant_artifact h vid (fst x) (snd x) db) = rd_releases db \<and>
      rd_heads (upsert_variant_artifact h vid (fst x) (snd x) db) = rd_heads db"
    by (rule upsert_link_cases[of vid "fst x" db h "snd x"]) simp_all
  with Cons.IH show ?case unfolding link_artifacts_simps by simp
qed (simp add: link_artifacts_simps)

lemma ingest_variant_of_frame:
  assumes "ingest_variant_of h now a d c rid iv db = Inr (vid, db')"
  shows "rd_releases db' = rd_releases db \<and> rd_heads db' = rd_heads db"
proof -
  obtain sel links aas db1 m db2
    where arts: "ingest_artifacts h (de_typeKey d) (iv_artifacts iv) db = Inr (links, aas, db1)"
      and var: "upsert_variant h now rid sel (selector_hash_of h sel) iv m (ic_buildId c) db1 = (vid, db2)"
      and db': "db' = link_artifacts h vid links db2"
    using assms unfolding ingest_variant_of_Inr by blast
  have "rd_releases db2 = rd_releases db1 \<and> rd_heads db2 = rd_heads db1" using var by (rule upsert_variant_cases) simp_all
  with ingest_artifacts_frame[OF arts] link_artifacts_frame[of h vid links db2] show ?thesis by (simp add: db')
qed

lemma ingest_variants_frame:
  "ingest_variants h now a d c rid ivs db = Inr (vids, db') \<Longrightarrow> rd_releases db' = rd_releases db \<and> rd_heads db' = rd_heads db"
proof (induction ivs arbitrary: db vids)
  case (Cons iv ivs)
  then obtain vid db1 vids1 where "ingest_variant_of h now a d c rid iv db = Inr (vid, db1)"
    and "ingest_variants h now a d c rid ivs db1 = Inr (vids1, db')"
    unfolding ingest_variants_Cons by blast
  with Cons.IH ingest_variant_of_frame show ?case by metis
qed simp

lemma ingest_variants_again:
  "ingest_variants h now a d c rid ivs db = Inr (vids, db') \<Longrightarrow> extends db' db'' \<Longrightarrow>
   ingest_variants h now' a d c' rid ivs db'' = Inr (vids, db'')"
proof (induction ivs arbitrary: db vids)
  case (Cons iv ivs)
  then obtain vid db1 vids1 where one: "ingest_variant_of h now a d c rid iv db = Inr (vid, db1)"
    and rest: "ingest_variants h now a d c rid ivs db1 = Inr (vids1, db')" and vids: "vids = vid # vids1"
    unfolding ingest_variants_Cons by blast
  have "extends db1 db''" using ingest_variants_extends[OF rest] Cons.prems(2) by (rule extends_trans)
  then have "ingest_variant_of h now' a d c' rid iv db'' = Inr (vid, db'')" by (rule ingest_variant_of_again[OF one])
  with Cons.IH[OF rest Cons.prems(2)] vids show ?case unfolding ingest_variants_Cons by blast
qed simp

end
