(* ===== verification/Registry_Laws.thy ===== *)
theory Registry_Laws
  imports Device_Registry Release_Ingest
begin

text \<open>
  The registry of devices refines a map from device to access token and switch: every run of
  administrator's operations has the effect of its changes on that map, keeps the tables in
  order, and never brings back a token that was replaced.
\<close>

section \<open>What the operations return\<close>

lemma admin_procedure_Inr: "admin_procedure user roles f = Inr x \<longleftrightarrow> (\<exists>u. user = Some u \<and> or_else (au_role u) [] \<in> set roles \<and> f u = Inr x)"
  by (auto simp: admin_procedure_def split: option.split)

lemma device_create_Inr:
  assumes "device_create h now user roles name description db = Inr (r, db')"
  shows "rr_id r = prefixed_id h ''dev'' (rb_draws db)" "rr_accessToken r = rh_random h (Suc (rb_draws db))"
    "\<exists>row. rb_devices db' = rb_devices db @ [row] \<and> dv_id row = rr_id r \<and> dv_accessToken row = rr_accessToken r \<and> dv_isActive row"
    "\<forall>d\<in>set (rb_devices db). dv_id d \<noteq> rr_id r \<and> dv_accessToken d \<noteq> rr_accessToken r"
    "rb_draws db' = Suc (Suc (rb_draws db))" "rb_certs db' = rb_certs db" "rb_events db' = rb_events db"
  using assms
  by (auto simp: device_create_def admin_procedure_Inr bind_sum_Inr insert_device_def new_token_def new_device_def Let_def
      split: if_splits)

lemma device_rotate_Inr:
  assumes "device_rotate_token h now user roles i db = Inr (token, db')"
  shows "token = rh_random h (rb_draws db)" "i \<in> dv_id ` set (rb_devices db)"
    "rb_devices db' = map (\<lambda>r. if dv_id r = i then r\<lparr>dv_accessToken := token, rg_updatedAt := now\<rparr> else r) (rb_devices db)"
    "\<forall>d\<in>set (rb_devices db). dv_id d \<noteq> i \<longrightarrow> dv_accessToken d \<noteq> token"
    "rb_draws db' = Suc (rb_draws db)" "rb_certs db' = rb_certs db" "rb_events db' = rb_events db"
  using assms
  by (auto simp: device_rotate_token_def admin_procedure_Inr new_token_def update_device_def Let_def split: if_splits)

lemma device_set_active_Inr:
  assumes "device_set_active now user roles i isActive db = Inr db'"
  shows "rb_devices db' = map (\<lambda>r. if dv_id r = i then r\<lparr>dv_isActive := isActive, rg_updatedAt := now\<rparr> else r) (rb_devices db)"
    "rb_draws db' = rb_draws db" "rb_certs db' = rb_certs db" "rb_events db' = rb_events db"
  using assms by (auto simp: device_set_active_def admin_procedure_Inr update_device_def)

lemma device_delete_Inr:
  assumes "device_delete user roles i db = Inr db'"
  shows "rb_devices db' = filter (\<lambda>r. dv_id r \<noteq> i) (rb_devices db)"
    "rb_certs db' = filter (\<lambda>c. cf_deviceId c \<noteq> i) (rb_certs db)"
    "rb_events db' = filter (\<lambda>e. de_deviceId e \<noteq> i) (rb_events db)" "rb_draws db' = rb_draws db"
  using assms by (auto simp: device_delete_def admin_procedure_Inr Let_def)

section \<open>Well-formed tables\<close>

lemma registry_okD:
  assumes "registry_ok h db"
  shows "distinct (map dv_id (rb_devices db))" "distinct (map dv_accessToken (rb_devices db))"
    "\<And>r. r \<in> set (rb_devices db) \<Longrightarrow> drawn (prefixed_id h ''dev'') (rb_draws db) (dv_id r)"
    "\<And>r. r \<in> set (rb_devices db) \<Longrightarrow> drawn (rh_random h) (rb_draws db) (dv_accessToken r)"
    "distinct (map cf_serialNumber (rb_certs db))"
    "\<And>c. c \<in> set (rb_certs db) \<Longrightarrow> cf_deviceId c \<in> dv_id ` set (rb_devices db)"
  using assms by (auto simp: registry_ok_def)

lemma registry_ok_alt:
  "registry_ok h db \<longleftrightarrow> distinct (map dv_id (rb_devices db)) \<and> distinct (map dv_accessToken (rb_devices db))
     \<and> (\<forall>i\<in>set (map dv_id (rb_devices db)). drawn (prefixed_id h ''dev'') (rb_draws db) i)
     \<and> (\<forall>t\<in>set (map dv_accessToken (rb_devices db)). drawn (rh_random h) (rb_draws db) t)
     \<and> distinct (map cf_serialNumber (rb_certs db))
     \<and> (\<forall>c\<in>set (rb_certs db). cf_deviceId c \<in> set (map dv_id (rb_devices db)))"
  by (auto simp: registry_ok_def)

lemma registry_step_ok:
  assumes "registry_step h c db db'" "registry_ok h db"
  shows "registry_ok h db'"
  using assms
proof (induction rule: registry_step.induct)
  case (create now user roles name description db r db')
  note new = device_create_Inr[OF create.hyps] and ok = registry_okD[OF create.prems]
  from new(3) obtain row where row: "rb_devices db' = rb_devices db @ [row]" "dv_id row = rr_id r"
    "dv_accessToken row = rr_accessToken r" by blast
  show ?case
    unfolding registry_ok_def using row new ok by (auto simp: image_iff)
next
  case (set_active now user roles i isActive db db')
  note new = device_set_active_Inr[OF set_active.hyps] and ok = registry_okD[OF set_active.prems]
  have ids: "map dv_id (rb_devices db') = map dv_id (rb_devices db)"
    and toks: "map dv_accessToken (rb_devices db') = map dv_accessToken (rb_devices db)" using new(1) by simp_all
  show ?case
    using set_active.prems unfolding registry_ok_alt ids toks new(2,3) by blast
next
  case (rotate now user roles i db token db')
  note new = device_rotate_Inr[OF rotate.hyps] and ok = registry_okD[OF rotate.prems]
  have ids: "map dv_id (rb_devices db') = map dv_id (rb_devices db)" using new(3) by simp
  have "distinct (map (\<lambda>r. dv_accessToken (if dv_id r = i then r\<lparr>dv_accessToken := token, rg_updatedAt := now\<rparr> else r)) rs)"
    if "distinct (map dv_id rs)" "distinct (map dv_accessToken rs)"
       "\<forall>d\<in>set rs. dv_id d \<noteq> i \<longrightarrow> dv_accessToken d \<noteq> token" for rs :: "registry_row list"
    using that by (induction rs) (auto simp: image_iff split: if_splits)
  with ok(1,2) new(4) have toks: "distinct (map dv_accessToken (rb_devices db'))" by (simp add: new(3) comp_def)
  have sub: "set (map dv_accessToken (rb_devices db')) \<subseteq> insert token (set (map dv_accessToken (rb_devices db)))"
    by (auto simp: new(3) split: if_splits)
  show ?case
    using rotate.prems toks sub new(1) unfolding registry_ok_alt ids new(5,6) by auto
next
  case (delete user roles i db db')
  note new = device_delete_Inr[OF delete.hyps] and ok = registry_okD[OF delete.prems]
  show ?case
    unfolding registry_ok_def using new ok by (auto simp: distinct_map_filter image_iff) blast
qed

lemma registry_run_ok: "registry_run h cs db db' \<Longrightarrow> registry_ok h db \<Longrightarrow> registry_ok h db'"
  by (induction rule: registry_run.induct) (auto dest: registry_step_ok)

section \<open>Refinement\<close>

lemma logins_of_update:
  assumes "\<And>r. dv_id (f r) = dv_id r"
  shows "map_of (map (\<lambda>r. (dv_id r, (dv_accessToken r, dv_isActive r))) (map (\<lambda>r. if dv_id r = i then f r else r) rows)) =
    (case find (\<lambda>r. dv_id r = i) rows of
       None \<Rightarrow> map_of (map (\<lambda>r. (dv_id r, (dv_accessToken r, dv_isActive r))) rows)
     | Some r \<Rightarrow> (map_of (map (\<lambda>r. (dv_id r, (dv_accessToken r, dv_isActive r))) rows))
         (i \<mapsto> (dv_accessToken (f r), dv_isActive (f r))))"
  using assms by (induction rows) (auto split: option.split)

lemma logins_of_find:
  "logins_of db i = map_option (\<lambda>r. (dv_accessToken r, dv_isActive r)) (find (\<lambda>r. dv_id r = i) (rb_devices db))"
proof -
  have "map_of (map (\<lambda>r. (dv_id r, (dv_accessToken r, dv_isActive r))) rows) i
      = map_option (\<lambda>r. (dv_accessToken r, dv_isActive r)) (find (\<lambda>r. dv_id r = i) rows)" for rows :: "registry_row list"
    by (induction rows) auto
  then show ?thesis by (simp add: logins_of_def)
qed

lemma logins_of_filter:
  "map_of (map (\<lambda>r. (dv_id r, (dv_accessToken r, dv_isActive r))) (filter (\<lambda>r. dv_id r \<noteq> i) rows)) =
     (map_of (map (\<lambda>r. (dv_id r, (dv_accessToken r, dv_isActive r))) rows))(i := None)"
  by (induction rows) auto

lemma logins_of_step:
  assumes "registry_step h c db db'"
  shows "logins_of db' = login_effect c (logins_of db)"
  using assms
proof (induction rule: registry_step.induct)
  case (create now user roles name description db r db')
  note new = device_create_Inr[OF create.hyps]
  from new(3) obtain row where row: "rb_devices db' = rb_devices db @ [row]" "dv_id row = rr_id r"
    "dv_accessToken row = rr_accessToken r" "dv_isActive row" by blast
  have "map_of (map (\<lambda>r. (dv_id r, (dv_accessToken r, dv_isActive r))) (rb_devices db)) (rr_id r) = None"
    using new(4) by (auto simp: map_of_eq_None_iff)
  then show ?case
    by (auto simp: logins_of_def row map_add_def fun_eq_iff split: option.split)
next
  case (set_active now user roles i isActive db db')
  show ?case
    using logins_of_find[of db i] device_set_active_Inr(1)[OF set_active.hyps]
    by (simp add: logins_of_def logins_of_update fun_eq_iff del: map_map split: option.split)
next
  case (rotate now user roles i db token db')
  show ?case
    using logins_of_find[of db i] device_rotate_Inr(3)[OF rotate.hyps]
    by (simp add: logins_of_def logins_of_update fun_eq_iff del: map_map split: option.split)
next
  case (delete user roles i db db')
  show ?case
    by (simp add: logins_of_def device_delete_Inr(1)[OF delete.hyps] logins_of_filter)
qed

lemma logins_of_run: "registry_run h cs db db' \<Longrightarrow> logins_of db' = fold login_effect cs (logins_of db)"
  by (induction rule: registry_run.induct) (auto simp: logins_of_step)

lemma login_iff:
  assumes "registry_ok h db"
  shows "verify_device_id_token i t (login_rows db) \<longleftrightarrow> logins_of db i = Some (t, True)"
proof -
  have "map_of (map (\<lambda>r. (dv_id r, (dv_accessToken r, dv_isActive r))) (rb_devices db)) i = Some (t, True)
      \<longleftrightarrow> (i, (t, True)) \<in> set (map (\<lambda>r. (dv_id r, (dv_accessToken r, dv_isActive r))) (rb_devices db))"
    using registry_okD(1)[OF assms] by (intro map_of_eq_Some_iff) (simp add: comp_def)
  then show ?thesis
    by (auto simp: verify_device_id_token_iff login_rows_def logins_of_def image_iff device_row.defs)
qed

lemma drawn_run: "drawn f (rb_draws db) t \<Longrightarrow> registry_run h cs db db' \<Longrightarrow> drawn f (rb_draws db') t"
proof (rotate_tac, induction rule: registry_run.induct)
  case (more c db db1 cs db2)
  have "drawn f (rb_draws db1) t"
    using more.hyps(1) more.prems
    by (cases rule: registry_step.cases)
      (auto dest: device_create_Inr(5) device_rotate_Inr(5) device_set_active_Inr(2) device_delete_Inr(4))
  with more.IH show ?case by blast
qed

text \<open>A token that was drawn and is no longer anyone's stays so.\<close>

lemma tokens_step:
  assumes "registry_step h c db db'" "inj (rh_random h)"
    and "drawn (rh_random h) (rb_draws db) t" "t \<notin> tokens db"
  shows "drawn (rh_random h) (rb_draws db') t \<and> t \<notin> tokens db'"
proof -
  have new: "\<not> drawn (rh_random h) n (rh_random h n)" and new': "\<not> drawn (rh_random h) n (rh_random h (Suc n))" for n
    using assms(2) by (auto simp: drawn_def inj_eq)
  show ?thesis using assms(1,3,4)
  proof (induction rule: registry_step.induct)
    case (create now user roles name description db r db')
    note c = device_create_Inr[OF create.hyps]
    from c(3) obtain row where "rb_devices db' = rb_devices db @ [row]" "dv_accessToken row = rr_accessToken r" by blast
    then show ?case using create.prems c new' by (auto simp: tokens_def)
  next
    case (set_active now user roles i isActive db db')
    show ?case using set_active.prems device_set_active_Inr[OF set_active.hyps] by (auto simp: tokens_def split: if_splits)
  next
    case (rotate now user roles i db token db')
    show ?case using rotate.prems device_rotate_Inr[OF rotate.hyps] new by (auto simp: tokens_def split: if_splits)
  next
    case (delete user roles i db db')
    show ?case using delete.prems device_delete_Inr[OF delete.hyps] by (auto simp: tokens_def)
  qed
qed

lemma tokens_run:
  "registry_run h cs db db' \<Longrightarrow> inj (rh_random h) \<Longrightarrow> drawn (rh_random h) (rb_draws db) t \<Longrightarrow> t \<notin> tokens db \<Longrightarrow> t \<notin> tokens db'"
  by (induction rule: registry_run.induct) (use tokens_step in blast)+

lemma login_token: "verify_device_id_token i t (login_rows db) \<Longrightarrow> t \<in> tokens db"
  by (auto simp: verify_device_id_token_iff login_rows_def tokens_def device_row.defs)

section \<open>The property\<close>

text \<open>C11: whatever sequence of registrations, switches, rotations and deletions administrators
  perform, the devices that may log in are exactly what the sequence makes of the abstract map from
  device to token and switch: a login needs the device's current token and an active device. A
  token that is replaced or whose device is deleted never logs in again, and the unique columns
  and the foreign key of the tables hold. The random source must not repeat itself.\<close>

theorem device_registry_refines:
  assumes "inj (rh_random h)" "registry_ok h db" "registry_run h changes db db'"
  shows "registry_ok h db'
    \<and> (\<forall>i t. verify_device_id_token i t (login_rows db') \<longleftrightarrow> fold login_effect changes (logins_of db) i = Some (t, True))
    \<and> (\<forall>db'' later i t. registry_run h later db' db'' \<and> verify_device_id_token i t (login_rows db) \<and> t \<notin> tokens db'
         \<longrightarrow> (\<forall>j. \<not> verify_device_id_token j t (login_rows db'')))"
proof (intro conjI allI impI)
  show ok: "registry_ok h db'" using registry_run_ok assms by blast
  fix i t
  show "verify_device_id_token i t (login_rows db') \<longleftrightarrow> fold login_effect changes (logins_of db) i = Some (t, True)"
    by (simp add: login_iff[OF ok] logins_of_run[OF assms(3)])
next
  fix db'' later i t j
  assume late: "registry_run h later db' db'' \<and> verify_device_id_token i t (login_rows db) \<and> t \<notin> tokens db'"
  then have "drawn (rh_random h) (rb_draws db) t"
    using registry_okD(4)[OF assms(2)] login_token by (fastforce simp: tokens_def)
  then have "drawn (rh_random h) (rb_draws db') t"
    using assms(3) by (rule drawn_run)
  with late have "t \<notin> tokens db''" using tokens_run assms(1) by blast
  then show "\<not> verify_device_id_token j t (login_rows db'')" using login_token by blast
qed

definition demo_registry :: registry_db where
  "demo_registry = \<lparr>rb_devices = [new_device (prefixed_id demo_host ''dev'' 0) ''lamp'' None (rh_random demo_host 1) 5],
     rb_events = [], rb_certs = [], rb_draws = 2\<rparr>"

theorem device_registry_refines_witness:
  "\<exists>db'. registry_run demo_host [Rotated (prefixed_id demo_host ''dev'' 0) (rh_random demo_host 2)] demo_registry db'
     \<and> verify_device_id_token (prefixed_id demo_host ''dev'' 0) (rh_random demo_host 2) (login_rows db')
     \<and> \<not> verify_device_id_token (prefixed_id demo_host ''dev'' 0) (rh_random demo_host 1) (login_rows db')"
proof -
  let ?i = "prefixed_id demo_host ''dev'' 0" and ?t = "rh_random demo_host 2"
  have inj: "inj (rh_random demo_host)" by (auto simp: demo_host_def inj_def)
  have ok: "registry_ok demo_host demo_registry"
    by (auto simp: registry_ok_def demo_registry_def drawn_def new_device_def intro: exI[of _ 0] exI[of _ 1])
  have ne: "rh_random demo_host 1 \<noteq> ?t" by (simp add: inj_eq[OF inj])
  obtain db' where "device_rotate_token demo_host 9 (Some demo_admin) [''admin''] ?i demo_registry = Inr (?t, db')"
    by (simp add: device_rotate_token_def admin_procedure_def demo_admin_def or_else_def demo_registry_def new_token_def
        new_device_def Let_def)
  then have run: "registry_run demo_host [Rotated ?i ?t] demo_registry db'"
    by (blast intro: registry_run.intros registry_step.rotate)
  have logins: "logins_of demo_registry = [?i \<mapsto> (rh_random demo_host 1, True)]"
    by (simp add: logins_of_def demo_registry_def new_device_def)
  from device_registry_refines[OF inj ok run] run logins ne show ?thesis by auto
qed

section \<open>Listing\<close>

text \<open>The default column of the device list ranks its rows.\<close>

interpretation created: ranking "\<lambda>a b. rg_createdAt a \<le> rg_createdAt b"
  by (rule ranking_key) (rule ranking_le)

text \<open>Turning the pages of the device list from the first to the page count shows every device
  that matches the search exactly once, in the order asked for, and no page is larger than asked;
  a page size out of bounds is rejected.\<close>

theorem device_pages_complete:
  assumes "collation le" "or_else (au_role u) [] \<in> set roles"
  shows "if 1 \<le> perPage \<and> perPage \<le> int PER_PAGE_MAX
    then \<exists>rows count.
      (\<forall>page. 1 \<le> page \<longrightarrow> (\<exists>p. device_list fold_case le (Some u) roles page perPage name status sorting db = Inr p
         \<and> pg_pageCount p = count \<and> pg_rows p = page_rows (nat page) (nat perPage) (map (device_listing_of db) rows)
         \<and> length (pg_rows p) \<le> nat perPage))
      \<and> concat (map (\<lambda>i. page_rows i (nat perPage) (map (device_listing_of db) rows)) [1..<Suc count]) = map (device_listing_of db) rows
      \<and> mset rows = mset (filter (device_matches fold_case name status) (rb_devices db))
      \<and> sorted_wrt (order_by_columns (device_sortable le) (\<lambda>a b. rg_createdAt a \<le> rg_createdAt b) sorting) rows
    else \<exists>e. device_list fold_case le (Some u) roles page perPage name status sorting db = Inl e"
proof (cases "1 \<le> perPage \<and> perPage \<le> int PER_PAGE_MAX")
  case True
  let ?order = "order_by_columns (device_sortable le) (\<lambda>a b. rg_createdAt a \<le> rg_createdAt b) sorting"
  let ?rows = "sort_by ?order (filter (device_matches fold_case name status) (rb_devices db))"
  let ?count = "page_count (length ?rows) (nat perPage)"
  have rank: "ranking ?order"
  proof (rule ranking_order_by_columns)
    show "ranking c" if "c \<in> snd ` set (device_sortable le)" for c
      using that assms(1) by (auto simp: device_sortable_def ranking_collation intro: ranking_key ranking_le)
  qed (rule created.ranking_axioms)
  have page: "\<exists>p. device_list fold_case le (Some u) roles page perPage name status sorting db = Inr p
       \<and> pg_pageCount p = ?count \<and> pg_rows p = page_rows (nat page) (nat perPage) (map (device_listing_of db) ?rows)
       \<and> length (pg_rows p) \<le> nat perPage" if "1 \<le> page" for page
    using that True assms(2) by (simp add: device_list_def admin_procedure_def z_page_def paginate_def page_rows_length)
  have "concat (map (\<lambda>i. page_rows i (nat perPage) (map (device_listing_of db) ?rows)) [1..<Suc ?count]) = map (device_listing_of db) ?rows"
    using pages_concat[of "nat perPage" "map (device_listing_of db) ?rows"] True by simp
  moreover have "mset ?rows = mset (filter (device_matches fold_case name status) (rb_devices db))" by simp
  moreover have "sorted_wrt ?order ?rows" by (rule ranking.sorted[OF rank])
  ultimately show ?thesis unfolding if_P[OF True] using page by blast
next
  case False
  then show ?thesis using assms(2) by (auto simp: device_list_def admin_procedure_def z_page_def)
qed

theorem device_pages_complete_witness:
  "\<exists>p. device_list (\<lambda>c. c) (\<le>) (Some demo_admin) [''admin''] 1 10 '''' [] [] demo_registry = Inr p
     \<and> mset (pg_rows p) = mset (map (device_listing_of demo_registry) (rb_devices demo_registry))"
proof -
  have facts: "collation ((\<le>) :: string \<Rightarrow> string \<Rightarrow> bool)" "or_else (au_role demo_admin) [] \<in> set [''admin'']"
    by (auto simp: collation_def demo_admin_def or_else_def)
  have bound: "1 \<le> (10 :: int) \<and> 10 \<le> int PER_PAGE_MAX" by (simp add: PER_PAGE_MAX_def)
  obtain rows count p where p: "device_list (\<lambda>c. c) (\<le>) (Some demo_admin) [''admin''] 1 10 '''' [] [] demo_registry = Inr p"
      "pg_rows p = page_rows 1 10 (map (device_listing_of demo_registry) rows)"
    and m: "mset rows = mset (filter (device_matches (\<lambda>c. c) '''' []) (rb_devices demo_registry))"
    using device_pages_complete[OF facts, of 10 "\<lambda>c. c" "''''" "[]" "[]" demo_registry] unfolding if_P[OF bound]
    by fastforce
  have all: "filter (device_matches (\<lambda>c. c) '''' []) (rb_devices demo_registry) = rb_devices demo_registry"
    by (simp add: demo_registry_def device_matches_def name_filter_def status_filter_def)
  have "length rows = 1" using m all by (metis size_mset demo_registry_def registry_db.select_convs(1) length_Cons list.size(3) One_nat_def)
  with p m all show ?thesis by (simp add: page_rows_def)
qed

end
