(* ===== verification/Pki.thy ===== *)
theory Pki
  imports Registry_Laws Json
begin

text \<open>
  Device certificates (\<open>web/packages/helix-backend/src/pki/\<close> and \<open>device-mtls/tls.ts\<close>): issuing
  through the step-ca service for a device that presents its access token, the administrator's
  list and revocation, and the check of a presented certificate by the device gateway
  (\<open>web/apps/helix-server/src/roles/gateway.ts\<close>). Files, URLs, the signing of tokens, HTTPS
  requests and X.509 parsing are the host's; times are milliseconds.
\<close>

section \<open>The step-ca client\<close>

record x509 =
  xc_serialNumber :: string
  xc_fingerprint256 :: string
  xc_subject :: string
  xc_validFrom :: int
  xc_validTo :: int

record jwt =
  jw_kid :: "string option"
  jw_aud :: string
  jw_exp :: nat
  jw_iat :: nat
  jw_iss :: string
  jw_jti :: string
  jw_nbf :: nat
  jw_sub :: string

text \<open>\<open>None\<close> is a call that throws; a response has a status, if any, and a body.\<close>

record ca_host =
  ca_readFile :: "string \<Rightarrow> string option"
  ca_newURL :: "string \<Rightarrow> string \<Rightarrow> string option"
  ca_sign :: "json \<Rightarrow> jwt \<Rightarrow> string option"
  ca_request :: "string \<Rightarrow> string \<Rightarrow> string \<Rightarrow> (nat option \<times> string) option"
  ca_x509 :: "string \<Rightarrow> x509 option"

record step_ca_settings =
  st_caRootCertPath :: string
  st_caUrl :: string
  st_deviceProvisionerJwkPath :: string
  st_deviceProvisionerName :: string

definition DEFAULT_OTT_TTL_SECONDS :: nat where "DEFAULT_OTT_TTL_SECONDS = 5 * 60"

definition to_epoch_seconds :: "nat \<Rightarrow> nat" where
  "to_epoch_seconds ms = ms div 1000"

definition normalize_pem :: "string \<Rightarrow> string" where
  "normalize_pem v = trim v @ [CHR 10]"

definition bundle_certificate_chain :: "string \<Rightarrow> string option \<Rightarrow> string" where
  "bundle_certificate_chain leaf issued =
     normalize_pem leaf @ (case issued of None \<Rightarrow> [] | Some c \<Rightarrow> normalize_pem c)"

definition thrown :: "string \<Rightarrow> 'a option \<Rightarrow> string + 'a" where
  "thrown what v = (case v of None \<Rightarrow> Inl what | Some x \<Rightarrow> Inr x)"

definition post_json :: "ca_host \<Rightarrow> string \<Rightarrow> string \<Rightarrow> string \<Rightarrow> string + json" where
  "post_json ca url body rootCA =
     bind_sum (thrown ''network'' (ca_request ca url body rootCA)) (\<lambda>(status, responseBody).
       if 400 \<le> (case status of None \<Rightarrow> 500 | Some s \<Rightarrow> s) then Inl (''step-ca request failed with ''
         @ (case status of None \<Rightarrow> ''undefined'' | Some s \<Rightarrow> nat_str s) @ '': '' @ responseBody)
       else thrown ''invalid step-ca response'' (json_parse responseBody))"

definition create_one_time_token :: "ca_host \<Rightarrow> nat \<Rightarrow> string \<Rightarrow> string \<Rightarrow> json \<Rightarrow> string \<Rightarrow> string + string" where
  "create_one_time_token ca nowMs audience subject jwk provisionerName =
     (let issuedAt = to_epoch_seconds nowMs;
          expiresAt = to_epoch_seconds (nowMs + DEFAULT_OTT_TTL_SECONDS * 1000)
      in thrown ''sign'' (ca_sign ca jwk
           \<lparr>jw_kid = (case json_get jwk ''kid'' of Some (JStr k) \<Rightarrow> Some k | _ \<Rightarrow> None),
            jw_aud = audience, jw_exp = expiresAt, jw_iat = issuedAt, jw_iss = provisionerName,
            jw_jti = subject @ '':'' @ nat_str issuedAt, jw_nbf = issuedAt, jw_sub = subject\<rparr>))"

text \<open>The first line \<open>CN=\<dots>\<close> of the subject.\<close>

definition parse_common_name :: "string \<Rightarrow> string option" where
  "parse_common_name subject =
     (case find (\<lambda>l. starts_with ''CN='' l) (map trim (split_on (CHR 10) subject)) of
        None \<Rightarrow> None
      | Some l \<Rightarrow> (let v = trim (drop (length ''CN='') l) in if v = [] then None else Some v))"

record certificate_metadata =
  me_serialNumber :: string
  me_fingerprintSha256 :: string
  me_subjectCommonName :: "string option"
  me_notBefore :: int
  me_notAfter :: int

definition metadata_of :: "x509 \<Rightarrow> certificate_metadata" where
  "metadata_of c = \<lparr>me_serialNumber = xc_serialNumber c, me_fingerprintSha256 = xc_fingerprint256 c,
     me_subjectCommonName = parse_common_name (xc_subject c), me_notBefore = xc_validFrom c, me_notAfter = xc_validTo c\<rparr>"

definition parse_certificate_metadata :: "ca_host \<Rightarrow> string \<Rightarrow> string + certificate_metadata" where
  "parse_certificate_metadata ca pem = bind_sum (thrown ''x509'' (ca_x509 ca pem)) (\<lambda>c. Inr (metadata_of c))"

record issued_certificate =
  is_certificatePem :: string
  is_rootCAPem :: string
  is_metadata :: certificate_metadata

text \<open>\<open>typeof v === 'string' ? v.trim() : ''\<close>\<close>

definition trimmed_text :: "json option \<Rightarrow> string" where
  "trimmed_text v = (case v of Some (JStr s) \<Rightarrow> trim s | _ \<Rightarrow> [])"

text \<open>The root certificate, the provisioner's key and a token for one request about a subject.\<close>

definition provisioned ::
    "ca_host \<Rightarrow> nat \<Rightarrow> step_ca_settings \<Rightarrow> string \<Rightarrow> string + string \<Rightarrow> string + string \<times> string \<times> string \<times> string" where
  "provisioned ca nowMs settings path subject =
     bind_sum (thrown ''readFile'' (ca_readFile ca (st_caRootCertPath settings))) (\<lambda>rootCA.
     bind_sum (thrown ''readFile'' (ca_readFile ca (st_deviceProvisionerJwkPath settings))) (\<lambda>raw.
     bind_sum (thrown ''URL'' (ca_newURL ca path (st_caUrl settings))) (\<lambda>url.
     bind_sum subject (\<lambda>sub.
     bind_sum (thrown ''JSON'' (json_parse raw)) (\<lambda>jwk.
     bind_sum (create_one_time_token ca nowMs url sub jwk (st_deviceProvisionerName settings)) (\<lambda>token.
       Inr (rootCA, url, sub, token)))))))"

definition issue_device_certificate ::
    "ca_host \<Rightarrow> nat \<Rightarrow> string \<Rightarrow> string \<Rightarrow> step_ca_settings \<Rightarrow> string + issued_certificate" where
  "issue_device_certificate ca nowMs deviceId csrPem settings =
     bind_sum (provisioned ca nowMs settings ''/1.0/sign'' (Inr deviceId)) (\<lambda>(rootCA, url, _, token).
     bind_sum (post_json ca url (json_print (JObj [(''csr'', JStr (normalize_pem csrPem)), (''ott'', JStr token)])) rootCA) (\<lambda>response.
     if response = JNull then Inl ''TypeError''
     else let certificatePem = trimmed_text (json_get response ''crt'');
              chain = (case json_get response ''ca'' of Some (JStr c) \<Rightarrow> if trim c = [] then None else Some c | _ \<Rightarrow> None)
          in if certificatePem = [] then Inl ''step-ca did not return a device certificate.''
             else bind_sum (parse_certificate_metadata ca certificatePem) (\<lambda>metadata.
               Inr \<lparr>is_certificatePem = bundle_certificate_chain certificatePem chain,
                    is_rootCAPem = normalize_pem rootCA, is_metadata = metadata\<rparr>)))"

section \<open>Serial numbers\<close>

definition hex_digit :: "char \<Rightarrow> nat option" where
  "hex_digit c =
     (let n = of_char c :: nat
      in if 48 \<le> n \<and> n \<le> 57 then Some (n - 48) else if 65 \<le> n \<and> n \<le> 70 then Some (n - 55)
         else if 97 \<le> n \<and> n \<le> 102 then Some (n - 87) else None)"

definition hex_digits :: "string \<Rightarrow> nat list" where
  "hex_digits s = List.map_filter hex_digit s"

text \<open>\<open>BigInt('0x')\<close> throws.\<close>

definition hex_serial_to_decimal :: "string \<Rightarrow> string + string" where
  "hex_serial_to_decimal s =
     (if hex_digits s = [] then Inl ''SyntaxError'' else Inr (nat_str (foldl (\<lambda>n d. 16 * n + d) 0 (hex_digits s))))"

definition revoke_device_certificate ::
    "ca_host \<Rightarrow> nat \<Rightarrow> string \<Rightarrow> string option \<Rightarrow> step_ca_settings \<Rightarrow> string + json" where
  "revoke_device_certificate ca nowMs serialNumber reason settings =
     bind_sum (provisioned ca nowMs settings ''/1.0/revoke'' (hex_serial_to_decimal serialNumber)) (\<lambda>(rootCA, url, serial, token).
       post_json ca url (json_print (JObj ([(''ott'', JStr token), (''passive'', JBool True)]
         @ (case reason of None \<Rightarrow> [] | Some r \<Rightarrow> [(''reason'', JStr r)]) @ [(''serial'', JStr serial)]))) rootCA)"

section \<open>Issuing\<close>

definition has_csr_marker :: "string \<Rightarrow> bool" where
  "has_csr_marker v \<longleftrightarrow> str_includes ''-----BEGIN CERTIFICATE REQUEST-----'' v
     \<or> str_includes ''-----BEGIN NEW CERTIFICATE REQUEST-----'' v"

definition csr_input_schema :: "string \<Rightarrow> trpc_error + string" where
  "csr_input_schema csr = bind_sum (z_text csr) (\<lambda>v.
     if has_csr_marker v then Inr v else Inl (TRPC BAD_REQUEST ''csr must be a PEM certificate signing request''))"

definition new_certificate :: "string \<Rightarrow> string \<Rightarrow> nat \<Rightarrow> certificate_metadata \<Rightarrow> certificate_row" where
  "new_certificate i deviceId now m =
     \<lparr>cf_id = i, cf_deviceId = deviceId, cf_serialNumber = me_serialNumber m,
      cf_fingerprintSha256 = me_fingerprintSha256 m, cf_subjectCommonName = me_subjectCommonName m,
      cf_notBefore = me_notBefore m, cf_notAfter = me_notAfter m, cf_issuedAt = now, cf_status = ''active'',
      cf_revokedAt = None, cf_revocationReason = None, cf_revokedByUserId = None\<rparr>"

text \<open>\<open>ON CONFLICT (serial_number) DO NOTHING\<close>; the foreign key needs the device.\<close>

definition insert_certificate :: "certificate_row \<Rightarrow> registry_db \<Rightarrow> trpc_error + registry_db" where
  "insert_certificate c db =
     (if cf_serialNumber c \<in> cf_serialNumber ` set (rb_certs db) then Inr db
      else if cf_id c \<in> cf_id ` set (rb_certs db) then Inl (TRPC INTERNAL_ERROR ''unique'')
      else if cf_deviceId c \<notin> dv_id ` set (rb_devices db) then Inl (TRPC INTERNAL_ERROR ''foreign key'')
      else Inr (db\<lparr>rb_certs := rb_certs db @ [c]\<rparr>))"

record issued_output =
  io_ca :: string
  io_certificate :: string
  io_device :: string

text \<open>An error that is not a \<open>TRPCError\<close> reaches the caller as an internal one.\<close>

definition internal :: "string + 'a \<Rightarrow> trpc_error + 'a" where
  "internal v = (case v of Inl e \<Rightarrow> Inl (TRPC INTERNAL_ERROR e) | Inr x \<Rightarrow> Inr x)"

definition issue_procedure ::
    "release_host \<Rightarrow> ca_host \<Rightarrow> nat \<Rightarrow> step_ca_settings \<Rightarrow> string option \<Rightarrow> string \<Rightarrow> string \<Rightarrow> registry_db
      \<Rightarrow> trpc_error + issued_output \<times> registry_db" where
  "issue_procedure h ca now settings header csr deviceId db =
     bind_sum (csr_input_schema csr) (\<lambda>csr. bind_sum (z_text deviceId) (\<lambda>deviceId.
     (case read_bearer_token header of
        None \<Rightarrow> Inl (TRPC UNAUTHORIZED ''Device access token is missing or invalid.'')
      | Some accessToken \<Rightarrow>
          if \<not> verify_device_id_token deviceId accessToken (login_rows db)
          then Inl (TRPC UNAUTHORIZED ''Device access token is invalid.'')
          else bind_sum (internal (issue_device_certificate ca now deviceId csr settings)) (\<lambda>bundle.
                 let row = new_certificate (prefixed_id h ''cert'' (rb_draws db)) deviceId now (is_metadata bundle)
                 in bind_sum (insert_certificate row (db\<lparr>rb_draws := Suc (rb_draws db)\<rparr>)) (\<lambda>db'.
                      Inr (\<lparr>io_ca = is_rootCAPem bundle, io_certificate = is_certificatePem bundle,
                            io_device = deviceId\<rparr>, db'))))))"

section \<open>The administrator's procedures\<close>

definition REVOCATION_REASON_MAX :: nat where "REVOCATION_REASON_MAX = 200"

datatype certificate_state = Active | Revoked | Expired

definition effective_state :: "string \<Rightarrow> int \<Rightarrow> int \<Rightarrow> certificate_state" where
  "effective_state status notAfter now =
     (if status = ''revoked'' then Revoked else if notAfter < now then Expired else Active)"

definition certificates_list ::
    "admin_user option \<Rightarrow> string list \<Rightarrow> string \<Rightarrow> int \<Rightarrow> registry_db \<Rightarrow> trpc_error + (certificate_row \<times> certificate_state) list" where
  "certificates_list user roles deviceId now db = admin_procedure user roles (\<lambda>u.
     if deviceId = [] then Inl (TRPC BAD_REQUEST ''deviceId'')
     else Inr (map (\<lambda>c. (c, effective_state (cf_status c) (cf_notAfter c) now))
       (sort_by (direction True (\<lambda>a b. cf_issuedAt a \<le> cf_issuedAt b))
         (filter (\<lambda>c. cf_deviceId c = deviceId) (rb_certs db)))))"

definition mark_revoked :: "nat \<Rightarrow> string option \<Rightarrow> string \<Rightarrow> certificate_row \<Rightarrow> certificate_row" where
  "mark_revoked now reason userId c =
     c\<lparr>cf_status := ''revoked'', cf_revokedAt := Some now, cf_revocationReason := reason, cf_revokedByUserId := Some userId\<rparr>"

text \<open>The result says whether the certificate was revoked already.\<close>

definition certificate_revoke ::
    "ca_host \<Rightarrow> nat \<Rightarrow> step_ca_settings option \<Rightarrow> admin_user option \<Rightarrow> string list \<Rightarrow> string \<Rightarrow> string option \<Rightarrow> registry_db
      \<Rightarrow> trpc_error + bool \<times> registry_db" where
  "certificate_revoke ca now settings user roles certificateId reason db = admin_procedure user roles (\<lambda>u.
     if certificateId = [] \<or> (case reason of None \<Rightarrow> False | Some r \<Rightarrow> REVOCATION_REASON_MAX < length r)
     then Inl (TRPC BAD_REQUEST ''input'')
     else case find (\<lambda>c. cf_id c = certificateId) (rb_certs db) of
            None \<Rightarrow> Inl (TRPC NOT_FOUND ''Certificate not found'')
          | Some row \<Rightarrow>
              if cf_status row = ''revoked'' then Inr (True, db)
              else (case settings of
                      None \<Rightarrow> Inl (TRPC PRECONDITION_FAILED ''step-ca is not configured; cannot revoke certificates.'')
                    | Some st \<Rightarrow> bind_sum (internal (revoke_device_certificate ca now (cf_serialNumber row) reason st)) (\<lambda>_.
                        Inr (False, db\<lparr>rb_certs := map (\<lambda>c. if cf_id c = certificateId
                          then mark_revoked now reason (au_id u) c else c) (rb_certs db)\<rparr>))))"

section \<open>The device gateway\<close>

text \<open>What \<open>getPeerCertificate\<close> reports of a client certificate.\<close>

record peer_certificate =
  pc_commonName :: "string option"
  pc_serialNumber :: "string option"

definition non_blank :: "string option \<Rightarrow> string option" where
  "non_blank v = (case v of None \<Rightarrow> None | Some s \<Rightarrow> if trim s = [] then None else Some (trim s))"

definition device_id_from_socket :: "peer_certificate option \<Rightarrow> string option" where
  "device_id_from_socket peer = (case peer of None \<Rightarrow> None | Some p \<Rightarrow> non_blank (pc_commonName p))"

definition cert_serial_from_socket :: "peer_certificate option \<Rightarrow> string option" where
  "cert_serial_from_socket peer = (case peer of None \<Rightarrow> None | Some p \<Rightarrow> map_option to_upper (non_blank (pc_serialNumber p)))"

definition is_device_cert_revoked :: "registry_db \<Rightarrow> string \<Rightarrow> bool" where
  "is_device_cert_revoked db serial =
     (case find (\<lambda>c. cf_serialNumber c = serial) (rb_certs db) of None \<Rightarrow> False | Some c \<Rightarrow> cf_revokedAt c \<noteq> None)"

text \<open>\<open>createMtlsContext\<close>: the identity the device API acts for.\<close>

definition create_mtls_context :: "peer_certificate option \<Rightarrow> registry_db \<Rightarrow> trpc_error + string" where
  "create_mtls_context peer db =
     (case device_id_from_socket peer of
        None \<Rightarrow> Inl (TRPC UNAUTHORIZED ''Client certificate identity missing.'')
      | Some deviceId \<Rightarrow>
          (case cert_serial_from_socket peer of
             None \<Rightarrow> Inl (TRPC UNAUTHORIZED ''Client certificate is revoked or unrecognized.'')
           | Some serial \<Rightarrow>
               if is_device_cert_revoked db serial
               then Inl (TRPC UNAUTHORIZED ''Client certificate is revoked or unrecognized.'')
               else Inr deviceId))"

end
