(* ===== verification/Data_Plane.thy ===== *)
theory Data_Plane
  imports Pki
begin

text \<open>
  The data plane (\<open>web/packages/helix-backend/src/data-plane/index.ts\<close>): devices register a byte
  stream under a session id, browsers open streams on it, and a port-forward proxy pipes raw
  connections into it. Sessions, streams, clients and sockets are numbered as they are created;
  the multiplexer behind a session is the one of the stream theories, of which the plane only
  calls \<open>open\<close>, \<open>write\<close>, \<open>signal\<close>, \<open>close\<close> and \<open>reset\<close>. A step is one callback; what it sends is
  appended to a list of effects.
\<close>

section \<open>The host label of a request\<close>

definition lower_char :: "char \<Rightarrow> char" where
  "lower_char c =
     (let n = of_char c :: nat
      in if (65 \<le> n \<and> n \<le> 90) \<or> (192 \<le> n \<and> n \<le> 222 \<and> n \<noteq> 215) then char_of (n + 32) else c)"

definition to_lower :: "string \<Rightarrow> string" where
  "to_lower s = map lower_char s"

definition line_break :: string where "line_break = [CHR 13, CHR 10]"

definition host_prefix :: string where "host_prefix = line_break @ ''host:''"

text \<open>The first match of \<open>/\\r\\nhost:[ \\t]*([^\\r\\n]+)/i\<close>: its captured text, up to leading blanks.\<close>

fun host_match :: "string \<Rightarrow> string option" where
  "host_match [] = None"
| "host_match (c # cs) =
     (let rest = drop (length host_prefix) (c # cs);
          line = takeWhile (\<lambda>d. d \<noteq> CHR 13 \<and> d \<noteq> CHR 10) rest
      in if starts_with host_prefix (to_lower (c # cs)) \<and> line \<noteq> [] then Some line else host_match cs)"

definition session_from_host_head :: "string \<Rightarrow> string option" where
  "session_from_host_head head =
     (case host_match (line_break @ head) of
        None \<Rightarrow> None
      | Some matched \<Rightarrow>
          (let host = to_lower (trim matched); label = hd (split_on (CHR ''.'') (hd (split_on (CHR '':'') host)))
           in if label = [] then None else Some label))"

section \<open>State\<close>

text \<open>A session object with the closure variables of its callbacks.\<close>

record plane_session =
  ps_sessionId :: string
  ps_deviceId :: string
  ps_connection :: nat

record pending_check =
  pk_connection :: nat
  pk_sessionId :: string
  pk_deviceId :: string
  pk_serial :: string

record forward_socket =
  fw_head :: bytes
  fw_piped :: bool
  fw_stream :: "nat option"
  fw_open :: bool

datatype plane_effect =
    Device_rejected nat
  | Session_shut nat
  | Stream_opened nat bytes
  | Stream_written nat bytes
  | Stream_signalled nat bytes
  | Stream_closed nat
  | Stream_reset nat
  | Client_refused nat
  | Client_sent nat bytes
  | Client_closed nat
  | Forward_sent nat bytes
  | Forward_refused nat
  | Forward_ended nat
  | Forward_destroyed nat

record plane =
  pl_sessions :: "(string, nat) js_map"
  pl_objects :: "plane_session list"
  pl_pending :: "pending_check list"
  pl_streams :: "nat list"
  pl_clients :: "(nat, nat) js_map"
  pl_forwards :: "(nat, forward_socket) js_map"
  pl_effects :: "plane_effect list"

datatype plane_input =
    Device_connection nat "string option" "peer_certificate option"
  | Revocation_answer nat string "bool option"
  | Session_closed nat
  | Client_connection nat "string option" "string option"
  | Stream_data nat bytes bool
  | Stream_ended nat
  | Client_message nat bytes bool
  | Client_gone nat
  | Client_failed nat
  | Forward_connection nat
  | Forward_data nat bytes
  | Forward_closed nat
  | Forward_failed nat
  | Plane_close

definition new_plane :: plane where
  "new_plane = \<lparr>pl_sessions = [], pl_objects = [], pl_pending = [], pl_streams = [], pl_clients = [],
     pl_forwards = [], pl_effects = []\<rparr>"

definition emit :: "plane_effect list \<Rightarrow> plane \<Rightarrow> plane" where
  "emit es p = p\<lparr>pl_effects := pl_effects p @ es\<rparr>"

section \<open>Devices\<close>

definition register_device_stream :: "nat \<Rightarrow> string \<Rightarrow> string \<Rightarrow> plane \<Rightarrow> plane" where
  "register_device_stream conn sessionId deviceId p =
     p\<lparr>pl_sessions := map_set sessionId (length (pl_objects p)) (pl_sessions p),
       pl_objects := pl_objects p @ [\<lparr>ps_sessionId = sessionId, ps_deviceId = deviceId, ps_connection = conn\<rparr>]\<rparr>"

text \<open>\<open>checks\<close> says whether the plane was started with \<open>isRevoked\<close>.\<close>

definition device_connection :: "bool \<Rightarrow> nat \<Rightarrow> string option \<Rightarrow> peer_certificate option \<Rightarrow> plane \<Rightarrow> plane" where
  "device_connection checks conn sessionId peer p =
     (let deviceId = or_else (device_id_from_socket peer) ''unknown''
      in case sessionId of
           None \<Rightarrow> emit [Device_rejected conn] p
         | Some sid \<Rightarrow>
             (case (checks, cert_serial_from_socket peer) of
                (True, Some serial) \<Rightarrow> p\<lparr>pl_pending := pl_pending p @
                  [\<lparr>pk_connection = conn, pk_sessionId = sid, pk_deviceId = deviceId, pk_serial = serial\<rparr>]\<rparr>
              | _ \<Rightarrow> register_device_stream conn sid deviceId p))"

text \<open>\<open>isRevoked(serial)\<close>, asked for a connection, settles; \<open>None\<close> is a failed check.\<close>

definition revocation_answer :: "nat \<Rightarrow> string \<Rightarrow> bool option \<Rightarrow> plane \<Rightarrow> plane" where
  "revocation_answer conn serial revoked p =
     (case find (\<lambda>k. pk_connection k = conn \<and> pk_serial k = serial) (pl_pending p) of
        None \<Rightarrow> p
      | Some k \<Rightarrow>
          (let p1 = p\<lparr>pl_pending := remove1 k (pl_pending p)\<rparr>
           in case revoked of
                Some False \<Rightarrow> register_device_stream conn (pk_sessionId k) (pk_deviceId k) p1
              | _ \<Rightarrow> emit [Device_rejected conn] p1))"

text \<open>\<open>session.onClose\<close>: only the registration that is still its own is removed.\<close>

definition session_closed :: "nat \<Rightarrow> plane \<Rightarrow> plane" where
  "session_closed k p =
     (if k < length (pl_objects p) \<and> map_get (pl_sessions p) (ps_sessionId (pl_objects p ! k)) = Some k
      then p\<lparr>pl_sessions := map_delete (ps_sessionId (pl_objects p ! k)) (pl_sessions p)\<rparr> else p)"

text \<open>\<open>session.open(meta)\<close>: the new stream's number and its session.\<close>

definition open_on :: "nat \<Rightarrow> bytes \<Rightarrow> plane \<Rightarrow> nat \<times> plane" where
  "open_on k meta p = (length (pl_streams p),
     emit [Stream_opened k meta] (p\<lparr>pl_streams := pl_streams p @ [k]\<rparr>))"

section \<open>Browsers\<close>

definition client_connection :: "nat \<Rightarrow> string option \<Rightarrow> string option \<Rightarrow> plane \<Rightarrow> plane" where
  "client_connection c sessionId metaParam p =
     (case Option.bind sessionId (map_get (pl_sessions p)) of
        None \<Rightarrow> emit [Client_refused c, Client_closed c] p
      | Some k \<Rightarrow>
          (let meta = (case metaParam of None \<Rightarrow> [] | Some m \<Rightarrow> utf8 m); (st, p1) = open_on k meta p
           in p1\<lparr>pl_clients := map_set c st (pl_clients p1)\<rparr>))"

definition client_of_stream :: "nat \<Rightarrow> plane \<Rightarrow> nat option" where
  "client_of_stream st p = map_option fst (find (\<lambda>(c, s). s = st) (pl_clients p))"

definition forward_of_stream :: "nat \<Rightarrow> plane \<Rightarrow> nat option" where
  "forward_of_stream st p = map_option fst (find (\<lambda>(q, f). fw_stream f = Some st) (pl_forwards p))"

text \<open>A frame arrives on a stream: the callback its opener installed runs. \<open>ready\<close> tells whether
  the client's socket is open.\<close>

definition stream_data :: "nat \<Rightarrow> bytes \<Rightarrow> bool \<Rightarrow> plane \<Rightarrow> plane" where
  "stream_data st data ready p =
     (case client_of_stream st p of
        Some c \<Rightarrow> if ready then emit [Client_sent c data] p else p
      | None \<Rightarrow> (case forward_of_stream st p of Some q \<Rightarrow> emit [Forward_sent q data] p | None \<Rightarrow> p))"

definition stream_ended :: "nat \<Rightarrow> plane \<Rightarrow> plane" where
  "stream_ended st p =
     (case client_of_stream st p of
        Some c \<Rightarrow> emit [Client_closed c] p
      | None \<Rightarrow> (case forward_of_stream st p of Some q \<Rightarrow> emit [Forward_ended q] p | None \<Rightarrow> p))"

definition client_message :: "nat \<Rightarrow> bytes \<Rightarrow> bool \<Rightarrow> plane \<Rightarrow> plane" where
  "client_message c data isBinary p =
     (case map_get (pl_clients p) c of
        None \<Rightarrow> p
      | Some st \<Rightarrow> emit [if isBinary then Stream_written st data else Stream_signalled st data] p)"

definition client_gone :: "(nat \<Rightarrow> plane_effect) \<Rightarrow> nat \<Rightarrow> plane \<Rightarrow> plane" where
  "client_gone how c p = (case map_get (pl_clients p) c of None \<Rightarrow> p | Some st \<Rightarrow> emit [how st] p)"

section \<open>The port-forward proxy\<close>

definition MAX_HEAD_BYTES :: nat where "MAX_HEAD_BYTES = 16384"

definition new_forward :: forward_socket where
  "new_forward = \<lparr>fw_head = [], fw_piped = False, fw_stream = None, fw_open = True\<rparr>"

definition head_end :: bytes where "head_end = [13, 10, 13, 10]"

text \<open>\<open>head.indexOf('\\r\\n\\r\\n')\<close>\<close>

fun index_of_bytes :: "bytes \<Rightarrow> bytes \<Rightarrow> nat option" where
  "index_of_bytes w [] = (if w = [] then Some 0 else None)"
| "index_of_bytes w (b # bs) =
     (if take (length w) (b # bs) = w then Some 0 else map_option Suc (index_of_bytes w bs))"

definition latin1 :: "bytes \<Rightarrow> string" where
  "latin1 bs = map (\<lambda>b. char_of (unat b)) bs"

definition set_forward :: "nat \<Rightarrow> forward_socket \<Rightarrow> plane \<Rightarrow> plane" where
  "set_forward q f p = p\<lparr>pl_forwards := map_set q f (pl_forwards p)\<rparr>"

definition forward_data :: "nat \<Rightarrow> bytes \<Rightarrow> plane \<Rightarrow> plane" where
  "forward_data q chunk p =
     (case map_get (pl_forwards p) q of
        None \<Rightarrow> p
      | Some f \<Rightarrow>
          if \<not> fw_open f then p
          else if fw_piped f
          then (case fw_stream f of None \<Rightarrow> p | Some st \<Rightarrow> emit [Stream_written st chunk] p)
          else
            (let f1 = f\<lparr>fw_head := fw_head f @ chunk\<rparr>; head = fw_head f1
             in case index_of_bytes head_end head of
                  None \<Rightarrow>
                    if MAX_HEAD_BYTES < length head
                    then emit [Forward_destroyed q] (set_forward q (f1\<lparr>fw_open := False\<rparr>) p)
                    else set_forward q f1 p
                | Some end_pos \<Rightarrow>
                    (case Option.bind (session_from_host_head (latin1 (take end_pos head))) (map_get (pl_sessions p)) of
                       None \<Rightarrow> emit [Forward_refused q] (set_forward q f1 p)
                     | Some k \<Rightarrow>
                         (let (st, p1) = open_on k [] p
                          in emit [Stream_written st head]
                               (set_forward q (f1\<lparr>fw_piped := True, fw_stream := Some st\<rparr>) p1)))))"

definition forward_gone :: "(nat \<Rightarrow> plane_effect) \<Rightarrow> bool \<Rightarrow> nat \<Rightarrow> plane \<Rightarrow> plane" where
  "forward_gone how closes q p =
     (case map_get (pl_forwards p) q of
        None \<Rightarrow> p
      | Some f \<Rightarrow>
          (let p1 = (if closes then set_forward q (f\<lparr>fw_open := False\<rparr>) p else p)
           in case fw_stream f of None \<Rightarrow> p1 | Some st \<Rightarrow> emit [how st] p1))"

section \<open>The plane\<close>

definition plane_close :: "plane \<Rightarrow> plane" where
  "plane_close p = emit (map (\<lambda>(sid, k). Session_shut k) (pl_sessions p)) (p\<lparr>pl_sessions := []\<rparr>)"

fun plane_step :: "bool \<Rightarrow> plane_input \<Rightarrow> plane \<Rightarrow> plane" where
  "plane_step checks (Device_connection conn sid peer) p = device_connection checks conn sid peer p"
| "plane_step checks (Revocation_answer conn serial revoked) p = revocation_answer conn serial revoked p"
| "plane_step checks (Session_closed k) p = session_closed k p"
| "plane_step checks (Client_connection c sid meta) p = client_connection c sid meta p"
| "plane_step checks (Stream_data st data ready) p = stream_data st data ready p"
| "plane_step checks (Stream_ended st) p = stream_ended st p"
| "plane_step checks (Client_message c data isBinary) p = client_message c data isBinary p"
| "plane_step checks (Client_gone c) p = client_gone Stream_closed c p"
| "plane_step checks (Client_failed c) p = client_gone Stream_reset c p"
| "plane_step checks (Forward_connection q) p = set_forward q new_forward p"
| "plane_step checks (Forward_data q chunk) p = forward_data q chunk p"
| "plane_step checks (Forward_closed q) p = forward_gone Stream_closed True q p"
| "plane_step checks (Forward_failed q) p = forward_gone Stream_reset False q p"
| "plane_step checks Plane_close p = plane_close p"

definition plane_run :: "bool \<Rightarrow> plane_input list \<Rightarrow> plane" where
  "plane_run checks inputs = fold (plane_step checks) inputs new_plane"

end
