(* ===== verification/Pki_Laws.thy ===== *)
theory Pki_Laws
  imports Pki
begin

text \<open>
  The life of device certificates: a certificate is recorded only for a device that presented its
  current token, and a revoked one is refused by the device gateway whatever happens afterwards,
  except that its device is deleted. The steps of the registry and of the certificates interleave.
\<close>

section \<open>Steps\<close>

datatype fleet_change =
    Login login_change
  | Issued string string
  | CertRevoked string

inductive fleet_step :: "release_host \<Rightarrow> ca_host \<Rightarrow> fleet_change \<Rightarrow> registry_db \<Rightarrow> registry_db \<Rightarrow> bool" for h ca where
  login: "registry_step h c db db' \<Longrightarrow> fleet_step h ca (Login c) db db'"
| issue: "issue_procedure h ca now settings header csr deviceId db = Inr (out, db')
    \<Longrightarrow> fleet_step h ca (Issued (io_device out) (io_certificate out)) db db'"
| revoke: "certificate_revoke ca now settings user roles certificateId reason db = Inr (already, db')
    \<Longrightarrow> fleet_step h ca (CertRevoked certificateId) db db'"

inductive fleet_run :: "release_host \<Rightarrow> ca_host \<Rightarrow> fleet_change list \<Rightarrow> registry_db \<Rightarrow> registry_db \<Rightarrow> bool" for h ca where
  stop: "fleet_run h ca [] db db"
| more: "fleet_step h ca c db db1 \<Longrightarrow> fleet_run h ca cs db1 db2 \<Longrightarrow> fleet_run h ca (c # cs) db db2"

definition certificate_ok :: "certificate_row \<Rightarrow> bool" where
  "certificate_ok c \<longleftrightarrow> (cf_status c = ''active'' \<and> cf_revokedAt c = None) \<or> (cf_status c = ''revoked'' \<and> cf_revokedAt c \<noteq> None)"

definition fleet_ok :: "release_host \<Rightarrow> registry_db \<Rightarrow> bool" where
  "fleet_ok h db \<longleftrightarrow> registry_ok h db \<and> (\<forall>c\<in>set (rb_certs db). certificate_ok c)"

section \<open>What the procedures return\<close>

lemma insert_certificate_Inr:
  "insert_certificate c db = Inr db' \<longleftrightarrow>
     (if cf_serialNumber c \<in> cf_serialNumber ` set (rb_certs db) then db' = db
      else cf_id c \<notin> cf_id ` set (rb_certs db) \<and> cf_deviceId c \<in> dv_id ` set (rb_devices db)
        \<and> db' = db\<lparr>rb_certs := rb_certs db @ [c]\<rparr>)"
  by (auto simp: insert_certificate_def)

lemma internal_Inr [simp]: "internal v = Inr x \<longleftrightarrow> v = Inr x"
  by (cases v) (simp_all add: internal_def)

lemma issue_Inr:
  assumes "issue_procedure h ca now settings header csr deviceId db = Inr (out, db')"
  obtains token cert row where "read_bearer_token header = Some token"
    "verify_device_id_token (trim deviceId) token (login_rows db)" "has_csr_marker (trim csr)"
    "issue_device_certificate ca now (trim deviceId) (trim csr) settings = Inr cert"
    "row = new_certificate (prefixed_id h ''cert'' (rb_draws db)) (trim deviceId) now (is_metadata cert)"
    "insert_certificate row (db\<lparr>rb_draws := Suc (rb_draws db)\<rparr>) = Inr db'" "io_device out = trim deviceId"
    "io_certificate out = is_certificatePem cert"
  using assms
  by (auto simp: issue_procedure_def csr_input_schema_def bind_sum_Inr z_text_Inr Let_def split: option.splits if_splits)

lemma revoke_Inr:
  assumes "certificate_revoke ca now settings user roles i reason db = Inr (already, db')"
  obtains row u where "find (\<lambda>c. cf_id c = i) (rb_certs db) = Some row" "user = Some u"
    "already \<longleftrightarrow> cf_status row = ''revoked''"
    "already \<Longrightarrow> db' = db"
    "\<not> already \<Longrightarrow> db' = db\<lparr>rb_certs := map (\<lambda>c. if cf_id c = i then mark_revoked now reason (au_id u) c else c) (rb_certs db)\<rparr>"
    "\<not> already \<Longrightarrow> \<exists>st v. settings = Some st \<and> revoke_device_certificate ca now (cf_serialNumber row) reason st = Inr v"
  using assms
  by (auto simp: certificate_revoke_def admin_procedure_Inr bind_sum_Inr split: option.splits if_splits)

lemma mark_revoked_simps [simp]:
  "cf_id (mark_revoked now reason u c) = cf_id c" "cf_serialNumber (mark_revoked now reason u c) = cf_serialNumber c"
  "cf_deviceId (mark_revoked now reason u c) = cf_deviceId c" "cf_revokedAt (mark_revoked now reason u c) = Some now"
  "certificate_ok (mark_revoked now reason u c)" "cf_status (mark_revoked now reason u c) = ''revoked''"
  by (simp_all add: mark_revoked_def certificate_ok_def)

section \<open>The invariant\<close>

lemma fleet_step_frame:
  assumes "fleet_step h ca c db db'" "\<nexists>l. c = Login l"
  shows "rb_devices db' = rb_devices db" "rb_draws db \<le> rb_draws db'"
  using assms by (auto elim!: fleet_step.cases issue_Inr revoke_Inr simp: insert_certificate_Inr split: if_splits)

lemma drawn_mono: "drawn f m s \<Longrightarrow> m \<le> n \<Longrightarrow> drawn f n s"
  unfolding drawn_def using less_le_trans by blast

lemma registry_ok_certs:
  assumes "registry_ok h db" "rb_devices db' = rb_devices db" "rb_draws db \<le> rb_draws db'"
    "distinct (map cf_serialNumber (rb_certs db'))" "\<forall>c\<in>set (rb_certs db'). cf_deviceId c \<in> dv_id ` set (rb_devices db)"
  shows "registry_ok h db'"
  using assms unfolding registry_ok_def by (auto intro: drawn_mono)

lemma insert_certificate_ok:
  assumes "insert_certificate c db = Inr db'" "registry_ok h db"
  shows "registry_ok h db'"
proof (cases "cf_serialNumber c \<in> cf_serialNumber ` set (rb_certs db)")
  case True
  with assms show ?thesis by (simp add: insert_certificate_Inr)
next
  case False
  then have db': "db' = db\<lparr>rb_certs := rb_certs db @ [c]\<rparr>" "cf_deviceId c \<in> dv_id ` set (rb_devices db)"
    using assms(1) by (simp_all add: insert_certificate_Inr)
  show ?thesis
    by (rule registry_ok_certs[OF assms(2)]) (use db' False registry_okD(5,6)[OF assms(2)] in auto)
qed

lemma fleet_step_ok:
  assumes "fleet_step h ca c db db'" "fleet_ok h db"
  shows "fleet_ok h db'"
  using assms
proof (cases rule: fleet_step.cases)
  case (login l)
  have "set (rb_certs db') \<subseteq> set (rb_certs db)"
    using login(2) by (cases rule: registry_step.cases)
      (auto dest: device_create_Inr(6) device_rotate_Inr(6) device_set_active_Inr(3) device_delete_Inr(2))
  then show ?thesis using registry_step_ok[OF login(2)] assms(2) by (auto simp: fleet_ok_def)
next
  case (issue now settings header csr deviceId out)
  from issue(2) show ?thesis
  proof (rule issue_Inr)
    fix cert row
    assume row: "row = new_certificate (prefixed_id h ''cert'' (rb_draws db)) (trim deviceId) now (is_metadata cert)"
      and ins: "insert_certificate row (db\<lparr>rb_draws := Suc (rb_draws db)\<rparr>) = Inr db'"
    have "certificate_ok row" by (simp add: row certificate_ok_def new_certificate_def)
    moreover have "registry_ok h db'"
      using ins
    proof (rule insert_certificate_ok)
      have ok: "registry_ok h db" using assms(2) by (simp add: fleet_ok_def)
      show "registry_ok h (db\<lparr>rb_draws := Suc (rb_draws db)\<rparr>)"
        by (rule registry_ok_certs[OF ok]) (use registry_okD(5,6)[OF ok] in auto)
    qed
    ultimately show ?thesis
      using ins assms(2) unfolding fleet_ok_def by (auto simp: insert_certificate_Inr split: if_splits)
  qed
next
  case (revoke now settings user roles i reason already)
  from revoke(2) show ?thesis
  proof (rule revoke_Inr)
    fix row u
    assume r: "already \<Longrightarrow> db' = db"
      "\<not> already \<Longrightarrow> db' = db\<lparr>rb_certs := map (\<lambda>c. if cf_id c = i then mark_revoked now reason (au_id u) c else c) (rb_certs db)\<rparr>"
    have serials: "map cf_serialNumber (map (\<lambda>c. if cf_id c = i then mark_revoked now reason (au_id u) c else c) (rb_certs db)) = map cf_serialNumber (rb_certs db)"
      by simp
    show ?thesis
    proof (cases already)
      case True
      with r(1) assms(2) show ?thesis by simp
    next
      case False
      note db' = r(2)[OF False]
      have ok: "registry_ok h db" "\<forall>c\<in>set (rb_certs db). certificate_ok c" using assms(2) by (auto simp: fleet_ok_def)
      have "registry_ok h db'"
        by (rule registry_ok_certs[OF ok(1)]) (use registry_okD(5,6)[OF ok(1)] serials db' in \<open>auto simp del: map_map\<close>)
      moreover have "\<forall>c\<in>set (rb_certs db'). certificate_ok c" using ok(2) by (auto simp: db')
      ultimately show ?thesis by (simp add: fleet_ok_def)
    qed
  qed
qed

lemma fleet_run_ok: "fleet_run h ca cs db db' \<Longrightarrow> fleet_ok h db \<Longrightarrow> fleet_ok h db'"
  by (induction rule: fleet_run.induct) (auto dest: fleet_step_ok)

section \<open>Revocation\<close>

definition revoked_for :: "string \<Rightarrow> string \<Rightarrow> registry_db \<Rightarrow> bool" where
  "revoked_for deviceId serial db \<longleftrightarrow> (\<exists>c\<in>set (rb_certs db). cf_deviceId c = deviceId \<and> cf_serialNumber c = serial \<and> cf_revokedAt c \<noteq> None)"

lemma revoked_certs: "set (rb_certs db) \<subseteq> set (rb_certs db') \<Longrightarrow> revoked_for i s db \<Longrightarrow> revoked_for i s db'"
  by (auto simp: revoked_for_def)

lemma revoked_mark:
  assumes "c \<in> set (rb_certs db)" "cf_revokedAt c \<noteq> None \<or> cf_id c = k"
  shows "revoked_for (cf_deviceId c) (cf_serialNumber c)
    (db\<lparr>rb_certs := map (\<lambda>c. if cf_id c = k then mark_revoked now reason u c else c) (rb_certs db)\<rparr>)"
proof -
  let ?c = "if cf_id c = k then mark_revoked now reason u c else c"
  have "?c \<in> (\<lambda>c. if cf_id c = k then mark_revoked now reason u c else c) ` set (rb_certs db)" using assms(1) by (rule imageI)
  moreover have "cf_deviceId ?c = cf_deviceId c \<and> cf_serialNumber ?c = cf_serialNumber c \<and> cf_revokedAt ?c \<noteq> None"
    using assms(2) by auto
  ultimately show ?thesis unfolding revoked_for_def by (auto simp del: image_iff)
qed

lemma registry_step_certs:
  "registry_step h c db db' \<Longrightarrow> (\<nexists>i. c = Removed i) \<Longrightarrow> rb_certs db' = rb_certs db"
  by (auto elim!: registry_step.cases dest: device_create_Inr(6) device_rotate_Inr(6) device_set_active_Inr(3))

lemma revoked_step:
  assumes "fleet_step h ca c db db'" "c \<noteq> Login (Removed i)" "revoked_for i s db"
  shows "revoked_for i s db'"
  using assms(1)
proof (cases rule: fleet_step.cases)
  case (login l)
  show ?thesis
  proof (cases "\<exists>j. l = Removed j")
    case True
    then obtain j where j: "l = Removed j" "j \<noteq> i" using assms(2) login(1) by blast
    have "rb_certs db' = filter (\<lambda>c. cf_deviceId c \<noteq> j) (rb_certs db)"
      using login(2) j(1) by (auto elim!: registry_step.cases dest: device_delete_Inr(2))
    then show ?thesis using assms(3) j(2) by (auto simp: revoked_for_def)
  next
    case False
    then show ?thesis using registry_step_certs[OF login(2)] assms(3) by (simp add: revoked_for_def)
  qed
next
  case (issue now settings header csr deviceId out)
  from issue(2) show ?thesis
    by (rule issue_Inr) (use assms(3) in \<open>auto simp: insert_certificate_Inr intro: revoked_certs[of db] split: if_splits\<close>)
next
  case (revoke now settings user roles k reason already)
  from revoke(2) show ?thesis
  proof (rule revoke_Inr)
    fix u
    assume "already \<Longrightarrow> db' = db"
      "\<not> already \<Longrightarrow> db' = db\<lparr>rb_certs := map (\<lambda>c. if cf_id c = k then mark_revoked now reason (au_id u) c else c) (rb_certs db)\<rparr>"
    moreover obtain c where "c \<in> set (rb_certs db)" "cf_deviceId c = i" "cf_serialNumber c = s" "cf_revokedAt c \<noteq> None"
      using assms(3) by (auto simp: revoked_for_def)
    ultimately show ?thesis using revoked_mark[of c db k now reason "au_id u"] assms(3) by (cases already) simp_all
  qed
qed

lemma revoked_run:
  "fleet_run h ca cs db db' \<Longrightarrow> Login (Removed i) \<notin> set cs \<Longrightarrow> revoked_for i s db \<Longrightarrow> revoked_for i s db'"
  by (induction rule: fleet_run.induct) (auto intro: revoked_step)

lemma revoked_refused:
  assumes "fleet_ok h db" "revoked_for i s db"
  shows "is_device_cert_revoked db s"
proof -
  obtain c where c: "c \<in> set (rb_certs db)" "cf_serialNumber c = s" "cf_revokedAt c \<noteq> None"
    using assms(2) by (auto simp: revoked_for_def)
  have dist: "distinct (map cf_serialNumber (rb_certs db))"
    by (rule registry_okD(5)[of h]) (use assms(1) in \<open>simp add: fleet_ok_def\<close>)
  obtain d where d: "find (\<lambda>c. cf_serialNumber c = s) (rb_certs db) = Some d"
    using c(1,2) by (cases "find (\<lambda>c. cf_serialNumber c = s) (rb_certs db)") (auto simp: find_None_iff_all)
  then have "d \<in> set (rb_certs db)" "cf_serialNumber d = s" by (auto dest: find_Some_mem)
  then have "d = c" using c dist by (auto simp: distinct_map dest: inj_onD)
  then show ?thesis using d c(3) by (simp add: is_device_cert_revoked_def)
qed

lemma revoke_marks:
  assumes "certificate_revoke ca now settings user roles k reason db = Inr (already, db')" "fleet_ok h db"
  shows "\<exists>c. find (\<lambda>c. cf_id c = k) (rb_certs db) = Some c \<and> revoked_for (cf_deviceId c) (cf_serialNumber c) db'"
  using assms(1)
proof (rule revoke_Inr)
  fix row u
  assume row: "find (\<lambda>c. cf_id c = k) (rb_certs db) = Some row" "already \<longleftrightarrow> cf_status row = ''revoked''"
    and r: "already \<Longrightarrow> db' = db"
      "\<not> already \<Longrightarrow> db' = db\<lparr>rb_certs := map (\<lambda>c. if cf_id c = k then mark_revoked now reason (au_id u) c else c) (rb_certs db)\<rparr>"
  have mem: "row \<in> set (rb_certs db)" "cf_id row = k" using row(1) by (auto dest: find_Some_mem)
  have "revoked_for (cf_deviceId row) (cf_serialNumber row) db'"
  proof (cases already)
    case True
    have "certificate_ok row" using assms(2) mem(1) by (simp add: fleet_ok_def)
    with True row(2) have "cf_revokedAt row \<noteq> None" by (auto simp: certificate_ok_def)
    with mem r(1)[OF True] show ?thesis by (auto simp: revoked_for_def)
  next
    case False
    show ?thesis unfolding r(2)[OF False] by (rule revoked_mark) (use mem in auto)
  qed
  with row(1) show ?thesis by blast
qed

section \<open>Properties\<close>

text \<open>C23: a certificate is issued only to a caller with the current access token of an active
  device, and for that device's identifier; it is recorded with what the certificate itself says,
  a serial number that is on record already is not recorded again, and nothing else changes.\<close>

theorem certificate_for_its_device:
  assumes "issue_procedure h ca now settings header csr deviceId db = Inr (out, db')" "fleet_ok h db"
  shows "fleet_ok h db' \<and> io_device out = trim deviceId
    \<and> (\<exists>token. read_bearer_token header = Some token \<and> logins_of db (io_device out) = Some (token, True))
    \<and> (\<exists>cert. issue_device_certificate ca now (io_device out) (trim csr) settings = Inr cert
        \<and> io_certificate out = is_certificatePem cert
        \<and> (if me_serialNumber (is_metadata cert) \<in> cf_serialNumber ` set (rb_certs db) then rb_certs db' = rb_certs db
           else \<exists>i. rb_certs db' = rb_certs db @ [new_certificate i (io_device out) now (is_metadata cert)]))
    \<and> rb_devices db' = rb_devices db \<and> rb_events db' = rb_events db"
  using assms(1)
proof (rule issue_Inr)
  fix token cert row
  assume run: "read_bearer_token header = Some token" "verify_device_id_token (trim deviceId) token (login_rows db)"
    "issue_device_certificate ca now (trim deviceId) (trim csr) settings = Inr cert"
    "row = new_certificate (prefixed_id h ''cert'' (rb_draws db)) (trim deviceId) now (is_metadata cert)"
    "insert_certificate row (db\<lparr>rb_draws := Suc (rb_draws db)\<rparr>) = Inr db'" "io_device out = trim deviceId"
    "io_certificate out = is_certificatePem cert"
  have ok: "fleet_ok h db'" using fleet_step_ok[OF fleet_step.issue[OF assms(1)] assms(2)] .
  have reg: "registry_ok h db" using assms(2) by (simp add: fleet_ok_def)
  have serial: "cf_serialNumber row = me_serialNumber (is_metadata cert)" by (simp add: run(4) new_certificate_def)
  show ?thesis
    using ok run(1-3,6,7) run(5)[unfolded insert_certificate_Inr] serial run(4)
    by (auto simp: login_iff[OF reg] split: if_splits)
qed

text \<open>C8: once an administrator has revoked a certificate, a client that presents its serial
  number is refused by the device gateway in every later state, through any interleaving of
  issuing, revoking and administration of devices that does not delete its device.\<close>

theorem revoked_certificate_refused:
  assumes "fleet_ok h db" "certificate_revoke ca now settings user roles certificateId reason db = Inr (already, db1)"
    and "find (\<lambda>c. cf_id c = certificateId) (rb_certs db) = Some c"
    and "fleet_run h ca changes db1 db2" "Login (Removed (cf_deviceId c)) \<notin> set changes"
  shows "is_device_cert_revoked db2 (cf_serialNumber c)
    \<and> (\<forall>peer. cert_serial_from_socket peer = Some (cf_serialNumber c) \<longrightarrow> (\<exists>e. create_mtls_context peer db2 = Inl e))"
proof -
  have ok1: "fleet_ok h db1" using fleet_step_ok[OF fleet_step.revoke[OF assms(2)] assms(1)] .
  have "revoked_for (cf_deviceId c) (cf_serialNumber c) db1" using revoke_marks[OF assms(2,1)] assms(3) by auto
  then have "revoked_for (cf_deviceId c) (cf_serialNumber c) db2" using assms(4,5) revoked_run by blast
  then have "is_device_cert_revoked db2 (cf_serialNumber c)"
    using revoked_refused fleet_run_ok[OF assms(4) ok1] by blast
  then show ?thesis by (auto simp: create_mtls_context_def split: option.split)
qed

section \<open>Witnesses\<close>

definition demo_x509 :: x509 where
  "demo_x509 = \<lparr>xc_serialNumber = ''1F'', xc_fingerprint256 = ''aa'', xc_subject = ''O=helix'' @ [CHR 10] @ ''CN=lamp'',
     xc_validFrom = 0, xc_validTo = 100\<rparr>"

definition demo_ca :: ca_host where
  "demo_ca = \<lparr>ca_readFile = (\<lambda>p. Some ''{}''), ca_newURL = (\<lambda>p b. Some (b @ p)), ca_sign = (\<lambda>k c. Some ''t''),
     ca_request = (\<lambda>u b r. Some (Some 200, ''{\"crt\":\"c\"}'')), ca_x509 = (\<lambda>pem. Some demo_x509)\<rparr>"

definition demo_settings :: step_ca_settings where
  "demo_settings = \<lparr>st_caRootCertPath = ''r'', st_caUrl = ''u'', st_deviceProvisionerJwkPath = ''j'', st_deviceProvisionerName = ''p''\<rparr>"

definition demo_device_id :: string where "demo_device_id = prefixed_id demo_host ''dev'' 0"

definition demo_pki :: registry_db where
  "demo_pki = demo_registry\<lparr>rb_certs := [new_certificate ''cert_9'' demo_device_id 3 (metadata_of demo_x509)]\<rparr>"

lemma demo_registry_ok: "registry_ok demo_host demo_registry"
  by (auto simp: registry_ok_def demo_registry_def drawn_def new_device_def intro: exI[of _ 0] exI[of _ 1])

lemma demo_pki_ok: "fleet_ok demo_host demo_pki" "fleet_ok demo_host demo_registry"
proof -
  have "registry_ok demo_host demo_pki"
    using demo_registry_ok
    by (auto simp: registry_ok_def demo_pki_def new_certificate_def demo_registry_def new_device_def demo_device_id_def)
  then show "fleet_ok demo_host demo_pki"
    by (simp add: fleet_ok_def demo_pki_def new_certificate_def certificate_ok_def)
  show "fleet_ok demo_host demo_registry" using demo_registry_ok by (simp add: fleet_ok_def demo_registry_def)
qed

lemma demo_ca_simps [simp]:
  "ca_readFile demo_ca p = Some ''{}''" "ca_newURL demo_ca p b = Some (b @ p)" "ca_sign demo_ca k c = Some ''t''"
  "ca_request demo_ca u b' r = Some (Some 200, ''{\"crt\":\"c\"}'')" "ca_x509 demo_ca pem = Some demo_x509"
  by (simp_all add: demo_ca_def)

lemma demo_provisioned: "provisioned demo_ca now demo_settings path (Inr sub) = Inr (''{}'', ''u'' @ path, sub, ''t'')"
proof -
  have "json_parse ''{}'' = Some (JObj [])" by code_simp
  then show ?thesis by (simp add: provisioned_def create_one_time_token_def thrown_def demo_settings_def Let_def)
qed

lemma demo_post: "post_json demo_ca url body root = Inr (JObj [(''crt'', JStr ''c'')])"
proof -
  have "json_parse ''{\"crt\":\"c\"}'' = Some (JObj [(''crt'', JStr ''c'')])" by code_simp
  then show ?thesis by (simp add: post_json_def thrown_def)
qed

lemma demo_issue_ca:
  "issue_device_certificate demo_ca now d csr demo_settings = Inr \<lparr>is_certificatePem = bundle_certificate_chain ''c'' None,
     is_rootCAPem = normalize_pem ''{}'', is_metadata = metadata_of demo_x509\<rparr>"
proof -
  have "trimmed_text (Some (JStr ''c'')) = ''c''" by code_simp
  then show ?thesis
    by (simp add: issue_device_certificate_def demo_provisioned demo_post parse_certificate_metadata_def thrown_def)
qed

lemma demo_revoke_ca: "revoke_device_certificate demo_ca now ''1F'' reason demo_settings = Inr (JObj [(''crt'', JStr ''c'')])"
proof -
  have "hex_serial_to_decimal ''1F'' = Inr ''31''" by code_simp
  then show ?thesis by (simp add: revoke_device_certificate_def demo_provisioned demo_post)
qed

definition demo_csr :: string where "demo_csr = ''-----BEGIN CERTIFICATE REQUEST-----''"

lemma demo_issue:
  "\<exists>out db'. issue_procedure demo_host demo_ca now demo_settings (Some ''Bearer 1'') demo_csr demo_device_id demo_registry = Inr (out, db')
     \<and> map cf_serialNumber (rb_certs db') = [''1F'']"
proof -
  have facts: "csr_input_schema demo_csr = Inr demo_csr" "z_text demo_device_id = Inr demo_device_id"
    "read_bearer_token (Some ''Bearer 1'') = Some ''1''" "verify_device_id_token demo_device_id ''1'' (login_rows demo_registry)"
    by code_simp+
  have new: "rb_certs demo_registry = []" "demo_device_id \<in> dv_id ` set (rb_devices demo_registry)"
    by (simp_all add: demo_registry_def demo_device_id_def new_device_def)
  show ?thesis
    by (simp add: issue_procedure_def facts demo_issue_ca internal_def Let_def insert_certificate_def new new_certificate_def
        metadata_of_def demo_x509_def)
qed

theorem certificate_for_its_device_witness:
  "\<exists>out db'. issue_procedure demo_host demo_ca 5000 demo_settings (Some ''Bearer 1'') demo_csr demo_device_id demo_registry = Inr (out, db')
     \<and> map cf_serialNumber (rb_certs db') = [''1F''] \<and> fleet_ok demo_host db' \<and> io_device out = trim demo_device_id"
proof -
  obtain out db' where run: "issue_procedure demo_host demo_ca 5000 demo_settings (Some ''Bearer 1'') demo_csr demo_device_id demo_registry = Inr (out, db')"
    and serials: "map cf_serialNumber (rb_certs db') = [''1F'']" using demo_issue[of 5000] by (elim exE conjE) (rule that)
  with certificate_for_its_device[OF run demo_pki_ok(2)] show ?thesis
    by (intro exI[of _ out] exI[of _ db'] conjI) (simp_all only: run)
qed

definition demo_peer :: "peer_certificate option" where
  "demo_peer = Some \<lparr>pc_commonName = Some demo_device_id, pc_serialNumber = Some ''1f''\<rparr>"

definition demo_row :: certificate_row where
  "demo_row = new_certificate ''cert_9'' demo_device_id 3 (metadata_of demo_x509)"

definition demo_revoked :: registry_db where
  "demo_revoked = demo_pki\<lparr>rb_certs := [mark_revoked 5000 None ''root'' demo_row]\<rparr>"

lemma demo_row_simps [simp]:
  "cf_id demo_row = ''cert_9''" "cf_serialNumber demo_row = ''1F''" "cf_status demo_row = ''active''"
  "cf_deviceId demo_row = demo_device_id" "cf_revokedAt demo_row = None"
  by (simp_all add: demo_row_def new_certificate_def metadata_of_def demo_x509_def)

lemma demo_pki_certs [simp]: "rb_certs demo_pki = [demo_row]" "rb_devices demo_pki = rb_devices demo_registry"
  by (simp_all add: demo_pki_def demo_row_def)

lemma demo_revoke:
  "certificate_revoke demo_ca 5000 (Some demo_settings) (Some demo_admin) [''admin''] ''cert_9'' None demo_pki = Inr (False, demo_revoked)"
  by (simp add: certificate_revoke_def admin_procedure_def demo_admin_def or_else_def demo_revoke_ca internal_def demo_revoked_def)

lemma demo_peer_facts: "device_id_from_socket demo_peer = Some demo_device_id" "cert_serial_from_socket demo_peer = Some ''1F''"
  by code_simp+

theorem revoked_certificate_refused_witness:
  "\<exists>db2. certificate_revoke demo_ca 5000 (Some demo_settings) (Some demo_admin) [''admin''] ''cert_9'' None demo_pki = Inr (False, demo_revoked)
     \<and> fleet_run demo_host demo_ca [Login (Switched demo_device_id False)] demo_revoked db2
     \<and> (\<exists>e. create_mtls_context demo_peer db2 = Inl e) \<and> create_mtls_context demo_peer demo_pki = Inr demo_device_id"
proof -
  obtain db2 where "device_set_active 6 (Some demo_admin) [''admin''] demo_device_id False demo_revoked = Inr db2"
    by (simp add: device_set_active_def admin_procedure_def demo_admin_def or_else_def)
  then have run: "fleet_run demo_host demo_ca [Login (Switched demo_device_id False)] demo_revoked db2"
    by (blast intro: fleet_run.intros fleet_step.login registry_step.set_active)
  have row: "find (\<lambda>c. cf_id c = ''cert_9'') (rb_certs demo_pki) = Some demo_row" by simp
  have "create_mtls_context demo_peer demo_pki = Inr demo_device_id"
    by (simp add: create_mtls_context_def demo_peer_facts is_device_cert_revoked_def)
  with revoked_certificate_refused[OF demo_pki_ok(1) demo_revoke row run] demo_peer_facts run demo_revoke show ?thesis by auto
qed

section \<open>A finding\<close>

text \<open>Deleting a device deletes the record of its revoked certificates, and an unrecorded serial
  number counts as not revoked: the revoked client is let in again.\<close>

lemma deleted_device_unrevokes:
  "certificate_revoke demo_ca 5000 (Some demo_settings) (Some demo_admin) [''admin''] ''cert_9'' None demo_pki = Inr (False, demo_revoked)
     \<and> (\<exists>e. create_mtls_context demo_peer demo_revoked = Inl e)
     \<and> (\<exists>db2. device_delete (Some demo_admin) [''admin''] demo_device_id demo_revoked = Inr db2
          \<and> create_mtls_context demo_peer db2 = Inr demo_device_id)"
proof -
  have delete: "device_delete (Some demo_admin) [''admin''] demo_device_id demo_revoked
      = Inr (demo_pki\<lparr>rb_events := [], rb_devices := [], rb_certs := []\<rparr>)"
    by (simp add: device_delete_def admin_procedure_def demo_admin_def or_else_def Let_def demo_revoked_def
        demo_registry_def demo_pki_def demo_device_id_def new_device_def)
  show ?thesis
    unfolding delete
    by (simp add: demo_revoke create_mtls_context_def demo_peer_facts is_device_cert_revoked_def demo_revoked_def)
qed

end
