(* ===== verification/Plane_Laws.thy ===== *)
theory Plane_Laws
  imports Data_Plane Pki_Laws
begin

text \<open>
  Who may serve and use the data plane: the devices behind sessions have passed the revocation
  check, a stream belongs to one browser or one forwarded connection and runs on the session its
  opener asked for, and the proxy forwards exactly the bytes it received.
\<close>

section \<open>The invariant\<close>

definition forward_stream :: "nat \<Rightarrow> plane \<Rightarrow> nat option" where
  "forward_stream q p = Option.bind (map_get (pl_forwards p) q) fw_stream"

definition plane_ok :: "plane \<Rightarrow> bool" where
  "plane_ok p \<longleftrightarrow>
     (\<forall>sid k. map_get (pl_sessions p) sid = Some k \<longrightarrow> k < length (pl_objects p) \<and> ps_sessionId (pl_objects p ! k) = sid)
     \<and> (\<forall>c st. map_get (pl_clients p) c = Some st \<longrightarrow> st < length (pl_streams p))
     \<and> (\<forall>q st. forward_stream q p = Some st \<longrightarrow> st < length (pl_streams p))
     \<and> (\<forall>c c' st. map_get (pl_clients p) c = Some st \<longrightarrow> map_get (pl_clients p) c' = Some st \<longrightarrow> c = c')
     \<and> (\<forall>q q' st. forward_stream q p = Some st \<longrightarrow> forward_stream q' p = Some st \<longrightarrow> q = q')
     \<and> (\<forall>c q st. map_get (pl_clients p) c = Some st \<longrightarrow> forward_stream q p \<noteq> Some st)
     \<and> (\<forall>st d. Stream_written st d \<in> set (pl_effects p) \<longrightarrow> st < length (pl_streams p))
     \<and> (\<forall>q f. map_get (pl_forwards p) q = Some f \<longrightarrow> fw_piped f = (fw_stream f \<noteq> None))"

lemma emit_simps [simp]:
  "pl_sessions (emit es p) = pl_sessions p" "pl_objects (emit es p) = pl_objects p" "pl_pending (emit es p) = pl_pending p"
  "pl_streams (emit es p) = pl_streams p" "pl_clients (emit es p) = pl_clients p" "pl_forwards (emit es p) = pl_forwards p"
  "pl_effects (emit es p) = pl_effects p @ es" "forward_stream q (emit es p) = forward_stream q p"
  by (simp_all add: emit_def forward_stream_def)

lemma set_forward_simps [simp]:
  "pl_sessions (set_forward q f p) = pl_sessions p" "pl_objects (set_forward q f p) = pl_objects p"
  "pl_pending (set_forward q f p) = pl_pending p" "pl_streams (set_forward q f p) = pl_streams p"
  "pl_clients (set_forward q f p) = pl_clients p" "pl_effects (set_forward q f p) = pl_effects p"
  "pl_forwards (set_forward q f p) = map_set q f (pl_forwards p)"
  "forward_stream q' (set_forward q f p) = (if q' = q then fw_stream f else forward_stream q' p)"
  by (simp_all add: set_forward_def forward_stream_def)

lemma open_on_simps [simp]:
  "fst (open_on k meta p) = length (pl_streams p)"
  "pl_sessions (snd (open_on k meta p)) = pl_sessions p" "pl_objects (snd (open_on k meta p)) = pl_objects p"
  "pl_pending (snd (open_on k meta p)) = pl_pending p" "pl_streams (snd (open_on k meta p)) = pl_streams p @ [k]"
  "pl_clients (snd (open_on k meta p)) = pl_clients p" "pl_forwards (snd (open_on k meta p)) = pl_forwards p"
  "pl_effects (snd (open_on k meta p)) = pl_effects p @ [Stream_opened k meta]"
  "forward_stream q (snd (open_on k meta p)) = forward_stream q p"
  by (simp_all add: open_on_def forward_stream_def)

lemma plane_okD:
  assumes "plane_ok p"
  shows "map_get (pl_sessions p) sid = Some k \<Longrightarrow> k < length (pl_objects p) \<and> ps_sessionId (pl_objects p ! k) = sid"
    "map_get (pl_clients p) c = Some st \<Longrightarrow> st < length (pl_streams p)"
    "forward_stream q p = Some st \<Longrightarrow> st < length (pl_streams p)"
    "map_get (pl_clients p) c = Some st \<Longrightarrow> map_get (pl_clients p) c' = Some st \<Longrightarrow> c = c'"
    "forward_stream q p = Some st \<Longrightarrow> forward_stream q' p = Some st \<Longrightarrow> q = q'"
    "map_get (pl_clients p) c = Some st \<Longrightarrow> forward_stream q p \<noteq> Some st"
    "Stream_written st d \<in> set (pl_effects p) \<Longrightarrow> st < length (pl_streams p)"
    "map_get (pl_forwards p) q = Some f \<Longrightarrow> fw_piped f = (fw_stream f \<noteq> None)"
  using assms unfolding plane_ok_def by blast+

text \<open>Steps that change neither sessions nor ends of streams.\<close>

lemma plane_ok_emit:
  assumes "plane_ok p" "\<And>st d. Stream_written st d \<in> set es \<Longrightarrow> st < length (pl_streams p)"
  shows "plane_ok (emit es p)"
  using assms unfolding plane_ok_def by auto

lemma plane_ok_register: "plane_ok p \<Longrightarrow> plane_ok (register_device_stream conn sid deviceId p)"
  unfolding plane_ok_def register_device_stream_def forward_stream_def
  by (auto simp: nth_append less_SucI split: if_splits)

lemma plane_ok_pending: "plane_ok (p\<lparr>pl_pending := ks\<rparr>) = plane_ok p"
  by (simp add: plane_ok_def forward_stream_def)

lemma plane_ok_forward:
  assumes "plane_ok p" "fw_piped f = (fw_stream f \<noteq> None)" "fw_stream f = forward_stream q p \<or> fw_stream f = None"
  shows "plane_ok (set_forward q f p)"
proof -
  have keep: "forward_stream q p = Some st" if "fw_stream f = Some st" for st using that assms(3) by auto
  have stream: "forward_stream q' p = Some st" if "forward_stream q' (set_forward q f p) = Some st" for q' st
    using that keep by (simp split: if_splits)
  have "\<forall>q' g. map_get (pl_forwards (set_forward q f p)) q' = Some g \<longrightarrow> fw_piped g = (fw_stream g \<noteq> None)"
    using assms(2) plane_okD(8)[OF assms(1)] by (auto split: if_splits)
  moreover have "\<forall>q1 q2 st. forward_stream q1 (set_forward q f p) = Some st \<longrightarrow> forward_stream q2 (set_forward q f p) = Some st \<longrightarrow> q1 = q2"
    using stream plane_okD(5)[OF assms(1)] by blast
  moreover have "\<forall>c q' st. map_get (pl_clients (set_forward q f p)) c = Some st \<longrightarrow> forward_stream q' (set_forward q f p) \<noteq> Some st"
    using stream plane_okD(6)[OF assms(1)] by (metis set_forward_simps(5))
  moreover have "\<forall>q' st. forward_stream q' (set_forward q f p) = Some st \<longrightarrow> st < length (pl_streams (set_forward q f p))"
    using stream plane_okD(3)[OF assms(1)] by (metis set_forward_simps(4))
  ultimately show ?thesis
    using assms(1) unfolding plane_ok_def set_forward_simps(1-6) by blast
qed

lemma plane_ok_open_client:
  assumes "plane_ok p"
  shows "plane_ok ((snd (open_on k meta p))\<lparr>pl_clients := map_set c (length (pl_streams p)) (pl_clients p)\<rparr>)"
proof -
  have fs: "forward_stream q ((snd (open_on k meta p))\<lparr>pl_clients := m\<rparr>) = forward_stream q p" for q m
    by (simp add: forward_stream_def)
  have "forward_stream q p \<noteq> Some (length (pl_streams p))" "map_get (pl_clients p) c' \<noteq> Some (length (pl_streams p))" for q c'
    using plane_okD(2,3)[OF assms] by fastforce+
  then show ?thesis
    using plane_okD[OF assms] unfolding plane_ok_def fs by (auto split: if_splits intro: less_SucI)
qed

lemma plane_ok_open_forward:
  assumes "plane_ok p" "fw_piped f" "fw_stream f = Some (length (pl_streams p))"
  shows "plane_ok (set_forward q f (snd (open_on k meta p)))"
proof -
  have "forward_stream q p \<noteq> Some (length (pl_streams p))" "map_get (pl_clients p) c' \<noteq> Some (length (pl_streams p))" for q c'
    using plane_okD(2,3)[OF assms(1)] by fastforce+
  then show ?thesis
    using assms(2,3) plane_okD[OF assms(1)] unfolding plane_ok_def by (auto split: if_splits intro: less_SucI)
qed

lemma plane_ok_sessions:
  assumes "plane_ok p" "\<And>sid k. map_get m sid = Some k \<Longrightarrow> map_get (pl_sessions p) sid = Some k"
  shows "plane_ok (p\<lparr>pl_sessions := m\<rparr>)"
proof -
  have "forward_stream q (p\<lparr>pl_sessions := m\<rparr>) = forward_stream q p" for q by (simp add: forward_stream_def)
  moreover have "\<forall>sid k. map_get m sid = Some k \<longrightarrow> k < length (pl_objects p) \<and> ps_sessionId (pl_objects p ! k) = sid"
    using assms(2) plane_okD(1)[OF assms(1)] by blast
  ultimately show ?thesis using assms(1) unfolding plane_ok_def by simp
qed

lemma forward_data_cases:
  obtains (same) "forward_data q chunk p = p" "\<And>f. map_get (pl_forwards p) q = Some f \<Longrightarrow> \<not> fw_open f \<or> (fw_piped f \<and> fw_stream f = None)"
  | (piped) f st where "map_get (pl_forwards p) q = Some f" "fw_open f" "fw_piped f" "fw_stream f = Some st"
      "forward_data q chunk p = emit [Stream_written st chunk] p"
  | (head) f es b where "map_get (pl_forwards p) q = Some f" "fw_open f" "\<not> fw_piped f" "\<And>st d. Stream_written st d \<notin> set es"
      "forward_data q chunk p = emit es (set_forward q (f\<lparr>fw_head := fw_head f @ chunk, fw_open := b\<rparr>) p)"
      "b \<Longrightarrow> if index_of_bytes head_end (fw_head f @ chunk) = None then length (fw_head f @ chunk) \<le> MAX_HEAD_BYTES
         else Forward_refused q \<in> set es"
  | (tunnel) f k where "map_get (pl_forwards p) q = Some f" "fw_open f" "\<not> fw_piped f"
      "forward_data q chunk p = emit [Stream_written (length (pl_streams p)) (fw_head f @ chunk)]
         (set_forward q (f\<lparr>fw_head := fw_head f @ chunk, fw_piped := True, fw_stream := Some (length (pl_streams p))\<rparr>)
           (snd (open_on k [] p)))"
proof (cases "map_get (pl_forwards p) q")
  case None
  then show thesis by (intro same) (simp_all add: forward_data_def)
next
  case (Some f)
  show thesis
  proof (cases "\<not> fw_open f \<or> fw_piped f")
    case True
    then show thesis using Some same piped by (cases "fw_stream f") (auto simp: forward_data_def)
  next
    case False
    let ?h = "fw_head f @ chunk"
    show thesis
    proof (cases "index_of_bytes head_end ?h")
      case None
      have open_field: "f\<lparr>fw_head := ?h\<rparr> = f\<lparr>fw_head := ?h, fw_open := True\<rparr>" using False by (cases f) simp
      show thesis
      proof (cases "MAX_HEAD_BYTES < length ?h")
        case True
        then show thesis
          using head[of f "[Forward_destroyed q]" False] Some False None by (simp add: forward_data_def Let_def)
      next
        case small: False
        then show thesis
          using head[of f "[]" True] Some False None open_field by (simp add: forward_data_def Let_def emit_def)
      qed
    next
      case pos: (Some e)
      have open_field: "f\<lparr>fw_head := ?h\<rparr> = f\<lparr>fw_head := ?h, fw_open := True\<rparr>" using False by (cases f) simp
      show thesis
      proof (cases "Option.bind (session_from_host_head (latin1 (take e ?h))) (map_get (pl_sessions p))")
        case None
        then show thesis
          using head[of f "[Forward_refused q]" True] Some False pos open_field by (simp add: forward_data_def Let_def)
      next
        case (Some k)
        then show thesis
          using tunnel[of f k] \<open>map_get (pl_forwards p) q = Some f\<close> False pos
          by (simp add: forward_data_def Let_def split_def)
      qed
    qed
  qed
qed

lemma map_get_forward: "map_get (pl_forwards p) q = Some f \<Longrightarrow> forward_stream q p = fw_stream f"
  by (simp add: forward_stream_def)

lemma plane_step_ok: "plane_ok p \<Longrightarrow> plane_ok (plane_step checks i p)"
proof (cases i)
  case (Forward_data q chunk)
  assume ok: "plane_ok p"
  show ?thesis
    unfolding Forward_data plane_step.simps
  proof (cases rule: forward_data_cases[of q chunk p])
    case same
    then show "plane_ok (forward_data q chunk p)" using ok by simp
  next
    case (piped f st)
    then show "plane_ok (forward_data q chunk p)"
      using ok plane_okD(3)[OF ok, of q st] by (auto simp: map_get_forward intro!: plane_ok_emit)
  next
    case (head f es b)
    have "plane_ok (set_forward q (f\<lparr>fw_head := fw_head f @ chunk, fw_open := b\<rparr>) p)"
      using ok head(1) plane_okD(8)[OF ok head(1)] by (intro plane_ok_forward) (auto simp: map_get_forward)
    then show "plane_ok (forward_data q chunk p)" unfolding head(5) using head(4) by (intro plane_ok_emit) auto
  next
    case (tunnel f k)
    show "plane_ok (forward_data q chunk p)"
      unfolding tunnel(4) using ok by (intro plane_ok_emit plane_ok_open_forward) auto
  qed
next
  case (Client_connection c sid meta)
  assume ok: "plane_ok p"
  show ?thesis
    using ok plane_ok_open_client[OF ok]
    by (auto simp: Client_connection client_connection_def Let_def split_def intro!: plane_ok_emit split: option.split)
next
  case (Client_message c data isBinary)
  assume ok: "plane_ok p"
  show ?thesis
    using ok plane_okD(2)[OF ok]
    by (auto simp: Client_message client_message_def intro!: plane_ok_emit split: option.split if_splits)
next
  case (Forward_connection q)
  assume ok: "plane_ok p"
  show ?thesis using ok by (auto simp: Forward_connection new_forward_def intro!: plane_ok_forward)
next
  case (Session_closed k)
  assume ok: "plane_ok p"
  show ?thesis using ok by (auto simp: Session_closed session_closed_def intro!: plane_ok_sessions split: if_splits)
next
  case Plane_close
  assume ok: "plane_ok p"
  show ?thesis using ok by (auto simp: Plane_close plane_close_def intro!: plane_ok_emit plane_ok_sessions)
next
  case (Forward_closed q)
  assume ok: "plane_ok p"
  show ?thesis
    using ok plane_okD(8)[OF ok]
    by (auto simp: Forward_closed forward_gone_def Let_def map_get_forward intro!: plane_ok_emit plane_ok_forward split: option.split)
next
  case (Forward_failed q)
  assume ok: "plane_ok p"
  show ?thesis
    using ok by (auto simp: Forward_failed forward_gone_def Let_def intro!: plane_ok_emit split: option.split)
qed (auto simp: device_connection_def revocation_answer_def stream_data_def stream_ended_def client_gone_def
      Let_def plane_ok_pending intro!: plane_ok_emit plane_ok_register split: option.split bool.split)

lemma plane_run_snoc: "plane_run checks (is @ [i]) = plane_step checks i (plane_run checks is)"
  by (simp add: plane_run_def)

lemma plane_run_ok: "plane_ok (plane_run checks is)"
proof (induction "is" rule: rev_induct)
  case Nil
  show ?case by (simp add: plane_run_def new_plane_def plane_ok_def forward_stream_def)
next
  case (snoc i "is")
  then show ?case by (simp add: plane_run_snoc plane_step_ok)
qed

section \<open>Who is connected to whom\<close>

definition device_admitted :: "bool \<Rightarrow> plane_input list \<Rightarrow> plane_session \<Rightarrow> bool" where
  "device_admitted checks is s \<longleftrightarrow> (\<exists>peer. Device_connection (ps_connection s) (Some (ps_sessionId s)) peer \<in> set is
     \<and> ps_deviceId s = or_else (device_id_from_socket peer) ''unknown''
     \<and> (\<forall>serial. checks \<and> cert_serial_from_socket peer = Some serial \<longrightarrow>
          Revocation_answer (ps_connection s) serial (Some False) \<in> set is))"

definition check_justified :: "plane_input list \<Rightarrow> pending_check \<Rightarrow> bool" where
  "check_justified is k \<longleftrightarrow> (\<exists>peer. Device_connection (pk_connection k) (Some (pk_sessionId k)) peer \<in> set is
     \<and> pk_deviceId k = or_else (device_id_from_socket peer) ''unknown'' \<and> cert_serial_from_socket peer = Some (pk_serial k))"

text \<open>The stream of a browser runs on a session registered under the id the browser asked for.\<close>

definition client_served :: "plane_input list \<Rightarrow> plane \<Rightarrow> nat \<Rightarrow> nat \<Rightarrow> bool" where
  "client_served is p c st \<longleftrightarrow> (\<exists>sid meta. Client_connection c (Some sid) meta \<in> set is
     \<and> st < length (pl_streams p) \<and> pl_streams p ! st < length (pl_objects p)
     \<and> ps_sessionId (pl_objects p ! (pl_streams p ! st)) = sid)"

lemma justified_mono:
  "device_admitted checks is s \<Longrightarrow> device_admitted checks (is @ js) s"
  "check_justified is k \<Longrightarrow> check_justified (is @ js) k"
  by (auto simp: device_admitted_def check_justified_def)

lemma register_simps [simp]:
  "pl_objects (register_device_stream conn sid d p) = pl_objects p @ [\<lparr>ps_sessionId = sid, ps_deviceId = d, ps_connection = conn\<rparr>]"
  "pl_pending (register_device_stream conn sid d p) = pl_pending p"
  "pl_streams (register_device_stream conn sid d p) = pl_streams p"
  "pl_clients (register_device_stream conn sid d p) = pl_clients p"
  "pl_forwards (register_device_stream conn sid d p) = pl_forwards p"
  "pl_effects (register_device_stream conn sid d p) = pl_effects p"
  by (simp_all add: register_device_stream_def)

lemma forward_data_frame:
  "pl_objects (forward_data q chunk p) = pl_objects p" "pl_pending (forward_data q chunk p) = pl_pending p"
  "pl_clients (forward_data q chunk p) = pl_clients p" "\<exists>ks. pl_streams (forward_data q chunk p) = pl_streams p @ ks"
  by (cases rule: forward_data_cases[of q chunk p]; simp)+

lemma step_objects:
  "\<exists>xs. pl_objects (plane_step checks i p) = pl_objects p @ xs" "\<exists>ks. pl_streams (plane_step checks i p) = pl_streams p @ ks"
  by (cases i; auto simp: device_connection_def revocation_answer_def session_closed_def client_connection_def stream_data_def
      stream_ended_def client_message_def client_gone_def forward_gone_def forward_data_frame plane_close_def Let_def split_def
      split: option.split bool.split)+

lemma step_admitted:
  assumes "\<forall>s\<in>set (pl_objects p). device_admitted checks is s" "\<forall>k\<in>set (pl_pending p). check_justified is k"
  shows "(\<forall>s\<in>set (pl_objects (plane_step checks i p)). device_admitted checks (is @ [i]) s)
    \<and> (\<forall>k\<in>set (pl_pending (plane_step checks i p)). check_justified (is @ [i]) k)"
proof (cases i)
  case (Device_connection conn sid peer)
  then show ?thesis
    using assms by (auto simp: device_connection_def justified_mono device_admitted_def[of _ _ "\<lparr>ps_sessionId = _, ps_deviceId = _, ps_connection = _\<rparr>"]
        check_justified_def[of _ "\<lparr>pk_connection = _, pk_sessionId = _, pk_deviceId = _, pk_serial = _\<rparr>"] Let_def
        split: option.split bool.split)
next
  case (Revocation_answer conn serial revoked)
  show ?thesis
  proof (cases "find (\<lambda>k. pk_connection k = conn \<and> pk_serial k = serial) (pl_pending p)")
    case None
    then show ?thesis using assms by (simp add: Revocation_answer revocation_answer_def justified_mono)
  next
    case (Some k)
    then have k: "k \<in> set (pl_pending p)" "pk_connection k = conn" "pk_serial k = serial" by (auto dest: find_Some_mem)
    then obtain peer where peer: "Device_connection conn (Some (pk_sessionId k)) peer \<in> set is"
      "pk_deviceId k = or_else (device_id_from_socket peer) ''unknown''" "cert_serial_from_socket peer = Some serial"
      using assms(2) by (auto simp: check_justified_def)
    have "device_admitted checks (is @ [Revocation_answer conn serial (Some False)])
        \<lparr>ps_sessionId = pk_sessionId k, ps_deviceId = pk_deviceId k, ps_connection = conn\<rparr>"
      using peer by (auto simp: device_admitted_def)
    moreover have "\<forall>k'\<in>set (remove1 k (pl_pending p)). check_justified (is @ [i]) k'"
      using assms(2) justified_mono(2) by (meson notin_set_remove1)
    ultimately show ?thesis
      using assms Some by (auto simp: Revocation_answer revocation_answer_def justified_mono Let_def split: option.split bool.split)
  qed
qed (use assms in \<open>auto simp: session_closed_def client_connection_def stream_data_def stream_ended_def client_message_def
    client_gone_def forward_gone_def forward_data_frame plane_close_def Let_def split_def justified_mono split: option.split\<close>)

lemma run_admitted:
  "(\<forall>s\<in>set (pl_objects (plane_run checks is)). device_admitted checks is s)
   \<and> (\<forall>k\<in>set (pl_pending (plane_run checks is)). check_justified is k)"
proof (induction "is" rule: rev_induct)
  case Nil
  show ?case by (simp add: plane_run_def new_plane_def)
next
  case (snoc i "is")
  then show ?case using step_admitted[of "plane_run checks is" checks "is" i] by (simp add: plane_run_snoc)
qed

lemma served_step:
  assumes "client_served is p c st"
  shows "client_served (is @ [i]) (plane_step checks i p) c st"
proof -
  obtain xs ks where "pl_objects (plane_step checks i p) = pl_objects p @ xs" "pl_streams (plane_step checks i p) = pl_streams p @ ks"
    using step_objects by blast
  with assms show ?thesis by (auto simp: client_served_def nth_append)
qed

lemma run_served:
  "map_get (pl_clients (plane_run checks is)) c = Some st \<Longrightarrow> client_served is (plane_run checks is) c st"
proof (induction "is" rule: rev_induct)
  case Nil
  then show ?case by (simp add: plane_run_def new_plane_def)
next
  case (snoc i "is")
  let ?p = "plane_run checks is"
  have ok: "plane_ok ?p" by (rule plane_run_ok)
  have "map_get (pl_clients ?p) c = Some st \<or> (\<exists>sid meta. i = Client_connection c (Some sid) meta
      \<and> map_get (pl_sessions ?p) sid \<noteq> None \<and> st = length (pl_streams ?p))"
    using snoc.prems
    by (cases i) (auto simp: plane_run_snoc device_connection_def revocation_answer_def session_closed_def client_connection_def
        stream_data_def stream_ended_def client_message_def client_gone_def forward_gone_def forward_data_frame plane_close_def
        Let_def split_def bind_eq_Some_conv split: option.splits bool.splits if_splits)
  then show ?case
  proof
    assume "map_get (pl_clients ?p) c = Some st"
    with snoc.IH served_step show ?thesis by (simp add: plane_run_snoc)
  next
    assume "\<exists>sid meta. i = Client_connection c (Some sid) meta \<and> map_get (pl_sessions ?p) sid \<noteq> None \<and> st = length (pl_streams ?p)"
    then obtain sid meta k where i: "i = Client_connection c (Some sid) meta" "map_get (pl_sessions ?p) sid = Some k"
      "st = length (pl_streams ?p)" by blast
    with plane_okD(1)[OF ok i(2)] show ?thesis
      by (auto simp: plane_run_snoc client_served_def client_connection_def Let_def split_def)
  qed
qed

section \<open>Forwarded bytes\<close>

text \<open>What a forwarded connection received since it was accepted, and what a stream was written.\<close>

definition receive :: "nat \<Rightarrow> plane_input \<Rightarrow> bytes option \<Rightarrow> bytes option" where
  "receive q i got =
     (case i of
        Forward_connection q' \<Rightarrow> if q' = q then Some [] else got
      | Forward_data q' chunk \<Rightarrow> if q' = q then map_option (\<lambda>b. b @ chunk) got else got
      | _ \<Rightarrow> got)"

definition received :: "nat \<Rightarrow> plane_input list \<Rightarrow> bytes option" where
  "received q is = fold (receive q) is None"

fun written_by :: "nat \<Rightarrow> plane_effect \<Rightarrow> bytes" where
  "written_by st (Stream_written st' d) = (if st' = st then d else [])"
| "written_by st _ = []"

definition written :: "nat \<Rightarrow> plane \<Rightarrow> bytes" where
  "written st p = concat (map (written_by st) (pl_effects p))"

definition forward_exact :: "nat \<Rightarrow> bytes option \<Rightarrow> plane \<Rightarrow> forward_socket \<Rightarrow> bool" where
  "forward_exact q got p f \<longleftrightarrow> (\<exists>b. got = Some b \<and>
     (case fw_stream f of
        Some st \<Rightarrow> written st p = b
      | None \<Rightarrow> fw_head f = b \<and>
          (if index_of_bytes head_end b = None then length b \<le> MAX_HEAD_BYTES else Forward_refused q \<in> set (pl_effects p))))"

lemma written_simps [simp]:
  "written st (emit es p) = written st p @ concat (map (written_by st) es)" "written st (set_forward q f p) = written st p"
  "written st (snd (open_on k meta p)) = written st p"
  by (simp_all add: written_def)

lemma written_none: "(\<And>d. Stream_written st d \<notin> set es) \<Longrightarrow> concat (map (written_by st) es) = []"
proof (induction es)
  case (Cons e es)
  then have "written_by st e = []" by (cases e) auto
  with Cons show ?case by simp
qed simp

lemma written_fresh: "plane_ok p \<Longrightarrow> written (length (pl_streams p)) p = []"
  unfolding written_def by (rule written_none) (use plane_okD(7) in blast)

lemma plane_close_simps [simp]:
  "written st (plane_close p) = written st p" "pl_forwards (plane_close p) = pl_forwards p"
  by (auto simp: plane_close_def written_def)

lemma forward_exact_step:
  assumes ok: "plane_ok p"
    and IH: "\<And>f. map_get (pl_forwards p) q = Some f \<Longrightarrow> fw_open f \<Longrightarrow> forward_exact q got p f"
    and now: "map_get (pl_forwards (plane_step checks i p)) q = Some f" "fw_open f"
  shows "forward_exact q (receive q i got) (plane_step checks i p) f"
proof (cases i)
  case (Forward_data q' chunk)
  note i = Forward_data
  show ?thesis
    using now unfolding i plane_step.simps
  proof (cases rule: forward_data_cases[of q' chunk p])
    case same
    then show "forward_exact q (receive q (Forward_data q' chunk) got) (forward_data q' chunk p) f"
      using now IH[of f] plane_okD(8)[OF ok] by (auto simp: i receive_def)
  next
    case (piped g st)
    show "forward_exact q (receive q (Forward_data q' chunk) got) (forward_data q' chunk p) f"
    proof (cases "q' = q")
      case True
      with piped now IH[of g] show ?thesis by (auto simp: i receive_def forward_exact_def)
    next
      case False
      have "fw_stream f \<noteq> Some st" if "map_get (pl_forwards p) q = Some f"
        using that piped(1,4) False plane_okD(5)[OF ok] map_get_forward by metis
      with False piped now IH[of f] show ?thesis
        by (auto simp: i receive_def forward_exact_def split: option.splits)
    qed
  next
    case (head g es b)
    show "forward_exact q (receive q (Forward_data q' chunk) got) (forward_data q' chunk p) f"
    proof (cases "q' = q")
      case True
      have "fw_stream g = None" using plane_okD(8)[OF ok head(1)] head(3) by simp
      with True head now IH[of g] show ?thesis by (auto simp: i receive_def forward_exact_def)
    next
      case False
      with head now IH[of f] show ?thesis
        by (auto simp: i receive_def forward_exact_def written_none split: option.splits)
    qed
  next
    case (tunnel g k)
    show "forward_exact q (receive q (Forward_data q' chunk) got) (forward_data q' chunk p) f"
    proof (cases "q' = q")
      case True
      have "fw_stream g = None" using plane_okD(8)[OF ok tunnel(1)] tunnel(3) by simp
      with True tunnel now IH[of g] written_fresh[OF ok] show ?thesis
        by (auto simp: i receive_def forward_exact_def)
    next
      case False
      have "fw_stream f \<noteq> Some (length (pl_streams p))" if "map_get (pl_forwards p) q = Some f"
        using that plane_okD(3)[OF ok] map_get_forward by (metis less_irrefl)
      with False tunnel now IH[of f] show ?thesis
        by (auto simp: i receive_def forward_exact_def split: option.splits)
    qed
  qed
next
  case (Forward_connection q')
  then show ?thesis
    using now IH[of f] by (auto simp: receive_def forward_exact_def new_forward_def head_end_def split: if_splits option.splits)
next
  case (Client_message c data isBinary)
  have "fw_stream f \<noteq> Some st" if "map_get (pl_clients p) c = Some st" "map_get (pl_forwards p) q = Some f" for st
    using that plane_okD(6)[OF ok] map_get_forward by metis
  then show ?thesis
    using now IH[of f] by (auto simp: Client_message client_message_def receive_def forward_exact_def split: option.splits if_splits)
next
  case (Plane_close)
  have "pl_effects p = es \<Longrightarrow> set es \<subseteq> set (pl_effects (plane_close p))" for es by (auto simp: plane_close_def)
  then have "Forward_refused q \<in> set (pl_effects p) \<Longrightarrow> Forward_refused q \<in> set (pl_effects (plane_close p))" by blast
  then show ?thesis using now IH[of f] by (auto simp: Plane_close receive_def forward_exact_def split: option.splits if_splits)
qed (use now IH[of f] in \<open>auto simp: receive_def device_connection_def revocation_answer_def register_device_stream_def
    session_closed_def client_connection_def stream_data_def stream_ended_def client_gone_def forward_gone_def forward_exact_def
    written_def open_on_def Let_def split_def split: option.splits bool.splits if_splits\<close>)

lemma run_forward_exact:
  "map_get (pl_forwards (plane_run checks is)) q = Some f \<Longrightarrow> fw_open f \<Longrightarrow> forward_exact q (received q is) (plane_run checks is) f"
proof (induction "is" arbitrary: f rule: rev_induct)
  case Nil
  then show ?case by (simp add: plane_run_def new_plane_def)
next
  case (snoc i "is")
  have "received q (is @ [i]) = receive q i (received q is)" by (simp add: received_def)
  then show ?case
    using forward_exact_step[OF plane_run_ok snoc.IH] snoc.prems by (simp add: plane_run_snoc)
qed

section \<open>Properties\<close>

text \<open>C26: Whatever devices, browsers and proxies do and in whatever order, a session belongs to a
  device connection that asked for its id, under the device name of that connection's
  certificate; if the plane was started with a revocation check and the certificate has a
  serial number, the check of that very serial, asked for that connection, had answered that it
  is not revoked. The stream of a browser runs on a session registered under the id the browser
  asked for; and no stream has two users. Without a check, or without a serial number, devices
  are admitted unchecked.\<close>

theorem plane_isolation:
  fixes checks :: bool and inputs :: "plane_input list"
  defines "p \<equiv> plane_run checks inputs"
  shows "(\<forall>s\<in>set (pl_objects p). device_admitted checks inputs s)
    \<and> (\<forall>sid k. map_get (pl_sessions p) sid = Some k \<longrightarrow> k < length (pl_objects p) \<and> ps_sessionId (pl_objects p ! k) = sid)
    \<and> (\<forall>c st. map_get (pl_clients p) c = Some st \<longrightarrow> client_served inputs p c st
         \<and> (\<forall>c'. map_get (pl_clients p) c' = Some st \<longrightarrow> c' = c) \<and> (\<forall>q. forward_stream q p \<noteq> Some st))
    \<and> (\<forall>q q' st. forward_stream q p = Some st \<and> forward_stream q' p = Some st \<longrightarrow> q = q')"
proof (intro conjI allI impI ballI)
  have ok: "plane_ok p" unfolding p_def by (rule plane_run_ok)
  show "device_admitted checks inputs s" if "s \<in> set (pl_objects p)" for s
    using that run_admitted[of checks inputs] by (simp add: p_def)
  show "k < length (pl_objects p)" "ps_sessionId (pl_objects p ! k) = sid" if "map_get (pl_sessions p) sid = Some k" for sid k
    using plane_okD(1)[OF ok that] by simp_all
  fix c st
  assume c: "map_get (pl_clients p) c = Some st"
  show "client_served inputs p c st" using c unfolding p_def by (rule run_served)
  show "c' = c" if "map_get (pl_clients p) c' = Some st" for c' using that c by (rule plane_okD(4)[OF ok])
  show "forward_stream q p \<noteq> Some st" for q using c by (rule plane_okD(6)[OF ok])
next
  fix q q' st
  assume "forward_stream q p = Some st \<and> forward_stream q' p = Some st"
  then show "q = q'" using plane_okD(5)[OF plane_run_ok] unfolding p_def by blast
qed

text \<open>C37: The port-forward proxy loses, repeats and reorders nothing. While a forwarded connection
  is open and has no stream, all that was received is held back: no more than the bound on a
  head as long as the head is incomplete, and without a bound once the connection was
  refused. As soon as it has a stream, every byte received so far, head included, was handed to
  \<open>write\<close> of that stream, in order, and nothing else was.\<close>

theorem port_forward_exact:
  assumes "map_get (pl_forwards (plane_run checks inputs)) q = Some f" "fw_open f"
  shows "\<exists>b. received q inputs = Some b
    \<and> (case fw_stream f of
         Some st \<Rightarrow> written st (plane_run checks inputs) = b
       | None \<Rightarrow> fw_head f = b \<and>
           (if index_of_bytes head_end b = None then length b \<le> MAX_HEAD_BYTES
            else Forward_refused q \<in> set (pl_effects (plane_run checks inputs))))"
  using run_forward_exact[OF assms] by (simp add: forward_exact_def)

definition demo_plane_inputs :: "plane_input list" where
  "demo_plane_inputs = [Device_connection 0 (Some ''s'') demo_peer, Revocation_answer 0 ''1F'' (Some False),
     Client_connection 7 (Some ''s'') None, Forward_connection 3,
     Forward_data 3 [72, 111, 115, 116, 58, 83, 46, 112], Forward_data 3 [13, 10, 13, 10], Forward_data 3 [1, 2]]"

lemma demo_plane:
  "map_get (pl_clients (plane_run True demo_plane_inputs)) 7 = Some 0 \<and>
   (case map_get (pl_forwards (plane_run True demo_plane_inputs)) 3 of None \<Rightarrow> False | Some f \<Rightarrow> fw_open f \<and> fw_stream f = Some 1)"
  by code_simp

theorem plane_isolation_witness:
  "client_served demo_plane_inputs (plane_run True demo_plane_inputs) 7 0 \<and> pl_objects (plane_run True demo_plane_inputs) \<noteq> []
   \<and> device_admitted True demo_plane_inputs (hd (pl_objects (plane_run True demo_plane_inputs)))"
proof -
  note isolated = plane_isolation[of True demo_plane_inputs]
  have "client_served demo_plane_inputs (plane_run True demo_plane_inputs) 7 0 \<and> pl_objects (plane_run True demo_plane_inputs) \<noteq> []"
    using isolated demo_plane by (auto simp: client_served_def)
  then show ?thesis using isolated hd_in_set by blast
qed

theorem port_forward_exact_witness:
  "written 1 (plane_run True demo_plane_inputs) = [72, 111, 115, 116, 58, 83, 46, 112, 13, 10, 13, 10, 1, 2]"
proof -
  obtain f where f: "map_get (pl_forwards (plane_run True demo_plane_inputs)) 3 = Some f" "fw_open f" "fw_stream f = Some 1"
    using demo_plane by (auto split: option.splits)
  have "received 3 demo_plane_inputs = Some [72, 111, 115, 116, 58, 83, 46, 112, 13, 10, 13, 10, 1, 2]"
    by (simp add: received_def demo_plane_inputs_def receive_def)
  with port_forward_exact[OF f(1,2)] f(3) show ?thesis by auto
qed

section \<open>Findings\<close>

text \<open>A registration does not ask who holds the session id: another device takes it over, and the
  browsers that come next are served by it.\<close>

definition intruder :: "peer_certificate option" where
  "intruder = Some \<lparr>pc_commonName = Some ''evil'', pc_serialNumber = Some ''2a''\<rparr>"

lemma session_taken_over:
  "let p = plane_run True [Device_connection 0 (Some ''s'') demo_peer, Revocation_answer 0 ''1F'' (Some False),
        Device_connection 1 (Some ''s'') intruder, Revocation_answer 1 ''2A'' (Some False), Client_connection 7 (Some ''s'') None]
   in ps_deviceId (pl_objects p ! (pl_streams p ! 0)) = ''evil''"
  by code_simp

text \<open>A refused connection is only half closed: it goes on collecting bytes, and a chunk that
  comes after the session appeared still opens a tunnel.\<close>

lemma refused_keeps_buffering:
  "let refused = [Forward_connection 3, Forward_data 3 ([72, 111, 115, 116, 58, 83, 46, 112] @ head_end)] in
   (case map_get (pl_forwards (plane_run True (refused @ [Forward_data 3 [1, 2, 3]]))) 3 of
      None \<Rightarrow> False | Some f \<Rightarrow> fw_open f \<and> fw_stream f = None \<and> length (fw_head f) = 15) \<and>
   (case map_get (pl_forwards (plane_run False (refused @ [Device_connection 0 (Some ''s'') None, Forward_data 3 []]))) 3 of
      None \<Rightarrow> False | Some f \<Rightarrow> fw_stream f = Some 0)"
  by code_simp

text \<open>A certificate without a serial number, which the device API refuses, is not checked here.\<close>

lemma unchecked_without_serial:
  "length (pl_objects (plane_run True [Device_connection 0 (Some ''s'') (Some \<lparr>pc_commonName = Some ''d'', pc_serialNumber = None\<rparr>)])) = 1
   \<and> (case create_mtls_context (Some \<lparr>pc_commonName = Some ''d'', pc_serialNumber = None\<rparr>) db of Inl _ \<Rightarrow> True | Inr _ \<Rightarrow> False)"
  by (simp add: plane_run_def device_connection_def cert_serial_from_socket_def non_blank_def create_mtls_context_def
      device_id_from_socket_def register_device_stream_def new_plane_def split: option.split)

end
