(* ===== verification/Release_Publish.thy ===== *)
theory Release_Publish
  imports Release_Ingest
begin

text \<open>
  Publication moves the head of a channel; and the two properties of ingestion as a whole:
  it keeps the database well formed, and repeating it changes nothing but time stamps.
\<close>

definition same_head :: "release_descriptor \<Rightarrow> channel_head_row \<Rightarrow> bool" where
  "same_head d x \<longleftrightarrow> ch_typeKey x = de_typeKey d \<and> ch_name x = de_name d \<and> ch_channel x = de_channel d"

lemma same_head_key: "same_head d x \<longleftrightarrow> head_key x = (de_typeKey d, de_name d, de_channel d)"
  by (simp add: same_head_def head_key_def)

definition mark_ready :: "nat \<Rightarrow> string \<Rightarrow> release_row \<Rightarrow> release_row" where
  "mark_ready now rid r = (if re_id r = rid then r\<lparr>re_status := ''ready'', re_publishedAt := Some now\<rparr> else r)"

definition move_head :: "nat \<Rightarrow> string \<Rightarrow> string \<Rightarrow> channel_head_row \<Rightarrow> channel_head_row" where
  "move_head now rid i x = (if ch_id x = i then x\<lparr>ch_releaseId := rid, ch_updatedAt := now\<rparr> else x)"

definition new_head :: "string \<Rightarrow> nat \<Rightarrow> release_descriptor \<Rightarrow> string \<Rightarrow> channel_head_row" where
  "new_head i now d rid = \<lparr>ch_id = i, ch_typeKey = de_typeKey d, ch_name = de_name d, ch_channel = de_channel d,
     ch_releaseId = rid, ch_updatedAt = now\<rparr>"

lemma publish_release_cases:
  obtains (created) "find (same_head d) (rd_heads db) = None"
      "publish_release h now d rid db = db\<lparr>rd_releases := map (mark_ready now rid) (rd_releases db),
         rd_draws := Suc (rd_draws db), rd_heads := rd_heads db @ [new_head (prefixed_id h ''head'' (rd_draws db)) now d rid]\<rparr>"
  | (moved) x where "find (same_head d) (rd_heads db) = Some x"
      "publish_release h now d rid db = db\<lparr>rd_releases := map (mark_ready now rid) (rd_releases db),
         rd_heads := map (move_head now rid (ch_id x)) (rd_heads db)\<rparr>"
proof -
  have f: "find (\<lambda>x. ch_typeKey x = de_typeKey d \<and> ch_name x = de_name d \<and> ch_channel x = de_channel d) =
      find (same_head d)" by (simp add: same_head_def[abs_def])
  show thesis
  proof (cases "find (same_head d) (rd_heads db)")
    case None
    show thesis
      by (rule created[OF None]) (simp add: publish_release_def Let_def f None draw_id_simps new_head_def mark_ready_def[abs_def])
  next
    case (Some x)
    show thesis by (rule moved[OF Some]) (simp add: publish_release_def Let_def f Some mark_ready_def[abs_def] move_head_def[abs_def])
  qed
qed

lemma mark_ready_simps [simp]:
  "re_id (mark_ready now rid r) = re_id r" "release_key (mark_ready now rid r) = release_key r"
  "release_identity (mark_ready now rid r) = release_identity r"
  by (simp_all add: mark_ready_def release_key_def release_identity_def)

lemma move_head_simps [simp]:
  "ch_id (move_head now rid i x) = ch_id x" "head_key (move_head now rid i x) = head_key x"
  "same_head d (move_head now rid i x) = same_head d x" "head_identity (move_head now rid i x) = head_identity x"
  by (simp_all add: move_head_def head_key_def same_head_def head_identity_def)

lemma move_head_release:
  "rid \<in> A \<Longrightarrow> ch_releaseId x \<in> A \<Longrightarrow> ch_releaseId (move_head now rid i x) \<in> A"
  by (simp add: move_head_def)

lemma find_map_same: "(\<And>x. P (f x) = P x) \<Longrightarrow> find P (map f xs) = map_option f (find P xs)"
  by (induction xs) auto

lemma same_new_head: "same_head d (new_head i now d rid)" "ch_releaseId (new_head i now d rid) = rid"
    "ch_id (new_head i now d rid) = i"
  by (simp_all add: same_head_def new_head_def)

lemma publish_release_extends: "extends db (publish_release h now d rid db)"
  by (rule publish_release_cases[of d db h now rid]) (simp_all add: extends_def comp_def)

lemma publish_release_frame:
  "rd_artifacts (publish_release h now d rid db) = rd_artifacts db"
  "rd_variants (publish_release h now d rid db) = rd_variants db"
  "rd_links (publish_release h now d rid db) = rd_links db"
  "rd_releases (publish_release h now d rid db) = map (mark_ready now rid) (rd_releases db)"
  by (rule publish_release_cases[of d db h now rid]; simp)+

lemma publish_release_ok:
  assumes inj: "inj (rh_random h)" and ok: "db_ok h db" and rel: "rid \<in> re_id ` set (rd_releases db)"
  shows "db_ok h (publish_release h now d rid db)"
proof (cases rule: publish_release_cases[of d db h now rid])
  case created
  note d = db_okD[OF ok]
  let ?x = "new_head (prefixed_id h ''head'' (rd_draws db)) now d rid"
  have "head_key ?x \<notin> head_key ` set (rd_heads db)"
    using find_None_neq[OF created(1)] by (force simp: same_head_key new_head_def head_key_def)
  then have "table_ok h ''head'' (Suc (rd_draws db)) ch_id head_key (rd_heads db @ [?x])"
    using table_step(1)[OF inj d(5)] by (simp add: new_head_def)
  moreover have "table_ok h ''rel'' (Suc (rd_draws db)) re_id release_key (map (mark_ready now rid) (rd_releases db))"
    using table_ok_map[OF table_step(2)[OF d(2)]] by simp
  moreover have "references_ok (publish_release h now d rid db)"
    using d(6-9) rel created unfolding references_ok_def by (simp add: image_image new_head_def)
  ultimately show ?thesis
    using d(1,3,4)[THEN table_step(2)] created(2) by (simp add: db_ok_def tables_ok_def)
next
  case (moved x)
  note d = db_okD[OF ok]
  have "table_ok h ''rel'' (rd_draws db) re_id release_key (map (mark_ready now rid) (rd_releases db))"
    using table_ok_map[OF d(2)] by simp
  moreover have "table_ok h ''head'' (rd_draws db) ch_id head_key (map (move_head now rid (ch_id x)) (rd_heads db))"
    using table_ok_map[OF d(5)] by simp
  moreover have "references_ok (publish_release h now d rid db)"
    using d(6-9) rel moved unfolding references_ok_def by (simp add: image_image move_head_release)
  ultimately show ?thesis
    using d(1,3,4) moved(2) by (simp add: db_ok_def tables_ok_def)
qed

lemma publish_release_head:
  "find (same_head d) (rd_heads (publish_release h now d rid db)) =
     (case find (same_head d) (rd_heads db) of
        None \<Rightarrow> Some (new_head (prefixed_id h ''head'' (rd_draws db)) now d rid)
      | Some x \<Rightarrow> Some (x\<lparr>ch_releaseId := rid, ch_updatedAt := now\<rparr>))"
proof (cases rule: publish_release_cases[of d db h now rid])
  case created
  then show ?thesis using find_snoc[OF created(1) same_new_head(1)] by simp
next
  case (moved x)
  then have "find (same_head d) (map (move_head now rid (ch_id x)) (rd_heads db)) = Some (move_head now rid (ch_id x) x)"
    by (subst find_map_same) simp_all
  then show ?thesis using moved by (simp add: move_head_def)
qed

section \<open>Time stamps aside\<close>

definition timeless :: "releases_db \<Rightarrow> releases_db" where
  "timeless db = db\<lparr>rd_releases := map (\<lambda>r. r\<lparr>re_publishedAt := None\<rparr>) (rd_releases db),
     rd_heads := map (\<lambda>x. x\<lparr>ch_updatedAt := 0\<rparr>) (rd_heads db)\<rparr>"

lemma publish_release_twice:
  assumes inj: "inj (rh_random h)" and ok: "db_ok h db"
  shows "timeless (publish_release h now' d rid (publish_release h now d rid db)) =
    timeless (publish_release h now d rid db)"
proof -
  let ?db1 = "publish_release h now d rid db"
  obtain x where x: "find (same_head d) (rd_heads ?db1) = Some x"
    using publish_release_head[of d h now rid db] by (cases "find (same_head d) (rd_heads db)") auto
  have set: "\<forall>y \<in> set (rd_heads ?db1). ch_id y = ch_id x \<longrightarrow> ch_releaseId y = rid"
  proof (cases rule: publish_release_cases[of d db h now rid])
    case created
    then have "ch_id x = prefixed_id h ''head'' (rd_draws db)"
      using x publish_release_head[of d h now rid db] by (auto simp: same_new_head)
    then show ?thesis
      using created(2) table_ok_fresh[OF inj db_okD(5)[OF ok]] by (auto simp: same_new_head)
  next
    case (moved y)
    then have "ch_id x = ch_id y" using x publish_release_head[of d h now rid db] by auto
    then show ?thesis using moved(2) by (auto simp: move_head_def)
  qed
  have ready: "\<forall>r \<in> set (rd_releases ?db1). re_id r = rid \<longrightarrow> re_status r = ''ready''"
    unfolding publish_release_frame set_map ball_simps by (simp add: mark_ready_def)
  show ?thesis
  proof (cases rule: publish_release_cases[of d ?db1 h now' rid])
    case (moved y)
    with x have "y = x" by simp
    with moved set ready show ?thesis by (simp add: timeless_def mark_ready_def move_head_def)
  qed (use x in simp)
qed

section \<open>Ingestion as a whole\<close>

lemma ingest_release_Inr:
  "ingest_release h now d c db = Inr (r, db') \<longleftrightarrow>
   (\<exists>ty a rid db1 vids db2. find (\<lambda>t. ty_key t = de_typeKey d) (rd_types db) = Some ty \<and>
     get_adapter h (ty_adapterKey ty) = Inr a \<and> upsert_release h now d c db = (rid, db1) \<and>
     ingest_variants h now a d c rid (de_variants d) db1 = Inr (vids, db2) \<and>
     r = \<lparr>ir_releaseId = rid, ir_variantIds = vids\<rparr> \<and>
     db' = (if de_publish d then publish_release h now d rid db2 else db2))"
proof (cases "find (\<lambda>t. ty_key t = de_typeKey d) (rd_types db)")
  case (Some ty)
  obtain rid db1 where up: "upsert_release h now d c db = (rid, db1)" by fastforce
  show ?thesis
    unfolding ingest_release_def Some option.case bind_sum_Inr up Let_def prod.case split_paired_Ex
    by (cases "de_publish d") auto
qed (simp add: ingest_release_def)

lemma upsert_release_extends: "upsert_release h now d c db = (i, db') \<Longrightarrow> extends db db'"
  by (erule upsert_release_cases) (simp_all add: extends_def)

lemma ingest_release_extends: "ingest_release h now d c db = Inr (r, db') \<Longrightarrow> extends db db'"
proof -
  assume "ingest_release h now d c db = Inr (r, db')"
  then obtain a rid db1 vids db2 where "upsert_release h now d c db = (rid, db1)"
      "ingest_variants h now a d c rid (de_variants d) db1 = Inr (vids, db2)"
      "db' = (if de_publish d then publish_release h now d rid db2 else db2)"
    unfolding ingest_release_Inr by blast
  then have "extends db db1" "extends db1 db2" "extends db2 db'"
    using upsert_release_extends ingest_variants_extends publish_release_extends by (simp, blast, simp)
  then show ?thesis using extends_trans by blast
qed

text \<open>Everything a successful ingestion goes through, for the proofs below.\<close>

lemma ingest_release_run:
  assumes inj: "inj (rh_random h)" and ok: "db_ok h db" and run: "ingest_release h now d c db = Inr (r, db')"
  obtains ty a rid db1 vids db2 where
    "find (\<lambda>t. ty_key t = de_typeKey d) (rd_types db) = Some ty" "get_adapter h (ty_adapterKey ty) = Inr a"
    "upsert_release h now d c db = (rid, db1)" "ingest_variants h now a d c rid (de_variants d) db1 = Inr (vids, db2)"
    "r = \<lparr>ir_releaseId = rid, ir_variantIds = vids\<rparr>"
    "db' = (if de_publish d then publish_release h now d rid db2 else db2)"
    "extends db db1" "extends db1 db2" "extends db2 db'" "db_ok h db2" "rid \<in> re_id ` set (rd_releases db2)"
    "\<exists>x \<in> set (rd_releases db1). re_id x = rid \<and> same_release d x"
    "list_all2 (variant_stored h a db2 rid) (de_variants d) vids"
proof -
  obtain ty a rid db1 vids db2 where g:
    "find (\<lambda>t. ty_key t = de_typeKey d) (rd_types db) = Some ty" "get_adapter h (ty_adapterKey ty) = Inr a"
    and up: "upsert_release h now d c db = (rid, db1)"
    and vs: "ingest_variants h now a d c rid (de_variants d) db1 = Inr (vids, db2)"
    and r: "r = \<lparr>ir_releaseId = rid, ir_variantIds = vids\<rparr>"
      "db' = (if de_publish d then publish_release h now d rid db2 else db2)"
    using run unfolding ingest_release_Inr by blast
  note u = upsert_release_ok[OF inj ok up]
  then have rel: "rid \<in> re_id ` set (rd_releases db1)" by blast
  note v = ingest_variants_ok[OF inj _ rel vs]
  then have "rid \<in> re_id ` set (rd_releases db2)" using u rel extends_ids(5) by blast
  moreover have "extends db2 db'" using r(2) publish_release_extends by simp
  ultimately show thesis using that[OF g up vs r] u v by blast
qed

lemma ingest_release_ok:
  assumes "inj (rh_random h)" "db_ok h db" "ingest_release h now d c db = Inr (r, db')"
  shows "extends db db' \<and> db_ok h db'"
  using assms
proof (cases rule: ingest_release_run)
  case (1 ty a rid db1 vids db2)
  then have "extends db db'" using extends_trans by blast
  moreover have "db_ok h db'" using 1(6,10,11) publish_release_ok[OF assms(1)] by simp
  ultimately show ?thesis by simp
qed

lemma release_identity_mem:
  assumes "extends db db'" "x \<in> set (rd_releases db)" "same_release d x"
  shows "\<exists>y \<in> set (rd_releases db'). re_id y = re_id x \<and> same_release d y"
proof -
  obtain y where "y \<in> set (rd_releases db')" "release_identity y = release_identity x"
    using extends_ids(4)[OF assms(1)] assms(2) by force
  then show ?thesis using assms(3) by (auto simp: release_identity_def same_release_key)
qed

text \<open>What publication does to the rows that were there.\<close>

lemma publish_release_rows:
  "x \<in> set (rd_releases db) \<Longrightarrow> mark_ready now rid x \<in> set (rd_releases (publish_release h now d rid db))"
  by (simp add: publish_release_frame)

lemma publish_head_rows:
  assumes ok: "db_ok h db" and x: "x \<in> set (rd_heads db)"
  shows "x \<in> set (rd_heads (publish_release h now d rid db)) \<or>
     same_head d x \<and> x\<lparr>ch_releaseId := rid, ch_updatedAt := now\<rparr> \<in> set (rd_heads (publish_release h now d rid db))"
proof (cases rule: publish_release_cases[of d db h now rid])
  case (moved y)
  have y: "y \<in> set (rd_heads db)" "same_head d y" using find_Some_mem[OF moved(1)] by simp_all
  have "distinct (map ch_id (rd_heads db))" using db_okD(5)[OF ok] by (simp add: table_ok_def)
  with x y(1) have eq: "ch_id x = ch_id y \<Longrightarrow> x = y" by (simp add: distinct_map inj_on_def)
  have "move_head now rid (ch_id y) x \<in> set (rd_heads (publish_release h now d rid db))" using x by (simp add: moved(2))
  with eq y(2) show ?thesis by (cases "ch_id x = ch_id y") (simp_all add: move_head_def)
qed (use x in simp)

lemma upsert_release_rows:
  "upsert_release h now d c db = (i, db') \<Longrightarrow> set (rd_releases db) \<subseteq> set (rd_releases db') \<and> rd_heads db' = rd_heads db"
  by (erule upsert_release_cases) auto

lemma ingest_rows:
  assumes "inj (rh_random h)" "db_ok h db" "ingest_release h now d c db = Inr (r, db')"
  shows "(\<forall>x \<in> set (rd_releases db). x \<in> set (rd_releases db') \<or> de_publish d \<and> re_id x = ir_releaseId r \<and>
       x\<lparr>re_status := ''ready'', re_publishedAt := Some now\<rparr> \<in> set (rd_releases db')) \<and>
    (\<forall>x \<in> set (rd_heads db). x \<in> set (rd_heads db') \<or> de_publish d \<and> same_head d x \<and>
       x\<lparr>ch_releaseId := ir_releaseId r, ch_updatedAt := now\<rparr> \<in> set (rd_heads db'))"
  using assms
proof (cases rule: ingest_release_run)
  case (1 ty a rid db1 vids db2)
  have rows: "set (rd_releases db) \<subseteq> set (rd_releases db2)" "rd_heads db2 = rd_heads db"
    using upsert_release_rows[OF 1(3)] ingest_variants_frame[OF 1(4)] by auto
  show ?thesis
  proof (cases "de_publish d")
    case True
    then have db': "db' = publish_release h now d rid db2" using 1(6) by simp
    note p = publish_release_rows[of _ db2 now rid h d, folded db'] publish_head_rows[OF 1(10), of _ now d rid, folded db']
    have "x \<in> set (rd_releases db') \<or> re_id x = rid \<and> x\<lparr>re_status := ''ready'', re_publishedAt := Some now\<rparr> \<in> set (rd_releases db')"
      if "x \<in> set (rd_releases db)" for x
      using p(1)[of x] that rows(1) by (auto simp: mark_ready_def split: if_splits)
    with p(2) rows(2) True 1(5) show ?thesis by simp
  qed (use rows 1(6) in auto)
qed

text \<open>The facts about one ingestion that the properties rest on.\<close>

lemma ingest_keeps_lemma:
  assumes "inj (rh_random h)" "db_ok h db" "ingest_release h now d c db = Inr (r, db')"
  shows "db_ok h db' \<and> extends db db' \<and>
    (\<exists>x \<in> set (rd_releases db'). re_id x = ir_releaseId r \<and> same_release d x) \<and>
    (\<exists>ty a. find (\<lambda>t. ty_key t = de_typeKey d) (rd_types db) = Some ty \<and> get_adapter h (ty_adapterKey ty) = Inr a \<and>
       list_all2 (variant_stored h a db' (ir_releaseId r)) (de_variants d) (ir_variantIds r)) \<and>
    (de_publish d \<longrightarrow> (\<exists>x. find (same_head d) (rd_heads db') = Some x \<and> ch_releaseId x = ir_releaseId r) \<and>
       (\<forall>x \<in> set (rd_releases db'). re_id x = ir_releaseId r \<longrightarrow> re_status x = ''ready''))"
  using assms
proof (cases rule: ingest_release_run)
  case (1 ty a rid db1 vids db2)
  have ok: "db_ok h db'" "extends db db'" using ingest_release_ok[OF assms] by simp_all
  have "extends db1 db'" using 1(8,9) by (rule extends_trans)
  then have rel: "\<exists>x \<in> set (rd_releases db'). re_id x = rid \<and> same_release d x"
    using 1(12) release_identity_mem by metis
  have vars: "list_all2 (variant_stored h a db' rid) (de_variants d) vids"
    using 1(13) by (rule list_all2_mono) (rule variant_stored_extends[OF _ 1(9)])
  have "(\<exists>x. find (same_head d) (rd_heads db') = Some x \<and> ch_releaseId x = rid) \<and>
      (\<forall>x \<in> set (rd_releases db'). re_id x = rid \<longrightarrow> re_status x = ''ready'')" if "de_publish d"
  proof
    have db': "db' = publish_release h now d rid db2" using 1(6) that by simp
    show "\<exists>x. find (same_head d) (rd_heads db') = Some x \<and> ch_releaseId x = rid"
      unfolding db' publish_release_head by (cases "find (same_head d) (rd_heads db2)") (simp_all add: same_new_head)
    show "\<forall>x \<in> set (rd_releases db'). re_id x = rid \<longrightarrow> re_status x = ''ready''"
      unfolding db' publish_release_frame set_map ball_simps by (simp add: mark_ready_def)
  qed
  then show ?thesis using ok rel vars 1(1,2,5) by auto
qed

text \<open>Stored variants of one release share a row exactly if their selectors have one hash.\<close>

lemma variant_rows_distinct:
  assumes "db_ok h db" "variant_stored h a db rid iv v" "variant_stored h a db rid jv w"
  shows "v = w \<longleftrightarrow> variant_hash h a iv = variant_hash h a jv"
proof -
  obtain x y where x: "x \<in> set (rd_variants db)" "va_id x = v" "variant_key x = (rid, variant_hash h a iv)"
    and y: "y \<in> set (rd_variants db)" "va_id y = w" "variant_key y = (rid, variant_hash h a jv)"
    using assms(2,3) by (auto simp: variant_stored_def variant_key_def)
  have "distinct (map va_id (rd_variants db))" "distinct (map variant_key (rd_variants db))"
    using db_okD(3)[OF assms(1)] by (simp_all add: table_ok_def)
  then have "inj_on va_id (set (rd_variants db))" "inj_on variant_key (set (rd_variants db))"
    by (simp_all only: distinct_map)
  with x(1) y(1) have "va_id x = va_id y \<longleftrightarrow> x = y" "variant_key x = variant_key y \<longleftrightarrow> x = y"
    by (simp_all only: inj_on_eq_iff)
  then have "va_id x = va_id y \<longleftrightarrow> variant_key x = variant_key y" by simp
  then show ?thesis unfolding x(2,3) y(2,3) by simp
qed

text \<open>C25: Ingestion keeps the release tables in order: identifiers stay distinct, no two rows
  ever share a natural key, so no insert can run into a unique index, blobs are stored
  under the key of their digest, and every reference finds its row. Nothing that was there is
  lost: rows are only added, but for the publication of this very release, which marks it
  ready and moves the head of its own channel. The release it returns has the descriptor's type,
  name and version; each variant of the descriptor has a row of it under the hash of the
  variant's own canonical selector, two variants the same one exactly if these hashes agree,
  with an artifact linked under each role; and a published release is ready and heads its channel.\<close>

theorem ingest_keeps_tables:
  assumes "inj (rh_random h)" "db_ok h db" "ingest_release h now d c db = Inr (r, db')"
  shows "db_ok h db' \<and> extends db db' \<and>
    (\<forall>x \<in> set (rd_releases db). x \<in> set (rd_releases db') \<or> de_publish d \<and> re_id x = ir_releaseId r \<and>
       x\<lparr>re_status := ''ready'', re_publishedAt := Some now\<rparr> \<in> set (rd_releases db')) \<and>
    (\<forall>x \<in> set (rd_heads db). x \<in> set (rd_heads db') \<or> de_publish d \<and> same_head d x \<and>
       x\<lparr>ch_releaseId := ir_releaseId r, ch_updatedAt := now\<rparr> \<in> set (rd_heads db')) \<and>
    (\<exists>x \<in> set (rd_releases db'). re_id x = ir_releaseId r \<and> same_release d x) \<and>
    (\<exists>ty a. find (\<lambda>t. ty_key t = de_typeKey d) (rd_types db) = Some ty \<and> get_adapter h (ty_adapterKey ty) = Inr a \<and>
       list_all2 (variant_stored h a db' (ir_releaseId r)) (de_variants d) (ir_variantIds r) \<and>
       (\<forall>i < length (de_variants d). \<forall>j < length (de_variants d). ir_variantIds r ! i = ir_variantIds r ! j \<longleftrightarrow>
          variant_hash h a (de_variants d ! i) = variant_hash h a (de_variants d ! j))) \<and>
    (de_publish d \<longrightarrow> (\<exists>x. find (same_head d) (rd_heads db') = Some x \<and> ch_releaseId x = ir_releaseId r) \<and>
       (\<forall>x \<in> set (rd_releases db'). re_id x = ir_releaseId r \<longrightarrow> re_status x = ''ready''))"
proof -
  note k = ingest_keeps_lemma[OF assms]
  then obtain ty a where a: "find (\<lambda>t. ty_key t = de_typeKey d) (rd_types db) = Some ty" "get_adapter h (ty_adapterKey ty) = Inr a"
    "list_all2 (variant_stored h a db' (ir_releaseId r)) (de_variants d) (ir_variantIds r)" by blast
  have "ir_variantIds r ! i = ir_variantIds r ! j \<longleftrightarrow>
      variant_hash h a (de_variants d ! i) = variant_hash h a (de_variants d ! j)"
    if "i < length (de_variants d)" "j < length (de_variants d)" for i j
    using k variant_rows_distinct list_all2_nthD[OF a(3)] that by blast
  with a have "\<exists>ty a. find (\<lambda>t. ty_key t = de_typeKey d) (rd_types db) = Some ty \<and> get_adapter h (ty_adapterKey ty) = Inr a \<and>
       list_all2 (variant_stored h a db' (ir_releaseId r)) (de_variants d) (ir_variantIds r) \<and>
       (\<forall>i < length (de_variants d). \<forall>j < length (de_variants d). ir_variantIds r ! i = ir_variantIds r ! j \<longleftrightarrow>
          variant_hash h a (de_variants d ! i) = variant_hash h a (de_variants d ! j))" by blast
  from k ingest_rows[OF assms] this show ?thesis by (elim conjE) (intro conjI; assumption)
qed

text \<open>C12: Ingestion is idempotent, whichever way a release comes in: when a descriptor has been
  ingested, ingesting it again at any later time, from CI or from a build, succeeds with
  the same release and variant identifiers, and changes nothing in the database but the time
  stamps of the publication, and not even those for a descriptor that is not to be
  published.\<close>

theorem ingest_idempotent:
  assumes inj: "inj (rh_random h)" and ok: "db_ok h db" and run: "ingest_release h now d c db = Inr (r, db')"
  shows "\<exists>db''. ingest_release h now' d c' db' = Inr (r, db'') \<and> timeless db'' = timeless db' \<and>
    (\<not> de_publish d \<longrightarrow> db'' = db')"
  using inj ok run
proof (cases rule: ingest_release_run)
  case (1 ty a rid db1 vids db2)
  have e1: "extends db1 db'" using 1(8,9) by (rule extends_trans)
  have "rd_types db' = rd_types db" using extends_trans[OF 1(7) e1] by (simp add: extends_def)
  moreover have "upsert_release h now' d c' db' = (rid, db')" by (rule upsert_release_again[OF 1(3) e1])
  moreover have "ingest_variants h now' a d c' rid (de_variants d) db' = Inr (vids, db')"
    by (rule ingest_variants_again[OF 1(4,9)])
  ultimately have "ingest_release h now' d c' db' =
      Inr (r, if de_publish d then publish_release h now' d rid db' else db')"
    unfolding ingest_release_Inr using 1(1,2,5) by metis
  moreover have "timeless (if de_publish d then publish_release h now' d rid db' else db') = timeless db'"
    using 1(6) publish_release_twice[OF inj 1(10)] by simp
  ultimately show ?thesis by auto
qed

section \<open>A concrete release\<close>

definition demo_sha :: string where
  "demo_sha = replicate 64 (CHR ''a'')"

definition demo_descriptor :: release_descriptor where
  "demo_descriptor = \<lparr>de_typeKey = ''esp32'', de_name = ''helix'', de_version = ''1.2'', de_channel = ''stable'',
     de_sourceCommit = None, de_sourceDirty = None, de_config = None, de_analysis = None, de_publish = True,
     de_variants = [\<lparr>iv_selector = demo_selector, iv_name = None, iv_analysis = None,
       iv_artifacts = [\<lparr>in_role = ''app'', in_offset = Some ''0x10000'', in_path = None,
         in_body = Blob_body demo_sha 5 None None\<rparr>]\<rparr>]\<rparr>"

definition demo_releases :: releases_db where
  "demo_releases = \<lparr>rd_types = [\<lparr>ty_key = ''esp32'', ty_displayName = ''ESP32'', ty_adapterKey = ''esp32-firmware''\<rparr>],
     rd_artifacts = [], rd_releases = [], rd_variants = [], rd_links = [], rd_heads = [], rd_builds = [],
     rd_tokens = [], rd_tracks = [], rd_deviceProfiles = [], rd_draws = 0\<rparr>"

definition demo_context :: ingest_context where
  "demo_context = \<lparr>ic_ownerUserId = None, ic_buildId = None\<rparr>"

definition demo_ingested :: "ingest_result \<times> releases_db" where
  "demo_ingested = projr (ingest_release demo_host 7 demo_descriptor demo_context demo_releases)"

lemma demo_releases_ok: "db_ok demo_host demo_releases" "inj (rh_random demo_host)"
  by (simp_all add: db_ok_def tables_ok_def references_ok_def table_ok_def demo_releases_def demo_host_def inj_def)

lemma demo_ingest:
  "ingest_release demo_host 7 demo_descriptor demo_context demo_releases = Inr (fst demo_ingested, snd demo_ingested)"
  "ir_releaseId (fst demo_ingested) = ''rel_0''" "ir_variantIds (fst demo_ingested) = [''var_2'']"
  by code_simp+

theorem ingest_keeps_tables_witness:
  "db_ok demo_host (snd demo_ingested) \<and>
   (\<exists>a. list_all2 (variant_stored demo_host a (snd demo_ingested) ''rel_0'') (de_variants demo_descriptor) [''var_2''])"
  using ingest_keeps_tables[OF demo_releases_ok(2,1) demo_ingest(1)] unfolding demo_ingest(2,3) by blast

theorem ingest_idempotent_witness:
  "\<exists>db. ingest_release demo_host 99 demo_descriptor (demo_context\<lparr>ic_buildId := Some ''b''\<rparr>) (snd demo_ingested) =
     Inr (fst demo_ingested, db) \<and> timeless db = timeless (snd demo_ingested)"
  using ingest_idempotent[OF demo_releases_ok(2,1) demo_ingest(1)] by blast

end
