(* ===== verification/Protocol.thy ===== *)
theory Protocol
  imports Json
begin

text \<open>
  The request/response layer of the protocol package (\<open>web/packages/protocol/src/index.ts\<close>
  and \<open>service/index.ts\<close>): packets and their JSON codec, the registry that matches
  responses to requests, and the typed service client on top of it. A promise is an
  index into a list of outcomes (\<^const>\<open>None\<close> while pending); a timer is armed while its
  entry is in \<open>r_timers\<close>. Request ids come from the environment as inputs. A contract's
  schemas are parameters: any function that either rejects a value or returns one.
\<close>

section \<open>Packets\<close>

record packet =
  p_message :: json
  p_requestId :: "string option"

datatype protocol_error =
    SyntaxErr | InvalidPacket | DuplicateId string | RequestTimeout string | AppErr string

definition is_helix_packet :: "json \<Rightarrow> bool" where
  "is_helix_packet v =
     (case v of
        JObj es \<Rightarrow> map_has es ''message'' \<and>
          (case map_get es ''requestId'' of None \<Rightarrow> True | Some r \<Rightarrow> (case r of JStr _ \<Rightarrow> True | _ \<Rightarrow> False))
      | _ \<Rightarrow> False)"

definition assert_helix_packet :: "json \<Rightarrow> protocol_error + json" where
  "assert_helix_packet v = (if is_helix_packet v then Inr v else Inl InvalidPacket)"

definition packet_json :: "packet \<Rightarrow> json" where
  "packet_json p = JObj ((''message'', p_message p) #
     (case p_requestId p of None \<Rightarrow> [] | Some r \<Rightarrow> [(''requestId'', JStr r)]))"

text \<open>What a receiver reads off an object that passed \<open>assertHelixPacket\<close>.\<close>

definition packet_of :: "json \<Rightarrow> packet" where
  "packet_of v = \<lparr>p_message = the (json_get v ''message''),
     p_requestId = (case json_get v ''requestId'' of Some (JStr r) \<Rightarrow> Some r | _ \<Rightarrow> None)\<rparr>"

definition encode_packet :: "packet \<Rightarrow> string" where
  "encode_packet p = json_print (packet_json p)"

definition decode_packet :: "string \<Rightarrow> protocol_error + packet" where
  "decode_packet wire =
     (case json_parse wire of
        None \<Rightarrow> Inl SyntaxErr
      | Some v \<Rightarrow> (case assert_helix_packet v of Inl e \<Rightarrow> Inl e | Inr w \<Rightarrow> Inr (packet_of w)))"

lemma is_packet_json [simp]: "is_helix_packet (packet_json p)"
  by (cases "p_requestId p") (simp_all add: is_helix_packet_def packet_json_def)

lemma packet_of_json [simp]: "packet_of (packet_json p) = p"
  by (cases p) (simp add: packet_of_def packet_json_def split: option.splits)

lemma packet_json_ok: "json_ok (p_message p) \<Longrightarrow> json_ok (packet_json p)"
  by (simp add: packet_json_def split: option.splits)

lemma decode_encode_packet: "json_ok (p_message p) \<Longrightarrow> decode_packet (encode_packet p) = Inr p"
  by (simp add: decode_packet_def encode_packet_def json_codec.dec_enc packet_json_ok assert_helix_packet_def)

interpretation packet_codec: codec encode_packet
    "\<lambda>w. case decode_packet w of Inl _ \<Rightarrow> None | Inr p \<Rightarrow> Some p" "\<lambda>p. json_ok (p_message p)"
  by unfold_locales (simp add: decode_encode_packet)

subsection \<open>Request ids\<close>

fun radix_digits :: "nat \<Rightarrow> string" where
  "radix_digits n =
     (if n < 36 then [if n < 10 then digit_char n else char_of (87 + n)]
      else radix_digits (n div 36) @ [if n mod 36 < 10 then digit_char (n mod 36) else char_of (87 + n mod 36)])"

declare radix_digits.simps [simp del]

text \<open>\<open>createRequestId\<close>: a random UUID where the platform has them, else time and counter.\<close>

definition create_request_id :: "string option \<Rightarrow> nat \<Rightarrow> nat \<Rightarrow> string \<times> nat" where
  "create_request_id uuid now requestCounter =
     (case uuid of
        Some u \<Rightarrow> (u, requestCounter)
      | None \<Rightarrow> (let c = requestCounter + 1
                 in (''helix-'' @ radix_digits now @ ''-'' @ radix_digits c, c)))"

section \<open>The request registry\<close>

datatype outcome = Fulfilled json | Failed protocol_error

record registry =
  r_pending :: "(string, nat) js_map"
  r_timers :: "(nat, string) js_map"
  r_promises :: "outcome option list"

definition new_registry :: registry where
  "new_registry = \<lparr>r_pending = [], r_timers = [], r_promises = []\<rparr>"

definition reg_settle :: "nat \<Rightarrow> outcome \<Rightarrow> registry \<Rightarrow> registry" where
  "reg_settle p v r =
     (if r_promises r ! p = None then r\<lparr>r_promises := (r_promises r)[p := Some v]\<rparr> else r)"

text \<open>\<open>create\<close> returns the index of its promise.\<close>

definition reg_create :: "string \<Rightarrow> registry \<Rightarrow> nat \<times> registry" where
  "reg_create requestId r =
     (let p = length (r_promises r)
      in if map_has (r_pending r) requestId
         then (p, r\<lparr>r_promises := r_promises r @ [Some (Failed (DuplicateId requestId))]\<rparr>)
         else (p, r\<lparr>r_pending := map_set requestId p (r_pending r),
                    r_timers := map_set p requestId (r_timers r),
                    r_promises := r_promises r @ [None]\<rparr>))"

text \<open>The timer of promise \<open>p\<close> fires.\<close>

definition reg_timeout :: "nat \<Rightarrow> registry \<Rightarrow> registry" where
  "reg_timeout p r =
     (case map_get (r_timers r) p of
        None \<Rightarrow> r
      | Some requestId \<Rightarrow>
          reg_settle p (Failed (RequestTimeout requestId))
            (r\<lparr>r_timers := map_delete p (r_timers r), r_pending := map_delete requestId (r_pending r)\<rparr>))"

definition reg_reject_one :: "protocol_error \<Rightarrow> string \<times> nat \<Rightarrow> registry \<Rightarrow> registry" where
  "reg_reject_one err e r =
     (let r1 = reg_settle (snd e) (Failed err) (r\<lparr>r_timers := map_delete (snd e) (r_timers r)\<rparr>)
      in r1\<lparr>r_pending := map_delete (fst e) (r_pending r1)\<rparr>)"

definition reg_reject_all :: "protocol_error \<Rightarrow> registry \<Rightarrow> registry" where
  "reg_reject_all err r = fold (reg_reject_one err) (r_pending r) r"

definition reg_resolve :: "string \<Rightarrow> json \<Rightarrow> registry \<Rightarrow> bool \<times> registry" where
  "reg_resolve requestId message r =
     (case map_get (r_pending r) requestId of
        None \<Rightarrow> (False, r)
      | Some p \<Rightarrow>
          (True, reg_settle p (Fulfilled message)
             (r\<lparr>r_timers := map_delete p (r_timers r), r_pending := map_delete requestId (r_pending r)\<rparr>)))"

definition reg_size :: "registry \<Rightarrow> nat" where
  "reg_size r = length (r_pending r)"

text \<open>Pending entries, armed timers and unsettled promises are the same requests.\<close>

definition reg_ok :: "registry \<Rightarrow> bool" where
  "reg_ok r \<longleftrightarrow> map_ok (r_pending r) \<and> map_ok (r_timers r) \<and>
     (\<forall>i p. map_of (r_pending r) i = Some p \<longleftrightarrow> map_of (r_timers r) p = Some i) \<and>
     (\<forall>p. map_of (r_timers r) p \<noteq> None \<longleftrightarrow> p < length (r_promises r) \<and> r_promises r ! p = None)"

lemma reg_okD:
  assumes "reg_ok r"
  shows "map_ok (r_pending r)" "map_ok (r_timers r)"
    "\<And>i p. map_of (r_pending r) i = Some p \<longleftrightarrow> map_of (r_timers r) p = Some i"
    "\<And>p. map_of (r_timers r) p \<noteq> None \<longleftrightarrow> p < length (r_promises r) \<and> r_promises r ! p = None"
  using assms unfolding reg_ok_def by blast+

lemma reg_create_ok:
  assumes "reg_ok r"
  shows "reg_ok (snd (reg_create i r))"
proof (cases "map_of (r_pending r) i")
  case None
  have "map_of (r_timers r) p \<noteq> Some i" for p using reg_okD(3)[OF assms, of i p] None by simp
  moreover have "map_of (r_timers r) (length (r_promises r)) = None"
    using reg_okD(4)[OF assms, of "length (r_promises r)"] by simp
  ultimately show ?thesis
    using assms None unfolding reg_ok_def reg_create_def Let_def
    by (auto simp: nth_append less_Suc_eq)
next
  case (Some p)
  then show ?thesis
    using assms unfolding reg_ok_def reg_create_def Let_def
    by (auto simp: nth_append less_Suc_eq)
qed

lemma reg_drop_ok:
  assumes ok: "reg_ok r" and p: "map_of (r_pending r) i = Some p"
  shows "reg_ok (reg_settle p v (r\<lparr>r_timers := map_delete p (r_timers r), r_pending := map_delete i (r_pending r)\<rparr>))"
proof -
  have t: "map_of (r_timers r) p = Some i" using reg_okD(3)[OF ok] p by simp
  then have b: "p < length (r_promises r)" "r_promises r ! p = None" using reg_okD(4)[OF ok, of p] by auto
  have "q = p" if "map_of (r_timers r) q = Some i" for q
    using that p reg_okD(3)[OF ok, of i q] by simp
  moreover have "j = i" if "map_of (r_pending r) j = Some p" for j
    using that t reg_okD(3)[OF ok, of j p] by simp
  ultimately show ?thesis
    using ok b unfolding reg_ok_def reg_settle_def
    by (auto simp: nth_list_update map_of_eq_Some_iff)
qed

lemma reg_resolve_ok: "reg_ok r \<Longrightarrow> reg_ok (snd (reg_resolve i m r))"
  by (simp add: reg_resolve_def reg_drop_ok split: option.splits)

lemma reg_timeout_ok: "reg_ok r \<Longrightarrow> reg_ok (reg_timeout p r)"
  by (auto simp: reg_timeout_def reg_okD(3)[symmetric] reg_drop_ok split: option.splits)

lemma reg_reject_one_eq:
  "reg_reject_one err (i, p) r =
     reg_settle p (Failed err) (r\<lparr>r_timers := map_delete p (r_timers r), r_pending := map_delete i (r_pending r)\<rparr>)"
  by (simp add: reg_reject_one_def reg_settle_def Let_def)

lemma reg_settle_frame [simp]:
  "r_pending (reg_settle p v r) = r_pending r" "r_timers (reg_settle p v r) = r_timers r"
  "length (r_promises (reg_settle p v r)) = length (r_promises r)"
  by (simp_all add: reg_settle_def)

lemma reg_reject_fold:
  "reg_ok r \<Longrightarrow> map_ok es \<Longrightarrow> \<forall>e \<in> set es. map_of (r_pending r) (fst e) = Some (snd e) \<Longrightarrow>
   reg_ok (fold (reg_reject_one err) es r) \<and>
   (\<forall>i. map_of (r_pending (fold (reg_reject_one err) es r)) i =
      (if i \<in> fst ` set es then None else map_of (r_pending r) i))"
proof (induction es arbitrary: r)
  case (Cons e es)
  obtain i p where e: "e = (i, p)" by (cases e)
  let ?r = "reg_reject_one err e r"
  have ok: "reg_ok ?r"
    using Cons.prems reg_drop_ok[of r i p] by (simp add: e reg_reject_one_eq)
  have pend: "map_of (r_pending ?r) j = (if j = i then None else map_of (r_pending r) j)" for j
    by (simp add: e reg_reject_one_eq)
  have "\<forall>f \<in> set es. map_of (r_pending ?r) (fst f) = Some (snd f)"
    using Cons.prems by (auto simp: pend[unfolded e] e rev_image_eqI)
  with Cons.IH[OF ok] Cons.prems show ?case by (auto simp: pend[unfolded e] e)
qed simp

lemma reg_reject_all_ok:
  assumes "reg_ok r"
  shows "reg_ok (reg_reject_all err r)" "r_pending (reg_reject_all err r) = []"
proof -
  have "\<forall>e \<in> set (r_pending r). map_of (r_pending r) (fst e) = Some (snd e)"
    using reg_okD(1)[OF assms] by auto
  from reg_reject_fold[OF assms reg_okD(1)[OF assms] this, of err]
  have ok: "reg_ok (reg_reject_all err r)"
    and none: "map_of (r_pending (reg_reject_all err r)) i = None" for i
    by (auto simp: reg_reject_all_def map_of_eq_None_iff)
  show "reg_ok (reg_reject_all err r)" by (rule ok)
  show "r_pending (reg_reject_all err r) = []"
    using none by (cases "r_pending (reg_reject_all err r)") (auto split: if_splits, metis option.distinct(1))
qed

section \<open>The service client\<close>

type_synonym schema = "json option \<Rightarrow> string + json option"

record service_method =
  m_name :: string
  m_input :: schema
  m_output :: schema

record service_message =
  a_name :: string
  a_payload :: schema

record service_contract =
  sc_service :: string
  sc_methods :: "(string, service_method) js_map"
  sc_messages :: "(string, service_message) js_map"

text \<open>\<open>createServiceMessage\<close>: the payload is left out when undefined.\<close>

definition create_service_message :: "string \<Rightarrow> string \<Rightarrow> json option \<Rightarrow> json" where
  "create_service_message service methodName payload =
     JObj ((''method'', JStr methodName) #
       (case payload of None \<Rightarrow> [] | Some v \<Rightarrow> [(''payload'', v)]) @ [(''service'', JStr service)])"

definition create_service_packet :: "string \<Rightarrow> string \<Rightarrow> json option \<Rightarrow> packet" where
  "create_service_packet service methodName payload =
     \<lparr>p_message = create_service_message service methodName payload, p_requestId = None\<rparr>"

definition create_request_packet :: "string \<Rightarrow> string \<Rightarrow> json option \<Rightarrow> string \<Rightarrow> packet" where
  "create_request_packet service methodName payload requestId =
     \<lparr>p_message = create_service_message service methodName payload, p_requestId = Some requestId\<rparr>"

definition is_str :: "json option \<Rightarrow> bool" where
  "is_str v = (case v of Some (JStr _) \<Rightarrow> True | _ \<Rightarrow> False)"

definition is_service_message :: "json \<Rightarrow> bool" where
  "is_service_message v =
     (case v of JObj _ \<Rightarrow> is_str (json_get v ''service'') \<and> is_str (json_get v ''method'') | _ \<Rightarrow> False)"

record matcher =
  mt_method :: "string option"
  mt_service :: "string option"

text \<open>Reading a property of a null message is a \<open>TypeError\<close>: \<^const>\<open>None\<close>.\<close>

definition field_matches :: "string option \<Rightarrow> json \<Rightarrow> string \<Rightarrow> bool option" where
  "field_matches want message key =
     (case want of
        None \<Rightarrow> Some True
      | Some s \<Rightarrow> if message = JNull then None else Some (json_get message key = Some (JStr s)))"

definition packet_matches :: "packet \<Rightarrow> matcher \<Rightarrow> bool option" where
  "packet_matches p m =
     (case field_matches (mt_service m) (p_message p) ''service'' of
        Some True \<Rightarrow> field_matches (mt_method m) (p_message p) ''method''
      | answer \<Rightarrow> answer)"

text \<open>The subscriptions are told in turn; an error out of one ends the round.\<close>

fun tell_subscriptions :: "packet \<Rightarrow> (nat \<times> matcher) list \<Rightarrow> (nat \<times> packet) list" where
  "tell_subscriptions p [] = []"
| "tell_subscriptions p ((h, m) # subs) =
     (case packet_matches p m of
        None \<Rightarrow> []
      | Some matches \<Rightarrow> (if matches then [(h, p)] else []) @ tell_subscriptions p subs)"

datatype client_error = UnknownMethod string | SchemaErr string | SendErr | TypeErr | ProtocolErr protocol_error

text \<open>
  A call of \<open>request\<close>: it either threw, or its packet is being sent, or it awaits the
  promise of the registry.
\<close>

datatype call_stage = Threw client_error | Sending | Awaiting

record call =
  k_method :: service_method
  k_id :: string
  k_promise :: nat
  k_stage :: call_stage

record client =
  c_contract :: service_contract
  c_registry :: registry
  c_calls :: "call list"
  c_subs :: "(nat \<times> matcher) list"
  c_nextSub :: nat
  c_sent :: "packet list"
  c_received :: "packet list"
  c_delivered :: "(nat \<times> packet) list"

definition new_client :: "service_contract \<Rightarrow> client" where
  "new_client contract = \<lparr>c_contract = contract, c_registry = new_registry, c_calls = [], c_subs = [],
     c_nextSub = 0, c_sent = [], c_received = [], c_delivered = []\<rparr>"

definition get_contract_method :: "service_contract \<Rightarrow> string \<Rightarrow> client_error + service_method" where
  "get_contract_method contract key =
     (case map_get (sc_methods contract) key of None \<Rightarrow> Inl (UnknownMethod key) | Some m \<Rightarrow> Inr m)"

text \<open>\<open>receive\<close>: settle the request this packet answers, then tell every subscription.\<close>

definition client_receive :: "packet \<Rightarrow> client \<Rightarrow> client" where
  "client_receive p c =
     (let c1 = c\<lparr>c_received := c_received c @ [p]\<rparr>;
          c2 = (case p_requestId p of
                  None \<Rightarrow> c1
                | Some i \<Rightarrow> c1\<lparr>c_registry := snd (reg_resolve i (p_message p) (c_registry c1))\<rparr>)
      in c2\<lparr>c_delivered := c_delivered c2 @ tell_subscriptions p (c_subs c2)\<rparr>)"

text \<open>\<open>request\<close> up to its first \<open>await\<close>: an early error leaves the client as it is.\<close>

definition client_request :: "string \<Rightarrow> json option \<Rightarrow> string \<Rightarrow> client \<Rightarrow> client_error + client" where
  "client_request key input requestId c =
     (case get_contract_method (c_contract c) key of
        Inl e \<Rightarrow> Inl e
      | Inr m \<Rightarrow>
          (case m_input m input of
             Inl e \<Rightarrow> Inl (SchemaErr e)
           | Inr payload \<Rightarrow>
               (let (p, r) = reg_create requestId (c_registry c)
                in Inr (c\<lparr>c_registry := r,
                     c_calls := c_calls c @ [\<lparr>k_method = m, k_id = requestId, k_promise = p, k_stage = Sending\<rparr>],
                     c_sent := c_sent c @
                       [create_request_packet (sc_service (c_contract c)) (m_name m) payload requestId]\<rparr>))))"

text \<open>The transport's \<open>send\<close> of call \<open>k\<close> returned or threw.\<close>

definition client_sent :: "nat \<Rightarrow> bool \<Rightarrow> client \<Rightarrow> client" where
  "client_sent k ok c =
     (if k < length (c_calls c) \<and> k_stage (c_calls c ! k) = Sending
      then c\<lparr>c_calls := (c_calls c)[k := (c_calls c ! k)\<lparr>k_stage := (if ok then Awaiting else Threw SendErr)\<rparr>]\<rparr>
      else c)"

text \<open>What the promise \<open>request\<close> returned holds: \<^const>\<open>None\<close> while it is pending.\<close>

definition call_result :: "client \<Rightarrow> call \<Rightarrow> (client_error + json option) option" where
  "call_result c k =
     (case k_stage k of
        Threw e \<Rightarrow> Some (Inl e)
      | Sending \<Rightarrow> None
      | Awaiting \<Rightarrow>
          (case r_promises (c_registry c) ! k_promise k of
             None \<Rightarrow> None
           | Some (Failed e) \<Rightarrow> Some (Inl (ProtocolErr e))
           | Some (Fulfilled m) \<Rightarrow>
               Some (if m = JNull then Inl TypeErr
                     else case m_output (k_method k) (json_get m ''payload'') of
                       Inl e \<Rightarrow> Inl (SchemaErr e) | Inr v \<Rightarrow> Inr v)))"

definition client_send :: "string \<Rightarrow> json option \<Rightarrow> client \<Rightarrow> client_error + client" where
  "client_send key payload c =
     (case map_get (sc_messages (c_contract c)) key of
        None \<Rightarrow> Inl (UnknownMethod key)
      | Some m \<Rightarrow>
          (case a_payload m payload of
             Inl e \<Rightarrow> Inl (SchemaErr e)
           | Inr v \<Rightarrow> Inr (c\<lparr>c_sent := c_sent c @
                 [create_service_packet (sc_service (c_contract c)) (a_name m) v]\<rparr>)))"

text \<open>\<open>subscribe\<close>: every call makes a new subscription, returned as its number.\<close>

definition client_subscribe :: "matcher option \<Rightarrow> client \<Rightarrow> nat \<times> client" where
  "client_subscribe m c =
     (let n = c_nextSub c;
          mt = (case m of Some x \<Rightarrow> x
                | None \<Rightarrow> \<lparr>mt_method = None, mt_service = Some (sc_service (c_contract c))\<rparr>)
      in (n, c\<lparr>c_nextSub := n + 1, c_subs := c_subs c @ [(n, mt)]\<rparr>))"

definition client_unsubscribe :: "nat \<Rightarrow> client \<Rightarrow> client" where
  "client_unsubscribe n c = c\<lparr>c_subs := filter (\<lambda>s. fst s \<noteq> n) (c_subs c)\<rparr>"

datatype client_input =
    CRequest string "json option" string | CSent nat bool | CReceive packet | CTimer nat
  | CSend string "json option" | CSubscribe "matcher option" | CUnsubscribe nat

fun client_step :: "client_input \<Rightarrow> client \<Rightarrow> client option" where
  "client_step (CRequest key input i) c =
     Some (case client_request key input i c of Inl _ \<Rightarrow> c | Inr c' \<Rightarrow> c')"
| "client_step (CSent k ok) c = Some (client_sent k ok c)"
| "client_step (CReceive p) c = Some (client_receive p c)"
| "client_step (CTimer p) c = Some (c\<lparr>c_registry := reg_timeout p (c_registry c)\<rparr>)"
| "client_step (CSend key v) c = Some (case client_send key v c of Inl _ \<Rightarrow> c | Inr c' \<Rightarrow> c')"
| "client_step (CSubscribe m) c = Some (snd (client_subscribe m c))"
| "client_step (CUnsubscribe n) c = Some (client_unsubscribe n c)"

subsection \<open>Correlation\<close>

text \<open>Call \<open>n\<close> owns promise \<open>n\<close>; a pending entry carries its call's id; a promise is only
  fulfilled with the message of a received packet that carries that id.\<close>

definition client_ok :: "client \<Rightarrow> bool" where
  "client_ok c \<longleftrightarrow> reg_ok (c_registry c) \<and>
     length (c_calls c) = length (r_promises (c_registry c)) \<and>
     (\<forall>n < length (c_calls c). k_promise (c_calls c ! n) = n) \<and>
     (\<forall>i p. map_of (r_pending (c_registry c)) i = Some p \<longrightarrow> k_id (c_calls c ! p) = i) \<and>
     (\<forall>n < length (c_calls c). \<forall>m. r_promises (c_registry c) ! n = Some (Fulfilled m) \<longrightarrow>
        \<lparr>p_message = m, p_requestId = Some (k_id (c_calls c ! n))\<rparr> \<in> set (c_received c))"

lemma client_okD:
  assumes "client_ok c"
  shows "reg_ok (c_registry c)" "length (c_calls c) = length (r_promises (c_registry c))"
    "\<And>n. n < length (c_calls c) \<Longrightarrow> k_promise (c_calls c ! n) = n"
    "\<And>i p. map_of (r_pending (c_registry c)) i = Some p \<Longrightarrow> k_id (c_calls c ! p) = i"
    "\<And>n m. n < length (c_calls c) \<Longrightarrow> r_promises (c_registry c) ! n = Some (Fulfilled m) \<Longrightarrow>
       \<lparr>p_message = m, p_requestId = Some (k_id (c_calls c ! n))\<rparr> \<in> set (c_received c)"
  using assms unfolding client_ok_def by blast+

lemma client_ok_frame:
  assumes "client_ok c" "c_registry d = c_registry c" "length (c_calls d) = length (c_calls c)"
    "\<And>n. n < length (c_calls c) \<Longrightarrow> k_promise (c_calls d ! n) = k_promise (c_calls c ! n) \<and>
       k_id (c_calls d ! n) = k_id (c_calls c ! n)"
    "set (c_received c) \<subseteq> set (c_received d)"
  shows "client_ok d"
proof -
  have "p < length (c_calls c)" if "map_of (r_pending (c_registry c)) i = Some p" for i p
    using that reg_okD(3,4)[OF client_okD(1)[OF assms(1)]] client_okD(2)[OF assms(1)] by (metis option.distinct(1))
  then show ?thesis
    unfolding client_ok_def assms(2,3)
    using client_okD[OF assms(1)] assms(4,5) by (simp add: subset_iff)
qed

lemma client_request_ok:
  assumes ok: "client_ok c" and r: "client_request key input i c = Inr d"
  shows "client_ok d"
proof -
  let ?r = "c_registry c" and ?p = "length (r_promises (c_registry c))"
  obtain m payload where m: "get_contract_method (c_contract c) key = Inr m" "m_input m input = Inr payload"
    using r by (auto simp: client_request_def split: sum.splits)
  have d: "c_registry d = snd (reg_create i ?r)" "c_received d = c_received c"
    "c_calls d = c_calls c @ [\<lparr>k_method = m, k_id = i, k_promise = ?p, k_stage = Sending\<rparr>]"
    using r m by (auto simp: client_request_def reg_create_def Let_def split: if_splits)
  have "p < ?p" if "map_of (r_pending ?r) j = Some p" for j p
    using that reg_okD(3,4)[OF client_okD(1)[OF ok]] by (metis option.distinct(1))
  with client_okD[OF ok] show ?thesis
    unfolding client_ok_def d using reg_create_ok[OF client_okD(1)[OF ok], of i]
    by (auto simp: reg_create_def Let_def nth_append less_Suc_eq)
qed

lemma client_receive_ok:
  assumes ok: "client_ok c"
  shows "client_ok (client_receive p c)"
proof -
  let ?c1 = "c\<lparr>c_received := c_received c @ [p]\<rparr>"
  have base: "client_ok ?c1" by (rule client_ok_frame[OF ok]) auto
  have step: "client_ok (?c1\<lparr>c_registry := snd (reg_resolve i (p_message p) (c_registry c))\<rparr>)"
    if i: "p_requestId p = Some i" for i
  proof (cases "map_of (r_pending (c_registry c)) i")
    case None
    with base show ?thesis by (simp add: reg_resolve_def client_ok_def)
  next
    case (Some q)
    have k: "k_id (c_calls c ! q) = i" by (rule client_okD(4)[OF ok Some])
    have "p = \<lparr>p_message = p_message p, p_requestId = Some i\<rparr>" using i by simp
    with k base Some reg_resolve_ok[OF client_okD(1)[OF ok], of i "p_message p"] show ?thesis
      unfolding client_ok_def reg_resolve_def
      by (auto simp: reg_settle_def split: if_splits dest!: nth_update_split)
  qed
  show ?thesis
    unfolding client_receive_def Let_def
    by (rule client_ok_frame[where c = "case p_requestId p of None \<Rightarrow> ?c1
        | Some i \<Rightarrow> ?c1\<lparr>c_registry := snd (reg_resolve i (p_message p) (c_registry c))\<rparr>"])
      (use base step in \<open>auto split: option.splits\<close>)
qed

lemma client_timer_ok:
  assumes ok: "client_ok c"
  shows "client_ok (c\<lparr>c_registry := reg_timeout p (c_registry c)\<rparr>)"
  using client_okD[OF ok] reg_timeout_ok[OF client_okD(1)[OF ok], of p]
  unfolding client_ok_def reg_timeout_def
  by (auto simp: reg_settle_def split: option.splits if_splits dest!: nth_update_other)

lemma client_step_ok: "client_ok c \<Longrightarrow> client_step i c = Some d \<Longrightarrow> client_ok d"
proof (cases i)
  case (CRequest key input r)
  then show "client_ok c \<Longrightarrow> client_step i c = Some d \<Longrightarrow> ?thesis"
    using client_request_ok by (auto split: sum.splits)
next
  case (CSent k b)
  show "client_ok d" if "client_ok c" "client_step i c = Some d"
    by (rule client_ok_frame[OF that(1)])
      (use that(2) CSent in \<open>auto simp: client_sent_def nth_list_update split: if_splits\<close>)
next
  case (CSend key v)
  show "client_ok d" if "client_ok c" "client_step i c = Some d"
    by (rule client_ok_frame[OF that(1)])
      (use that(2) CSend in \<open>auto simp: client_send_def split: sum.splits option.splits\<close>)
next
  case (CSubscribe m)
  show "client_ok d" if "client_ok c" "client_step i c = Some d"
    by (rule client_ok_frame[OF that(1)])
      (use that(2) CSubscribe in \<open>auto simp: client_subscribe_def Let_def\<close>)
next
  case (CUnsubscribe n)
  show "client_ok d" if "client_ok c" "client_step i c = Some d"
    by (rule client_ok_frame[OF that(1)])
      (use that(2) CUnsubscribe in \<open>auto simp: client_unsubscribe_def\<close>)
qed (auto simp: client_receive_ok client_timer_ok)

interpretation client: total_machine client_step client_ok
proof
  show "client_ok c \<Longrightarrow> client_step i c = Some d \<Longrightarrow> client_ok d" for c i d by (rule client_step_ok)
  show "\<exists>d. client_step i c = Some d" for i c by (cases i) simp_all
qed

lemma new_client_ok: "client_ok (new_client contract)"
  by (simp add: client_ok_def new_client_def new_registry_def reg_ok_def)

section \<open>Properties\<close>

lemma decode_packet_Inr:
  "decode_packet wire = Inr q \<Longrightarrow> \<exists>v. json_parse wire = Some v \<and> is_helix_packet v"
  by (auto simp: decode_packet_def assert_helix_packet_def split: option.splits sum.splits if_splits)

text \<open>C35: Packet codec. Every packet survives JSON encoding and decoding, whatever strings and
  nesting its message holds, and whatever \<open>decode\<close> accepts is a packet; so two packets
  with the same wire text are the same packet.\<close>

theorem packet_roundtrip:
  assumes "json_ok (p_message p)"
  shows "decode_packet (encode_packet p) = Inr p \<and>
    (\<forall>q. json_ok (p_message q) \<longrightarrow> encode_packet q = encode_packet p \<longrightarrow> q = p) \<and>
    (\<forall>wire q. decode_packet wire = Inr q \<longrightarrow> (\<exists>v. json_parse wire = Some v \<and> is_helix_packet v))"
  using assms packet_codec.enc_inject decode_encode_packet decode_packet_Inr by blast

definition demo_packet :: packet where
  "demo_packet = create_request_packet ''relay'' ''set'' (Some (JObj [(''note'', JStr [CHR 0x22, CHR 0x0A, CHR 0xE9]),
     (''on'', JArr [JBool True, JNum (-12), JNull])])) ''r-1''"

theorem packet_roundtrip_witness: "decode_packet (encode_packet demo_packet) = Inr demo_packet"
  using packet_roundtrip[of demo_packet]
  by (simp add: demo_packet_def create_request_packet_def create_service_message_def)

text \<open>C27: Correlation. In every run of a client, a \<open>request\<close> that succeeds returns what its
  method's output schema makes of the payload of a received packet that carries its own
  request id; no packet of another request can complete it.\<close>

theorem request_correlation:
  assumes "run_steps client_step is (new_client contract) = Some c"
    and "k \<in> set (c_calls c)" "call_result c k = Some (Inr v)"
  shows "\<exists>m. \<lparr>p_message = m, p_requestId = Some (k_id k)\<rparr> \<in> set (c_received c) \<and>
           m_output (k_method k) (json_get m ''payload'') = Inr v"
proof -
  have ok: "client_ok c" by (rule client.run_inv[OF new_client_ok assms(1)])
  obtain n where n: "n < length (c_calls c)" "k = c_calls c ! n"
    using assms(2) by (auto simp: in_set_conv_nth)
  obtain m where m: "r_promises (c_registry c) ! n = Some (Fulfilled m)"
    "m_output (k_method k) (json_get m ''payload'') = Inr v"
    using assms(3) client_okD(3)[OF ok n(1)] n(2)
    by (auto simp: call_result_def split: call_stage.splits option.splits outcome.splits if_splits sum.splits)
  from client_okD(5)[OF ok n(1) m(1)] n(2) m(2) show ?thesis by blast
qed

definition demo_contract :: service_contract where
  "demo_contract = \<lparr>sc_service = ''relay'',
     sc_methods = [(''set'', \<lparr>m_name = ''Set'', m_input = Inr, m_output = Inr\<rparr>)], sc_messages = []\<rparr>"

definition demo_reply :: packet where
  "demo_reply = \<lparr>p_message = JObj [(''payload'', JNum 5)], p_requestId = Some ''b''\<rparr>"

definition demo_client :: client where
  "demo_client = the (run_steps client_step
     [CRequest ''set'' None ''a'', CRequest ''set'' None ''b'', CSent 0 True, CSent 1 True, CReceive demo_reply]
     (new_client demo_contract))"

lemma demo_client_facts:
  "run_steps client_step
     [CRequest ''set'' None ''a'', CRequest ''set'' None ''b'', CSent 0 True, CSent 1 True, CReceive demo_reply]
     (new_client demo_contract) = Some demo_client"
  "\<exists>k \<in> set (c_calls demo_client). k_id k = ''b'' \<and> k_method k = \<lparr>m_name = ''Set'', m_input = Inr, m_output = Inr\<rparr> \<and>
     call_result demo_client k = Some (Inr (Some (JNum 5)))"
  by (simp_all add: demo_client_def demo_contract_def demo_reply_def new_client_def new_registry_def
      client_request_def get_contract_method_def reg_create_def client_sent_def client_receive_def
      reg_resolve_def reg_settle_def call_result_def map_filter_def)

theorem request_correlation_witness:
  "\<exists>m. \<lparr>p_message = m, p_requestId = Some ''b''\<rparr> \<in> set (c_received demo_client) \<and>
     json_get m ''payload'' = Some (JNum 5)"
proof -
  obtain k where k: "k \<in> set (c_calls demo_client)" "k_id k = ''b''"
    "k_method k = \<lparr>m_name = ''Set'', m_input = Inr, m_output = Inr\<rparr>"
    "call_result demo_client k = Some (Inr (Some (JNum 5)))"
    using demo_client_facts(2) by blast
  from request_correlation[OF demo_client_facts(1) k(1,4)] k(2,3) show ?thesis by auto
qed

text \<open>What settling promise \<open>p\<close> of request \<open>j\<close> does to a registry, and nothing else.\<close>

definition settles :: "registry \<Rightarrow> string \<Rightarrow> nat \<Rightarrow> outcome \<Rightarrow> registry \<Rightarrow> bool" where
  "settles r j p v r' \<longleftrightarrow> r_promises r' = (r_promises r)[p := Some v]
     \<and> map_of (r_pending r') = (map_of (r_pending r))(j := None)
     \<and> map_of (r_timers r') = (map_of (r_timers r))(p := None)"

lemma reg_entry:
  assumes "reg_ok r" "map_of (r_pending r) j = Some p"
  shows "settles r j p (Fulfilled m) (snd (reg_resolve j m r)) \<and> fst (reg_resolve j m r)"
    "settles r j p (Failed (RequestTimeout j)) (reg_timeout p r)"
proof -
  have t: "map_of (r_timers r) p = Some j" using reg_okD(3)[OF assms(1)] assms(2) by simp
  then have "r_promises r ! p = None" using reg_okD(4)[OF assms(1), of p] by auto
  then show "settles r j p (Fulfilled m) (snd (reg_resolve j m r)) \<and> fst (reg_resolve j m r)"
    "settles r j p (Failed (RequestTimeout j)) (reg_timeout p r)"
    using assms(2) t by (auto simp: settles_def reg_resolve_def reg_timeout_def reg_settle_def fun_eq_iff)
qed

lemma reg_settled_all:
  assumes "reg_ok r"
  shows "r_pending (reg_reject_all e r) = []" "r_timers (reg_reject_all e r) = []"
    "length (r_promises (reg_reject_all e r)) = length (r_promises r)"
    "p < length (r_promises r) \<Longrightarrow> r_promises (reg_reject_all e r) ! p \<noteq> None"
proof -
  note ok = reg_reject_all_ok[OF assms, of e]
  show "r_pending (reg_reject_all e r) = []" by (rule ok(2))
  have "map_of (r_timers (reg_reject_all e r)) q = None" for q
    using reg_okD(3)[OF ok(1), of _ q] ok(2) by (cases "map_of (r_timers (reg_reject_all e r)) q") auto
  then show timers: "r_timers (reg_reject_all e r) = []" by (cases "r_timers (reg_reject_all e r)") (auto split: if_splits, metis option.distinct(1))
  have "length (r_promises (fold (reg_reject_one e) es q)) = length (r_promises q)" for es q
    by (induction es arbitrary: q) (simp_all add: reg_reject_one_def Let_def)
  then show len: "length (r_promises (reg_reject_all e r)) = length (r_promises r)" by (simp add: reg_reject_all_def)
  show "r_promises (reg_reject_all e r) ! p \<noteq> None" if "p < length (r_promises r)"
    using reg_okD(4)[OF ok(1), of p] timers len that by simp
qed

lemma reg_size_unsettled:
  assumes "reg_ok r"
  shows "reg_size r = card {p. p < length (r_promises r) \<and> r_promises r ! p = None}"
proof -
  have ids: "distinct (map fst (r_pending r))" using reg_okD(1)[OF assms] by simp
  have inj: "inj_on snd (set (r_pending r))"
  proof (rule inj_onI)
    fix x y
    assume xy: "x \<in> set (r_pending r)" "y \<in> set (r_pending r)" "snd x = snd y"
    then have "map_of (r_pending r) (fst x) = Some (snd x)" "map_of (r_pending r) (fst y) = Some (snd x)"
      using ids by (metis map_of_is_SomeI prod.collapse)+
    then have "map_of (r_timers r) (snd x) = Some (fst x)" "map_of (r_timers r) (snd x) = Some (fst y)"
      using reg_okD(3)[OF assms] by blast+
    with xy(3) show "x = y" by (simp add: prod_eq_iff)
  qed
  have "p \<in> snd ` set (r_pending r) \<longleftrightarrow> (\<exists>i. map_of (r_pending r) i = Some p)" for p
    using ids by (force intro: map_of_is_SomeI dest: map_of_SomeD)
  moreover have "(\<exists>i. map_of (r_pending r) i = Some p) \<longleftrightarrow> p < length (r_promises r) \<and> r_promises r ! p = None" for p
    using reg_okD(3)[OF assms, of _ p] reg_okD(4)[OF assms, of p] by auto
  ultimately have "snd ` set (r_pending r) = {p. p < length (r_promises r) \<and> r_promises r ! p = None}" by auto
  moreover have "length (r_pending r) = card (set (r_pending r))"
    using ids by (metis distinct_card distinct_map)
  ultimately show ?thesis using card_image[OF inj] by (simp add: reg_size_def)
qed

text \<open>C29: The registry leaks nothing. In every state of a client, an id is registered for a promise
  exactly when that promise is unsettled and belongs to a call with the id, exactly then its timer is
  armed, and so the registry's size is the number of unsettled promises. A response and a timeout
  settle the promise, take its own entry and timer out and touch no other; \<open>rejectAll\<close> settles every
  promise and leaves no entry and no timer.\<close>

theorem registry_no_leak:
  assumes "run_steps client_step is (new_client contract) = Some c"
  defines "r \<equiv> c_registry c"
  defines "waiting \<equiv> \<lambda>j p. p < length (r_promises r) \<and> r_promises r ! p = None \<and> k_id (c_calls c ! p) = j"
  shows "(\<forall>j p. (map_of (r_pending r) j = Some p \<longleftrightarrow> waiting j p) \<and> (map_of (r_timers r) p = Some j \<longleftrightarrow> waiting j p))
    \<and> reg_size r = card {p. p < length (r_promises r) \<and> r_promises r ! p = None}
    \<and> (\<forall>j p m. waiting j p \<longrightarrow> fst (reg_resolve j m r) \<and> settles r j p (Fulfilled m) (snd (reg_resolve j m r))
          \<and> settles r j p (Failed (RequestTimeout j)) (reg_timeout p r))
    \<and> (\<forall>e. r_pending (reg_reject_all e r) = [] \<and> r_timers (reg_reject_all e r) = []
          \<and> (\<forall>p < length (r_promises r). r_promises (reg_reject_all e r) ! p \<noteq> None))"
proof -
  have ok: "client_ok c" by (rule client.run_inv[OF new_client_ok assms(1)])
  note reg = client_okD(1)[OF ok, folded r_def]
  have timer: "map_of (r_timers r) p = Some j \<longleftrightarrow> waiting j p" for j p
  proof
    show "waiting j p" if "map_of (r_timers r) p = Some j"
      using that client_okD(4)[OF ok, of j p] reg_okD(3)[OF reg, of j p] reg_okD(4)[OF reg, of p]
      by (simp add: r_def waiting_def)
    show "map_of (r_timers r) p = Some j" if w: "waiting j p"
    proof -
      from w obtain k where k: "map_of (r_timers r) p = Some k" using reg_okD(4)[OF reg, of p] by (auto simp: waiting_def)
      then have "k_id (c_calls c ! p) = k" using client_okD(4)[OF ok, of k p] reg_okD(3)[OF reg, of k p] by (simp add: r_def)
      with w k show ?thesis by (simp add: waiting_def)
    qed
  qed
  then have pend: "map_of (r_pending r) j = Some p \<longleftrightarrow> waiting j p" for j p using reg_okD(3)[OF reg] by simp
  show ?thesis
    using timer pend reg_size_unsettled[OF reg] reg_entry[OF reg] reg_settled_all[OF reg] by simp
qed

theorem registry_no_leak_witness:
  "map_of (r_pending (c_registry demo_client)) ''a'' = Some 0 \<and>
   r_promises (reg_timeout 0 (c_registry demo_client)) ! 0 = Some (Failed (RequestTimeout ''a''))"
proof -
  have f: "length (r_promises (c_registry demo_client)) = 2"
    "r_promises (c_registry demo_client) ! 0 = None" "k_id (c_calls demo_client ! 0) = ''a''"
    by (simp_all add: demo_client_def demo_contract_def demo_reply_def new_client_def new_registry_def
        client_request_def get_contract_method_def reg_create_def client_sent_def client_receive_def
        reg_resolve_def reg_settle_def map_filter_def)
  note all = registry_no_leak[OF demo_client_facts(1)]
  have "map_of (r_pending (c_registry demo_client)) ''a'' = Some 0"
    using conjunct1[OF all, rule_format, of "''a''" 0] f by simp
  moreover have "settles (c_registry demo_client) ''a'' 0 (Failed (RequestTimeout ''a'')) (reg_timeout 0 (c_registry demo_client))"
    using conjunct1[OF conjunct2[OF conjunct2[OF all]], rule_format, of 0 "''a''"] f by simp
  ultimately show ?thesis using f(1) by (simp add: settles_def)
qed

text \<open>
  When the transport's \<open>send\<close> throws, \<open>request\<close> rejects with that error and nobody awaits the
  registry's promise any more; it stays registered and is rejected by its timer later.
\<close>

lemma send_failure_orphans:
  assumes "k < length (c_calls c)" "k_stage (c_calls c ! k) = Sending"
  shows "call_result (client_sent k False c) (c_calls (client_sent k False c) ! k) = Some (Inl SendErr) \<and>
    c_registry (client_sent k False c) = c_registry c"
  using assms by (simp add: client_sent_def call_result_def)

end
