(* ===== verification/Release_Resolve.thy ===== *)
theory Release_Resolve
  imports Release_Publish Protocol
begin

text \<open>
  Which artifacts a device may run (\<open>web/packages/helix-backend/src/releases/resolve.ts\<close>),
  the over-the-air publisher (\<open>releases/ota.ts\<close>) and the device's own file API
  (\<open>device-mtls/fileRouter.ts\<close>): a profile's track names a release by pin or by the head of a
  channel, and the newest ready variant that contains the track's selector.
\<close>

section \<open>Resolution of a track\<close>

datatype resolve_status = Resolved | No_release | No_variant

datatype resolve_source = Pinned | Channel

record resolved_track_artifact =
  ra_role :: string
  ra_offset :: "string option"
  ra_storageMode :: string
  ra_storageKey :: "string option"
  ra_sha256 :: "string option"
  ra_sizeBytes :: "int option"

record track_resolution =
  tr_status :: resolve_status
  tr_source :: "resolve_source option"
  tr_release :: "release_row option"
  tr_variant :: "variant_row option"
  tr_artifacts :: "resolved_track_artifact list"

text \<open>\<open>orderBy(desc(createdAt)).limit(1)\<close>; the order of rows created at the same time is the
  table's.\<close>

fun newest :: "variant_row list \<Rightarrow> variant_row option" where
  "newest [] = None"
| "newest (v # vs) =
     (case newest vs of None \<Rightarrow> Some v | Some w \<Rightarrow> if va_createdAt v < va_createdAt w then Some w else Some v)"

definition linked_artifacts :: "releases_db \<Rightarrow> string \<Rightarrow> resolved_track_artifact list" where
  "linked_artifacts db variantId =
     concat (map (\<lambda>l. map (\<lambda>a.
         \<lparr>ra_role = vl_role l, ra_offset = vl_offset l, ra_storageMode = ar_storageMode a,
          ra_storageKey = ar_storageKey a, ra_sha256 = ar_sha256 a, ra_sizeBytes = ar_sizeBytes a\<rparr>)
         (filter (\<lambda>a. ar_id a = vl_artifactId l) (rd_artifacts db)))
       (filter (\<lambda>l. vl_variantId l = variantId) (rd_links db)))"

definition no_release :: track_resolution where
  "no_release = \<lparr>tr_status = No_release, tr_source = None, tr_release = None, tr_variant = None, tr_artifacts = []\<rparr>"

definition track_release :: "releases_db \<Rightarrow> profile_track_row \<Rightarrow> (string \<times> resolve_source) option" where
  "track_release db track =
     (case pt_pinnedReleaseId track of
        Some rid \<Rightarrow> Some (rid, Pinned)
      | None \<Rightarrow>
          (case pt_channel track of
             None \<Rightarrow> None
           | Some channel \<Rightarrow>
               map_option (\<lambda>x. (ch_releaseId x, Channel))
                 (find (\<lambda>x. ch_typeKey x = pt_typeKey track \<and> ch_name x = pt_releaseName track \<and>
                            ch_channel x = channel) (rd_heads db))))"

definition resolve_track :: "release_host \<Rightarrow> releases_db \<Rightarrow> profile_track_row \<Rightarrow> track_resolution" where
  "resolve_track h db track =
     (case track_release db track of
        None \<Rightarrow> no_release
      | Some (releaseId, source) \<Rightarrow>
          (case find (\<lambda>r. re_id r = releaseId) (rd_releases db) of
             None \<Rightarrow> no_release
           | Some releaseRow \<Rightarrow>
               (let selector = or_else (pt_selector track) (JObj [])
                in case newest (filter (\<lambda>v. va_releaseId v = releaseId \<and> va_status v = ''ready'' \<and>
                                            rh_contains h (va_selector v) selector) (rd_variants db)) of
                     None \<Rightarrow> \<lparr>tr_status = No_variant, tr_source = Some source, tr_release = Some releaseRow,
                              tr_variant = None, tr_artifacts = []\<rparr>
                   | Some v \<Rightarrow> \<lparr>tr_status = Resolved, tr_source = Some source, tr_release = Some releaseRow,
                              tr_variant = Some v, tr_artifacts = linked_artifacts db (va_id v)\<rparr>)))"

section \<open>Devices\<close>

definition tracks_for_device :: "releases_db \<Rightarrow> string \<Rightarrow> profile_track_row list" where
  "tracks_for_device db deviceId =
     (let profiles = map dp_profileId (filter (\<lambda>p. dp_deviceId p = deviceId) (rd_deviceProfiles db))
      in if profiles = [] then [] else filter (\<lambda>t. pt_profileId t \<in> set profiles) (rd_tracks db))"

record resolved_artifact =
  rs_artifact :: resolved_track_artifact
  rs_releaseId :: string
  rs_releaseVersion :: string
  rs_variantId :: string
  rs_typeKey :: string

definition resolve_device_artifacts :: "release_host \<Rightarrow> releases_db \<Rightarrow> string \<Rightarrow> resolved_artifact list" where
  "resolve_device_artifacts h db deviceId =
     concat (map (\<lambda>track.
         let result = resolve_track h db track
         in case (tr_status result, tr_release result, tr_variant result) of
              (Resolved, Some r, Some v) \<Rightarrow>
                map (\<lambda>row. \<lparr>rs_artifact = row, rs_releaseId = re_id r, rs_releaseVersion = re_version r,
                            rs_variantId = va_id v, rs_typeKey = pt_typeKey track\<rparr>) (tr_artifacts result)
            | _ \<Rightarrow> [])
       (tracks_for_device db deviceId))"

definition stored_blob :: "resolved_artifact \<Rightarrow> bool" where
  "stored_blob e \<longleftrightarrow> ra_storageMode (rs_artifact e) = ''blob'' \<and> ra_storageKey (rs_artifact e) \<noteq> None"

definition resolve_device_allowed_keys :: "release_host \<Rightarrow> releases_db \<Rightarrow> string \<Rightarrow> string list" where
  "resolve_device_allowed_keys h db deviceId =
     fold set_add (map (\<lambda>e. the (ra_storageKey (rs_artifact e)))
       (filter stored_blob (resolve_device_artifacts h db deviceId))) []"

record ota_target =
  ot_storageKey :: string
  ot_sha256 :: string
  ot_version :: string
  ot_releaseId :: string
  ot_variantId :: string

definition resolve_ota_target :: "release_host \<Rightarrow> releases_db \<Rightarrow> string \<Rightarrow> ota_target option" where
  "resolve_ota_target h db deviceId =
     (case find (\<lambda>e. ra_role (rs_artifact e) = ''app'' \<and> stored_blob e) (resolve_device_artifacts h db deviceId) of
        None \<Rightarrow> None
      | Some app \<Rightarrow>
          (case (ra_storageKey (rs_artifact app), ra_sha256 (rs_artifact app)) of
             (Some key, Some sha) \<Rightarrow>
               Some \<lparr>ot_storageKey = key, ot_sha256 = sha, ot_version = rs_releaseVersion app,
                     ot_releaseId = rs_releaseId app, ot_variantId = rs_variantId app\<rparr>
           | _ \<Rightarrow> None))"

definition resolve_profile_tracks ::
    "release_host \<Rightarrow> releases_db \<Rightarrow> string \<Rightarrow> (profile_track_row \<times> track_resolution) list" where
  "resolve_profile_tracks h db profileId =
     map (\<lambda>t. (t, resolve_track h db t)) (filter (\<lambda>t. pt_profileId t = profileId) (rd_tracks db))"

definition resolve_device_tracks ::
    "release_host \<Rightarrow> releases_db \<Rightarrow> string \<Rightarrow> (profile_track_row \<times> track_resolution) list" where
  "resolve_device_tracks h db deviceId = map (\<lambda>t. (t, resolve_track h db t)) (tracks_for_device db deviceId)"

section \<open>Over-the-air updates\<close>

definition ota_in_topic :: "string \<Rightarrow> string" where
  "ota_in_topic deviceId = ''helix/device/'' @ deviceId @ ''/in''"

definition ota_packet :: "ota_target \<Rightarrow> packet" where
  "ota_packet target = \<lparr>p_message = JObj [(''method'', JStr ''ota-update''),
     (''payload'', JObj [(''packagePath'', JStr (ot_storageKey target)), (''sha256'', JStr (ot_sha256 target)),
        (''version'', JStr (ot_version target))]),
     (''service'', JStr ''ota'')], p_requestId = None\<rparr>"

text \<open>The target, and the message to publish: topic, text and quality of service.\<close>

definition publish_ota ::
    "release_host \<Rightarrow> releases_db \<Rightarrow> string \<Rightarrow> ota_target option \<times> (string \<times> string \<times> nat) list" where
  "publish_ota h db deviceId =
     (case resolve_ota_target h db deviceId of
        None \<Rightarrow> (None, [])
      | Some target \<Rightarrow> (Some target, [(ota_in_topic deviceId, encode_packet (ota_packet target), 1)]))"

section \<open>The device's file API\<close>

text \<open>\<open>sign_get\<close> and \<open>sign_put\<close> are the storage provider's signed requests; a path key that is
  no storage path makes the procedure fail.\<close>

definition create_device_download_session ::
    "(string \<Rightarrow> 'r) \<Rightarrow> string \<Rightarrow> string \<Rightarrow> trpc_error + 'r" where
  "create_device_download_session sign_get deviceId path =
     (if path = [] then Inl (TRPC BAD_REQUEST ''path'')
      else case join_device_storage_key deviceId path of
        Inl e \<Rightarrow> Inl (TRPC INTERNAL_ERROR (storage_error_text e))
      | Inr key \<Rightarrow> Inr (sign_get key))"

definition create_device_upload_session ::
    "(string \<Rightarrow> string \<Rightarrow> 'r) \<Rightarrow> string \<Rightarrow> string \<Rightarrow> string option \<Rightarrow> trpc_error + 'r" where
  "create_device_upload_session sign_put deviceId path contentType =
     (if path = [] \<or> contentType = Some [] then Inl (TRPC BAD_REQUEST ''path'')
      else case join_device_storage_key deviceId path of
        Inl e \<Rightarrow> Inl (TRPC INTERNAL_ERROR (storage_error_text e))
      | Inr key \<Rightarrow> Inr (sign_put (or_else contentType ''application/octet-stream'') key))"

definition create_package_download_session ::
    "release_host \<Rightarrow> (string \<Rightarrow> 'r) \<Rightarrow> device_row list \<Rightarrow> releases_db \<Rightarrow> string \<Rightarrow> string \<Rightarrow> trpc_error + 'r" where
  "create_package_download_session h sign_get devices db deviceId path =
     (if path = [] then Inl (TRPC BAD_REQUEST ''path'')
      else if map_option dv_isActive (find (\<lambda>d. dv_id d = deviceId) devices) \<noteq> Some True
      then Inl (TRPC FORBIDDEN ''Device is not active.'')
      else if path \<notin> set (resolve_device_allowed_keys h db deviceId)
      then Inl (TRPC FORBIDDEN ''Device is not authorized for this artifact.'')
      else Inr (sign_get path))"

section \<open>Lemmas\<close>

lemma newest_mem: "newest vs = Some v \<Longrightarrow> v \<in> set vs"
  by (induction vs arbitrary: v) (auto split: option.splits if_splits)

lemma newest_max: "newest vs = Some v \<Longrightarrow> w \<in> set vs \<Longrightarrow> va_createdAt w \<le> va_createdAt v"
proof (induction vs arbitrary: v)
  case (Cons u us)
  show ?case
  proof (cases "newest us")
    case None
    with Cons.prems show ?thesis by (cases us) (auto split: option.splits if_splits)
  next
    case (Some x)
    with Cons show ?thesis by (fastforce split: if_splits)
  qed
qed simp

lemma newest_None: "newest vs = None \<longleftrightarrow> vs = []"
  by (induction vs) (auto split: option.splits)

lemma set_fold_add: "set (fold set_add xs ys) = set ys \<union> set xs"
  by (induction xs arbitrary: ys) auto

lemma allowed_keys_iff:
  "k \<in> set (resolve_device_allowed_keys h db dev) \<longleftrightarrow>
     (\<exists>e \<in> set (resolve_device_artifacts h db dev). ra_storageMode (rs_artifact e) = ''blob'' \<and>
        ra_storageKey (rs_artifact e) = Some k)"
  by (force simp: resolve_device_allowed_keys_def set_fold_add stored_blob_def image_iff)

lemma resolve_track_Resolved:
  assumes "tr_status (resolve_track h db t) = Resolved"
  obtains rid src r v where "track_release db t = Some (rid, src)" "find (\<lambda>r. re_id r = rid) (rd_releases db) = Some r"
    "v \<in> set (rd_variants db)" "va_releaseId v = rid" "va_status v = ''ready''"
    "rh_contains h (va_selector v) (or_else (pt_selector t) (JObj []))"
    "resolve_track h db t = \<lparr>tr_status = Resolved, tr_source = Some src, tr_release = Some r, tr_variant = Some v,
       tr_artifacts = linked_artifacts db (va_id v)\<rparr>"
proof (cases "track_release db t")
  case None
  then show thesis using assms by (simp add: resolve_track_def no_release_def)
next
  case (Some p)
  then obtain rid src where p: "track_release db t = Some (rid, src)" by (cases p) simp
  show thesis
  proof (cases "find (\<lambda>r. re_id r = rid) (rd_releases db)")
    case None
    then show thesis using assms p by (simp add: resolve_track_def no_release_def)
  next
    case (Some r)
    let ?vs = "filter (\<lambda>v. va_releaseId v = rid \<and> va_status v = ''ready'' \<and>
        rh_contains h (va_selector v) (or_else (pt_selector t) (JObj []))) (rd_variants db)"
    show thesis
    proof (cases "newest ?vs")
      case None
      then show thesis using assms p Some by (simp add: resolve_track_def Let_def)
    next
      case v: (Some v)
      then have "v \<in> set ?vs" by (rule newest_mem)
      then show thesis using that[OF p Some] v p Some by (simp add: resolve_track_def Let_def)
    qed
  qed
qed

lemma resolve_track_artifacts:
  "tr_status (resolve_track h db t) = Resolved \<Longrightarrow>
   \<exists>vid. tr_artifacts (resolve_track h db t) = linked_artifacts db vid"
  by (erule resolve_track_Resolved) auto

lemma resolve_track_found:
  assumes "track_release db t = Some (rid, src)" "find (\<lambda>r. re_id r = rid) (rd_releases db) = Some x"
  shows "tr_release (resolve_track h db t) = Some x" "tr_source (resolve_track h db t) = Some src"
    "tr_status (resolve_track h db t) = Resolved \<longleftrightarrow>
       (\<exists>v \<in> set (rd_variants db). va_releaseId v = rid \<and> va_status v = ''ready'' \<and>
          rh_contains h (va_selector v) (or_else (pt_selector t) (JObj [])))"
proof -
  let ?vs = "filter (\<lambda>v. va_releaseId v = rid \<and> va_status v = ''ready'' \<and>
      rh_contains h (va_selector v) (or_else (pt_selector t) (JObj []))) (rd_variants db)"
  have r: "resolve_track h db t =
      (case newest ?vs of
         None \<Rightarrow> \<lparr>tr_status = No_variant, tr_source = Some src, tr_release = Some x, tr_variant = None, tr_artifacts = []\<rparr>
       | Some v \<Rightarrow> \<lparr>tr_status = Resolved, tr_source = Some src, tr_release = Some x, tr_variant = Some v,
           tr_artifacts = linked_artifacts db (va_id v)\<rparr>)"
    by (simp add: resolve_track_def assms Let_def)
  show "tr_release (resolve_track h db t) = Some x" "tr_source (resolve_track h db t) = Some src"
    by (simp_all add: r split: option.split)
  have "tr_status (resolve_track h db t) = Resolved \<longleftrightarrow> newest ?vs \<noteq> None" by (simp add: r split: option.split)
  then show "tr_status (resolve_track h db t) = Resolved \<longleftrightarrow>
       (\<exists>v \<in> set (rd_variants db). va_releaseId v = rid \<and> va_status v = ''ready'' \<and>
          rh_contains h (va_selector v) (or_else (pt_selector t) (JObj [])))"
    unfolding newest_None filter_empty_conv by blast
qed

lemma linked_artifacts_mem:
  "ra \<in> set (linked_artifacts db vid) \<longleftrightarrow>
   (\<exists>l a. l \<in> set (rd_links db) \<and> vl_variantId l = vid \<and> a \<in> set (rd_artifacts db) \<and> ar_id a = vl_artifactId l \<and>
     ra = \<lparr>ra_role = vl_role l, ra_offset = vl_offset l, ra_storageMode = ar_storageMode a,
          ra_storageKey = ar_storageKey a, ra_sha256 = ar_sha256 a, ra_sizeBytes = ar_sizeBytes a\<rparr>)"
  by (auto simp: linked_artifacts_def)

lemma tracks_for_device_mem:
  "t \<in> set (tracks_for_device db dev) \<longleftrightarrow>
     t \<in> set (rd_tracks db) \<and> (\<exists>p \<in> set (rd_deviceProfiles db). dp_deviceId p = dev \<and> dp_profileId p = pt_profileId t)"
  by (force simp: tracks_for_device_def Let_def filter_empty_conv image_iff)

lemma device_artifacts_mem:
  "e \<in> set (resolve_device_artifacts h db dev) \<Longrightarrow>
   \<exists>t \<in> set (tracks_for_device db dev). \<exists>r v. tr_status (resolve_track h db t) = Resolved \<and>
     tr_release (resolve_track h db t) = Some r \<and> tr_variant (resolve_track h db t) = Some v \<and>
     rs_artifact e \<in> set (tr_artifacts (resolve_track h db t)) \<and>
     rs_releaseId e = re_id r \<and> rs_releaseVersion e = re_version r \<and> rs_variantId e = va_id v"
  unfolding resolve_device_artifacts_def Let_def
  by (clarsimp split: resolve_status.splits option.splits) metis

section \<open>Properties\<close>

text \<open>C9: A device gets a package only if it may run it: a download session for a path is
  granted only to an active device, and only if the path is the content-addressed key of a
  blob that is linked to a ready variant of the release that one of the device's own
  profile tracks resolves to, by pin or by the head of its channel, and whose selector
  contains the track's.\<close>

theorem package_download_authorized:
  assumes ok: "db_ok h db" and grant: "create_package_download_session h sign_get devices db dev path = Inr req"
  shows "req = sign_get path \<and> (\<exists>d \<in> set devices. dv_id d = dev \<and> dv_isActive d) \<and>
    (\<exists>p t rid src v l a sha. p \<in> set (rd_deviceProfiles db) \<and> dp_deviceId p = dev \<and>
       t \<in> set (rd_tracks db) \<and> pt_profileId t = dp_profileId p \<and> track_release db t = Some (rid, src) \<and>
       v \<in> set (rd_variants db) \<and> va_releaseId v = rid \<and> va_status v = ''ready'' \<and>
       rh_contains h (va_selector v) (or_else (pt_selector t) (JObj [])) \<and>
       l \<in> set (rd_links db) \<and> vl_variantId l = va_id v \<and> a \<in> set (rd_artifacts db) \<and> ar_id a = vl_artifactId l \<and>
       ar_sha256 a = Some sha \<and> join_cas_key sha = Inr path)"
proof -
  have path: "path \<in> set (resolve_device_allowed_keys h db dev)" and req: "req = sign_get path"
    and active: "map_option dv_isActive (find (\<lambda>d. dv_id d = dev) devices) = Some True"
    using grant by (auto simp: create_package_download_session_def split: if_splits)
  obtain d where "find (\<lambda>d. dv_id d = dev) devices = Some d" "dv_isActive d" using active by auto
  then have dev: "\<exists>d \<in> set devices. dv_id d = dev \<and> dv_isActive d" using find_Some_mem by fastforce
  obtain e where e: "e \<in> set (resolve_device_artifacts h db dev)" "ra_storageMode (rs_artifact e) = ''blob''"
      "ra_storageKey (rs_artifact e) = Some path"
    using path unfolding allowed_keys_iff by blast
  obtain t where t: "t \<in> set (tracks_for_device db dev)" "tr_status (resolve_track h db t) = Resolved"
      "rs_artifact e \<in> set (tr_artifacts (resolve_track h db t))"
    using device_artifacts_mem[OF e(1)] by blast
  obtain rid src v where v: "track_release db t = Some (rid, src)" "v \<in> set (rd_variants db)" "va_releaseId v = rid"
      "va_status v = ''ready''" "rh_contains h (va_selector v) (or_else (pt_selector t) (JObj []))"
      "tr_artifacts (resolve_track h db t) = linked_artifacts db (va_id v)"
    by (rule resolve_track_Resolved[OF t(2)]) simp
  obtain l a where la: "l \<in> set (rd_links db)" "vl_variantId l = va_id v" "a \<in> set (rd_artifacts db)"
      "ar_id a = vl_artifactId l" "ar_storageMode a = ''blob''" "ar_storageKey a = Some path"
    using t(3) e(2,3) unfolding v(6) linked_artifacts_mem by fastforce
  have "artifact_row_ok a" using db_okD(6)[OF ok] la(3) by blast
  then obtain sha where "ar_sha256 a = Some sha" "join_cas_key sha = Inr path"
    using la(5,6) by (auto simp: artifact_row_ok_def)
  then show ?thesis using req dev t(1) v(1-5) la(1-4) unfolding tracks_for_device_mem by metis
qed

text \<open>C22: What the over-the-air publisher advertises, the device can fetch: when a device has a
  target, the message published on its topic decodes to exactly that target, and the
  package path in it is granted to the device, as long as it is active.\<close>

theorem ota_target_fetchable:
  assumes ok: "db_ok h db" and target: "resolve_ota_target h db dev = Some t"
    and active: "find (\<lambda>d. dv_id d = dev) devices = Some d" "dv_isActive d"
  shows "create_package_download_session h sign_get devices db dev (ot_storageKey t) = Inr (sign_get (ot_storageKey t)) \<and>
    join_cas_key (ot_sha256 t) = Inr (ot_storageKey t) \<and>
    (\<exists>wire. publish_ota h db dev = (Some t, [(''helix/device/'' @ dev @ ''/in'', wire, 1)]) \<and>
       decode_packet wire = Inr (ota_packet t))"
proof -
  obtain e where find: "find (\<lambda>e. ra_role (rs_artifact e) = ''app'' \<and> stored_blob e) (resolve_device_artifacts h db dev) = Some e"
    and key: "ra_storageKey (rs_artifact e) = Some (ot_storageKey t)" "ra_sha256 (rs_artifact e) = Some (ot_sha256 t)"
    using target by (auto simp: resolve_ota_target_def split: option.splits)
  have e: "e \<in> set (resolve_device_artifacts h db dev)" "ra_storageMode (rs_artifact e) = ''blob''"
    using find_Some_mem[OF find] by (auto simp: stored_blob_def)
  then have allowed: "ot_storageKey t \<in> set (resolve_device_allowed_keys h db dev)"
    using key(1) unfolding allowed_keys_iff by blast
  obtain tr where tr: "tr_status (resolve_track h db tr) = Resolved"
      "rs_artifact e \<in> set (tr_artifacts (resolve_track h db tr))"
    using device_artifacts_mem[OF e(1)] by blast
  obtain vid where "tr_artifacts (resolve_track h db tr) = linked_artifacts db vid"
    using resolve_track_artifacts[OF tr(1)] by blast
  with tr(2) have "rs_artifact e \<in> set (linked_artifacts db vid)" by (simp only:)
  then obtain l :: variant_artifact_row and a where a1: "a \<in> set (rd_artifacts db)"
      and "rs_artifact e = \<lparr>ra_role = vl_role l, ra_offset = vl_offset l, ra_storageMode = ar_storageMode a,
          ra_storageKey = ar_storageKey a, ra_sha256 = ar_sha256 a, ra_sizeBytes = ar_sizeBytes a\<rparr>"
    unfolding linked_artifacts_mem by blast
  then have a: "a \<in> set (rd_artifacts db)" "ar_storageMode a = ''blob''"
      "ar_storageKey a = Some (ot_storageKey t)" "ar_sha256 a = Some (ot_sha256 t)"
    using e(2) key by simp_all
  have cas: "join_cas_key (ot_sha256 t) = Inr (ot_storageKey t)"
    using db_okD(6)[OF ok] a by (auto simp: artifact_row_ok_def)
  then have "ot_storageKey t \<noteq> []" by (auto simp: join_cas_key_def split: if_splits)
  with allowed active have session: "create_package_download_session h sign_get devices db dev (ot_storageKey t) =
      Inr (sign_get (ot_storageKey t))" by (simp add: create_package_download_session_def)
  have "decode_packet (encode_packet (ota_packet t)) = Inr (ota_packet t)"
    by (rule decode_encode_packet) (simp add: ota_packet_def)
  with session cas show ?thesis by (simp add: publish_ota_def target ota_in_topic_def)
qed

text \<open>C10: What is published reaches the channel: after a release has been ingested for
  publication, a profile track on that type, name and channel without a pin resolves to
  exactly this release, ready and with the descriptor's version, by the channel's head; and
  to one of its variants as soon as some ready variant contains the track's selector. A
  pinned track stays where it was.\<close>

theorem published_is_resolved:
  assumes inj: "inj (rh_random h)" and ok: "db_ok h db" and run: "ingest_release h now d c db = Inr (r, db')"
    and pub: "de_publish d"
    and t: "pt_typeKey t = de_typeKey d" "pt_releaseName t = de_name d"
  shows "(pt_pinnedReleaseId t = None \<longrightarrow> pt_channel t = Some (de_channel d) \<longrightarrow>
      (\<exists>x. tr_release (resolve_track h db' t) = Some x \<and> re_id x = ir_releaseId r \<and> same_release d x \<and>
         re_status x = ''ready'' \<and> tr_source (resolve_track h db' t) = Some Channel) \<and>
      (tr_status (resolve_track h db' t) = Resolved \<longleftrightarrow>
         (\<exists>v \<in> set (rd_variants db'). va_releaseId v = ir_releaseId r \<and> va_status v = ''ready'' \<and>
            rh_contains h (va_selector v) (or_else (pt_selector t) (JObj []))))) \<and>
    (pt_pinnedReleaseId t \<noteq> None \<longrightarrow> track_release db' t = track_release db t)"
proof -
  note k = ingest_keeps_lemma[OF inj ok run]
  let ?rid = "ir_releaseId r"
  obtain x where x: "x \<in> set (rd_releases db')" "re_id x = ?rid" "same_release d x" "re_status x = ''ready''"
    using k pub by blast
  have "distinct (map re_id (rd_releases db'))" using k db_okD(2) unfolding table_ok_def by blast
  then have find: "find (\<lambda>r. re_id r = ?rid) (rd_releases db') = Some x"
    using x(1,2) find_distinct by metis
  obtain hd where hd: "find (same_head d) (rd_heads db') = Some hd" "ch_releaseId hd = ?rid" using k pub by blast
  have "track_release db' t = Some (?rid, Channel)" if "pt_pinnedReleaseId t = None" "pt_channel t = Some (de_channel d)"
    using hd t that by (simp add: track_release_def same_head_def[abs_def])
  then show ?thesis using resolve_track_found[OF _ find, of t Channel h] x
    by (cases "pt_pinnedReleaseId t") (simp_all add: track_release_def)
qed

section \<open>A device on the stable channel\<close>

definition demo_fleet :: releases_db where
  "demo_fleet = (snd demo_ingested)
     \<lparr>rd_tracks := [\<lparr>pt_id = ''t1'', pt_profileId = ''p1'', pt_typeKey = ''esp32'', pt_releaseName = ''helix'',
        pt_channel = Some ''stable'', pt_pinnedReleaseId = None,
        pt_selector = Some (JObj [(''chip'', JStr ''esp32s3''), (''flashSize'', JStr ''4MB'')]), pt_autoUpdate = True\<rparr>],
      rd_deviceProfiles := [\<lparr>dp_deviceId = ''dev'', dp_profileId = ''p1''\<rparr>]\<rparr>"

definition demo_devices :: "device_row list" where
  "demo_devices = [\<lparr>dv_id = ''dev'', dv_accessToken = ''tok'', dv_isActive = True\<rparr>]"

lemma demo_fleet_ok: "db_ok demo_host demo_fleet"
proof -
  have "db_ok demo_host (snd demo_ingested)"
    using ingest_keeps_lemma[OF demo_releases_ok(2,1) demo_ingest(1)] by simp
  then show ?thesis by (simp add: demo_fleet_def db_ok_def tables_ok_def references_ok_def)
qed

lemma demo_fleet_facts:
  "create_package_download_session demo_host (\<lambda>k. k) demo_devices demo_fleet ''dev'' (''cas/'' @ demo_sha) = Inr (''cas/'' @ demo_sha)"
  "resolve_ota_target demo_host demo_fleet ''dev'' =
     Some \<lparr>ot_storageKey = ''cas/'' @ demo_sha, ot_sha256 = demo_sha, ot_version = ''1.2'', ot_releaseId = ''rel_0'',
       ot_variantId = ''var_2''\<rparr>"
  by code_simp+

theorem package_download_authorized_witness:
  "\<exists>sha. join_cas_key sha = Inr (''cas/'' @ demo_sha)"
  using package_download_authorized[OF demo_fleet_ok demo_fleet_facts(1)] by blast

theorem ota_target_fetchable_witness:
  "\<exists>wire. snd (publish_ota demo_host demo_fleet ''dev'') = [(''helix/device/dev/in'', wire, 1)]"
  using ota_target_fetchable[OF demo_fleet_ok demo_fleet_facts(2), of demo_devices "hd demo_devices" "\<lambda>k. k"]
  by (auto simp: demo_devices_def)

theorem published_is_resolved_witness:
  "tr_source (resolve_track demo_host (snd demo_ingested) (hd (rd_tracks demo_fleet))) = Some Channel"
proof -
  have "de_publish demo_descriptor" "pt_typeKey (hd (rd_tracks demo_fleet)) = de_typeKey demo_descriptor"
    "pt_releaseName (hd (rd_tracks demo_fleet)) = de_name demo_descriptor"
    by (simp_all add: demo_descriptor_def demo_fleet_def)
  from published_is_resolved[OF demo_releases_ok(2,1) demo_ingest(1) this] show ?thesis
    by (auto simp: demo_fleet_def demo_descriptor_def)
qed

end
