(* ===== verification/Profile_Admin.thy ===== *)
theory Profile_Admin
  imports Device_Registry Release_Resolve
begin

text \<open>
  Profiles (\<open>web/packages/helix-backend/src/profiles/admin-router.ts\<close>): bundles of release tracks
  and their assignment to devices. Deleting a row of \<open>profile\<close> deletes its tracks, a foreign key
  with \<open>ON DELETE CASCADE\<close>; assignments have no foreign key. The time of an assignment is left
  out; a device is read from the registry.
\<close>

section \<open>State\<close>

record profile_row =
  pr_id :: string
  pr_name :: string
  pr_description :: "string option"
  pr_ownerUserId :: "string option"
  pr_createdAt :: nat

text \<open>The tables the procedures touch: profiles, the release service's with tracks and assignments,
  and the registry of devices.\<close>

record profiles_db =
  pd_profiles :: "profile_row list"
  pd_releases :: releases_db
  pd_devices :: "registry_row list"

abbreviation pd_tracks :: "profiles_db \<Rightarrow> profile_track_row list" where
  "pd_tracks db \<equiv> rd_tracks (pd_releases db)"

abbreviation pd_assignments :: "profiles_db \<Rightarrow> device_profile_row list" where
  "pd_assignments db \<equiv> rd_deviceProfiles (pd_releases db)"

definition set_tracks :: "profile_track_row list \<Rightarrow> profiles_db \<Rightarrow> profiles_db" where
  "set_tracks ts db = db\<lparr>pd_releases := (pd_releases db)\<lparr>rd_tracks := ts\<rparr>\<rparr>"

definition set_assignments :: "device_profile_row list \<Rightarrow> profiles_db \<Rightarrow> profiles_db" where
  "set_assignments xs db = db\<lparr>pd_releases := (pd_releases db)\<lparr>rd_deviceProfiles := xs\<rparr>\<rparr>"

section \<open>Profiles\<close>

definition profile_create ::
    "release_host \<Rightarrow> nat \<Rightarrow> admin_user option \<Rightarrow> string list \<Rightarrow> string \<Rightarrow> string option \<Rightarrow> profiles_db
      \<Rightarrow> trpc_error + string \<times> profiles_db" where
  "profile_create h now user roles name description db = admin_procedure user roles (\<lambda>u.
     bind_sum (z_name name) (\<lambda>name. bind_sum (z_description description) (\<lambda>description.
       let (i, releases) = draw_id h ''prof'' (pd_releases db)
       in if i \<in> pr_id ` set (pd_profiles db) then Inl (TRPC INTERNAL_ERROR ''unique'')
          else Inr (i, db\<lparr>pd_profiles := pd_profiles db @ [\<lparr>pr_id = i, pr_name = name, pr_description = description,
                 pr_ownerUserId = Some (au_id u), pr_createdAt = now\<rparr>], pd_releases := releases\<rparr>))))"

text \<open>The columns of an update that are not \<open>undefined\<close>; a description can be set to \<open>null\<close>.\<close>

definition change_profile :: "string option \<Rightarrow> string option option \<Rightarrow> profile_row \<Rightarrow> profile_row" where
  "change_profile name description r =
     (let r1 = (case name of None \<Rightarrow> r | Some n \<Rightarrow> r\<lparr>pr_name := n\<rparr>)
      in case description of None \<Rightarrow> r1 | Some d \<Rightarrow> r1\<lparr>pr_description := d\<rparr>)"

definition z_optional_name :: "string option \<Rightarrow> trpc_error + string option" where
  "z_optional_name v = (case v of None \<Rightarrow> Inr None | Some s \<Rightarrow> bind_sum (z_name s) (\<lambda>t. Inr (Some t)))"

definition z_nullable_description :: "string option option \<Rightarrow> trpc_error + string option option" where
  "z_nullable_description v = (case v of None \<Rightarrow> Inr None | Some d \<Rightarrow> bind_sum (z_description d) (\<lambda>d. Inr (Some d)))"

text \<open>An update with nothing to set is an error of the query builder.\<close>

definition profile_update ::
    "admin_user option \<Rightarrow> string list \<Rightarrow> string \<Rightarrow> string option \<Rightarrow> string option option \<Rightarrow> profiles_db \<Rightarrow> trpc_error + profiles_db" where
  "profile_update user roles i name description db = admin_procedure user roles (\<lambda>u.
     bind_sum (z_optional_name name) (\<lambda>name. bind_sum (z_nullable_description description) (\<lambda>description.
       if name = None \<and> description = None then Inl (TRPC INTERNAL_ERROR ''No values to set'')
       else Inr (db\<lparr>pd_profiles := map (\<lambda>r. if pr_id r = i then change_profile name description r else r) (pd_profiles db)\<rparr>))))"

definition profile_delete ::
    "admin_user option \<Rightarrow> string list \<Rightarrow> string \<Rightarrow> profiles_db \<Rightarrow> trpc_error + profiles_db" where
  "profile_delete user roles i db = admin_procedure user roles (\<lambda>u.
     let db1 = set_assignments (filter (\<lambda>a. dp_profileId a \<noteq> i) (pd_assignments db)) db;
         db2 = set_tracks (filter (\<lambda>t. pt_profileId t \<noteq> i) (pd_tracks db1)) db1
     in Inr (db2\<lparr>pd_profiles := filter (\<lambda>r. pr_id r \<noteq> i) (pd_profiles db2)\<rparr>))"

section \<open>Tracks\<close>

record track_config =
  tc_channel :: "string option"
  tc_pinnedReleaseId :: "string option"
  tc_selector :: "(string \<times> string) list"
  tc_autoUpdate :: bool

definition selector_json :: "(string \<times> string) list \<Rightarrow> json" where
  "selector_json es = JObj (map (\<lambda>(k, v). (k, JStr v)) es)"

definition follows_nothing :: "track_config \<Rightarrow> bool" where
  "follows_nothing c \<longleftrightarrow> tc_channel c = None \<and> tc_pinnedReleaseId c = None"

text \<open>The columns a configuration sets: the channel is dropped when a release is pinned.\<close>

definition configure_track :: "track_config \<Rightarrow> profile_track_row \<Rightarrow> profile_track_row" where
  "configure_track c t = t\<lparr>pt_channel := (if tc_pinnedReleaseId c = None then tc_channel c else None),
     pt_pinnedReleaseId := tc_pinnedReleaseId c, pt_selector := Some (selector_json (tc_selector c)),
     pt_autoUpdate := tc_autoUpdate c\<rparr>"

definition track_key :: "profile_track_row \<Rightarrow> string \<times> string \<times> string" where
  "track_key t = (pt_profileId t, pt_typeKey t, pt_releaseName t)"

definition new_track :: "string \<Rightarrow> string \<Rightarrow> string \<Rightarrow> string \<Rightarrow> track_config \<Rightarrow> profile_track_row" where
  "new_track i profileId typeKey releaseName c = configure_track c
     \<lparr>pt_id = i, pt_profileId = profileId, pt_typeKey = typeKey, pt_releaseName = releaseName, pt_channel = None,
      pt_pinnedReleaseId = None, pt_selector = None, pt_autoUpdate = True\<rparr>"

text \<open>The unique index and the foreign key of the table reject the row.\<close>

definition insert_track :: "profile_track_row \<Rightarrow> profiles_db \<Rightarrow> trpc_error + profiles_db" where
  "insert_track t db =
     (if \<exists>s\<in>set (pd_tracks db). pt_id s = pt_id t \<or> track_key s = track_key t then Inl (TRPC INTERNAL_ERROR ''unique'')
      else if pt_profileId t \<notin> pr_id ` set (pd_profiles db) then Inl (TRPC INTERNAL_ERROR ''foreign key'')
      else Inr (set_tracks (pd_tracks db @ [t]) db))"

definition add_track ::
    "release_host \<Rightarrow> admin_user option \<Rightarrow> string list \<Rightarrow> string \<Rightarrow> string \<Rightarrow> string \<Rightarrow> track_config \<Rightarrow> profiles_db
      \<Rightarrow> trpc_error + profiles_db" where
  "add_track h user roles profileId typeKey releaseName c db = admin_procedure user roles (\<lambda>u.
     if typeKey = [] \<or> releaseName = [] then Inl (TRPC BAD_REQUEST ''input'')
     else if follows_nothing c then Inl (TRPC BAD_REQUEST ''A track must follow a channel or pin a release'')
     else let (i, releases) = draw_id h ''ptrk'' (pd_releases db)
          in insert_track (new_track i profileId typeKey releaseName c) (db\<lparr>pd_releases := releases\<rparr>))"

definition update_track ::
    "admin_user option \<Rightarrow> string list \<Rightarrow> string \<Rightarrow> track_config \<Rightarrow> profiles_db \<Rightarrow> trpc_error + profiles_db" where
  "update_track user roles trackId c db = admin_procedure user roles (\<lambda>u.
     if follows_nothing c then Inl (TRPC BAD_REQUEST ''A track must follow a channel or pin a release'')
     else Inr (set_tracks (map (\<lambda>t. if pt_id t = trackId then configure_track c t else t) (pd_tracks db)) db))"

definition remove_track :: "admin_user option \<Rightarrow> string list \<Rightarrow> string \<Rightarrow> profiles_db \<Rightarrow> trpc_error + profiles_db" where
  "remove_track user roles trackId db = admin_procedure user roles (\<lambda>u.
     Inr (set_tracks (filter (\<lambda>t. pt_id t \<noteq> trackId) (pd_tracks db)) db))"

section \<open>Assignments\<close>

definition assign_device :: "admin_user option \<Rightarrow> string list \<Rightarrow> string \<Rightarrow> string \<Rightarrow> profiles_db \<Rightarrow> trpc_error + profiles_db" where
  "assign_device user roles profileId deviceId db = admin_procedure user roles (\<lambda>u.
     Inr (set_assignments (set_add \<lparr>dp_deviceId = deviceId, dp_profileId = profileId\<rparr> (pd_assignments db)) db))"

definition unassign_device :: "admin_user option \<Rightarrow> string list \<Rightarrow> string \<Rightarrow> string \<Rightarrow> profiles_db \<Rightarrow> trpc_error + profiles_db" where
  "unassign_device user roles profileId deviceId db = admin_procedure user roles (\<lambda>u.
     Inr (set_assignments (filter (\<lambda>a. \<not> (dp_profileId a = profileId \<and> dp_deviceId a = deviceId)) (pd_assignments db)) db))"

section \<open>Queries\<close>

record profile_listing =
  pg_profile :: profile_row
  pg_trackCount :: nat
  pg_deviceCount :: nat

definition profile_listing_of :: "profiles_db \<Rightarrow> profile_row \<Rightarrow> profile_listing" where
  "profile_listing_of db r = \<lparr>pg_profile = r,
     pg_trackCount = length (filter (\<lambda>t. pt_profileId t = pr_id r) (pd_tracks db)),
     pg_deviceCount = length (filter (\<lambda>a. dp_profileId a = pr_id r) (pd_assignments db))\<rparr>"

definition profile_sortable :: "(string \<Rightarrow> string \<Rightarrow> bool) \<Rightarrow> (string \<times> profile_row column) list" where
  "profile_sortable le = [(''name'', \<lambda>a b. le (pr_name a) (pr_name b)), (''createdAt'', \<lambda>a b. pr_createdAt a \<le> pr_createdAt b)]"

definition profile_list ::
    "(char \<Rightarrow> char) \<Rightarrow> (string \<Rightarrow> string \<Rightarrow> bool) \<Rightarrow> admin_user option \<Rightarrow> string list \<Rightarrow> int \<Rightarrow> int \<Rightarrow> string
      \<Rightarrow> sort_item list \<Rightarrow> profiles_db \<Rightarrow> trpc_error + profile_listing page" where
  "profile_list fold_case le user roles page perPage name sorting db = admin_procedure user roles (\<lambda>u.
     bind_sum (z_page page perPage) (\<lambda>(page, perPage).
       Inr (paginate page perPage (map (profile_listing_of db)
         (sort_by (order_by_columns (profile_sortable le) (\<lambda>a b. pr_createdAt a \<le> pr_createdAt b) sorting)
           (filter (name_filter fold_case pr_name name) (pd_profiles db)))))))"

record profile_detail =
  pf_profile :: profile_row
  pf_tracks :: "(profile_track_row \<times> track_resolution) list"
  pf_devices :: "registry_row list"

text \<open>The inner join of the assignments with the devices, by name.\<close>

definition assigned_devices :: "(string \<Rightarrow> string \<Rightarrow> bool) \<Rightarrow> profiles_db \<Rightarrow> string \<Rightarrow> registry_row list" where
  "assigned_devices le db i = sort_by (\<lambda>a b. le (rg_name a) (rg_name b))
     (concat (map (\<lambda>a. filter (\<lambda>d. dv_id d = dp_deviceId a) (pd_devices db))
       (filter (\<lambda>a. dp_profileId a = i) (pd_assignments db))))"

definition profile_get ::
    "release_host \<Rightarrow> (string \<Rightarrow> string \<Rightarrow> bool) \<Rightarrow> admin_user option \<Rightarrow> string list \<Rightarrow> string \<Rightarrow> profiles_db
      \<Rightarrow> trpc_error + profile_detail option" where
  "profile_get h le user roles i db = admin_procedure user roles (\<lambda>u.
     Inr (map_option (\<lambda>r. \<lparr>pf_profile = r, pf_tracks = resolve_profile_tracks h (pd_releases db) i,
            pf_devices = assigned_devices le db i\<rparr>)
       (find (\<lambda>r. pr_id r = i) (pd_profiles db))))"

record track_options =
  to_types :: "(string \<times> string) list"
  to_releaseLines :: "(string \<times> string) list"
  to_channels :: "string list"
  to_releases :: "release_row list"

text \<open>The selector keys of a type are left out with its other display settings.\<close>

definition track_options_of ::
    "(string \<Rightarrow> string \<Rightarrow> bool) \<Rightarrow> admin_user option \<Rightarrow> string list \<Rightarrow> profiles_db \<Rightarrow> trpc_error + track_options" where
  "track_options_of le user roles db = admin_procedure user roles (\<lambda>u.
     let rs = rd_releases (pd_releases db)
     in Inr \<lparr>to_types = map (\<lambda>t. (ty_key t, ty_displayName t))
               (sort_by (\<lambda>a b. le (ty_displayName a) (ty_displayName b)) (rd_types (pd_releases db))),
             to_releaseLines = sort_by (then_by [\<lambda>a b. le (fst a) (fst b), \<lambda>a b. le (snd a) (snd b)])
               (remdups (map (\<lambda>r. (re_typeKey r, re_name r)) rs)),
             to_channels = sort_by le (remdups (map re_channel rs)),
             to_releases = sort_by (direction True (\<lambda>a b. re_createdAt a \<le> re_createdAt b)) rs\<rparr>)"

definition SEARCH_LIMIT :: nat where "SEARCH_LIMIT = 20"

definition device_search ::
    "(char \<Rightarrow> char) \<Rightarrow> (string \<Rightarrow> string \<Rightarrow> bool) \<Rightarrow> admin_user option \<Rightarrow> string list \<Rightarrow> string \<Rightarrow> string option \<Rightarrow> profiles_db
      \<Rightarrow> trpc_error + registry_row list" where
  "device_search fold_case le user roles query excludeProfileId db = admin_procedure user roles (\<lambda>u.
     let assigned = (\<lambda>d. case excludeProfileId of None \<Rightarrow> False
           | Some i \<Rightarrow> \<exists>a\<in>set (pd_assignments db). dp_profileId a = i \<and> dp_deviceId a = dv_id d)
     in Inr (take SEARCH_LIMIT (sort_by (\<lambda>a b. le (rg_name a) (rg_name b))
          (filter (\<lambda>d. name_filter fold_case rg_name query d \<and> \<not> assigned d) (pd_devices db)))))"

definition device_profiles ::
    "(string \<Rightarrow> string \<Rightarrow> bool) \<Rightarrow> admin_user option \<Rightarrow> string list \<Rightarrow> string \<Rightarrow> profiles_db \<Rightarrow> trpc_error + profile_row list" where
  "device_profiles le user roles deviceId db = admin_procedure user roles (\<lambda>u.
     Inr (sort_by (\<lambda>a b. le (pr_name a) (pr_name b))
       (concat (map (\<lambda>a. filter (\<lambda>r. pr_id r = dp_profileId a) (pd_profiles db))
         (filter (\<lambda>a. dp_deviceId a = deviceId) (pd_assignments db))))))"

definition profile_search ::
    "(char \<Rightarrow> char) \<Rightarrow> (string \<Rightarrow> string \<Rightarrow> bool) \<Rightarrow> admin_user option \<Rightarrow> string list \<Rightarrow> string \<Rightarrow> string option \<Rightarrow> profiles_db
      \<Rightarrow> trpc_error + profile_row list" where
  "profile_search fold_case le user roles query excludeDeviceId db = admin_procedure user roles (\<lambda>u.
     let assigned = (\<lambda>r. case excludeDeviceId of None \<Rightarrow> False
           | Some i \<Rightarrow> \<exists>a\<in>set (pd_assignments db). dp_deviceId a = i \<and> dp_profileId a = pr_id r)
     in Inr (take SEARCH_LIMIT (sort_by (\<lambda>a b. le (pr_name a) (pr_name b))
          (filter (\<lambda>r. name_filter fold_case pr_name query r \<and> \<not> assigned r) (pd_profiles db)))))"

definition profile_resolve_device ::
    "release_host \<Rightarrow> admin_user option \<Rightarrow> string list \<Rightarrow> string \<Rightarrow> profiles_db
      \<Rightarrow> trpc_error + (profile_track_row \<times> track_resolution) list" where
  "profile_resolve_device h user roles deviceId db = admin_procedure user roles (\<lambda>u.
     Inr (resolve_device_tracks h (pd_releases db) deviceId))"

end
