(* ===== verification/Profile_Laws.thy ===== *)
theory Profile_Laws
  imports Profile_Admin Registry_Laws
begin

text \<open>
  The administration of profiles keeps its tables in order: every track follows exactly one of a
  channel and a pinned release, and belongs to a profile. An operation reaches the devices of the
  profile it is about and no others.
\<close>

datatype profile_change =
    Profile_created
  | Profile_updated
  | Profile_deleted string
  | Track_added string
  | Track_changed string
  | Track_removed string
  | Device_assigned string
  | Device_unassigned string

inductive profile_step :: "release_host \<Rightarrow> profile_change \<Rightarrow> profiles_db \<Rightarrow> profiles_db \<Rightarrow> bool" for h where
  create: "profile_create h now user roles name description db = Inr (i, db') \<Longrightarrow> profile_step h Profile_created db db'"
| update: "profile_update user roles i new_name new_description db = Inr db' \<Longrightarrow> profile_step h Profile_updated db db'"
| delete: "profile_delete user roles i db = Inr db' \<Longrightarrow> profile_step h (Profile_deleted i) db db'"
| add_track: "add_track h user roles i typeKey releaseName c db = Inr db' \<Longrightarrow> profile_step h (Track_added i) db db'"
| update_track: "update_track user roles t c db = Inr db' \<Longrightarrow> profile_step h (Track_changed t) db db'"
| remove_track: "remove_track user roles t db = Inr db' \<Longrightarrow> profile_step h (Track_removed t) db db'"
| assign: "assign_device user roles i d db = Inr db' \<Longrightarrow> profile_step h (Device_assigned d) db db'"
| unassign: "unassign_device user roles i d db = Inr db' \<Longrightarrow> profile_step h (Device_unassigned d) db db'"

inductive profile_run :: "release_host \<Rightarrow> profile_change list \<Rightarrow> profiles_db \<Rightarrow> profiles_db \<Rightarrow> bool" for h where
  stop: "profile_run h [] db db"
| more: "profile_step h c db db1 \<Longrightarrow> profile_run h cs db1 db2 \<Longrightarrow> profile_run h (c # cs) db db2"

definition track_ok :: "profile_track_row \<Rightarrow> bool" where
  "track_ok t \<longleftrightarrow> (pt_channel t = None) \<noteq> (pt_pinnedReleaseId t = None)"

definition profiles_ok :: "profiles_db \<Rightarrow> bool" where
  "profiles_ok db \<longleftrightarrow> distinct (map pr_id (pd_profiles db)) \<and> distinct (map pt_id (pd_tracks db))
     \<and> distinct (map track_key (pd_tracks db)) \<and> distinct (pd_assignments db)
     \<and> (\<forall>t\<in>set (pd_tracks db). track_ok t \<and> pt_profileId t \<in> pr_id ` set (pd_profiles db))"

definition has_profile :: "profiles_db \<Rightarrow> string \<Rightarrow> string \<Rightarrow> bool" where
  "has_profile db d i \<longleftrightarrow> \<lparr>dp_deviceId = d, dp_profileId = i\<rparr> \<in> set (pd_assignments db)"

text \<open>The devices a change is about.\<close>

fun concerns :: "profile_change \<Rightarrow> profiles_db \<Rightarrow> string \<Rightarrow> bool" where
  "concerns Profile_created db d \<longleftrightarrow> False"
| "concerns Profile_updated db d \<longleftrightarrow> False"
| "concerns (Profile_deleted i) db d \<longleftrightarrow> has_profile db d i"
| "concerns (Track_added i) db d \<longleftrightarrow> has_profile db d i"
| "concerns (Track_changed t) db d \<longleftrightarrow> (\<exists>s\<in>set (pd_tracks db). pt_id s = t \<and> has_profile db d (pt_profileId s))"
| "concerns (Track_removed t) db d \<longleftrightarrow> (\<exists>s\<in>set (pd_tracks db). pt_id s = t \<and> has_profile db d (pt_profileId s))"
| "concerns (Device_assigned d') db d \<longleftrightarrow> d' = d"
| "concerns (Device_unassigned d') db d \<longleftrightarrow> d' = d"

section \<open>What the operations return\<close>

lemma set_simps [simp]:
  "pd_profiles (set_tracks ts db) = pd_profiles db" "pd_tracks (set_tracks ts db) = ts"
  "pd_assignments (set_tracks ts db) = pd_assignments db" "pd_devices (set_tracks ts db) = pd_devices db"
  "pd_profiles (set_assignments xs db) = pd_profiles db" "pd_tracks (set_assignments xs db) = pd_tracks db"
  "pd_assignments (set_assignments xs db) = xs" "pd_devices (set_assignments xs db) = pd_devices db"
  by (simp_all add: set_tracks_def set_assignments_def)

lemma configure_track_simps [simp]:
  "pt_id (configure_track c t) = pt_id t" "pt_profileId (configure_track c t) = pt_profileId t"
  "track_key (configure_track c t) = track_key t"
  "track_ok (configure_track c t) \<longleftrightarrow> \<not> follows_nothing c"
  by (auto simp: configure_track_def track_key_def track_ok_def follows_nothing_def)

lemma new_track_simps [simp]:
  "pt_id (new_track i p ty n c) = i" "pt_profileId (new_track i p ty n c) = p" "track_key (new_track i p ty n c) = (p, ty, n)"
  "track_ok (new_track i p ty n c) \<longleftrightarrow> \<not> follows_nothing c"
  by (simp_all add: new_track_def) (simp add: track_key_def)

lemma draw_id_tables: "rd_tracks (snd (draw_id h p db)) = rd_tracks db" "rd_deviceProfiles (snd (draw_id h p db)) = rd_deviceProfiles db"
  by (simp_all add: draw_id_def)

lemma profile_create_Inr:
  "profile_create h now user roles name description db = Inr (i, db') \<Longrightarrow>
     pd_tracks db' = pd_tracks db \<and> pd_assignments db' = pd_assignments db
     \<and> (\<exists>r. pd_profiles db' = pd_profiles db @ [r] \<and> pr_id r \<notin> pr_id ` set (pd_profiles db))"
  by (auto simp: profile_create_def admin_procedure_Inr bind_sum_Inr draw_id_def Let_def split: if_splits)

lemma profile_update_Inr:
  "profile_update user roles i name description db = Inr db' \<Longrightarrow>
     pd_tracks db' = pd_tracks db \<and> pd_assignments db' = pd_assignments db \<and> map pr_id (pd_profiles db') = map pr_id (pd_profiles db)"
  by (auto simp: profile_update_def admin_procedure_Inr bind_sum_Inr change_profile_def Let_def split: if_splits option.splits)

lemma profile_delete_Inr:
  "profile_delete user roles i db = Inr db' \<Longrightarrow>
     pd_tracks db' = filter (\<lambda>t. pt_profileId t \<noteq> i) (pd_tracks db)
     \<and> pd_assignments db' = filter (\<lambda>a. dp_profileId a \<noteq> i) (pd_assignments db)
     \<and> pd_profiles db' = filter (\<lambda>r. pr_id r \<noteq> i) (pd_profiles db)"
  by (auto simp: profile_delete_def admin_procedure_Inr Let_def)

lemma insert_track_Inr:
  "insert_track t db = Inr db' \<longleftrightarrow> pt_id t \<notin> pt_id ` set (pd_tracks db) \<and> track_key t \<notin> track_key ` set (pd_tracks db)
     \<and> pt_profileId t \<in> pr_id ` set (pd_profiles db) \<and> db' = set_tracks (pd_tracks db @ [t]) db"
proof -
  have "(\<exists>s\<in>set (pd_tracks db). pt_id s = pt_id t \<or> track_key s = track_key t) \<longleftrightarrow>
      pt_id t \<in> pt_id ` set (pd_tracks db) \<or> track_key t \<in> track_key ` set (pd_tracks db)"
    by (simp add: image_iff eq_commute[of "pt_id t"] eq_commute[of "track_key t"] bex_disj_distrib)
  then show ?thesis unfolding insert_track_def by auto
qed

lemma add_track_Inr:
  "add_track h user roles i ty n c db = Inr db' \<Longrightarrow> \<not> follows_nothing c \<and>
     pd_assignments db' = pd_assignments db \<and> pd_profiles db' = pd_profiles db
     \<and> (\<exists>t. pd_tracks db' = pd_tracks db @ [t] \<and> pt_profileId t = i \<and> track_ok t \<and> i \<in> pr_id ` set (pd_profiles db)
          \<and> pt_id t \<notin> pt_id ` set (pd_tracks db) \<and> track_key t \<notin> track_key ` set (pd_tracks db))"
  by (auto simp: add_track_def admin_procedure_Inr insert_track_Inr draw_id_def Let_def split: if_splits)

lemma update_track_Inr:
  "update_track user roles t c db = Inr db' \<Longrightarrow> \<not> follows_nothing c \<and>
     pd_assignments db' = pd_assignments db \<and> pd_profiles db' = pd_profiles db
     \<and> pd_tracks db' = map (\<lambda>s. if pt_id s = t then configure_track c s else s) (pd_tracks db)"
  by (auto simp: update_track_def admin_procedure_Inr split: if_splits)

lemma remove_track_Inr:
  "remove_track user roles t db = Inr db' \<Longrightarrow>
     pd_assignments db' = pd_assignments db \<and> pd_profiles db' = pd_profiles db
     \<and> pd_tracks db' = filter (\<lambda>s. pt_id s \<noteq> t) (pd_tracks db)"
  by (auto simp: remove_track_def admin_procedure_Inr)

lemma assign_Inr:
  "assign_device user roles i d db = Inr db' \<Longrightarrow> pd_profiles db' = pd_profiles db \<and> pd_tracks db' = pd_tracks db
     \<and> pd_assignments db' = set_add \<lparr>dp_deviceId = d, dp_profileId = i\<rparr> (pd_assignments db)"
  by (auto simp: assign_device_def admin_procedure_Inr)

lemma unassign_Inr:
  "unassign_device user roles i d db = Inr db' \<Longrightarrow> pd_profiles db' = pd_profiles db \<and> pd_tracks db' = pd_tracks db
     \<and> pd_assignments db' = filter (\<lambda>a. \<not> (dp_profileId a = i \<and> dp_deviceId a = d)) (pd_assignments db)"
  by (auto simp: unassign_device_def admin_procedure_Inr)

section \<open>The invariant\<close>

lemma profile_step_ok:
  assumes "profile_step h c db db'" "profiles_ok db"
  shows "profiles_ok db'"
  using assms
proof (induction rule: profile_step.induct)
  case (create now user roles name description db i db')
  then show ?case using profile_create_Inr[OF create.hyps] by (auto simp: profiles_ok_def)
next
  case (update user roles i n d db db')
  have "pr_id ` set (pd_profiles db') = pr_id ` set (pd_profiles db)"
    using profile_update_Inr[OF update.hyps] by (metis list.set_map)
  then show ?case using update.prems profile_update_Inr[OF update.hyps] by (simp add: profiles_ok_def)
next
  case (delete user roles i db db')
  then show ?case using profile_delete_Inr[OF delete.hyps] by (auto simp: profiles_ok_def distinct_map_filter)
next
  case (add_track user roles i ty n c db db')
  then show ?case using add_track_Inr[OF add_track.hyps] by (auto simp: profiles_ok_def)
next
  case (update_track user roles t c db db')
  note new = update_track_Inr[OF update_track.hyps]
  have "map pt_id (pd_tracks db') = map pt_id (pd_tracks db)" "map track_key (pd_tracks db') = map track_key (pd_tracks db)"
    using new by simp_all
  moreover have "\<forall>s\<in>set (pd_tracks db'). track_ok s \<and> pt_profileId s \<in> pr_id ` set (pd_profiles db)"
    using new update_track.prems by (auto simp: profiles_ok_def)
  ultimately show ?case using new update_track.prems unfolding profiles_ok_def by metis
next
  case (remove_track user roles t db db')
  then show ?case using remove_track_Inr[OF remove_track.hyps] by (auto simp: profiles_ok_def distinct_map_filter)
next
  case (assign user roles i d db db')
  then show ?case using assign_Inr[OF assign.hyps] by (simp add: profiles_ok_def)
next
  case (unassign user roles i d db db')
  then show ?case using unassign_Inr[OF unassign.hyps] by (simp add: profiles_ok_def)
qed

lemma profile_run_ok: "profile_run h cs db db' \<Longrightarrow> profiles_ok db \<Longrightarrow> profiles_ok db'"
  by (induction rule: profile_run.induct) (auto dest: profile_step_ok)

section \<open>Which devices an operation reaches\<close>

lemma has_profile_iff:
  "has_profile db d i \<longleftrightarrow> (\<exists>a\<in>set (pd_assignments db). dp_deviceId a = d \<and> dp_profileId a = i)"
proof -
  have "a = \<lparr>dp_deviceId = d, dp_profileId = i\<rparr> \<longleftrightarrow> dp_deviceId a = d \<and> dp_profileId a = i" for a :: device_profile_row
    by (cases a) simp
  then show ?thesis unfolding has_profile_def by metis
qed

lemma tracks_for_device_filter:
  "tracks_for_device (pd_releases db) d = filter (\<lambda>t. has_profile db d (pt_profileId t)) (pd_tracks db)"
proof -
  have mem: "i \<in> set (map dp_profileId (filter (\<lambda>p. dp_deviceId p = d) (pd_assignments db))) \<longleftrightarrow> has_profile db d i" for i
    by (auto simp: has_profile_iff)
  show ?thesis
  proof (cases "map dp_profileId (filter (\<lambda>p. dp_deviceId p = d) (pd_assignments db)) = []")
    case True
    then have "\<not> has_profile db d i" for i using mem[of i] by simp
    with True show ?thesis by (simp add: tracks_for_device_def Let_def)
  next
    case False
    then show ?thesis unfolding tracks_for_device_def Let_def mem by simp
  qed
qed

lemma profile_step_frame:
  assumes "profile_step h c db db'" "\<not> concerns c db d"
  shows "tracks_for_device (pd_releases db') d = tracks_for_device (pd_releases db) d"
  unfolding tracks_for_device_filter using assms
proof (induction rule: profile_step.induct)
  case (create now user roles name description db i db')
  then show ?case using profile_create_Inr[OF create.hyps] by (simp add: has_profile_def)
next
  case (update user roles i n desc db db')
  then show ?case using profile_update_Inr[OF update.hyps] by (simp add: has_profile_def)
next
  case (delete user roles i db db')
  then show ?case using profile_delete_Inr[OF delete.hyps] by (auto simp: has_profile_def intro!: filter_cong)
next
  case (add_track user roles i ty n c db db')
  then show ?case using add_track_Inr[OF add_track.hyps] by (auto simp: has_profile_def)
next
  case (update_track user roles t c db db')
  note new = update_track_Inr[OF update_track.hyps]
  have "filter (\<lambda>t. has_profile db d (pt_profileId t)) (map (\<lambda>s. if pt_id s = t then configure_track c s else s) ts)
      = filter (\<lambda>t. has_profile db d (pt_profileId t)) ts" if "\<forall>s\<in>set ts. pt_id s = t \<longrightarrow> \<not> has_profile db d (pt_profileId s)" for ts
    using that by (induction ts) auto
  then show ?case using new update_track.prems by (simp add: has_profile_def)
next
  case (remove_track user roles t db db')
  then show ?case using remove_track_Inr[OF remove_track.hyps] by (auto simp: has_profile_def intro!: filter_cong)
next
  case (assign user roles i d' db db')
  then show ?case using assign_Inr[OF assign.hyps] by (auto simp: has_profile_def intro!: filter_cong)
next
  case (unassign user roles i d' db db')
  then show ?case using unassign_Inr[OF unassign.hyps] by (auto simp: has_profile_def intro!: filter_cong)
qed

section \<open>The property\<close>

text \<open>C38: through every sequence of administrator's operations on profiles, each track follows
  exactly one of a channel and a pinned release, belongs to an existing profile and is the only one
  of its profile for its product line, and no assignment is doubled; and the next operation changes
  what a device resolves only if it is about that device, or about a profile the device has.\<close>

theorem profile_policy_sound:
  assumes "profiles_ok db" "profile_run h changes db db1" "profile_step h change db1 db2"
  shows "profiles_ok db2 \<and> (\<forall>t\<in>set (pd_tracks db2). (pt_channel t = None) \<noteq> (pt_pinnedReleaseId t = None))
    \<and> (\<forall>d. tracks_for_device (pd_releases db2) d \<noteq> tracks_for_device (pd_releases db1) d \<longrightarrow> concerns change db1 d)"
  using profile_step_ok[OF assms(3) profile_run_ok[OF assms(2,1)]] profile_step_frame[OF assms(3)]
  by (auto simp: profiles_ok_def track_ok_def)

definition demo_profiles :: profiles_db where
  "demo_profiles = \<lparr>pd_profiles = [\<lparr>pr_id = ''prof_1'', pr_name = ''n'', pr_description = None, pr_ownerUserId = None, pr_createdAt = 0\<rparr>],
     pd_releases = \<lparr>rd_types = [], rd_artifacts = [], rd_releases = [], rd_variants = [], rd_links = [], rd_heads = [], rd_builds = [],
       rd_tokens = [], rd_tracks = [], rd_deviceProfiles = [\<lparr>dp_deviceId = ''d'', dp_profileId = ''prof_1''\<rparr>], rd_draws = 2\<rparr>,
     pd_devices = []\<rparr>"

definition demo_config :: track_config where
  "demo_config = \<lparr>tc_channel = Some ''stable'', tc_pinnedReleaseId = None, tc_selector = [], tc_autoUpdate = True\<rparr>"

theorem profile_policy_sound_witness:
  "\<exists>db2. profile_step demo_host (Track_added ''prof_1'') demo_profiles db2 \<and> profiles_ok db2
     \<and> tracks_for_device (pd_releases db2) ''d'' \<noteq> tracks_for_device (pd_releases demo_profiles) ''d''
     \<and> tracks_for_device (pd_releases db2) ''e'' = tracks_for_device (pd_releases demo_profiles) ''e''"
proof -
  have ok: "profiles_ok demo_profiles" by (simp add: profiles_ok_def demo_profiles_def)
  obtain db2 where add: "add_track demo_host (Some demo_admin) [''admin''] ''prof_1'' ''t'' ''r'' demo_config demo_profiles = Inr db2"
    by (simp add: add_track_def admin_procedure_def demo_admin_def or_else_def follows_nothing_def demo_config_def draw_id_def
        insert_track_def demo_profiles_def Let_def)
  then have step: "profile_step demo_host (Track_added ''prof_1'') demo_profiles db2" by (rule profile_step.add_track)
  obtain t where t: "pd_tracks db2 = [t]" "pt_profileId t = ''prof_1''" "has_profile db2 ''d'' ''prof_1''"
    using add_track_Inr[OF add] by (auto simp: demo_profiles_def has_profile_def)
  have "tracks_for_device (pd_releases db2) ''d'' = [t]"
    unfolding tracks_for_device_filter using t by simp
  moreover have "tracks_for_device (pd_releases demo_profiles) ''d'' = []"
    unfolding tracks_for_device_filter by (simp add: demo_profiles_def)
  moreover have "\<not> concerns (Track_added ''prof_1'') demo_profiles ''e''" by (simp add: has_profile_def demo_profiles_def)
  ultimately show ?thesis
    using profile_policy_sound[OF ok profile_run.stop step] step by auto
qed

section \<open>A finding\<close>

text \<open>An assignment outlives its device, and the list of profiles counts it while the detail of the
  profile does not show it. Nothing checks that an assigned device exists either.\<close>

lemma ghost_device_counted:
  "pg_deviceCount (profile_listing_of demo_profiles (hd (pd_profiles demo_profiles))) = 1
   \<and> assigned_devices le demo_profiles ''prof_1'' = []"
  by (simp add: profile_listing_of_def demo_profiles_def assigned_devices_def sort_by_def)

end
