(* ===== verification/Js_Number.thy ===== *)
theory Js_Number
  imports Json "HOL-Library.Log_Nat"
begin

text \<open>
  JavaScript numbers where the program does arithmetic on money. A finite double is the rational
  it denotes, and an operation on doubles is the operation on rationals followed by rounding to
  53 binary digits, ties to even (\<open>dbl\<close>). Magnitudes below the smallest normal double, above the
  greatest one, and the sign of zero are left out of arithmetic; \<open>Number(s)\<close> of a text tells finite values
  from the others. Money has six decimals: a column of the database holds an integral number of
  millionths.
\<close>

section \<open>Rounding\<close>

text \<open>The exponent of a positive number: \<open>2 powi e \<le> x < 2 powi (e + 1)\<close>.\<close>

definition binade :: "rat \<Rightarrow> int" where
  "binade x = (let (p, q) = quotient_of x; e = bitlen p - bitlen q in if 2 powi e \<le> x then e else e - 1)"

definition nearest_even :: "rat \<Rightarrow> int" where
  "nearest_even y = (let f = \<lfloor>y\<rfloor>; d = y - of_int f
     in if d < 1 / 2 then f else if 1 / 2 < d then f + 1 else if even f then f else f + 1)"

definition ulp :: "rat \<Rightarrow> rat" where
  "ulp x = 2 powi (binade \<bar>x\<bar> - 52)"

definition dbl :: "rat \<Rightarrow> rat" where
  "dbl x = (if x = 0 then 0 else of_int (nearest_even (x / ulp x)) * ulp x)"

section \<open>Texts\<close>

text \<open>An optional exponent at the end of a decimal literal.\<close>

definition exponent_part :: "string \<Rightarrow> int option" where
  "exponent_part s =
     (case s of [] \<Rightarrow> Some 0
      | c # r \<Rightarrow>
          if c \<notin> {CHR ''e'', CHR ''E''} then None
          else let negative = starts_with ''-'' r;
                   ds = (if starts_with ''-'' r \<or> starts_with ''+'' r then tl r else r)
               in if ds = [] \<or> \<not> list_all is_digit ds then None
                  else Some (if negative then - int (read_digits ds) else int (read_digits ds)))"

text \<open>An unsigned decimal literal: digits with an optional point, and an exponent.\<close>

definition decimal_literal :: "string \<Rightarrow> rat option" where
  "decimal_literal s =
     (let whole = takeWhile is_digit s; r = dropWhile is_digit s;
          point = starts_with ''.'' r;
          frac = (if point then takeWhile is_digit (tl r) else []);
          rest = (if point then dropWhile is_digit (tl r) else r)
      in if whole = [] \<and> frac = [] then None
         else case exponent_part rest of None \<Rightarrow> None
              | Some e \<Rightarrow> Some (of_nat (read_digits (whole @ frac)) * 10 powi (e - int (length frac))))"

definition signed_decimal :: "string \<Rightarrow> rat option" where
  "signed_decimal s =
     (if starts_with ''-'' s then map_option uminus (decimal_literal (tl s))
      else if starts_with ''+'' s then decimal_literal (tl s) else decimal_literal s)"

definition DOUBLE_LIMIT :: rat where "DOUBLE_LIMIT = 2 ^ 1024"

text \<open>\<open>Number(s)\<close> of a decimal text, \<open>None\<close> when the result is not finite. The hexadecimal,
  octal and binary forms are left out, they are no prices.\<close>

definition js_number :: "string \<Rightarrow> rat option" where
  "js_number s =
     (if trim s = [] then Some 0
      else case signed_decimal (trim s) of None \<Rightarrow> None
           | Some v \<Rightarrow> if \<bar>dbl v\<bar> < DOUBLE_LIMIT then Some (dbl v) else None)"

section \<open>Money\<close>

text \<open>\<open>Number(s)\<close> of a column's text, and \<open>x.toFixed(6)\<close> as a column reads it: halves go up, and
  the sign is put aside first.\<close>

definition micro_number :: "int \<Rightarrow> rat" where
  "micro_number m = dbl (of_int m / 1000000)"

definition to_fixed6 :: "rat \<Rightarrow> int" where
  "to_fixed6 x = (if x < 0 then - \<lfloor>- x * 1000000 + 1 / 2\<rfloor> else \<lfloor>x * 1000000 + 1 / 2\<rfloor>)"

section \<open>The exponent\<close>

lemma bitlen_powi:
  assumes "0 < p"
  shows "(2 :: rat) powi (bitlen p - 1) \<le> of_int p" "of_int p < (2 :: rat) powi bitlen p"
proof -
  have one: "1 \<le> bitlen p" using assms bitlen_bounds[OF assms] bitlen_nonneg[of p] by (cases "bitlen p = 0") auto
  have pow: "(2 :: rat) powi k = of_int (2 ^ nat k)" if "0 \<le> k" for k
    using that by (simp add: power_int_nonneg_exp)
  show "(2 :: rat) powi (bitlen p - 1) \<le> of_int p" "of_int p < (2 :: rat) powi bitlen p"
    using bitlen_bounds[OF assms] one by (simp_all add: pow del: of_int_power)
qed

lemma binade_bounds:
  assumes "0 < x"
  shows "2 powi binade x \<le> x" "x < 2 powi (binade x + 1)"
proof -
  obtain p q where pq: "quotient_of x = (p, q)" by fastforce
  then have q: "0 < q" and x: "x = of_int p / of_int q"
    by (rule quotient_of_denom_pos, rule quotient_of_div)
  with assms have p: "0 < p" by (simp add: zero_less_divide_iff)
  let ?e = "bitlen p - bitlen q"
  have "(2 :: rat) powi (?e - 1) * of_int q \<le> 2 powi (?e - 1) * 2 powi bitlen q"
    using bitlen_powi(2)[OF q] by (intro mult_left_mono) auto
  also have "\<dots> = 2 powi (bitlen p - 1)" by (simp add: power_int_add[symmetric])
  also have "\<dots> \<le> of_int p" by (rule bitlen_powi[OF p])
  finally have low: "2 powi (?e - 1) \<le> x" using q by (simp add: x pos_le_divide_eq)
  have "of_int p < (2 :: rat) powi bitlen p" by (rule bitlen_powi[OF p])
  also have "\<dots> = 2 powi (?e + 1) * 2 powi (bitlen q - 1)" by (simp add: power_int_add[symmetric])
  also have "\<dots> \<le> 2 powi (?e + 1) * of_int q" using bitlen_powi(1)[OF q] by (intro mult_left_mono) auto
  finally have high: "x < 2 powi (?e + 1)" using q by (simp add: x pos_divide_less_eq)
  have "binade x = (if 2 powi ?e \<le> x then ?e else ?e - 1)" by (simp add: binade_def pq Let_def)
  with low high show "2 powi binade x \<le> x" "x < 2 powi (binade x + 1)" by (auto split: if_splits)
qed

lemma ulp_pos [simp]: "0 < ulp x" and ulp_nonneg [simp]: "0 \<le> ulp x"
    and ulp_ne [simp]: "ulp x \<noteq> 0" and ulp_abs [simp]: "\<bar>ulp x\<bar> = ulp x"
  by (simp_all add: ulp_def power_int_abs)

text \<open>Between \<open>2 ^ 52\<close> and \<open>2 ^ 53\<close> units make a number.\<close>

lemma in_ulps:
  assumes "0 < x"
  shows "2 ^ 52 \<le> x / ulp x" "x / ulp x < 2 ^ 53"
proof -
  have "(2 :: rat) powi binade x = 2 ^ 52 * ulp x" "(2 :: rat) powi (binade x + 1) = 2 ^ 53 * ulp x"
    using assms by (simp_all add: ulp_def power_int_add[symmetric] add.commute flip: power_int_numeral)
  with binade_bounds[OF assms] show "2 ^ 52 \<le> x / ulp x" "x / ulp x < 2 ^ 53"
    by (simp_all add: pos_le_divide_eq pos_divide_less_eq)
qed

section \<open>Rounding to an integer\<close>

lemma nearest_even_error: "\<bar>of_int (nearest_even y) - y\<bar> \<le> 1 / 2"
proof -
  have "of_int \<lfloor>y\<rfloor> \<le> y" "y < of_int \<lfloor>y\<rfloor> + 1" by linarith+
  then show ?thesis unfolding nearest_even_def Let_def by (auto simp: abs_le_iff)
qed

lemma nearest_even_of_int [simp]: "nearest_even (of_int n) = n"
  by (simp add: nearest_even_def)

lemma nearest_even_minus: "nearest_even (- y) = - nearest_even y"
proof (cases "y = of_int \<lfloor>y\<rfloor>")
  case True
  then show ?thesis by (metis nearest_even_of_int of_int_minus)
next
  case False
  then have c: "\<lfloor>- y\<rfloor> = - \<lfloor>y\<rfloor> - 1" by linarith
  then show ?thesis by (auto simp: nearest_even_def Let_def c)
qed

lemma nearest_even_mono:
  assumes "y \<le> z"
  shows "nearest_even y \<le> nearest_even z"
proof (rule ccontr)
  assume "\<not> nearest_even y \<le> nearest_even z"
  then have lt: "nearest_even z + 1 \<le> nearest_even y" by simp
  then have "(of_int (nearest_even z) :: rat) + 1 \<le> of_int (nearest_even y)" by (metis of_int_1 of_int_add of_int_le_iff)
  with nearest_even_error[of y] nearest_even_error[of z] assms have "y = z" by (simp add: abs_le_iff)
  with lt show False by simp
qed

section \<open>Rounding to a double\<close>

lemma dbl_0 [simp]: "dbl 0 = 0"
  by (simp add: dbl_def)

lemma dbl_minus: "dbl (- x) = - dbl x"
  by (simp add: dbl_def ulp_def nearest_even_minus)

text \<open>The relative error of rounding.\<close>

lemma dbl_error: "\<bar>dbl x - x\<bar> \<le> \<bar>x\<bar> / 2 ^ 53"
proof (cases "x = 0")
  case False
  let ?u = "ulp x"
  have "dbl x - x = (of_int (nearest_even (x / ?u)) - x / ?u) * ?u"
    using False ulp_pos[of x, THEN less_imp_neq] by (simp add: dbl_def left_diff_distrib)
  then have "\<bar>dbl x - x\<bar> = \<bar>of_int (nearest_even (x / ?u)) - x / ?u\<bar> * ?u"
    using ulp_pos[of x] by (simp add: abs_mult)
  also have "\<dots> \<le> 1 / 2 * ?u" using nearest_even_error ulp_pos[of x] by (intro mult_right_mono) auto
  also have "?u = ulp \<bar>x\<bar>" by (simp add: ulp_def)
  also have "1 / 2 * ulp \<bar>x\<bar> \<le> \<bar>x\<bar> / 2 ^ 53"
    using in_ulps(1)[of "\<bar>x\<bar>"] False ulp_pos[of "\<bar>x\<bar>"] by (simp add: pos_le_divide_eq)
  finally show ?thesis .
qed simp

lemma dbl_pos:
  assumes "0 < x"
  shows "0 < dbl x"
proof -
  have "\<bar>x\<bar> / 2 ^ 53 < x" using assms by simp
  with dbl_error[of x] show ?thesis by linarith
qed

lemma dbl_le_0_iff [simp]: "dbl x \<le> 0 \<longleftrightarrow> x \<le> 0"
  using dbl_pos[of x] dbl_pos[of "- x"] unfolding dbl_minus by (cases x "0 :: rat" rule: linorder_cases) auto

lemma dbl_gt_0_iff [simp]: "0 < dbl x \<longleftrightarrow> 0 < x"
  using dbl_le_0_iff[of x] by (simp only: not_le[symmetric])

lemma dbl_ge_0_iff [simp]: "0 \<le> dbl x \<longleftrightarrow> 0 \<le> x"
  using dbl_le_0_iff[of "- x"] unfolding dbl_minus by simp

lemma dbl_mono_pos:
  assumes "0 < x" "x \<le> y"
  shows "dbl x \<le> dbl y"
proof (cases "binade x = binade y")
  case True
  then have u: "ulp x = ulp y" using assms by (simp add: ulp_def)
  have "x / ulp y \<le> y / ulp y" using assms(2) ulp_pos[of y] by (intro divide_right_mono) auto
  then have "(of_int (nearest_even (x / ulp y)) :: rat) \<le> of_int (nearest_even (y / ulp y))"
    using nearest_even_mono by simp
  then show ?thesis using assms ulp_pos[of y] by (simp add: dbl_def u mult_right_mono)
next
  case False
  have y: "0 < y" using assms by simp
  have "\<not> binade y < binade x"
  proof
    assume "binade y < binade x"
    then have "(2 :: rat) powi (binade y + 1) \<le> 2 powi binade x" by (intro power_int_increasing) auto
    then show False using binade_bounds[OF assms(1)] binade_bounds[OF y] assms(2) by linarith
  qed
  with False have lt: "binade x + 1 \<le> binade y" by simp
  have "nearest_even (x / ulp x) \<le> nearest_even (of_int (2 ^ 53))"
    by (rule nearest_even_mono) (use in_ulps(2)[OF assms(1)] in simp)
  then have "nearest_even (x / ulp x) \<le> 2 ^ 53" by (simp only: nearest_even_of_int)
  then have "(of_int (nearest_even (x / ulp x)) :: rat) \<le> 2 ^ 53" by (metis of_int_le_iff of_int_numeral of_int_power)
  then have "dbl x \<le> 2 ^ 53 * ulp x" using assms ulp_pos[of x] by (simp add: dbl_def mult_right_mono)
  also have "\<dots> = 2 powi (binade x + 1)" using assms by (simp add: ulp_def power_int_add[symmetric] add.commute flip: power_int_numeral)
  also have "\<dots> \<le> 2 powi binade y" using lt by (intro power_int_increasing) auto
  also have "\<dots> = 2 ^ 52 * ulp y" using y by (simp add: ulp_def power_int_add[symmetric] flip: power_int_numeral)
  also have "\<dots> \<le> dbl y"
  proof -
    have "nearest_even (of_int (2 ^ 52)) \<le> nearest_even (y / ulp y)"
      by (rule nearest_even_mono) (use in_ulps(1)[OF y] in simp)
    then have "2 ^ 52 \<le> nearest_even (y / ulp y)" by (simp only: nearest_even_of_int)
    then have "(2 :: rat) ^ 52 \<le> of_int (nearest_even (y / ulp y))" by (metis of_int_le_iff of_int_numeral of_int_power)
    then show ?thesis using y ulp_pos[of y] by (simp add: dbl_def mult_right_mono)
  qed
  finally show ?thesis .
qed

lemma dbl_mono: "x \<le> y \<Longrightarrow> dbl x \<le> dbl y"
proof (cases "0 < x")
  case True
  then show "x \<le> y \<Longrightarrow> dbl x \<le> dbl y" by (rule dbl_mono_pos)
next
  case False
  assume le: "x \<le> y"
  show ?thesis
  proof (cases "y < 0")
    case True
    then have "dbl (- y) \<le> dbl (- x)" using le by (intro dbl_mono_pos) auto
    then show ?thesis by (simp add: dbl_minus)
  next
    case nonneg: False
    have "dbl x \<le> 0" "0 \<le> dbl y" using False nonneg by simp_all
    then show ?thesis by (rule order_trans)
  qed
qed

section \<open>The sign of a balance\<close>

lemma micro_number_mono: "a \<le> b \<Longrightarrow> micro_number a \<le> micro_number b"
  unfolding micro_number_def by (intro dbl_mono) (simp add: divide_right_mono)

text \<open>Up to \<open>2 ^ 51\<close> millionths, doubles tell amounts apart.\<close>

lemma micro_number_strict:
  assumes "a < b" "\<bar>a\<bar> \<le> 2 ^ 51" "\<bar>b\<bar> \<le> 2 ^ 51"
  shows "micro_number a < micro_number b"
proof -
  define x y :: rat where "x = of_int a / 1000000" and "y = of_int b / 1000000"
  have bound: "\<bar>of_int c / 1000000 :: rat\<bar> / 2 ^ 53 \<le> 1 / 4 / 1000000" if "\<bar>c\<bar> \<le> 2 ^ 51" for c
  proof -
    have "(of_int \<bar>c\<bar> :: rat) \<le> of_int (2 ^ 51)" using that by (simp only: of_int_le_iff)
    then show ?thesis by simp
  qed
  have "of_int a + 1 \<le> (of_int b :: rat)" using assms(1) by (metis of_int_1 of_int_add of_int_le_iff add1_zle_eq)
  then have "x + 1 / 1000000 \<le> y" by (simp add: x_def y_def)
  moreover have "\<bar>dbl x - x\<bar> \<le> 1 / 4 / 1000000" "\<bar>dbl y - y\<bar> \<le> 1 / 4 / 1000000"
    using dbl_error[of x] dbl_error[of y] bound[OF assms(2)] bound[OF assms(3)] by (simp_all add: x_def y_def)
  ultimately show ?thesis unfolding micro_number_def x_def[symmetric] y_def[symmetric] by linarith
qed

lemma micro_number_less_iff:
  "\<bar>a\<bar> \<le> 2 ^ 51 \<Longrightarrow> \<bar>b\<bar> \<le> 2 ^ 51 \<Longrightarrow> micro_number a < micro_number b \<longleftrightarrow> a < b"
  using micro_number_strict[of a b] micro_number_mono[of b a] by (cases "a < b") auto

lemma to_fixed6_nonneg: "0 \<le> x \<Longrightarrow> 0 \<le> to_fixed6 x"
  by (simp add: to_fixed6_def le_floor_iff)

lemma to_fixed6_error: "\<bar>of_int (to_fixed6 x) - x * 1000000\<bar> \<le> 1 / 2"
  unfolding to_fixed6_def by (cases "x < 0"; simp only: if_True if_False of_int_minus) linarith+

end
