(* ===== verification/User_Admin.thy ===== *)
theory User_Admin
  imports Admin_Query
begin

text \<open>
  Accounts: the administrators' operations on them (\<open>users/admin-router.ts\<close>), the applications an
  account has connected (\<open>account/router.ts\<close>), and the way in for external tools
  (\<open>agent/router.ts\<close>, \<open>createTRPCContextForUser\<close> and \<open>app/api/mcp/route.ts\<close> of the web
  application). The tables are those of \<open>db/auth-schema.ts\<close>, without the columns nothing here reads.
  Sessions, API keys and OAuth tokens are created and checked by the authentication library; its
  two checks are arguments.
\<close>

section \<open>Tables\<close>

record user_row =
  us_id :: string
  us_name :: string
  us_email :: string
  us_emailVerified :: bool
  us_image :: "string option"
  us_createdAt :: nat
  us_updatedAt :: nat
  us_role :: "string option"
  us_banned :: "bool option"
  us_banReason :: "string option"
  us_banExpires :: "nat option"

record session_row =
  ss_token :: string
  ss_userId :: string
  ss_expiresAt :: nat

text \<open>Rows of \<open>account\<close> and \<open>passkey\<close>, and pending \<open>device_code\<close>s: an id and an owner.\<close>

record owned_row =
  ow_id :: string
  ow_userId :: "string option"

record apikey_row =
  ak_key :: string
  ak_referenceId :: string
  ak_enabled :: bool

record application_row =
  oa_clientId :: string
  oa_name :: string
  oa_icon :: "string option"
  oa_userId :: "string option"

record access_token_row =
  ot_accessToken :: string
  ot_clientId :: string
  ot_userId :: "string option"
  ot_scopes :: string

record consent_row =
  oc_clientId :: string
  oc_userId :: string
  oc_scopes :: string
  oc_createdAt :: nat

record users_db =
  ud_users :: "user_row list"
  ud_sessions :: "session_row list"
  ud_accounts :: "owned_row list"
  ud_passkeys :: "owned_row list"
  ud_deviceCodes :: "owned_row list"
  ud_apikeys :: "apikey_row list"
  ud_applications :: "application_row list"
  ud_tokens :: "access_token_row list"
  ud_consents :: "consent_row list"

definition update_user :: "nat \<Rightarrow> string \<Rightarrow> (user_row \<Rightarrow> user_row) \<Rightarrow> users_db \<Rightarrow> users_db" where
  "update_user now i f db =
     db\<lparr>ud_users := map (\<lambda>r. if us_id r = i then (f r)\<lparr>us_updatedAt := now\<rparr> else r) (ud_users db)\<rparr>"

text \<open>The foreign keys with \<open>ON DELETE CASCADE\<close>: the rows of the account, and the tokens and
  consents of the applications it owned. API keys have none.\<close>

definition delete_user :: "string \<Rightarrow> users_db \<Rightarrow> users_db" where
  "delete_user i db =
     (let gone = map oa_clientId (filter (\<lambda>a. oa_userId a = Some i) (ud_applications db))
      in db\<lparr>ud_users := filter (\<lambda>r. us_id r \<noteq> i) (ud_users db),
            ud_sessions := filter (\<lambda>s. ss_userId s \<noteq> i) (ud_sessions db),
            ud_accounts := filter (\<lambda>a. ow_userId a \<noteq> Some i) (ud_accounts db),
            ud_passkeys := filter (\<lambda>p. ow_userId p \<noteq> Some i) (ud_passkeys db),
            ud_deviceCodes := filter (\<lambda>d. ow_userId d \<noteq> Some i) (ud_deviceCodes db),
            ud_applications := filter (\<lambda>a. oa_userId a \<noteq> Some i) (ud_applications db),
            ud_tokens := filter (\<lambda>t. ot_userId t \<noteq> Some i \<and> ot_clientId t \<notin> set gone) (ud_tokens db),
            ud_consents := filter (\<lambda>c. oc_userId c \<noteq> i \<and> oc_clientId c \<notin> set gone) (ud_consents db)\<rparr>)"

section \<open>Administration\<close>

definition ROLE_USER :: string where "ROLE_USER = ''user''"

definition BAN_REASON_MAX :: nat where "BAN_REASON_MAX = 500"

definition user_sortable :: "(string \<Rightarrow> string \<Rightarrow> bool) \<Rightarrow> (string \<times> user_row column) list" where
  "user_sortable le = [(''name'', \<lambda>a b. le (us_name a) (us_name b)), (''email'', \<lambda>a b. le (us_email a) (us_email b)),
     (''role'', \<lambda>a b. nullable le (us_role a) (us_role b)), (''createdAt'', \<lambda>a b. us_createdAt a \<le> us_createdAt b)]"

text \<open>The pseudo-role means no role or the literal one.\<close>

definition role_filter :: "string list \<Rightarrow> user_row \<Rightarrow> bool" where
  "role_filter roles r =
     (if roles = [] then True
      else let named = filter (\<lambda>v. v \<noteq> ROLE_USER) roles @ (if List.member roles ROLE_USER then [ROLE_USER] else [])
           in (List.member roles ROLE_USER \<and> us_role r = None)
              \<or> (case us_role r of None \<Rightarrow> False | Some v \<Rightarrow> List.member named v))"

definition ban_filter :: "string list \<Rightarrow> user_row \<Rightarrow> bool" where
  "ban_filter status r =
     (let wantsActive = List.member status ''active''; wantsBanned = List.member status ''banned''
      in if wantsActive = wantsBanned then True
         else if wantsBanned then us_banned r = Some True else us_banned r \<noteq> Some True)"

definition user_matches :: "(char \<Rightarrow> char) \<Rightarrow> string \<Rightarrow> string list \<Rightarrow> string list \<Rightarrow> user_row \<Rightarrow> bool" where
  "user_matches fold_case name roles status r =
     ((name_filter fold_case us_name name r \<or> name_filter fold_case us_email name r)
      \<and> role_filter roles r \<and> ban_filter status r)"

definition users_list ::
    "(char \<Rightarrow> char) \<Rightarrow> (string \<Rightarrow> string \<Rightarrow> bool) \<Rightarrow> admin_user option \<Rightarrow> string list \<Rightarrow> int \<Rightarrow> int \<Rightarrow> string \<Rightarrow> string list
      \<Rightarrow> string list \<Rightarrow> sort_item list \<Rightarrow> users_db \<Rightarrow> trpc_error + user_row page" where
  "users_list fold_case le user adminRoles page perPage name roles status sorting db = admin_procedure user adminRoles (\<lambda>u.
     bind_sum (z_page page perPage) (\<lambda>(page, perPage).
       Inr (paginate page perPage
         (sort_by (order_by_columns (user_sortable le) (\<lambda>a b. us_createdAt a \<le> us_createdAt b) sorting)
           (filter (user_matches fold_case name roles status) (ud_users db))))))"

definition filter_options ::
    "(string \<Rightarrow> string \<Rightarrow> bool) \<Rightarrow> admin_user option \<Rightarrow> string list \<Rightarrow> users_db \<Rightarrow> trpc_error + string list" where
  "filter_options le user adminRoles db = admin_procedure user adminRoles (\<lambda>u.
     let roleRows = sort_by (nullable le) (remdups (map us_role (ud_users db)));
         roles = map (\<lambda>r. or_else r ROLE_USER) roleRows
     in Inr (foldl (\<lambda>s r. set_add r s) [] roles))"

definition ROLES :: "string list" where "ROLES = [''user'', ''admin'', ''sysadmin'']"

definition set_role :: "nat \<Rightarrow> admin_user option \<Rightarrow> string list \<Rightarrow> string \<Rightarrow> string \<Rightarrow> users_db \<Rightarrow> trpc_error + users_db" where
  "set_role now user adminRoles userId role db = admin_procedure user adminRoles (\<lambda>u.
     if \<not> List.member ROLES role then Inl (TRPC BAD_REQUEST ''role'')
     else Inr (update_user now userId (\<lambda>r. r\<lparr>us_role := Some role\<rparr>) db))"

definition ban_reason :: "string option \<Rightarrow> string" where
  "ban_reason reason = or_else reason ''Banned by an administrator''"

definition set_ban ::
    "nat \<Rightarrow> admin_user option \<Rightarrow> string list \<Rightarrow> string \<Rightarrow> bool \<Rightarrow> string option \<Rightarrow> users_db \<Rightarrow> trpc_error + users_db" where
  "set_ban now user adminRoles userId banned reason db = admin_procedure user adminRoles (\<lambda>u.
     if (case reason of None \<Rightarrow> False | Some s \<Rightarrow> BAN_REASON_MAX < length s) then Inl (TRPC BAD_REQUEST ''reason'')
     else if banned \<and> userId = au_id u then Inl (TRPC BAD_REQUEST ''You cannot ban yourself'')
     else if banned then
       let db1 = update_user now userId (\<lambda>r. r\<lparr>us_banned := Some True, us_banReason := Some (ban_reason reason)\<rparr>) db
       in Inr (db1\<lparr>ud_sessions := filter (\<lambda>s. ss_userId s \<noteq> userId) (ud_sessions db1)\<rparr>)
     else Inr (update_user now userId (\<lambda>r. r\<lparr>us_banned := Some False, us_banReason := None, us_banExpires := None\<rparr>) db))"

definition remove_user :: "admin_user option \<Rightarrow> string list \<Rightarrow> string \<Rightarrow> users_db \<Rightarrow> trpc_error + users_db" where
  "remove_user user adminRoles userId db = admin_procedure user adminRoles (\<lambda>u.
     if userId = au_id u then Inl (TRPC BAD_REQUEST ''You cannot delete yourself'')
     else Inr (delete_user userId db))"

section \<open>Connected applications\<close>

text \<open>The middleware of the procedures any account may call.\<close>

definition protected_procedure :: "string \<Rightarrow> admin_user option \<Rightarrow> (admin_user \<Rightarrow> trpc_error + 'a) \<Rightarrow> trpc_error + 'a" where
  "protected_procedure message user next =
     (case user of None \<Rightarrow> Inl (TRPC UNAUTHORIZED message) | Some u \<Rightarrow> next u)"

record connected_app =
  ca_clientId :: string
  ca_name :: string
  ca_icon :: "string option"
  ca_scopes :: "string list"
  ca_authorizedAt :: nat

definition connected_app_of :: "application_row \<Rightarrow> consent_row \<Rightarrow> connected_app" where
  "connected_app_of a c = \<lparr>ca_clientId = oa_clientId a, ca_name = oa_name a, ca_icon = oa_icon a,
     ca_scopes = filter (\<lambda>scope. scope \<noteq> []) (split_on (CHR '' '') (oc_scopes c)), ca_authorizedAt = oc_createdAt c\<rparr>"

definition list_connected_apps :: "admin_user option \<Rightarrow> users_db \<Rightarrow> trpc_error + connected_app list" where
  "list_connected_apps user db = protected_procedure ''Sign in required'' user (\<lambda>u.
     let joined = concat (map (\<lambda>c. map (\<lambda>a. connected_app_of a c) (filter (\<lambda>a. oa_clientId a = oc_clientId c) (ud_applications db)))
           (filter (\<lambda>c. oc_userId c = au_id u) (ud_consents db)))
     in Inr (sort_by (direction True (\<lambda>a b. ca_authorizedAt a \<le> ca_authorizedAt b)) joined))"

definition revoke_connected_app :: "admin_user option \<Rightarrow> string \<Rightarrow> users_db \<Rightarrow> trpc_error + users_db" where
  "revoke_connected_app user clientId db = protected_procedure ''Sign in required'' user (\<lambda>u.
     let db1 = db\<lparr>ud_tokens := filter (\<lambda>t. \<not> (ot_clientId t = clientId \<and> ot_userId t = Some (au_id u))) (ud_tokens db)\<rparr>
     in Inr (db1\<lparr>ud_consents := filter (\<lambda>c. \<not> (oc_clientId c = clientId \<and> oc_userId c = au_id u)) (ud_consents db1)\<rparr>))"

section \<open>External tools\<close>

text \<open>The user of a request context.\<close>

definition find_agent_user :: "string \<Rightarrow> users_db \<Rightarrow> admin_user option" where
  "find_agent_user userId db =
     map_option (\<lambda>r. \<lparr>au_id = us_id r, au_role = us_role r\<rparr>) (find (\<lambda>r. us_id r = userId) (ud_users db))"

text \<open>What the authentication library answers about a key and about a bearer token: the owner.\<close>

record auth_library =
  al_verifyApiKey :: "users_db \<Rightarrow> string \<Rightarrow> bool \<times> string option"
  al_getMcpSession :: "users_db \<Rightarrow> string \<Rightarrow> string option"

text \<open>A request with a key is never tried as a token. \<open>None\<close> is no authentication.\<close>

definition verify_token :: "auth_library \<Rightarrow> users_db \<Rightarrow> string option \<Rightarrow> string option \<Rightarrow> string option" where
  "verify_token lib db apiKeyHeader bearerToken =
     (if apiKeyHeader \<noteq> None \<and> apiKeyHeader \<noteq> Some [] then
        (let (valid, ownerId) = al_verifyApiKey lib db (the apiKeyHeader)
         in if valid then ownerId else None)
      else if bearerToken \<noteq> None \<and> bearerToken \<noteq> Some [] then al_getMcpSession lib db (the bearerToken)
      else None)"

text \<open>A tool call runs the procedure as the user; a failure is a text of its own.\<close>

record tool_answer =
  ta_text :: string
  ta_isError :: bool

definition mcp_tool_call ::
    "(admin_user option \<Rightarrow> string + string) \<Rightarrow> users_db \<Rightarrow> string option \<Rightarrow> tool_answer" where
  "mcp_tool_call procedure db userId =
     (case userId of
        None \<Rightarrow> \<lparr>ta_text = ''Unauthorized.'', ta_isError = True\<rparr>
      | Some i \<Rightarrow> (case procedure (find_agent_user i db) of
            Inr result \<Rightarrow> \<lparr>ta_text = result, ta_isError = False\<rparr>
          | Inl message \<Rightarrow> \<lparr>ta_text = message, ta_isError = True\<rparr>))"

end
