(* ===== verification/Ai_Usage.thy ===== *)
theory Ai_Usage
  imports Js_Number User_Admin
begin

text \<open>
  What requests to language models cost and who may make them (\<open>ai-usage/pricing.ts\<close>,
  \<open>metering.ts\<close>, \<open>router.ts\<close>, \<open>db/ai-usage-schema.ts\<close>): the cached price list, the cost of a request,
  the gate before it, the ledger after it, and the administrators' view. Columns of money hold
  millionths of a dollar and at most six digits before the point; columns of counts hold 32 bits.
  A group of a query stands where its first row does.
\<close>

section \<open>Prices\<close>

definition PRICING_TTL_MS :: int where
  "PRICING_TTL_MS = 60 * 60 * 1000"

record model_pricing =
  mp_input :: rat
  mp_output :: rat
  mp_cachedInput :: rat

type_synonym prices = "(string, model_pricing) js_map"

text \<open>A model of the gateway's catalogue: input, output and cached-input price as texts.\<close>

record gateway_model =
  gm_id :: string
  gm_pricing :: "(string \<times> string \<times> string option) option"

text \<open>\<open>toNumber\<close>: a missing or unreadable price is zero.\<close>

definition price_number :: "string option \<Rightarrow> rat" where
  "price_number v = (case v of None \<Rightarrow> 0 | Some s \<Rightarrow> or_else (js_number s) 0)"

definition pricing_of :: "string \<times> string \<times> string option \<Rightarrow> model_pricing" where
  "pricing_of p = (case p of (inp, out, cached) \<Rightarrow>
     \<lparr>mp_input = price_number (Some inp), mp_output = price_number (Some out), mp_cachedInput = price_number cached\<rparr>)"

definition price_list :: "gateway_model list \<Rightarrow> prices" where
  "price_list models = foldl (\<lambda>prices m. case gm_pricing m of None \<Rightarrow> prices
     | Some p \<Rightarrow> map_set (gm_id m) (pricing_of p) prices) [] models"

definition FALLBACK_PRICING :: prices where
  "FALLBACK_PRICING = [(''deepseek/deepseek-v4-pro'',
     \<lparr>mp_input = dbl 0.00000028, mp_output = dbl 0.00000042, mp_cachedInput = dbl 0.000000028\<rparr>)]"

text \<open>The module's two variables: the cached list with the time it was fetched for, and the
  fetch that is under way, with its time and the callers that wait for it.\<close>

record pricing_state =
  ps_cache :: "(prices \<times> int) option"
  ps_inFlight :: "(int \<times> nat list) option"

text \<open>A call of \<open>loadModelPricing\<close>: the list at once, or a caller more that waits.\<close>

definition load_model_pricing :: "nat \<Rightarrow> int \<Rightarrow> pricing_state \<Rightarrow> prices option \<times> pricing_state" where
  "load_model_pricing caller now s =
     (let join = (None, s\<lparr>ps_inFlight := Some (case ps_inFlight s of
            None \<Rightarrow> (now, [caller]) | Some (t, waiting) \<Rightarrow> (t, waiting @ [caller]))\<rparr>)
      in case ps_cache s of
           Some (prices, fetchedAt) \<Rightarrow> (if now - fetchedAt < PRICING_TTL_MS then (Some prices, s) else join)
         | None \<Rightarrow> join)"

text \<open>The gateway answers, or fails (\<open>None\<close>): every waiting caller gets the same list.\<close>

definition pricing_fetched :: "gateway_model list option \<Rightarrow> pricing_state \<Rightarrow> (nat \<times> prices) list \<times> pricing_state" where
  "pricing_fetched answer s =
     (case ps_inFlight s of
        None \<Rightarrow> ([], s)
      | Some (t, waiting) \<Rightarrow>
          (case answer of
             Some models \<Rightarrow> (map (\<lambda>c. (c, price_list models)) waiting,
                s\<lparr>ps_cache := Some (price_list models, t), ps_inFlight := None\<rparr>)
           | None \<Rightarrow> (map (\<lambda>c. (c, case ps_cache s of None \<Rightarrow> [] | Some (prices, _) \<Rightarrow> prices)) waiting,
                s\<lparr>ps_inFlight := None\<rparr>)))"

section \<open>The cost of a request\<close>

record priced_usage =
  pu_inputTokens :: int
  pu_outputTokens :: int
  pu_cachedInputTokens :: int
  pu_reasoningTokens :: int

record cost_result =
  cr_costUsd :: rat
  cr_estimated :: bool

text \<open>Model names are not those of inherited properties of an object.\<close>

definition compute_cost :: "string \<Rightarrow> priced_usage \<Rightarrow> prices \<Rightarrow> cost_result" where
  "compute_cost model usage prices =
     (case (case map_get prices model of None \<Rightarrow> map_get FALLBACK_PRICING model | Some p \<Rightarrow> Some p) of
        None \<Rightarrow> \<lparr>cr_costUsd = 0, cr_estimated = True\<rparr>
      | Some pricing \<Rightarrow>
          let uncachedInput = max (pu_inputTokens usage - pu_cachedInputTokens usage) 0
          in \<lparr>cr_costUsd = dbl (dbl (dbl (of_int uncachedInput * mp_input pricing)
                  + dbl (of_int (pu_cachedInputTokens usage) * mp_cachedInput pricing))
                + dbl (of_int (pu_outputTokens usage) * mp_output pricing)),
              cr_estimated = False\<rparr>)"

section \<open>The ledger\<close>

record usage_event =
  ue_id :: string
  ue_userId :: string
  ue_feature :: string
  ue_model :: string
  ue_referenceId :: "string option"
  ue_inputTokens :: int
  ue_outputTokens :: int
  ue_totalTokens :: int
  ue_reasoningTokens :: int
  ue_cachedInputTokens :: int
  ue_costUsd :: int
  ue_costEstimated :: bool
  ue_toolCalls :: int
  ue_steps :: int
  ue_durationMs :: "int option"
  ue_finishReason :: "string option"
  ue_createdAt :: nat

record user_budget =
  ub_userId :: string
  ub_aiEnabled :: bool
  ub_unlimited :: bool
  ub_updatedAt :: nat
  ub_updatedBy :: "string option"

record credit_grant =
  cg_id :: string
  cg_userId :: string
  cg_amountUsd :: int
  cg_note :: "string option"
  cg_grantedBy :: "string option"
  cg_createdAt :: nat

record ai_db =
  ai_users :: "user_row list"
  ai_events :: "usage_event list"
  ai_budgets :: "user_budget list"
  ai_grants :: "credit_grant list"
  ai_draws :: nat

definition int32 :: "int \<Rightarrow> bool" where
  "int32 n \<longleftrightarrow> - 2147483648 \<le> n \<and> n < 2147483648"

text \<open>\<open>numeric(12,6)\<close>.\<close>

definition usd_column :: "int \<Rightarrow> bool" where
  "usd_column m \<longleftrightarrow> \<bar>m\<bar> < 1000000000000"

definition sum_of :: "('r \<Rightarrow> int) \<Rightarrow> 'r list \<Rightarrow> int" where
  "sum_of f rows = sum_list (map f rows)"

definition granted_usd :: "ai_db \<Rightarrow> string \<Rightarrow> int" where
  "granted_usd db userId = sum_of cg_amountUsd (filter (\<lambda>g. cg_userId g = userId) (ai_grants db))"

definition spent_usd :: "ai_db \<Rightarrow> string \<Rightarrow> int" where
  "spent_usd db userId = sum_of ue_costUsd (filter (\<lambda>e. ue_userId e = userId) (ai_events db))"

record ai_balance =
  ab_unlimited :: bool
  ab_aiEnabled :: bool
  ab_grantedUsd :: rat
  ab_spentUsd :: rat
  ab_remainingUsd :: rat

definition find_budget :: "ai_db \<Rightarrow> string \<Rightarrow> user_budget option" where
  "find_budget db userId = find (\<lambda>b. ub_userId b = userId) (ai_budgets db)"

definition read_ai_balance :: "ai_db \<Rightarrow> string \<Rightarrow> ai_balance" where
  "read_ai_balance db userId =
     (let budget = find_budget db userId;
          grantedUsd = micro_number (granted_usd db userId);
          spentUsd = micro_number (spent_usd db userId)
      in \<lparr>ab_unlimited = (case budget of None \<Rightarrow> True | Some b \<Rightarrow> ub_unlimited b),
          ab_aiEnabled = (case budget of None \<Rightarrow> True | Some b \<Rightarrow> ub_aiEnabled b),
          ab_grantedUsd = grantedUsd, ab_spentUsd = spentUsd, ab_remainingUsd = dbl (grantedUsd - spentUsd)\<rparr>)"

datatype denial = Disabled | Out_of_credits

datatype ai_access = Allowed | Denied denial string

definition check_ai_access :: "ai_db \<Rightarrow> string \<Rightarrow> ai_access" where
  "check_ai_access db userId =
     (let balance = read_ai_balance db userId
      in if \<not> ab_aiEnabled balance
         then Denied Disabled ''AI features are turned off for your account. Ask an administrator to enable them.''
         else if \<not> ab_unlimited balance \<and> ab_remainingUsd balance \<le> 0
         then Denied Out_of_credits ''You have used all of your AI credits. Ask an administrator to add more.''
         else Allowed)"

text \<open>The token counts of the SDK, each of which may be missing.\<close>

record sdk_usage =
  su_inputTokens :: "int option"
  su_outputTokens :: "int option"
  su_totalTokens :: "int option"
  su_cacheReadTokens :: "int option"
  su_reasoningTokens :: "int option"

record recorded_usage =
  ru_inputTokens :: "int option"
  ru_outputTokens :: "int option"
  ru_cachedInputTokens :: "int option"
  ru_reasoningTokens :: "int option"
  ru_totalTokens :: "int option"

definition from_sdk_usage :: "sdk_usage \<Rightarrow> recorded_usage" where
  "from_sdk_usage usage =
     \<lparr>ru_inputTokens = Some (or_else (su_inputTokens usage) 0), ru_outputTokens = Some (or_else (su_outputTokens usage) 0),
      ru_cachedInputTokens = Some (or_else (su_cacheReadTokens usage) 0),
      ru_reasoningTokens = Some (or_else (su_reasoningTokens usage) 0), ru_totalTokens = Some (or_else (su_totalTokens usage) 0)\<rparr>"

record request_info =
  ri_userId :: string
  ri_feature :: string
  ri_model :: string
  ri_referenceId :: "string option"
  ri_toolCalls :: "int option"
  ri_steps :: "int option"
  ri_durationMs :: "int option"
  ri_finishReason :: "string option"

definition event_columns_ok :: "usage_event \<Rightarrow> bool" where
  "event_columns_ok e \<longleftrightarrow> int32 (ue_inputTokens e) \<and> int32 (ue_outputTokens e) \<and> int32 (ue_totalTokens e)
     \<and> int32 (ue_reasoningTokens e) \<and> int32 (ue_cachedInputTokens e) \<and> usd_column (ue_costUsd e)
     \<and> int32 (ue_toolCalls e) \<and> int32 (ue_steps e) \<and> (case ue_durationMs e of None \<Rightarrow> True | Some d \<Rightarrow> int32 d)"

definition insert_event :: "usage_event \<Rightarrow> ai_db \<Rightarrow> ai_db option" where
  "insert_event e db =
     (if ue_id e \<in> ue_id ` set (ai_events db) \<or> ue_userId e \<notin> us_id ` set (ai_users db) \<or> \<not> event_columns_ok e then None
      else Some (db\<lparr>ai_events := ai_events db @ [e]\<rparr>))"

definition usage_event_of :: "string \<Rightarrow> nat \<Rightarrow> request_info \<Rightarrow> priced_usage \<Rightarrow> int option \<Rightarrow> cost_result \<Rightarrow> usage_event" where
  "usage_event_of i now info usage totalTokens cost =
     \<lparr>ue_id = i, ue_userId = ri_userId info, ue_feature = ri_feature info, ue_model = ri_model info,
      ue_referenceId = ri_referenceId info, ue_inputTokens = pu_inputTokens usage, ue_outputTokens = pu_outputTokens usage,
      ue_totalTokens = or_else totalTokens (pu_inputTokens usage + pu_outputTokens usage),
      ue_reasoningTokens = pu_reasoningTokens usage, ue_cachedInputTokens = pu_cachedInputTokens usage,
      ue_costUsd = to_fixed6 (cr_costUsd cost), ue_costEstimated = cr_estimated cost,
      ue_toolCalls = or_else (ri_toolCalls info) 0, ue_steps = or_else (ri_steps info) 1,
      ue_durationMs = ri_durationMs info, ue_finishReason = ri_finishReason info, ue_createdAt = now\<rparr>"

text \<open>An insertion that fails is swallowed.\<close>

definition record_ai_usage ::
    "(nat \<Rightarrow> string) \<Rightarrow> nat \<Rightarrow> prices \<Rightarrow> request_info \<Rightarrow> recorded_usage \<Rightarrow> ai_db \<Rightarrow> rat option \<times> ai_db" where
  "record_ai_usage random_uuid now prices info given db =
     (let usage = \<lparr>pu_inputTokens = or_else (ru_inputTokens given) 0, pu_outputTokens = or_else (ru_outputTokens given) 0,
            pu_cachedInputTokens = or_else (ru_cachedInputTokens given) 0, pu_reasoningTokens = or_else (ru_reasoningTokens given) 0\<rparr>;
          cost = compute_cost (ri_model info) usage prices;
          db1 = db\<lparr>ai_draws := Suc (ai_draws db)\<rparr>
      in case insert_event (usage_event_of (random_uuid (ai_draws db)) now info usage (ru_totalTokens given) cost) db1 of
           None \<Rightarrow> (None, db1)
         | Some db2 \<Rightarrow> (Some (cr_costUsd cost), db2))"

definition meter_sdk_usage ::
    "(nat \<Rightarrow> string) \<Rightarrow> nat \<Rightarrow> prices \<Rightarrow> request_info \<Rightarrow> sdk_usage option \<Rightarrow> ai_db \<Rightarrow> rat option \<times> ai_db" where
  "meter_sdk_usage random_uuid now prices info usage db =
     (case usage of None \<Rightarrow> (None, db) | Some u \<Rightarrow> record_ai_usage random_uuid now prices info (from_sdk_usage u) db)"

definition list_user_ai_usage :: "ai_db \<Rightarrow> string \<Rightarrow> nat \<Rightarrow> usage_event list" where
  "list_user_ai_usage db userId limit = take limit (sort_by (direction True (\<lambda>a b. ue_createdAt a \<le> ue_createdAt b))
     (filter (\<lambda>e. ue_userId e = userId) (ai_events db)))"

end
