(* ===== verification/Ai_Router.thy ===== *)
theory Ai_Router
  imports Ai_Usage
begin

text \<open>
  The procedures over the ledger (\<open>ai-usage/router.ts\<close>): a user's own spending, the platform's,
  one user's detail, access and credits. A sum of a count column is cast to 32 bits and the query
  fails when it does not fit. The text of a day is the database's.
\<close>

definition MS_PER_DAY :: nat where "MS_PER_DAY = 86400000"
definition USAGE_WINDOW_DAYS :: nat where "USAGE_WINDOW_DAYS = 30"
definition USER_LIMIT :: nat where "USER_LIMIT = 200"
definition RECENT_EVENTS_DEFAULT :: nat where "RECENT_EVENTS_DEFAULT = 25"
definition RECENT_EVENTS_MAX :: nat where "RECENT_EVENTS_MAX = 50"
definition MAX_GRANT_USD :: rat where "MAX_GRANT_USD = 10000"
definition MAX_NOTE_LENGTH :: nat where "MAX_NOTE_LENGTH = 200"

section \<open>Aggregates\<close>

definition as_int :: "('r \<Rightarrow> int) \<Rightarrow> 'r list \<Rightarrow> trpc_error + int" where
  "as_int f rows = (if int32 (sum_of f rows) then Inr (sum_of f rows) else Inl (TRPC INTERNAL_ERROR ''integer out of range''))"

fun collect_sum :: "('e + 'a) list \<Rightarrow> 'e + 'a list" where
  "collect_sum [] = Inr []"
| "collect_sum (x # xs) = bind_sum x (\<lambda>v. bind_sum (collect_sum xs) (\<lambda>vs. Inr (v # vs)))"

definition groups_by :: "('r \<Rightarrow> 'k) \<Rightarrow> 'r list \<Rightarrow> ('k \<times> 'r list) list" where
  "groups_by key rows = map (\<lambda>k. (k, filter (\<lambda>r. key r = k) rows)) (foldl (\<lambda>ks r. set_add (key r) ks) [] rows)"

record usage_group =
  ug_key :: string
  ug_requests :: nat
  ug_totalTokens :: int
  ug_costUsd :: rat

text \<open>A breakdown: per key the number of requests, tokens and cost.\<close>

definition usage_group_of :: "string \<times> usage_event list \<Rightarrow> trpc_error + usage_group" where
  "usage_group_of g = (case g of (k, rows) \<Rightarrow> bind_sum (as_int ue_totalTokens rows) (\<lambda>tokens.
     Inr \<lparr>ug_key = k, ug_requests = length rows, ug_totalTokens = tokens, ug_costUsd = micro_number (sum_of ue_costUsd rows)\<rparr>))"

definition by_cost :: "(usage_event \<Rightarrow> string) \<Rightarrow> usage_event list \<Rightarrow> trpc_error + usage_group list" where
  "by_cost key rows = collect_sum (map usage_group_of
     (sort_by (direction True (\<lambda>a b. sum_of ue_costUsd (snd a) \<le> sum_of ue_costUsd (snd b))) (groups_by key rows)))"

definition by_day :: "(nat \<Rightarrow> string) \<Rightarrow> usage_event list \<Rightarrow> trpc_error + usage_group list" where
  "by_day day_text rows = collect_sum (map (\<lambda>(d, es). usage_group_of (day_text d, es))
     (sort_by (\<lambda>a b. fst a \<le> fst b) (groups_by (\<lambda>e. ue_createdAt e div MS_PER_DAY) rows)))"

record usage_totals =
  ut_requests :: nat
  ut_inputTokens :: int
  ut_outputTokens :: int
  ut_totalTokens :: int
  ut_toolCalls :: int
  ut_costUsd :: rat

definition totals_of :: "usage_event list \<Rightarrow> trpc_error + usage_totals" where
  "totals_of rows = bind_sum (as_int ue_inputTokens rows) (\<lambda>inp. bind_sum (as_int ue_outputTokens rows) (\<lambda>out.
     bind_sum (as_int ue_totalTokens rows) (\<lambda>tokens. bind_sum (as_int ue_toolCalls rows) (\<lambda>calls.
       Inr \<lparr>ut_requests = length rows, ut_inputTokens = inp, ut_outputTokens = out, ut_totalTokens = tokens,
            ut_toolCalls = calls, ut_costUsd = micro_number (sum_of ue_costUsd rows)\<rparr>))))"

section \<open>One's own spending\<close>

record my_usage =
  mu_balance :: ai_balance
  mu_totals :: usage_totals
  mu_byModel :: "usage_group list"
  mu_byFeature :: "usage_group list"
  mu_daily :: "usage_group list"
  mu_recent :: "usage_event list"

definition window_start :: "nat \<Rightarrow> int" where
  "window_start now = int now - int (USAGE_WINDOW_DAYS * MS_PER_DAY)"

definition usage_mine :: "(nat \<Rightarrow> string) \<Rightarrow> nat \<Rightarrow> admin_user option \<Rightarrow> ai_db \<Rightarrow> trpc_error + my_usage" where
  "usage_mine day_text now user db = protected_procedure ''Sign in required'' user (\<lambda>u.
     let rows = filter (\<lambda>e. ue_userId e = au_id u) (ai_events db)
     in bind_sum (totals_of rows) (\<lambda>totals. bind_sum (by_cost ue_model rows) (\<lambda>byModel.
          bind_sum (by_cost ue_feature rows) (\<lambda>byFeature.
          bind_sum (by_day day_text (filter (\<lambda>e. window_start now \<le> int (ue_createdAt e)) rows)) (\<lambda>daily.
            Inr \<lparr>mu_balance = read_ai_balance db (au_id u), mu_totals = totals, mu_byModel = byModel, mu_byFeature = byFeature,
                 mu_daily = daily, mu_recent = list_user_ai_usage db (au_id u) RECENT_EVENTS_DEFAULT\<rparr>)))))"

section \<open>The platform's spending\<close>

text \<open>Signing in comes first, then the role.\<close>

definition ledger_admin :: "admin_user option \<Rightarrow> string list \<Rightarrow> (admin_user \<Rightarrow> trpc_error + 'a) \<Rightarrow> trpc_error + 'a" where
  "ledger_admin user adminRoles next = protected_procedure ''Sign in required'' user (\<lambda>u.
     if or_else (au_role u) [] \<notin> set adminRoles then Inl (TRPC FORBIDDEN ''Sysadmin access required'') else next u)"

record user_spend =
  sp_requests :: nat
  sp_totalTokens :: int
  sp_toolCalls :: int
  sp_spentUsd :: int
  sp_lastUsedAt :: "nat option"

definition spend_of :: "usage_event list \<Rightarrow> trpc_error + user_spend" where
  "spend_of rows = bind_sum (as_int ue_totalTokens rows) (\<lambda>tokens. bind_sum (as_int ue_toolCalls rows) (\<lambda>calls.
     Inr \<lparr>sp_requests = length rows, sp_totalTokens = tokens, sp_toolCalls = calls, sp_spentUsd = sum_of ue_costUsd rows,
          sp_lastUsedAt = (if rows = [] then None else Some (Max (set (map ue_createdAt rows))))\<rparr>))"

record overview_row =
  ov_userId :: string
  ov_name :: string
  ov_email :: string
  ov_role :: "string option"
  ov_aiEnabled :: bool
  ov_unlimited :: bool
  ov_configured :: bool
  ov_grantedUsd :: rat
  ov_spentUsd :: rat
  ov_remainingUsd :: rat
  ov_requests :: nat
  ov_totalTokens :: int
  ov_toolCalls :: int
  ov_lastUsedAt :: "nat option"

definition overview_row_of ::
    "(string, user_spend) js_map \<Rightarrow> (string, int) js_map \<Rightarrow> (string, user_budget) js_map \<Rightarrow> user_row \<Rightarrow> overview_row" where
  "overview_row_of spendByUser grantByUser budgetByUser entry =
     (let spend = map_get spendByUser (us_id entry); budget = map_get budgetByUser (us_id entry);
          grantedUsd = (case map_get grantByUser (us_id entry) of None \<Rightarrow> 0 | Some g \<Rightarrow> micro_number g);
          spentUsd = (case spend of None \<Rightarrow> 0 | Some s \<Rightarrow> micro_number (sp_spentUsd s))
      in \<lparr>ov_userId = us_id entry, ov_name = us_name entry, ov_email = us_email entry, ov_role = us_role entry,
          ov_aiEnabled = (case budget of None \<Rightarrow> True | Some b \<Rightarrow> ub_aiEnabled b),
          ov_unlimited = (case budget of None \<Rightarrow> True | Some b \<Rightarrow> ub_unlimited b), ov_configured = (budget \<noteq> None),
          ov_grantedUsd = grantedUsd, ov_spentUsd = spentUsd, ov_remainingUsd = dbl (grantedUsd - spentUsd),
          ov_requests = (case spend of None \<Rightarrow> 0 | Some s \<Rightarrow> sp_requests s),
          ov_totalTokens = (case spend of None \<Rightarrow> 0 | Some s \<Rightarrow> sp_totalTokens s),
          ov_toolCalls = (case spend of None \<Rightarrow> 0 | Some s \<Rightarrow> sp_toolCalls s),
          ov_lastUsedAt = (case spend of None \<Rightarrow> None | Some s \<Rightarrow> sp_lastUsedAt s)\<rparr>)"

record overview_totals =
  ot_spentUsd :: rat
  ot_grantedUsd :: rat
  ot_requests :: nat
  ot_totalTokens :: int
  ot_activeUsers :: nat

text \<open>\<open>reduce\<close> over the rows; only the sums of money round.\<close>

definition overview_totals_of :: "overview_row list \<Rightarrow> overview_totals" where
  "overview_totals_of rows =
     \<lparr>ot_spentUsd = foldl (\<lambda>sum row. dbl (sum + ov_spentUsd row)) 0 rows,
      ot_grantedUsd = foldl (\<lambda>sum row. dbl (sum + ov_grantedUsd row)) 0 rows,
      ot_requests = sum_list (map ov_requests rows), ot_totalTokens = sum_list (map ov_totalTokens rows),
      ot_activeUsers = length (filter (\<lambda>row. 0 < ov_requests row) rows)\<rparr>"

record overview =
  ow_totals :: overview_totals
  ow_rows :: "overview_row list"
  ow_byModel :: "usage_group list"
  ow_byFeature :: "usage_group list"

definition usage_overview ::
    "(string \<Rightarrow> string \<Rightarrow> bool) \<Rightarrow> admin_user option \<Rightarrow> string list \<Rightarrow> ai_db \<Rightarrow> trpc_error + overview" where
  "usage_overview le user adminRoles db = ledger_admin user adminRoles (\<lambda>u.
     bind_sum (collect_sum (map (\<lambda>(k, rows). bind_sum (spend_of rows) (\<lambda>s. Inr (k, s))) (groups_by ue_userId (ai_events db)))) (\<lambda>spendRows.
     bind_sum (by_cost ue_model (ai_events db)) (\<lambda>byModel. bind_sum (by_cost ue_feature (ai_events db)) (\<lambda>byFeature.
       let grantRows = map (\<lambda>(k, rows). (k, sum_of cg_amountUsd rows)) (groups_by cg_userId (ai_grants db));
           budgetRows = map (\<lambda>b. (ub_userId b, b)) (ai_budgets db);
           users = take USER_LIMIT (sort_by (\<lambda>a b. le (us_name a) (us_name b)) (ai_users db));
           rows = map (overview_row_of (map_from spendRows) (map_from grantRows) (map_from budgetRows)) users
       in Inr \<lparr>ow_totals = overview_totals_of rows, ow_rows = rows, ow_byModel = byModel, ow_byFeature = byFeature\<rparr>))))"

section \<open>One user's detail, access and credits\<close>

record spend_detail =
  sd_balance :: ai_balance
  sd_events :: "usage_event list"
  sd_grants :: "credit_grant list"

definition user_detail ::
    "admin_user option \<Rightarrow> string list \<Rightarrow> string \<Rightarrow> int \<Rightarrow> ai_db \<Rightarrow> trpc_error + spend_detail" where
  "user_detail user adminRoles userId limit db = ledger_admin user adminRoles (\<lambda>u.
     if limit < 1 \<or> int RECENT_EVENTS_MAX < limit then Inl (TRPC BAD_REQUEST ''limit'')
     else Inr \<lparr>sd_balance = read_ai_balance db userId, sd_events = list_user_ai_usage db userId (nat limit),
       sd_grants = take RECENT_EVENTS_MAX (sort_by (direction True (\<lambda>a b. cg_createdAt a \<le> cg_createdAt b))
         (filter (\<lambda>g. cg_userId g = userId) (ai_grants db)))\<rparr>)"

text \<open>The foreign key of the ledger's tables.\<close>

definition with_account :: "string \<Rightarrow> ai_db \<Rightarrow> (unit \<Rightarrow> trpc_error + 'a) \<Rightarrow> trpc_error + 'a" where
  "with_account userId db next =
     (if userId \<notin> us_id ` set (ai_users db) then Inl (TRPC INTERNAL_ERROR ''foreign key'') else next ())"

definition set_access ::
    "nat \<Rightarrow> admin_user option \<Rightarrow> string list \<Rightarrow> string \<Rightarrow> bool \<Rightarrow> bool \<Rightarrow> ai_db \<Rightarrow> trpc_error + ai_balance \<times> ai_db" where
  "set_access now user adminRoles userId aiEnabled unlimited db = ledger_admin user adminRoles (\<lambda>u.
     with_account userId db (\<lambda>_.
       let db1 = (if find_budget db userId = None
             then db\<lparr>ai_budgets := ai_budgets db @ [\<lparr>ub_userId = userId, ub_aiEnabled = aiEnabled, ub_unlimited = unlimited,
                    ub_updatedAt = now, ub_updatedBy = Some (au_id u)\<rparr>]\<rparr>
             else db\<lparr>ai_budgets := map (\<lambda>b. if ub_userId b = userId then b\<lparr>ub_aiEnabled := aiEnabled, ub_unlimited := unlimited,
                    ub_updatedAt := now, ub_updatedBy := Some (au_id u)\<rparr> else b) (ai_budgets db)\<rparr>)
       in Inr (read_ai_balance db1 userId, db1)))"

definition z_amount :: "rat \<Rightarrow> trpc_error + rat" where
  "z_amount amountUsd =
     (if amountUsd = 0 then Inl (TRPC BAD_REQUEST ''Amount must not be zero'')
      else if MAX_GRANT_USD < \<bar>amountUsd\<bar> then Inl (TRPC BAD_REQUEST ''A single adjustment cannot exceed $10000'')
      else Inr amountUsd)"

definition z_note :: "string option \<Rightarrow> trpc_error + string option" where
  "z_note note = (case note of None \<Rightarrow> Inr None
     | Some s \<Rightarrow> if MAX_NOTE_LENGTH < length (trim s) then Inl (TRPC BAD_REQUEST ''note'') else Inr (Some (trim s)))"

definition grant_credits ::
    "(nat \<Rightarrow> string) \<Rightarrow> nat \<Rightarrow> admin_user option \<Rightarrow> string list \<Rightarrow> string \<Rightarrow> rat \<Rightarrow> string option \<Rightarrow> ai_db
      \<Rightarrow> trpc_error + ai_balance \<times> ai_db" where
  "grant_credits random_uuid now user adminRoles userId amountUsd note db = ledger_admin user adminRoles (\<lambda>u.
     bind_sum (z_amount amountUsd) (\<lambda>amountUsd. bind_sum (z_note note) (\<lambda>note.
       let i = random_uuid (ai_draws db); db1 = db\<lparr>ai_draws := Suc (ai_draws db)\<rparr>
       in if i \<in> cg_id ` set (ai_grants db) then Inl (TRPC INTERNAL_ERROR ''unique'')
          else with_account userId db (\<lambda>_.
            let db2 = db1\<lparr>ai_grants := ai_grants db1 @ [\<lparr>cg_id = i, cg_userId = userId, cg_amountUsd = to_fixed6 amountUsd,
                  cg_note = note, cg_grantedBy = Some (au_id u), cg_createdAt = now\<rparr>]\<rparr>;
                db3 = (if find_budget db2 userId = None
                  then db2\<lparr>ai_budgets := ai_budgets db2 @ [\<lparr>ub_userId = userId, ub_aiEnabled = True, ub_unlimited = False,
                         ub_updatedAt = now, ub_updatedBy = Some (au_id u)\<rparr>]\<rparr>
                  else db2)
            in Inr (read_ai_balance db3 userId, db3)))))"

end
