(* ===== verification/User_Laws.thy ===== *)
theory User_Laws
  imports User_Admin
begin

text \<open>
  Accounts stay consistent and administrable, whether their owners act from a browser session or
  through an API key or an access token: unique columns, foreign keys, no session of a banned
  account, and no operation but a change of role that can leave the platform without an
  administrator. Among session holders an administrator even stays signed in; tools can end that,
  because they also serve banned accounts.
\<close>

section \<open>Runs\<close>

text \<open>A session's user: it has a session and its own row.\<close>

definition acting :: "users_db \<Rightarrow> admin_user \<Rightarrow> bool" where
  "acting db u \<longleftrightarrow> au_id u \<in> ss_userId ` set (ud_sessions db) \<and> find_agent_user (au_id u) db = Some u"

text \<open>The other way in: a request with an API key or an access token that the library accepts acts as
  the owner of it.\<close>

datatype via = Browser | Tools

fun acts :: "auth_library \<Rightarrow> users_db \<Rightarrow> via \<Rightarrow> admin_user \<Rightarrow> bool" where
  "acts lib db Browser u = acting db u"
| "acts lib db Tools u \<longleftrightarrow> (\<exists>apiKey bearer. verify_token lib db apiKey bearer = Some (au_id u))
     \<and> find_agent_user (au_id u) db = Some u"

datatype user_change =
    Role_set string string
  | Banned string
  | Unbanned string
  | Removed string
  | App_revoked string string
  | Signed_in string

text \<open>The library signs in who is not banned.\<close>

inductive users_step :: "auth_library \<Rightarrow> string list \<Rightarrow> via \<times> user_change \<Rightarrow> users_db \<Rightarrow> users_db \<Rightarrow> bool" for lib roles where
  role: "acts lib db v u \<Longrightarrow> set_role now (Some u) roles i role db = Inr db' \<Longrightarrow> users_step lib roles (v, Role_set i role) db db'"
| ban: "acts lib db v u \<Longrightarrow> set_ban now (Some u) roles i True reason db = Inr db' \<Longrightarrow> users_step lib roles (v, Banned i) db db'"
| unban: "acts lib db v u \<Longrightarrow> set_ban now (Some u) roles i False reason db = Inr db' \<Longrightarrow> users_step lib roles (v, Unbanned i) db db'"
| remove: "acts lib db v u \<Longrightarrow> remove_user (Some u) roles i db = Inr db' \<Longrightarrow> users_step lib roles (v, Removed i) db db'"
| revoke: "acts lib db v u \<Longrightarrow> revoke_connected_app (Some u) c db = Inr db' \<Longrightarrow> users_step lib roles (v, App_revoked (au_id u) c) db db'"
| sign_in: "r \<in> set (ud_users db) \<Longrightarrow> us_banned r \<noteq> Some True
    \<Longrightarrow> users_step lib roles (Browser, Signed_in (us_id r)) db
         (db\<lparr>ud_sessions := ud_sessions db @ [\<lparr>ss_token = t, ss_userId = us_id r, ss_expiresAt = e\<rparr>]\<rparr>)"

inductive users_run :: "auth_library \<Rightarrow> string list \<Rightarrow> (via \<times> user_change) list \<Rightarrow> users_db \<Rightarrow> users_db \<Rightarrow> bool" for lib roles where
  stop: "users_run lib roles [] db db"
| more: "users_step lib roles c db db1 \<Longrightarrow> users_run lib roles cs db1 db2 \<Longrightarrow> users_run lib roles (c # cs) db db2"

section \<open>Consistent tables\<close>

definition session_ok :: "user_row list \<Rightarrow> session_row \<Rightarrow> bool" where
  "session_ok users s \<longleftrightarrow> (\<exists>r\<in>set users. us_id r = ss_userId s \<and> us_banned r \<noteq> Some True)"

definition users_ok :: "users_db \<Rightarrow> bool" where
  "users_ok db \<longleftrightarrow> distinct (map us_id (ud_users db)) \<and> distinct (map us_email (ud_users db))
     \<and> (\<forall>s\<in>set (ud_sessions db). session_ok (ud_users db) s)
     \<and> (\<forall>t\<in>set (ud_tokens db). ot_clientId t \<in> oa_clientId ` set (ud_applications db))
     \<and> (\<forall>c\<in>set (ud_consents db). oc_clientId c \<in> oa_clientId ` set (ud_applications db) \<and> oc_userId c \<in> us_id ` set (ud_users db))
     \<and> distinct (map oa_clientId (ud_applications db))"

lemma update_user_simps [simp]:
  "ud_sessions (update_user now i f db) = ud_sessions db" "ud_tokens (update_user now i f db) = ud_tokens db"
  "ud_consents (update_user now i f db) = ud_consents db" "ud_applications (update_user now i f db) = ud_applications db"
  "ud_apikeys (update_user now i f db) = ud_apikeys db"
  "ud_users (update_user now i f db) = map (\<lambda>r. if us_id r = i then (f r)\<lparr>us_updatedAt := now\<rparr> else r) (ud_users db)"
  by (simp_all add: update_user_def)

lemma set_role_Inr:
  "set_role now (Some u) roles i role db = Inr db' \<longleftrightarrow>
     or_else (au_role u) [] \<in> set roles \<and> List.member ROLES role \<and> db' = update_user now i (\<lambda>r. r\<lparr>us_role := Some role\<rparr>) db"
  by (auto simp: set_role_def admin_procedure_def)

lemma ban_Inr:
  "set_ban now (Some u) roles i True reason db = Inr db' \<Longrightarrow> or_else (au_role u) [] \<in> set roles \<and> i \<noteq> au_id u
     \<and> (\<exists>why. db' = (update_user now i (\<lambda>r. r\<lparr>us_banned := Some True, us_banReason := Some why\<rparr>) db)
          \<lparr>ud_sessions := filter (\<lambda>s. ss_userId s \<noteq> i) (ud_sessions db)\<rparr>)"
  by (auto simp: set_ban_def admin_procedure_def Let_def split: if_splits option.splits)

lemma unban_Inr:
  "set_ban now (Some u) roles i False reason db = Inr db' \<Longrightarrow> or_else (au_role u) [] \<in> set roles
     \<and> db' = update_user now i (\<lambda>r. r\<lparr>us_banned := Some False, us_banReason := None, us_banExpires := None\<rparr>) db"
  by (auto simp: set_ban_def admin_procedure_def split: if_splits option.splits)

lemma remove_Inr:
  "remove_user (Some u) roles i db = Inr db' \<longleftrightarrow> or_else (au_role u) [] \<in> set roles \<and> i \<noteq> au_id u \<and> db' = delete_user i db"
  by (auto simp: remove_user_def admin_procedure_def)

lemma disconnect_Inr:
  "revoke_connected_app (Some u) c db = Inr db' \<longleftrightarrow>
     db' = db\<lparr>ud_tokens := filter (\<lambda>t. \<not> (ot_clientId t = c \<and> ot_userId t = Some (au_id u))) (ud_tokens db),
              ud_consents := filter (\<lambda>k. \<not> (oc_clientId k = c \<and> oc_userId k = au_id u)) (ud_consents db)\<rparr>"
  by (auto simp: revoke_connected_app_def protected_procedure_def)

lemmas user_ops_Inr = set_role_Inr ban_Inr unban_Inr remove_Inr disconnect_Inr









section \<open>Administrators\<close>


definition administered :: "string list \<Rightarrow> users_db \<Rightarrow> bool" where
  "administered roles db \<longleftrightarrow> (\<exists>u. acting db u \<and> or_else (au_role u) [] \<in> set roles)"


lemma find_agent_user_map:
  assumes "\<And>r. us_id (g r) = us_id r"
  shows "find_agent_user i (db\<lparr>ud_users := map g (ud_users db)\<rparr>) =
    map_option (\<lambda>r. \<lparr>au_id = us_id r, au_role = us_role (g r)\<rparr>) (find (\<lambda>r. us_id r = i) (ud_users db))"
proof -
  have "find (\<lambda>r. us_id r = i) (map g rs) = map_option g (find (\<lambda>r. us_id r = i) rs)" for rs
    using assms by (induction rs) auto
  then show ?thesis using assms by (simp add: find_agent_user_def option.map_comp comp_def)
qed

lemma find_agent_user_id: "find_agent_user i db = Some u \<Longrightarrow> au_id u = i"
  by (auto simp: find_agent_user_def dest: find_Some_mem)

lemma find_agent_user_update:
  assumes "\<And>r. us_id (f r) = us_id r"
  shows "find_agent_user i (update_user now j f db) =
    map_option (\<lambda>r. \<lparr>au_id = us_id r, au_role = us_role (if us_id r = j then f r else r)\<rparr>) (find (\<lambda>r. us_id r = i) (ud_users db))"
proof -
  have "find_agent_user i (update_user now j f db) =
      map_option (\<lambda>r. \<lparr>au_id = us_id r, au_role = us_role (if us_id r = j then (f r)\<lparr>us_updatedAt := now\<rparr> else r)\<rparr>)
        (find (\<lambda>r. us_id r = i) (ud_users db))"
    unfolding update_user_def by (rule find_agent_user_map) (use assms in simp)
  also have "\<dots> = map_option (\<lambda>r. \<lparr>au_id = us_id r, au_role = us_role (if us_id r = j then f r else r)\<rparr>) (find (\<lambda>r. us_id r = i) (ud_users db))"
    by (rule arg_cong[where f = "\<lambda>h. map_option h _"]) auto
  finally show ?thesis .
qed

lemma find_agent_user_role_kept:
  assumes "\<And>r. us_id (f r) = us_id r" "\<And>r. us_role (f r) = us_role r"
  shows "find_agent_user i (update_user now j f db) = find_agent_user i db"
  unfolding find_agent_user_update[OF assms(1)] unfolding find_agent_user_def
  by (rule arg_cong[where f = "\<lambda>h. map_option h _"]) (use assms(2) in auto)

lemma find_agent_user_sessions [simp]: "find_agent_user i (db\<lparr>ud_sessions := s\<rparr>) = find_agent_user i db"
  by (simp add: find_agent_user_def)







section \<open>The property\<close>


definition demo_user :: "string \<Rightarrow> string \<Rightarrow> user_row" where
  "demo_user i role = \<lparr>us_id = i, us_name = i, us_email = i, us_emailVerified = True, us_image = None, us_createdAt = 0,
     us_updatedAt = 0, us_role = Some role, us_banned = None, us_banReason = None, us_banExpires = None\<rparr>"

definition demo_users :: users_db where
  "demo_users = \<lparr>ud_users = [demo_user ''a'' ''admin'', demo_user ''b'' ''user''],
     ud_sessions = [\<lparr>ss_token = ''1'', ss_userId = ''a'', ss_expiresAt = 9\<rparr>, \<lparr>ss_token = ''2'', ss_userId = ''b'', ss_expiresAt = 9\<rparr>],
     ud_accounts = [], ud_passkeys = [], ud_deviceCodes = [],
     ud_apikeys = [\<lparr>ak_key = ''k'', ak_referenceId = ''b'', ak_enabled = True\<rparr>], ud_applications = [], ud_tokens = [], ud_consents = []\<rparr>"

definition demo_actor :: admin_user where
  "demo_actor = \<lparr>au_id = ''a'', au_role = Some ''admin''\<rparr>"


definition demo_library :: auth_library where
  "demo_library = \<lparr>al_verifyApiKey = (\<lambda>db key. case find (\<lambda>k. ak_key k = key \<and> ak_enabled k) (ud_apikeys db) of
       None \<Rightarrow> (False, None) | Some k \<Rightarrow> (True, Some (ak_referenceId k))),
     al_getMcpSession = (\<lambda>db token. None)\<rparr>"


section \<open>Findings\<close>

text \<open>A ban ends the sessions, but keeps tokens and API keys, and a request that comes with one of
  those finds the account with its role as before.\<close>

lemma banned_keeps_tools:
  assumes "set_ban now user roles i True reason db = Inr db'"
  shows "ud_tokens db' = ud_tokens db \<and> ud_apikeys db' = ud_apikeys db \<and> find_agent_user i db' = find_agent_user i db"
proof -
  obtain u where "user = Some u" using assms by (cases user) (simp_all add: set_ban_def admin_procedure_def)
  with assms show ?thesis using ban_Inr[of now u roles i reason db db'] by (auto simp: find_agent_user_role_kept)
qed

text \<open>So an administrator who is banned goes on administrating through an API key, and can ban the last
  administrator who is signed in.\<close>

definition banned_admins :: users_db where
  "banned_admins = demo_users\<lparr>ud_users := [demo_user ''a'' ''admin'', (demo_user ''b'' ''admin'')\<lparr>us_banned := Some True\<rparr>],
     ud_sessions := [\<lparr>ss_token = ''1'', ss_userId = ''a'', ss_expiresAt = 9\<rparr>]\<rparr>"

lemma banned_admin_takes_over:
  "\<exists>db'. users_ok banned_admins \<and> administered [''admin''] banned_admins
    \<and> users_run demo_library [''admin''] [(Tools, Banned ''a'')] banned_admins db' \<and> ud_sessions db' = []"
proof -
  let ?b = "\<lparr>au_id = ''b'', au_role = Some ''admin''\<rparr>"
  have "verify_token demo_library banned_admins (Some ''k'') None = Some ''b''"
    by (simp add: verify_token_def demo_library_def banned_admins_def demo_users_def)
  moreover have "find_agent_user ''b'' banned_admins = Some ?b"
    by (simp add: find_agent_user_def banned_admins_def demo_users_def demo_user_def)
  ultimately have acts: "acts demo_library banned_admins Tools ?b" by auto
  obtain db' where ban: "set_ban 1 (Some ?b) [''admin''] ''a'' True None banned_admins = Inr db'"
    by (simp add: set_ban_def admin_procedure_def or_else_def Let_def)
  then have "users_run demo_library [''admin''] [(Tools, Banned ''a'')] banned_admins db'"
    using acts by (blast intro: users_run.intros users_step.ban)
  moreover have "ud_sessions db' = []" using ban_Inr[OF ban] by (auto simp: banned_admins_def)
  moreover have "users_ok banned_admins"
    by (simp add: users_ok_def banned_admins_def demo_users_def demo_user_def session_ok_def)
  moreover have "acting banned_admins demo_actor"
    by (simp add: acting_def banned_admins_def demo_users_def demo_user_def find_agent_user_def demo_actor_def)
  then have "administered [''admin''] banned_admins"
    unfolding administered_def by (intro exI[of _ demo_actor]) (simp add: demo_actor_def or_else_def)
  ultimately show ?thesis by blast
qed

text \<open>The only administrator may take the role away from itself.\<close>

lemma last_admin_demotes:
  "\<exists>db'. set_role 1 (Some demo_actor) [''admin''] ''a'' ''user'' demo_users = Inr db' \<and> \<not> administered [''admin''] db'"
proof -
  have "List.member ROLES ''user''" by (simp add: ROLES_def)
  then have new: "set_role 1 (Some demo_actor) [''admin''] ''a'' ''user'' demo_users
      = Inr (update_user 1 ''a'' (\<lambda>r. r\<lparr>us_role := Some ''user''\<rparr>) demo_users)"
    by (simp add: set_role_def admin_procedure_def demo_actor_def or_else_def)
  have "\<not> administered [''admin''] (update_user 1 ''a'' (\<lambda>r. r\<lparr>us_role := Some ''user''\<rparr>) demo_users)"
    by (auto simp: administered_def acting_def demo_users_def demo_user_def find_agent_user_def or_else_def update_user_def
        dest: arg_cong[where f = au_role] split: if_splits option.splits)
  with new show ?thesis by blast
qed

end
