(* ===== verification/Ai_Laws.thy ===== *)
theory Ai_Laws
  imports Ai_Router User_Laws
begin

text \<open>
  The gate before a request and the ledger after it: what is recorded is what the request cost up
  to rounding, and a capped user's spending exceeds the credits by no more than the requests that
  run at the same time.
\<close>

section \<open>Requests\<close>

text \<open>Requests are numbered. A request is refused or starts; it ends metered, or is lost.\<close>

record ledger =
  lg_db :: ai_db
  lg_running :: "(nat \<times> string) list"

datatype ledger_input =
    Ask nat string
  | Finish nat nat prices request_info "sdk_usage option"
  | Lost nat
  | Access nat "admin_user option" "string list" string bool bool
  | Credit nat "admin_user option" "string list" string rat "string option"

definition end_request :: "nat \<Rightarrow> ledger \<Rightarrow> ledger" where
  "end_request q l = l\<lparr>lg_running := filter (\<lambda>r. fst r \<noteq> q) (lg_running l)\<rparr>"

fun ledger_step :: "(nat \<Rightarrow> string) \<Rightarrow> ledger_input \<Rightarrow> ledger \<Rightarrow> ledger" where
  "ledger_step uuid (Ask q u) l =
     (if check_ai_access (lg_db l) u = Allowed then l\<lparr>lg_running := lg_running l @ [(q, u)]\<rparr> else l)"
| "ledger_step uuid (Finish q now prices info usage) l =
     (case map_of (lg_running l) q of None \<Rightarrow> l
      | Some u \<Rightarrow> end_request q (l\<lparr>lg_db := snd (meter_sdk_usage uuid now prices (info\<lparr>ri_userId := u\<rparr>) usage (lg_db l))\<rparr>))"
| "ledger_step uuid (Lost q) l = end_request q l"
| "ledger_step uuid (Access now admin roles u enabled unlimited) l =
     (case set_access now admin roles u enabled unlimited (lg_db l) of Inl e \<Rightarrow> l | Inr (b, db) \<Rightarrow> l\<lparr>lg_db := db\<rparr>)"
| "ledger_step uuid (Credit now admin roles u amount note) l =
     (case grant_credits uuid now admin roles u amount note (lg_db l) of Inl e \<Rightarrow> l | Inr (b, db) \<Rightarrow> l\<lparr>lg_db := db\<rparr>)"

definition ledger_run :: "(nat \<Rightarrow> string) \<Rightarrow> ledger_input list \<Rightarrow> ledger \<Rightarrow> ledger" where
  "ledger_run uuid is l = fold (ledger_step uuid) is l"

fun ledger_states :: "(nat \<Rightarrow> string) \<Rightarrow> ledger_input list \<Rightarrow> ledger \<Rightarrow> ledger list" where
  "ledger_states uuid [] l = [l]"
| "ledger_states uuid (i # is) l = l # ledger_states uuid is (ledger_step uuid i l)"

definition running :: "string \<Rightarrow> ledger \<Rightarrow> nat" where
  "running u l = length (filter (\<lambda>r. snd r = u) (lg_running l))"

fun administers :: "string \<Rightarrow> ledger_input \<Rightarrow> bool" where
  "administers u (Access now admin roles v enabled unlimited) = (v = u)"
| "administers u (Credit now admin roles v amount note) = (v = u)"
| "administers u i = False"

section \<open>The gate\<close>

lemma gate_simps:
  "ab_unlimited (read_ai_balance db u) = (case find_budget db u of None \<Rightarrow> True | Some b \<Rightarrow> ub_unlimited b)"
  "ab_aiEnabled (read_ai_balance db u) = (case find_budget db u of None \<Rightarrow> True | Some b \<Rightarrow> ub_aiEnabled b)"
  "ab_remainingUsd (read_ai_balance db u) = dbl (micro_number (granted_usd db u) - micro_number (spent_usd db u))"
  by (simp_all add: read_ai_balance_def Let_def)

lemma allowed_iff:
  "check_ai_access db u = Allowed \<longleftrightarrow>
     (case find_budget db u of None \<Rightarrow> True
      | Some b \<Rightarrow> ub_aiEnabled b \<and> (ub_unlimited b \<or> micro_number (spent_usd db u) < micro_number (granted_usd db u)))"
  by (auto simp: check_ai_access_def gate_simps Let_def split: option.splits)

text \<open>Doubles never let a user without credits pass.\<close>

lemma allowed_capped:
  assumes "check_ai_access db u = Allowed" "find_budget db u = Some b" "\<not> ub_unlimited b"
  shows "spent_usd db u < granted_usd db u"
proof (rule ccontr)
  assume "\<not> spent_usd db u < granted_usd db u"
  then have "micro_number (granted_usd db u) \<le> micro_number (spent_usd db u)" by (intro micro_number_mono) simp
  with assms show False unfolding allowed_iff by simp
qed

text \<open>And never stop a user who has some, up to two billion dollars.\<close>

lemma allowed_exact:
  assumes "\<bar>granted_usd db u\<bar> \<le> 2 ^ 51" "\<bar>spent_usd db u\<bar> \<le> 2 ^ 51"
  shows "check_ai_access db u = Allowed \<longleftrightarrow>
    (case find_budget db u of None \<Rightarrow> True | Some b \<Rightarrow> ub_aiEnabled b \<and> (ub_unlimited b \<or> spent_usd db u < granted_usd db u))"
  unfolding allowed_iff micro_number_less_iff[OF assms(2,1)] ..

section \<open>What a step changes\<close>

lemma sum_of_append [simp]: "sum_of f (xs @ ys) = sum_of f xs + sum_of f ys"
  by (simp add: sum_of_def)

lemma sum_of_simps [simp]: "sum_of f [] = 0" "sum_of f (x # xs) = f x + sum_of f xs"
  by (simp_all add: sum_of_def)

text \<open>Metering appends one event of the user, or nothing.\<close>

lemma insert_event_Some:
  "insert_event e db = Some db' \<longleftrightarrow> ue_id e \<notin> ue_id ` set (ai_events db) \<and> ue_userId e \<in> us_id ` set (ai_users db)
     \<and> event_columns_ok e \<and> db' = db\<lparr>ai_events := ai_events db @ [e]\<rparr>"
  by (auto simp: insert_event_def)

lemma record_shape:
  "\<exists>e c. record_ai_usage uuid now prices info given db =
       (case insert_event e (db\<lparr>ai_draws := Suc (ai_draws db)\<rparr>) of
          None \<Rightarrow> (None, db\<lparr>ai_draws := Suc (ai_draws db)\<rparr>) | Some db2 \<Rightarrow> (Some c, db2))
     \<and> ue_userId e = ri_userId info"
  unfolding record_ai_usage_def Let_def by (intro exI conjI) (rule refl, simp add: usage_event_of_def)

lemma meter_events:
  assumes "meter_sdk_usage uuid now prices info usage db = (cost, db')"
  obtains es where "ai_events db' = ai_events db @ es" "length es \<le> 1" "\<forall>e\<in>set es. ue_userId e = ri_userId info"
    "ai_budgets db' = ai_budgets db" "ai_grants db' = ai_grants db" "ai_users db' = ai_users db"
proof (cases usage)
  case None
  with assms have "db' = db" by (simp add: meter_sdk_usage_def)
  then show ?thesis by (intro that[of "[]"]) simp_all
next
  case (Some u)
  let ?db = "db\<lparr>ai_draws := Suc (ai_draws db)\<rparr>"
  obtain e c where e: "ue_userId e = ri_userId info"
    and rec: "(cost, db') = (case insert_event e ?db of None \<Rightarrow> (None, ?db) | Some db2 \<Rightarrow> (Some c, db2))"
    using assms Some record_shape[of uuid now prices info "from_sdk_usage u" db] by (auto simp: meter_sdk_usage_def)
  show ?thesis
  proof (cases "insert_event e ?db")
    case None
    with rec have "db' = ?db" by simp
    then show ?thesis by (intro that[of "[]"]) simp_all
  next
    case (Some db2)
    with rec have "db' = ?db\<lparr>ai_events := ai_events db @ [e]\<rparr>" by (simp add: insert_event_Some)
    with e show ?thesis by (intro that[of "[e]"]) simp_all
  qed
qed

text \<open>The administrators' operations leave the ledger of events alone, and other users' credits.\<close>

lemma find_map_other:
  "(\<And>b. k (f b) = k b) \<Longrightarrow> i \<noteq> j \<Longrightarrow> find (\<lambda>b. k b = i) (map (\<lambda>b. if k b = j then f b else b) bs) = find (\<lambda>b. k b = i) bs"
  by (induction bs) auto

lemma find_append_other: "\<not> P x \<Longrightarrow> find P (xs @ [x]) = find P xs"
  by (induction xs) auto

lemma set_access_frame:
  assumes "set_access now admin roles v enabled unlimited db = Inr (b, db')"
  shows "ai_events db' = ai_events db" "ai_grants db' = ai_grants db" "u \<noteq> v \<Longrightarrow> find_budget db' u = find_budget db u"
proof -
  obtain w where db': "db' = (if find_budget db v = None
      then db\<lparr>ai_budgets := ai_budgets db @ [\<lparr>ub_userId = v, ub_aiEnabled = enabled, ub_unlimited = unlimited, ub_updatedAt = now, ub_updatedBy = w\<rparr>]\<rparr>
      else db\<lparr>ai_budgets := map (\<lambda>b. if ub_userId b = v then b\<lparr>ub_aiEnabled := enabled, ub_unlimited := unlimited,
             ub_updatedAt := now, ub_updatedBy := w\<rparr> else b) (ai_budgets db)\<rparr>)"
    using assms by (auto simp: set_access_def ledger_admin_def protected_procedure_def with_account_def Let_def
        split: option.splits if_splits)
  then show "ai_events db' = ai_events db" "ai_grants db' = ai_grants db" by simp_all
  show "u \<noteq> v \<Longrightarrow> find_budget db' u = find_budget db u"
    unfolding find_budget_def db' by (auto simp: find_append_other find_map_other)
qed

lemma grant_credits_frame:
  assumes "grant_credits uuid now admin roles v amount note db = Inr (b, db')"
  shows "ai_events db' = ai_events db" "u \<noteq> v \<Longrightarrow> granted_usd db' u = granted_usd db u" "u \<noteq> v \<Longrightarrow> find_budget db' u = find_budget db u"
proof -
  have "\<exists>g w. cg_userId g = v \<and> ai_grants db' = ai_grants db @ [g] \<and> ai_events db' = ai_events db
      \<and> ai_budgets db' = (if find_budget db v = None then ai_budgets db @
         [\<lparr>ub_userId = v, ub_aiEnabled = True, ub_unlimited = False, ub_updatedAt = now, ub_updatedBy = w\<rparr>] else ai_budgets db)"
    using assms by (auto simp: grant_credits_def ledger_admin_def protected_procedure_def with_account_def Let_def bind_sum_Inr find_budget_def
        split: option.splits if_splits)
  then obtain g w where g: "cg_userId g = v" and db': "ai_grants db' = ai_grants db @ [g]" "ai_events db' = ai_events db"
      "ai_budgets db' = (if find_budget db v = None then ai_budgets db @
         [\<lparr>ub_userId = v, ub_aiEnabled = True, ub_unlimited = False, ub_updatedAt = now, ub_updatedBy = w\<rparr>] else ai_budgets db)"
    by blast
  show "ai_events db' = ai_events db" by (rule db'(2))
  show "u \<noteq> v \<Longrightarrow> granted_usd db' u = granted_usd db u" using g db' by (simp add: granted_usd_def)
  show "u \<noteq> v \<Longrightarrow> find_budget db' u = find_budget db u" using db'(3) by (simp add: find_budget_def find_append_other)
qed

section \<open>Overspending\<close>

lemma spent_usd_append:
  "ai_events db' = ai_events db @ es \<Longrightarrow> spent_usd db' u = spent_usd db u + sum_of ue_costUsd (filter (\<lambda>e. ue_userId e = u) es)"
  by (simp add: spent_usd_def)

text \<open>What a step of others does not touch.\<close>

lemma ledger_step_credits:
  assumes "\<not> administers u i"
  shows "find_budget (lg_db (ledger_step uuid i l)) u = find_budget (lg_db l) u
    \<and> granted_usd (lg_db (ledger_step uuid i l)) u = granted_usd (lg_db l) u"
proof (cases i)
  case (Finish q now prices info usage)
  show ?thesis
  proof (cases "map_of (lg_running l) q")
    case (Some v)
    obtain cost db' where m: "meter_sdk_usage uuid now prices (info\<lparr>ri_userId := v\<rparr>) usage (lg_db l) = (cost, db')" by fastforce
    show ?thesis by (rule meter_events[OF m]) (simp add: Finish Some m end_request_def find_budget_def granted_usd_def)
  qed (simp add: Finish)
next
  case (Access now admin roles v enabled unlimited)
  with assms show ?thesis
    by (auto simp: granted_usd_def set_access_frame split: sum.splits dest: set_access_frame)
next
  case (Credit now admin roles v amount memo)
  with assms show ?thesis
    by (auto split: sum.splits dest: grant_credits_frame)
qed (simp_all add: end_request_def)

lemma ledger_step_events: "\<exists>es. ai_events (lg_db (ledger_step uuid i l)) = ai_events (lg_db l) @ es"
proof (cases i)
  case (Finish q now prices info usage)
  show ?thesis
  proof (cases "map_of (lg_running l) q")
    case (Some v)
    obtain cost db' where m: "meter_sdk_usage uuid now prices (info\<lparr>ri_userId := v\<rparr>) usage (lg_db l) = (cost, db')" by fastforce
    show ?thesis by (rule meter_events[OF m]) (simp add: Finish Some m end_request_def)
  qed (simp add: Finish)
next
  case (Access now admin roles v enabled unlimited)
  then show ?thesis by (auto simp: set_access_frame split: sum.splits)
next
  case (Credit now admin roles v amount memo)
  then show ?thesis by (auto simp: grant_credits_frame split: sum.splits)
qed (simp_all add: end_request_def)

lemma running_end:
  "map_of rs q = Some u \<Longrightarrow> Suc (length (filter (\<lambda>r. snd r = u) (filter (\<lambda>r. fst r \<noteq> q) rs))) \<le> length (filter (\<lambda>r. snd r = u) rs)"
proof (induction rs)
  case (Cons r rs)
  have le: "length (filter (\<lambda>r. snd r = u) (filter (\<lambda>r. fst r \<noteq> q) rs)) \<le> length (filter (\<lambda>r. snd r = u) rs)"
    by (induction rs) auto
  show ?case using Cons le by (cases r) (auto split: if_splits)
qed simp

lemma running_end_le: "running u (end_request q l) \<le> running u l"
  unfolding running_def end_request_def by simp (metis (no_types, lifting) filter_filter length_filter_le filter_cong conj_commute)

text \<open>What is spent, with what the running requests may still cost, stays below a bound.\<close>

lemma potential_step:
  assumes "\<not> administers u i" "find_budget (lg_db l) u = Some b" "\<not> ub_unlimited b" "0 \<le> C"
    and "\<forall>e\<in>set (ai_events (lg_db (ledger_step uuid i l))). ue_userId e = u \<longrightarrow> ue_costUsd e \<le> C"
    and "running u (ledger_step uuid i l) \<le> N" "granted_usd (lg_db l) u - 1 + C * int N \<le> B"
    and "spent_usd (lg_db l) u + C * int (running u l) \<le> B"
  shows "spent_usd (lg_db (ledger_step uuid i l)) u + C * int (running u (ledger_step uuid i l)) \<le> B"
proof -
  let ?l = "ledger_step uuid i l"
  have fewer: "C * int m \<le> C * int n" if "m \<le> n" for m n using that assms(4) by (intro mult_left_mono) auto
  have kept: ?thesis if "spent_usd (lg_db ?l) u = spent_usd (lg_db l) u" "running u ?l \<le> running u l"
    using that(1) fewer[OF that(2)] assms(8) by simp
  show ?thesis
  proof (cases i)
    case (Ask q v)
    show ?thesis
    proof (cases "check_ai_access (lg_db l) v = Allowed \<and> v = u")
      case True
      then have "spent_usd (lg_db l) u \<le> granted_usd (lg_db l) u - 1" using allowed_capped assms(2,3) by fastforce
      moreover have "lg_db ?l = lg_db l" using Ask by simp
      ultimately show ?thesis using fewer[OF assms(6)] assms(7) by simp
    next
      case False
      then show ?thesis by (intro kept) (auto simp: Ask running_def)
    qed
  next
    case (Finish q now prices info usage)
    show ?thesis
    proof (cases "map_of (lg_running l) q")
      case None
      then show ?thesis by (intro kept) (simp_all add: Finish)
    next
      case (Some v)
      obtain cost db' where m: "meter_sdk_usage uuid now prices (info\<lparr>ri_userId := v\<rparr>) usage (lg_db l) = (cost, db')" by fastforce
      then obtain es where es: "ai_events db' = ai_events (lg_db l) @ es" "length es \<le> 1" "\<forall>e\<in>set es. ue_userId e = v"
        by (rule meter_events) simp
      have l: "?l = end_request q (l\<lparr>lg_db := db'\<rparr>)" using Finish Some m by simp
      have spent: "spent_usd (lg_db ?l) u = spent_usd (lg_db l) u + sum_of ue_costUsd (filter (\<lambda>e. ue_userId e = u) es)"
        using spent_usd_append[OF es(1)] by (simp add: l end_request_def)
      have runs: "running u ?l = length (filter (\<lambda>r. snd r = u) (filter (\<lambda>r. fst r \<noteq> q) (lg_running l)))"
        by (simp add: l end_request_def running_def)
      show ?thesis
      proof (cases "v = u")
        case True
        have "Suc (running u ?l) \<le> running u l"
          using running_end[of "lg_running l" q u] Some True unfolding runs by (simp add: running_def)
        moreover have "sum_of ue_costUsd (filter (\<lambda>e. ue_userId e = u) es) \<le> C"
        proof (cases es)
          case (Cons e r)
          then have "e \<in> set (ai_events (lg_db ?l))" using es by (simp add: l end_request_def)
          then have "ue_userId e = u \<longrightarrow> ue_costUsd e \<le> C" using assms(5) by blast
          then show ?thesis using Cons es(2) assms(4) by simp
        qed (simp add: assms(4))
        ultimately show ?thesis using spent fewer[of "Suc (running u ?l)" "running u l"] assms(8) by (simp add: distrib_left)
      next
        case False
        then have "filter (\<lambda>e. ue_userId e = u) es = []" using es(3) by (auto simp: filter_empty_conv)
        moreover have "running u ?l \<le> running u l"
          using running_end_le[of u q "l\<lparr>lg_db := db'\<rparr>"] unfolding l by (simp add: running_def)
        ultimately show ?thesis using spent by (intro kept) simp_all
      qed
    qed
  next
    case (Lost q)
    then show ?thesis using running_end_le[of u q l] by (intro kept) (simp_all add: end_request_def)
  next
    case (Access now admin roles v enabled unlimited)
    then show ?thesis by (intro kept) (auto simp: spent_usd_def set_access_frame running_def split: sum.splits)
  next
    case (Credit now admin roles v amount memo)
    then show ?thesis by (intro kept) (auto simp: spent_usd_def grant_credits_frame running_def split: sum.splits)
  qed
qed

lemma ledger_run_simps [simp]:
  "ledger_run uuid [] l = l" "ledger_run uuid (i # is) l = ledger_run uuid is (ledger_step uuid i l)"
  by (simp_all add: ledger_run_def)

lemma ledger_run_events: "\<exists>es. ai_events (lg_db (ledger_run uuid is l)) = ai_events (lg_db l) @ es"
proof (induction "is" arbitrary: l)
  case (Cons i "is")
  then show ?case using ledger_step_events[of uuid i l] by (metis append.assoc ledger_run_simps(2))
qed simp

lemma ledger_run_credits:
  "\<forall>i\<in>set is. \<not> administers u i \<Longrightarrow> granted_usd (lg_db (ledger_run uuid is l)) u = granted_usd (lg_db l) u"
  by (induction "is" arbitrary: l) (simp_all add: ledger_step_credits)

lemma ledger_states_hd: "l \<in> set (ledger_states uuid is l)"
  by (cases "is") simp_all

lemma potential_run:
  assumes "\<forall>i\<in>set is. \<not> administers u i" "find_budget (lg_db l) u = Some b" "\<not> ub_unlimited b" "0 \<le> C"
    and "\<forall>e\<in>set (ai_events (lg_db (ledger_run uuid is l))). ue_userId e = u \<longrightarrow> ue_costUsd e \<le> C"
    and "\<forall>l'\<in>set (ledger_states uuid is l). running u l' \<le> N" "granted_usd (lg_db l) u - 1 + C * int N \<le> B"
    and "spent_usd (lg_db l) u + C * int (running u l) \<le> B"
  shows "spent_usd (lg_db (ledger_run uuid is l)) u + C * int (running u (ledger_run uuid is l)) \<le> B"
  using assms
proof (induction "is" arbitrary: l)
  case (Cons i "is")
  let ?l = "ledger_step uuid i l"
  note same = ledger_step_credits[of u i uuid l]
  obtain es where "ai_events (lg_db (ledger_run uuid is ?l)) = ai_events (lg_db ?l) @ es" using ledger_run_events by blast
  with Cons.prems(5) have cheap: "\<forall>e\<in>set (ai_events (lg_db ?l)). ue_userId e = u \<longrightarrow> ue_costUsd e \<le> C" by simp
  have few: "running u ?l \<le> N" using Cons.prems(6) ledger_states_hd by auto
  show ?case unfolding ledger_run_simps
    by (rule Cons.IH) (use Cons.prems same cheap few potential_step[OF _ Cons.prems(2,3,4) cheap few] in simp_all)
qed simp

text \<open>C13: the credit gate. Within two billion dollars it decides exactly by the amounts: a user
  whom no administrator has configured passes, a configured one passes if AI is on and spending
  uncapped or below the credits. And whatever requests of whatever users start, end and are lost,
  a capped user whom no administrator touches spends at most what the requests that run at the
  same time cost on top of the credits (or of what was already spent).\<close>

theorem credits_bound_spending:
  assumes "find_budget (lg_db l) u = Some b" "\<not> ub_unlimited b" "0 \<le> C" "\<forall>i\<in>set inputs. \<not> administers u i"
    and "\<forall>e\<in>set (ai_events (lg_db (ledger_run uuid inputs l))). ue_userId e = u \<longrightarrow> ue_costUsd e \<le> C"
    and "\<forall>l'\<in>set (ledger_states uuid inputs l). running u l' \<le> N"
  shows "spent_usd (lg_db (ledger_run uuid inputs l)) u
      \<le> max (spent_usd (lg_db l) u + C * int (running u l)) (granted_usd (lg_db l) u - 1 + C * int N)
    \<and> (\<forall>db v. \<bar>granted_usd db v\<bar> \<le> 2 ^ 51 \<and> \<bar>spent_usd db v\<bar> \<le> 2 ^ 51 \<longrightarrow>
         (check_ai_access db v = Allowed \<longleftrightarrow> (case find_budget db v of None \<Rightarrow> True
            | Some b \<Rightarrow> ub_aiEnabled b \<and> (ub_unlimited b \<or> spent_usd db v < granted_usd db v))))"
proof (intro conjI allI impI)
  let ?l = "ledger_run uuid inputs l"
  have "spent_usd (lg_db ?l) u + C * int (running u ?l)
      \<le> max (spent_usd (lg_db l) u + C * int (running u l)) (granted_usd (lg_db l) u - 1 + C * int N)"
    by (rule potential_run[OF assms(4,1,2,3,5,6)]) simp_all
  moreover have "0 \<le> C * int (running u ?l)" using assms(3) by simp
  ultimately show "spent_usd (lg_db ?l) u
      \<le> max (spent_usd (lg_db l) u + C * int (running u l)) (granted_usd (lg_db l) u - 1 + C * int N)" by linarith
next
  fix db v
  assume "\<bar>granted_usd db v\<bar> \<le> 2 ^ 51 \<and> \<bar>spent_usd db v\<bar> \<le> 2 ^ 51"
  then show "check_ai_access db v = Allowed \<longleftrightarrow> (case find_budget db v of None \<Rightarrow> True
      | Some b \<Rightarrow> ub_aiEnabled b \<and> (ub_unlimited b \<or> spent_usd db v < granted_usd db v))"
    by (intro allowed_exact) simp_all
qed

definition demo_price :: model_pricing where
  "demo_price = \<lparr>mp_input = 1, mp_output = 1, mp_cachedInput = 0\<rparr>"

definition demo_info :: request_info where
  "demo_info = \<lparr>ri_userId = [], ri_feature = ''assistant'', ri_model = ''m'', ri_referenceId = None, ri_toolCalls = None,
     ri_steps = None, ri_durationMs = None, ri_finishReason = None\<rparr>"

definition demo_usage :: sdk_usage where
  "demo_usage = \<lparr>su_inputTokens = Some 2, su_outputTokens = Some 3, su_totalTokens = Some 5, su_cacheReadTokens = None,
     su_reasoningTokens = None\<rparr>"

definition demo_ledger :: ledger where
  "demo_ledger = \<lparr>lg_db = \<lparr>ai_users = [demo_user ''u'' ''user''], ai_events = [],
     ai_budgets = [\<lparr>ub_userId = ''u'', ub_aiEnabled = True, ub_unlimited = False, ub_updatedAt = 0, ub_updatedBy = None\<rparr>],
     ai_grants = [\<lparr>cg_id = ''g'', cg_userId = ''u'', cg_amountUsd = 1, cg_note = None, cg_grantedBy = None, cg_createdAt = 0\<rparr>],
     ai_draws = 0\<rparr>, lg_running = []\<rparr>"

definition demo_requests :: "ledger_input list" where
  "demo_requests = [Ask 1 ''u'', Ask 2 ''u'', Finish 1 7 [(''m'', demo_price)] demo_info (Some demo_usage),
     Finish 2 8 [(''m'', demo_price)] demo_info (Some demo_usage), Ask 3 ''u'']"

lemma demo_costs:
  "map (\<lambda>e. (ue_userId e, ue_costUsd e)) (ai_events (lg_db (ledger_run nat_str demo_requests demo_ledger)))
     = [(''u'', 5000000), (''u'', 5000000)]"
  by code_simp

lemma demo_peak: "list_all (\<lambda>l. running ''u'' l \<le> 2) (ledger_states nat_str demo_requests demo_ledger)"
  by code_simp

theorem credits_bound_spending_witness:
  "spent_usd (lg_db (ledger_run nat_str demo_requests demo_ledger)) ''u'' \<le> 10000000
   \<and> \<bar>granted_usd (lg_db demo_ledger) ''u''\<bar> \<le> 2 ^ 51 \<and> check_ai_access (lg_db demo_ledger) ''u'' = Allowed"
proof -
  let ?b = "\<lparr>ub_userId = ''u'', ub_aiEnabled = True, ub_unlimited = False, ub_updatedAt = 0, ub_updatedBy = None\<rparr>"
  have budget: "find_budget (lg_db demo_ledger) ''u'' = Some ?b" by (simp add: demo_ledger_def find_budget_def)
  have others: "\<forall>i\<in>set demo_requests. \<not> administers ''u'' i" by (simp add: demo_requests_def)
  have cheap: "\<forall>e\<in>set (ai_events (lg_db (ledger_run nat_str demo_requests demo_ledger))). ue_userId e = ''u'' \<longrightarrow> ue_costUsd e \<le> 5000000"
    using demo_costs by (auto simp: map_eq_Cons_conv)
  have peak: "\<forall>l\<in>set (ledger_states nat_str demo_requests demo_ledger). running ''u'' l \<le> 2"
    using demo_peak by (simp only: list_all_iff)
  have start: "spent_usd (lg_db demo_ledger) ''u'' = 0" "granted_usd (lg_db demo_ledger) ''u'' = 1" "running ''u'' demo_ledger = 0"
    by (simp_all add: demo_ledger_def spent_usd_def granted_usd_def running_def sum_of_def)
  from credits_bound_spending[OF budget _ _ others cheap peak] start budget show ?thesis by simp
qed

end
