(* ===== verification/Ai_Costs.thy ===== *)
theory Ai_Costs
  imports Ai_Laws
begin

text \<open>
  What the ledger records of a request, against its price in exact arithmetic, and what the model of
  the ledger showed about the code.
\<close>

section \<open>The price of a request\<close>

definition exact_cost :: "model_pricing \<Rightarrow> priced_usage \<Rightarrow> rat" where
  "exact_cost p usage = of_int (max (pu_inputTokens usage - pu_cachedInputTokens usage) 0) * mp_input p
     + of_int (pu_cachedInputTokens usage) * mp_cachedInput p + of_int (pu_outputTokens usage) * mp_output p"

definition price_used :: "prices \<Rightarrow> string \<Rightarrow> model_pricing option" where
  "price_used prices model = (case map_get prices model of None \<Rightarrow> map_get FALLBACK_PRICING model | Some p \<Rightarrow> Some p)"

text \<open>Three rounded products and two rounded sums of nothing negative.\<close>

lemma rounded_sum:
  fixes a b c :: rat
  assumes "0 \<le> a" "0 \<le> b" "0 \<le> c"
  shows "\<bar>dbl (dbl (dbl a + dbl b) + dbl c) - (a + b + c)\<bar> \<le> (a + b + c) / 2 ^ 51"
proof -
  define e :: rat where "e = 1 / 2 ^ 53"
  have err: "\<bar>dbl x - x\<bar> \<le> e * x" if "0 \<le> x" for x using dbl_error[of x] that by (simp add: e_def)
  define x y z s where "x = dbl a" and "y = dbl b" and "z = dbl c" and "s = dbl (x + y)"
  have nonneg: "0 \<le> x" "0 \<le> y" "0 \<le> z" "0 \<le> s" using assms by (simp_all add: x_def y_def z_def s_def)
  have "\<bar>x - a\<bar> \<le> e * a" "\<bar>y - b\<bar> \<le> e * b" "\<bar>z - c\<bar> \<le> e * c" "\<bar>s - (x + y)\<bar> \<le> e * (x + y)"
      "\<bar>dbl (s + z) - (s + z)\<bar> \<le> e * (s + z)"
    using err assms nonneg by (simp_all add: x_def y_def z_def s_def)
  then have "\<bar>dbl (s + z) - (a + b + c)\<bar> \<le> (a + b + c) / 2 ^ 51"
    using assms nonneg unfolding e_def abs_le_iff by simp
  then show ?thesis by (simp add: x_def y_def z_def s_def)
qed

lemma close_after_rounding:
  fixes n c t :: rat
  assumes "\<bar>n - c * 1000000\<bar> \<le> 1 / 2" "\<bar>c - t\<bar> \<le> t / 2 ^ 51"
  shows "\<bar>n - t * 1000000\<bar> \<le> 1 / 2 + t * 1000000 / 2 ^ 51"
proof -
  define r where "r = t / 2 ^ 51"
  have "\<bar>c - t\<bar> \<le> r" "t * 1000000 / 2 ^ 51 = r * 1000000" using assms(2) by (simp_all add: r_def)
  with assms(1) show ?thesis by linarith
qed

lemma compute_cost_priced:
  assumes "price_used prices model = Some p"
  shows "compute_cost model usage prices = \<lparr>cr_costUsd = dbl (dbl (dbl (of_int (max (pu_inputTokens usage - pu_cachedInputTokens usage) 0) * mp_input p)
      + dbl (of_int (pu_cachedInputTokens usage) * mp_cachedInput p)) + dbl (of_int (pu_outputTokens usage) * mp_output p)), cr_estimated = False\<rparr>"
  using assms by (simp add: compute_cost_def price_used_def)

definition priced :: "sdk_usage \<Rightarrow> priced_usage" where
  "priced u = \<lparr>pu_inputTokens = or_else (su_inputTokens u) 0, pu_outputTokens = or_else (su_outputTokens u) 0,
     pu_cachedInputTokens = or_else (su_cacheReadTokens u) 0, pu_reasoningTokens = or_else (su_reasoningTokens u) 0\<rparr>"

text \<open>C33: metering never loses or invents money. When a request is recorded, exactly one event is
  appended, charged to the user who made it, and its millionths differ from tokens times prices,
  with cached input at its own rate, by half a millionth and a rounding error below one part in
  two to the fifty-first; so what the user has spent grows by just that. When it is not recorded
  (no usage, an unknown account, a value its column cannot hold), the ledger stays as it is.\<close>

theorem recorded_cost_close:
  assumes "price_used prices (ri_model info) = Some p" "0 \<le> mp_input p" "0 \<le> mp_output p" "0 \<le> mp_cachedInput p"
    and "0 \<le> or_else (su_cacheReadTokens u) 0" "0 \<le> or_else (su_outputTokens u) 0"
  shows "case meter_sdk_usage uuid now prices info (Some u) db of
      (None, db') \<Rightarrow> ai_events db' = ai_events db
    | (Some cost, db') \<Rightarrow> (\<exists>e. ai_events db' = ai_events db @ [e] \<and> ue_userId e = ri_userId info \<and> 0 \<le> ue_costUsd e
        \<and> \<bar>of_int (ue_costUsd e) - exact_cost p (priced u) * 1000000\<bar> \<le> 1 / 2 + exact_cost p (priced u) * 1000000 / 2 ^ 51
        \<and> (\<forall>v. spent_usd db' v = spent_usd db v + (if v = ri_userId info then ue_costUsd e else 0)))"
proof -
  let ?cost = "cr_costUsd (compute_cost (ri_model info) (priced u) prices)"
  let ?db = "db\<lparr>ai_draws := Suc (ai_draws db)\<rparr>"
  let ?e = "usage_event_of (uuid (ai_draws db)) now info (priced u) (ru_totalTokens (from_sdk_usage u))
    (compute_cost (ri_model info) (priced u) prices)"
  have rec: "meter_sdk_usage uuid now prices info (Some u) db
      = (case insert_event ?e ?db of None \<Rightarrow> (None, ?db) | Some db2 \<Rightarrow> (Some ?cost, db2))"
    by (simp add: meter_sdk_usage_def record_ai_usage_def from_sdk_usage_def priced_def Let_def split: option.split)
  define a b c where "a = of_int (max (pu_inputTokens (priced u) - pu_cachedInputTokens (priced u)) 0) * mp_input p"
    and "b = of_int (pu_cachedInputTokens (priced u)) * mp_cachedInput p" and "c = of_int (pu_outputTokens (priced u)) * mp_output p"
  have nonneg: "0 \<le> a" "0 \<le> b" "0 \<le> c" using assms by (simp_all add: a_def b_def c_def priced_def)
  have exact: "exact_cost p (priced u) = a + b + c" by (simp add: exact_cost_def a_def b_def c_def)
  have cost: "?cost = dbl (dbl (dbl a + dbl b) + dbl c)"
    by (simp add: compute_cost_priced[OF assms(1)] a_def b_def c_def)
  have stored: "ue_costUsd ?e = to_fixed6 ?cost" "ue_userId ?e = ri_userId info" by (simp_all add: usage_event_of_def)
  have "\<bar>of_int (to_fixed6 ?cost) - ?cost * 1000000\<bar> \<le> 1 / 2" by (rule to_fixed6_error)
  moreover have "\<bar>?cost - (a + b + c)\<bar> \<le> (a + b + c) / 2 ^ 51" unfolding cost by (rule rounded_sum[OF nonneg])
  ultimately have close: "\<bar>of_int (ue_costUsd ?e) - exact_cost p (priced u) * 1000000\<bar>
      \<le> 1 / 2 + exact_cost p (priced u) * 1000000 / 2 ^ 51"
    unfolding stored exact by (rule close_after_rounding)
  have "0 \<le> ?cost" unfolding cost using nonneg by simp
  then have "0 \<le> ue_costUsd ?e" unfolding stored by (rule to_fixed6_nonneg)
  show ?thesis
  proof (cases "insert_event ?e ?db")
    case None
    then show ?thesis by (simp add: rec)
  next
    case (Some db2)
    then have events: "ai_events db2 = ai_events db @ [?e]" by (simp add: insert_event_Some)
    then have "spent_usd db2 v = spent_usd db v + (if v = ri_userId info then ue_costUsd ?e else 0)" for v
      using spent_usd_append[of db2 db "[?e]" v] stored(2) by auto
    with events close \<open>0 \<le> ue_costUsd ?e\<close> stored(2) show ?thesis unfolding rec Some by auto
  qed
qed

definition demo_meter :: "rat option \<times> ai_db" where
  "demo_meter = meter_sdk_usage nat_str 7 [(''m'', demo_price)] (demo_info\<lparr>ri_userId := ''u''\<rparr>) (Some demo_usage) (lg_db demo_ledger)"

lemma demo_meter_recorded: "fst demo_meter \<noteq> None"
  by code_simp

theorem recorded_cost_close_witness:
  "length (ai_events (snd demo_meter)) = 1 \<and> exact_cost demo_price (priced demo_usage) = 5
   \<and> \<bar>of_int (spent_usd (snd demo_meter) ''u'') - (5000000 :: rat)\<bar> \<le> 1"
proof -
  have p: "price_used [(''m'', demo_price)] (ri_model (demo_info\<lparr>ri_userId := ''u''\<rparr>)) = Some demo_price"
    by (simp add: price_used_def demo_info_def)
  have nn: "0 \<le> mp_input demo_price" "0 \<le> mp_output demo_price" "0 \<le> mp_cachedInput demo_price"
      "0 \<le> or_else (su_cacheReadTokens demo_usage) 0" "0 \<le> or_else (su_outputTokens demo_usage) 0"
    by (simp_all add: demo_price_def demo_usage_def)
  have five: "exact_cost demo_price (priced demo_usage) = 5"
    by (simp add: exact_cost_def demo_price_def priced_def demo_usage_def)
  have start: "ai_events (lg_db demo_ledger) = []" "spent_usd (lg_db demo_ledger) ''u'' = 0" by (simp_all add: demo_ledger_def spent_usd_def)
  obtain cost db' where m: "demo_meter = (Some cost, db')" using demo_meter_recorded by (metis not_None_eq prod.collapse)
  from recorded_cost_close[OF p nn, where uuid = nat_str and now = 7 and db = "lg_db demo_ledger"] m five start show ?thesis
    unfolding demo_meter_def by auto
qed

section \<open>Findings\<close>

text \<open>Two requests that pass the gate together overshoot by more than the last one costs.\<close>

lemma overshoot_twice:
  "spent_usd (lg_db (ledger_run nat_str demo_requests demo_ledger)) ''u''
     - granted_usd (lg_db (ledger_run nat_str demo_requests demo_ledger)) ''u'' = 9999999
   \<and> ue_costUsd (last (ai_events (lg_db (ledger_run nat_str demo_requests demo_ledger)))) = 5000000"
proof -
  let ?db = "lg_db (ledger_run nat_str demo_requests demo_ledger)"
  obtain e1 e2 where e: "ai_events ?db = [e1, e2]" "ue_userId e1 = ''u''" "ue_userId e2 = ''u''"
      "ue_costUsd e1 = 5000000" "ue_costUsd e2 = 5000000"
    using demo_costs by (auto simp: map_eq_Cons_conv)
  have "\<forall>i\<in>set demo_requests. \<not> administers ''u'' i" by (simp add: demo_requests_def)
  then have "granted_usd ?db ''u'' = granted_usd (lg_db demo_ledger) ''u''" by (rule ledger_run_credits)
  also have "\<dots> = 1" by (simp add: demo_ledger_def granted_usd_def)
  finally show ?thesis using e by (simp add: spent_usd_def)
qed

text \<open>The sum of a user's tokens does not fit 32 bits, and the user's own page fails from then on.\<close>

definition busy_event :: "string \<Rightarrow> usage_event" where
  "busy_event i = \<lparr>ue_id = i, ue_userId = ''u'', ue_feature = ''assistant'', ue_model = ''m'', ue_referenceId = None,
     ue_inputTokens = 2000000000, ue_outputTokens = 0, ue_totalTokens = 2000000000, ue_reasoningTokens = 0,
     ue_cachedInputTokens = 0, ue_costUsd = 0, ue_costEstimated = True, ue_toolCalls = 0, ue_steps = 1,
     ue_durationMs = None, ue_finishReason = None, ue_createdAt = 0\<rparr>"

lemma token_sum_overflows:
  "event_columns_ok (busy_event i) \<and>
   usage_mine day_text now (Some \<lparr>au_id = ''u'', au_role = None\<rparr>) (lg_db demo_ledger\<lparr>ai_events := [busy_event ''1'', busy_event ''2'']\<rparr>)
     = Inl (TRPC INTERNAL_ERROR ''integer out of range'')"
  by (simp add: event_columns_ok_def busy_event_def int32_def usd_column_def usage_mine_def protected_procedure_def totals_of_def
      as_int_def Let_def)

text \<open>A first grant to somebody who spent before takes the access away.\<close>

definition spender :: ai_db where
  "spender = (lg_db demo_ledger)\<lparr>ai_budgets := [], ai_grants := [], ai_events := [(busy_event ''1'')\<lparr>ue_costUsd := 9000000\<rparr>]\<rparr>"

lemma grant_locks_out:
  "check_ai_access spender ''u'' = Allowed \<and>
   (\<exists>b db'. grant_credits nat_str 1 (Some demo_actor) [''admin''] ''u'' 5 None spender = Inr (b, db')
      \<and> check_ai_access db' ''u'' \<noteq> Allowed)"
proof -
  have before: "check_ai_access spender ''u'' = Allowed" by (simp add: allowed_iff spender_def find_budget_def)
  have fixed: "to_fixed6 5 = 5000000" by (simp add: to_fixed6_def floor_eq_iff)
  obtain b db' where g: "grant_credits nat_str 1 (Some demo_actor) [''admin''] ''u'' 5 None spender = Inr (b, db')"
    and db': "find_budget db' ''u'' = Some \<lparr>ub_userId = ''u'', ub_aiEnabled = True, ub_unlimited = False, ub_updatedAt = 1, ub_updatedBy = Some ''a''\<rparr>"
      "granted_usd db' ''u'' = 5000000" "spent_usd db' ''u'' = 9000000"
    by (simp add: grant_credits_def ledger_admin_def protected_procedure_def demo_actor_def or_else_def z_amount_def MAX_GRANT_USD_def z_note_def
        with_account_def spender_def demo_ledger_def demo_user_def find_budget_def granted_usd_def spent_usd_def busy_event_def fixed Let_def)
  have "check_ai_access db' ''u'' \<noteq> Allowed"
  proof
    assume "check_ai_access db' ''u'' = Allowed"
    then have "spent_usd db' ''u'' < granted_usd db' ''u''" by (rule allowed_capped[OF _ db'(1)]) simp
    then show False by (simp add: db')
  qed
  with before g show ?thesis by blast
qed

end
