(* ===== verification/Conversations.thy ===== *)
theory Conversations
  imports Ai_Costs
begin

text \<open>
  Chat threads (\<open>conversations/router.ts\<close>, \<open>db/conversation-schema.ts\<close>) and the two routes of the web
  application that run turns on them: the assistant (\<open>app/api/agent/chat/route.ts\<close>) and the report
  generator (\<open>app/api/pdf-report/generate/route.ts\<close>), up to the point where the model's stream
  starts, and from the point where it ends. Messages are JSON values nobody looks into. The stream
  itself, its tools and the development fixtures belong to the AI kit.
\<close>

section \<open>Threads\<close>

record conversation_row =
  cv_id :: string
  cv_userId :: string
  cv_surface :: string
  cv_subjectId :: "string option"
  cv_title :: string
  cv_messages :: "json list"
  cv_createdAt :: nat
  cv_updatedAt :: nat

record tool_call_row =
  tl_id :: string
  tl_conversationId :: string
  tl_messageId :: "string option"
  tl_userId :: string
  tl_toolName :: string
  tl_toolPath :: string
  tl_input :: "json option"
  tl_output :: "json option"
  tl_error :: "string option"
  tl_durationMs :: "int option"
  tl_createdAt :: nat

record chat_db =
  cd_users :: "string list"
  cd_conversations :: "conversation_row list"
  cd_toolCalls :: "tool_call_row list"
  cd_draws :: nat

definition TITLE_MAX_LENGTH :: nat where "TITLE_MAX_LENGTH = 200"
definition LIST_LIMIT :: nat where "LIST_LIMIT = 100"

text \<open>No subject, or a null one, means the threads without a subject.\<close>

definition owned :: "string \<Rightarrow> string \<Rightarrow> string option \<Rightarrow> conversation_row \<Rightarrow> bool" where
  "owned surface userId subjectId r = (cv_userId r = userId \<and> cv_surface r = surface \<and> cv_subjectId r = subjectId)"

definition own_thread :: "string \<Rightarrow> string \<Rightarrow> string \<Rightarrow> conversation_row \<Rightarrow> bool" where
  "own_thread surface userId i r = (cv_id r = i \<and> cv_userId r = userId \<and> cv_surface r = surface)"

definition conversation_list ::
    "string \<Rightarrow> admin_user option \<Rightarrow> string option \<Rightarrow> chat_db \<Rightarrow> trpc_error + conversation_row list" where
  "conversation_list surface user subjectId db = protected_procedure ''Sign in to use this'' user (\<lambda>u.
     Inr (take LIST_LIMIT (sort_by (direction True (\<lambda>a b. cv_updatedAt a \<le> cv_updatedAt b))
       (filter (owned surface (au_id u) subjectId) (cd_conversations db)))))"

definition conversation_get :: "string \<Rightarrow> admin_user option \<Rightarrow> string \<Rightarrow> chat_db \<Rightarrow> trpc_error + conversation_row" where
  "conversation_get surface user i db = protected_procedure ''Sign in to use this'' user (\<lambda>u.
     case find (own_thread surface (au_id u) i) (cd_conversations db) of
       None \<Rightarrow> Inl (TRPC NOT_FOUND ''Conversation not found'')
     | Some row \<Rightarrow> Inr row)"

text \<open>The primary key and the foreign key of the table reject the row.\<close>

definition insert_conversation :: "conversation_row \<Rightarrow> chat_db \<Rightarrow> trpc_error + chat_db" where
  "insert_conversation r db =
     (if cv_id r \<in> cv_id ` set (cd_conversations db) then Inl (TRPC INTERNAL_ERROR ''unique'')
      else if cv_userId r \<notin> set (cd_users db) then Inl (TRPC INTERNAL_ERROR ''foreign key'')
      else Inr (db\<lparr>cd_conversations := cd_conversations db @ [r]\<rparr>))"

definition new_conversation :: "string \<Rightarrow> string \<Rightarrow> string \<Rightarrow> string option \<Rightarrow> string \<Rightarrow> nat \<Rightarrow> conversation_row" where
  "new_conversation i userId surface subjectId title now =
     \<lparr>cv_id = i, cv_userId = userId, cv_surface = surface, cv_subjectId = subjectId, cv_title = title, cv_messages = [],
      cv_createdAt = now, cv_updatedAt = now\<rparr>"

definition conversation_create ::
    "(nat \<Rightarrow> string) \<Rightarrow> nat \<Rightarrow> string \<Rightarrow> admin_user option \<Rightarrow> string option \<Rightarrow> string option \<Rightarrow> chat_db
      \<Rightarrow> trpc_error + conversation_row \<times> chat_db" where
  "conversation_create random_uuid now surface user subjectId title db = protected_procedure ''Sign in to use this'' user (\<lambda>u.
     if TITLE_MAX_LENGTH < length (or_else title []) then Inl (TRPC BAD_REQUEST ''title'')
     else let row = new_conversation (random_uuid (cd_draws db)) (au_id u) surface subjectId (or_else title []) now
          in bind_sum (insert_conversation row (db\<lparr>cd_draws := Suc (cd_draws db)\<rparr>)) (\<lambda>db1. Inr (row, db1)))"

text \<open>Removing a thread removes its tool calls, a foreign key with \<open>ON DELETE CASCADE\<close>.\<close>

definition conversation_remove :: "string \<Rightarrow> admin_user option \<Rightarrow> string \<Rightarrow> chat_db \<Rightarrow> trpc_error + string \<times> chat_db" where
  "conversation_remove surface user i db = protected_procedure ''Sign in to use this'' user (\<lambda>u.
     let gone = map cv_id (filter (own_thread surface (au_id u) i) (cd_conversations db))
     in Inr (i, db\<lparr>cd_conversations := filter (\<lambda>r. \<not> own_thread surface (au_id u) i r) (cd_conversations db),
                  cd_toolCalls := filter (\<lambda>t. tl_conversationId t \<notin> set gone) (cd_toolCalls db)\<rparr>))"

text \<open>\<open>saveConversation\<close> looks at the id alone; every update sets \<open>updatedAt\<close>.\<close>

definition save_conversation :: "nat \<Rightarrow> string \<Rightarrow> json list \<Rightarrow> string option \<Rightarrow> chat_db \<Rightarrow> chat_db" where
  "save_conversation now conversationId messages title db =
     db\<lparr>cd_conversations := map (\<lambda>r. if cv_id r = conversationId
          then (let r1 = r\<lparr>cv_messages := messages\<rparr>
                in (case title of None \<Rightarrow> r1 | Some t \<Rightarrow> r1\<lparr>cv_title := t\<rparr>)\<lparr>cv_updatedAt := now\<rparr>)
          else r) (cd_conversations db)\<rparr>"

record open_options =
  oo_id :: "string option"
  oo_userId :: string
  oo_surface :: string
  oo_subjectId :: "string option"
  oo_title :: string

definition open_conversation ::
    "(nat \<Rightarrow> string) \<Rightarrow> nat \<Rightarrow> open_options \<Rightarrow> chat_db \<Rightarrow> trpc_error + (string \<times> bool) \<times> chat_db" where
  "open_conversation random_uuid now options db =
     (let existing = (case oo_id options of None \<Rightarrow> None
            | Some i \<Rightarrow> if i = [] then None
                else find (own_thread (oo_surface options) (oo_userId options) i) (cd_conversations db))
      in case existing of
           Some r \<Rightarrow> Inr ((cv_id r, False), db)
         | None \<Rightarrow>
             let i = random_uuid (cd_draws db)
             in bind_sum (insert_conversation (new_conversation i (oo_userId options) (oo_surface options) (oo_subjectId options)
                    (oo_title options) now) (db\<lparr>cd_draws := Suc (cd_draws db)\<rparr>)) (\<lambda>db1. Inr ((i, True), db1)))"

text \<open>A tool call of a thread or an account that is gone is an error of its insertion.\<close>

definition record_tool_call :: "(nat \<Rightarrow> string) \<Rightarrow> tool_call_row \<Rightarrow> chat_db \<Rightarrow> trpc_error + chat_db" where
  "record_tool_call random_uuid entry db =
     (let row = entry\<lparr>tl_id := random_uuid (cd_draws db)\<rparr>
      in if tl_id row \<in> tl_id ` set (cd_toolCalls db) then Inl (TRPC INTERNAL_ERROR ''unique'')
         else if tl_conversationId row \<notin> cv_id ` set (cd_conversations db) \<or> tl_userId row \<notin> set (cd_users db)
         then Inl (TRPC INTERNAL_ERROR ''foreign key'')
         else Inr (db\<lparr>cd_toolCalls := cd_toolCalls db @ [row], cd_draws := Suc (cd_draws db)\<rparr>))"

section \<open>Turns\<close>

text \<open>A turn that has started: whose it is and the thread it will write.\<close>

record turn =
  tn_userId :: string
  tn_surface :: string
  tn_conversationId :: string

text \<open>A refusal: the message and the status.\<close>

type_synonym refusal = "string \<times> nat"

definition access_refusal :: "ai_access \<Rightarrow> refusal option" where
  "access_refusal access =
     (case access of Allowed \<Rightarrow> None
      | Denied reason message \<Rightarrow> Some (message, if reason = Out_of_credits then 402 else 403))"

definition chat_post ::
    "bool \<Rightarrow> admin_user option \<Rightarrow> string option \<Rightarrow> ai_db \<Rightarrow> chat_db \<Rightarrow> refusal + turn" where
  "chat_post configured user bodyId ai db =
     (if \<not> configured then Inl (''AI gateway is not configured (set AI_GATEWAY_API_KEY).'', 503)
      else case bodyId of
        None \<Rightarrow> Inl (''Missing conversation id.'', 400)
      | Some conversationId \<Rightarrow>
          (case user of
             None \<Rightarrow> Inl (''Sign in to use the assistant.'', 401)
           | Some u \<Rightarrow>
               (case conversation_get ''assistant'' user conversationId db of
                  Inl e \<Rightarrow> Inl (''Conversation not found.'', 404)
                | Inr row \<Rightarrow>
                    (case access_refusal (check_ai_access ai (au_id u)) of
                       Some refusal \<Rightarrow> Inl refusal
                     | None \<Rightarrow> Inr \<lparr>tn_userId = au_id u, tn_surface = ''assistant'', tn_conversationId = conversationId\<rparr>))))"

definition CONVERSATION_TITLE_LENGTH :: nat where "CONVERSATION_TITLE_LENGTH = 80"

definition generate_post ::
    "(nat \<Rightarrow> string) \<Rightarrow> nat \<Rightarrow> bool \<Rightarrow> admin_user option \<Rightarrow> string option \<Rightarrow> string option \<Rightarrow> string option \<Rightarrow> ai_db \<Rightarrow> chat_db
      \<Rightarrow> refusal + turn \<times> bool \<times> chat_db" where
  "generate_post random_uuid now configured user bodyPrompt bodyConversationId templateId ai db =
     (let prompt = trim (or_else bodyPrompt [])
      in if prompt = [] then Inl (''A prompt is required'', 400)
         else case user of
           None \<Rightarrow> Inl (''Sign in to generate a template.'', 401)
         | Some u \<Rightarrow>
             if \<not> configured then Inl (''AI gateway is not configured (set AI_GATEWAY_API_KEY).'', 503)
             else (case access_refusal (check_ai_access ai (au_id u)) of
                Some refusal \<Rightarrow> Inl refusal
              | None \<Rightarrow>
                  (case open_conversation random_uuid now \<lparr>oo_id = bodyConversationId, oo_userId = au_id u,
                          oo_surface = ''pdf-report'', oo_subjectId = templateId, oo_title = take CONVERSATION_TITLE_LENGTH prompt\<rparr> db of
                     Inl e \<Rightarrow> Inl (''Internal Server Error'', 500)
                   | Inr ((i, opened), db1) \<Rightarrow>
                       Inr (\<lparr>tn_userId = au_id u, tn_surface = ''pdf-report'', tn_conversationId = i\<rparr>, opened, db1))))"

text \<open>The stream has ended: both routes save the whole turn.\<close>

definition turn_finished :: "nat \<Rightarrow> turn \<Rightarrow> json list \<Rightarrow> chat_db \<Rightarrow> chat_db" where
  "turn_finished now t messages db = save_conversation now (tn_conversationId t) messages None db"

text \<open>\<open>sumUsage\<close>: what an aborted run used, from its steps. Details are not summed.\<close>

definition sum_usage :: "sdk_usage list \<Rightarrow> sdk_usage" where
  "sum_usage usages = foldl (\<lambda>total usage. total
       \<lparr>su_inputTokens := Some (or_else (su_inputTokens total) 0 + or_else (su_inputTokens usage) 0),
        su_outputTokens := Some (or_else (su_outputTokens total) 0 + or_else (su_outputTokens usage) 0),
        su_totalTokens := Some (or_else (su_totalTokens total) 0 + or_else (su_totalTokens usage) 0)\<rparr>)
     \<lparr>su_inputTokens = Some 0, su_outputTokens = Some 0, su_totalTokens = Some 0, su_cacheReadTokens = None, su_reasoningTokens = None\<rparr> usages"

end
