(* ===== verification/Chat_Laws.thy ===== *)
theory Chat_Laws
  imports Conversations Device_Registry
begin

text \<open>
  Chat threads of different users and surfaces do not mix, although saving a turn looks at the
  thread's id alone and threads are opened, removed and written while turns are under way.
\<close>

section \<open>Runs\<close>

record chat_world =
  cw_db :: chat_db
  cw_turns :: "turn list"

abbreviation threads :: "chat_world \<Rightarrow> conversation_row list" where
  "threads w \<equiv> cd_conversations (cw_db w)"

text \<open>A step of a user on a surface: managing threads, starting a turn on one, recording a tool call
  of a turn, ending a turn with its messages saved or without.\<close>

inductive chat_step :: "(nat \<Rightarrow> string) \<Rightarrow> string \<Rightarrow> string \<Rightarrow> chat_world \<Rightarrow> chat_world \<Rightarrow> bool" for uuid where
  create: "conversation_create uuid now s (Some u) subject title (cw_db w) = Inr (row, db')
    \<Longrightarrow> chat_step uuid (au_id u) s w (w\<lparr>cw_db := db'\<rparr>)"
| remove: "conversation_remove s (Some u) i (cw_db w) = Inr (j, db') \<Longrightarrow> chat_step uuid (au_id u) s w (w\<lparr>cw_db := db'\<rparr>)"
| chat: "chat_post configured (Some u) i ai (cw_db w) = Inr t
    \<Longrightarrow> chat_step uuid (au_id u) ''assistant'' w (w\<lparr>cw_turns := cw_turns w @ [t]\<rparr>)"
| generate: "generate_post uuid now configured (Some u) prompt i template ai (cw_db w) = Inr (t, opened, db')
    \<Longrightarrow> chat_step uuid (au_id u) ''pdf-report'' w (w\<lparr>cw_db := db', cw_turns := cw_turns w @ [t]\<rparr>)"
| tool: "t \<in> set (cw_turns w) \<Longrightarrow> tl_conversationId e = tn_conversationId t \<Longrightarrow> tl_userId e = tn_userId t
    \<Longrightarrow> record_tool_call uuid e (cw_db w) = Inr db' \<Longrightarrow> chat_step uuid (tn_userId t) (tn_surface t) w (w\<lparr>cw_db := db'\<rparr>)"
| finish: "t \<in> set (cw_turns w) \<Longrightarrow> chat_step uuid (tn_userId t) (tn_surface t) w
    (w\<lparr>cw_db := turn_finished now t messages (cw_db w), cw_turns := remove1 t (cw_turns w)\<rparr>)"
| abandon: "t \<in> set (cw_turns w) \<Longrightarrow> chat_step uuid (tn_userId t) (tn_surface t) w (w\<lparr>cw_turns := remove1 t (cw_turns w)\<rparr>)"

inductive chat_run :: "(nat \<Rightarrow> string) \<Rightarrow> chat_world \<Rightarrow> chat_world \<Rightarrow> bool" for uuid where
  stop: "chat_run uuid w w"
| more: "chat_run uuid w w1 \<Longrightarrow> chat_step uuid u s w1 w2 \<Longrightarrow> chat_run uuid w w2"

section \<open>The invariant\<close>

text \<open>A turn's thread, while it exists, is its user's; so is a tool call's.\<close>

definition turn_ok :: "conversation_row list \<Rightarrow> turn \<Rightarrow> bool" where
  "turn_ok rows t \<longleftrightarrow> (\<forall>r\<in>set rows. cv_id r = tn_conversationId t \<longrightarrow> cv_userId r = tn_userId t \<and> cv_surface r = tn_surface t)"

definition chat_ok :: "(nat \<Rightarrow> string) \<Rightarrow> chat_world \<Rightarrow> bool" where
  "chat_ok uuid w \<longleftrightarrow> distinct (map cv_id (threads w))
     \<and> (\<forall>r\<in>set (threads w). drawn uuid (cd_draws (cw_db w)) (cv_id r))
     \<and> (\<forall>t\<in>set (cw_turns w). drawn uuid (cd_draws (cw_db w)) (tn_conversationId t) \<and> turn_ok (threads w) t)
     \<and> (\<forall>c\<in>set (cd_toolCalls (cw_db w)). \<exists>r\<in>set (threads w). cv_id r = tl_conversationId c \<and> cv_userId r = tl_userId c)"

definition others :: "string \<Rightarrow> string \<Rightarrow> chat_world \<Rightarrow> conversation_row list" where
  "others u s w = filter (\<lambda>r. \<not> (cv_userId r = u \<and> cv_surface r = s)) (threads w)"

section \<open>What the operations do\<close>

lemma insert_conversation_Inr:
  "insert_conversation r db = Inr db' \<longleftrightarrow> cv_id r \<notin> cv_id ` set (cd_conversations db) \<and> cv_userId r \<in> set (cd_users db)
     \<and> db' = db\<lparr>cd_conversations := cd_conversations db @ [r]\<rparr>"
  by (auto simp: insert_conversation_def)

lemma new_conversation_simps [simp]:
  "cv_id (new_conversation i u s b t n) = i" "cv_userId (new_conversation i u s b t n) = u"
  "cv_surface (new_conversation i u s b t n) = s"
  by (simp_all add: new_conversation_def)

text \<open>A thread is opened with a fresh id for its user on its surface.\<close>

definition thread_added :: "(nat \<Rightarrow> string) \<Rightarrow> string \<Rightarrow> string \<Rightarrow> chat_db \<Rightarrow> chat_db \<Rightarrow> bool" where
  "thread_added uuid u s db db' \<longleftrightarrow> (\<exists>r. cv_id r = uuid (cd_draws db) \<and> cv_userId r = u \<and> cv_surface r = s
     \<and> cv_id r \<notin> cv_id ` set (cd_conversations db)
     \<and> db' = db\<lparr>cd_draws := Suc (cd_draws db), cd_conversations := cd_conversations db @ [r]\<rparr>)"

lemma thread_addedI:
  "i = uuid (cd_draws db) \<Longrightarrow> i \<notin> cv_id ` set (cd_conversations db) \<Longrightarrow> thread_added uuid u s db
     (db\<lparr>cd_draws := Suc (cd_draws db), cd_conversations := cd_conversations db @ [new_conversation i u s b t n]\<rparr>)"
  unfolding thread_added_def by (intro exI[of _ "new_conversation i u s b t n"]) simp

lemma create_Inr:
  "conversation_create uuid now s (Some u) subject title db = Inr (row, db') \<Longrightarrow> thread_added uuid (au_id u) s db db'"
  by (auto simp: conversation_create_def protected_procedure_def insert_conversation_Inr bind_sum_Inr Let_def
      intro!: thread_addedI split: if_splits)

lemma find_own_thread: "find (own_thread s u i) rows = Some r \<Longrightarrow> r \<in> set rows \<and> cv_id r = i \<and> cv_userId r = u \<and> cv_surface r = s"
  by (drule find_Some_mem) (simp add: own_thread_def)

lemma get_Inr:
  "conversation_get s (Some u) i db = Inr r \<Longrightarrow> r \<in> set (cd_conversations db) \<and> cv_id r = i \<and> cv_userId r = au_id u \<and> cv_surface r = s"
  using find_own_thread by (fastforce simp: conversation_get_def protected_procedure_def split: option.splits)

lemma chat_post_Inr:
  assumes "chat_post configured (Some u) i ai db = Inr t"
  shows "tn_userId t = au_id u \<and> tn_surface t = ''assistant''
    \<and> (\<exists>r\<in>set (cd_conversations db). cv_id r = tn_conversationId t \<and> cv_userId r = au_id u \<and> cv_surface r = ''assistant'')"
proof -
  obtain j r where "conversation_get ''assistant'' (Some u) j db = Inr r"
      "t = \<lparr>tn_userId = au_id u, tn_surface = ''assistant'', tn_conversationId = j\<rparr>"
    using assms by (auto simp: chat_post_def split: if_splits option.splits sum.splits)
  with get_Inr[of "''assistant''" u j db r] show ?thesis by auto
qed

lemma open_Inr:
  assumes "open_conversation uuid now opts db = Inr ((i, opened), db')"
  shows "(db' = db \<and> (\<exists>r\<in>set (cd_conversations db). cv_id r = i \<and> cv_userId r = oo_userId opts \<and> cv_surface r = oo_surface opts))
    \<or> (i = uuid (cd_draws db) \<and> thread_added uuid (oo_userId opts) (oo_surface opts) db db')"
proof (cases "case oo_id opts of None \<Rightarrow> None | Some i \<Rightarrow> if i = [] then None
    else find (own_thread (oo_surface opts) (oo_userId opts) i) (cd_conversations db)")
  case None
  with assms show ?thesis
    by (auto simp: open_conversation_def Let_def bind_sum_Inr insert_conversation_Inr intro!: thread_addedI)
next
  case (Some r)
  then obtain j where "find (own_thread (oo_surface opts) (oo_userId opts) j) (cd_conversations db) = Some r"
    by (auto split: option.splits if_splits)
  from find_own_thread[OF this] Some assms show ?thesis by (auto simp: open_conversation_def Let_def)
qed

lemma generate_post_Inr:
  assumes "generate_post uuid now configured (Some u) prompt i template ai db = Inr (t, opened, db')"
  shows "tn_userId t = au_id u \<and> tn_surface t = ''pdf-report'' \<and>
    ((db' = db \<and> (\<exists>r\<in>set (cd_conversations db). cv_id r = tn_conversationId t \<and> cv_userId r = au_id u \<and> cv_surface r = ''pdf-report''))
     \<or> (tn_conversationId t = uuid (cd_draws db) \<and> thread_added uuid (au_id u) ''pdf-report'' db db'))"
proof -
  let ?opts = "\<lparr>oo_id = i, oo_userId = au_id u, oo_surface = ''pdf-report'', oo_subjectId = template,
    oo_title = take CONVERSATION_TITLE_LENGTH (trim (or_else prompt []))\<rparr>"
  obtain j where "open_conversation uuid now ?opts db = Inr ((j, opened), db')"
      "t = \<lparr>tn_userId = au_id u, tn_surface = ''pdf-report'', tn_conversationId = j\<rparr>"
    using assms by (auto simp: generate_post_def Let_def split: if_splits option.splits sum.splits)
  with open_Inr[of uuid now ?opts db j opened db'] show ?thesis by auto
qed

section \<open>Steps keep the invariant\<close>

lemma added_ok:
  assumes "chat_ok uuid w" "inj uuid" "thread_added uuid u s (cw_db w) db'"
  shows "chat_ok uuid (w\<lparr>cw_db := db'\<rparr>)" "others u s (w\<lparr>cw_db := db'\<rparr>) = others u s w"
proof -
  obtain r where r: "cv_id r = uuid (cd_draws (cw_db w))" "cv_userId r = u" "cv_surface r = s"
      "cv_id r \<notin> cv_id ` set (threads w)"
      "db' = (cw_db w)\<lparr>cd_draws := Suc (cd_draws (cw_db w)), cd_conversations := threads w @ [r]\<rparr>"
    using assms(3) by (auto simp: thread_added_def)
  have "\<not> drawn uuid (cd_draws (cw_db w)) (cv_id r)" using assms(2) r(1) by (auto simp: drawn_def inj_eq)
  then have "turn_ok (threads w @ [r]) t" if "t \<in> set (cw_turns w)" for t
    using assms(1) that by (auto simp: chat_ok_def turn_ok_def)
  with assms(1) r(1,4) show "chat_ok uuid (w\<lparr>cw_db := db'\<rparr>)" by (auto simp: chat_ok_def r(5))
  show "others u s (w\<lparr>cw_db := db'\<rparr>) = others u s w" using r(2,3) by (simp add: others_def r(5))
qed

lemma chat_ok_turn:
  assumes "chat_ok uuid w" "r \<in> set (threads w)" "cv_id r = tn_conversationId t" "cv_userId r = tn_userId t" "cv_surface r = tn_surface t"
  shows "chat_ok uuid (w\<lparr>cw_turns := cw_turns w @ [t]\<rparr>)"
proof -
  have "r' = r" if "r' \<in> set (threads w)" "cv_id r' = cv_id r" for r'
    using that assms(1,2) by (auto simp: chat_ok_def distinct_map dest: inj_onD)
  then have "turn_ok (threads w) t" using assms(3,4,5) by (auto simp: turn_ok_def)
  moreover have "drawn uuid (cd_draws (cw_db w)) (tn_conversationId t)" using assms(1,2,3) by (auto simp: chat_ok_def)
  ultimately show ?thesis using assms(1) by (auto simp: chat_ok_def)
qed

lemma chat_ok_fewer:
  "chat_ok uuid w \<Longrightarrow> set ts \<subseteq> set (cw_turns w) \<Longrightarrow> chat_ok uuid (w\<lparr>cw_turns := ts\<rparr>)"
  by (auto simp: chat_ok_def)

lemma others_turns [simp]: "others u s (w\<lparr>cw_turns := ts\<rparr>) = others u s w"
  by (simp add: others_def)

text \<open>Saving rewrites the messages of one thread.\<close>

lemma filter_map_same:
  "(\<And>r. r \<in> set rs \<Longrightarrow> P (f r) = P r) \<Longrightarrow> (\<And>r. r \<in> set rs \<Longrightarrow> P r \<Longrightarrow> f r = r) \<Longrightarrow> filter P (map f rs) = filter P rs"
  by (induction rs) auto

lemma save_ok:
  assumes "chat_ok uuid w"
  shows "chat_ok uuid (w\<lparr>cw_db := save_conversation now i messages title (cw_db w)\<rparr>)"
proof -
  define f :: "conversation_row \<Rightarrow> conversation_row" where "f = (\<lambda>r. if cv_id r = i
    then (let r1 = r\<lparr>cv_messages := messages\<rparr> in (case title of None \<Rightarrow> r1 | Some t \<Rightarrow> r1\<lparr>cv_title := t\<rparr>)\<lparr>cv_updatedAt := now\<rparr>) else r)"
  have f: "cv_id (f r) = cv_id r" "cv_userId (f r) = cv_userId r" "cv_surface (f r) = cv_surface r" for r
    by (simp_all add: f_def Let_def split: option.split)
  then have ids: "map cv_id (map f rs) = map cv_id rs" for rs by simp
  have db: "save_conversation now i messages title (cw_db w) = (cw_db w)\<lparr>cd_conversations := map f (threads w)\<rparr>"
    by (simp add: save_conversation_def f_def)
  show ?thesis using assms unfolding db chat_ok_def turn_ok_def by (simp add: f ids del: map_map)
qed

lemma save_others:
  assumes "turn_ok (threads w) t"
  shows "others (tn_userId t) (tn_surface t) (w\<lparr>cw_db := save_conversation now (tn_conversationId t) messages title (cw_db w)\<rparr>)
    = others (tn_userId t) (tn_surface t) w"
  unfolding others_def save_conversation_def chat_world.select_convs chat_db.select_convs
  by (simp, rule filter_map_same) (use assms in \<open>auto simp: turn_ok_def Let_def split: option.split\<close>)

lemma remove_step:
  assumes "chat_ok uuid w" "conversation_remove s (Some u) i (cw_db w) = Inr (j, db')"
  shows "chat_ok uuid (w\<lparr>cw_db := db'\<rparr>)" "others (au_id u) s (w\<lparr>cw_db := db'\<rparr>) = others (au_id u) s w"
proof -
  let ?gone = "set (map cv_id (filter (own_thread s (au_id u) i) (threads w)))"
  have db': "db' = (cw_db w)\<lparr>cd_conversations := filter (\<lambda>r. \<not> own_thread s (au_id u) i r) (threads w),
      cd_toolCalls := filter (\<lambda>t. tl_conversationId t \<notin> ?gone) (cd_toolCalls (cw_db w))\<rparr>"
    using assms(2) by (auto simp: conversation_remove_def protected_procedure_def Let_def)
  show "chat_ok uuid (w\<lparr>cw_db := db'\<rparr>)"
  proof -
    have "\<exists>r\<in>set (threads w). \<not> own_thread s (au_id u) i r \<and> cv_id r = tl_conversationId c \<and> cv_userId r = tl_userId c"
      if c: "c \<in> set (cd_toolCalls (cw_db w))" "tl_conversationId c \<notin> ?gone" for c
    proof -
      obtain r where r: "r \<in> set (threads w)" "cv_id r = tl_conversationId c" "cv_userId r = tl_userId c"
        using assms(1) c(1) unfolding chat_ok_def by blast
      have "\<not> own_thread s (au_id u) i r"
      proof
        assume "own_thread s (au_id u) i r"
        with r(1) have "cv_id r \<in> ?gone" by simp
        with c(2) r(2) show False by simp
      qed
      with r show ?thesis by blast
    qed
    then show ?thesis using assms(1) unfolding chat_ok_def turn_ok_def db' by (simp add: distinct_map_filter) blast
  qed
  show "others (au_id u) s (w\<lparr>cw_db := db'\<rparr>) = others (au_id u) s w"
    by (auto simp: others_def db' own_thread_def intro!: filter_cong)
qed

lemma tool_ok:
  assumes "chat_ok uuid w" "t \<in> set (cw_turns w)" "tl_conversationId e = tn_conversationId t" "tl_userId e = tn_userId t"
    and "record_tool_call uuid e (cw_db w) = Inr db'"
  shows "chat_ok uuid (w\<lparr>cw_db := db'\<rparr>)" "others v s (w\<lparr>cw_db := db'\<rparr>) = others v s w"
proof -
  let ?e = "e\<lparr>tl_id := uuid (cd_draws (cw_db w))\<rparr>"
  have db': "db' = (cw_db w)\<lparr>cd_toolCalls := cd_toolCalls (cw_db w) @ [?e], cd_draws := Suc (cd_draws (cw_db w))\<rparr>"
    and "tl_conversationId e \<in> cv_id ` set (threads w)"
    using assms(5) by (auto simp: record_tool_call_def Let_def split: if_splits)
  then obtain r where r: "r \<in> set (threads w)" "cv_id r = tl_conversationId e" by auto
  then have "cv_userId r = tl_userId e" using assms(1-4) by (auto simp: chat_ok_def turn_ok_def)
  with r have "\<exists>r\<in>set (threads w). cv_id r = tl_conversationId ?e \<and> cv_userId r = tl_userId ?e" by auto
  with assms(1) show "chat_ok uuid (w\<lparr>cw_db := db'\<rparr>)" by (auto simp: chat_ok_def db')
  show "others v s (w\<lparr>cw_db := db'\<rparr>) = others v s w" by (simp add: others_def db')
qed

lemma chat_step_ok:
  assumes "chat_step uuid u s w w'" "chat_ok uuid w" "inj uuid"
  shows "chat_ok uuid w' \<and> others u s w' = others u s w"
  using assms
proof (induction rule: chat_step.induct)
  case (create now s u subject title w row db')
  with added_ok[OF _ _ create_Inr] show ?case by blast
next
  case (remove s u i w j db')
  with remove_step show ?case by blast
next
  case (chat configured u i ai w t)
  from chat_post_Inr[OF chat.hyps] chat_ok_turn[OF chat.prems(1)] show ?case by auto
next
  case (generate now configured u prompt i template ai w t opened db')
  note new = generate_post_Inr[OF generate.hyps]
  show ?case
  proof (cases "db' = cw_db w \<and> (\<exists>r\<in>set (threads w). cv_id r = tn_conversationId t \<and> cv_userId r = au_id u \<and> cv_surface r = ''pdf-report'')")
    case True
    then show ?thesis using chat_ok_turn[OF generate.prems(1)] new by auto
  next
    case False
    with new have added: "thread_added uuid (au_id u) ''pdf-report'' (cw_db w) db'" and i: "tn_conversationId t = uuid (cd_draws (cw_db w))"
      by blast+
    note ok = added_ok[OF generate.prems added]
    obtain r where r: "cv_id r = uuid (cd_draws (cw_db w))" "cv_userId r = au_id u" "cv_surface r = ''pdf-report''"
        "db' = (cw_db w)\<lparr>cd_draws := Suc (cd_draws (cw_db w)), cd_conversations := threads w @ [r]\<rparr>"
      using added unfolding thread_added_def by blast
    have "r \<in> set (cd_conversations db')" "cv_id r = tn_conversationId t" "cv_userId r = tn_userId t" "cv_surface r = tn_surface t"
      using r i new by simp_all
    then have "chat_ok uuid ((w\<lparr>cw_db := db'\<rparr>)\<lparr>cw_turns := cw_turns (w\<lparr>cw_db := db'\<rparr>) @ [t]\<rparr>)"
      by (intro chat_ok_turn[OF ok(1)]) simp_all
    with ok(2) show ?thesis by simp
  qed
next
  case (tool t w e db')
  with tool_ok show ?case by blast
next
  case (finish t w now messages)
  then have t: "turn_ok (threads w) t" by (simp add: chat_ok_def)
  have "chat_ok uuid ((w\<lparr>cw_db := turn_finished now t messages (cw_db w)\<rparr>)\<lparr>cw_turns := remove1 t (cw_turns w)\<rparr>)"
    unfolding turn_finished_def by (rule chat_ok_fewer[OF save_ok[OF finish.prems(1)]]) (simp add: set_remove1_subset)
  with save_others[OF t] show ?case by (simp add: turn_finished_def)
next
  case (abandon t w)
  then show ?case using chat_ok_fewer[OF abandon.prems(1), of "remove1 t (cw_turns w)"] by (simp add: set_remove1_subset)
qed

lemma chat_run_ok: "chat_run uuid w w' \<Longrightarrow> chat_ok uuid w \<Longrightarrow> inj uuid \<Longrightarrow> chat_ok uuid w'"
  by (induction rule: chat_run.induct) (auto dest: chat_step_ok)

section \<open>The property\<close>

text \<open>C20: chat threads stay private. In every run of users who open, list, remove and continue threads
  and whose turns end late, never or after their thread is gone, a step changes no thread but those
  of its own user on its own surface, a turn under way belongs to the owner of its thread, every
  recorded tool call is its thread's owner's, and what is listed or opened is the caller's own.
  Random identifiers must not repeat.\<close>

theorem threads_private:
  assumes "inj uuid" "chat_ok uuid w" "chat_run uuid w w1" "chat_step uuid u s w1 w2"
  shows "others u s w2 = others u s w1
    \<and> (\<forall>t\<in>set (cw_turns w2). \<forall>r\<in>set (threads w2). cv_id r = tn_conversationId t \<longrightarrow> cv_userId r = tn_userId t \<and> cv_surface r = tn_surface t)
    \<and> (\<forall>c\<in>set (cd_toolCalls (cw_db w2)). \<exists>r\<in>set (threads w2). cv_id r = tl_conversationId c \<and> cv_userId r = tl_userId c)
    \<and> (\<forall>v surface subject rows. conversation_list surface (Some v) subject (cw_db w2) = Inr rows \<longrightarrow>
         (\<forall>r\<in>set rows. r \<in> set (threads w2) \<and> cv_userId r = au_id v \<and> cv_surface r = surface))
    \<and> (\<forall>v surface i r. conversation_get surface (Some v) i (cw_db w2) = Inr r \<longrightarrow>
         r \<in> set (threads w2) \<and> cv_id r = i \<and> cv_userId r = au_id v \<and> cv_surface r = surface)"
proof (intro conjI)
  note step = chat_step_ok[OF assms(4) chat_run_ok[OF assms(3,2,1)] assms(1)]
  then show "others u s w2 = others u s w1" by simp
  from step have ok: "chat_ok uuid w2" by simp
  then show "\<forall>t\<in>set (cw_turns w2). \<forall>r\<in>set (threads w2). cv_id r = tn_conversationId t \<longrightarrow> cv_userId r = tn_userId t \<and> cv_surface r = tn_surface t"
    by (auto simp: chat_ok_def turn_ok_def)
  from ok show "\<forall>c\<in>set (cd_toolCalls (cw_db w2)). \<exists>r\<in>set (threads w2). cv_id r = tl_conversationId c \<and> cv_userId r = tl_userId c"
    by (simp add: chat_ok_def)
  show "\<forall>v surface subject rows. conversation_list surface (Some v) subject (cw_db w2) = Inr rows \<longrightarrow>
      (\<forall>r\<in>set rows. r \<in> set (threads w2) \<and> cv_userId r = au_id v \<and> cv_surface r = surface)"
    by (auto simp: conversation_list_def protected_procedure_def owned_def dest!: in_set_takeD)
  show "\<forall>v surface i r. conversation_get surface (Some v) i (cw_db w2) = Inr r \<longrightarrow>
      r \<in> set (threads w2) \<and> cv_id r = i \<and> cv_userId r = au_id v \<and> cv_surface r = surface"
    using get_Inr by blast
qed

definition demo_chat :: chat_world where
  "demo_chat = \<lparr>cw_db = \<lparr>cd_users = [''a'', ''b''], cd_conversations = [new_conversation (nat_str 0) ''b'' ''assistant'' None ''mine'' 1],
     cd_toolCalls = [], cd_draws = 1\<rparr>, cw_turns = []\<rparr>"

theorem threads_private_witness:
  "\<exists>w2. chat_step nat_str ''a'' ''pdf-report'' demo_chat w2 \<and> length (threads w2) = 2
     \<and> others ''a'' ''pdf-report'' w2 = threads demo_chat"
proof -
  have inj: "inj nat_str" by (simp add: inj_def)
  have ok: "chat_ok nat_str demo_chat" by (auto simp: chat_ok_def demo_chat_def drawn_def)
  have fresh: "nat_str (Suc 0) \<noteq> nat_str 0" by simp
  obtain row db' where c: "conversation_create nat_str 2 ''pdf-report'' (Some demo_actor) None None (cw_db demo_chat) = Inr (row, db')"
    using fresh by (simp add: conversation_create_def protected_procedure_def demo_actor_def demo_chat_def insert_conversation_def Let_def)
  have step: "chat_step nat_str ''a'' ''pdf-report'' demo_chat (demo_chat\<lparr>cw_db := db'\<rparr>)"
    using chat_step.create[OF c] by (simp add: demo_actor_def)
  have two: "length (threads (demo_chat\<lparr>cw_db := db'\<rparr>)) = 2"
    using create_Inr[OF c] by (auto simp: thread_added_def demo_chat_def)
  have "others ''a'' ''pdf-report'' demo_chat = threads demo_chat" by (simp add: others_def demo_chat_def)
  then have "others ''a'' ''pdf-report'' (demo_chat\<lparr>cw_db := db'\<rparr>) = threads demo_chat"
    using threads_private[OF inj ok chat_run.stop step] by simp
  with step two show ?thesis by (intro exI conjI)
qed

section \<open>A finding\<close>

text \<open>What an aborted report run read from the cache is metered as if it had not been.\<close>

lemma abort_forgets_cache:
  "su_cacheReadTokens (sum_usage [\<lparr>su_inputTokens = Some 100, su_outputTokens = Some 1, su_totalTokens = Some 101,
      su_cacheReadTokens = Some 90, su_reasoningTokens = None\<rparr>]) = None"
  by (simp add: sum_usage_def)

end
