(* ===== verification/Agent_Tools.thy ===== *)
theory Agent_Tools
  imports Chat_Laws
begin

text \<open>
  The API as tools of a language model (\<open>agent/procedure-tools.ts\<close>, \<open>ToolMeta\<close> of \<open>trpc/index.ts\<close>) and
  the assistant's use of them with an audit trail (\<open>server/agent/capabilities.ts\<close> of the web
  application). Input schemas and their rendering belong to the schema library, callers to tRPC:
  schemas are values of a type of their own, rendered by an argument; a caller is a value with a
  property lookup and a way to be called.
\<close>

section \<open>Descriptors\<close>

datatype procedure_kind = Query | Mutation | Subscription

record tool_meta =
  tm_expose :: "bool option"
  tm_name :: "string option"
  tm_description :: "string option"
  tm_readOnly :: "bool option"
  tm_destructive :: "bool option"

text \<open>What is read of a procedure: kind, input schemas, and its meta data, the tool's and the
  summary and description of the REST interface.\<close>

record 'z procedure_def =
  pc_type :: "procedure_kind option"
  pc_inputs :: "'z list option"
  pc_tool :: "tool_meta option"
  pc_openapi :: "(string option \<times> string option) option"

record 'z procedure_descriptor =
  td_name :: string
  td_path :: string
  td_kind :: procedure_kind
  td_description :: string
  td_readOnly :: bool
  td_destructive :: bool
  td_inputSchema :: 'z
  td_inputJsonSchema :: json

definition tool_char :: "char \<Rightarrow> bool" where
  "tool_char c = (let n = of_char c :: nat
     in (97 \<le> n \<and> n \<le> 122) \<or> (65 \<le> n \<and> n \<le> 90) \<or> (48 \<le> n \<and> n \<le> 57) \<or> c = CHR ''_'' \<or> c = CHR ''-'')"

definition sanitize_tool_name :: "string \<Rightarrow> string" where
  "sanitize_tool_name raw = map (\<lambda>c. if tool_char c then c else CHR ''_'') raw"

definition path_name :: "string \<Rightarrow> string" where
  "path_name path = map (\<lambda>c. if c = CHR ''.'' then CHR ''_'' else c) path"

definition tool_name_for :: "string \<Rightarrow> tool_meta option \<Rightarrow> string" where
  "tool_name_for path tool = sanitize_tool_name (or_else (Option.bind tool tm_name) (path_name path))"

definition open_api_text :: "(string option \<times> string option) option \<Rightarrow> string option" where
  "open_api_text openapi = (case openapi of None \<Rightarrow> None
     | Some (summary, description) \<Rightarrow> (case description of Some d \<Rightarrow> Some d | None \<Rightarrow> summary))"

definition description_for :: "string \<Rightarrow> 'z procedure_def \<Rightarrow> string" where
  "description_for path pr =
     or_else (Option.bind (pc_tool pr) tm_description)
       (or_else (open_api_text (pc_openapi pr)) (''Invoke the `'' @ path @ ''` API procedure.''))"

text \<open>The last input schema is the effective one.\<close>

definition input_schema_of :: "'z \<Rightarrow> 'z procedure_def \<Rightarrow> 'z" where
  "input_schema_of EMPTY_INPUT pr = (let inputs = or_else (pc_inputs pr) [] in if inputs = [] then EMPTY_INPUT else last inputs)"

text \<open>The override of the renderer: a date becomes a text, everything else stays.\<close>

definition render_date :: "string option \<Rightarrow> (string \<times> json) list \<Rightarrow> (string \<times> json) list" where
  "render_date def_type jsonSchema =
     (if def_type = Some ''date''
      then [(''type'', JStr ''string''), (''format'', JStr ''date-time''), (''description'', JStr ''ISO 8601 date-time string.'')]
      else jsonSchema)"

text \<open>What the schema library provides: the empty schema, and rendering with an override.\<close>

record 'z schema_library =
  sl_empty :: 'z
  sl_toJSONSchema :: "(string option \<Rightarrow> (string \<times> json) list \<Rightarrow> (string \<times> json) list) \<Rightarrow> 'z \<Rightarrow> json"

definition descriptor_of :: "'z schema_library \<Rightarrow> string \<Rightarrow> 'z procedure_def \<Rightarrow> 'z procedure_descriptor" where
  "descriptor_of lib path pr =
     (let kind = or_else (pc_type pr) Query; schema = input_schema_of (sl_empty lib) pr
      in \<lparr>td_name = tool_name_for path (pc_tool pr), td_path = path, td_kind = kind, td_description = description_for path pr,
          td_readOnly = or_else (Option.bind (pc_tool pr) tm_readOnly) (kind = Query),
          td_destructive = or_else (Option.bind (pc_tool pr) tm_destructive) False,
          td_inputSchema = schema, td_inputJsonSchema = sl_toJSONSchema lib render_date schema\<rparr>)"

definition exposed :: "'z procedure_def \<Rightarrow> bool" where
  "exposed pr = (Option.bind (pc_tool pr) tm_expose \<noteq> Some False)"

definition duplicate_message :: "string \<Rightarrow> string \<Rightarrow> string" where
  "duplicate_message name path = ''Duplicate agent tool name \"'' @ name @ ''\" (procedure \"'' @ path @ ''\"); set a unique meta.tool.name.''"

text \<open>The loop over the router's procedures, with the names seen and the descriptors so far.\<close>

fun collect_loop ::
    "'z schema_library \<Rightarrow> (string \<times> 'z procedure_def) list \<Rightarrow> string list \<Rightarrow> 'z procedure_descriptor list
      \<Rightarrow> string + 'z procedure_descriptor list" where
  "collect_loop lib [] seen descriptors = Inr descriptors"
| "collect_loop lib ((path, pr) # rest) seen descriptors =
     (if \<not> exposed pr then collect_loop lib rest seen descriptors
      else let name = tool_name_for path (pc_tool pr)
           in if List.member seen name then Inl (duplicate_message name path)
              else collect_loop lib rest (set_add name seen) (descriptors @ [descriptor_of lib path pr]))"

definition collect_procedure_descriptors ::
    "'z schema_library \<Rightarrow> (string \<times> 'z procedure_def) list \<Rightarrow> string + 'z procedure_descriptor list" where
  "collect_procedure_descriptors lib procedures = collect_loop lib procedures [] []"

section \<open>Calls\<close>

datatype node_type = Function_node | Object_node | Null_node | Other_node

text \<open>A caller: the type of a value, its properties, what calling it does (\<open>None\<close> is \<open>undefined\<close>), and
  the way through JSON and back that makes a result plain.\<close>

record ('n, 'v) caller_api =
  ca_typeof :: "'n \<Rightarrow> node_type"
  ca_property :: "'n \<Rightarrow> string \<Rightarrow> 'n"
  ca_call :: "'n \<Rightarrow> json \<Rightarrow> string + 'v option"
  ca_plain :: "'v \<Rightarrow> json"

fun walk_caller :: "('n, 'v) caller_api \<Rightarrow> string list \<Rightarrow> 'n \<Rightarrow> 'n option" where
  "walk_caller api [] node = Some node"
| "walk_caller api (key # keys) node =
     (if ca_typeof api node \<noteq> Object_node \<and> ca_typeof api node \<noteq> Function_node then None
      else walk_caller api keys (ca_property api node key))"

definition resolve_callable :: "('n, 'v) caller_api \<Rightarrow> 'n \<Rightarrow> string \<Rightarrow> 'n option" where
  "resolve_callable api caller path =
     (case walk_caller api (split_on (CHR ''.'') path) caller of
        None \<Rightarrow> None
      | Some node \<Rightarrow> if ca_typeof api node = Function_node then Some node else None)"

definition invoke_procedure :: "('n, 'v) caller_api \<Rightarrow> 'n \<Rightarrow> string \<Rightarrow> json \<Rightarrow> string + json" where
  "invoke_procedure api caller path inp =
     (case resolve_callable api caller path of
        None \<Rightarrow> Inl (''Procedure '' @ path @ '' is not callable.'')
      | Some callable \<Rightarrow>
          (case ca_call api callable inp of
             Inl e \<Rightarrow> Inl e
           | Inr None \<Rightarrow> Inr JNull
           | Inr (Some result) \<Rightarrow> Inr (ca_plain api result)))"

section \<open>The assistant's tools\<close>

text \<open>A null value is stored as \<open>NULL\<close>.\<close>

definition json_column :: "json option \<Rightarrow> json option" where
  "json_column v = (if v = Some JNull then None else v)"

definition audit_row :: "turn \<Rightarrow> 'z procedure_descriptor \<Rightarrow> json \<Rightarrow> json option \<Rightarrow> string option \<Rightarrow> nat \<Rightarrow> int \<Rightarrow> tool_call_row" where
  "audit_row t d inp output err now duration =
     \<lparr>tl_id = [], tl_conversationId = tn_conversationId t, tl_messageId = None, tl_userId = tn_userId t,
      tl_toolName = td_name d, tl_toolPath = td_path d, tl_input = json_column (Some inp), tl_output = json_column output, tl_error = err,
      tl_durationMs = Some duration, tl_createdAt = now\<rparr>"

fun error_text :: "trpc_error \<Rightarrow> string" where
  "error_text (TRPC code message) = message"

text \<open>The body of a tool: whatever fails in the \<open>try\<close> is recorded and thrown again, the recording of a
  success included; a failing record of a failure replaces the failure.\<close>

definition audited_call ::
    "(nat \<Rightarrow> string) \<Rightarrow> nat \<Rightarrow> int \<Rightarrow> turn \<Rightarrow> 'z procedure_descriptor \<Rightarrow> json \<Rightarrow> (json \<Rightarrow> string + json) \<Rightarrow> chat_db
      \<Rightarrow> (string + json) \<times> chat_db" where
  "audited_call random_uuid now duration t d inp execute db =
     (let failed = (\<lambda>message. case record_tool_call random_uuid (audit_row t d inp None (Some message) now duration) db of
            Inl e \<Rightarrow> (Inl (error_text e), db) | Inr db1 \<Rightarrow> (Inl message, db1))
      in case execute inp of
           Inl message \<Rightarrow> failed message
         | Inr output \<Rightarrow>
             (case record_tool_call random_uuid (audit_row t d inp (Some output) None now duration) db of
                Inr db1 \<Rightarrow> (Inr output, db1)
              | Inl e \<Rightarrow> failed (error_text e)))"

definition sandboxable :: "'z procedure_descriptor \<Rightarrow> bool" where
  "sandboxable descriptor = td_readOnly descriptor"

text \<open>The functions lent to the sandbox, an object keyed by name; a missing argument is empty.\<close>

definition sandbox_functions :: "'z procedure_descriptor list \<Rightarrow> (string, 'z procedure_descriptor) js_map" where
  "sandbox_functions descriptors = foldl (\<lambda>fs d. map_set (td_name d) d fs) [] (filter sandboxable descriptors)"

definition sandbox_call :: "('n, 'v) caller_api \<Rightarrow> 'n \<Rightarrow> 'z procedure_descriptor \<Rightarrow> json option \<Rightarrow> string + json" where
  "sandbox_call api caller d argument =
     invoke_procedure api caller (td_path d) (case argument of None \<Rightarrow> JObj [] | Some JNull \<Rightarrow> JObj [] | Some v \<Rightarrow> v)"

section \<open>What is collected\<close>

lemma descriptor_simps [simp]:
  "td_name (descriptor_of lib path pr) = tool_name_for path (pc_tool pr)" "td_path (descriptor_of lib path pr) = path"
  "td_readOnly (descriptor_of lib path pr) = or_else (Option.bind (pc_tool pr) tm_readOnly) (or_else (pc_type pr) Query = Query)"
  by (simp_all add: descriptor_of_def Let_def)

definition exposed_names :: "(string \<times> 'z procedure_def) list \<Rightarrow> string list" where
  "exposed_names ps = map (\<lambda>(path, pr). tool_name_for path (pc_tool pr)) (filter (\<lambda>(path, pr). exposed pr) ps)"

definition exposed_descriptors :: "'z schema_library \<Rightarrow> (string \<times> 'z procedure_def) list \<Rightarrow> 'z procedure_descriptor list" where
  "exposed_descriptors lib ps = map (\<lambda>(path, pr). descriptor_of lib path pr) (filter (\<lambda>(path, pr). exposed pr) ps)"

lemma exposed_simps [simp]:
  "exposed_names [] = []" "exposed_descriptors lib [] = []"
  "exposed_names ((path, pr) # ps) = (if exposed pr then [tool_name_for path (pc_tool pr)] else []) @ exposed_names ps"
  "exposed_descriptors lib ((path, pr) # ps) = (if exposed pr then [descriptor_of lib path pr] else []) @ exposed_descriptors lib ps"
  by (simp_all add: exposed_names_def exposed_descriptors_def)

lemma collect_loop_result:
  "collect_loop lib ps seen ds = Inr es \<longleftrightarrow>
     distinct (exposed_names ps) \<and> set (exposed_names ps) \<inter> set seen = {} \<and> es = ds @ exposed_descriptors lib ps"
proof (induction lib ps seen ds rule: collect_loop.induct)
  case (2 lib path pr rest seen ds)
  then show ?case by (cases "exposed pr") (auto simp: Let_def List.member_iff)
qed auto

lemma collect_iff:
  "collect_procedure_descriptors lib ps = Inr es \<longleftrightarrow> distinct (exposed_names ps) \<and> es = exposed_descriptors lib ps"
  by (auto simp: collect_procedure_descriptors_def collect_loop_result)

lemma exposed_descriptors_names: "map td_name (exposed_descriptors lib ps) = exposed_names ps"
  by (induction ps) auto

lemma sanitize_safe: "list_all tool_char (sanitize_tool_name s)"
proof -
  have "tool_char (CHR ''_'')" by (simp add: tool_char_def Let_def)
  then show ?thesis by (induction s) (simp_all add: sanitize_tool_name_def)
qed

lemma sandbox_get:
  "map_get (foldl (\<lambda>fs d. map_set (td_name d) d fs) m ds) k = Some d \<Longrightarrow> map_get m k = Some d \<or> (d \<in> set ds \<and> td_name d = k)"
proof (induction ds arbitrary: m)
  case (Cons x ds)
  have "map_get (map_set (td_name x) x m) k = Some d \<or> (d \<in> set ds \<and> td_name d = k)"
    by (rule Cons.IH) (use Cons.prems in \<open>simp only: foldl_Cons\<close>)
  then show ?case by (auto split: if_splits)
qed simp

lemma sandbox_functions_get: "map_get (sandbox_functions ds) k = Some d \<Longrightarrow> d \<in> set ds \<and> td_readOnly d \<and> td_name d = k"
  using sandbox_get[where m = "[]" and ds = "filter sandboxable ds" and k = k and d = d] by (simp add: sandbox_functions_def sandboxable_def)

section \<open>The audit trail\<close>

text \<open>A row with the outcome of a call.\<close>

definition audited :: "turn \<Rightarrow> 'z procedure_descriptor \<Rightarrow> string + json \<Rightarrow> tool_call_row \<Rightarrow> bool" where
  "audited t d result row \<longleftrightarrow> tl_conversationId row = tn_conversationId t \<and> tl_userId row = tn_userId t
     \<and> tl_toolName row = td_name d \<and> tl_toolPath row = td_path d
     \<and> (case result of
          Inr output \<Rightarrow> tl_output row = json_column (Some output) \<and> tl_error row = None
        | Inl m \<Rightarrow> tl_output row = None \<and> tl_error row = Some m)"

text \<open>A row can be inserted while the turn's thread and its user exist and the drawn id is new.\<close>

definition recordable :: "(nat \<Rightarrow> string) \<Rightarrow> turn \<Rightarrow> chat_db \<Rightarrow> bool" where
  "recordable uuid t db \<longleftrightarrow> tn_conversationId t \<in> cv_id ` set (cd_conversations db) \<and> tn_userId t \<in> set (cd_users db)
     \<and> uuid (cd_draws db) \<notin> tl_id ` set (cd_toolCalls db)"

lemma record_tool_call_Inr:
  "record_tool_call uuid e db = Inr db' \<Longrightarrow> cd_conversations db' = cd_conversations db
     \<and> cd_toolCalls db' = cd_toolCalls db @ [e\<lparr>tl_id := uuid (cd_draws db)\<rparr>]"
  by (auto simp: record_tool_call_def Let_def split: if_splits)

lemma written_audit_row:
  "recordable uuid t db \<Longrightarrow> \<exists>db1. record_tool_call uuid (audit_row t d inp output err now duration) db = Inr db1"
  "\<not> recordable uuid t db \<Longrightarrow> \<exists>e. record_tool_call uuid (audit_row t d inp output err now duration) db = Inl e"
  by (auto simp: recordable_def record_tool_call_def audit_row_def Let_def)

lemma audited_call_rows:
  assumes "audited_call uuid now duration t d inp execute db = (result, db')"
  shows "if recordable uuid t db
    then result = execute inp \<and> (\<exists>row. cd_toolCalls db' = cd_toolCalls db @ [row] \<and> audited t d result row)
    else db' = db \<and> isl result"
proof (cases "recordable uuid t db")
  case True
  let ?write_row = "\<lambda>output err. record_tool_call uuid (audit_row t d inp output err now duration) db"
  show ?thesis
  proof (cases "execute inp")
    case (Inl m)
    obtain db1 where db1: "?write_row None (Some m) = Inr db1" using written_audit_row(1)[OF True] by blast
    then have "result = Inl m" "db' = db1" using assms Inl by (simp_all add: audited_call_def)
    moreover have "audited t d (Inl m) ((audit_row t d inp None (Some m) now duration)\<lparr>tl_id := uuid (cd_draws db)\<rparr>)"
      by (simp add: audited_def audit_row_def json_column_def)
    ultimately show ?thesis using record_tool_call_Inr[OF db1] Inl True by simp
  next
    case (Inr out)
    obtain db1 where db1: "?write_row (Some out) None = Inr db1" using written_audit_row(1)[OF True] by blast
    then have "result = Inr out" "db' = db1" using assms Inr by (simp_all add: audited_call_def)
    moreover have "audited t d (Inr out) ((audit_row t d inp (Some out) None now duration)\<lparr>tl_id := uuid (cd_draws db)\<rparr>)"
      by (simp add: audited_def audit_row_def)
    ultimately show ?thesis using record_tool_call_Inr[OF db1] Inr True by simp
  qed
next
  case False
  then have "\<exists>e. record_tool_call uuid (audit_row t d inp outp err now duration) db = Inl e" for outp err
    by (rule written_audit_row(2))
  then have "isl result \<and> db' = db" using assms
    by (auto simp: audited_call_def Let_def split: sum.splits) (metis isl_def sum.simps(4))+
  with False show ?thesis by simp
qed

section \<open>The property\<close>

text \<open>C39: the API as tools. Collecting the tools fails exactly when two exposed procedures share a name;
  otherwise the tools are the exposed procedures in the router's order, under distinct names of
  letters, digits, underscores and hyphens, and the sandbox, whose calls nobody confirms, is lent
  only those that are marked read-only or are unmarked queries. While the thread and the user of a turn
  exist, a tool call of it answers what the procedure answers and leaves exactly one row in the audit
  trail, with that answer or error; once they are gone, the call is reported as failed, whatever the
  procedure did, and leaves none.\<close>

theorem tools_faithful:
  "(case collect_procedure_descriptors lib procedures of
      Inl e \<Rightarrow> \<not> distinct (exposed_names procedures)
    | Inr ds \<Rightarrow> distinct (map td_name ds) \<and> list_all (\<lambda>d. list_all tool_char (td_name d)) ds
        \<and> map td_path ds = map fst (filter (\<lambda>(path, pr). exposed pr) procedures)
        \<and> (\<forall>k d. map_get (sandbox_functions ds) k = Some d \<longrightarrow> d \<in> set ds \<and> td_name d = k
             \<and> (\<exists>pr. (td_path d, pr) \<in> set procedures \<and> exposed pr
                  \<and> or_else (Option.bind (pc_tool pr) tm_readOnly) (or_else (pc_type pr) Query = Query))))
   \<and> (\<forall>t d inp execute result db'. audited_call uuid now duration t d inp execute db = (result, db') \<longrightarrow>
        (if recordable uuid t db
         then result = execute inp \<and> (\<exists>row. cd_toolCalls db' = cd_toolCalls db @ [row] \<and> audited t d result row)
         else db' = db \<and> isl result))"
proof (intro conjI allI impI)
  show "case collect_procedure_descriptors lib procedures of
      Inl e \<Rightarrow> \<not> distinct (exposed_names procedures)
    | Inr ds \<Rightarrow> distinct (map td_name ds) \<and> list_all (\<lambda>d. list_all tool_char (td_name d)) ds
        \<and> map td_path ds = map fst (filter (\<lambda>(path, pr). exposed pr) procedures)
        \<and> (\<forall>k d. map_get (sandbox_functions ds) k = Some d \<longrightarrow> d \<in> set ds \<and> td_name d = k
             \<and> (\<exists>pr. (td_path d, pr) \<in> set procedures \<and> exposed pr
                  \<and> or_else (Option.bind (pc_tool pr) tm_readOnly) (or_else (pc_type pr) Query = Query)))"
  proof (cases "collect_procedure_descriptors lib procedures")
    case (Inl e)
    then show ?thesis using collect_iff[where lib = lib and ps = procedures] by auto
  next
    case (Inr ds)
    then have ds: "distinct (exposed_names procedures)" "ds = exposed_descriptors lib procedures" by (simp_all add: collect_iff)
    have safe: "list_all (\<lambda>d. list_all tool_char (td_name d)) ds"
      unfolding ds(2) exposed_descriptors_def by (auto simp: list_all_iff[of "\<lambda>d. list_all tool_char (td_name d)"] tool_name_for_def sanitize_safe)
    have paths: "map td_path ds = map fst (filter (\<lambda>(path, pr). exposed pr) procedures)"
      unfolding ds(2) exposed_descriptors_def by auto
    have lent: "d \<in> set ds \<and> td_name d = k \<and> (\<exists>pr. (td_path d, pr) \<in> set procedures \<and> exposed pr
        \<and> or_else (Option.bind (pc_tool pr) tm_readOnly) (or_else (pc_type pr) Query = Query))"
      if "map_get (sandbox_functions ds) k = Some d" for k d
      using sandbox_functions_get[OF that] unfolding ds(2) exposed_descriptors_def by auto
    show ?thesis using ds(1) safe paths lent unfolding Inr by (simp add: ds(2) exposed_descriptors_names)
  qed
next
  fix t d inp execute result db'
  assume "audited_call uuid now duration t d inp execute db = (result, db')"
  then show "if recordable uuid t db
    then result = execute inp \<and> (\<exists>row. cd_toolCalls db' = cd_toolCalls db @ [row] \<and> audited t d result row)
    else db' = db \<and> isl result"
    by (rule audited_call_rows)
qed

definition demo_library :: "unit schema_library" where
  "demo_library = \<lparr>sl_empty = (), sl_toJSONSchema = (\<lambda>override z. JObj (override None []))\<rparr>"

definition demo_procedures :: "(string \<times> unit procedure_def) list" where
  "demo_procedures =
     [(''users.list'', \<lparr>pc_type = Some Query, pc_inputs = None, pc_tool = None, pc_openapi = None\<rparr>),
      (''users.setRole'', \<lparr>pc_type = Some Mutation, pc_inputs = None, pc_tool = None, pc_openapi = None\<rparr>),
      (''aiUsage.mine'', \<lparr>pc_type = Some Query, pc_inputs = None,
         pc_tool = Some \<lparr>tm_expose = Some False, tm_name = None, tm_description = None, tm_readOnly = None, tm_destructive = None\<rparr>,
         pc_openapi = None\<rparr>)]"

theorem tools_faithful_witness:
  "\<exists>ds d. collect_procedure_descriptors demo_library demo_procedures = Inr ds \<and> map td_name ds = [''users_list'', ''users_setRole'']
     \<and> map_get (sandbox_functions ds) ''users_list'' = Some d \<and> d \<in> set ds"
proof -
  have names: "exposed_names demo_procedures = [''users_list'', ''users_setRole'']" by code_simp
  then have c: "collect_procedure_descriptors demo_library demo_procedures = Inr (exposed_descriptors demo_library demo_procedures)"
    by (simp add: collect_iff)
  have "map_get (sandbox_functions (exposed_descriptors demo_library demo_procedures)) ''users_list'' \<noteq> None"
    by code_simp
  then obtain d where d: "map_get (sandbox_functions (exposed_descriptors demo_library demo_procedures)) ''users_list'' = Some d" by blast
  have "d \<in> set (exposed_descriptors demo_library demo_procedures)"
    using conjunct1[OF tools_faithful[where lib = demo_library and procedures = demo_procedures]] d unfolding c sum.case by blast
  with c d names show ?thesis by (simp add: exposed_descriptors_names)
qed

section \<open>A finding\<close>

text \<open>A call that succeeded is reported as failed when its thread is gone: recording the success
  fails, and so does recording that failure.\<close>

lemma success_reported_failed:
  "audited_call uuid now duration t d inp (\<lambda>_. Inr output) (cw_db demo_chat\<lparr>cd_conversations := []\<rparr>)
     = (Inl ''foreign key'', cw_db demo_chat\<lparr>cd_conversations := []\<rparr>)"
  by (simp add: audited_call_def record_tool_call_def audit_row_def demo_chat_def Let_def)

end
