(* ===== verification/File_System.thy ===== *)
theory File_System
  imports Storage_Keys
begin

text \<open>
  The part of Node's \<open>fs/promises\<close> and \<open>path\<close> the filesystem storage uses: an absolute,
  normalised path is the list of its segments, a file system the map of its files (content and
  modification time) and the list of its directories. The calls fail with the error codes of
  the operating system; permissions, links and full disks are left out.
\<close>

type_synonym fpath = "string list"

record file_system =
  fs_files :: "(fpath, bytes \<times> int) js_map"
  fs_dirs :: "fpath list"

datatype fs_error = ENOENT | EISDIR | ENOTDIR | EEXIST

definition fs_file :: "file_system \<Rightarrow> fpath \<Rightarrow> (bytes \<times> int) option" where
  "fs_file st p = map_get (fs_files st) p"

definition is_file :: "file_system \<Rightarrow> fpath \<Rightarrow> bool" where
  "is_file st p = (fs_file st p \<noteq> None)"

text \<open>The root directory always exists.\<close>

definition fs_dir :: "file_system \<Rightarrow> fpath \<Rightarrow> bool" where
  "fs_dir st p = (p = [] \<or> p \<in> set (fs_dirs st))"

text \<open>A proper ancestor of \<open>p\<close> is a file.\<close>

definition under_file :: "file_system \<Rightarrow> fpath \<Rightarrow> bool" where
  "under_file st p = list_ex (\<lambda>n. is_file st (take n p)) [0..<length p]"

definition missing :: "file_system \<Rightarrow> fpath \<Rightarrow> fs_error" where
  "missing st p = (if under_file st p then ENOTDIR else ENOENT)"

definition fs_read_file :: "fpath \<Rightarrow> file_system \<Rightarrow> fs_error + bytes" where
  "fs_read_file p st =
     (case fs_file st p of
        Some f \<Rightarrow> Inr (fst f)
      | None \<Rightarrow> Inl (if fs_dir st p then EISDIR else missing st p))"

definition fs_access :: "fpath \<Rightarrow> file_system \<Rightarrow> fs_error + unit" where
  "fs_access p st =
     (if is_file st p \<or> fs_dir st p then Inr () else Inl (missing st p))"

text \<open>\<open>mkdir(p, { recursive: true })\<close>\<close>

definition fs_mkdir :: "fpath \<Rightarrow> file_system \<Rightarrow> fs_error + file_system" where
  "fs_mkdir p st =
     (if under_file st p then Inl ENOTDIR
      else if is_file st p then Inl EEXIST
      else Inr (st\<lparr>fs_dirs := foldl (\<lambda>ds n. set_add (take n p) ds) (fs_dirs st) [1..<Suc (length p)]\<rparr>))"

definition put_file :: "fpath \<Rightarrow> bytes \<times> int \<Rightarrow> file_system \<Rightarrow> file_system" where
  "put_file p f st = st\<lparr>fs_files := map_set p f (fs_files st)\<rparr>"

definition drop_file :: "fpath \<Rightarrow> file_system \<Rightarrow> file_system" where
  "drop_file p st = st\<lparr>fs_files := map_delete p (fs_files st)\<rparr>"

definition fs_write_file :: "int \<Rightarrow> fpath \<Rightarrow> bytes \<Rightarrow> file_system \<Rightarrow> fs_error + file_system" where
  "fs_write_file now p data st =
     (if fs_dir st p then Inl EISDIR
      else if \<not> fs_dir st (butlast p) then Inl (missing st p)
      else Inr (put_file p (data, now) st))"

definition fs_rename :: "fpath \<Rightarrow> fpath \<Rightarrow> file_system \<Rightarrow> fs_error + file_system" where
  "fs_rename src dst st =
     (case fs_file st src of
        None \<Rightarrow> Inl ENOENT
      | Some f \<Rightarrow>
          (if fs_dir st dst then Inl EISDIR
           else if \<not> fs_dir st (butlast dst) then Inl (missing st dst)
           else Inr (put_file dst f (drop_file src st))))"

definition fs_unlink :: "fpath \<Rightarrow> file_system \<Rightarrow> fs_error + file_system" where
  "fs_unlink p st =
     (if is_file st p then Inr (drop_file p st)
      else Inl (if fs_dir st p then EISDIR else missing st p))"

section \<open>Paths\<close>

text \<open>\<open>path.resolve(base, relative)\<close> for a resolved base and a relative path.\<close>

definition resolve_path :: "fpath \<Rightarrow> string \<Rightarrow> fpath" where
  "resolve_path base rel = norm_segments True (rev base) (split_on (CHR ''/'') rel)"

lemma norm_segments_absolute:
  "\<forall>g\<in>set kept. plain_segment g \<Longrightarrow> \<forall>g\<in>set gs. CHR ''/'' \<notin> set g \<Longrightarrow>
     \<forall>g\<in>set (norm_segments True kept gs). plain_segment g"
proof (induction gs arbitrary: kept)
  case Nil
  then show ?case by simp
next
  case (Cons g gs)
  have tl: "\<forall>g\<in>set (tl kept). plain_segment g" using Cons.prems(1) by (cases kept) auto
  have rest: "\<forall>g\<in>set gs. CHR ''/'' \<notin> set g" using Cons.prems(2) by simp
  show ?case
  proof (cases "g = [] \<or> g = ''.'' \<or> g = ''..''")
    case True
    then have "norm_segments True kept (g # gs) = norm_segments True kept gs
        \<or> norm_segments True kept (g # gs) = norm_segments True (tl kept) gs"
      by auto
    then show ?thesis using Cons.IH[OF Cons.prems(1) rest] Cons.IH[OF tl rest] by metis
  next
    case False
    then have "plain_segment g" using Cons.prems(2) by (simp add: plain_segment_def)
    then have "\<forall>x\<in>set (g # kept). plain_segment x" using Cons.prems(1) by simp
    from Cons.IH[OF this rest] False show ?thesis by simp
  qed
qed

lemma split_on_free: "g \<in> set (split_on d s) \<Longrightarrow> d \<notin> set g"
  by (induction s arbitrary: g) (auto split: list.splits if_splits)

lemma resolve_path_plain:
  "\<forall>g\<in>set base. plain_segment g \<Longrightarrow> \<forall>g\<in>set (resolve_path base rel). plain_segment g"
  unfolding resolve_path_def by (rule norm_segments_absolute) (auto dest: split_on_free)

section \<open>Laws of the calls\<close>

lemma fs_file_put [simp]: "fs_file (put_file p f st) q = (if q = p then Some f else fs_file st q)"
  by (simp add: fs_file_def put_file_def)

lemma fs_file_drop [simp]: "fs_file (drop_file p st) q = (if q = p then None else fs_file st q)"
  by (simp add: fs_file_def drop_file_def)

lemma is_file_put [simp]: "is_file (put_file p f st) q \<longleftrightarrow> q = p \<or> is_file st q"
    "is_file (drop_file p st) q \<longleftrightarrow> q \<noteq> p \<and> is_file st q"
  by (auto simp: is_file_def)

lemma fs_dir_put [simp]: "fs_dir (put_file p f st) q = fs_dir st q" "fs_dir (drop_file p st) q = fs_dir st q"
  by (simp_all add: fs_dir_def put_file_def drop_file_def)

lemma fs_mkdir_files: "fs_mkdir p st = Inr st' \<Longrightarrow> fs_file st' q = fs_file st q"
  by (auto simp: fs_mkdir_def fs_file_def split: if_splits)

lemma fs_mkdir_is_file: "fs_mkdir p st = Inr st' \<Longrightarrow> is_file st' q = is_file st q"
  by (simp add: is_file_def fs_mkdir_files)

lemma foldl_set_add: "set (foldl (\<lambda>ds n. set_add (f n) ds) ds ns) = set ds \<union> f ` set ns"
  by (induction ns arbitrary: ds) auto

lemma fs_mkdir_dirs: "fs_mkdir p st = Inr st' \<Longrightarrow> fs_dir st' q \<longleftrightarrow> fs_dir st q \<or> (\<exists>n\<le>length p. q = take n p)"
proof -
  assume run: "fs_mkdir p st = Inr st'"
  then have dirs: "set (fs_dirs st') = set (fs_dirs st) \<union> (\<lambda>n. take n p) ` set [1..<Suc (length p)]"
    by (auto simp: fs_mkdir_def foldl_set_add simp del: upt_Suc split: if_splits)
  show ?thesis
  proof (cases "q = []")
    case True
    then show ?thesis by (auto simp: fs_dir_def intro: exI[of _ 0])
  next
    case False
    then have "q \<in> (\<lambda>n. take n p) ` set [1..<Suc (length p)] \<longleftrightarrow> (\<exists>n\<le>length p. q = take n p)"
    proof (intro iffI)
      assume "\<exists>n\<le>length p. q = take n p"
      then obtain n where n: "n \<le> length p" "q = take n p" by blast
      then have "n \<in> set [1..<Suc (length p)]" using False by (cases n) auto
      with n(2) show "q \<in> (\<lambda>n. take n p) ` set [1..<Suc (length p)]" by blast
    qed (auto intro: less_imp_le)
    with False dirs show ?thesis by (auto simp: fs_dir_def)
  qed
qed

text \<open>No path is both a file and a directory, files lie in directories, directories in directories.\<close>

definition fs_ok :: "file_system \<Rightarrow> bool" where
  "fs_ok st \<longleftrightarrow> (\<forall>p. is_file st p \<longrightarrow> p \<noteq> [] \<and> \<not> fs_dir st p \<and> fs_dir st (butlast p))
     \<and> (\<forall>p. fs_dir st p \<longrightarrow> fs_dir st (butlast p))"

lemma fs_dir_take: "fs_ok st \<Longrightarrow> fs_dir st p \<Longrightarrow> fs_dir st (take n p)"
proof (induction "length p - n" arbitrary: n)
  case 0
  then show ?case by simp
next
  case (Suc k)
  then have "fs_dir st (take (Suc n) p)" by simp
  then have "fs_dir st (butlast (take (Suc n) p))" using Suc.prems(1) by (simp add: fs_ok_def)
  moreover have "butlast (take (Suc n) p) = take n p" using Suc.hyps(2) by (simp add: butlast_take)
  ultimately show ?case by simp
qed

lemma fs_ok_put: "fs_ok st \<Longrightarrow> \<not> fs_dir st p \<Longrightarrow> fs_dir st (butlast p) \<Longrightarrow> fs_ok (put_file p f st)"
  by (auto simp: fs_ok_def)

lemma fs_ok_drop: "fs_ok st \<Longrightarrow> fs_ok (drop_file p st)"
  by (auto simp: fs_ok_def)

lemma fs_mkdir_free: "fs_mkdir p st = Inr st' \<Longrightarrow> n \<le> length p \<Longrightarrow> \<not> is_file st (take n p)"
  by (cases "n = length p") (auto simp: fs_mkdir_def under_file_def list_ex_iff split: if_splits)

lemma butlast_of_take: "n \<le> length p \<Longrightarrow> \<exists>m\<le>length p. butlast (take n p) = take m p"
  by (intro exI[of _ "n - 1"]) (auto simp: butlast_take)

lemma fs_ok_mkdir:
  assumes "fs_ok st" and "fs_mkdir p st = Inr st'"
  shows "fs_ok st'"
  using assms(1) fs_mkdir_free[OF assms(2)] butlast_of_take[of _ p]
  unfolding fs_ok_def fs_mkdir_is_file[OF assms(2)] fs_mkdir_dirs[OF assms(2)] by blast

end
