(* ===== verification/Fs_Storage.thy ===== *)
theory Fs_Storage
  imports File_System Json
begin

text \<open>
  The filesystem storage provider (\<open>web/packages/helix-backend/src/storage/\<close>): key resolution
  and request signatures (\<open>filesystem-shared.ts\<close>), the provider (\<open>filesystem-provider.ts\<close>,
  \<open>interface.ts\<close>) and the HTTP end point that serves signed requests (\<open>filesystem-http.ts\<close>).
  HMAC, the parsing and printing of query strings, \<open>Number\<close>, UTF-8 decoding and system messages
  come from the host; the clock in milliseconds and random suffixes are inputs.
\<close>

record storage_host =
  sh_hmac :: "string \<Rightarrow> string \<Rightarrow> string"
  sh_number :: "string \<Rightarrow> int option"
  sh_search :: "(string \<times> string) list \<Rightarrow> string"
  sh_params :: "string \<Rightarrow> (string \<times> string) list"
  sh_decode :: "bytes \<Rightarrow> string"
  sh_iso :: "int \<Rightarrow> string"
  sh_message :: "fs_error \<Rightarrow> string"

section \<open>Keys and signatures\<close>

definition FS_STORAGE_ROUTE :: string where "FS_STORAGE_ROUTE = ''/api/internal/fs-storage''"
definition MILLISECONDS_IN_SECOND :: int where "MILLISECONDS_IN_SECOND = 1000"

datatype storage_error = EscapesRoot string | FsError fs_error | ObjectNotFound string | UploadTooLarge

datatype fs_method = GetObject | PutObject

definition method_name :: "fs_method \<Rightarrow> string" where
  "method_name m = (case m of GetObject \<Rightarrow> ''GET'' | PutObject \<Rightarrow> ''PUT'')"

text \<open>\<open>full.startsWith(base + path.sep)\<close>; with the root directory as base that is \<open>//\<close>.\<close>

definition starts_under :: "fpath \<Rightarrow> fpath \<Rightarrow> bool" where
  "starts_under base full = (base \<noteq> [] \<and> length base < length full \<and> take (length base) full = base)"

definition resolve_fs_object_path :: "fpath \<Rightarrow> string \<Rightarrow> storage_error + fpath" where
  "resolve_fs_object_path root key =
     (let cleaned = dropWhile (\<lambda>c. c = CHR ''/'' \<or> c = CHR 0x5C) key;
          full = resolve_path root cleaned
      in if full \<noteq> root \<and> \<not> starts_under root full then Inl (EscapesRoot key) else Inr full)"

definition sign_fs_request :: "storage_host \<Rightarrow> string \<Rightarrow> fs_method \<Rightarrow> string \<Rightarrow> int \<Rightarrow> string" where
  "sign_fs_request h secret method key exp =
     sh_hmac h secret (method_name method @ '':'' @ key @ '':'' @ print_int exp)"

text \<open>\<open>exp\<close> is \<open>None\<close> when it is no finite number.\<close>

definition verify_fs_request ::
    "storage_host \<Rightarrow> int \<Rightarrow> string \<Rightarrow> fs_method \<Rightarrow> string \<Rightarrow> int option \<Rightarrow> string \<Rightarrow> bool" where
  "verify_fs_request h now secret method key exp signature =
     (case exp of
        None \<Rightarrow> False
      | Some e \<Rightarrow> (if e * MILLISECONDS_IN_SECOND < now then False
                   else utf8 (sign_fs_request h secret method key e) = utf8 signature))"

section \<open>The provider\<close>

record fs_config =
  fc_publicBaseUrl :: string
  fc_root :: fpath
  fc_signingSecret :: string

datatype upload_data = UploadText string | UploadBytes bytes

definition upload_bytes :: "upload_data \<Rightarrow> bytes" where
  "upload_bytes d = (case d of UploadText s \<Rightarrow> utf8 s | UploadBytes b \<Rightarrow> b)"

definition tmp_path :: "fpath \<Rightarrow> string \<Rightarrow> fpath" where
  "tmp_path full suffix = butlast full @ [last full @ suffix]"

text \<open>A call that fails leaves what the earlier ones did.\<close>

definition atomic_write :: "int \<Rightarrow> string \<Rightarrow> fpath \<Rightarrow> bytes \<Rightarrow> file_system \<Rightarrow> (storage_error + unit) \<times> file_system" where
  "atomic_write now rnd full data st =
     (case fs_mkdir (butlast full) st of
        Inl e \<Rightarrow> (Inl (FsError e), st)
      | Inr st1 \<Rightarrow>
          (case fs_write_file now (tmp_path full (''.tmp-'' @ rnd)) data st1 of
             Inl e \<Rightarrow> (Inl (FsError e), st1)
           | Inr st2 \<Rightarrow>
               (case fs_rename (tmp_path full (''.tmp-'' @ rnd)) full st2 of
                  Inl e \<Rightarrow> (Inl (FsError e), st2) | Inr st3 \<Rightarrow> (Inr (), st3))))"

definition fs_upload :: "fs_config \<Rightarrow> int \<Rightarrow> string \<Rightarrow> string \<Rightarrow> upload_data \<Rightarrow> file_system \<Rightarrow> (storage_error + unit) \<times> file_system" where
  "fs_upload cfg now rnd key data st =
     (case resolve_fs_object_path (fc_root cfg) key of
        Inl e \<Rightarrow> (Inl e, st)
      | Inr full \<Rightarrow> atomic_write now rnd full (upload_bytes data) st)"

definition fs_download :: "storage_host \<Rightarrow> fs_config \<Rightarrow> string \<Rightarrow> file_system \<Rightarrow> storage_error + string" where
  "fs_download h cfg key st =
     (case resolve_fs_object_path (fc_root cfg) key of
        Inl e \<Rightarrow> Inl e
      | Inr full \<Rightarrow>
          (case fs_read_file full st of
             Inl ENOENT \<Rightarrow> Inl (ObjectNotFound key) | Inl e \<Rightarrow> Inl (FsError e) | Inr b \<Rightarrow> Inr (sh_decode h b)))"

definition fs_exists :: "fs_config \<Rightarrow> string \<Rightarrow> file_system \<Rightarrow> storage_error + bool" where
  "fs_exists cfg key st =
     (case resolve_fs_object_path (fc_root cfg) key of
        Inl e \<Rightarrow> Inl e
      | Inr full \<Rightarrow>
          (case fs_access full st of Inr _ \<Rightarrow> Inr True | Inl ENOENT \<Rightarrow> Inr False | Inl e \<Rightarrow> Inl (FsError e)))"

definition fs_delete :: "fs_config \<Rightarrow> string \<Rightarrow> file_system \<Rightarrow> (storage_error + unit) \<times> file_system" where
  "fs_delete cfg key st =
     (case resolve_fs_object_path (fc_root cfg) key of
        Inl e \<Rightarrow> (Inl e, st)
      | Inr full \<Rightarrow>
          (case fs_unlink full st of
             Inr st' \<Rightarrow> (Inr (), st') | Inl ENOENT \<Rightarrow> (Inr (), st) | Inl e \<Rightarrow> (Inl (FsError e), st)))"

text \<open>\<open>Promise.all\<close>: every deletion runs, the first failure is the result.\<close>

fun fs_delete_multiple :: "fs_config \<Rightarrow> string list \<Rightarrow> file_system \<Rightarrow> (storage_error + unit) \<times> file_system" where
  "fs_delete_multiple cfg [] st = (Inr (), st)"
| "fs_delete_multiple cfg (key # keys) st =
     (let r = fs_delete cfg key st; rest = fs_delete_multiple cfg keys (snd r)
      in (case fst r of Inl e \<Rightarrow> Inl e | Inr _ \<Rightarrow> fst rest, snd rest))"

section \<open>Listing\<close>

record object_summary =
  os_key :: string
  os_sizeBytes :: nat
  os_updatedAt :: string

definition ends_with :: "string \<Rightarrow> string \<Rightarrow> bool" where
  "ends_with suffix s = starts_with (rev suffix) (rev s)"

definition listed_key :: "string option \<Rightarrow> string \<Rightarrow> bool" where
  "listed_key prefix key =
     (\<not> (ends_with ''.lock'' key \<or> str_includes ''.tmp-'' key)
      \<and> (case prefix of None \<Rightarrow> True | Some p \<Rightarrow> p = [] \<or> starts_with p key))"

definition relative_key :: "fpath \<Rightarrow> fpath \<Rightarrow> string" where
  "relative_key base p = join_with ''/'' (drop (length base) p)"

text \<open>\<open>readdir\<close>: its order is the system's; here directories come first.\<close>

definition dir_entries :: "file_system \<Rightarrow> fpath \<Rightarrow> fpath list" where
  "dir_entries st d = filter (\<lambda>p. p \<noteq> [] \<and> butlast p = d) (fs_dirs st @ map_keys (fs_files st))"

definition add_object :: "storage_host \<Rightarrow> fpath \<Rightarrow> string option \<Rightarrow> file_system \<Rightarrow> fpath \<Rightarrow> object_summary list \<Rightarrow> object_summary list" where
  "add_object h base prefix st p results =
     (case fs_file st p of
        None \<Rightarrow> results
      | Some f \<Rightarrow>
          (if listed_key prefix (relative_key base p)
           then results @ [\<lparr>os_key = relative_key base p, os_sizeBytes = length (fst f), os_updatedAt = sh_iso h (snd f)\<rparr>]
           else results))"

text \<open>\<open>walk\<close>, at most \<open>n\<close> directories deep.\<close>

fun walk :: "nat \<Rightarrow> storage_host \<Rightarrow> fpath \<Rightarrow> string option \<Rightarrow> nat \<Rightarrow> file_system \<Rightarrow> fpath \<Rightarrow> object_summary list \<Rightarrow> object_summary list" where
  "walk 0 h base prefix maxKeys st d results = results"
| "walk (Suc n) h base prefix maxKeys st d results =
     (if maxKeys \<le> length results then results
      else foldl (\<lambda>rs p. if maxKeys \<le> length rs then rs
                         else if fs_dir st p then walk n h base prefix maxKeys st p rs
                         else add_object h base prefix st p rs) results (dir_entries st d))"

definition walk_depth :: "file_system \<Rightarrow> nat" where
  "walk_depth st = Suc (foldr max (map length (fs_dirs st)) 0)"

definition fs_list_objects ::
    "storage_host \<Rightarrow> fs_config \<Rightarrow> string option \<Rightarrow> nat option \<Rightarrow> file_system \<Rightarrow> storage_error + object_summary list" where
  "fs_list_objects h cfg prefix maxKeys st =
     (let base = fc_root cfg; limit = (case maxKeys of None \<Rightarrow> 1000 | Some n \<Rightarrow> n)
      in if (is_file st base \<or> under_file st base) \<and> 0 < limit then Inl (FsError ENOTDIR)
         else Inr (take limit (walk (walk_depth st) h base prefix limit st base [])))"

definition fs_list ::
    "storage_host \<Rightarrow> fs_config \<Rightarrow> string option \<Rightarrow> nat option \<Rightarrow> file_system \<Rightarrow> storage_error + string list" where
  "fs_list h cfg prefix maxKeys st = map_sum id (map os_key) (fs_list_objects h cfg prefix maxKeys st)"

section \<open>Signed requests\<close>

record signed_options =
  so_key :: string
  so_expiresIn :: "int option"

record signed_request =
  sr_expiresAt :: string
  sr_method :: fs_method
  sr_objectKey :: string
  sr_provider :: string
  sr_url :: string

definition DEFAULT_SIGNED_URL_EXPIRY_SECONDS :: int where "DEFAULT_SIGNED_URL_EXPIRY_SECONDS = 3600"

definition signed_expiry :: "int \<Rightarrow> signed_options \<Rightarrow> int" where
  "signed_expiry now opts =
     (let expiresIn = (case so_expiresIn opts of None \<Rightarrow> DEFAULT_SIGNED_URL_EXPIRY_SECONDS | Some e \<Rightarrow> e)
      in (now + expiresIn * MILLISECONDS_IN_SECOND) div MILLISECONDS_IN_SECOND)"

definition signed_search :: "storage_host \<Rightarrow> fs_config \<Rightarrow> int \<Rightarrow> fs_method \<Rightarrow> signed_options \<Rightarrow> string" where
  "signed_search h cfg now method opts =
     (let exp = signed_expiry now opts
      in sh_search h [(''exp'', print_int exp), (''key'', so_key opts),
           (''sig'', sign_fs_request h (fc_signingSecret cfg) method (so_key opts) exp)])"

definition create_signed_request :: "storage_host \<Rightarrow> fs_config \<Rightarrow> int \<Rightarrow> fs_method \<Rightarrow> signed_options \<Rightarrow> signed_request" where
  "create_signed_request h cfg now method opts =
     (let route = FS_STORAGE_ROUTE @ ''?'' @ signed_search h cfg now method opts
      in \<lparr>sr_expiresAt = sh_iso h (signed_expiry now opts * MILLISECONDS_IN_SECOND), sr_method = method,
          sr_objectKey = so_key opts, sr_provider = ''FS'',
          sr_url = (if fc_publicBaseUrl cfg = [] then route else fc_publicBaseUrl cfg @ route)\<rparr>)"

definition signed_url_for_upload :: "storage_host \<Rightarrow> fs_config \<Rightarrow> int \<Rightarrow> signed_options \<Rightarrow> signed_request" where
  "signed_url_for_upload h cfg now opts = create_signed_request h cfg now PutObject opts"

definition signed_url_for_download :: "storage_host \<Rightarrow> fs_config \<Rightarrow> int \<Rightarrow> signed_options \<Rightarrow> signed_request" where
  "signed_url_for_download h cfg now opts = create_signed_request h cfg now GetObject opts"

section \<open>The HTTP end point\<close>

definition MAX_UPLOAD_BYTES :: nat where "MAX_UPLOAD_BYTES = 64 * 1024 * 1024"

record http_request =
  hq_method :: string
  hq_pathname :: string
  hq_search :: string
  hq_body :: "bytes list"

record http_response =
  hs_status :: nat
  hs_body :: bytes

definition is_fs_storage_request :: "string \<Rightarrow> bool" where
  "is_fs_storage_request pathname = (pathname = FS_STORAGE_ROUTE)"

definition send_text :: "nat \<Rightarrow> string \<Rightarrow> http_response" where
  "send_text status body = \<lparr>hs_status = status, hs_body = utf8 body\<rparr>"

fun read_upload_body :: "nat \<Rightarrow> bytes list \<Rightarrow> bytes list \<Rightarrow> storage_error + bytes" where
  "read_upload_body totalBytes chunks [] = Inr (concat chunks)"
| "read_upload_body totalBytes chunks (chunk # rest) =
     (if MAX_UPLOAD_BYTES < totalBytes + length chunk then Inl UploadTooLarge
      else read_upload_body (totalBytes + length chunk) (chunks @ [chunk]) rest)"

text \<open>\<open>Number(null)\<close> is zero.\<close>

definition fs_authorize :: "storage_host \<Rightarrow> fs_config \<Rightarrow> int \<Rightarrow> fs_method \<Rightarrow> http_request \<Rightarrow> string option" where
  "fs_authorize h cfg now method rq =
     (let params = sh_params h (hq_search rq);
          exp = (case map_of params ''exp'' of None \<Rightarrow> Some 0 | Some s \<Rightarrow> sh_number h s)
      in case (map_of params ''key'', map_of params ''sig'') of
           (Some key, Some signature) \<Rightarrow>
             (if verify_fs_request h now (fc_signingSecret cfg) method key exp signature then Some key else None)
         | _ \<Rightarrow> None)"

definition storage_error_message :: "storage_host \<Rightarrow> storage_error \<Rightarrow> string" where
  "storage_error_message h e =
     (case e of EscapesRoot key \<Rightarrow> ''Storage key escapes the FS root: '' @ key
      | FsError f \<Rightarrow> sh_message h f | ObjectNotFound key \<Rightarrow> ''Object not found: '' @ key
      | UploadTooLarge \<Rightarrow> ''Upload body is too large.'')"

text \<open>\<open>PUT\<close>: directory, body, temporary file, rename.\<close>

definition put_object :: "fs_config \<Rightarrow> int \<Rightarrow> string \<Rightarrow> bytes list \<Rightarrow> file_system \<Rightarrow> (storage_error + unit) \<times> file_system" where
  "put_object cfg now key body st =
     (case resolve_fs_object_path (fc_root cfg) key of
        Inl e \<Rightarrow> (Inl e, st)
      | Inr full \<Rightarrow>
          (case fs_mkdir (butlast full) st of
             Inl e \<Rightarrow> (Inl (FsError e), st)
           | Inr st1 \<Rightarrow>
               (case read_upload_body 0 [] body of
                  Inl e \<Rightarrow> (Inl e, st1)
                | Inr buffer \<Rightarrow>
                    (case fs_write_file now (tmp_path full ''.tmp-upload'') buffer st1 of
                       Inl e \<Rightarrow> (Inl (FsError e), st1)
                     | Inr st2 \<Rightarrow>
                         (case fs_rename (tmp_path full ''.tmp-upload'') full st2 of
                            Inl e \<Rightarrow> (Inl (FsError e), st2) | Inr st3 \<Rightarrow> (Inr (), st3))))))"

text \<open>\<open>None\<close> for a request that is not for this end point.\<close>

definition handle_fs_storage_request ::
    "storage_host \<Rightarrow> fs_config \<Rightarrow> int \<Rightarrow> http_request \<Rightarrow> file_system \<Rightarrow> http_response option \<times> file_system" where
  "handle_fs_storage_request h cfg now rq st =
     (if \<not> is_fs_storage_request (hq_pathname rq) then (None, st)
      else if hq_method rq = ''OPTIONS'' then (Some \<lparr>hs_status = 204, hs_body = []\<rparr>, st)
      else if hq_method rq = ''GET''
      then case fs_authorize h cfg now GetObject rq of
             None \<Rightarrow> (Some (send_text 403 ''Forbidden''), st)
           | Some key \<Rightarrow>
               (case resolve_fs_object_path (fc_root cfg) key of
                  Inl _ \<Rightarrow> (Some (send_text 404 ''Not found''), st)
                | Inr full \<Rightarrow>
                    (case fs_read_file full st of
                       Inl _ \<Rightarrow> (Some (send_text 404 ''Not found''), st)
                     | Inr data \<Rightarrow> (Some \<lparr>hs_status = 200, hs_body = data\<rparr>, st)))
      else if hq_method rq = ''PUT''
      then case fs_authorize h cfg now PutObject rq of
             None \<Rightarrow> (Some (send_text 403 ''Forbidden''), st)
           | Some key \<Rightarrow>
               (case put_object cfg now key (hq_body rq) st of
                  (Inl e, st') \<Rightarrow> (Some (send_text 500 (storage_error_message h e)), st')
                | (Inr _, st') \<Rightarrow> (Some \<lparr>hs_status = 200, hs_body = []\<rparr>, st'))
      else (Some (send_text 403 ''Forbidden''), st))"

end
