(* ===== verification/Fs_Laws.thy ===== *)
theory Fs_Laws
  imports Fs_Storage
begin

text \<open>
  What the filesystem storage keeps: keys stay under the root, an object store contract (the
  locale \<open>object_writer\<close>) that both ways of writing satisfy, the provider's and the HTTP end
  point's, and the end point grants nothing without a signature for exactly that request.
\<close>

section \<open>Keys stay under the root\<close>

definition object_path :: "fs_config \<Rightarrow> string \<Rightarrow> fpath \<Rightarrow> bool" where
  "object_path cfg key full \<longleftrightarrow> resolve_fs_object_path (fc_root cfg) key = Inr full"

lemma object_path_under:
  assumes "object_path cfg key full" and "\<forall>g\<in>set (fc_root cfg). plain_segment g"
  shows "(full = fc_root cfg \<or> starts_under (fc_root cfg) full) \<and> (\<forall>g\<in>set full. plain_segment g)"
  using assms resolve_path_plain by (auto simp: object_path_def resolve_fs_object_path_def Let_def split: if_splits)

section \<open>Writing a temporary file and renaming it\<close>

lemma tmp_path_simps:
  assumes "full \<noteq> []" and "suffix \<noteq> []"
  shows "butlast (tmp_path full suffix) = butlast full" "tmp_path full suffix \<noteq> []" "tmp_path full suffix \<noteq> full"
proof -
  show "butlast (tmp_path full suffix) = butlast full" "tmp_path full suffix \<noteq> []" by (simp_all add: tmp_path_def)
  show "tmp_path full suffix \<noteq> full"
  proof
    assume "tmp_path full suffix = full"
    then have "last (tmp_path full suffix) = last full" by simp
    with assms show False by (simp add: tmp_path_def)
  qed
qed

text \<open>The state after the three calls; \<open>tmp\<close> is a sibling of \<open>full\<close>.\<close>

lemma replaced_file:
  assumes ok: "fs_ok st" and mk: "fs_mkdir (butlast full) st = Inr st1" and wr: "fs_write_file now tmp data st1 = Inr st2"
    and rn: "fs_rename tmp full st2 = Inr st3" and tmp: "tmp \<noteq> full"
  shows "fs_ok st3" and "fs_file st3 full = Some (data, now)"
    and "p \<noteq> full \<Longrightarrow> p \<noteq> tmp \<Longrightarrow> fs_file st3 p = fs_file st p"
proof -
  have st2: "st2 = put_file tmp (data, now) st1" "\<not> fs_dir st1 tmp" "fs_dir st1 (butlast tmp)"
    using wr by (auto simp: fs_write_file_def split: if_splits)
  have ok2: "fs_ok st2" unfolding st2(1) using fs_ok_put[OF fs_ok_mkdir[OF ok mk] st2(2,3)] .
  have st3: "st3 = put_file full (data, now) (drop_file tmp st2)" "\<not> fs_dir st2 full" "fs_dir st2 (butlast full)"
    using rn st2(1) by (auto simp: fs_rename_def split: if_splits)
  show "fs_ok st3" unfolding st3(1) using st3(2,3) by (intro fs_ok_put fs_ok_drop ok2) simp_all
  show "fs_file st3 full = Some (data, now)" by (simp add: st3)
  show "fs_file st3 p = fs_file st p" if "p \<noteq> full" "p \<noteq> tmp"
    using that by (simp add: st3 st2(1) fs_mkdir_files[OF mk])
qed

text \<open>Nothing stands in the way of \<open>full\<close> and its temporary sibling.\<close>

definition writable :: "file_system \<Rightarrow> fpath \<Rightarrow> string \<Rightarrow> bool" where
  "writable st full suffix \<longleftrightarrow> full \<noteq> [] \<and> (\<forall>n<length full. \<not> is_file st (take n full))
     \<and> \<not> fs_dir st full \<and> \<not> fs_dir st (tmp_path full suffix)"

lemma writable_steps:
  assumes w: "writable st full suffix" and ne: "suffix \<noteq> []"
  shows "\<exists>st1 st2 st3. fs_mkdir (butlast full) st = Inr st1 \<and> fs_write_file now (tmp_path full suffix) data st1 = Inr st2
     \<and> fs_rename (tmp_path full suffix) full st2 = Inr st3"
proof -
  have full: "full \<noteq> []" using w by (simp add: writable_def)
  note tmp = tmp_path_simps[OF full ne]
  have "\<not> is_file st (take n (butlast full))" if "n \<le> length full - 1" for n
  proof -
    have "take n (butlast full) = take n full" using that by (simp add: butlast_conv_take take_take min_def)
    moreover have "n < length full" using that full by (cases full) auto
    ultimately show ?thesis using w by (simp add: writable_def)
  qed
  note free = this
  have "\<not> under_file st (butlast full)" using free by (auto simp: under_file_def list_ex_iff)
  moreover have "\<not> is_file st (butlast full)" using free[of "length full - 1"] by simp
  ultimately obtain st1 where mk: "fs_mkdir (butlast full) st = Inr st1" by (simp add: fs_mkdir_def)
  have "length (tmp_path full suffix) = length full" using full by (cases full) (auto simp: tmp_path_def)
  moreover have "length (take n (butlast full)) < length full" for n using full by (cases full) auto
  ultimately have "full \<noteq> take n (butlast full)" "tmp_path full suffix \<noteq> take n (butlast full)" for n
    by (metis less_irrefl)+
  then have dirs: "\<not> fs_dir st1 full" "\<not> fs_dir st1 (tmp_path full suffix)" "fs_dir st1 (butlast full)"
    using w unfolding fs_mkdir_dirs[OF mk] writable_def by (auto intro: exI[of _ "length full - 1"])
  have "fs_write_file now (tmp_path full suffix) data st1 = Inr (put_file (tmp_path full suffix) (data, now) st1)"
    using dirs tmp(1) by (simp add: fs_write_file_def)
  moreover have "\<exists>st3. fs_rename (tmp_path full suffix) full (put_file (tmp_path full suffix) (data, now) st1) = Inr st3"
    using dirs by (simp add: fs_rename_def)
  ultimately show ?thesis using mk by blast
qed

section \<open>The contract of a writer\<close>

text \<open>\<open>write now key data st\<close>; \<open>suffix\<close> names its temporary file.\<close>

locale object_writer =
  fixes cfg :: fs_config and suffix :: string and fits :: "bytes \<Rightarrow> bool" and "write" :: "int \<Rightarrow> string \<Rightarrow> bytes \<Rightarrow> file_system \<Rightarrow> (storage_error + unit) \<times> file_system"
  assumes steps: "object_path cfg key full \<Longrightarrow> write now key data st = (Inr (), st3) \<Longrightarrow>
      \<exists>st1 st2. fs_mkdir (butlast full) st = Inr st1 \<and> fs_write_file now (tmp_path full suffix) data st1 = Inr st2
        \<and> fs_rename (tmp_path full suffix) full st2 = Inr st3"
    and succeeds: "object_path cfg key full \<Longrightarrow> fits data \<Longrightarrow> fs_mkdir (butlast full) st = Inr st1 \<Longrightarrow>
      fs_write_file now (tmp_path full suffix) data st1 = Inr st2 \<Longrightarrow> fs_rename (tmp_path full suffix) full st2 = Inr st3 \<Longrightarrow>
      write now key data st = (Inr (), st3)"
    and suffix: "suffix \<noteq> []"
begin

lemma written:
  assumes "fs_ok st" and "object_path cfg key full" and "full \<noteq> []" and "write now key data st = (Inr (), st')"
  shows "fs_ok st'" and "fs_file st' full = Some (data, now)"
    and "p \<noteq> full \<Longrightarrow> p \<noteq> tmp_path full suffix \<Longrightarrow> fs_file st' p = fs_file st p"
proof -
  obtain st1 st2 where "fs_mkdir (butlast full) st = Inr st1" "fs_write_file now (tmp_path full suffix) data st1 = Inr st2"
      "fs_rename (tmp_path full suffix) full st2 = Inr st'"
    using steps[OF assms(2,4)] by blast
  note rules = replaced_file[OF assms(1) this tmp_path_simps(3)[OF assms(3) suffix]]
  show "fs_ok st'" "fs_file st' full = Some (data, now)" by (rule rules)+
  show "p \<noteq> full \<Longrightarrow> p \<noteq> tmp_path full suffix \<Longrightarrow> fs_file st' p = fs_file st p" by (rule rules)
qed

lemma write_succeeds:
  assumes "object_path cfg key full" and "writable st full suffix" and "fits data"
  shows "\<exists>st'. write now key data st = (Inr (), st')"
  using writable_steps[OF assms(2) suffix, of now data] succeeds[OF assms(1,3)] by blast

lemma last_write_wins:
  assumes "fs_ok st" and "object_path cfg key full" and "full \<noteq> []"
    and "write now key data st = (Inr (), st')" and "write now' key data' st' = (Inr (), st'')"
  shows "fs_file st'' full = Some (data', now')"
  using written[OF written(1)[OF assms(1-4)] assms(2,3,5)] by blast

end

lemma atomic_write_steps:
  "atomic_write now rnd full data st = (Inr (), st3) \<longleftrightarrow>
     (\<exists>st1 st2. fs_mkdir (butlast full) st = Inr st1 \<and> fs_write_file now (tmp_path full (''.tmp-'' @ rnd)) data st1 = Inr st2
        \<and> fs_rename (tmp_path full (''.tmp-'' @ rnd)) full st2 = Inr st3)"
  by (auto simp: atomic_write_def split: sum.splits)

interpretation provider: object_writer cfg "''.tmp-'' @ rnd" "\<lambda>_. True"
    "\<lambda>now key data st. fs_upload cfg now rnd key (UploadBytes data) st" for cfg rnd
  by unfold_locales (auto simp: object_path_def fs_upload_def upload_bytes_def atomic_write_steps)

text \<open>The end point receives a body in chunks that together are within the limit.\<close>

lemma read_upload_body_ok:
  "totalBytes + length (concat body) \<le> MAX_UPLOAD_BYTES \<Longrightarrow> read_upload_body totalBytes chunks body = Inr (concat (chunks @ body))"
  by (induction body arbitrary: totalBytes chunks) auto

lemma read_upload_body_concat:
  "read_upload_body totalBytes chunks body = Inr b \<Longrightarrow> b = concat (chunks @ body) \<and> (body \<noteq> [] \<longrightarrow> totalBytes + length (concat body) \<le> MAX_UPLOAD_BYTES)"
proof (induction body arbitrary: totalBytes chunks)
  case Nil
  then show ?case by simp
next
  case (Cons c body)
  then have "read_upload_body (totalBytes + length c) (chunks @ [c]) body = Inr b" "totalBytes + length c \<le> MAX_UPLOAD_BYTES"
    by (auto split: if_splits)
  with Cons.IH[of "totalBytes + length c" "chunks @ [c]"] show ?case by (cases body) auto
qed

lemma put_object_steps:
  "object_path cfg key full \<Longrightarrow> put_object cfg now key body st = (Inr (), st3) \<longleftrightarrow>
     (\<exists>st1 st2 buffer. fs_mkdir (butlast full) st = Inr st1 \<and> read_upload_body 0 [] body = Inr buffer
        \<and> fs_write_file now (tmp_path full ''.tmp-upload'') buffer st1 = Inr st2
        \<and> fs_rename (tmp_path full ''.tmp-upload'') full st2 = Inr st3)"
  by (auto simp: put_object_def object_path_def split: sum.splits)

text \<open>A body counts as one chunk.\<close>

lemma put_object_concat:
  assumes "object_path cfg key full" and "put_object cfg now key body st = (Inr (), st')"
  shows "put_object cfg now key [concat body] st = (Inr (), st')"
proof -
  obtain st1 st2 buffer where steps: "fs_mkdir (butlast full) st = Inr st1" "read_upload_body 0 [] body = Inr buffer"
      "fs_write_file now (tmp_path full ''.tmp-upload'') buffer st1 = Inr st2"
      "fs_rename (tmp_path full ''.tmp-upload'') full st2 = Inr st'"
    using assms(2) unfolding put_object_steps[OF assms(1)] by blast
  have "read_upload_body 0 [] [concat body] = Inr buffer"
    using read_upload_body_concat[OF steps(2)] by (cases body) auto
  with steps show ?thesis unfolding put_object_steps[OF assms(1)] by blast
qed

interpretation endpoint: object_writer cfg "''.tmp-upload''" "\<lambda>data. length data \<le> MAX_UPLOAD_BYTES"
    "\<lambda>now key data st. put_object cfg now key [data] st" for cfg
proof unfold_locales
  fix key full now data st st3
  assume path: "object_path cfg key full" and run: "put_object cfg now key [data] st = (Inr (), st3)"
  then obtain buffer where "read_upload_body 0 [] [data] = Inr buffer" and rest: "\<exists>st1 st2. fs_mkdir (butlast full) st = Inr st1
        \<and> fs_write_file now (tmp_path full ''.tmp-upload'') buffer st1 = Inr st2
        \<and> fs_rename (tmp_path full ''.tmp-upload'') full st2 = Inr st3"
    unfolding put_object_steps[OF path] by blast
  then have "buffer = data" using read_upload_body_concat by fastforce
  with rest show "\<exists>st1 st2. fs_mkdir (butlast full) st = Inr st1
        \<and> fs_write_file now (tmp_path full ''.tmp-upload'') data st1 = Inr st2
        \<and> fs_rename (tmp_path full ''.tmp-upload'') full st2 = Inr st3" by blast
next
  fix key full data st st1 now st2 st3
  assume path: "object_path cfg key full" and fits: "length (data :: bytes) \<le> MAX_UPLOAD_BYTES"
    and steps: "fs_mkdir (butlast full) st = Inr st1" "fs_write_file now (tmp_path full ''.tmp-upload'') data st1 = Inr st2"
      "fs_rename (tmp_path full ''.tmp-upload'') full st2 = Inr st3"
  have "read_upload_body 0 [] [data] = Inr data" using fits by simp
  with steps show "put_object cfg now key [data] st = (Inr (), st3)" unfolding put_object_steps[OF path] by blast
qed simp

section \<open>Listing\<close>

lemma walk_sound:
  assumes "\<forall>ob\<in>set results. P ob"
    and P: "\<And>p f. fs_file st p = Some f \<Longrightarrow> listed_key prefix (relative_key base p) \<Longrightarrow>
      P \<lparr>os_key = relative_key base p, os_sizeBytes = length (fst f), os_updatedAt = sh_iso h (snd f)\<rparr>"
  shows "\<forall>ob\<in>set (walk n h base prefix maxKeys st d results). P ob"
  using assms(1)
proof (induction n arbitrary: d results)
  case 0
  then show ?case by simp
next
  case (Suc n)
  let ?step = "\<lambda>rs p. if maxKeys \<le> length rs then rs
      else if fs_dir st p then walk n h base prefix maxKeys st p rs else add_object h base prefix st p rs"
  have "\<forall>ob\<in>set (foldl ?step rs ps). P ob" if "\<forall>ob\<in>set rs. P ob" for rs ps
    using that
  proof (induction ps arbitrary: rs)
    case Nil
    then show ?case by simp
  next
    case (Cons p ps)
    have "\<forall>ob\<in>set (add_object h base prefix st p rs). P ob"
      using Cons.prems P by (auto simp: add_object_def split: option.split)
    then have "\<forall>ob\<in>set (?step rs p). P ob" using Suc.IH[OF Cons.prems] Cons.prems by simp
    then show ?case using Cons.IH by simp
  qed
  with Suc.prems show ?case by simp
qed

text \<open>What is listed is a file whose key has the prefix and is neither a lock nor a temporary file,
  and there are at most as many as asked for.\<close>

lemma list_objects_sound:
  assumes "fs_list_objects h cfg prefix maxKeys st = Inr objects"
  shows "length objects \<le> (case maxKeys of None \<Rightarrow> 1000 | Some n \<Rightarrow> n)
     \<and> (\<forall>ob\<in>set objects. listed_key prefix (os_key ob) \<and> (\<exists>p f. fs_file st p = Some f
          \<and> os_key ob = relative_key (fc_root cfg) p \<and> os_sizeBytes ob = length (fst f)))"
proof -
  let ?limit = "case maxKeys of None \<Rightarrow> 1000 | Some n \<Rightarrow> n"
  have objects: "objects = take ?limit (walk (walk_depth st) h (fc_root cfg) prefix ?limit st (fc_root cfg) [])"
    using assms by (auto simp: fs_list_objects_def Let_def split: if_splits)
  have "\<forall>ob\<in>set (walk (walk_depth st) h (fc_root cfg) prefix ?limit st (fc_root cfg) []).
      listed_key prefix (os_key ob) \<and> (\<exists>p f. fs_file st p = Some f
          \<and> os_key ob = relative_key (fc_root cfg) p \<and> os_sizeBytes ob = length (fst f))"
  proof (rule walk_sound)
    fix p f
    assume "fs_file st p = Some f" "listed_key prefix (relative_key (fc_root cfg) p)"
    then show "listed_key prefix (os_key \<lparr>os_key = relative_key (fc_root cfg) p, os_sizeBytes = length (fst f),
        os_updatedAt = sh_iso h (snd f)\<rparr>) \<and> (\<exists>q g. fs_file st q = Some g
          \<and> os_key \<lparr>os_key = relative_key (fc_root cfg) p, os_sizeBytes = length (fst f), os_updatedAt = sh_iso h (snd f)\<rparr>
            = relative_key (fc_root cfg) q
          \<and> os_sizeBytes \<lparr>os_key = relative_key (fc_root cfg) p, os_sizeBytes = length (fst f), os_updatedAt = sh_iso h (snd f)\<rparr>
            = length (fst g))"
      unfolding object_summary.select_convs by blast
  qed simp
  then show ?thesis unfolding objects by (auto dest: in_set_takeD)
qed

text \<open>A stored object whose key ends in \<open>.lock\<close> is never listed.\<close>

lemma lock_never_listed:
  assumes "fs_list h cfg prefix maxKeys st = Inr keys"
  shows "''app.lock'' \<notin> set keys"
proof
  assume "''app.lock'' \<in> set keys"
  then obtain objects ob where "fs_list_objects h cfg prefix maxKeys st = Inr objects" "ob \<in> set objects" "os_key ob = ''app.lock''"
    using assms by (cases "fs_list_objects h cfg prefix maxKeys st") (auto simp: fs_list_def)
  then have "listed_key prefix ''app.lock''" using list_objects_sound[of h cfg prefix maxKeys st objects] by metis
  then show False by (simp add: listed_key_def ends_with_def starts_with_def)
qed

text \<open>Two overlapping uploads of one key share the temporary file: the first to rename publishes
  the other's body, and the other fails.\<close>

lemma overlapping_puts:
  assumes "fs_write_file now1 tmp body1 st = Inr st1" and "fs_write_file now2 tmp body2 st1 = Inr st2"
    and "fs_rename tmp full st2 = Inr st3" and "tmp \<noteq> full"
  shows "fs_file st3 full = Some (body2, now2) \<and> fs_rename tmp full st3 = Inl ENOENT"
  using assms by (auto simp: fs_write_file_def fs_rename_def split: if_splits)

section \<open>Properties\<close>

lemma resolved_ne: "fc_root cfg \<noteq> [] \<Longrightarrow> object_path cfg key full \<Longrightarrow> full \<noteq> []"
  by (auto simp: object_path_def resolve_fs_object_path_def Let_def starts_under_def split: if_splits)

text \<open>C40: an object that nothing stands in the way of is stored: the provider then reads it back,
  says that it exists, and no other object but the temporary sibling has changed; after a delete
  it is not found. The file system stays well formed.\<close>

theorem fs_upload_download:
  assumes "fs_ok st" and "fc_root cfg \<noteq> []" and "object_path cfg key full" and "writable st full (''.tmp-'' @ rnd)"
    and "\<And>s. sh_decode h (utf8 s) = s"
  shows "\<exists>st'. fs_upload cfg now rnd key (UploadText s) st = (Inr (), st') \<and> fs_ok st'
    \<and> fs_download h cfg key st' = Inr s \<and> fs_exists cfg key st' = Inr True
    \<and> (\<forall>key' p b. object_path cfg key' p \<and> p \<noteq> full \<and> p \<noteq> tmp_path full (''.tmp-'' @ rnd)
         \<and> fs_download h cfg key' st = Inr b \<longrightarrow> fs_download h cfg key' st' = Inr b)
    \<and> (\<exists>st''. fs_delete cfg key st' = (Inr (), st'') \<and> fs_ok st'' \<and> fs_exists cfg key st'' = Inr False
         \<and> fs_download h cfg key st'' = Inl (ObjectNotFound key))"
proof -
  have same: "fs_upload cfg now rnd key (UploadText s) st = fs_upload cfg now rnd key (UploadBytes (utf8 s)) st"
    by (simp add: fs_upload_def upload_bytes_def split: sum.split)
  have ne: "full \<noteq> []" by (rule resolved_ne[OF assms(2,3)])
  obtain st' where up: "fs_upload cfg now rnd key (UploadBytes (utf8 s)) st = (Inr (), st')"
    using provider.write_succeeds[OF assms(3,4)] by blast
  note w = provider.written[OF assms(1,3) ne up]
  have path: "resolve_fs_object_path (fc_root cfg) key = Inr full" using assms(3) by (simp add: object_path_def)
  have read: "fs_download h cfg key st' = Inr s" "fs_exists cfg key st' = Inr True"
    using w(2) assms(5) by (simp_all add: fs_download_def fs_exists_def path fs_read_file_def fs_access_def is_file_def)
  have other: "fs_download h cfg key' st' = Inr b"
    if "object_path cfg key' p" "p \<noteq> full" "p \<noteq> tmp_path full (''.tmp-'' @ rnd)" "fs_download h cfg key' st = Inr b" for key' p b
    using that w(3)[OF that(2,3)]
    by (auto simp: fs_download_def object_path_def fs_read_file_def split: option.splits sum.splits fs_error.splits)
  have del: "fs_delete cfg key st' = (Inr (), drop_file full st')"
    using w(2) by (simp add: fs_delete_def path fs_unlink_def is_file_def)
  have "\<not> fs_dir st' full" "\<not> under_file st' full"
  proof -
    have isf: "is_file st' full" using w(2) by (simp add: is_file_def)
    then show dir: "\<not> fs_dir st' full" using w(1) by (auto simp: fs_ok_def)
    have "\<not> is_file st' (take n full)" if "n < length full" for n
    proof -
      have "fs_dir st' (butlast full)" using w(1) isf by (auto simp: fs_ok_def)
      then have "fs_dir st' (take n (butlast full))" using fs_dir_take[OF w(1)] by blast
      moreover have "take n (butlast full) = take n full" using that by (cases full rule: rev_cases) auto
      ultimately show ?thesis using w(1) by (auto simp: fs_ok_def)
    qed
    then show "\<not> under_file st' full" by (auto simp: under_file_def list_ex_iff)
  qed
  then have gone: "fs_exists cfg key (drop_file full st') = Inr False" "fs_download h cfg key (drop_file full st') = Inl (ObjectNotFound key)"
    by (auto simp: fs_exists_def fs_download_def path fs_access_def fs_read_file_def missing_def under_file_def list_ex_iff is_file_def)
  show ?thesis
    unfolding same using up w(1) read other del gone fs_ok_drop[OF w(1)] by blast
qed

text \<open>What the end point asks of a request: a signature made with the secret over exactly its method,
  its key and a time that has not passed.\<close>

definition signed_for :: "storage_host \<Rightarrow> fs_config \<Rightarrow> int \<Rightarrow> http_request \<Rightarrow> fs_method \<Rightarrow> string \<Rightarrow> bool" where
  "signed_for h cfg now rq m key \<longleftrightarrow> hq_method rq = method_name m
     \<and> (\<exists>e sig. map_of (sh_params h (hq_search rq)) ''key'' = Some key \<and> map_of (sh_params h (hq_search rq)) ''sig'' = Some sig
     \<and> now \<le> e * MILLISECONDS_IN_SECOND
     \<and> sig = sh_hmac h (fc_signingSecret cfg) (hq_method rq @ '':'' @ key @ '':'' @ print_int e))"

text \<open>A plain key names the file of its segments below the root.\<close>

definition plain_key :: "string \<Rightarrow> bool" where
  "plain_key key \<longleftrightarrow> (\<forall>g\<in>set (split_on (CHR ''/'') key). plain_segment g) \<and> hd key \<noteq> CHR 0x5C"

lemma plain_key_path:
  assumes "plain_key key" "object_path cfg key full"
  shows "full = fc_root cfg @ split_on (CHR ''/'') key"
proof -
  have empty: "[] \<notin> set (split_on (CHR ''/'') key)" using assms(1) unfolding plain_key_def plain_segment_def by blast
  then obtain c cs where key: "key = c # cs" by (cases key) simp_all
  have "c \<noteq> CHR ''/''" using empty by (auto simp: key)
  moreover have "c \<noteq> CHR 0x5C" using assms(1) by (simp add: plain_key_def key)
  ultimately have "dropWhile (\<lambda>c. c = CHR ''/'' \<or> c = CHR 0x5C) key = key" by (simp add: key)
  moreover have "resolve_path (fc_root cfg) key = fc_root cfg @ split_on (CHR ''/'') key"
    unfolding resolve_path_def using norm_segments_plain[of _ True "rev (fc_root cfg)"] assms(1) by (simp add: plain_key_def)
  ultimately show ?thesis
    using assms(2) by (auto simp: object_path_def resolve_fs_object_path_def Let_def split: if_splits)
qed

lemma verify_Some:
  "verify_fs_request h now secret m key exp sig \<Longrightarrow>
     \<exists>e. \<not> e * MILLISECONDS_IN_SECOND < now \<and> sig = sh_hmac h secret (method_name m @ '':'' @ key @ '':'' @ print_int e)"
  by (cases exp) (auto simp: verify_fs_request_def sign_fs_request_def utf8_inject split: if_splits)

lemma authorize_Some:
  assumes "fs_authorize h cfg now m rq = Some key" and "hq_method rq = method_name m"
  shows "signed_for h cfg now rq m key"
proof -
  obtain sig where sig: "map_of (sh_params h (hq_search rq)) ''key'' = Some key" "map_of (sh_params h (hq_search rq)) ''sig'' = Some sig"
      and ver: "verify_fs_request h now (fc_signingSecret cfg) m key
        (case map_of (sh_params h (hq_search rq)) ''exp'' of None \<Rightarrow> Some 0 | Some s \<Rightarrow> sh_number h s) sig"
    using assms(1) unfolding fs_authorize_def Let_def by (auto split: option.splits if_splits)
  then obtain e where "\<not> e * MILLISECONDS_IN_SECOND < now"
      "sig = sh_hmac h (fc_signingSecret cfg) (method_name m @ '':'' @ key @ '':'' @ print_int e)"
    using verify_Some by blast
  with sig assms(2) show ?thesis unfolding signed_for_def by (metis not_le)
qed

text \<open>How a PUT may end after its directories are made: before the temporary file, with it, or done.\<close>

lemma put_object_ends:
  assumes "object_path cfg key full" "fs_mkdir (butlast full) st = Inr st1" "put_object cfg now key body st = (r, st')"
  shows "st' = st1 \<and> isl r \<or> (\<exists>x. st' = put_file (tmp_path full ''.tmp-upload'') x st1) \<and> isl r
    \<or> (\<exists>x y. st' = put_file full y (drop_file (tmp_path full ''.tmp-upload'') (put_file (tmp_path full ''.tmp-upload'') x st1))) \<and> r = Inr ()"
proof -
  have path: "resolve_fs_object_path (fc_root cfg) key = Inr full" using assms(1) by (simp add: object_path_def)
  show ?thesis
  proof (cases "read_upload_body 0 [] body")
    case (Inl e)
    with assms show ?thesis by (simp add: put_object_def path) force
  next
    case (Inr buffer)
    show ?thesis
    proof (cases "fs_write_file now (tmp_path full ''.tmp-upload'') buffer st1")
      case (Inl e)
      with assms Inr show ?thesis by (simp add: put_object_def path) force
    next
      case wr: (Inr st2)
      then have st2: "st2 = put_file (tmp_path full ''.tmp-upload'') (buffer, now) st1" by (simp add: fs_write_file_def split: if_splits)
      show ?thesis
      proof (cases "fs_rename (tmp_path full ''.tmp-upload'') full st2")
        case (Inl e)
        with assms Inr wr st2 show ?thesis by (simp add: put_object_def path) force
      next
        case done1: (Inr st3)
        then have "\<exists>y. st3 = put_file full y (drop_file (tmp_path full ''.tmp-upload'') st2)"
          by (simp add: fs_rename_def split: option.splits if_splits) force
        moreover have "st' = st3" "r = Inr ()" using assms Inr wr done1 by (simp_all add: put_object_def path)
        ultimately show ?thesis using st2 by blast
      qed
    qed
  qed
qed

text \<open>Whatever a PUT comes to, it leaves every file but its own and the temporary sibling, and the
  directories; it makes at most the ones above its file. A PUT that fails leaves its own file too.\<close>

lemma put_object_frame:
  assumes "object_path cfg key full" and "put_object cfg now key body st = (r, st')"
  shows "p \<noteq> tmp_path full ''.tmp-upload'' \<Longrightarrow> p \<noteq> full \<or> isl r \<Longrightarrow> fs_file st' p = fs_file st p"
    and "(fs_dir st q \<longrightarrow> fs_dir st' q) \<and> (fs_dir st' q \<longrightarrow> fs_dir st q \<or> (\<exists>n. q = take n (butlast full)))"
proof -
  have dir_put: "fs_dir (put_file a b s) = fs_dir s" "fs_dir (drop_file a s) = fs_dir s" for a b s
    by (simp_all add: put_file_def drop_file_def fs_dir_def fun_eq_iff)
  have file_put: "fs_file (put_file a b s) c = (if c = a then Some b else fs_file s c)"
    "fs_file (drop_file a s) c = (if c = a then None else fs_file s c)" for a b c s
    by (simp_all add: put_file_def drop_file_def fs_file_def)
  have "(p \<noteq> tmp_path full ''.tmp-upload'' \<and> (p \<noteq> full \<or> isl r) \<longrightarrow> fs_file st' p = fs_file st p)
    \<and> (fs_dir st q \<longrightarrow> fs_dir st' q) \<and> (fs_dir st' q \<longrightarrow> fs_dir st q \<or> (\<exists>n. q = take n (butlast full)))"
  proof (cases "fs_mkdir (butlast full) st")
    case (Inl e)
    with assms show ?thesis by (simp add: put_object_def object_path_def)
  next
    case (Inr st1)
    have "fs_dir st' q = fs_dir st1 q" "p \<noteq> tmp_path full ''.tmp-upload'' \<and> (p \<noteq> full \<or> isl r) \<longrightarrow> fs_file st' p = fs_file st1 p"
      using put_object_ends[OF assms(1) Inr assms(2)] by (auto simp: dir_put file_put)
    then show ?thesis using fs_mkdir_files[OF Inr] fs_mkdir_dirs[OF Inr] by auto
  qed
  then show "p \<noteq> tmp_path full ''.tmp-upload'' \<Longrightarrow> p \<noteq> full \<or> isl r \<Longrightarrow> fs_file st' p = fs_file st p"
    and "(fs_dir st q \<longrightarrow> fs_dir st' q) \<and> (fs_dir st' q \<longrightarrow> fs_dir st q \<or> (\<exists>n. q = take n (butlast full)))"
    by blast+
qed

text \<open>C36: the end point answers 200 or touches the file system only for a request that carries a
  signature made with the secret over exactly its method, its key and a time not yet past. Then what
  it reads or writes is the file that this key names: below the root, for a plain key the one of its
  segments. A GET changes nothing and returns the file. A PUT that answers 200 has replaced it by the
  body; any PUT leaves all other files but the temporary sibling, one that fails leaves the file itself,
  and no directories change but those made above the file.\<close>

theorem fs_http_authorized:
  assumes "fs_ok st" and "fc_root cfg \<noteq> []" and "\<forall>g\<in>set (fc_root cfg). plain_segment g"
    and "handle_fs_storage_request h cfg now rq st = (Some resp, st')" and "hs_status resp = 200 \<or> st' \<noteq> st"
  shows "\<exists>m key full. signed_for h cfg now rq m key
     \<and> object_path cfg key full \<and> (plain_key key \<longrightarrow> full = fc_root cfg @ split_on (CHR ''/'') key)
     \<and> (full = fc_root cfg \<or> starts_under (fc_root cfg) full) \<and> (\<forall>g\<in>set full. plain_segment g)
     \<and> (m = GetObject \<longrightarrow> st' = st \<and> map_option fst (fs_file st full) = Some (hs_body resp))
     \<and> (m = PutObject \<longrightarrow>
          (if hs_status resp = 200 then fs_file st' full = Some (concat (hq_body rq), now) else fs_file st' full = fs_file st full)
          \<and> (\<forall>p. p \<noteq> full \<and> p \<noteq> tmp_path full ''.tmp-upload'' \<longrightarrow> fs_file st' p = fs_file st p)
          \<and> (\<forall>q. (fs_dir st q \<longrightarrow> fs_dir st' q) \<and> (fs_dir st' q \<longrightarrow> fs_dir st q \<or> (\<exists>n. q = take n (butlast full)))))"
proof (cases "hq_method rq = ''GET''")
  case True
  with assms(4,5) obtain key where auth: "fs_authorize h cfg now GetObject rq = Some key"
    by (auto simp: handle_fs_storage_request_def send_text_def split: if_splits option.splits)
  with True assms(4,5) obtain full where path: "object_path cfg key full" and "fs_read_file full st = Inr (hs_body resp)" "st' = st"
    by (auto simp: handle_fs_storage_request_def send_text_def object_path_def split: if_splits sum.splits)
  moreover from this have "map_option fst (fs_file st full) = Some (hs_body resp)"
    by (auto simp: fs_read_file_def split: option.splits)
  ultimately show ?thesis
    using authorize_Some[OF auth] object_path_under[OF path assms(3)] plain_key_path[OF _ path] True
    by (intro exI[of _ GetObject] exI[of _ key] exI[of _ full]) (simp add: method_name_def)
next
  case False
  with assms(4,5) obtain key where put: "hq_method rq = ''PUT''" and auth: "fs_authorize h cfg now PutObject rq = Some key"
    by (auto simp: handle_fs_storage_request_def send_text_def split: if_splits option.splits)
  obtain r where run: "put_object cfg now key (hq_body rq) st = (r, st')" and status: "hs_status resp = 200 \<longleftrightarrow> r = Inr ()"
    using put auth assms(4)
    by (auto simp: handle_fs_storage_request_def send_text_def split: if_splits prod.splits sum.splits)
  have "\<exists>full. object_path cfg key full"
  proof (rule ccontr)
    assume no: "\<not> (\<exists>full. object_path cfg key full)"
    then obtain e where "put_object cfg now key (hq_body rq) st = (Inl e, st)"
      by (cases "resolve_fs_object_path (fc_root cfg) key") (auto simp: object_path_def put_object_def)
    with run status assms(5) show False by auto
  qed
  then obtain full where path: "object_path cfg key full" by blast
  have ne: "full \<noteq> []" by (rule resolved_ne[OF assms(2) path])
  note frame = put_object_frame[OF path run]
  have "fs_file st' full = Some (concat (hq_body rq), now)" if "hs_status resp = 200"
    using put_object_concat[OF path] run status that endpoint.written[OF assms(1) path ne] by blast
  moreover have "fs_file st' full = fs_file st full" if "hs_status resp \<noteq> 200"
  proof (rule frame(1))
    show "full \<noteq> tmp_path full ''.tmp-upload''" using tmp_path_simps(3)[OF ne, of "''.tmp-upload''"] by force
    show "full \<noteq> full \<or> isl r" using that status by (cases r) auto
  qed
  moreover have "\<forall>p. p \<noteq> full \<and> p \<noteq> tmp_path full ''.tmp-upload'' \<longrightarrow> fs_file st' p = fs_file st p"
    using frame(1) by blast
  moreover have "\<forall>q. (fs_dir st q \<longrightarrow> fs_dir st' q) \<and> (fs_dir st' q \<longrightarrow> fs_dir st q \<or> (\<exists>n. q = take n (butlast full)))"
    using frame(2) by blast
  ultimately show ?thesis
    using authorize_Some[OF auth] object_path_under[OF path assms(3)] plain_key_path[OF _ path] path put
    by (intro exI[of _ PutObject] exI[of _ key] exI[of _ full]) (simp add: method_name_def)
qed

section \<open>Witnesses\<close>

definition demo_storage_host :: storage_host where
  "demo_storage_host = \<lparr>sh_hmac = (\<lambda>secret m. secret @ m), sh_number = (\<lambda>s. Some 9), sh_search = (\<lambda>ps. []),
     sh_params = (\<lambda>s. [(''exp'', ''9''), (''key'', ''k''), (''sig'', ''sGET:k:9'')]), sh_decode = utf8_decode,
     sh_iso = (\<lambda>n. []), sh_message = (\<lambda>e. [])\<rparr>"

definition demo_fs_config :: fs_config where
  "demo_fs_config = \<lparr>fc_publicBaseUrl = [], fc_root = [''r''], fc_signingSecret = ''s''\<rparr>"

definition demo_fs :: file_system where
  "demo_fs = \<lparr>fs_files = [([''r'', ''k''], ([1], 0))], fs_dirs = [[''r'']]\<rparr>"

definition demo_get :: http_request where
  "demo_get = \<lparr>hq_method = ''GET'', hq_pathname = FS_STORAGE_ROUTE, hq_search = [], hq_body = []\<rparr>"

lemma demo_fs_ok: "fs_ok demo_fs"
  by (auto simp: fs_ok_def demo_fs_def is_file_def fs_file_def fs_dir_def split: if_splits)

lemma demo_object: "object_path demo_fs_config ''k'' [''r'', ''k'']" "object_path demo_fs_config ''n'' [''r'', ''n'']"
  by (simp_all add: object_path_def resolve_fs_object_path_def demo_fs_config_def resolve_path_def starts_under_def)

lemma demo_writable: "writable demo_fs [''r'', ''n''] (''.tmp-'' @ ''0'')"
  by (simp add: writable_def demo_fs_def is_file_def fs_file_def fs_dir_def tmp_path_def All_less_Suc numeral_2_eq_2)

theorem fs_upload_download_witness:
  "\<exists>st'. fs_upload demo_fs_config 0 ''0'' ''n'' (UploadText ''hello'') demo_fs = (Inr (), st')
     \<and> fs_download demo_storage_host demo_fs_config ''n'' st' = Inr ''hello''"
proof -
  have "fc_root demo_fs_config \<noteq> []" by (simp add: demo_fs_config_def)
  moreover have "sh_decode demo_storage_host (utf8 s) = s" for s
    by (simp add: demo_storage_host_def utf8_decode_utf8)
  ultimately show ?thesis
    using fs_upload_download[OF demo_fs_ok _ demo_object(2) demo_writable, of demo_storage_host 0 "''hello''"] by blast
qed

lemma nine: "print_int 9 = ''9''"
  by code_simp

theorem fs_http_authorized_witness:
  "signed_for demo_storage_host demo_fs_config 5 demo_get GetObject ''k''"
proof -
  have run: "handle_fs_storage_request demo_storage_host demo_fs_config 5 demo_get demo_fs = (Some \<lparr>hs_status = 200, hs_body = [1]\<rparr>, demo_fs)"
    using demo_object(1)
    by (simp add: handle_fs_storage_request_def demo_get_def is_fs_storage_request_def fs_authorize_def demo_storage_host_def
        verify_fs_request_def sign_fs_request_def demo_fs_config_def method_name_def nine
        MILLISECONDS_IN_SECOND_def object_path_def fs_read_file_def fs_file_def demo_fs_def)
  have "fc_root demo_fs_config \<noteq> []" "\<forall>g\<in>set (fc_root demo_fs_config). plain_segment g"
    by (simp_all add: demo_fs_config_def plain_segment_def)
  from fs_http_authorized[OF demo_fs_ok this run]
  obtain m key where signed: "signed_for demo_storage_host demo_fs_config 5 demo_get m key" by auto
  then have "method_name m = ''GET''" "key = ''k''"
    by (simp_all add: signed_for_def demo_get_def demo_storage_host_def)
  moreover from this have "m = GetObject" by (cases m) (simp_all add: method_name_def)
  ultimately show ?thesis using signed by simp
qed

end
