(* ===== verification/Event_Ingest.thy ===== *)
theory Event_Ingest
  imports Event_Writer Trpc
begin

text \<open>
  The HTTP way into the event queue: procedure \<open>ingestEvents\<close> of
  \<open>web/packages/helix-backend/src/device-mtls/fileRouter.ts\<close>, for a device whose identity comes
  from its client certificate, and what the writer stores of the events it accepts.
\<close>

definition MAX_EVENTS_PER_REQUEST :: nat where "MAX_EVENTS_PER_REQUEST = 500"
definition MAX_EVENT_FIELD_LENGTH :: nat where "MAX_EVENT_FIELD_LENGTH = 256"

record event_input =
  ei_msgId :: "string option"
  ei_payload :: "json option"
  ei_timestamp :: "string option"
  ei_type :: string

text \<open>\<open>z.string().trim().min(1).max(MAX_EVENT_FIELD_LENGTH)\<close>\<close>

definition z_field :: "string \<Rightarrow> trpc_error + string" where
  "z_field s = bind_sum (z_text s)
     (\<lambda>t. if MAX_EVENT_FIELD_LENGTH < length t then Inl (TRPC BAD_REQUEST ''too_big'') else Inr t)"

definition z_optional :: "(string \<Rightarrow> trpc_error + string) \<Rightarrow> string option \<Rightarrow> trpc_error + string option" where
  "z_optional f v = (case v of None \<Rightarrow> Inr None | Some s \<Rightarrow> bind_sum (f s) (\<lambda>t. Inr (Some t)))"

definition device_event_input_schema :: "event_input \<Rightarrow> trpc_error + event_input" where
  "device_event_input_schema e =
     bind_sum (z_optional z_field (ei_msgId e)) (\<lambda>msgId.
     bind_sum (z_optional z_text (ei_timestamp e)) (\<lambda>timestamp.
     bind_sum (z_field (ei_type e)) (\<lambda>ty.
       Inr \<lparr>ei_msgId = msgId, ei_payload = ei_payload e, ei_timestamp = timestamp, ei_type = ty\<rparr>)))"

fun z_array :: "event_input list \<Rightarrow> trpc_error + event_input list" where
  "z_array [] = Inr []"
| "z_array (e # es) = bind_sum (device_event_input_schema e) (\<lambda>e'. bind_sum (z_array es) (\<lambda>es'. Inr (e' # es')))"

definition ingest_events_input_schema ::
    "string option \<Rightarrow> event_input list \<Rightarrow> trpc_error + event_input list" where
  "ingest_events_input_schema deviceId events =
     (if deviceId = Some [] \<or> length events < 1 \<or> MAX_EVENTS_PER_REQUEST < length events
      then Inl (TRPC BAD_REQUEST ''events'') else z_array events)"

record ingest_output =
  io_accepted :: nat
  io_deviceId :: string
  io_results :: "(string \<times> string) list"

text \<open>\<open>uuid i\<close> is the identifier drawn for the \<open>i\<close>-th event when it has none of its own.\<close>

definition event_msg_id :: "(nat \<Rightarrow> string) \<Rightarrow> nat \<Rightarrow> event_input \<Rightarrow> string" where
  "event_msg_id uuid i e = (case ei_msgId e of None \<Rightarrow> uuid i | Some m \<Rightarrow> m)"

definition payload_or_empty :: "json option \<Rightarrow> json" where
  "payload_or_empty p = (case p of None \<Rightarrow> JObj [] | Some JNull \<Rightarrow> JObj [] | Some v \<Rightarrow> v)"

definition event_envelope :: "string \<Rightarrow> event_input \<Rightarrow> json" where
  "event_envelope msgId e = JObj ([(''msgId'', JStr msgId), (''payload'', payload_or_empty (ei_payload e))]
     @ (case ei_timestamp e of None \<Rightarrow> [] | Some t \<Rightarrow> [(''timestamp'', JStr t)]) @ [(''type'', JStr (ei_type e))])"

definition queued_event :: "string \<Rightarrow> string \<Rightarrow> string \<Rightarrow> event_input \<Rightarrow> raw_device_event" where
  "queued_event deviceId receivedAt msgId e =
     \<lparr>re_deviceId = deviceId, re_receivedAt = receivedAt, re_payload = json_print (event_envelope msgId e)\<rparr>"

definition ingest_events ::
    "string \<Rightarrow> (nat \<Rightarrow> string) \<Rightarrow> string \<Rightarrow> bool \<Rightarrow> string option \<Rightarrow> event_input list \<Rightarrow> event_queue
      \<Rightarrow> trpc_error + ingest_output \<times> event_queue" where
  "ingest_events ctxDeviceId uuid now acked deviceId events q =
     bind_sum (ingest_events_input_schema deviceId events) (\<lambda>events'.
       if deviceId \<noteq> None \<and> deviceId \<noteq> Some ctxDeviceId
       then Inl (TRPC FORBIDDEN ''deviceId does not match the client certificate.'')
       else let numbered = zip [0..<length events'] events';
                results = map (\<lambda>(i, e). (event_msg_id uuid i e, ''queued'')) numbered;
                batch = map (\<lambda>(i, e). queued_event ctxDeviceId now (event_msg_id uuid i e) e) numbered
         in case publish_batch acked batch q of
              Inl _ \<Rightarrow> Inl (TRPC INTERNAL_ERROR ''queue'')
            | Inr q' \<Rightarrow> Inr (\<lparr>io_accepted = length results, io_deviceId = ctxDeviceId, io_results = results\<rparr>, q'))"

section \<open>Validated input\<close>

definition event_input_ok :: "event_input \<Rightarrow> bool" where
  "event_input_ok e \<longleftrightarrow> trim (ei_type e) = ei_type e \<and> ei_type e \<noteq> [] \<and> length (ei_type e) \<le> MAX_EVENT_FIELD_LENGTH
     \<and> (\<forall>m. ei_msgId e = Some m \<longrightarrow> trim m = m \<and> m \<noteq> [] \<and> length m \<le> MAX_EVENT_FIELD_LENGTH)
     \<and> (\<forall>t. ei_timestamp e = Some t \<longrightarrow> trim t = t \<and> t \<noteq> [])"

lemma z_field_Inr: "z_field s = Inr t \<longleftrightarrow> t = trim s \<and> t \<noteq> [] \<and> length t \<le> MAX_EVENT_FIELD_LENGTH"
  by (auto simp: z_field_def bind_sum_Inr z_text_Inr split: if_splits)

lemma z_optional_Inr:
  "z_optional f v = Inr w \<longleftrightarrow> (v = None \<and> w = None) \<or> (\<exists>s t. v = Some s \<and> f s = Inr t \<and> w = Some t)"
  by (auto simp: z_optional_def bind_sum_Inr split: option.split)

text \<open>What the schema does to an accepted event.\<close>

definition trimmed_event :: "event_input \<Rightarrow> event_input" where
  "trimmed_event e = \<lparr>ei_msgId = map_option trim (ei_msgId e), ei_payload = ei_payload e,
     ei_timestamp = map_option trim (ei_timestamp e), ei_type = trim (ei_type e)\<rparr>"

lemma schema_Inr:
  "device_event_input_schema e = Inr e' \<Longrightarrow> e' = trimmed_event e \<and> event_input_ok e'"
  by (auto simp: device_event_input_schema_def bind_sum_Inr z_optional_Inr z_field_Inr z_text_Inr
      trimmed_event_def event_input_ok_def)

lemma z_array_Inr: "z_array es = Inr es' \<Longrightarrow> es' = map trimmed_event es \<and> (\<forall>e\<in>set es'. event_input_ok e)"
proof (induction es arbitrary: es')
  case Nil
  then show ?case by simp
next
  case (Cons e es)
  then obtain e' rest where "device_event_input_schema e = Inr e'" "z_array es = Inr rest" "es' = e' # rest"
    by (auto simp: bind_sum_Inr)
  with Cons.IH[of rest] schema_Inr[of e e'] show ?case by auto
qed

section \<open>What the writer makes of a queued event\<close>

lemma event_envelope_fields [simp]:
  "json_get (event_envelope m e) ''msgId'' = Some (JStr m)"
  "json_get (event_envelope m e) ''payload'' = Some (payload_or_empty (ei_payload e))"
  "json_get (event_envelope m e) ''timestamp'' = map_option JStr (ei_timestamp e)"
  "json_get (event_envelope m e) ''type'' = Some (JStr (ei_type e))"
  by (cases "ei_timestamp e"; simp add: event_envelope_def)+

lemma event_envelope_ok:
  "(\<And>v. ei_payload e = Some v \<Longrightarrow> json_ok v) \<Longrightarrow> json_ok (event_envelope m e)"
proof -
  assume "\<And>v. ei_payload e = Some v \<Longrightarrow> json_ok v"
  moreover have "json_ok (JObj [])" by simp
  ultimately have "json_ok (payload_or_empty (ei_payload e))"
    by (cases "ei_payload e") (auto simp: payload_or_empty_def simp del: json_ok.simps(2) split: json.split)
  then show ?thesis by (simp add: event_envelope_def split: option.split)
qed

lemma envelope_parses:
  assumes "\<And>v. ei_payload e = Some v \<Longrightarrow> json_ok v" and "event_input_ok e"
  shows "parse_device_event_envelope (json_print (event_envelope m e)) = Some (event_envelope m e)"
proof -
  have "is_device_event_envelope (event_envelope m e)"
    using assms(2) event_envelope_fields(4)[of m e]
    by (auto simp: is_device_event_envelope_def event_input_ok_def normalize_optional_string_def event_envelope_def
        split: option.split)
  then show ?thesis
    using json_parse_print[OF event_envelope_ok[of e m]] assms(1) by (simp add: parse_device_event_envelope_def)
qed

lemma payload_twice: "(case payload_or_empty p of JNull \<Rightarrow> JObj [] | v \<Rightarrow> v) = payload_or_empty p"
  by (auto simp: payload_or_empty_def split: option.split json.split)

definition ingested_row :: "(string \<Rightarrow> int option) \<Rightarrow> string \<Rightarrow> string \<Rightarrow> string \<Rightarrow> string \<Rightarrow> event_input \<Rightarrow> event_row" where
  "ingested_row date rid deviceId receivedAt msgId e =
     \<lparr>de_id = rid, de_deviceId = deviceId, de_eventType = ei_type e, de_eventPayload = payload_or_empty (ei_payload e),
      de_messageId = msgId, de_eventTimestamp = Option.bind (ei_timestamp e) date, de_receivedAt = date receivedAt\<rparr>"

lemma queued_event_row:
  assumes "\<And>v. ei_payload e = Some v \<Longrightarrow> json_ok v" and "event_input_ok e"
    and "trim deviceId = deviceId" "deviceId \<noteq> []" and "trim now = now" "now \<noteq> []" and "trim m = m" "m \<noteq> []"
  shows "to_row date rid (to_kafka (queued_event deviceId now m e)) = Some (ingested_row date rid deviceId now m e)"
proof -
  have "parse_event_timestamp date (normalize_optional_string (map_option JStr (ei_timestamp e)))
      = Option.bind (ei_timestamp e) date"
    using assms(2) by (cases "ei_timestamp e")
      (auto simp: event_input_ok_def parse_event_timestamp_def normalize_optional_string_def)
  then show ?thesis
    using envelope_parses[OF assms(1,2), of m] assms(3-8) payload_twice[of "ei_payload e"]
    by (simp add: to_row_def to_kafka_def queued_event_def header_value_def normalize_optional_string_def
        new_event_row_def ingested_row_def)
qed

text \<open>C34: a device may ingest only under the identity of its certificate. When a request is
  accepted, each of its events is queued, in order, and what the writer stores of it is a row of
  that device with the reported message id, the trimmed type, the payload (an empty object when
  there is none) and the times of the request. The identity, the receipt time and drawn ids are
  trimmed non-empty strings, payloads come from \<open>JSON.parse\<close>.\<close>

theorem ingested_event_stored:
  assumes "ingest_events ctxDeviceId uuid now acked deviceId events q = Inr (out, q')"
    and "trim ctxDeviceId = ctxDeviceId" and "ctxDeviceId \<noteq> []" and "trim now = now" and "now \<noteq> []"
    and "\<forall>i. trim (uuid i) = uuid i \<and> uuid i \<noteq> []"
    and "\<forall>e\<in>set events. \<forall>v. ei_payload e = Some v \<longrightarrow> json_ok v"
  shows "(deviceId = None \<or> deviceId = Some ctxDeviceId) \<and> length events \<le> MAX_EVENTS_PER_REQUEST
    \<and> io_accepted out = length events \<and> length (io_results out) = length events
    \<and> (\<exists>batch. eq_sends q' = eq_sends q @ [batch] \<and> length batch = length events
        \<and> (\<forall>i<length events. \<forall>date rid. to_row date rid (batch ! i) =
             Some (ingested_row date rid ctxDeviceId now (fst (io_results out ! i)) (trimmed_event (events ! i)))))"
proof -
  obtain events' where parsed: "ingest_events_input_schema deviceId events = Inr events'"
    and rest: "(if deviceId \<noteq> None \<and> deviceId \<noteq> Some ctxDeviceId
       then Inl (TRPC FORBIDDEN ''deviceId does not match the client certificate.'')
       else let numbered = zip [0..<length events'] events';
                results = map (\<lambda>(i, e). (event_msg_id uuid i e, ''queued'')) numbered;
                batch = map (\<lambda>(i, e). queued_event ctxDeviceId now (event_msg_id uuid i e) e) numbered
         in case publish_batch acked batch q of
              Inl _ \<Rightarrow> Inl (TRPC INTERNAL_ERROR ''queue'')
            | Inr q' \<Rightarrow> Inr (\<lparr>io_accepted = length results, io_deviceId = ctxDeviceId, io_results = results\<rparr>, q'))
       = Inr (out, q')"
    using assms(1) unfolding ingest_events_def bind_sum_Inr by blast
  have len: "events \<noteq> []" "length events \<le> MAX_EVENTS_PER_REQUEST" and arr: "z_array events = Inr events'"
    using parsed by (auto simp: ingest_events_input_schema_def split: if_splits)
  have ev: "events' = map trimmed_event events" "\<forall>e\<in>set events'. event_input_ok e" using z_array_Inr[OF arr] by auto
  let ?batch = "map (\<lambda>(i, e). queued_event ctxDeviceId now (event_msg_id uuid i e) e) (zip [0..<length events'] events')"
  let ?results = "map (\<lambda>(i, e). (event_msg_id uuid i e, ''queued'')) (zip [0..<length events'] events')"
  have dev: "deviceId = None \<or> deviceId = Some ctxDeviceId" using rest by (auto split: if_splits)
  with rest have pub: "publish_batch acked ?batch q = Inr q'"
    and out: "out = \<lparr>io_accepted = length ?results, io_deviceId = ctxDeviceId, io_results = ?results\<rparr>"
    by (auto simp: Let_def split: if_splits sum.splits)
  have ne: "?batch \<noteq> []" using len ev by (cases events) auto
  have row: "to_row date rid (map to_kafka ?batch ! i) =
      Some (ingested_row date rid ctxDeviceId now (fst (?results ! i)) (trimmed_event (events ! i)))"
    if i: "i < length events" for i date rid
  proof -
    have ith: "events' ! i = trimmed_event (events ! i)" "event_input_ok (events' ! i)" "i < length events'"
      using ev i by auto
    have "\<And>v. ei_payload (trimmed_event (events ! i)) = Some v \<Longrightarrow> json_ok v"
      using assms(7) i by (auto simp: trimmed_event_def)
    moreover have "trim (event_msg_id uuid i (events' ! i)) = event_msg_id uuid i (events' ! i)
        \<and> event_msg_id uuid i (events' ! i) \<noteq> []"
      using ith(2) assms(6) by (auto simp: event_msg_id_def event_input_ok_def split: option.split)
    ultimately show ?thesis
      using queued_event_row[of "events' ! i" ctxDeviceId now "event_msg_id uuid i (events' ! i)" date rid]
        ith assms(2-5) by simp
  qed
  have "eq_sends q' = eq_sends q @ [map to_kafka ?batch]" using publish_batch_ok(1)[OF pub ne] .
  moreover have "length (map to_kafka ?batch) = length events" using ev by simp
  moreover have "io_results out = ?results" "io_accepted out = length events" using out ev by simp_all
  moreover have "length ?results = length events" using ev by simp
  ultimately show ?thesis using dev len(2) row by (intro conjI exI[of _ "map to_kafka ?batch"]) simp_all
qed

definition demo_event :: event_input where
  "demo_event = \<lparr>ei_msgId = Some ''m '', ei_payload = None, ei_timestamp = None, ei_type = ''boot''\<rparr>"

theorem ingested_event_stored_witness:
  "\<exists>out q'. ingest_events ''d'' (\<lambda>i. ''u'') ''t'' True None [demo_event] demo_queue = Inr (out, q')
     \<and> io_accepted out = 1 \<and> length (eq_sends q') = 1"
proof -
  have trims: "trim ''d'' = ''d''" "trim ''t'' = ''t''" "trim ''u'' = ''u''" "trim ''boot'' = ''boot''"
      "trim ''m '' = ''m''"
    by (simp_all add: trim_def trim_start_def trim_end_def js_space_simps)
  have "\<exists>out q'. ingest_events ''d'' (\<lambda>i. ''u'') ''t'' True None [demo_event] demo_queue = Inr (out, q')"
    by (simp add: ingest_events_def ingest_events_input_schema_def device_event_input_schema_def demo_event_def
        z_optional_def z_field_def z_text_def trims MAX_EVENT_FIELD_LENGTH_def MAX_EVENTS_PER_REQUEST_def
        publish_batch_def demo_queue_def)
  then obtain out q' where run: "ingest_events ''d'' (\<lambda>i. ''u'') ''t'' True None [demo_event] demo_queue = Inr (out, q')"
    by blast
  from ingested_event_stored[OF run trims(1) _ trims(2)] run show ?thesis
    by (auto simp: trims demo_event_def demo_queue_def)
qed

end
