(* ===== verification/Event_Lifecycle.thy ===== *)
theory Event_Lifecycle
  imports Helix_Prelude
begin

text \<open>
  The life of the queue consumer of \<open>DeviceEventWriter\<close> (\<open>events/writer.ts\<close>): starting, crash
  listener, restart loop and stop. A step is what runs between two awaits that matter; the waits
  inside \<open>shutdownConsumer\<close> are one step with it. Consumers are numbered as they are created.
\<close>

section \<open>State\<close>

text \<open>\<open>restartPromise\<close>: none, in the delay, or waiting for the consumer it started.\<close>

datatype restart_phase = NoRestart | Sleeping | Starting nat

record writer_life =
  wl_stopped :: bool
  wl_consumer :: "nat option"
  wl_listeners :: "nat list"
  wl_connecting :: "nat list"
  wl_running :: "nat list"
  wl_next :: nat
  wl_restart :: restart_phase

definition new_writer :: writer_life where
  "new_writer = \<lparr>wl_stopped = False, wl_consumer = None, wl_listeners = [], wl_connecting = [], wl_running = [],
     wl_next = 0, wl_restart = NoRestart\<rparr>"

section \<open>Operations\<close>

text \<open>\<open>startConsumer\<close> up to its first await.\<close>

definition start_consumer :: "writer_life \<Rightarrow> writer_life" where
  "start_consumer w =
     (let c = wl_next w
      in w\<lparr>wl_next := Suc c, wl_listeners := wl_listeners w @ [c], wl_consumer := Some c,
           wl_connecting := wl_connecting w @ [c]\<rparr>)"

definition writer_start :: "writer_life \<Rightarrow> writer_life" where
  "writer_start w = start_consumer (w\<lparr>wl_stopped := False\<rparr>)"

text \<open>The rest of \<open>startConsumer\<close>: \<open>connect\<close> and \<open>subscribe\<close> succeeded and the run loop starts,
  or one of them failed. The restart loop ends with the first success.\<close>

definition consumer_connected :: "nat \<Rightarrow> bool \<Rightarrow> writer_life \<Rightarrow> writer_life" where
  "consumer_connected c ok w =
     (if c \<notin> set (wl_connecting w) then w
      else let w' = w\<lparr>wl_connecting := removeAll c (wl_connecting w)\<rparr>
        in if ok
           then w'\<lparr>wl_running := wl_running w @ [c],
                   wl_restart := (if wl_restart w = Starting c then NoRestart else wl_restart w)\<rparr>
           else w'\<lparr>wl_consumer := (if wl_consumer w = Some c then None else wl_consumer w),
                   wl_listeners := removeAll c (wl_listeners w),
                   wl_restart := (if wl_restart w = Starting c then (if wl_stopped w then NoRestart else Sleeping)
                     else wl_restart w)\<rparr>)"

text \<open>A consumer that is disconnected while it connects fails to.\<close>

definition shutdown_consumer :: "writer_life \<Rightarrow> writer_life" where
  "shutdown_consumer w =
     (case wl_consumer w of
        None \<Rightarrow> w
      | Some c \<Rightarrow> w\<lparr>wl_consumer := None, wl_listeners := removeAll c (wl_listeners w),
          wl_running := removeAll c (wl_running w), wl_connecting := removeAll c (wl_connecting w),
          wl_restart := (if wl_restart w = Starting c then (if wl_stopped w then NoRestart else Sleeping)
            else wl_restart w)\<rparr>)"

definition consumer_crashed :: "nat \<Rightarrow> bool \<Rightarrow> writer_life \<Rightarrow> writer_life" where
  "consumer_crashed c restart w =
     (if c \<notin> set (wl_listeners w) then w
      else if wl_stopped w \<or> restart \<or> wl_consumer w \<noteq> Some c then w
      else if wl_restart w \<noteq> NoRestart then w
      else (shutdown_consumer w)\<lparr>wl_restart := Sleeping\<rparr>)"

text \<open>The restart delay is over: the loop calls \<open>startConsumer\<close>.\<close>

definition restart_tick :: "writer_life \<Rightarrow> writer_life" where
  "restart_tick w =
     (if wl_restart w = Sleeping then (start_consumer w)\<lparr>wl_restart := Starting (wl_next w)\<rparr> else w)"

definition writer_stop :: "writer_life \<Rightarrow> writer_life" where
  "writer_stop w = shutdown_consumer (w\<lparr>wl_stopped := True\<rparr>)"

datatype life_event = ConsumerConnected nat bool | ConsumerCrashed nat bool | RestartTick | WriterStop

fun life_step :: "life_event \<Rightarrow> writer_life \<Rightarrow> writer_life" where
  "life_step (ConsumerConnected c ok) w = consumer_connected c ok w"
| "life_step (ConsumerCrashed c restart) w = consumer_crashed c restart w"
| "life_step RestartTick w = restart_tick w"
| "life_step WriterStop w = writer_stop w"

definition life_run :: "life_event list \<Rightarrow> writer_life \<Rightarrow> writer_life" where
  "life_run events w = fold life_step events w"

section \<open>At most one consumer\<close>

text \<open>After one \<open>start\<close>, whatever lives is the current consumer.\<close>

definition life_ok :: "writer_life \<Rightarrow> bool" where
  "life_ok w \<longleftrightarrow>
     (case wl_consumer w of
        None \<Rightarrow> wl_running w = [] \<and> wl_connecting w = [] \<and> wl_listeners w = [] \<and> (\<forall>c. wl_restart w \<noteq> Starting c)
      | Some c \<Rightarrow> wl_listeners w = [c] \<and> wl_restart w \<noteq> Sleeping
          \<and> (wl_running w = [c] \<and> wl_connecting w = [] \<and> wl_restart w = NoRestart
             \<or> wl_running w = [] \<and> wl_connecting w = [c] \<and> (\<forall>c'. wl_restart w = Starting c' \<longrightarrow> c' = c)))"

lemma life_ok_start: "life_ok (writer_start new_writer)"
  by (simp add: life_ok_def writer_start_def start_consumer_def new_writer_def)

lemma life_ok_shutdown: "life_ok w \<Longrightarrow> life_ok (shutdown_consumer w)"
  by (cases "wl_consumer w"; cases "wl_restart w") (auto simp: life_ok_def shutdown_consumer_def)

lemma life_ok_stop: "life_ok w \<Longrightarrow> life_ok (writer_stop w)"
  unfolding writer_stop_def by (rule life_ok_shutdown) (simp add: life_ok_def split: option.splits)

lemma life_ok_connected: "life_ok w \<Longrightarrow> life_ok (consumer_connected c ok w)"
  by (cases "wl_consumer w"; cases "wl_restart w") (auto simp: life_ok_def consumer_connected_def Let_def)

lemma shutdown_consumer_None [simp]: "wl_consumer (shutdown_consumer w) = None"
  by (simp add: shutdown_consumer_def split: option.split)

lemma life_ok_crashed: "life_ok w \<Longrightarrow> life_ok (consumer_crashed c restart w)"
  by (cases "wl_consumer w") (auto simp: consumer_crashed_def shutdown_consumer_def life_ok_def)

lemma life_ok_tick: "life_ok w \<Longrightarrow> life_ok (restart_tick w)"
  by (cases "wl_consumer w") (auto simp: restart_tick_def life_ok_def start_consumer_def Let_def)

lemma life_ok_step: "life_ok w \<Longrightarrow> life_ok (life_step e w)"
  by (cases e) (simp_all add: life_ok_stop life_ok_connected life_ok_crashed life_ok_tick)

lemma life_ok_run: "life_ok w \<Longrightarrow> life_ok (life_run es w)"
  unfolding life_run_def by (induction es arbitrary: w) (auto intro: life_ok_step)

lemma one_consumer: "length (wl_running (life_run es (writer_start new_writer))) \<le> 1"
proof -
  let ?w = "life_run es (writer_start new_writer)"
  have "life_ok ?w" by (rule life_ok_run[OF life_ok_start])
  then show ?thesis by (cases "wl_consumer ?w") (auto simp: life_ok_def)
qed

text \<open>A writer stopped while it is not in the restart delay stays without a consumer.\<close>

lemma stopped_stays:
  assumes "wl_stopped w" and "wl_consumer w = None" and "wl_restart w \<noteq> Sleeping" and "life_ok w"
  shows "wl_running (life_run es w) = [] \<and> wl_consumer (life_run es w) = None"
proof -
  have "wl_restart w = NoRestart \<and> wl_running w = [] \<and> wl_connecting w = [] \<and> wl_listeners w = []"
    using assms by (cases "wl_restart w") (simp_all add: life_ok_def)
  with assms(1,2) show ?thesis
    unfolding life_run_def
  proof (induction es arbitrary: w)
    case Nil
    then show ?case by simp
  next
    case (Cons e es)
    then have "life_step e w = w"
      by (cases e) (simp_all add: consumer_connected_def consumer_crashed_def restart_tick_def writer_stop_def
          shutdown_consumer_def)
    with Cons show ?case by simp
  qed
qed

text \<open>Stopped during the delay, it comes back: the loop tests \<open>stopped\<close> before the delay only.\<close>

lemma stopped_writer_restarts:
  "let w = life_run [ConsumerConnected 0 True, ConsumerCrashed 0 False, WriterStop, RestartTick, ConsumerConnected 1 True]
       (writer_start new_writer)
   in wl_stopped w \<and> wl_running w = [1] \<and> wl_restart w = NoRestart"
  by (simp add: life_run_def writer_start_def start_consumer_def new_writer_def consumer_connected_def consumer_crashed_def
      shutdown_consumer_def restart_tick_def writer_stop_def Let_def)

end
