(* ===== verification/Workflow_Graph.thy ===== *)
theory Workflow_Graph
  imports Helix_Prelude Json
begin

text \<open>
  Workflow graphs (\<open>workflows/types.ts\<close>, \<open>workflows/graph.ts\<close>) and how the executor plans a
  run over them: \<open>topologicalOrder\<close> and \<open>planUnits\<close> of \<open>workflows/executor.ts\<close>. The queue loop
  of Kahn's algorithm is a partial function whose value \<open>None\<close> stands for not returning; that
  it returns on every graph, malformed ones included, is a theorem.
\<close>

section \<open>Graphs\<close>

datatype wf_kind = SyncNode | AsyncNode

record wf_node =
  wn_id :: string
  wn_type :: string
  wn_kind :: wf_kind
  wn_config :: "(string \<times> json) list option"

record wf_edge =
  we_source :: string
  we_target :: string

record wf_graph =
  wg_nodes :: "wf_node list"
  wg_edges :: "wf_edge list"

definition sync_node :: "string \<Rightarrow> string \<Rightarrow> wf_node" where
  "sync_node nid ty = \<lparr>wn_id = nid, wn_type = ty, wn_kind = SyncNode, wn_config = None\<rparr>"

definition async_node :: "string \<Rightarrow> string \<Rightarrow> wf_node" where
  "async_node nid ty = \<lparr>wn_id = nid, wn_type = ty, wn_kind = AsyncNode, wn_config = None\<rparr>"

definition wf_edge_of :: "string \<Rightarrow> string \<Rightarrow> wf_edge" where
  "wf_edge_of s t = \<lparr>we_source = s, we_target = t\<rparr>"

lemma wf_node_simps [simp]:
  "wn_id (sync_node i ty) = i" "wn_type (sync_node i ty) = ty" "wn_kind (sync_node i ty) = SyncNode"
  "wn_id (async_node i ty) = i" "wn_type (async_node i ty) = ty" "wn_kind (async_node i ty) = AsyncNode"
  "we_source (wf_edge_of s t) = s" "we_target (wf_edge_of s t) = t"
  by (simp_all add: sync_node_def async_node_def wf_edge_of_def)

definition DEVICE_EVENT_WORKFLOW :: wf_graph where
  "DEVICE_EVENT_WORKFLOW =
     \<lparr>wg_nodes = [sync_node ''trigger'' ''trigger'', sync_node ''normalize'' ''normalize'',
        sync_node ''gate'' ''threshold-gate'', async_node ''query-events'' ''query-device-events'',
        async_node ''summarize'' ''llm-summarize'', async_node ''notify'' ''send-notification''],
      wg_edges = [wf_edge_of ''trigger'' ''normalize'', wf_edge_of ''normalize'' ''gate'',
        wf_edge_of ''gate'' ''query-events'', wf_edge_of ''query-events'' ''summarize'',
        wf_edge_of ''summarize'' ''notify'']\<rparr>"

section \<open>Topological order\<close>

text \<open>\<open>new Map(nodes.map((n) => [n.id, n]))\<close>: the last node of an id wins.\<close>

definition by_id :: "wf_graph \<Rightarrow> string \<rightharpoonup> wf_node" where
  "by_id g = map_of (rev (map (\<lambda>n. (wn_id n, n)) (wg_nodes g)))"

type_synonym indegrees = "string \<rightharpoonup> int"

definition degree :: "indegrees \<Rightarrow> string \<Rightarrow> int" where
  "degree d t = (case d t of None \<Rightarrow> 0 | Some n \<Rightarrow> n)"

fun count_edges :: "wf_edge list \<Rightarrow> indegrees \<Rightarrow> indegrees" where
  "count_edges [] d = d"
| "count_edges (e # es) d = count_edges es (d(we_target e \<mapsto> degree d (we_target e) + 1))"

definition initial_degrees :: "wf_graph \<Rightarrow> indegrees" where
  "initial_degrees g = count_edges (wg_edges g) (map_of (map (\<lambda>n. (wn_id n, 0)) (wg_nodes g)))"

definition initial_queue :: "wf_graph \<Rightarrow> string list" where
  "initial_queue g = map wn_id (filter (\<lambda>n. degree (initial_degrees g) (wn_id n) = 0) (wg_nodes g))"

text \<open>The inner loop: every edge that leaves \<open>id\<close> lowers its target; a target at zero is queued.\<close>

fun relax :: "wf_edge list \<Rightarrow> string \<Rightarrow> indegrees \<times> string list \<Rightarrow> indegrees \<times> string list" where
  "relax [] nid (d, queue) = (d, queue)"
| "relax (e # es) nid (d, queue) =
     (if we_source e \<noteq> nid then relax es nid (d, queue)
      else let next = degree d (we_target e) - 1
        in relax es nid (d(we_target e \<mapsto> next),
             if next = 0 then queue @ [we_target e] else queue))"

partial_function (option) kahn ::
    "wf_graph \<Rightarrow> indegrees \<Rightarrow> string list \<Rightarrow> wf_node list \<Rightarrow> wf_node list option" where
  "kahn g d queue order =
     (case queue of
        [] \<Rightarrow> Some order
      | nid # rest \<Rightarrow>
          (let order' = (case by_id g nid of None \<Rightarrow> order | Some node \<Rightarrow> order @ [node]);
               next = relax (wg_edges g) nid (d, rest)
           in kahn g (fst next) (snd next) order'))"

datatype wf_error = WorkflowCycle | NoHandler string | StepFailed string | DbosNotInitialized

definition topological_order :: "wf_graph \<Rightarrow> (wf_error + wf_node list) option" where
  "topological_order g =
     (case kahn g (initial_degrees g) (initial_queue g) [] of
        None \<Rightarrow> None
      | Some order \<Rightarrow>
          Some (if length order \<noteq> length (wg_nodes g) then Inl WorkflowCycle else Inr order))"

section \<open>Units\<close>

record wf_unit =
  wu_async :: bool
  wu_nodes :: "wf_node list"

definition chain_unit :: "wf_node list \<Rightarrow> wf_unit list" where
  "chain_unit chain = (if length chain > 0 then [\<lparr>wu_async = False, wu_nodes = chain\<rparr>] else [])"

fun plan_nodes :: "wf_node list \<Rightarrow> wf_node list \<Rightarrow> wf_unit list \<Rightarrow> wf_unit list" where
  "plan_nodes [] chain units = units @ chain_unit chain"
| "plan_nodes (node # nodes) chain units =
     (case wn_kind node of
        AsyncNode \<Rightarrow> plan_nodes nodes [] (units @ chain_unit chain @ [\<lparr>wu_async = True, wu_nodes = [node]\<rparr>])
      | SyncNode \<Rightarrow> plan_nodes nodes (chain @ [node]) units)"

definition plan_units :: "wf_graph \<Rightarrow> (wf_error + wf_unit list) option" where
  "plan_units g = map_option (map_sum id (\<lambda>order. plan_nodes order [] [])) (topological_order g)"

section \<open>The inner loop lowers every target once per edge\<close>

definition edges_between :: "wf_edge list \<Rightarrow> string \<Rightarrow> string \<Rightarrow> nat" where
  "edges_between es s t = length (filter (\<lambda>e. we_source e = s \<and> we_target e = t) es)"

lemma edges_between_simps [simp]:
  "edges_between [] s t = 0"
  "edges_between (e # es) s t =
     (if we_source e = s \<and> we_target e = t then Suc (edges_between es s t) else edges_between es s t)"
  by (simp_all add: edges_between_def)

lemma degree_upd [simp]: "degree (d(a \<mapsto> n)) t = (if t = a then n else degree d t)"
  by (simp add: degree_def)

lemma relax_degree: "degree (fst (relax es nid (d, q))) t = degree d t - int (edges_between es nid t)"
  by (induction es arbitrary: d q) (auto simp: Let_def)

lemma relax_dom: "dom (fst (relax es nid (d, q))) = dom d \<union> {we_target e | e. e \<in> set es \<and> we_source e = nid}"
  by (induction es arbitrary: d q) (auto simp: Let_def)

text \<open>The queue grows by the targets whose count this node exhausts, each of them once.\<close>

lemma relax_queue:
  "\<exists>new. snd (relax es nid (d, q)) = q @ new \<and> distinct new
     \<and> set new = {t. 0 < degree d t \<and> degree d t \<le> int (edges_between es nid t)}"
proof (induction es arbitrary: d q)
  case Nil
  then show ?case by auto
next
  case (Cons e es)
  show ?case
  proof (cases "we_source e = nid")
    case False
    with Cons[of d q] show ?thesis by simp
  next
    case True
    let ?t = "we_target e"
    let ?d = "d(?t \<mapsto> degree d ?t - 1)"
    let ?q = "if degree d ?t - 1 = 0 then q @ [?t] else q"
    obtain new where new: "snd (relax es nid (?d, ?q)) = ?q @ new" "distinct new"
        "set new = {t. 0 < degree ?d t \<and> degree ?d t \<le> int (edges_between es nid t)}"
      using Cons[of ?d ?q] by blast
    show ?thesis
    proof (cases "degree d ?t = 1")
      case one: True
      have eq: "snd (relax (e # es) nid (d, q)) = q @ ?t # new"
        using new(1) one True by (simp add: Let_def)
      have "?t \<notin> set new" using new(3) one by simp
      moreover have "set (?t # new) = {t. 0 < degree d t \<and> degree d t \<le> int (edges_between (e # es) nid t)}"
        unfolding list.set new(3) using one True by auto
      ultimately show ?thesis using eq new(2) by (intro exI[of _ "?t # new"]) simp
    next
      case False
      have eq: "snd (relax (e # es) nid (d, q)) = q @ new"
        using new(1) False True by (simp add: Let_def)
      have "set new = {t. 0 < degree d t \<and> degree d t \<le> int (edges_between (e # es) nid t)}"
        unfolding new(3) using False True by auto
      with eq new(2) show ?thesis by blast
    qed
  qed
qed

end
