(* ===== verification/Workflow_Order.thy ===== *)
theory Workflow_Order
  imports Workflow_Graph "HOL-Library.Multiset"
begin

text \<open>
  \<open>topologicalOrder\<close> is correct: the queue loop returns on every graph, and on a graph whose
  edges join existing nodes with distinct ids the result is an order of exactly the nodes that
  respects the edges when there is no cycle, and the cycle error when there is one.
  Also: planning in units loses no node and keeps asynchronous nodes alone.
\<close>

section \<open>The loop returns\<close>

definition kahn_measure :: "wf_graph \<Rightarrow> indegrees \<Rightarrow> string list \<Rightarrow> nat" where
  "kahn_measure g d q = length q + (\<Sum>t\<in>set (map we_target (wg_edges g)). nat (degree d t))"

lemma sum_lowered:
  fixes f :: "string \<Rightarrow> nat"
  assumes "finite T" and "a \<in> T" and "f a = Suc (f' a)" and "\<And>t. t \<noteq> a \<Longrightarrow> f' t = f t"
  shows "(\<Sum>t\<in>T. f t) = Suc (\<Sum>t\<in>T. f' t)"
proof -
  have "(\<Sum>t\<in>T - {a}. f t) = (\<Sum>t\<in>T - {a}. f' t)" using assms(4) by (intro sum.cong) auto
  then show ?thesis using assms(1-3) by (simp add: sum.remove)
qed

lemma relax_measure:
  assumes "finite T" and "\<forall>e\<in>set es. we_target e \<in> T"
  shows "length (snd (relax es nid (d, q))) + (\<Sum>t\<in>T. nat (degree (fst (relax es nid (d, q))) t))
           \<le> length q + (\<Sum>t\<in>T. nat (degree d t))"
  using assms(2)
proof (induction es arbitrary: d q)
  case Nil
  then show ?case by simp
next
  case (Cons e es)
  let ?t = "we_target e"
  let ?d = "d(?t \<mapsto> degree d ?t - 1)"
  let ?q = "if degree d ?t - 1 = 0 then q @ [?t] else q"
  have "length ?q + (\<Sum>t\<in>T. nat (degree ?d t)) \<le> length q + (\<Sum>t\<in>T. nat (degree d t))"
  proof (cases "0 < degree d ?t")
    case True
    then have "nat (degree d ?t) = Suc (nat (degree ?d ?t))" by simp
    then have "(\<Sum>t\<in>T. nat (degree d t)) = Suc (\<Sum>t\<in>T. nat (degree ?d t))"
      using Cons.prems assms(1) by (intro sum_lowered[of T ?t]) auto
    then show ?thesis by simp
  next
    case False
    then have "(\<Sum>t\<in>T. nat (degree ?d t)) = (\<Sum>t\<in>T. nat (degree d t))"
      by (intro sum.cong) auto
    with False show ?thesis by simp
  qed
  moreover have "length (snd (relax es nid (?d, ?q))) + (\<Sum>t\<in>T. nat (degree (fst (relax es nid (?d, ?q))) t))
      \<le> length ?q + (\<Sum>t\<in>T. nat (degree ?d t))"
    using Cons.prems by (intro Cons.IH) simp
  ultimately have "length (snd (relax es nid (?d, ?q))) + (\<Sum>t\<in>T. nat (degree (fst (relax es nid (?d, ?q))) t))
      \<le> length q + (\<Sum>t\<in>T. nat (degree d t))"
    by (rule le_trans[rotated])
  moreover have "relax (e # es) nid (d, q) = (if we_source e = nid then relax es nid (?d, ?q) else relax es nid (d, q))"
    by (simp add: Let_def)
  ultimately show ?case using Cons by (cases "we_source e = nid") simp_all
qed

lemma kahn_measure_step:
  "kahn_measure g (fst (relax (wg_edges g) nid (d, rest))) (snd (relax (wg_edges g) nid (d, rest)))
     < kahn_measure g d (nid # rest)"
  using relax_measure[of "set (map we_target (wg_edges g))" "wg_edges g" nid d rest]
  by (simp add: kahn_measure_def)

lemma kahn_total: "\<exists>order'. kahn g d q order = Some order'"
proof (induction "kahn_measure g d q" arbitrary: d q order rule: less_induct)
  case less
  show ?case
  proof (cases q)
    case Nil
    then show ?thesis by (simp add: kahn.simps)
  next
    case (Cons nid rest)
    with less[OF kahn_measure_step[of g nid d rest, folded Cons]] show ?thesis
      by (subst kahn.simps) (simp add: Let_def)
  qed
qed

lemma topological_order_total: "\<exists>r. topological_order g = Some r"
  using kahn_total[of g "initial_degrees g" "initial_queue g" "[]"] by (auto simp: topological_order_def)

section \<open>The loop invariant\<close>

text \<open>\<open>open_edges es P t\<close>: the edges into \<open>t\<close> whose source has not been taken from the queue.\<close>

definition open_edges :: "wf_edge list \<Rightarrow> string list \<Rightarrow> string \<Rightarrow> nat" where
  "open_edges es P t = length (filter (\<lambda>e. we_target e = t \<and> we_source e \<notin> set P) es)"

lemma open_edges_take:
  "nid \<notin> set P \<Longrightarrow> open_edges es P t = open_edges es (P @ [nid]) t + edges_between es nid t"
  by (induction es) (auto simp: open_edges_def)

lemma open_edges_zero: "open_edges es P t = 0 \<longleftrightarrow> (\<forall>e\<in>set es. we_target e = t \<longrightarrow> we_source e \<in> set P)"
  by (auto simp: open_edges_def filter_empty_conv)

definition edges_ordered :: "wf_edge list \<Rightarrow> string list \<Rightarrow> bool" where
  "edges_ordered es xs \<longleftrightarrow> (\<forall>ys t zs. xs = ys @ t # zs \<longrightarrow> (\<forall>e\<in>set es. we_target e = t \<longrightarrow> we_source e \<in> set ys))"

lemma edges_ordered_Nil [simp]: "edges_ordered es []"
  by (simp add: edges_ordered_def)

lemma edges_ordered_snoc:
  assumes "edges_ordered es xs" and "\<forall>e\<in>set es. we_target e = t \<longrightarrow> we_source e \<in> set xs"
  shows "edges_ordered es (xs @ [t])"
  unfolding edges_ordered_def
proof (intro allI impI)
  fix ys u zs
  assume eq: "xs @ [t] = ys @ u # zs"
  show "\<forall>e\<in>set es. we_target e = u \<longrightarrow> we_source e \<in> set ys"
  proof (cases zs rule: rev_cases)
    case Nil
    with eq assms(2) show ?thesis by simp
  next
    case (snoc zs' z)
    with eq have "xs = ys @ u # zs'" by simp
    with assms(1) show ?thesis unfolding edges_ordered_def by blast
  qed
qed

lemma edges_ordered_append:
  "edges_ordered es xs \<Longrightarrow> \<forall>t\<in>set new. \<forall>e\<in>set es. we_target e = t \<longrightarrow> we_source e \<in> set xs \<Longrightarrow> edges_ordered es (xs @ new)"
proof (induction new rule: rev_induct)
  case Nil
  then show ?case by simp
next
  case (snoc t new)
  then have "edges_ordered es (xs @ new)" by simp
  then have "edges_ordered es ((xs @ new) @ [t])" using snoc.prems by (intro edges_ordered_snoc) auto
  then show ?case by simp
qed

text \<open>Edges join nodes of the graph, and node ids are distinct.\<close>

definition graph_ok :: "wf_graph \<Rightarrow> bool" where
  "graph_ok g \<longleftrightarrow> distinct (map wn_id (wg_nodes g))
     \<and> (\<forall>e\<in>set (wg_edges g). we_source e \<in> set (map wn_id (wg_nodes g)) \<and> we_target e \<in> set (map wn_id (wg_nodes g)))"

definition kahn_inv :: "wf_graph \<Rightarrow> string list \<Rightarrow> indegrees \<Rightarrow> string list \<Rightarrow> bool" where
  "kahn_inv g P d Q \<longleftrightarrow> distinct (P @ Q)
     \<and> (\<forall>t. degree d t = int (open_edges (wg_edges g) P t))
     \<and> set (P @ Q) = {t \<in> set (map wn_id (wg_nodes g)). degree d t = 0}
     \<and> edges_ordered (wg_edges g) (P @ Q)"

lemma count_edges_degree:
  "degree (count_edges es d) t = degree d t + int (length (filter (\<lambda>e. we_target e = t) es))"
  by (induction es arbitrary: d) auto

lemma initial_degree: "degree (initial_degrees g) t = int (open_edges (wg_edges g) [] t)"
proof -
  have "degree (map_of (map (\<lambda>n. (wn_id n, 0)) ns)) t = 0" for ns :: "wf_node list"
    by (induction ns) (auto simp: degree_def)
  then show ?thesis by (simp add: initial_degrees_def count_edges_degree open_edges_def)
qed

lemma kahn_inv_start:
  assumes "graph_ok g"
  shows "kahn_inv g [] (initial_degrees g) (initial_queue g)"
proof -
  have mem: "t \<in> set (initial_queue g) \<longleftrightarrow>
      t \<in> set (map wn_id (wg_nodes g)) \<and> degree (initial_degrees g) t = 0" for t
    by (auto simp: initial_queue_def)
  have "\<forall>t\<in>set (initial_queue g). \<forall>e\<in>set (wg_edges g). we_target e = t \<longrightarrow> we_source e \<in> set []"
    using open_edges_zero[of "wg_edges g" "[]"] by (simp add: mem initial_degree)
  then have "edges_ordered (wg_edges g) ([] @ initial_queue g)" by (intro edges_ordered_append) auto
  moreover have "distinct (initial_queue g)"
    using assms by (auto simp: graph_ok_def initial_queue_def distinct_map intro: inj_on_subset)
  ultimately show ?thesis
    unfolding kahn_inv_def append_Nil using mem by (auto simp: initial_degree)
qed

lemma kahn_inv_step:
  assumes ok: "graph_ok g" and inv: "kahn_inv g P d (nid # rest)"
  shows "kahn_inv g (P @ [nid]) (fst (relax (wg_edges g) nid (d, rest))) (snd (relax (wg_edges g) nid (d, rest)))"
proof -
  let ?es = "wg_edges g"
  let ?d = "fst (relax ?es nid (d, rest))"
  obtain new where new: "snd (relax ?es nid (d, rest)) = rest @ new" "distinct new"
      "set new = {t. 0 < degree d t \<and> degree d t \<le> int (edges_between ?es nid t)}"
    using relax_queue[of ?es nid d rest] by blast
  from inv have dist: "distinct (P @ nid # rest)"
    and deg: "\<And>t. degree d t = int (open_edges ?es P t)"
    and taken: "\<And>t. t \<in> set (P @ nid # rest) \<longleftrightarrow> t \<in> set (map wn_id (wg_nodes g)) \<and> degree d t = 0"
    and resp: "edges_ordered ?es (P @ nid # rest)"
    by (auto simp: kahn_inv_def)
  have notin: "nid \<notin> set P" using dist by simp
  have deg': "degree ?d t = int (open_edges ?es (P @ [nid]) t)" for t
    using open_edges_take[OF notin, of ?es t] by (simp add: relax_degree deg)
  have new_zero: "t \<in> set new \<longleftrightarrow> degree d t \<noteq> 0 \<and> degree ?d t = 0" for t
    using open_edges_take[OF notin, of ?es t] by (auto simp: new(3) deg' deg)
  have new_node: "t \<in> set (map wn_id (wg_nodes g))" if "t \<in> set new" for t
  proof -
    from that have "edges_between ?es nid t \<noteq> 0" by (auto simp: new(3))
    then obtain e where "e \<in> set ?es" "we_target e = t" by (auto simp: edges_between_def filter_empty_conv)
    then show ?thesis using ok by (auto simp: graph_ok_def)
  qed
  have stays: "degree ?d t = 0" if "degree d t = 0" for t
    using that open_edges_take[OF notin, of ?es t] by (simp add: deg' deg)
  have list: "(P @ [nid]) @ rest @ new = (P @ nid # rest) @ new" by simp
  have "edges_ordered ?es ((P @ nid # rest) @ new)"
  proof (rule edges_ordered_append[OF resp], intro ballI impI)
    fix t e assume t: "t \<in> set new" and e: "e \<in> set ?es" "we_target e = t"
    then have "we_source e \<in> set (P @ [nid])"
      using new_zero[of t] open_edges_zero[of ?es "P @ [nid]" t] by (simp add: deg')
    then show "we_source e \<in> set (P @ nid # rest)" by auto
  qed
  moreover have "distinct ((P @ nid # rest) @ new)"
    using dist new(2) taken new_zero by (auto simp del: set_map)
  moreover have "set ((P @ nid # rest) @ new) = {t \<in> set (map wn_id (wg_nodes g)). degree ?d t = 0}"
    using taken new_zero new_node stays by (auto simp del: set_map)
  ultimately show ?thesis
    unfolding kahn_inv_def new(1) list using deg' by blast
qed

definition found_nodes :: "wf_graph \<Rightarrow> string list \<Rightarrow> wf_node list" where
  "found_nodes g P = concat (map (\<lambda>nid. case by_id g nid of None \<Rightarrow> [] | Some node \<Rightarrow> [node]) P)"

lemma found_nodes_snoc:
  "found_nodes g (P @ [nid]) = (case by_id g nid of None \<Rightarrow> found_nodes g P | Some node \<Rightarrow> found_nodes g P @ [node])"
  by (simp add: found_nodes_def split: option.split)

lemma kahn_result:
  assumes "graph_ok g"
  shows "kahn_inv g P d q \<Longrightarrow> \<exists>P' d'. kahn g d q (found_nodes g P) = Some (found_nodes g P') \<and> kahn_inv g P' d' []"
proof (induction "kahn_measure g d q" arbitrary: P d q rule: less_induct)
  case less
  show ?case
  proof (cases q)
    case Nil
    with less.prems show ?thesis by (subst kahn.simps) auto
  next
    case (Cons nid rest)
    let ?next = "relax (wg_edges g) nid (d, rest)"
    have eq: "kahn g d q (found_nodes g P) = kahn g (fst ?next) (snd ?next) (found_nodes g (P @ [nid]))"
      by (subst kahn.simps) (simp add: Cons found_nodes_snoc Let_def)
    show ?thesis unfolding eq
      using less.hyps[OF kahn_measure_step[of g nid d rest, folded Cons]]
        kahn_inv_step[OF assms less.prems[unfolded Cons]] by blast
  qed
qed

section \<open>The order\<close>

lemma by_id_node: "graph_ok g \<Longrightarrow> n \<in> set (wg_nodes g) \<Longrightarrow> by_id g (wn_id n) = Some n"
  unfolding by_id_def graph_ok_def by (intro map_of_is_SomeI) (auto simp: rev_map[symmetric] comp_def)

lemma found_nodes_ids:
  assumes "graph_ok g" and "set P \<subseteq> set (map wn_id (wg_nodes g))"
  shows "map wn_id (found_nodes g P) = P" and "set (found_nodes g P) = {n \<in> set (wg_nodes g). wn_id n \<in> set P}"
proof -
  have one: "\<exists>n\<in>set (wg_nodes g). by_id g p = Some n \<and> wn_id n = p" if "p \<in> set P" for p
    using assms(2) that by_id_node[OF assms(1)] by fastforce
  then show "map wn_id (found_nodes g P) = P"
    by (induction P) (fastforce simp: found_nodes_def split: option.splits)+
  show "set (found_nodes g P) = {n \<in> set (wg_nodes g). wn_id n \<in> set P}"
  proof (intro set_eqI iffI)
    fix n assume "n \<in> set (found_nodes g P)"
    then obtain p where p: "p \<in> set P" "by_id g p = Some n"
      by (auto simp: found_nodes_def split: option.splits)
    then show "n \<in> {n \<in> set (wg_nodes g). wn_id n \<in> set P}" using one[OF p(1)] by auto
  next
    fix n assume "n \<in> {n \<in> set (wg_nodes g). wn_id n \<in> set P}"
    then have "wn_id n \<in> set P" "by_id g (wn_id n) = Some n" using by_id_node[OF assms(1)] by auto
    then show "n \<in> set (found_nodes g P)" by (force simp: found_nodes_def)
  qed
qed

definition edge_rel :: "wf_graph \<Rightarrow> (string \<times> string) set" where
  "edge_rel g = (\<lambda>e. (we_source e, we_target e)) ` set (wg_edges g)"

text \<open>When the loop ends with a node left over, every node left over has a predecessor left over.\<close>

lemma left_over_cycle:
  assumes ok: "graph_ok g" and inv: "kahn_inv g P d []" and n: "n \<in> set (map wn_id (wg_nodes g))" "n \<notin> set P"
  shows "\<not> acyclic (edge_rel g)"
proof
  assume "acyclic (edge_rel g)"
  then have "wf (edge_rel g)" by (simp add: edge_rel_def finite_acyclic_wf)
  moreover have "n \<in> set (map wn_id (wg_nodes g)) - set P" using n by simp
  ultimately obtain z where z: "z \<in> set (map wn_id (wg_nodes g)) - set P"
      and min: "\<And>y. (y, z) \<in> edge_rel g \<Longrightarrow> y \<notin> set (map wn_id (wg_nodes g)) - set P"
    by (rule wfE_min) blast
  have "degree d z \<noteq> 0" using z inv by (auto simp: kahn_inv_def)
  then have "open_edges (wg_edges g) P z \<noteq> 0" using inv by (simp add: kahn_inv_def)
  then obtain e where e: "e \<in> set (wg_edges g)" "we_target e = z" "we_source e \<notin> set P"
    by (auto simp: open_edges_zero)
  then have "(we_source e, z) \<in> edge_rel g" by (auto simp: edge_rel_def)
  with min e ok show False by (auto simp: graph_ok_def)
qed

lemma edges_ordered_acyclic:
  assumes "edges_ordered (wg_edges g) P" and "distinct P" and "set (map we_target (wg_edges g)) \<subseteq> set P"
  shows "e \<in> set (wg_edges g) \<Longrightarrow> i < length P \<Longrightarrow> j < length P \<Longrightarrow> P ! i = we_source e
           \<Longrightarrow> P ! j = we_target e \<Longrightarrow> i < j"
    and "acyclic (edge_rel g)"
proof -
  have ord: "\<exists>i<j. P ! i = we_source e" if "e \<in> set (wg_edges g)" "j < length P" "P ! j = we_target e" for e j
  proof -
    have "P = take j P @ we_target e # drop (Suc j) P" using that id_take_nth_drop by metis
    then have "we_source e \<in> set (take j P)" using assms(1) that(1) unfolding edges_ordered_def by blast
    then show ?thesis using that(2) by (auto simp: in_set_conv_nth)
  qed
  then show less: "i < j" if "e \<in> set (wg_edges g)" "i < length P" "j < length P" "P ! i = we_source e"
      "P ! j = we_target e" for e i j
    using that assms(2) by (metis distinct_conv_nth order.strict_trans)
  show "acyclic (edge_rel g)"
  proof (rule acyclicI_order[where f = "\<lambda>t. - int (LEAST i. P ! i = t)"])
    fix a b assume "(a, b) \<in> edge_rel g"
    then obtain e where e: "e \<in> set (wg_edges g)" "we_source e = a" "we_target e = b" by (auto simp: edge_rel_def)
    then have "b \<in> set P" using assms(3) by auto
    then obtain k where "k < length P" "P ! k = b" by (auto simp: in_set_conv_nth)
    then have j: "P ! (LEAST i. P ! i = b) = b" "(LEAST i. P ! i = b) < length P"
      by (metis (mono_tags) LeastI, metis (mono_tags) Least_le le_less_trans)
    obtain i where "i < (LEAST i. P ! i = b)" "P ! i = a" using ord[OF e(1) j(2)] j(1) e by auto
    then have "(LEAST i. P ! i = a) < (LEAST i. P ! i = b)" by (metis (mono_tags) Least_le le_less_trans)
    then show "- int (LEAST i. P ! i = b) < - int (LEAST i. P ! i = a)" by simp
  qed
qed

lemma topological_order_cases:
  assumes ok: "graph_ok g"
  shows "\<exists>P d. kahn_inv g P d [] \<and> topological_order g =
     Some (if set P = set (map wn_id (wg_nodes g)) then Inr (found_nodes g P) else Inl WorkflowCycle)"
proof -
  obtain P d where P: "kahn g (initial_degrees g) (initial_queue g) (found_nodes g []) = Some (found_nodes g P)"
      "kahn_inv g P d []"
    using kahn_result[OF ok kahn_inv_start[OF ok]] by blast
  then have sub: "set P \<subseteq> set (map wn_id (wg_nodes g))" and dist: "distinct P" by (auto simp: kahn_inv_def)
  have "length (found_nodes g P) = length P"
    using arg_cong[OF found_nodes_ids(1)[OF ok sub], of length] by simp
  moreover have "length P = length (wg_nodes g) \<longleftrightarrow> set P = set (map wn_id (wg_nodes g))"
  proof -
    have "card (set P) = length P" using dist by (rule distinct_card)
    moreover have "card (set (map wn_id (wg_nodes g))) = length (wg_nodes g)"
      using ok distinct_card[of "map wn_id (wg_nodes g)"] by (simp add: graph_ok_def)
    ultimately show ?thesis using sub by (metis List.finite_set card_subset_eq)
  qed
  ultimately have "topological_order g =
      Some (if set P = set (map wn_id (wg_nodes g)) then Inr (found_nodes g P) else Inl WorkflowCycle)"
    using P(1) by (simp add: topological_order_def found_nodes_def[of g "[]"])
  with P(2) show ?thesis by blast
qed

section \<open>Units\<close>

text \<open>An asynchronous unit is one asynchronous node, the others are non-empty synchronous chains.\<close>

definition unit_ok :: "wf_unit \<Rightarrow> bool" where
  "unit_ok u \<longleftrightarrow> (if wu_async u then \<exists>n. wu_nodes u = [n] \<and> wn_kind n = AsyncNode
     else wu_nodes u \<noteq> [] \<and> (\<forall>n\<in>set (wu_nodes u). wn_kind n = SyncNode))"

text \<open>Chains are maximal: no two of them are neighbours.\<close>

fun chains_apart :: "wf_unit list \<Rightarrow> bool" where
  "chains_apart (u # v # us) = ((wu_async u \<or> wu_async v) \<and> chains_apart (v # us))"
| "chains_apart us = True"

lemma chains_apart_snoc: "chains_apart (us @ [u]) \<longleftrightarrow> chains_apart us \<and> (us = [] \<or> wu_async (last us) \<or> wu_async u)"
  by (induction us rule: chains_apart.induct) auto

definition plan_ok :: "wf_unit list \<Rightarrow> bool" where
  "plan_ok units \<longleftrightarrow> (\<forall>u\<in>set units. unit_ok u) \<and> chains_apart units"

lemma plan_ok_snoc:
  "plan_ok (us @ [u]) \<longleftrightarrow> plan_ok us \<and> unit_ok u \<and> (us = [] \<or> wu_async (last us) \<or> wu_async u)"
  by (auto simp: plan_ok_def chains_apart_snoc)

lemma plan_nodes_ok:
  assumes "plan_ok units" and "units = [] \<or> wu_async (last units)" and "\<forall>n\<in>set chain. wn_kind n = SyncNode"
  shows "plan_ok (plan_nodes nodes chain units)
     \<and> concat (map wu_nodes (plan_nodes nodes chain units)) = concat (map wu_nodes units) @ chain @ nodes"
  using assms
proof (induction nodes chain units rule: plan_nodes.induct)
  case (1 chain units)
  then show ?case by (cases chain) (auto simp: chain_unit_def plan_ok_snoc unit_ok_def)
next
  case (2 node nodes chain units)
  show ?case
  proof (cases "wn_kind node")
    case SyncNode
    with 2 show ?thesis by simp
  next
    case AsyncNode
    let ?one = "\<lparr>wu_async = True, wu_nodes = [node]\<rparr>"
    have "plan_ok ((units @ chain_unit chain) @ [?one])"
      unfolding plan_ok_snoc using 2(3-5) AsyncNode
      by (cases chain) (auto simp: chain_unit_def plan_ok_snoc unit_ok_def)
    moreover have "concat (map wu_nodes (chain_unit chain)) = chain" by (cases chain) (auto simp: chain_unit_def)
    ultimately show ?thesis using 2(2)[OF AsyncNode] AsyncNode by simp
  qed
qed

lemma plan_units_order:
  "topological_order g = Some (Inr order) \<Longrightarrow>
     \<exists>units. plan_units g = Some (Inr units) \<and> plan_ok units \<and> concat (map wu_nodes units) = order"
  using plan_nodes_ok[of "[]" "[]" order] by (simp add: plan_units_def plan_ok_def)

section \<open>The property\<close>

lemma order_of_acyclic:
  assumes ok: "graph_ok g" and acyc: "acyclic (edge_rel g)"
  shows "\<exists>order. topological_order g = Some (Inr order) \<and> mset order = mset (wg_nodes g)
     \<and> (\<forall>e i j. e \<in> set (wg_edges g) \<and> i < length order \<and> j < length order \<and> wn_id (order ! i) = we_source e
          \<and> wn_id (order ! j) = we_target e \<longrightarrow> i < j)"
proof -
  obtain P d where inv: "kahn_inv g P d []" and top: "topological_order g =
      Some (if set P = set (map wn_id (wg_nodes g)) then Inr (found_nodes g P) else Inl WorkflowCycle)"
    using topological_order_cases[OF ok] by blast
  have dist: "distinct P" and sub: "set P \<subseteq> set (map wn_id (wg_nodes g))" and ord: "edges_ordered (wg_edges g) P"
    using inv by (auto simp: kahn_inv_def)
  have all: "set P = set (map wn_id (wg_nodes g))"
    using left_over_cycle[OF ok inv] acyc sub by blast
  note ids = found_nodes_ids[OF ok sub]
  have "distinct (found_nodes g P)" using ids(1) dist by (metis distinct_map)
  moreover have "set (found_nodes g P) = set (wg_nodes g)" unfolding ids(2) all by auto
  moreover have "distinct (wg_nodes g)" using ok by (simp add: graph_ok_def distinct_map)
  ultimately have mset: "mset (found_nodes g P) = mset (wg_nodes g)" by (metis set_eq_iff_mset_eq_distinct)
  have tgt: "set (map we_target (wg_edges g)) \<subseteq> set P" unfolding all using ok by (auto simp: graph_ok_def)
  have len: "length (found_nodes g P) = length P" using arg_cong[OF ids(1), of length] by simp
  have nth: "wn_id (found_nodes g P ! i) = P ! i" if "i < length P" for i
    using arg_cong[OF ids(1), of "\<lambda>xs. xs ! i"] that len by simp
  show ?thesis
    using top all mset edges_ordered_acyclic(1)[OF ord dist tgt] len nth by auto
qed

lemma order_of_cyclic:
  assumes ok: "graph_ok g" and cyc: "\<not> acyclic (edge_rel g)"
  shows "topological_order g = Some (Inl WorkflowCycle)"
proof -
  obtain P d where inv: "kahn_inv g P d []" and top: "topological_order g =
      Some (if set P = set (map wn_id (wg_nodes g)) then Inr (found_nodes g P) else Inl WorkflowCycle)"
    using topological_order_cases[OF ok] by blast
  have "set P \<noteq> set (map wn_id (wg_nodes g))"
  proof
    assume all: "set P = set (map wn_id (wg_nodes g))"
    then have "set (map we_target (wg_edges g)) \<subseteq> set P" using ok by (auto simp: graph_ok_def)
    then have "acyclic (edge_rel g)" using inv edges_ordered_acyclic(2) by (auto simp: kahn_inv_def)
    with cyc show False by simp
  qed
  with top show ?thesis by simp
qed

text \<open>C30: planning returns on every graph. On a graph with distinct node ids whose edges join its
  nodes it fails with the cycle error exactly when the edges have a cycle; otherwise the units, put
  one after the other, are the nodes of the graph, each once, every edge leading forward; every
  asynchronous node is a unit of its own, and chains of synchronous nodes are maximal.\<close>

theorem plan_units_correct:
  "plan_units g \<noteq> None
   \<and> (graph_ok g \<longrightarrow> \<not> acyclic (edge_rel g) \<longrightarrow> plan_units g = Some (Inl WorkflowCycle))
   \<and> (graph_ok g \<longrightarrow> acyclic (edge_rel g) \<longrightarrow>
       (\<exists>order units. plan_units g = Some (Inr units) \<and> concat (map wu_nodes units) = order
          \<and> mset order = mset (wg_nodes g)
          \<and> (\<forall>e i j. e \<in> set (wg_edges g) \<and> i < length order \<and> j < length order
               \<and> wn_id (order ! i) = we_source e \<and> wn_id (order ! j) = we_target e \<longrightarrow> i < j)
          \<and> (\<forall>u\<in>set units. unit_ok u) \<and> chains_apart units))"
proof (intro conjI impI)
  show "plan_units g \<noteq> None" using topological_order_total[of g] by (auto simp: plan_units_def)
  show "plan_units g = Some (Inl WorkflowCycle)" if "graph_ok g" "\<not> acyclic (edge_rel g)"
    using order_of_cyclic[OF that] by (simp add: plan_units_def)
next
  assume "graph_ok g" "acyclic (edge_rel g)"
  then obtain order where order: "topological_order g = Some (Inr order)" "mset order = mset (wg_nodes g)"
      "\<forall>e i j. e \<in> set (wg_edges g) \<and> i < length order \<and> j < length order \<and> wn_id (order ! i) = we_source e
          \<and> wn_id (order ! j) = we_target e \<longrightarrow> i < j"
    using order_of_acyclic by blast
  then show "\<exists>order units. plan_units g = Some (Inr units) \<and> concat (map wu_nodes units) = order
          \<and> mset order = mset (wg_nodes g)
          \<and> (\<forall>e i j. e \<in> set (wg_edges g) \<and> i < length order \<and> j < length order
               \<and> wn_id (order ! i) = we_source e \<and> wn_id (order ! j) = we_target e \<longrightarrow> i < j)
          \<and> (\<forall>u\<in>set units. unit_ok u) \<and> chains_apart units"
    using plan_units_order[OF order(1)] unfolding plan_ok_def by blast
qed

definition cyclic_graph :: wf_graph where
  "cyclic_graph = \<lparr>wg_nodes = [sync_node ''a'' ''trigger'', sync_node ''b'' ''trigger''],
     wg_edges = [wf_edge_of ''a'' ''b'', wf_edge_of ''b'' ''a'']\<rparr>"

lemma device_graph_ok: "graph_ok DEVICE_EVENT_WORKFLOW"
  by (simp add: graph_ok_def DEVICE_EVENT_WORKFLOW_def)

lemma device_graph_acyclic: "acyclic (edge_rel DEVICE_EVENT_WORKFLOW)"
proof (rule acyclicI_order)
  fix a b
  assume "(a, b) \<in> edge_rel DEVICE_EVENT_WORKFLOW"
  then have "(a, b) \<in> {(''trigger'', ''normalize''), (''normalize'', ''gate''), (''gate'', ''query-events''),
      (''query-events'', ''summarize''), (''summarize'', ''notify'')}"
    by (simp add: edge_rel_def DEVICE_EVENT_WORKFLOW_def)
  then show "the (map_of [(''notify'', 0), (''summarize'', 1), (''query-events'', 2), (''gate'', 3),
      (''normalize'', 4), (''trigger'', 5::nat)] b) < the (map_of [(''notify'', 0), (''summarize'', 1), (''query-events'', 2),
      (''gate'', 3), (''normalize'', 4), (''trigger'', 5)] a)"
    by (elim insertE emptyE Pair_inject) (simp_all only:, simp_all)
qed

theorem plan_units_correct_witness:
  "plan_units cyclic_graph = Some (Inl WorkflowCycle)
   \<and> (\<exists>units. plan_units DEVICE_EVENT_WORKFLOW = Some (Inr units)
        \<and> mset (concat (map wu_nodes units)) = mset (wg_nodes DEVICE_EVENT_WORKFLOW))"
proof
  have "graph_ok cyclic_graph" by (simp add: graph_ok_def cyclic_graph_def)
  moreover have "(''a'', ''b'') \<in> edge_rel cyclic_graph" "(''b'', ''a'') \<in> edge_rel cyclic_graph"
    by (auto simp: edge_rel_def cyclic_graph_def)
  then have "\<not> acyclic (edge_rel cyclic_graph)"
    unfolding acyclic_def by (meson trancl.r_into_trancl trancl.trancl_into_trancl)
  ultimately show "plan_units cyclic_graph = Some (Inl WorkflowCycle)" using plan_units_correct[of cyclic_graph] by blast
next
  have "acyclic (edge_rel DEVICE_EVENT_WORKFLOW)" by (rule device_graph_acyclic)
  then show "\<exists>units. plan_units DEVICE_EVENT_WORKFLOW = Some (Inr units)
        \<and> mset (concat (map wu_nodes units)) = mset (wg_nodes DEVICE_EVENT_WORKFLOW)"
    using plan_units_correct[of DEVICE_EVENT_WORKFLOW] device_graph_ok by blast
qed

end
