(* ===== verification/Workflow_Run.thy ===== *)
theory Workflow_Run
  imports Workflow_Order
begin

text \<open>
  Running a workflow: the node handlers and \<open>writeWorkflowResult\<close> (\<open>workflows/nodes.ts\<close>), the
  executor with and without durable steps (\<open>workflows/executor.ts\<close>), the trigger built from a
  device event (\<open>workflows/client.ts\<close>). The state a run acts on is the result table and the time
  spent sleeping; the durable step tools of the workflow engine are a parameter.
\<close>

section \<open>State and parameters\<close>

datatype llm_mode = Blocking | Infer

record wf_trigger_data =
  td_deviceId :: string
  td_messageId :: string
  td_runId :: "string option"
  td_emittedAtNs :: "string option"
  td_metric :: int

record wf_timings =
  tm_queryEventsMs :: nat
  tm_summarizeMs :: nat
  tm_notifyMs :: nat

record wf_result_row =
  rr_id :: string
  rr_runId :: string
  rr_deviceId :: string
  rr_messageId :: string
  rr_emittedAtNs :: "string option"
  rr_status :: string
  rr_mode :: string

record wf_world =
  ww_results :: "wf_result_row list"
  ww_slept :: nat

text \<open>\<open>wd_uuid n\<close> is the identifier \<open>randomUUID\<close> returns for the \<open>n\<close>-th row.\<close>

record wf_deps =
  wd_mode :: string
  wd_timings :: wf_timings
  wd_gateThreshold :: int
  wd_llmMode :: llm_mode
  wd_inferBaseUrl :: "string option"
  wd_inferModel :: "string option"
  wd_uuid :: "nat \<Rightarrow> string"

type_synonym node_output = "(string \<times> json) list"
type_synonym node_results = "string \<rightharpoonup> node_output"

record node_context =
  nc_data :: wf_trigger_data
  nc_inputs :: node_output
  nc_deps :: wf_deps

text \<open>\<open>typeof params.payload === 'object'\<close> holds of arrays too, which have none of the fields.
  \<open>String(value)\<close> is given by the parameter \<open>str\<close>.\<close>

definition build_workflow_trigger :: "(json \<Rightarrow> string) \<Rightarrow> string \<Rightarrow> string \<Rightarrow> json \<Rightarrow> wf_trigger_data" where
  "build_workflow_trigger str deviceId messageId payload =
     \<lparr>td_deviceId = deviceId, td_messageId = messageId,
      td_runId = (case json_get payload ''runId'' of Some (JStr r) \<Rightarrow> Some r | _ \<Rightarrow> None),
      td_emittedAtNs = map_option str (json_get payload ''publishedAtNs''),
      td_metric = (case json_get payload ''seq'' of Some (JNum n) \<Rightarrow> n | _ \<Rightarrow> 0)\<rparr>"

section \<open>Node handlers\<close>

definition new_result_row :: "wf_deps \<Rightarrow> wf_trigger_data \<Rightarrow> string \<Rightarrow> nat \<Rightarrow> wf_result_row" where
  "new_result_row deps data status n =
     \<lparr>rr_id = wd_uuid deps n,
      rr_runId = (case td_runId data of None \<Rightarrow> ''unknown'' | Some r \<Rightarrow> r),
      rr_deviceId = td_deviceId data, rr_messageId = td_messageId data,
      rr_emittedAtNs = td_emittedAtNs data, rr_status = status, rr_mode = wd_mode deps\<rparr>"

definition write_workflow_result :: "wf_deps \<Rightarrow> wf_trigger_data \<Rightarrow> string \<Rightarrow> wf_world \<Rightarrow> wf_world" where
  "write_workflow_result deps data status w =
     w\<lparr>ww_results := ww_results w @ [new_result_row deps data status (length (ww_results w))]\<rparr>"

definition wf_sleep :: "nat \<Rightarrow> wf_world \<Rightarrow> wf_world" where
  "wf_sleep ms w = w\<lparr>ww_slept := ww_slept w + ms\<rparr>"

text \<open>\<open>typeof inputs.key === 'number' ? inputs.key : 0\<close>\<close>

definition number_input :: "node_context \<Rightarrow> string \<Rightarrow> int" where
  "number_input ctx key = (case map_of (nc_inputs ctx) key of Some (JNum n) \<Rightarrow> n | _ \<Rightarrow> 0)"

type_synonym node_handler = "node_context \<Rightarrow> wf_world \<Rightarrow> node_output \<times> wf_world"

definition trigger_node :: node_handler where
  "trigger_node ctx w =
     ([(''deviceId'', JStr (td_deviceId (nc_data ctx))), (''metric'', JNum (td_metric (nc_data ctx)))], w)"

definition normalize_node :: node_handler where
  "normalize_node ctx w =
     (let metric = number_input ctx ''metric''
      in ([(''normalizedMetric'', JNum metric), (''bucket'', JStr (if metric mod 2 = 0 then ''even'' else ''odd''))], w))"

definition threshold_gate_node :: node_handler where
  "threshold_gate_node ctx w =
     (let metric = number_input ctx ''normalizedMetric'';
          passed = wd_gateThreshold (nc_deps ctx) \<le> metric
      in ([(''passed'', JBool passed), (''halt'', JBool (\<not> passed))], w))"

definition RECENT_EVENT_COUNT :: nat where
  "RECENT_EVENT_COUNT = 10"

definition query_device_events_node :: node_handler where
  "query_device_events_node ctx w =
     (let recent = map (\<lambda>i. JObj [(''seq'', JNum (td_metric (nc_data ctx) - int i)),
            (''deviceId'', JStr (td_deviceId (nc_data ctx)))]) [0..<RECENT_EVENT_COUNT]
      in ([(''recentEvents'', JArr recent), (''recentCount'', JNum (int (length recent)))],
          wf_sleep (tm_queryEventsMs (wd_timings (nc_deps ctx))) w))"

definition llm_summarize_node :: node_handler where
  "llm_summarize_node ctx w =
     (let count = number_input ctx ''recentCount''
      in ([(''summary'', JStr (''Summarized '' @ print_int count @ '' recent events.''))],
          wf_sleep (tm_summarizeMs (wd_timings (nc_deps ctx))) w))"

definition send_notification_node :: node_handler where
  "send_notification_node ctx w =
     ([(''delivered'', JBool True)],
      write_workflow_result (nc_deps ctx) (nc_data ctx) ''completed''
        (wf_sleep (tm_notifyMs (wd_timings (nc_deps ctx))) w))"

text \<open>The types inherited from \<open>Object.prototype\<close>, such as \<open>toString\<close>, are left out: no graph
  of the repository names them.\<close>

definition NODE_HANDLERS :: "string \<rightharpoonup> node_handler" where
  "NODE_HANDLERS = map_of
     [(''trigger'', trigger_node), (''normalize'', normalize_node), (''threshold-gate'', threshold_gate_node),
      (''query-device-events'', query_device_events_node), (''llm-summarize'', llm_summarize_node),
      (''send-notification'', send_notification_node)]"

section \<open>The executor\<close>

text \<open>\<open>Object.assign(inputs, results[edge.source] ?? {})\<close> for every edge into the node.\<close>

fun assign_all :: "node_output \<Rightarrow> node_output \<Rightarrow> node_output" where
  "assign_all target [] = target"
| "assign_all target ((k, v) # es) = assign_all (AList.update k v target) es"

definition collect_inputs :: "wf_graph \<Rightarrow> string \<Rightarrow> node_results \<Rightarrow> node_output" where
  "collect_inputs g nodeId results =
     foldl (\<lambda>inputs e. if we_target e = nodeId
         then assign_all inputs (case results (we_source e) of None \<Rightarrow> [] | Some out \<Rightarrow> out) else inputs)
       [] (wg_edges g)"

definition execute_node ::
    "wf_graph \<Rightarrow> wf_trigger_data \<Rightarrow> wf_deps \<Rightarrow> wf_node \<Rightarrow> node_results \<Rightarrow> wf_world
      \<Rightarrow> (wf_error + node_output) \<times> wf_world" where
  "execute_node g data deps node results w =
     (case NODE_HANDLERS (wn_type node) of
        None \<Rightarrow> (Inl (NoHandler (wn_type node)), w)
      | Some handler \<Rightarrow>
          (let out = handler \<lparr>nc_data = data, nc_inputs = collect_inputs g (wn_id node) results, nc_deps = deps\<rparr> w
           in (Inr (fst out), snd out)))"

definition output_halts :: "node_output \<Rightarrow> bool" where
  "output_halts out = (map_of out ''halt'' = Some (JBool True))"

fun execute_chain ::
    "wf_graph \<Rightarrow> wf_trigger_data \<Rightarrow> wf_deps \<Rightarrow> wf_node list \<Rightarrow> node_results \<Rightarrow> node_results \<Rightarrow> wf_world
      \<Rightarrow> (wf_error + node_results \<times> bool) \<times> wf_world" where
  "execute_chain g data deps [] loc outputs w = (Inr (outputs, False), w)"
| "execute_chain g data deps (node # nodes) loc outputs w =
     (case execute_node g data deps node loc w of
        (Inl e, w') \<Rightarrow> (Inl e, w')
      | (Inr out, w') \<Rightarrow>
          (if output_halts out then (Inr (outputs(wn_id node \<mapsto> out), True), w')
           else execute_chain g data deps nodes (loc(wn_id node \<mapsto> out)) (outputs(wn_id node \<mapsto> out)) w'))"

datatype run_outcome = Completed | Skipped

fun direct_units ::
    "wf_graph \<Rightarrow> wf_trigger_data \<Rightarrow> wf_deps \<Rightarrow> wf_unit list \<Rightarrow> node_results \<Rightarrow> wf_world
      \<Rightarrow> (wf_error + run_outcome) \<times> wf_world" where
  "direct_units g data deps [] results w = (Inr Completed, w)"
| "direct_units g data deps (u # us) results w =
     (if wu_async u \<and> wu_nodes u \<noteq> []
      then case execute_node g data deps (hd (wu_nodes u)) results w of
             (Inl e, w') \<Rightarrow> (Inl e, w')
           | (Inr out, w') \<Rightarrow> direct_units g data deps us (results(wn_id (hd (wu_nodes u)) \<mapsto> out)) w'
      else case execute_chain g data deps (wu_nodes u) results Map.empty w of
             (Inl e, w') \<Rightarrow> (Inl e, w')
           | (Inr (outputs, halted), w') \<Rightarrow>
               if halted then (Inr Skipped, write_workflow_result deps data ''skipped'' w')
               else direct_units g data deps us (results ++ outputs) w')"

text \<open>\<open>None\<close> would be a run that never returns.\<close>

definition run_workflow_direct ::
    "wf_graph \<Rightarrow> wf_trigger_data \<Rightarrow> wf_deps \<Rightarrow> wf_world \<Rightarrow> ((wf_error + run_outcome) \<times> wf_world) option" where
  "run_workflow_direct g data deps w =
     map_option (\<lambda>plan. case plan of
         Inl e \<Rightarrow> (Inl e, w) | Inr units \<Rightarrow> direct_units g data deps units Map.empty w) (plan_units g)"

section \<open>Durable steps\<close>

datatype step_value = NodeValue node_output | ChainValue node_results bool | SkippedValue

text \<open>The engine's own state has type \<open>'e\<close>; a handler acts on the world only.\<close>

type_synonym step_handler = "wf_world \<Rightarrow> (wf_error + step_value) \<times> wf_world"

record 'e step_tools =
  st_run :: "string \<Rightarrow> step_handler \<Rightarrow> wf_world \<times> 'e \<Rightarrow> (wf_error + step_value) \<times> wf_world \<times> 'e"
  st_infer :: "string \<Rightarrow> json \<Rightarrow> json \<Rightarrow> wf_world \<times> 'e \<Rightarrow> (wf_error + json) \<times> wf_world \<times> 'e"
  st_openai :: "string \<Rightarrow> string option \<Rightarrow> string \<Rightarrow> json"

text \<open>\<open>response.choices?.[0]?.message?.content ?? 'summarized'\<close>\<close>

definition infer_summary :: "json \<Rightarrow> json" where
  "infer_summary response =
     (case json_get response ''choices'' of
        Some (JArr (c # _)) \<Rightarrow>
          (case json_get c ''message'' of
             Some m \<Rightarrow> (case json_get m ''content'' of
                 None \<Rightarrow> JStr ''summarized'' | Some JNull \<Rightarrow> JStr ''summarized'' | Some v \<Rightarrow> v)
           | None \<Rightarrow> JStr ''summarized'')
      | _ \<Rightarrow> JStr ''summarized'')"

definition run_infer_summarize ::
    "'e step_tools \<Rightarrow> wf_node \<Rightarrow> wf_deps \<Rightarrow> wf_world \<times> 'e \<Rightarrow> (wf_error + node_output) \<times> wf_world \<times> 'e" where
  "run_infer_summarize step node deps s =
     (let model = (case wd_inferModel deps of None \<Rightarrow> ''fake'' | Some m \<Rightarrow> m);
          r = st_infer step (''node-'' @ wn_id node) (st_openai step model (wd_inferBaseUrl deps) ''sk-fake'')
            (JObj [(''model'', JStr model), (''messages'', JArr [JObj [(''role'', JStr ''user''),
               (''content'', JStr ''Summarize the recent events for this device.'')]])]) s
      in (case fst r of
            Inl e \<Rightarrow> Inl e
          | Inr JNull \<Rightarrow> Inl (StepFailed (''node-'' @ wn_id node))
          | Inr response \<Rightarrow> Inr [(''summary'', infer_summary response), (''inferred'', JBool True)], snd r))"

definition chain_label :: "wf_node list \<Rightarrow> string" where
  "chain_label nodes = join_with ''+'' (map wn_id nodes)"

definition unit_step_id :: "wf_unit \<Rightarrow> string" where
  "unit_step_id u = (if wu_async u \<and> wu_nodes u \<noteq> [] then ''node-'' @ wn_id (hd (wu_nodes u))
     else ''chain-'' @ chain_label (wu_nodes u))"

definition node_handler_of ::
    "wf_graph \<Rightarrow> wf_trigger_data \<Rightarrow> wf_deps \<Rightarrow> wf_node \<Rightarrow> node_results \<Rightarrow> step_handler" where
  "node_handler_of g data deps node results w =
     (case execute_node g data deps node results w of
        (Inl e, w') \<Rightarrow> (Inl e, w') | (Inr out, w') \<Rightarrow> (Inr (NodeValue out), w'))"

definition chain_handler_of ::
    "wf_graph \<Rightarrow> wf_trigger_data \<Rightarrow> wf_deps \<Rightarrow> wf_node list \<Rightarrow> node_results \<Rightarrow> step_handler" where
  "chain_handler_of g data deps nodes results w =
     (case execute_chain g data deps nodes results Map.empty w of
        (Inl e, w') \<Rightarrow> (Inl e, w') | (Inr (outputs, halted), w') \<Rightarrow> (Inr (ChainValue outputs halted), w'))"

definition skip_handler :: "wf_trigger_data \<Rightarrow> wf_deps \<Rightarrow> step_handler" where
  "skip_handler data deps w = (Inr SkippedValue, write_workflow_result deps data ''skipped'' w)"

text \<open>One turn of the loop: the new results, and whether the run was halted by a chain.\<close>

definition step_unit ::
    "'e step_tools \<Rightarrow> wf_graph \<Rightarrow> wf_trigger_data \<Rightarrow> wf_deps \<Rightarrow> wf_unit \<Rightarrow> node_results \<Rightarrow> wf_world \<times> 'e
      \<Rightarrow> (wf_error + node_results \<times> bool) \<times> wf_world \<times> 'e" where
  "step_unit step g data deps u results s =
     (if wu_async u \<and> wu_nodes u \<noteq> []
      then let node = hd (wu_nodes u)
        in if wn_type node = ''llm-summarize'' \<and> wd_llmMode deps = Infer
           then case run_infer_summarize step node deps s of
                  (Inl e, s') \<Rightarrow> (Inl e, s')
                | (Inr out, s') \<Rightarrow> (Inr (results(wn_id node \<mapsto> out), False), s')
           else case st_run step (unit_step_id u) (node_handler_of g data deps node results) s of
                  (Inr (NodeValue out), s') \<Rightarrow> (Inr (results(wn_id node \<mapsto> out), False), s')
                | (Inr _, s') \<Rightarrow> (Inl (StepFailed (unit_step_id u)), s')
                | (Inl e, s') \<Rightarrow> (Inl e, s')
      else case st_run step (unit_step_id u) (chain_handler_of g data deps (wu_nodes u) results) s of
             (Inr (ChainValue outputs halted), s') \<Rightarrow> (Inr (results ++ outputs, halted), s')
           | (Inr _, s') \<Rightarrow> (Inl (StepFailed (unit_step_id u)), s')
           | (Inl e, s') \<Rightarrow> (Inl e, s'))"

fun step_units ::
    "'e step_tools \<Rightarrow> wf_graph \<Rightarrow> wf_trigger_data \<Rightarrow> wf_deps \<Rightarrow> wf_unit list \<Rightarrow> node_results \<Rightarrow> wf_world \<times> 'e
      \<Rightarrow> (wf_error + run_outcome) \<times> wf_world \<times> 'e" where
  "step_units step g data deps [] results s = (Inr Completed, s)"
| "step_units step g data deps (u # us) results s =
     (case step_unit step g data deps u results s of
        (Inl e, s') \<Rightarrow> (Inl e, s')
      | (Inr (results', halted), s') \<Rightarrow>
          (if halted
           then case st_run step ''record-skipped'' (skip_handler data deps) s' of
                  (Inl e, s'') \<Rightarrow> (Inl e, s'')
                | (Inr _, s'') \<Rightarrow> (Inr Skipped, s'')
           else step_units step g data deps us results' s'))"

definition run_workflow_with_steps ::
    "'e step_tools \<Rightarrow> wf_graph \<Rightarrow> wf_trigger_data \<Rightarrow> wf_deps \<Rightarrow> wf_world \<times> 'e
      \<Rightarrow> ((wf_error + run_outcome) \<times> wf_world \<times> 'e) option" where
  "run_workflow_with_steps step g data deps s =
     map_option (\<lambda>plan. case plan of
         Inl e \<Rightarrow> (Inl e, s) | Inr units \<Rightarrow> step_units step g data deps units Map.empty s) (plan_units g)"

text \<open>The two engines: the Inngest function and the DBOS workflow registered at start-up.\<close>

definition workflow_function :: "'e step_tools \<Rightarrow> wf_deps \<Rightarrow> wf_trigger_data \<Rightarrow> wf_world \<times> 'e
      \<Rightarrow> ((wf_error + run_outcome) \<times> wf_world \<times> 'e) option" where
  "workflow_function step deps data s = run_workflow_with_steps step DEVICE_EVENT_WORKFLOW data deps s"

text \<open>\<open>registeredWorkflow\<close> holds the dependencies \<open>initDbosWorkflow\<close> was called with.\<close>

definition init_dbos_workflow :: "wf_deps \<Rightarrow> wf_deps option \<Rightarrow> wf_deps option" where
  "init_dbos_workflow deps registeredWorkflow = Some deps"

definition run_workflow_dbos :: "'e step_tools \<Rightarrow> wf_deps option \<Rightarrow> wf_trigger_data \<Rightarrow> wf_world \<times> 'e
      \<Rightarrow> ((wf_error + run_outcome) \<times> wf_world \<times> 'e) option" where
  "run_workflow_dbos dbosStep registeredWorkflow data s =
     (case registeredWorkflow of
        None \<Rightarrow> Some (Inl DbosNotInitialized, s)
      | Some deps \<Rightarrow> run_workflow_with_steps dbosStep DEVICE_EVENT_WORKFLOW data deps s)"

end
