(* ===== verification/Workflow_Durable.thy ===== *)
theory Workflow_Durable
  imports Workflow_Run
begin

text \<open>
  Durable runs agree with direct ones, also when their process is lost and they are resumed, and every
  run of the device-event workflow writes exactly one result row.
\<close>

section \<open>What the engine promises\<close>

text \<open>
  The documented behaviour of Inngest's \<open>step.run\<close> and \<open>step.ai.infer\<close> and of \<open>DBOS.runStep\<close>: a
  step whose id is in the journal is answered from it without running its handler or asking the
  model; otherwise that happens and the value is journalled. \<open>answer\<close> is what the model replies.
\<close>

datatype journal_entry = Stepped step_value | Inferred json

type_synonym journal = "string \<rightharpoonup> journal_entry"

definition durable :: "(json \<Rightarrow> json \<Rightarrow> wf_error + json) \<Rightarrow> journal step_tools \<Rightarrow> bool" where
  "durable answer step \<longleftrightarrow>
     (\<forall>nid h w j. st_run step nid h (w, j) =
       (case j nid of
          Some (Stepped v) \<Rightarrow> (Inr v, w, j)
        | Some (Inferred _) \<Rightarrow> (Inl (StepFailed nid), w, j)
        | None \<Rightarrow> (case h w of (Inl e, w') \<Rightarrow> (Inl e, w', j) | (Inr v, w') \<Rightarrow> (Inr v, w', j(nid \<mapsto> Stepped v)))))
     \<and> (\<forall>nid m b w j. st_infer step nid m b (w, j) =
       (case j nid of
          Some (Inferred v) \<Rightarrow> (Inr v, w, j)
        | Some (Stepped _) \<Rightarrow> (Inl (StepFailed nid), w, j)
        | None \<Rightarrow> (case answer m b of Inl e \<Rightarrow> (Inl e, w, j) | Inr v \<Rightarrow> (Inr v, w, j(nid \<mapsto> Inferred v)))))"

lemma durable_run:
  "durable answer step \<Longrightarrow> st_run step nid h (w, j) =
     (case j nid of
        Some (Stepped v) \<Rightarrow> (Inr v, w, j)
      | Some (Inferred _) \<Rightarrow> (Inl (StepFailed nid), w, j)
      | None \<Rightarrow> (case h w of (Inl e, w') \<Rightarrow> (Inl e, w', j) | (Inr v, w') \<Rightarrow> (Inr v, w', j(nid \<mapsto> Stepped v))))"
  by (simp add: durable_def)

lemma durable_infer:
  "durable answer step \<Longrightarrow> st_infer step nid m b (w, j) =
     (case j nid of
        Some (Inferred v) \<Rightarrow> (Inr v, w, j)
      | Some (Stepped _) \<Rightarrow> (Inl (StepFailed nid), w, j)
      | None \<Rightarrow> (case answer m b of Inl e \<Rightarrow> (Inl e, w, j) | Inr v \<Rightarrow> (Inr v, w, j(nid \<mapsto> Inferred v))))"
  by (simp add: durable_def)

text \<open>A step that succeeded is journalled, and touches no other entry.\<close>

lemma durable_run_replay:
  assumes "durable answer step" "st_run step nid h (w, j) = (Inr v, w', j')"
  shows "k \<noteq> nid \<Longrightarrow> j' k = j k" "j'' nid = j' nid \<Longrightarrow> st_run step nid h' (w'', j'') = (Inr v, w'', j'')"
proof -
  have "j' nid = Some (Stepped v) \<and> (\<forall>k. k \<noteq> nid \<longrightarrow> j' k = j k)"
    using assms(2) by (auto simp: durable_run[OF assms(1)] split: option.splits journal_entry.splits prod.splits sum.splits)
  then show "k \<noteq> nid \<Longrightarrow> j' k = j k" "j'' nid = j' nid \<Longrightarrow> st_run step nid h' (w'', j'') = (Inr v, w'', j'')"
    by (simp_all add: durable_run[OF assms(1)])
qed

lemma durable_infer_replay:
  assumes "durable answer step" "st_infer step nid m b (w, j) = (Inr v, w', j')"
  shows "k \<noteq> nid \<Longrightarrow> j' k = j k" "j'' nid = j' nid \<Longrightarrow> st_infer step nid m' b' (w'', j'') = (Inr v, w'', j'')"
proof -
  have "j' nid = Some (Inferred v) \<and> (\<forall>k. k \<noteq> nid \<longrightarrow> j' k = j k)"
    using assms(2) by (auto simp: durable_infer[OF assms(1)] split: option.splits journal_entry.splits sum.splits)
  then show "k \<noteq> nid \<Longrightarrow> j' k = j k" "j'' nid = j' nid \<Longrightarrow> st_infer step nid m' b' (w'', j'') = (Inr v, w'', j'')"
    by (simp_all add: durable_infer[OF assms(1)])
qed

section \<open>One unit without steps\<close>

definition direct_unit ::
    "wf_graph \<Rightarrow> wf_trigger_data \<Rightarrow> wf_deps \<Rightarrow> wf_unit \<Rightarrow> node_results \<Rightarrow> wf_world
      \<Rightarrow> (wf_error + node_results \<times> bool) \<times> wf_world" where
  "direct_unit g data deps u results w =
     (if wu_async u \<and> wu_nodes u \<noteq> []
      then case execute_node g data deps (hd (wu_nodes u)) results w of
             (Inl e, w') \<Rightarrow> (Inl e, w')
           | (Inr out, w') \<Rightarrow> (Inr (results(wn_id (hd (wu_nodes u)) \<mapsto> out), False), w')
      else case execute_chain g data deps (wu_nodes u) results Map.empty w of
             (Inl e, w') \<Rightarrow> (Inl e, w')
           | (Inr (outputs, halted), w') \<Rightarrow> (Inr (results ++ outputs, halted), w'))"

lemma direct_units_Cons:
  "direct_units g data deps (u # us) results w =
     (case direct_unit g data deps u results w of
        (Inl e, w') \<Rightarrow> (Inl e, w')
      | (Inr (results', halted), w') \<Rightarrow>
          (if halted then (Inr Skipped, write_workflow_result deps data ''skipped'' w')
           else direct_units g data deps us results' w'))"
  by (auto simp: direct_unit_def split: prod.split sum.split)

declare direct_units.simps(2) [simp del]

text \<open>A unit's first turn in a blocking run does what the direct executor does.\<close>

lemma step_unit_new:
  assumes "durable answer step" and "wd_llmMode deps = Blocking" and "j (unit_step_id u) = None"
  shows "\<exists>j'. step_unit step g data deps u results (w, j) =
     (fst (direct_unit g data deps u results w), snd (direct_unit g data deps u results w), j')
     \<and> (\<forall>nid. nid \<noteq> unit_step_id u \<longrightarrow> j' nid = j nid)"
  using assms
  by (auto simp: step_unit_def direct_unit_def durable_run node_handler_of_def chain_handler_of_def Let_def
      split: prod.split sum.split)

text \<open>A summary asked of the model: one call of the engine, whose answer is read.\<close>

definition infer_model :: "'e step_tools \<Rightarrow> wf_deps \<Rightarrow> json" where
  "infer_model step deps = st_openai step (case wd_inferModel deps of None \<Rightarrow> ''fake'' | Some m \<Rightarrow> m) (wd_inferBaseUrl deps) ''sk-fake''"

definition infer_body :: "wf_deps \<Rightarrow> json" where
  "infer_body deps = JObj [(''model'', JStr (case wd_inferModel deps of None \<Rightarrow> ''fake'' | Some m \<Rightarrow> m)),
     (''messages'', JArr [JObj [(''role'', JStr ''user''), (''content'', JStr ''Summarize the recent events for this device.'')]])]"

definition infer_output :: "string \<Rightarrow> wf_error + json \<Rightarrow> wf_error + node_output" where
  "infer_output nid x = (case x of
     Inl e \<Rightarrow> Inl e
   | Inr v \<Rightarrow> if v = JNull then Inl (StepFailed nid) else Inr [(''summary'', infer_summary v), (''inferred'', JBool True)])"

lemma run_infer_eq:
  "run_infer_summarize step node deps s =
     (case st_infer step (''node-'' @ wn_id node) (infer_model step deps) (infer_body deps) s of
        (x, s') \<Rightarrow> (infer_output (''node-'' @ wn_id node) x, s'))"
proof -
  obtain x s' where x: "st_infer step (''node-'' @ wn_id node) (infer_model step deps) (infer_body deps) s = (x, s')" by (metis surj_pair)
  then have "run_infer_summarize step node deps s = (case x of
      Inl e \<Rightarrow> Inl e
    | Inr JNull \<Rightarrow> Inl (StepFailed (''node-'' @ wn_id node))
    | Inr response \<Rightarrow> Inr [(''summary'', infer_summary response), (''inferred'', JBool True)], s')"
    unfolding run_infer_summarize_def Let_def infer_model_def infer_body_def by (simp only: fst_conv snd_conv)
  also have "\<dots> = (infer_output (''node-'' @ wn_id node) x, s')"
    by (simp add: infer_output_def split: sum.split json.split)
  finally show ?thesis unfolding x prod.case .
qed

text \<open>Every unit is one call of the engine, whose answer is read.\<close>

definition node_answer :: "wf_unit \<Rightarrow> node_results \<Rightarrow> wf_error + step_value \<Rightarrow> wf_error + node_results \<times> bool" where
  "node_answer u results x = (case x of
     Inl e \<Rightarrow> Inl e
   | Inr (NodeValue out) \<Rightarrow> Inr (results(wn_id (hd (wu_nodes u)) \<mapsto> out), False)
   | Inr _ \<Rightarrow> Inl (StepFailed (unit_step_id u)))"

definition chain_answer :: "wf_unit \<Rightarrow> node_results \<Rightarrow> wf_error + step_value \<Rightarrow> wf_error + node_results \<times> bool" where
  "chain_answer u results x = (case x of
     Inl e \<Rightarrow> Inl e
   | Inr (ChainValue outputs halted) \<Rightarrow> Inr (results ++ outputs, halted)
   | Inr _ \<Rightarrow> Inl (StepFailed (unit_step_id u)))"

definition infer_answer :: "wf_unit \<Rightarrow> node_results \<Rightarrow> wf_error + json \<Rightarrow> wf_error + node_results \<times> bool" where
  "infer_answer u results x = (case infer_output (unit_step_id u) x of
     Inl e \<Rightarrow> Inl e | Inr out \<Rightarrow> Inr (results(wn_id (hd (wu_nodes u)) \<mapsto> out), False))"

definition infers :: "wf_deps \<Rightarrow> wf_unit \<Rightarrow> bool" where
  "infers deps u \<longleftrightarrow> wn_type (hd (wu_nodes u)) = ''llm-summarize'' \<and> wd_llmMode deps = Infer"

lemma step_unit_call:
  "step_unit step g data deps u results s =
     (if wu_async u \<and> wu_nodes u \<noteq> [] \<and> infers deps u
      then map_prod (infer_answer u results) id (st_infer step (unit_step_id u) (infer_model step deps) (infer_body deps) s)
      else if wu_async u \<and> wu_nodes u \<noteq> []
      then map_prod (node_answer u results) id
        (st_run step (unit_step_id u) (node_handler_of g data deps (hd (wu_nodes u)) results) s)
      else map_prod (chain_answer u results) id
        (st_run step (unit_step_id u) (chain_handler_of g data deps (wu_nodes u) results) s))"
proof -
  have nid: "''node-'' @ wn_id (hd (wu_nodes u)) = unit_step_id u" if "wu_async u \<and> wu_nodes u \<noteq> []"
    using that by (simp add: unit_step_id_def)
  consider (infer) "wu_async u \<and> wu_nodes u \<noteq> []" "infers deps u" | (node) "wu_async u \<and> wu_nodes u \<noteq> []" "\<not> infers deps u"
    | (chain) "\<not> (wu_async u \<and> wu_nodes u \<noteq> [])" by blast
  then show ?thesis
  proof cases
    case infer
    obtain x s' where x: "st_infer step (unit_step_id u) (infer_model step deps) (infer_body deps) s = (x, s')" by (metis surj_pair)
    have "step_unit step g data deps u results s = (infer_answer u results x, s')"
      unfolding step_unit_def if_P[OF infer(1)] Let_def if_P[OF infer(2)[unfolded infers_def]] run_infer_eq nid[OF infer(1)] x prod.case
      by (simp add: infer_answer_def split: sum.split)
    then show ?thesis using infer by (simp add: x)
  next
    case node
    obtain x s' where x: "st_run step (unit_step_id u) (node_handler_of g data deps (hd (wu_nodes u)) results) s = (x, s')" by (metis surj_pair)
    have "step_unit step g data deps u results s = (node_answer u results x, s')"
      unfolding step_unit_def if_P[OF node(1)] Let_def if_not_P[OF node(2)[unfolded infers_def]] x prod.case
      by (simp add: node_answer_def split: sum.split step_value.split)
    then show ?thesis using node by (simp add: x)
  next
    case chain
    obtain x s' where x: "st_run step (unit_step_id u) (chain_handler_of g data deps (wu_nodes u) results) s = (x, s')" by (metis surj_pair)
    have "step_unit step g data deps u results s = (chain_answer u results x, s')"
      unfolding step_unit_def if_not_P[OF chain] x prod.case
      by (simp add: chain_answer_def split: sum.split step_value.split)
    then show ?thesis using chain by (auto simp: x)
  qed
qed

text \<open>A unit that succeeded, now or in an earlier life, is journalled: it touches no other entry, and
  when it comes again it answers the same and leaves everything as it is.\<close>

lemma step_unit_journal:
  assumes "durable answer step" and "step_unit step g data deps u results (w, j) = (Inr r, w', j')"
  shows "nid \<noteq> unit_step_id u \<Longrightarrow> j' nid = j nid"
    and "j'' (unit_step_id u) = j' (unit_step_id u) \<Longrightarrow> step_unit step g data deps u results (w'', j'') = (Inr r, w'', j'')"
proof -
  consider (infer) "wu_async u \<and> wu_nodes u \<noteq> [] \<and> infers deps u"
    | (node) "wu_async u \<and> wu_nodes u \<noteq> []" "\<not> infers deps u"
    | (chain) "\<not> (wu_async u \<and> wu_nodes u \<noteq> [])" by blast
  then have "(nid \<noteq> unit_step_id u \<longrightarrow> j' nid = j nid)
    \<and> (j'' (unit_step_id u) = j' (unit_step_id u) \<longrightarrow> step_unit step g data deps u results (w'', j'') = (Inr r, w'', j''))"
  proof cases
    case infer
    then obtain v where v: "st_infer step (unit_step_id u) (infer_model step deps) (infer_body deps) (w, j) = (Inr v, w', j')"
        "infer_answer u results (Inr v) = Inr r"
      using assms(2) by (auto simp: step_unit_call infer_answer_def infer_output_def map_prod_def split: prod.splits sum.splits if_splits)
    with durable_infer_replay[OF assms(1) v(1)] infer show ?thesis by (simp add: step_unit_call)
  next
    case node
    then obtain v where v: "st_run step (unit_step_id u) (node_handler_of g data deps (hd (wu_nodes u)) results) (w, j) = (Inr v, w', j')"
        "node_answer u results (Inr v) = Inr r"
      using assms(2) by (auto simp: step_unit_call node_answer_def map_prod_def split: prod.splits sum.splits step_value.splits)
    with durable_run_replay[OF assms(1) v(1)] node show ?thesis by (simp add: step_unit_call)
  next
    case chain
    then obtain v where v: "st_run step (unit_step_id u) (chain_handler_of g data deps (wu_nodes u) results) (w, j) = (Inr v, w', j')"
        "chain_answer u results (Inr v) = Inr r"
      using assms(2) by (auto simp: step_unit_call chain_answer_def map_prod_def split: prod.splits sum.splits step_value.splits)
    with durable_run_replay[OF assms(1) v(1)] chain show ?thesis by (auto simp: step_unit_call)
  qed
  then show "nid \<noteq> unit_step_id u \<Longrightarrow> j' nid = j nid"
    and "j'' (unit_step_id u) = j' (unit_step_id u) \<Longrightarrow> step_unit step g data deps u results (w'', j'') = (Inr r, w'', j'')"
    by blast+
qed

lemma record_skipped_id [simp]: "unit_step_id u \<noteq> ''record-skipped''" "''record-skipped'' \<noteq> unit_step_id u"
  by (simp_all add: unit_step_id_def)

section \<open>Fresh runs\<close>

lemma step_units_fresh:
  assumes "durable answer step" and "wd_llmMode deps = Blocking"
  shows "distinct (map unit_step_id us) \<Longrightarrow> \<forall>u\<in>set us. j (unit_step_id u) = None \<Longrightarrow> j ''record-skipped'' = None
     \<Longrightarrow> \<exists>j'. step_units step g data deps us results (w, j) =
           (fst (direct_units g data deps us results w), snd (direct_units g data deps us results w), j')"
proof (induction us arbitrary: results w j)
  case Nil
  then show ?case by simp
next
  case (Cons u us)
  have none: "j (unit_step_id u) = None" using Cons.prems by simp
  obtain r w1 where direct: "direct_unit g data deps u results w = (r, w1)" by force
  then obtain j1 where step: "step_unit step g data deps u results (w, j) = (r, w1, j1)"
    and j1: "\<And>nid. nid \<noteq> unit_step_id u \<Longrightarrow> j1 nid = j nid"
    using step_unit_new[where j = j and u = u and g = g and data = data and results = results and w = w, OF assms none] by auto
  show ?case
  proof (cases r)
    case (Inl e)
    with step direct show ?thesis by (simp add: direct_units_Cons)
  next
    case (Inr r')
    obtain results' halted where r': "r' = (results', halted)" by (cases r')
    show ?thesis
    proof (cases halted)
      case True
      have "j1 ''record-skipped'' = None" using Cons.prems(3) j1 by simp
      with True step Inr r' direct show ?thesis
        by (simp add: direct_units_Cons durable_run[OF assms(1)] skip_handler_def)
    next
      case False
      have "\<forall>u'\<in>set us. j1 (unit_step_id u') = None" "j1 ''record-skipped'' = None"
        using Cons.prems j1 by (auto simp: image_iff)
      then obtain j' where "step_units step g data deps us results' (w1, j1) =
           (fst (direct_units g data deps us results' w1), snd (direct_units g data deps us results' w1), j')"
        using Cons.IH[of j1 results' w1] Cons.prems(1) by auto
      with step Inr r' direct False show ?thesis by (simp add: direct_units_Cons)
    qed
  qed
qed

section \<open>Lost processes\<close>

text \<open>An engine whose process is lost at some step: the fuel counts the steps it still answers, and
  \<^const>\<open>None\<close> is a process that is gone. What was done before to the world and to the journal
  stays.\<close>

definition mortal :: "journal step_tools \<Rightarrow> (journal \<times> nat option) step_tools" where
  "mortal step = \<lparr>
     st_run = (\<lambda>nid h (w, j, life). case life of
         Some (Suc n) \<Rightarrow> (case st_run step nid h (w, j) of (r, w', j') \<Rightarrow> (r, w', j', Some n))
       | _ \<Rightarrow> (Inl (StepFailed nid), w, j, None)),
     st_infer = (\<lambda>nid m b (w, j, life). case life of
         Some (Suc n) \<Rightarrow> (case st_infer step nid m b (w, j) of (r, w', j') \<Rightarrow> (r, w', j', Some n))
       | _ \<Rightarrow> (Inl (StepFailed nid), w, j, None)),
     st_openai = st_openai step\<rparr>"

lemma mortal_run:
  "st_run (mortal step) nid h (w, j, Some 0) = (Inl (StepFailed nid), w, j, None)"
  "st_run (mortal step) nid h (w, j, Some (Suc n)) = (case st_run step nid h (w, j) of (r, w', j') \<Rightarrow> (r, w', j', Some n))"
  by (simp_all add: mortal_def)

lemma mortal_infer:
  "st_infer (mortal step) nid m b (w, j, Some 0) = (Inl (StepFailed nid), w, j, None)"
  "st_infer (mortal step) nid m b (w, j, Some (Suc n)) = (case st_infer step nid m b (w, j) of (r, w', j') \<Rightarrow> (r, w', j', Some n))"
  "infer_model (mortal step) deps = infer_model step deps"
  by (simp_all add: mortal_def infer_model_def)

lemma mortal_unit:
  "step_unit (mortal step) g data deps u results (w, j, Some (Suc n)) =
     (case step_unit step g data deps u results (w, j) of (r, w', j') \<Rightarrow> (r, w', j', Some n))"
  by (simp add: step_unit_call mortal_run(2) mortal_infer(2,3) split: prod.split)

lemma mortal_lost: "\<exists>e. step_unit (mortal step) g data deps u results (w, j, Some 0) = (Inl e, w, j, None)"
  by (simp add: step_unit_call mortal_run(1) mortal_infer(1) infer_answer_def infer_output_def node_answer_def chain_answer_def)

text \<open>The next life of a run that was lost, or that ended without the engine learning of it, goes on exactly where that one was.\<close>

lemma lost_life:
  assumes "durable answer step"
  shows "distinct (map unit_step_id us)
    \<Longrightarrow> step_units (mortal step) g data deps us results (w, j, Some n) = (r, w', j', life) \<Longrightarrow> life = None \<or> \<not> isl r
    \<Longrightarrow> step_units step g data deps us results (w', j') = step_units step g data deps us results (w, j)
      \<and> (\<forall>nid. nid \<notin> unit_step_id ` set us \<union> {''record-skipped''} \<longrightarrow> j' nid = j nid)"
proof (induction us arbitrary: results w j n)
  case Nil
  then show ?case by auto
next
  case (Cons u us)
  show ?case
  proof (cases n)
    case 0
    with Cons.prems(2,3) mortal_lost[of step g data deps u results w j] show ?thesis by auto
  next
    case (Suc m)
    obtain q w1 j1 where unit: "step_unit step g data deps u results (w, j) = (q, w1, j1)" by (metis surj_pair)
    show ?thesis
    proof (cases q)
      case (Inl e)
      with Cons.prems(2,3) unit Suc show ?thesis by (auto simp: mortal_unit)
    next
      case (Inr q')
      obtain results1 halted where q': "q' = (results1, halted)" by (cases q')
      note journal = step_unit_journal[OF assms unit[unfolded Inr q']]
      show ?thesis
      proof (cases halted)
        case True
        have same: "step_unit step g data deps u results (w1, j1) = (Inr (results1, True), w1, j1)"
          using journal(2) True q' by simp
        obtain x w2 j2 where skip: "st_run step ''record-skipped'' (skip_handler data deps) (w1, j1) = (x, w2, j2)" by (metis surj_pair)
        show ?thesis
        proof (cases "(w', j') = (w1, j1)")
          case stays: True
          with same unit Inr q' True journal(1) show ?thesis by auto
        next
          case False
          obtain k where k: "m = Suc k" using False Cons.prems(2) unit Suc Inr q' True
            by (cases m) (auto simp: mortal_unit mortal_run)
          have done1: "(w', j') = (w2, j2)" "r = (case x of Inl e \<Rightarrow> Inl e | Inr v \<Rightarrow> Inr Skipped)" "life = Some k"
            using Cons.prems(2) unit Suc Inr q' True skip k by (auto simp: mortal_unit mortal_run split: sum.splits)
          then obtain v where v: "x = Inr v" using Cons.prems(3) by (cases x) auto
          note written = durable_run_replay[OF assms skip[unfolded v]]
          have "j' (unit_step_id u) = j1 (unit_step_id u)" using written(1) done1 by simp
          then have "step_unit step g data deps u results (w', j') = (Inr (results1, True), w', j')"
            using journal(2) True q' by simp
          then show ?thesis using written done1 unit Inr q' True skip v journal(1) by auto
        qed
      next
        case False
        then have rest: "step_units (mortal step) g data deps us results1 (w1, j1, Some m) = (r, w', j', life)"
          using Cons.prems(2) unit Suc Inr q' by (simp add: mortal_unit)
        have IH: "step_units step g data deps us results1 (w', j') = step_units step g data deps us results1 (w1, j1)"
            "\<forall>nid. nid \<notin> unit_step_id ` set us \<union> {''record-skipped''} \<longrightarrow> j' nid = j1 nid"
          using Cons.IH[OF _ rest Cons.prems(3)] Cons.prems(1) by auto
        have "j' (unit_step_id u) = j1 (unit_step_id u)" using IH(2) Cons.prems(1) by auto
        then have "step_unit step g data deps u results (w', j') = (Inr (results1, halted), w', j')"
          by (rule journal(2))
        with IH journal(1) False unit Inr q' show ?thesis by auto
      qed
    qed
  qed
qed

text \<open>Any number of processes one after the other that are lost or whose outcome is, each taking up the world and the
  journal the one before left.\<close>

inductive lives :: "journal step_tools \<Rightarrow> wf_graph \<Rightarrow> wf_trigger_data \<Rightarrow> wf_deps \<Rightarrow> wf_world \<times> journal \<Rightarrow> wf_world \<times> journal \<Rightarrow> bool"
  for step g data deps where
  first: "lives step g data deps s s"
| lost: "lives step g data deps s (w, j)
    \<Longrightarrow> run_workflow_with_steps (mortal step) g data deps (w, j, Some n) = Some (r, w', j', life) \<Longrightarrow> life = None \<or> \<not> isl r
    \<Longrightarrow> lives step g data deps s (w', j')"

lemma lives_resume:
  assumes "durable answer step" "plan_units g = Some (Inr us)" "distinct (map unit_step_id us)"
  shows "lives step g data deps s s' \<Longrightarrow> run_workflow_with_steps step g data deps s' = run_workflow_with_steps step g data deps s"
proof (induction rule: lives.induct)
  case (lost s w j n r w' j' life)
  then show ?case
    using lost_life[OF assms(1,3), of g data deps Map.empty w j n r w' j' life] assms(2)
    by (simp add: run_workflow_with_steps_def)
qed simp

section \<open>The device-event workflow\<close>

lemma kahn_Nil: "kahn g d [] order = Some order"
  by (simp add: kahn.simps)

lemma kahn_Cons:
  "kahn g d (nid # rest) order = kahn g (fst (relax (wg_edges g) nid (d, rest))) (snd (relax (wg_edges g) nid (d, rest)))
     (case by_id g nid of None \<Rightarrow> order | Some node \<Rightarrow> order @ [node])"
  by (subst kahn.simps) (simp add: Let_def)

definition device_units :: "wf_unit list" where
  "device_units =
     [\<lparr>wu_async = False, wu_nodes = [sync_node ''trigger'' ''trigger'', sync_node ''normalize'' ''normalize'',
        sync_node ''gate'' ''threshold-gate'']\<rparr>,
      \<lparr>wu_async = True, wu_nodes = [async_node ''query-events'' ''query-device-events'']\<rparr>,
      \<lparr>wu_async = True, wu_nodes = [async_node ''summarize'' ''llm-summarize'']\<rparr>,
      \<lparr>wu_async = True, wu_nodes = [async_node ''notify'' ''send-notification'']\<rparr>]"

lemma device_plan: "plan_units DEVICE_EVENT_WORKFLOW = Some (Inr device_units)"
proof -
  have "kahn DEVICE_EVENT_WORKFLOW (initial_degrees DEVICE_EVENT_WORKFLOW) (initial_queue DEVICE_EVENT_WORKFLOW) []
      = Some (wg_nodes DEVICE_EVENT_WORKFLOW)"
    by (simp add: DEVICE_EVENT_WORKFLOW_def initial_queue_def initial_degrees_def degree_def kahn_Cons kahn_Nil by_id_def)
  then have "topological_order DEVICE_EVENT_WORKFLOW = Some (Inr (wg_nodes DEVICE_EVENT_WORKFLOW))"
    by (simp add: topological_order_def)
  then show ?thesis
    by (simp add: plan_units_def device_units_def DEVICE_EVENT_WORKFLOW_def chain_unit_def)
qed

lemma device_step_ids: "distinct (map unit_step_id device_units)"
  by (simp add: device_units_def unit_step_id_def chain_label_def)

text \<open>What one run of the device graph does, whatever the trigger and the configuration.\<close>

definition device_outcome :: "wf_deps \<Rightarrow> wf_trigger_data \<Rightarrow> run_outcome" where
  "device_outcome deps data = (if wd_gateThreshold deps \<le> td_metric data then Completed else Skipped)"

definition device_world :: "wf_deps \<Rightarrow> wf_trigger_data \<Rightarrow> wf_world \<Rightarrow> wf_world" where
  "device_world deps data w =
     (if wd_gateThreshold deps \<le> td_metric data
      then w\<lparr>ww_slept := ww_slept w + tm_queryEventsMs (wd_timings deps) + tm_summarizeMs (wd_timings deps)
               + tm_notifyMs (wd_timings deps),
             ww_results := ww_results w @ [new_result_row deps data ''completed'' (length (ww_results w))]\<rparr>
      else w\<lparr>ww_results := ww_results w @ [new_result_row deps data ''skipped'' (length (ww_results w))]\<rparr>)"

lemma device_trigger:
  "execute_node DEVICE_EVENT_WORKFLOW data deps (sync_node ''trigger'' ''trigger'') results w =
     (Inr [(''deviceId'', JStr (td_deviceId data)), (''metric'', JNum (td_metric data))], w)"
  by (simp add: execute_node_def NODE_HANDLERS_def trigger_node_def)

lemma device_normalize:
  "results ''trigger'' = Some [(''deviceId'', d), (''metric'', JNum m)] \<Longrightarrow>
   execute_node DEVICE_EVENT_WORKFLOW data deps (sync_node ''normalize'' ''normalize'') results w =
     (Inr [(''normalizedMetric'', JNum m), (''bucket'', JStr (if m mod 2 = 0 then ''even'' else ''odd''))], w)"
  by (simp add: execute_node_def NODE_HANDLERS_def normalize_node_def collect_inputs_def DEVICE_EVENT_WORKFLOW_def
      number_input_def Let_def)

lemma device_gate:
  "results ''normalize'' = Some [(''normalizedMetric'', JNum m), (''bucket'', b)] \<Longrightarrow>
   execute_node DEVICE_EVENT_WORKFLOW data deps (sync_node ''gate'' ''threshold-gate'') results w =
     (Inr [(''passed'', JBool (wd_gateThreshold deps \<le> m)), (''halt'', JBool (\<not> wd_gateThreshold deps \<le> m))], w)"
  by (simp add: execute_node_def NODE_HANDLERS_def threshold_gate_node_def collect_inputs_def DEVICE_EVENT_WORKFLOW_def
      number_input_def Let_def)

lemma device_chain:
  "execute_chain DEVICE_EVENT_WORKFLOW data deps [sync_node ''trigger'' ''trigger'', sync_node ''normalize'' ''normalize'',
      sync_node ''gate'' ''threshold-gate''] Map.empty Map.empty w =
    (Inr (Map.empty (''trigger'' \<mapsto> [(''deviceId'', JStr (td_deviceId data)), (''metric'', JNum (td_metric data))],
        ''normalize'' \<mapsto> [(''normalizedMetric'', JNum (td_metric data)),
           (''bucket'', JStr (if td_metric data mod 2 = 0 then ''even'' else ''odd''))],
        ''gate'' \<mapsto> [(''passed'', JBool (wd_gateThreshold deps \<le> td_metric data)),
           (''halt'', JBool (\<not> wd_gateThreshold deps \<le> td_metric data))]),
      \<not> wd_gateThreshold deps \<le> td_metric data), w)"
  by (simp add: device_trigger device_normalize device_gate output_halts_def)

lemma device_run:
  "direct_units DEVICE_EVENT_WORKFLOW data deps device_units Map.empty w
     = (Inr (device_outcome deps data), device_world deps data w)"
  unfolding device_units_def
  by (simp add: direct_units_Cons direct_unit_def device_chain execute_node_def NODE_HANDLERS_def
      query_device_events_node_def llm_summarize_node_def send_notification_node_def Let_def wf_sleep_def
      write_workflow_result_def device_outcome_def device_world_def new_result_row_def del: execute_chain.simps)

text \<open>C32: However often the process that runs a workflow is lost between two steps, also between a
  chain that halts the run and the step that records it, or after the last step, the next run ends with the outcome, the
  world and the journal of a run that was never lost, so no effect of a finished step is repeated;
  and with the blocking summary these are the outcome and the world of the direct executor. The
  engine has to keep its promise, and the plan's step ids have to be distinct.\<close>

theorem workflow_resumes:
  assumes "durable answer step" and "plan_units g = Some (Inr us)" and "distinct (map unit_step_id us)"
    and "lives step g data deps (w, Map.empty) (w', j')"
  shows "\<exists>r w\<^sub>1 j\<^sub>1. run_workflow_with_steps step g data deps (w', j') = Some (r, w\<^sub>1, j\<^sub>1)
     \<and> run_workflow_with_steps step g data deps (w, Map.empty) = Some (r, w\<^sub>1, j\<^sub>1)
     \<and> (wd_llmMode deps = Blocking \<longrightarrow> run_workflow_direct g data deps w = Some (r, w\<^sub>1))"
proof -
  obtain r w1 j1 where run: "step_units step g data deps us Map.empty (w, Map.empty) = (r, w1, j1)" by (metis surj_pair)
  then have fresh: "run_workflow_with_steps step g data deps (w, Map.empty) = Some (r, w1, j1)"
    by (simp add: run_workflow_with_steps_def assms(2))
  moreover have "run_workflow_with_steps step g data deps (w', j') = Some (r, w1, j1)"
    using lives_resume[OF assms] fresh by simp
  moreover have "run_workflow_direct g data deps w = Some (r, w1)" if "wd_llmMode deps = Blocking"
    using step_units_fresh[OF assms(1) that assms(3), of Map.empty g data Map.empty w] run
    by (auto simp: run_workflow_direct_def assms(2))
  ultimately show ?thesis by blast
qed

text \<open>The engine with nothing but a journal, for the witness.\<close>

definition journal_run :: "string \<Rightarrow> step_handler \<Rightarrow> wf_world \<times> journal \<Rightarrow> (wf_error + step_value) \<times> wf_world \<times> journal" where
  "journal_run nid h s = (case snd s nid of
     Some (Stepped v) \<Rightarrow> (Inr v, s)
   | Some (Inferred _) \<Rightarrow> (Inl (StepFailed nid), s)
   | None \<Rightarrow> (case h (fst s) of (Inl e, w') \<Rightarrow> (Inl e, w', snd s) | (Inr v, w') \<Rightarrow> (Inr v, w', (snd s)(nid \<mapsto> Stepped v))))"

definition journal_infer :: "string \<Rightarrow> json \<Rightarrow> json \<Rightarrow> wf_world \<times> journal \<Rightarrow> (wf_error + json) \<times> wf_world \<times> journal" where
  "journal_infer nid m b s = (case snd s nid of
     Some (Inferred v) \<Rightarrow> (Inr v, s)
   | Some (Stepped _) \<Rightarrow> (Inl (StepFailed nid), s)
   | None \<Rightarrow> (Inr (JObj []), fst s, (snd s)(nid \<mapsto> Inferred (JObj []))))"

definition journal_tools :: "journal step_tools" where
  "journal_tools = \<lparr>st_run = journal_run, st_infer = journal_infer, st_openai = (\<lambda>m u k. JStr m)\<rparr>"

definition demo_deps :: wf_deps where
  "demo_deps = \<lparr>wd_mode = ''dbos'', wd_timings = \<lparr>tm_queryEventsMs = 1, tm_summarizeMs = 2, tm_notifyMs = 3\<rparr>,
     wd_gateThreshold = 0, wd_llmMode = Blocking, wd_inferBaseUrl = None, wd_inferModel = None, wd_uuid = (\<lambda>n. ''u'')\<rparr>"

definition demo_trigger :: wf_trigger_data where
  "demo_trigger = \<lparr>td_deviceId = ''d'', td_messageId = ''m'', td_runId = None, td_emittedAtNs = None, td_metric = 4\<rparr>"

definition demo_world :: wf_world where
  "demo_world = \<lparr>ww_results = [], ww_slept = 0\<rparr>"

lemma journal_tools_durable: "durable (\<lambda>m b. Inr (JObj [])) journal_tools"
  unfolding durable_def
  by (auto simp: journal_tools_def journal_run_def journal_infer_def split: option.split prod.split sum.split journal_entry.split)

text \<open>The witness: a trigger below the threshold, and a process that is lost after the chain that halts
  the run.\<close>

definition quiet_trigger :: wf_trigger_data where
  "quiet_trigger = demo_trigger\<lparr>td_metric := -1\<rparr>"

lemma quiet_gate: "\<not> wd_gateThreshold demo_deps \<le> td_metric quiet_trigger"
  by (simp add: quiet_trigger_def demo_trigger_def demo_deps_def)

lemma demo_lives:
  "\<exists>j'. lives journal_tools DEVICE_EVENT_WORKFLOW quiet_trigger demo_deps (demo_world, Map.empty) (demo_world, j')
     \<and> j' ''chain-trigger+normalize+gate'' \<noteq> None"
proof -
  let ?u = "hd device_units"
  have nid: "unit_step_id ?u = ''chain-trigger+normalize+gate''"
    by (simp add: device_units_def unit_step_id_def chain_label_def)
  obtain results1 j1 where unit: "step_unit journal_tools DEVICE_EVENT_WORKFLOW quiet_trigger demo_deps ?u Map.empty (demo_world, Map.empty)
      = (Inr (results1, True), demo_world, j1)" "j1 (unit_step_id ?u) \<noteq> None"
    by (simp add: step_unit_def device_units_def journal_tools_def journal_run_def chain_handler_of_def device_chain
        quiet_gate unit_step_id_def del: execute_chain.simps)
  have split: "device_units = ?u # tl device_units" by (simp add: device_units_def)
  have "step_units (mortal journal_tools) DEVICE_EVENT_WORKFLOW quiet_trigger demo_deps device_units Map.empty
      (demo_world, Map.empty, Some 1) = (Inl (StepFailed ''record-skipped''), demo_world, j1, None)"
    by (subst split) (simp add: mortal_unit[of _ _ _ _ _ _ _ _ 0, simplified] unit(1), simp add: mortal_run)
  then have "run_workflow_with_steps (mortal journal_tools) DEVICE_EVENT_WORKFLOW quiet_trigger demo_deps (demo_world, Map.empty, Some 1)
      = Some (Inl (StepFailed ''record-skipped''), demo_world, j1, None)"
    by (simp add: run_workflow_with_steps_def device_plan)
  then have "lives journal_tools DEVICE_EVENT_WORKFLOW quiet_trigger demo_deps (demo_world, Map.empty) (demo_world, j1)"
    by (rule lives.lost[OF lives.first]) simp
  then show ?thesis using unit(2) nid by auto
qed

theorem workflow_resumes_witness:
  "\<exists>j' j\<^sub>1. lives journal_tools DEVICE_EVENT_WORKFLOW quiet_trigger demo_deps (demo_world, Map.empty) (demo_world, j')
     \<and> j' ''chain-trigger+normalize+gate'' \<noteq> None
     \<and> run_workflow_with_steps journal_tools DEVICE_EVENT_WORKFLOW quiet_trigger demo_deps (demo_world, j')
         = Some (Inr Skipped, device_world demo_deps quiet_trigger demo_world, j\<^sub>1)"
proof -
  have mode: "wd_llmMode demo_deps = Blocking" by (simp add: demo_deps_def)
  obtain j' where lives: "lives journal_tools DEVICE_EVENT_WORKFLOW quiet_trigger demo_deps (demo_world, Map.empty) (demo_world, j')"
      "j' ''chain-trigger+normalize+gate'' \<noteq> None" using demo_lives by blast
  have "run_workflow_direct DEVICE_EVENT_WORKFLOW quiet_trigger demo_deps demo_world
      = Some (Inr Skipped, device_world demo_deps quiet_trigger demo_world)"
    by (simp add: run_workflow_direct_def device_plan device_run device_outcome_def quiet_gate)
  with workflow_resumes[OF journal_tools_durable device_plan device_step_ids lives(1)] mode lives show ?thesis by auto
qed

text \<open>Every run of the device-event workflow, durable or direct, returns and appends exactly one
  row to the result table, which names the trigger's device and message. A metric below the
  threshold skips the run before any of the slow nodes; otherwise all three run once.\<close>

theorem device_workflow_one_result:
  assumes "durable answer step" and "wd_llmMode deps = Blocking"
  shows "run_workflow_direct DEVICE_EVENT_WORKFLOW data deps w
           = Some (Inr (device_outcome deps data), device_world deps data w)
    \<and> (\<exists>j. workflow_function step deps data (w, Map.empty)
           = Some (Inr (device_outcome deps data), device_world deps data w, j))
    \<and> (\<exists>j. run_workflow_dbos step (init_dbos_workflow deps None) data (w, Map.empty)
           = Some (Inr (device_outcome deps data), device_world deps data w, j))"
proof (intro conjI)
  show direct: "run_workflow_direct DEVICE_EVENT_WORKFLOW data deps w
           = Some (Inr (device_outcome deps data), device_world deps data w)"
    by (simp add: run_workflow_direct_def device_plan device_run)
  show steps: "\<exists>j. workflow_function step deps data (w, Map.empty)
           = Some (Inr (device_outcome deps data), device_world deps data w, j)"
    using step_units_fresh[OF assms device_step_ids, of Map.empty DEVICE_EVENT_WORKFLOW data Map.empty w]
    by (simp add: workflow_function_def run_workflow_with_steps_def device_plan device_run)
  then show "\<exists>j. run_workflow_dbos step (init_dbos_workflow deps None) data (w, Map.empty)
           = Some (Inr (device_outcome deps data), device_world deps data w, j)"
    by (simp add: run_workflow_dbos_def init_dbos_workflow_def workflow_function_def)
qed

theorem device_workflow_one_result_witness:
  "run_workflow_direct DEVICE_EVENT_WORKFLOW demo_trigger demo_deps demo_world = Some (Inr Completed,
     \<lparr>ww_results = [\<lparr>rr_id = ''u'', rr_runId = ''unknown'', rr_deviceId = ''d'', rr_messageId = ''m'', rr_emittedAtNs = None,
        rr_status = ''completed'', rr_mode = ''dbos''\<rparr>], ww_slept = 6\<rparr>)"
proof -
  have "wd_llmMode demo_deps = Blocking" by (simp add: demo_deps_def)
  from device_workflow_one_result[THEN conjunct1, OF journal_tools_durable this, of demo_trigger demo_world]
  show ?thesis
    by (simp add: device_outcome_def device_world_def demo_deps_def demo_trigger_def demo_world_def new_result_row_def)
qed

end
