(* ===== verification/Offline_Code.thy ===== *)
theory Offline_Code
  imports Helix_Prelude
begin

text \<open>
  The codes of the offline challenge/response
  (\<open>web/packages/helix-backend/src/device-auth/offline-code.ts\<close>). The code packs bytes
  into one unbounded integer by shifts and masks; shifting in a digit is multiplying by
  the base and adding it, and a masked shift is a digit of the number. Node's HMAC is a
  parameter.
\<close>

section \<open>Digits in a base\<close>

definition of_base :: "nat \<Rightarrow> nat list \<Rightarrow> nat" where
  "of_base b ds = foldl (\<lambda>a d. a * b + d) 0 ds"

definition to_base :: "nat \<Rightarrow> nat \<Rightarrow> nat \<Rightarrow> nat list" where
  "to_base b k n = map (\<lambda>i. n div b ^ (k - 1 - i) mod b) [0..<k]"

lemma of_base_append [simp]: "of_base b (ds @ [d]) = of_base b ds * b + d"
  by (simp add: of_base_def)

lemma to_base_Suc: "to_base b (Suc k) n = to_base b k (n div b) @ [n mod b]"
proof -
  have "n div b ^ (k - i) mod b = n div b div b ^ (k - 1 - i) mod b" if "i < k" for i
  proof -
    have "k - i = Suc (k - 1 - i)" using that by simp
    then show ?thesis by (simp add: div_mult2_eq)
  qed
  then show ?thesis by (simp add: to_base_def)
qed

lemma to_base_length [simp]: "length (to_base b k n) = k"
  by (simp add: to_base_def)

lemma to_base_bound: "0 < b \<Longrightarrow> d \<in> set (to_base b k n) \<Longrightarrow> d < b"
  by (auto simp: to_base_def)

lemma of_base_to_base: "of_base b (to_base b k n) = n mod b ^ k"
proof (induction k arbitrary: n)
  case (Suc k)
  have "n mod b ^ Suc k = (n div b mod b ^ k) * b + n mod b"
    by (simp add: mod_mult2_eq mult.commute)
  with Suc show ?case by (simp add: to_base_Suc)
qed (simp add: to_base_def of_base_def)

lemma of_base_bound: "\<forall>d \<in> set ds. d < b \<Longrightarrow> of_base b ds < b ^ length ds"
proof (induction ds rule: rev_induct)
  case (snoc d ds)
  then have "of_base b ds + 1 \<le> b ^ length ds" "d < b" by simp_all
  then have "(of_base b ds + 1) * b \<le> b ^ length ds * b" by (intro mult_le_mono1)
  with \<open>d < b\<close> show ?case by (simp add: algebra_simps)
qed (simp add: of_base_def)

lemma to_base_of_base: "\<forall>d \<in> set ds. d < b \<Longrightarrow> to_base b (length ds) (of_base b ds) = ds"
proof (induction ds rule: rev_induct)
  case (snoc d ds)
  then have d: "d < b" and ds: "\<forall>d \<in> set ds. d < b" by auto
  have "(of_base b ds * b + d) div b = of_base b ds" "(of_base b ds * b + d) mod b = d"
    using d by simp_all
  then show ?case using snoc.IH[OF ds] by (simp add: to_base_Suc)
qed (simp add: to_base_def)

section \<open>Codes\<close>

definition CODE_ALPHABET :: string where
  "CODE_ALPHABET = ''ABCDEFGHJKLMNPQRSTUVWXYZ23456789''"

definition CODE_RAW_BYTES :: nat where "CODE_RAW_BYTES = 5"
definition CODE_CHARS :: nat where "CODE_CHARS = 8"
definition CODE_GROUP :: nat where "CODE_GROUP = 4"
definition UID_BYTES :: nat where "UID_BYTES = 8"

definition OFFLINE_DOMAIN :: string where
  "OFFLINE_DOMAIN = ''HXOFF1''"

datatype code_error = WrongByteCount | WrongLength | BadCharacter char | EmptySecret | OutOfRange

definition normalize_code :: "string \<Rightarrow> string" where
  "normalize_code code = remove_char (CHR '' '') (remove_char (CHR ''-'') (to_upper (trim code)))"

definition format_code :: "string \<Rightarrow> string" where
  "format_code code =
     (let normalized = normalize_code code
      in if length normalized \<noteq> CODE_CHARS then normalized
         else take CODE_GROUP normalized @ ''-'' @ drop CODE_GROUP normalized)"

definition encode_code :: "bytes \<Rightarrow> code_error + string" where
  "encode_code raw =
     (if length raw \<noteq> CODE_RAW_BYTES then Inl WrongByteCount
      else let packed = of_base 256 (map unat raw)
           in Inr (map (\<lambda>d. CODE_ALPHABET ! d) (to_base 32 CODE_CHARS packed)))"

text \<open>\<open>CODE_ALPHABET.indexOf(char)\<close>.\<close>

fun index_of :: "char \<Rightarrow> string \<Rightarrow> nat option" where
  "index_of c [] = None"
| "index_of c (x # xs) = (if c = x then Some 0 else map_option Suc (index_of c xs))"

fun code_digits :: "string \<Rightarrow> code_error + nat list" where
  "code_digits [] = Inr []"
| "code_digits (c # cs) =
     (case index_of c CODE_ALPHABET of
        None \<Rightarrow> Inl (BadCharacter c)
      | Some i \<Rightarrow> (case code_digits cs of Inl e \<Rightarrow> Inl e | Inr is \<Rightarrow> Inr (i # is)))"

definition decode_code :: "string \<Rightarrow> code_error + bytes" where
  "decode_code code =
     (let normalized = normalize_code code
      in if length normalized \<noteq> CODE_CHARS then Inl WrongLength
         else (case code_digits normalized of
                 Inl e \<Rightarrow> Inl e
               | Inr ds \<Rightarrow> Inr (map word_of_nat (to_base 256 CODE_RAW_BYTES (of_base 32 ds)))))"

section \<open>Responses\<close>

record offline_binding =
  ob_deviceId :: string
  ob_userId :: string
  ob_linuxUid :: int
  ob_challenge :: string

text \<open>A 16-bit length, big endian, and the bytes; \<open>writeUInt16BE\<close> throws on a longer value.\<close>

definition length_prefixed :: "string \<Rightarrow> code_error + bytes" where
  "length_prefixed v =
     (let bs = utf8 v; n = length bs
      in if 65536 \<le> n then Inl OutOfRange
         else Inr (word_of_nat (n div 256) # word_of_nat (n mod 256) # bs))"

definition uid_bytes :: "int \<Rightarrow> code_error + bytes" where
  "uid_bytes uid =
     (if uid < 0 \<or> 2 ^ 64 \<le> uid then Inl OutOfRange
      else Inr (map word_of_nat (to_base 256 UID_BYTES (nat uid))))"

text \<open>What the digest is computed over, after the domain; errors in the code's order.\<close>

definition response_input :: "offline_binding \<Rightarrow> code_error + bytes" where
  "response_input b =
     (case decode_code (ob_challenge b) of Inl e \<Rightarrow> Inl e | Inr challenge \<Rightarrow>
      (case uid_bytes (ob_linuxUid b) of Inl e \<Rightarrow> Inl e | Inr uid \<Rightarrow>
       (case length_prefixed (ob_deviceId b) of Inl e \<Rightarrow> Inl e | Inr device \<Rightarrow>
        (case length_prefixed (ob_userId b) of Inl e \<Rightarrow> Inl e | Inr user \<Rightarrow>
           Inr (utf8 OFFLINE_DOMAIN @ device @ user @ uid @ challenge)))))"

definition offline_response ::
  "(bytes \<Rightarrow> bytes \<Rightarrow> bytes) \<Rightarrow> bytes \<Rightarrow> offline_binding \<Rightarrow> code_error + string" where
  "offline_response hmac secret b =
     (if secret = [] then Inl EmptySecret
      else (case response_input b of
              Inl e \<Rightarrow> Inl e
            | Inr input \<Rightarrow> encode_code (take CODE_RAW_BYTES (hmac secret input))))"

definition codes_match :: "string \<Rightarrow> string \<Rightarrow> bool" where
  "codes_match expected given =
     (let a = utf8 (normalize_code expected); b = utf8 (normalize_code given)
      in if length a \<noteq> length b \<or> length a = 0 then False else a = b)"

section \<open>Lemmas on codes\<close>

lemma alphabet_index: "i < 32 \<Longrightarrow> index_of (CODE_ALPHABET ! i) CODE_ALPHABET = Some i"
proof -
  have "\<forall>i \<in> set [0..<32]. index_of (CODE_ALPHABET ! i) CODE_ALPHABET = Some i" by code_simp
  then show "i < 32 \<Longrightarrow> ?thesis" by simp
qed

lemma index_of_Some: "index_of c xs = Some i \<Longrightarrow> i < length xs \<and> xs ! i = c"
  by (induction xs arbitrary: i) (auto split: if_splits)

lemma alphabet_length [simp]: "length CODE_ALPHABET = 32"
  by (simp add: CODE_ALPHABET_def)

lemma code_digits_alphabet: "\<forall>d \<in> set ds. d < 32 \<Longrightarrow> code_digits (map (\<lambda>d. CODE_ALPHABET ! d) ds) = Inr ds"
  by (induction ds) (simp_all add: alphabet_index)

lemma code_digits_Inr:
  "code_digits cs = Inr ds \<Longrightarrow> map (\<lambda>d. CODE_ALPHABET ! d) ds = cs \<and> (\<forall>d \<in> set ds. d < 32)"
  by (induction cs arbitrary: ds) (auto dest!: index_of_Some split: option.splits sum.splits)

text \<open>Letters of the alphabet are their own normal form.\<close>

definition plain_char :: "char \<Rightarrow> bool" where
  "plain_char c = (\<not> js_space c \<and> upper_char c = [c] \<and> c \<noteq> CHR ''-'' \<and> c \<noteq> CHR '' '')"

lemma alphabet_plain: "c \<in> set CODE_ALPHABET \<Longrightarrow> plain_char c"
proof -
  have "list_all plain_char CODE_ALPHABET"
    by (simp add: CODE_ALPHABET_def plain_char_def upper_char_def js_space_def)
  then show "c \<in> set CODE_ALPHABET \<Longrightarrow> ?thesis" by (simp add: list_all_iff)
qed

lemma to_upper_id: "\<forall>c \<in> set s. upper_char c = [c] \<Longrightarrow> to_upper s = s"
  unfolding to_upper_def by (induction s) auto

lemma remove_char_id: "d \<notin> set s \<Longrightarrow> remove_char d s = s"
  unfolding remove_char_def by (induction s) auto

lemma remove_char_mid: "d \<notin> set a \<Longrightarrow> d \<notin> set b \<Longrightarrow> remove_char d (a @ d # b) = a @ b"
  using remove_char_id[of d a] remove_char_id[of d b] by (simp add: remove_char_def)

lemma plain_ends:
  "\<forall>c \<in> set s. plain_char c \<Longrightarrow> s = [] \<or> (\<not> js_space (hd s) \<and> \<not> js_space (last s))"
  by (metis hd_in_set last_in_set plain_char_def)

lemma normalize_plain:
  assumes "\<forall>c \<in> set s. plain_char c"
  shows "normalize_code s = s"
proof -
  have "trim s = s" by (rule trim_id[OF plain_ends[OF assms]])
  moreover have "to_upper s = s" by (rule to_upper_id) (use assms in \<open>simp add: plain_char_def\<close>)
  moreover have "CHR ''-'' \<notin> set s" "CHR '' '' \<notin> set s" using assms by (auto simp: plain_char_def)
  ultimately show ?thesis by (simp add: normalize_code_def remove_char_id)
qed

lemma upper_char_upper: "concat (map upper_char (upper_char c)) = upper_char c"
proof -
  define n where "n = (of_char c :: nat)"
  have S: "upper_char (CHR ''S'') = ''S''" by (simp add: upper_char_def)
  have id: "upper_char c = [c]" if "\<not> (97 \<le> n \<and> n \<le> 122)" "n \<noteq> 223" "\<not> (224 \<le> n \<and> n \<le> 254 \<and> n \<noteq> 247)"
    using that unfolding upper_char_def n_def[symmetric] Let_def by (metis (no_types))
  have up: "upper_char c = [char_of (n - 32)]" "upper_char (char_of (n - 32)) = [char_of (n - 32)]"
    if "(97 \<le> n \<and> n \<le> 122) \<or> (224 \<le> n \<and> n \<le> 254 \<and> n \<noteq> 247)"
    using that by (auto simp: upper_char_def n_def Let_def)
  show ?thesis
  proof (cases "n = 223")
    case True
    then have "upper_char c = ''SS''" by (simp add: upper_char_def n_def)
    with S show ?thesis by simp
  next
    case False
    then show ?thesis using id up
      by (cases "(97 \<le> n \<and> n \<le> 122) \<or> (224 \<le> n \<and> n \<le> 254 \<and> n \<noteq> 247)") auto
  qed
qed

section \<open>Round trip of a code\<close>

lemma normalize_format:
  assumes "\<forall>c \<in> set s. plain_char c" "length s = 8"
  shows "normalize_code (format_code s) = s"
proof -
  have f: "format_code s = take 4 s @ CHR ''-'' # drop 4 s"
    using assms by (simp add: format_code_def normalize_plain CODE_CHARS_def CODE_GROUP_def)
  have "take 4 s \<noteq> []" "drop 4 s \<noteq> []" using assms(2) by auto
  then have ends: "\<not> js_space (hd (take 4 s))" "\<not> js_space (last (drop 4 s))"
    using assms(1) by (meson hd_in_set in_set_takeD plain_char_def, meson last_in_set in_set_dropD plain_char_def)
  then have "trim (format_code s) = format_code s"
    using \<open>take 4 s \<noteq> []\<close> \<open>drop 4 s \<noteq> []\<close> unfolding f by (intro trim_id) simp
  moreover have "to_upper (format_code s) = format_code s"
    using assms(1) unfolding f
    by (intro to_upper_id) (auto simp: plain_char_def upper_char_def[of "CHR ''-''"] dest: in_set_takeD in_set_dropD)
  moreover have "CHR ''-'' \<notin> set s" using assms(1) by (auto simp: plain_char_def)
  then have "CHR ''-'' \<notin> set (take 4 s)" "CHR ''-'' \<notin> set (drop 4 s)"
    by (auto dest: in_set_takeD in_set_dropD)
  then have "remove_char (CHR ''-'') (format_code s) = s"
    unfolding f by (simp add: remove_char_mid)
  moreover have "CHR '' '' \<notin> set s" using assms(1) by (auto simp: plain_char_def)
  ultimately show ?thesis by (simp add: normalize_code_def remove_char_id)
qed

lemma encode_code_plain:
  assumes "encode_code raw = Inr code"
  shows "(\<forall>c \<in> set code. plain_char c) \<and> length code = 8"
proof -
  have "c \<in> set CODE_ALPHABET" if "c \<in> set code" for c
    using that assms to_base_bound[of 32]
    by (auto simp: encode_code_def Let_def split: if_splits)
  then show ?thesis
    using assms alphabet_plain by (auto simp: encode_code_def Let_def CODE_CHARS_def split: if_splits)
qed

lemma decode_normal:
  assumes "normalize_code a = normalize_code b"
  shows "decode_code a = decode_code b"
  using assms by (simp add: decode_code_def)

lemma decode_encode_code:
  assumes "length raw = 5"
  shows "\<exists>code. encode_code raw = Inr code \<and> decode_code code = Inr raw"
proof -
  let ?n = "of_base 256 (map unat raw)"
  let ?code = "map (\<lambda>d. CODE_ALPHABET ! d) (to_base 32 CODE_CHARS ?n)"
  have enc: "encode_code raw = Inr ?code" by (simp add: encode_code_def assms CODE_RAW_BYTES_def Let_def)
  have bytes: "\<forall>d \<in> set (map unat raw). d < 256"
    using unsigned_less[where 'a = nat and 'b = 8] by auto
  have "?n < 256 ^ 5" using of_base_bound[OF bytes] assms by simp
  then have "of_base 32 (to_base 32 CODE_CHARS ?n) = ?n" by (simp add: of_base_to_base CODE_CHARS_def)
  moreover have "code_digits ?code = Inr (to_base 32 CODE_CHARS ?n)"
    using code_digits_alphabet to_base_bound[of 32] by simp
  moreover have "map word_of_nat (to_base 256 5 ?n) = raw"
    using to_base_of_base[OF bytes] assms by (simp add: map_idI comp_def)
  moreover have "normalize_code ?code = ?code"
    using normalize_plain encode_code_plain[OF enc] by blast
  ultimately show ?thesis using enc by (simp add: decode_code_def CODE_CHARS_def CODE_RAW_BYTES_def)
qed

lemma encode_decode_code:
  assumes "decode_code code = Inr raw"
  shows "encode_code raw = Inr (normalize_code code)"
proof -
  obtain ds where ds: "code_digits (normalize_code code) = Inr ds" "length (normalize_code code) = 8"
    "raw = map word_of_nat (to_base 256 5 (of_base 32 ds))"
    using assms by (auto simp: decode_code_def Let_def CODE_CHARS_def CODE_RAW_BYTES_def split: sum.splits if_splits)
  note d = code_digits_Inr[OF ds(1)]
  have len: "length ds = 8" using d ds(2) by (metis length_map)
  then have "of_base 32 ds < 32 ^ 8" using of_base_bound[of ds 32] d by simp
  moreover have "map (unat \<circ> (word_of_nat :: nat \<Rightarrow> byte)) (to_base 256 5 (of_base 32 ds)) = to_base 256 5 (of_base 32 ds)"
    using to_base_bound[of 256] by (intro map_idI) (auto simp: unsigned_of_nat take_bit_nat_eq_self)
  ultimately have "of_base 256 (map unat raw) = of_base 32 ds"
    by (simp add: ds(3) of_base_to_base)
  then show ?thesis
    using to_base_of_base[of ds 32] d len by (simp add: encode_code_def ds(3) CODE_RAW_BYTES_def CODE_CHARS_def)
qed

interpretation code_codec: codec "\<lambda>raw. case encode_code raw of Inr c \<Rightarrow> c | Inl _ \<Rightarrow> []"
    "\<lambda>c. case decode_code c of Inr raw \<Rightarrow> Some raw | Inl _ \<Rightarrow> None" "\<lambda>raw. length raw = 5"
  by unfold_locales (use decode_encode_code in fastforce)

text \<open>Offline codes. Any five bytes become a code that decodes to them again, also in the
  hyphenated form shown to people, and any text that decodes is, up to its normal form,
  the code of the bytes it decodes to; so distinct bytes have distinct codes.\<close>

theorem offline_code_roundtrip:
  "(\<forall>raw. length raw = 5 \<longrightarrow> (\<exists>code. encode_code raw = Inr code \<and> decode_code code = Inr raw \<and>
      decode_code (format_code code) = Inr raw)) \<and>
   (\<forall>code raw. decode_code code = Inr raw \<longrightarrow> encode_code raw = Inr (normalize_code code))"
proof (intro conjI allI impI)
  fix raw :: bytes assume "length raw = 5"
  then obtain code where c: "encode_code raw = Inr code" "decode_code code = Inr raw"
    using decode_encode_code by blast
  note p = encode_code_plain[OF c(1)]
  have "normalize_code (format_code code) = normalize_code code"
    using normalize_format p normalize_plain by simp
  with c show "\<exists>code. encode_code raw = Inr code \<and> decode_code code = Inr raw \<and> decode_code (format_code code) = Inr raw"
    using decode_normal by metis
qed (rule encode_decode_code)

theorem offline_code_roundtrip_witness:
  "\<exists>code. encode_code [1, 2, 3, 4, 255] = Inr code \<and> decode_code (format_code code) = Inr [1, 2, 3, 4, 255]"
  using offline_code_roundtrip[THEN conjunct1, rule_format, of "[1, 2, 3, 4, 255]"] by auto

section \<open>What a response is bound to\<close>

lemma byte_inject: "x < 256 \<Longrightarrow> y < 256 \<Longrightarrow> (word_of_nat x :: byte) = word_of_nat y \<longleftrightarrow> x = y"
  by (simp add: word_of_nat_eq_iff take_bit_eq_mod)

lemma length_prefixed_inject:
  assumes "length_prefixed v = Inr a" "length_prefixed w = Inr b" "a @ r = b @ s"
  shows "v = w \<and> r = s"
proof -
  let ?m = "length (utf8 v)" and ?n = "length (utf8 w)"
  have b: "?m < 65536" "?n < 65536"
    and a: "a = word_of_nat (?m div 256) # word_of_nat (?m mod 256) # utf8 v"
    "b = word_of_nat (?n div 256) # word_of_nat (?n mod 256) # utf8 w"
    using assms(1,2) by (auto simp: length_prefixed_def Let_def split: if_splits)
  have "?m div 256 < 256" "?n div 256 < 256" using b by (simp_all add: div_less_iff_less_mult)
  moreover have "(word_of_nat (?m div 256) :: byte) = word_of_nat (?n div 256)"
    "(word_of_nat (?m mod 256) :: byte) = word_of_nat (?n mod 256)"
    and app: "utf8 v @ r = utf8 w @ s"
    using assms(3) unfolding a by simp_all
  ultimately have "?m div 256 = ?n div 256" "?m mod 256 = ?n mod 256"
    by (simp_all add: byte_inject)
  then have "?m = ?n" by (metis mod_div_decomp)
  with app show ?thesis by (simp add: utf8_inject)
qed

lemma uid_bytes_inject:
  assumes "uid_bytes u = Inr a" "uid_bytes v = Inr b" "a @ r = b @ s"
  shows "u = v \<and> r = s"
proof -
  have inv: "nat x = of_base 256 (map unat c)" "length c = 8" "0 \<le> x" if "uid_bytes x = Inr c" for x c
  proof -
    have c: "c = map word_of_nat (to_base 256 8 (nat x))" and x: "0 \<le> x" "x < 2 ^ 64"
      using that by (auto simp: uid_bytes_def UID_BYTES_def split: if_splits)
    have "map (unat \<circ> (word_of_nat :: nat \<Rightarrow> byte)) (to_base 256 8 (nat x)) = to_base 256 8 (nat x)"
      using to_base_bound[of 256] by (intro map_idI) (auto simp: unsigned_of_nat take_bit_nat_eq_self)
    moreover have "nat x < 256 ^ 8" using x by (simp add: nat_less_iff)
    ultimately show "nat x = of_base 256 (map unat c)" by (simp add: c of_base_to_base)
    show "length c = 8" "0 \<le> x" using c x by simp_all
  qed
  have "a = b \<and> r = s" using inv(2)[OF assms(1)] inv(2)[OF assms(2)] assms(3) by simp
  then show ?thesis using inv(1,3)[OF assms(1)] inv(1,3)[OF assms(2)] by (metis eq_nat_nat_iff)
qed

text \<open>C6: Binding. Two requests whose digests are computed over the same bytes ask for the
  same device, the same user, the same Unix uid and the same challenge: no field can run
  into its neighbour. A response exists only for a challenge that decodes, and is accepted
  however it is retyped from its displayed form.\<close>

theorem offline_response_bound:
  "(\<forall>b c x. response_input b = Inr x \<longrightarrow> response_input c = Inr x \<longrightarrow>
      ob_deviceId b = ob_deviceId c \<and> ob_userId b = ob_userId c \<and> ob_linuxUid b = ob_linuxUid c \<and>
      decode_code (ob_challenge b) = decode_code (ob_challenge c)) \<and>
   (\<forall>b r. offline_response hmac secret b = Inr r \<longrightarrow>
      secret \<noteq> [] \<and> (\<exists>raw. decode_code (ob_challenge b) = Inr raw) \<and> codes_match r (format_code r))"
proof (intro conjI allI impI)
  fix b c x assume b: "response_input b = Inr x" and c: "response_input c = Inr x"
  obtain d u j h where B: "length_prefixed (ob_deviceId b) = Inr d" "length_prefixed (ob_userId b) = Inr u"
    "uid_bytes (ob_linuxUid b) = Inr j" "decode_code (ob_challenge b) = Inr h"
    "x = utf8 OFFLINE_DOMAIN @ d @ u @ j @ h"
    using b by (auto simp: response_input_def split: sum.splits)
  obtain d' u' i' h' where C: "length_prefixed (ob_deviceId c) = Inr d'" "length_prefixed (ob_userId c) = Inr u'"
    "uid_bytes (ob_linuxUid c) = Inr i'" "decode_code (ob_challenge c) = Inr h'"
    "x = utf8 OFFLINE_DOMAIN @ d' @ u' @ i' @ h'"
    using c by (auto simp: response_input_def split: sum.splits)
  have eq: "d @ u @ j @ h = d' @ u' @ i' @ h'" using B(5) C(5) by simp
  note 1 = length_prefixed_inject[OF B(1) C(1) eq]
  note 2 = length_prefixed_inject[OF B(2) C(2) 1[THEN conjunct2]]
  note 3 = uid_bytes_inject[OF B(3) C(3) 2[THEN conjunct2]]
  show "ob_deviceId b = ob_deviceId c" "ob_userId b = ob_userId c" "ob_linuxUid b = ob_linuxUid c"
    "decode_code (ob_challenge b) = decode_code (ob_challenge c)"
    using 1 2 3 B(4) C(4) by simp_all
next
  fix b r assume r: "offline_response hmac secret b = Inr r"
  then show "secret \<noteq> []" "\<exists>raw. decode_code (ob_challenge b) = Inr raw"
    by (auto simp: offline_response_def response_input_def split: if_splits sum.splits)
  obtain raw where "encode_code raw = Inr r"
    using r by (auto simp: offline_response_def split: if_splits sum.splits)
  note p = encode_code_plain[OF this]
  then have "normalize_code (format_code r) = normalize_code r" "normalize_code r = r"
    using normalize_format normalize_plain by simp_all
  moreover have "utf8 r \<noteq> []" using p utf8_inject[of r "[]"] by (auto simp: utf8_def)
  ultimately show "codes_match r (format_code r)" by (simp add: codes_match_def)
qed

definition demo_binding :: offline_binding where
  "demo_binding = \<lparr>ob_deviceId = ''d1'', ob_userId = ''u1'', ob_linuxUid = 1000, ob_challenge = ''ABCDEFGH''\<rparr>"

lemma demo_challenge: "\<exists>raw. decode_code ''ABCDEFGH'' = Inr raw"
proof -
  have "normalize_code ''ABCDEFGH'' = ''ABCDEFGH''"
    by (rule normalize_plain) (use alphabet_plain in \<open>simp add: CODE_ALPHABET_def\<close>)
  then show ?thesis by (simp add: decode_code_def CODE_CHARS_def CODE_ALPHABET_def)
qed

theorem offline_response_bound_witness:
  "\<exists>r. offline_response (\<lambda>k x. [1, 2, 3, 4, 5, 6]) [7] demo_binding = Inr r \<and> codes_match r (format_code r)"
proof -
  obtain raw where raw: "decode_code ''ABCDEFGH'' = Inr raw" using demo_challenge by blast
  obtain code where code: "encode_code [1, 2, 3, 4, 5] = Inr code"
    using decode_encode_code[of "[1, 2, 3, 4, 5]"] by auto
  have "offline_response (\<lambda>k x. [1, 2, 3, 4, 5, 6]) [7] demo_binding = Inr code"
    using code by (simp add: offline_response_def response_input_def demo_binding_def raw uid_bytes_def
        length_prefixed_def utf8_def utf8_char_def Let_def CODE_RAW_BYTES_def)
  with offline_response_bound[of "\<lambda>k x. [1, 2, 3, 4, 5, 6]" "[7]"] show ?thesis by blast
qed

end
