(* ===== verification/Release_Api.thy ===== *)
theory Release_Api
  imports Release_Resolve Offline_Code
begin

text \<open>
  The control plane of releases (\<open>web/packages/helix-backend/src/releases/\<close>): the bearer tokens of
  CI and of builds (\<open>tokens.ts\<close>), custom builds and their deduplication
  (\<open>build-dispatch.ts\<close>) and the procedures of the public API (\<open>api-router.ts\<close>).

  A procedure returns its result or error together with the database it leaves behind,
  because what it wrote before it failed stays written. An \<open>Error\<close> that is no
  \<open>TRPCError\<close> reaches the client as an internal error with its message. The storage
  provider is two functions, whether a key exists and the signed upload request for it.
\<close>

section \<open>Tokens\<close>

definition CI_TOKEN_PREFIX_LEN :: nat where
  "CI_TOKEN_PREFIX_LEN = 12"

definition hash_token :: "release_host \<Rightarrow> string \<Rightarrow> string" where
  "hash_token h secret = rh_sha256 h secret"

definition constant_time_equals :: "string \<Rightarrow> string \<Rightarrow> bool" where
  "constant_time_equals a b = (length (utf8 a) = length (utf8 b) \<and> utf8 a = utf8 b)"

definition scope_allows :: "string list option \<Rightarrow> string \<Rightarrow> bool" where
  "scope_allows allowed value =
     (case allowed of None \<Rightarrow> True | Some xs \<Rightarrow> List.member xs ''*'' \<or> List.member xs value)"

record generated_token =
  gt_secret :: string
  gt_prefix :: string
  gt_hash :: string

definition generate_ci_token :: "release_host \<Rightarrow> nat \<Rightarrow> generated_token" where
  "generate_ci_token h n =
     (let secret = ''cit_'' @ rh_random h n
      in \<lparr>gt_secret = secret, gt_prefix = take CI_TOKEN_PREFIX_LEN secret, gt_hash = hash_token h secret\<rparr>)"

record ci_requirement =
  rq_typeKey :: "string option"
  rq_name :: "string option"
  rq_publish :: bool

definition no_scopes :: ci_token_scopes where
  "no_scopes = \<lparr>sc_typeKeys = None, sc_names = None, sc_canPublish = None\<rparr>"

definition token_matches :: "release_host \<Rightarrow> nat \<Rightarrow> string \<Rightarrow> ci_token_row \<Rightarrow> bool" where
  "token_matches h now secret row \<longleftrightarrow>
     constant_time_equals (ct_tokenHash row) (hash_token h secret) \<and> ct_revokedAt row = None \<and>
     (case ct_expiresAt row of None \<Rightarrow> True | Some t \<Rightarrow> now < t)"

definition verify_ci_token ::
    "release_host \<Rightarrow> nat \<Rightarrow> string option \<Rightarrow> ci_requirement \<Rightarrow> releases_db \<Rightarrow>
     trpc_error + ((string \<times> ci_token_scopes) \<times> releases_db)" where
  "verify_ci_token h now secret req db =
     (case secret of
        None \<Rightarrow> Inl (TRPC UNAUTHORIZED ''CI token is missing.'')
      | Some s \<Rightarrow>
          if trim s = [] then Inl (TRPC UNAUTHORIZED ''CI token is missing.'')
          else
            (let prefix = take CI_TOKEN_PREFIX_LEN s;
                 rows = filter (\<lambda>row. ct_tokenPrefix row = prefix) (rd_tokens db)
             in case find (token_matches h now s) rows of
                  None \<Rightarrow> Inl (TRPC UNAUTHORIZED ''CI token is invalid.'')
                | Some matched \<Rightarrow>
                    (let scopes = or_else (ct_scopes matched) no_scopes
                     in if (case rq_typeKey req of None \<Rightarrow> False | Some k \<Rightarrow> \<not> scope_allows (sc_typeKeys scopes) k)
                        then Inl (TRPC FORBIDDEN ''CI token not scoped for this type.'')
                        else if (case rq_name req of None \<Rightarrow> False | Some n \<Rightarrow> \<not> scope_allows (sc_names scopes) n)
                        then Inl (TRPC FORBIDDEN ''CI token not scoped for this release.'')
                        else if rq_publish req \<and> sc_canPublish scopes = Some False
                        then Inl (TRPC FORBIDDEN ''CI token cannot publish.'')
                        else Inr ((ct_id matched, scopes),
                          db\<lparr>rd_tokens := map (\<lambda>row. if ct_id row = ct_id matched
                               then row\<lparr>ct_lastUsedAt := Some now\<rparr> else row) (rd_tokens db)\<rparr>))))"

definition generate_build_callback_token :: "release_host \<Rightarrow> nat \<Rightarrow> string \<times> string" where
  "generate_build_callback_token h n = (let secret = ''bcb_'' @ rh_random h n in (secret, hash_token h secret))"

definition invalid_callback :: trpc_error where
  "invalid_callback = TRPC UNAUTHORIZED ''Build callback token is invalid.''"

definition verify_build_callback ::
    "release_host \<Rightarrow> nat \<Rightarrow> releases_db \<Rightarrow> string \<Rightarrow> string option \<Rightarrow> trpc_error + (string option \<times> string)" where
  "verify_build_callback h now db buildId secret =
     (case secret of
        None \<Rightarrow> Inl (TRPC UNAUTHORIZED ''Build callback token is missing.'')
      | Some s \<Rightarrow>
          if trim s = [] then Inl (TRPC UNAUTHORIZED ''Build callback token is missing.'')
          else case find (\<lambda>b. bu_id b = buildId) (rd_builds db) of
            None \<Rightarrow> Inl invalid_callback
          | Some row \<Rightarrow>
              (case bu_callbackTokenHash row of
                 None \<Rightarrow> Inl invalid_callback
               | Some hash \<Rightarrow>
                   if \<not> constant_time_equals hash (hash_token h s) \<or>
                      (case bu_callbackExpiresAt row of None \<Rightarrow> False | Some t \<Rightarrow> t \<le> now)
                   then Inl invalid_callback
                   else Inr (bu_ownerUserId row, bu_typeKey row)))"

section \<open>Custom builds\<close>

definition CALLBACK_TTL_MS :: nat where
  "CALLBACK_TTL_MS = 3600000"

record build_request =
  br_typeKey :: string
  br_ownerUserId :: string
  br_config :: json
  br_selector :: "json option"

datatype build_status = Hit | Queued

record build_request_result =
  bq_status :: build_status
  bq_buildId :: string
  bq_releaseId :: "string option"
  bq_variantId :: "string option"
  bq_callbackToken :: "string option"

definition queued_build ::
    "string \<Rightarrow> string \<Rightarrow> nat \<Rightarrow> build_request \<Rightarrow> string \<Rightarrow> build_row" where
  "queued_build buildId callbackHash now input configHash =
     \<lparr>bu_id = buildId, bu_typeKey = br_typeKey input, bu_source = ''custom'',
      bu_ownerUserId = Some (br_ownerUserId input), bu_status = ''queued'', bu_requestConfig = br_config input,
      bu_configHash = configHash, bu_selector = br_selector input, bu_releaseId = None, bu_variantId = None,
      bu_callbackTokenHash = Some callbackHash, bu_callbackExpiresAt = Some (now + CALLBACK_TTL_MS),
      bu_analysis = None, bu_errorSummary = None, bu_durationMs = None, bu_createdAt = now, bu_finishedAt = None\<rparr>"

definition request_build ::
    "release_host \<Rightarrow> nat \<Rightarrow> build_request \<Rightarrow> releases_db \<Rightarrow> string + (build_request_result \<times> releases_db)" where
  "request_build h now input db =
     (case find (\<lambda>t. ty_key t = br_typeKey input) (rd_types db) of
        None \<Rightarrow> Inl (''Unknown artifact type '' @ quoted (br_typeKey input) @ ''.'')
      | Some ty \<Rightarrow>
          bind_sum (get_adapter h (ty_adapterKey ty)) (\<lambda>a.
            (let configHash = ad_config_hash a (br_config input);
                 hit = find (\<lambda>b. bu_configHash b = configHash) (rd_builds db);
                 releaseId = (case hit of None \<Rightarrow> None | Some b \<Rightarrow> bu_releaseId b)
             in if releaseId \<noteq> None
                then Inr (\<lparr>bq_status = Hit, bq_buildId = bu_id (the hit), bq_releaseId = releaseId,
                           bq_variantId = bu_variantId (the hit), bq_callbackToken = None\<rparr>, db)
                else
                  (let (buildId, db1) = draw_id h ''bld'' db;
                       (secret, hash) = generate_build_callback_token h (rd_draws db1)
                   in Inr (\<lparr>bq_status = Queued, bq_buildId = buildId, bq_releaseId = None, bq_variantId = None,
                            bq_callbackToken = Some secret\<rparr>,
                           db1\<lparr>rd_draws := Suc (rd_draws db1),
                               rd_builds := rd_builds db1 @ [queued_build buildId hash now input configHash]\<rparr>)))))"

text \<open>\<open>url.replace(/\/+$/, '')\<close>.\<close>

definition trim_base :: "string \<Rightarrow> string" where
  "trim_base url = rev (dropWhile (\<lambda>c. c = CHR ''/'') (rev url))"

text \<open>\<open>fetch\<close>: it fails, or answers a status and a body that may not be JSON.\<close>

record http_response =
  hr_status :: nat
  hr_body :: "string + json"

type_synonym http_fetch = "string \<Rightarrow> json option \<Rightarrow> string + http_response"

definition hr_ok :: "http_response \<Rightarrow> bool" where
  "hr_ok response = (200 \<le> hr_status response \<and> hr_status response \<le> 299)"

definition fetch_catalog :: "http_fetch \<Rightarrow> string \<Rightarrow> string + json" where
  "fetch_catalog fetch workerUrl =
     bind_sum (fetch (trim_base workerUrl @ ''/catalog'') None) (\<lambda>response.
       if \<not> hr_ok response then Inl (''Build service catalog request failed ('' @ nat_str (hr_status response) @ '').'')
       else hr_body response)"

record build_dispatch_job =
  bj_buildId :: string
  bj_callbackToken :: string
  bj_publicUrl :: string
  bj_name :: string
  bj_version :: string
  bj_channel :: string
  bj_selector :: json
  bj_config :: json
  bj_fake :: "bool option"

definition job_json :: "build_dispatch_job \<Rightarrow> json" where
  "job_json job = JObj ([(''buildId'', JStr (bj_buildId job)), (''callbackToken'', JStr (bj_callbackToken job)),
     (''publicUrl'', JStr (bj_publicUrl job)),
     (''release'', JObj [(''name'', JStr (bj_name job)), (''version'', JStr (bj_version job)), (''channel'', JStr (bj_channel job))]),
     (''selector'', bj_selector job), (''config'', bj_config job)]
     @ (case bj_fake job of None \<Rightarrow> [] | Some b \<Rightarrow> [(''fake'', JBool b)]))"

definition dispatch_build :: "http_fetch \<Rightarrow> string \<Rightarrow> build_dispatch_job \<Rightarrow> string + unit" where
  "dispatch_build fetch workerUrl job =
     bind_sum (fetch (trim_base workerUrl @ ''/build'') (Some (job_json job))) (\<lambda>response.
       if \<not> hr_ok response then Inl (''Build service dispatch failed ('' @ nat_str (hr_status response) @ '').'')
       else Inr ())"

section \<open>The public API\<close>

record artifact_input =
  ai_role :: string
  ai_offset :: "string option"
  ai_path :: "string option"
  ai_sha256 :: "string option"
  ai_sizeBytes :: "int option"
  ai_contentType :: "string option"
  ai_metadata :: "json option"
  ai_ref :: "artifact_ref option"

record variant_input =
  vi_selector :: json
  vi_name :: "string option"
  vi_analysis :: "json option"
  vi_artifacts :: "artifact_input list"

record descriptor_input =
  di_typeKey :: string
  di_name :: string
  di_version :: string
  di_channel :: string
  di_sourceCommit :: "string option"
  di_sourceDirty :: "bool option"
  di_config :: "json option"
  di_analysis :: "json option"
  di_publish :: "bool option"
  di_variants :: "variant_input list"

text \<open>The lengths and ranges the input schemas ask for.\<close>

definition artifact_input_ok :: "artifact_input \<Rightarrow> bool" where
  "artifact_input_ok a = (ai_role a \<noteq> [] \<and> (case ai_sizeBytes a of None \<Rightarrow> True | Some n \<Rightarrow> 0 \<le> n))"

definition descriptor_input_ok :: "descriptor_input \<Rightarrow> bool" where
  "descriptor_input_ok d =
     (di_typeKey d \<noteq> [] \<and> di_name d \<noteq> [] \<and> di_version d \<noteq> [] \<and> di_channel d \<noteq> [] \<and> di_variants d \<noteq> [] \<and>
      list_all (\<lambda>v. vi_artifacts v \<noteq> [] \<and> list_all artifact_input_ok (vi_artifacts v)) (di_variants d))"

definition to_ingest_artifact :: "artifact_input \<Rightarrow> string + ingest_artifact" where
  "to_ingest_artifact input =
     (case ai_ref input of
        Some rf \<Rightarrow> Inr \<lparr>in_role = ai_role input, in_offset = ai_offset input, in_path = ai_path input,
          in_body = Ref_body rf\<rparr>
      | None \<Rightarrow>
          (case (ai_sha256 input, ai_sizeBytes input) of
             (Some sha, Some n) \<Rightarrow> Inr \<lparr>in_role = ai_role input, in_offset = ai_offset input, in_path = ai_path input,
               in_body = Blob_body sha n (ai_contentType input) (ai_metadata input)\<rparr>
           | _ \<Rightarrow> Inl (''Blob artifact '' @ quoted (ai_role input) @ '' requires sha256 and sizeBytes.'')))"

fun map_sum_list :: "('a \<Rightarrow> 'e + 'b) \<Rightarrow> 'a list \<Rightarrow> 'e + 'b list" where
  "map_sum_list f [] = Inr []"
| "map_sum_list f (x # xs) = bind_sum (f x) (\<lambda>y. bind_sum (map_sum_list f xs) (\<lambda>ys. Inr (y # ys)))"

definition to_descriptor :: "descriptor_input \<Rightarrow> bool \<Rightarrow> string + release_descriptor" where
  "to_descriptor input publish =
     bind_sum (map_sum_list (\<lambda>v. bind_sum (map_sum_list to_ingest_artifact (vi_artifacts v)) (\<lambda>artifacts.
         Inr \<lparr>iv_selector = vi_selector v, iv_name = vi_name v, iv_analysis = vi_analysis v,
              iv_artifacts = artifacts\<rparr>)) (di_variants input)) (\<lambda>variants.
       Inr \<lparr>de_typeKey = di_typeKey input, de_name = di_name input, de_version = di_version input,
            de_channel = di_channel input, de_sourceCommit = di_sourceCommit input,
            de_sourceDirty = di_sourceDirty input, de_config = di_config input,
            de_analysis = di_analysis input, de_publish = publish, de_variants = variants\<rparr>)"

record presigned =
  ps_storageKey :: string
  ps_exists :: bool
  ps_method :: string
  ps_url :: string
  ps_headers :: "(string \<times> string) list"

definition internal :: "string \<Rightarrow> trpc_error" where
  "internal message = TRPC INTERNAL_ERROR message"

definition presign_blob ::
    "(string \<Rightarrow> bool) \<Rightarrow> (string \<Rightarrow> string option \<Rightarrow> string \<times> string \<times> (string \<times> string) list) \<Rightarrow>
     string \<Rightarrow> string option \<Rightarrow> trpc_error + presigned" where
  "presign_blob stored sign_put sha256 contentType =
     (case join_cas_key sha256 of
        Inl e \<Rightarrow> Inl (internal (storage_error_text e))
      | Inr storageKey \<Rightarrow>
          if stored storageKey
          then Inr \<lparr>ps_storageKey = storageKey, ps_exists = True, ps_method = ''PUT'', ps_url = [], ps_headers = []\<rparr>
          else (let (method, url, headers) = sign_put storageKey contentType
                in Inr \<lparr>ps_storageKey = storageKey, ps_exists = False, ps_method = method, ps_url = url,
                        ps_headers = headers\<rparr>))"

definition read_bearer :: "string option \<Rightarrow> string option" where
  "read_bearer header =
     (let value = or_else header [];
          token = (if starts_with ''Bearer '' value then trim (drop 7 value) else [])
      in if token = [] then None else Some token)"

definition ci_artifact_upload_url ::
    "release_host \<Rightarrow> (string \<Rightarrow> bool) \<Rightarrow> (string \<Rightarrow> string option \<Rightarrow> string \<times> string \<times> (string \<times> string) list) \<Rightarrow>
     nat \<Rightarrow> string option \<Rightarrow> string \<Rightarrow> string \<Rightarrow> string option \<Rightarrow> releases_db \<Rightarrow>
     (trpc_error + presigned) \<times> releases_db" where
  "ci_artifact_upload_url h stored sign_put now authorization typeKey sha256 contentType db =
     (case verify_ci_token h now (read_bearer authorization)
             \<lparr>rq_typeKey = Some typeKey, rq_name = None, rq_publish = False\<rparr> db of
        Inl e \<Rightarrow> (Inl e, db)
      | Inr (_, db1) \<Rightarrow> (presign_blob stored sign_put sha256 contentType, db1))"

definition ci_register_release ::
    "release_host \<Rightarrow> nat \<Rightarrow> string option \<Rightarrow> descriptor_input \<Rightarrow> releases_db \<Rightarrow>
     (trpc_error + ingest_result) \<times> releases_db" where
  "ci_register_release h now authorization input db =
     (if \<not> descriptor_input_ok input then (Inl (TRPC BAD_REQUEST ''input''), db)
      else
        (let publish = or_else (di_publish input) False
         in case verify_ci_token h now (read_bearer authorization)
                   \<lparr>rq_typeKey = Some (di_typeKey input), rq_name = Some (di_name input), rq_publish = publish\<rparr> db of
              Inl e \<Rightarrow> (Inl e, db)
            | Inr (_, db1) \<Rightarrow>
                (case bind_sum (to_descriptor input publish) (\<lambda>d.
                        ingest_release h now d \<lparr>ic_ownerUserId = None, ic_buildId = None\<rparr> db1) of
                   Inl message \<Rightarrow> (Inl (internal message), db1)
                 | Inr (result, db2) \<Rightarrow> (Inr result, db2))))"

definition builds_request ::
    "release_host \<Rightarrow> nat \<Rightarrow> string option \<Rightarrow> build_request \<Rightarrow> releases_db \<Rightarrow>
     (trpc_error + build_request_result) \<times> releases_db" where
  "builds_request h now authorization input db =
     (case verify_ci_token h now (read_bearer authorization)
             \<lparr>rq_typeKey = Some (br_typeKey input), rq_name = None, rq_publish = False\<rparr> db of
        Inl e \<Rightarrow> (Inl e, db)
      | Inr (_, db1) \<Rightarrow>
          (case request_build h now input db1 of
             Inl message \<Rightarrow> (Inl (internal message), db1)
           | Inr (result, db2) \<Rightarrow> (Inr result, db2)))"

definition build_artifact_url ::
    "release_host \<Rightarrow> (string \<Rightarrow> bool) \<Rightarrow> (string \<Rightarrow> string option \<Rightarrow> string \<times> string \<times> (string \<times> string) list) \<Rightarrow>
     nat \<Rightarrow> string option \<Rightarrow> string \<Rightarrow> string \<Rightarrow> string option \<Rightarrow> releases_db \<Rightarrow> trpc_error + presigned" where
  "build_artifact_url h stored sign_put now authorization buildId sha256 contentType db =
     bind_sum (verify_build_callback h now db buildId (read_bearer authorization)) (\<lambda>_.
       presign_blob stored sign_put sha256 contentType)"

record build_outcome =
  bo_buildId :: string
  bo_failed :: bool
  bo_errorSummary :: "string option"
  bo_analysis :: "json option"
  bo_durationMs :: "int option"
  bo_release :: "descriptor_input option"

definition update_build :: "string \<Rightarrow> (build_row \<Rightarrow> build_row) \<Rightarrow> releases_db \<Rightarrow> releases_db" where
  "update_build buildId f db = db\<lparr>rd_builds := map (\<lambda>b. if bu_id b = buildId then f b else b) (rd_builds db)\<rparr>"

definition build_complete ::
    "release_host \<Rightarrow> nat \<Rightarrow> string option \<Rightarrow> build_outcome \<Rightarrow> releases_db \<Rightarrow>
     (trpc_error + (bool \<times> string option)) \<times> releases_db" where
  "build_complete h now authorization input db =
     (if (case bo_release input of None \<Rightarrow> False | Some d \<Rightarrow> \<not> descriptor_input_ok d)
      then (Inl (TRPC BAD_REQUEST ''input''), db)
      else case verify_build_callback h now db (bo_buildId input) (read_bearer authorization) of
        Inl e \<Rightarrow> (Inl e, db)
      | Inr (ownerUserId, _) \<Rightarrow>
          if bo_failed input \<or> bo_release input = None
          then (Inr (False, None),
                update_build (bo_buildId input) (\<lambda>b. b\<lparr>bu_status := ''failed'',
                  bu_errorSummary := Some (or_else (bo_errorSummary input) ''build failed''),
                  bu_finishedAt := Some now\<rparr>) db)
          else case bind_sum (to_descriptor (the (bo_release input)) True) (\<lambda>d.
                      ingest_release h now d
                        \<lparr>ic_ownerUserId = ownerUserId, ic_buildId = Some (bo_buildId input)\<rparr> db) of
                 Inl message \<Rightarrow> (Inl (internal message), db)
               | Inr (result, db1) \<Rightarrow>
                   (Inr (True, Some (ir_releaseId result)),
                    update_build (bo_buildId input) (\<lambda>b. b\<lparr>bu_status := ''success'',
                      bu_releaseId := Some (ir_releaseId result),
                      bu_variantId := (case ir_variantIds result of [] \<Rightarrow> None | v # _ \<Rightarrow> Some v),
                      bu_analysis := bo_analysis input, bu_durationMs := bo_durationMs input,
                      bu_finishedAt := Some now\<rparr>) db1))"

record ota_answer =
  oa_published :: bool
  oa_version :: "string option"
  oa_packagePath :: "string option"
  oa_sha256 :: "string option"

definition ota_trigger ::
    "release_host \<Rightarrow> nat \<Rightarrow> string option \<Rightarrow> string \<Rightarrow> releases_db \<Rightarrow>
     (trpc_error + ota_answer) \<times> (string \<times> string \<times> nat) list \<times> releases_db" where
  "ota_trigger h now authorization deviceId db =
     (case verify_ci_token h now (read_bearer authorization)
             \<lparr>rq_typeKey = None, rq_name = None, rq_publish = False\<rparr> db of
        Inl e \<Rightarrow> (Inl e, [], db)
      | Inr (_, db1) \<Rightarrow>
          (let (target, messages) = publish_ota h db1 deviceId
           in (Inr \<lparr>oa_published = (target \<noteq> None), oa_version = map_option ot_version target,
                    oa_packagePath = map_option ot_storageKey target, oa_sha256 = map_option ot_sha256 target\<rparr>,
               messages, db1)))"

section \<open>Who may register a release\<close>

lemma constant_time_equals_iff: "constant_time_equals a b \<longleftrightarrow> a = b"
  by (auto simp: constant_time_equals_def utf8_inject)

text \<open>The bearer of a live token whose scopes allow the action; the row is the token's.\<close>

definition token_grants :: "release_host \<Rightarrow> nat \<Rightarrow> string option \<Rightarrow> ci_requirement \<Rightarrow> releases_db \<Rightarrow> ci_token_row \<Rightarrow> bool" where
  "token_grants h now bearer req db row \<longleftrightarrow>
     (\<exists>s. bearer = Some s \<and> row \<in> set (rd_tokens db) \<and> ct_tokenHash row = hash_token h s \<and>
        ct_tokenPrefix row = take 12 s) \<and> ct_revokedAt row = None \<and>
     (\<forall>t. ct_expiresAt row = Some t \<longrightarrow> now < t) \<and>
     (\<forall>k. rq_typeKey req = Some k \<longrightarrow> scope_allows (sc_typeKeys (or_else (ct_scopes row) no_scopes)) k) \<and>
     (\<forall>n. rq_name req = Some n \<longrightarrow> scope_allows (sc_names (or_else (ct_scopes row) no_scopes)) n) \<and>
     (rq_publish req \<longrightarrow> sc_canPublish (or_else (ct_scopes row) no_scopes) \<noteq> Some False)"

definition ci_authorized :: "release_host \<Rightarrow> nat \<Rightarrow> string option \<Rightarrow> ci_requirement \<Rightarrow> releases_db \<Rightarrow> bool" where
  "ci_authorized h now bearer req db \<longleftrightarrow> (\<exists>row. token_grants h now bearer req db row)"

text \<open>The databases agree, but the token \<open>i\<close> was used at \<open>now\<close>.\<close>

definition token_used :: "nat \<Rightarrow> string \<Rightarrow> releases_db \<Rightarrow> releases_db \<Rightarrow> bool" where
  "token_used now i db db' \<longleftrightarrow> db' = db\<lparr>rd_tokens := rd_tokens db'\<rparr> \<and> length (rd_tokens db') = length (rd_tokens db) \<and>
     (\<forall>n < length (rd_tokens db). rd_tokens db' ! n =
        (if ct_id (rd_tokens db ! n) = i then (rd_tokens db ! n)\<lparr>ct_lastUsedAt := Some now\<rparr> else rd_tokens db ! n))"

lemma verify_ci_token_Inr:
  assumes "verify_ci_token h now bearer req db = Inr (x, db')"
  shows "\<exists>row. token_grants h now bearer req db row \<and> token_used now (ct_id row) db db'"
proof -
  obtain s where s: "bearer = Some s" "trim s \<noteq> []"
    using assms by (auto simp: verify_ci_token_def split: option.splits if_splits)
  obtain row where row: "find (token_matches h now s)
      (filter (\<lambda>row. ct_tokenPrefix row = take CI_TOKEN_PREFIX_LEN s) (rd_tokens db)) = Some row"
    using assms s by (auto simp: verify_ci_token_def Let_def split: option.splits)
  have m: "row \<in> set (rd_tokens db)" "ct_tokenPrefix row = take 12 s" "token_matches h now s row"
    using find_Some_mem[OF row] by (auto simp: CI_TOKEN_PREFIX_LEN_def)
  have "token_grants h now bearer req db row"
    unfolding token_grants_def using assms s m row
    by (auto simp: verify_ci_token_def Let_def token_matches_def constant_time_equals_iff split: option.splits if_splits)
  moreover have "token_used now (ct_id row) db db'"
    using assms s row by (auto simp: verify_ci_token_def Let_def token_used_def split: if_splits)
  ultimately show ?thesis by blast
qed

definition register_requirement :: "descriptor_input \<Rightarrow> ci_requirement" where
  "register_requirement input = \<lparr>rq_typeKey = Some (di_typeKey input), rq_name = Some (di_name input),
     rq_publish = or_else (di_publish input) False\<rparr>"

lemma ci_release_registered:
  assumes "ci_register_release h now auth input db = (res, db')"
  shows "(db' \<noteq> db \<or> (\<exists>r. res = Inr r) \<longrightarrow> ci_authorized h now (read_bearer auth) (register_requirement input) db) \<and>
    (\<forall>e. res = Inl e \<longrightarrow> db' = db \<or>
       (\<exists>row. token_grants h now (read_bearer auth) (register_requirement input) db row \<and> token_used now (ct_id row) db db')) \<and>
    (\<forall>r. res = Inr r \<longrightarrow> (\<exists>d db1 row. to_descriptor input (or_else (di_publish input) False) = Inr d \<and>
       token_grants h now (read_bearer auth) (register_requirement input) db row \<and> token_used now (ct_id row) db db1 \<and>
       ingest_release h now d \<lparr>ic_ownerUserId = None, ic_buildId = None\<rparr> db1 = Inr (r, db')))"
proof (cases "verify_ci_token h now (read_bearer auth) (register_requirement input) db")
  case (Inl e)
  then show ?thesis
    using assms by (auto simp: ci_register_release_def Let_def register_requirement_def split: if_splits)
next
  case (Inr x)
  then obtain y db1 where v: "verify_ci_token h now (read_bearer auth) (register_requirement input) db = Inr (y, db1)"
    by (cases x) simp
  obtain row where ok: "token_grants h now (read_bearer auth) (register_requirement input) db row"
    "token_used now (ct_id row) db db1"
    using verify_ci_token_Inr[OF v] by blast
  then have may: "ci_authorized h now (read_bearer auth) (register_requirement input) db"
    unfolding ci_authorized_def by blast
  let ?run = "bind_sum (to_descriptor input (or_else (di_publish input) False)) (\<lambda>d.
      ingest_release h now d \<lparr>ic_ownerUserId = None, ic_buildId = None\<rparr> db1)"
  show ?thesis
  proof (cases "descriptor_input_ok input")
    case False
    then show ?thesis using assms by (auto simp: ci_register_release_def)
  next
    case True
    then have run: "(res, db') = (case ?run of Inl m \<Rightarrow> (Inl (internal m), db1) | Inr (r, db2) \<Rightarrow> (Inr r, db2))"
      using assms v by (simp add: ci_register_release_def register_requirement_def Let_def)
    show ?thesis
    proof (cases ?run)
      case (Inl m)
      then show ?thesis using run ok may by auto
    next
      case (Inr p)
      then obtain r where "?run = Inr (r, db')" "res = Inr r" using run by (cases p) auto
      with ok may show ?thesis by (simp add: bind_sum_Inr) blast
    qed
  qed
qed

text \<open>C15: Only an authorized client changes what is released: registering a release touches the
  database only for the bearer of a token that is neither revoked nor expired and whose
  scopes allow this type, this release and, if asked for, publishing; a request that fails
  leaves the database as it was, but for the use time of a token that authorized it; and a
  request that succeeds has stamped such a token and registered exactly its own descriptor.\<close>

theorem ci_release_authorized:
  assumes "ci_register_release h now auth input db = (res, db')"
  shows "(db' \<noteq> db \<or> (\<exists>r. res = Inr r) \<longrightarrow> ci_authorized h now (read_bearer auth) (register_requirement input) db) \<and>
    (\<forall>e. res = Inl e \<longrightarrow> db' = db \<or>
       (\<exists>row. token_grants h now (read_bearer auth) (register_requirement input) db row \<and> token_used now (ct_id row) db db')) \<and>
    (\<forall>r. res = Inr r \<longrightarrow> (\<exists>d db1 row. to_descriptor input (or_else (di_publish input) False) = Inr d \<and>
       token_grants h now (read_bearer auth) (register_requirement input) db row \<and> token_used now (ct_id row) db db1 \<and>
       ingest_release h now d \<lparr>ic_ownerUserId = None, ic_buildId = None\<rparr> db1 = Inr (r, db')))"
  using assms by (rule ci_release_registered)

section \<open>Builds are found again\<close>

definition builds_ok :: "release_host \<Rightarrow> releases_db \<Rightarrow> bool" where
  "builds_ok h db \<longleftrightarrow> table_ok h ''bld'' (rd_draws db) bu_id bu_id (rd_builds db)"

definition hex_source :: "release_host \<Rightarrow> bool" where
  "hex_source h \<longleftrightarrow> (\<forall>n. \<forall>c \<in> set (rh_random h n). hex_char c)"

text \<open>The hash a request is looked up by.\<close>

definition request_hash :: "release_host \<Rightarrow> releases_db \<Rightarrow> build_request \<Rightarrow> string option" where
  "request_hash h db q =
     (case find (\<lambda>t. ty_key t = br_typeKey q) (rd_types db) of
        None \<Rightarrow> None
      | Some ty \<Rightarrow> (case get_adapter h (ty_adapterKey ty) of Inl _ \<Rightarrow> None | Inr a \<Rightarrow> Some (ad_config_hash a (br_config q))))"

lemma request_build_known:
  assumes "request_hash h db q = Some k" "find (\<lambda>b. bu_configHash b = k) (rd_builds db) = Some b" "bu_releaseId b = Some r"
  shows "request_build h now q db =
    Inr (\<lparr>bq_status = Hit, bq_buildId = bu_id b, bq_releaseId = Some r, bq_variantId = bu_variantId b,
          bq_callbackToken = None\<rparr>, db)"
proof -
  obtain ty a where "find (\<lambda>t. ty_key t = br_typeKey q) (rd_types db) = Some ty" "get_adapter h (ty_adapterKey ty) = Inr a"
      "k = ad_config_hash a (br_config q)"
    using assms(1) by (auto simp: request_hash_def split: option.splits sum.splits)
  then show ?thesis using assms(2,3) by (simp add: request_build_def Let_def)
qed

lemma request_build_queued:
  assumes "request_build h now q db = Inr (res, db')" "bq_status res = Queued"
  obtains k where "request_hash h db q = Some k"
    "bq_callbackToken res = Some (''bcb_'' @ rh_random h (Suc (rd_draws db)))" "bq_buildId res = prefixed_id h ''bld'' (rd_draws db)"
    "db' = db\<lparr>rd_draws := Suc (Suc (rd_draws db)), rd_builds := rd_builds db @
       [queued_build (prefixed_id h ''bld'' (rd_draws db)) (hash_token h (''bcb_'' @ rh_random h (Suc (rd_draws db)))) now q k]\<rparr>"
proof -
  obtain ty where ty: "find (\<lambda>t. ty_key t = br_typeKey q) (rd_types db) = Some ty"
    using assms(1) by (auto simp: request_build_def split: option.splits)
  obtain a where a: "get_adapter h (ty_adapterKey ty) = Inr a"
    using assms(1) ty by (auto simp: request_build_def bind_sum_Inr)
  show thesis
    by (rule that[of "ad_config_hash a (br_config q)"])
      (use assms ty a in \<open>auto simp: request_build_def request_hash_def Let_def draw_id_simps
        generate_build_callback_token_def split: if_splits\<close>)
qed

lemma hex_not_space: "hex_char c \<Longrightarrow> \<not> js_space c"
  by (auto simp: hex_char_def js_simps Let_def)

lemma callback_secret_trim:
  assumes "hex_source h"
  shows "trim (''bcb_'' @ rh_random h n) = ''bcb_'' @ rh_random h n"
proof (rule trim_id, rule disjI2, rule conjI)
  show "\<not> js_space (hd (''bcb_'' @ rh_random h n))" by (simp add: js_simps)
  show "\<not> js_space (last (''bcb_'' @ rh_random h n))"
  proof (cases "rh_random h n = []")
    case False
    then have "last (rh_random h n) \<in> set (rh_random h n)" by simp
    then have "hex_char (last (rh_random h n))" using assms by (auto simp: hex_source_def)
    with False hex_not_space show ?thesis by simp
  qed (simp add: js_simps)
qed

lemma callback_bearer:
  "hex_source h \<Longrightarrow> read_bearer (Some (''Bearer '' @ ''bcb_'' @ rh_random h n)) = Some (''bcb_'' @ rh_random h n)"
  using callback_secret_trim[of h n] by (simp add: read_bearer_def starts_with_def)

lemma build_complete_done:
  assumes "build_complete h now auth outcome db = (Inr (True, Some rid), db')"
  obtains f db1 where "rd_builds db1 = rd_builds db" "rd_types db1 = rd_types db"
    "db' = update_build (bo_buildId outcome) f db1" "\<And>b. bu_configHash (f b) = bu_configHash b"
    "\<And>b. bu_id (f b) = bu_id b" "\<And>b. bu_releaseId (f b) = Some rid"
proof -
  obtain owner ty where v: "verify_build_callback h now db (bo_buildId outcome) (read_bearer auth) = Inr (owner, ty)"
    and r: "\<not> bo_failed outcome" "bo_release outcome \<noteq> None"
    using assms by (auto simp: build_complete_def split: if_splits sum.splits)
  obtain d result db1 where ing: "ingest_release h now d \<lparr>ic_ownerUserId = owner, ic_buildId = Some (bo_buildId outcome)\<rparr> db =
      Inr (result, db1)" and rid: "ir_releaseId result = rid"
    and db': "db' = update_build (bo_buildId outcome) (\<lambda>b. b\<lparr>bu_status := ''success'',
        bu_releaseId := Some (ir_releaseId result),
        bu_variantId := (case ir_variantIds result of [] \<Rightarrow> None | v # _ \<Rightarrow> Some v),
        bu_analysis := bo_analysis outcome, bu_durationMs := bo_durationMs outcome,
        bu_finishedAt := Some now\<rparr>) db1"
    using assms v r by (auto simp: build_complete_def bind_sum_def split: if_splits sum.splits)
  have "extends db db1" by (rule ingest_release_extends[OF ing])
  then have "rd_builds db1 = rd_builds db" "rd_types db1 = rd_types db" by (simp_all add: extends_def)
  then show thesis by (rule that[OF _ _ db']) (simp_all add: rid)
qed

text \<open>
  What calls of the API may do to the builds: rows stay in place under their ids, keep what a
  request wrote, and change only by a completion that names them; new rows are added at the end.
  \<open>Verify\<close> stands for the calls that write no more than the use time of their token.
\<close>

datatype api_call =
    Register nat "string option" descriptor_input
  | Request nat build_request
  | Complete nat "string option" build_outcome
  | Verify nat "string option" ci_requirement

definition api_do :: "release_host \<Rightarrow> api_call \<Rightarrow> releases_db \<Rightarrow> releases_db" where
  "api_do h call db =
     (case call of
        Register now auth input \<Rightarrow> snd (ci_register_release h now auth input db)
      | Request now q \<Rightarrow> (case request_build h now q db of Inl _ \<Rightarrow> db | Inr (_, db') \<Rightarrow> db')
      | Complete now auth outcome \<Rightarrow> snd (build_complete h now auth outcome db)
      | Verify now auth req \<Rightarrow> (case verify_ci_token h now (read_bearer auth) req db of Inl _ \<Rightarrow> db | Inr (_, db') \<Rightarrow> db'))"

definition api_run :: "release_host \<Rightarrow> api_call list \<Rightarrow> releases_db \<Rightarrow> releases_db" where
  "api_run h calls db = fold (api_do h) calls db"

definition completed_by :: "api_call list \<Rightarrow> string set" where
  "completed_by calls = (\<Union>call \<in> set calls. case call of Complete _ _ outcome \<Rightarrow> {bo_buildId outcome} | _ \<Rightarrow> {})"

definition same_request :: "build_row \<Rightarrow> build_row \<Rightarrow> bool" where
  "same_request b c \<longleftrightarrow> bu_id c = bu_id b \<and> bu_configHash c = bu_configHash b \<and> bu_typeKey c = bu_typeKey b \<and>
     bu_ownerUserId c = bu_ownerUserId b \<and> bu_callbackTokenHash c = bu_callbackTokenHash b \<and>
     bu_callbackExpiresAt c = bu_callbackExpiresAt b"

definition keeps_builds :: "string set \<Rightarrow> releases_db \<Rightarrow> releases_db \<Rightarrow> bool" where
  "keeps_builds X db db' \<longleftrightarrow> rd_types db' = rd_types db \<and>
     (\<exists>f added. rd_builds db' = map f (rd_builds db) @ added \<and>
        (\<forall>b. same_request b (f b) \<and> (bu_id b \<notin> X \<longrightarrow> f b = b)))"

lemma keeps_builds_refl: "rd_builds db' = rd_builds db \<Longrightarrow> rd_types db' = rd_types db \<Longrightarrow> keeps_builds X db db'"
  unfolding keeps_builds_def by (intro conjI exI[of _ id] exI[of _ "[]"]) (simp_all add: same_request_def)

lemma keeps_builds_trans:
  assumes "keeps_builds X a b" "keeps_builds X b c" shows "keeps_builds X a c"
proof -
  obtain f g u v where f: "rd_builds b = map f (rd_builds a) @ u" "\<forall>x. same_request x (f x) \<and> (bu_id x \<notin> X \<longrightarrow> f x = x)"
    and g: "rd_builds c = map g (rd_builds b) @ v" "\<forall>x. same_request x (g x) \<and> (bu_id x \<notin> X \<longrightarrow> g x = x)"
    using assms unfolding keeps_builds_def by blast
  have "rd_builds c = map (g \<circ> f) (rd_builds a) @ (map g u @ v)" using f(1) g(1) by simp
  moreover have "\<forall>x. same_request x ((g \<circ> f) x) \<and> (bu_id x \<notin> X \<longrightarrow> (g \<circ> f) x = x)"
    using f(2) g(2) by (simp add: same_request_def)
  moreover have "rd_types c = rd_types a" using assms by (simp add: keeps_builds_def)
  ultimately show ?thesis unfolding keeps_builds_def by blast
qed

lemma token_used_frame:
  assumes "token_used now i db db'"
  shows "rd_builds db' = rd_builds db" "rd_types db' = rd_types db"
proof -
  have "rd_builds (db\<lparr>rd_tokens := x\<rparr>) = rd_builds db" "rd_types (db\<lparr>rd_tokens := x\<rparr>) = rd_types db" for x by simp_all
  then show "rd_builds db' = rd_builds db" "rd_types db' = rd_types db"
    using assms unfolding token_used_def by metis+
qed

lemma verify_keeps: "verify_ci_token h now bearer req db = Inr (x, db') \<Longrightarrow> keeps_builds X db db'"
  by (meson verify_ci_token_Inr token_used_frame keeps_builds_refl)

lemma ingest_keeps: "ingest_release h now d c db = Inr (r, db') \<Longrightarrow> keeps_builds X db db'"
  using ingest_release_extends[of h now d c db r db'] by (auto simp: extends_def intro: keeps_builds_refl)

lemma register_keeps: "keeps_builds X db (snd (ci_register_release h now auth input db))"
proof -
  obtain res db' where run: "ci_register_release h now auth input db = (res, db')" by fastforce
  from ci_release_registered[OF run] show ?thesis
    by (cases res) (auto simp: run intro: keeps_builds_refl keeps_builds_trans dest: verify_keeps ingest_keeps token_used_frame)
qed

lemma request_keeps: "request_build h now q db = Inr (r, db') \<Longrightarrow> keeps_builds X db db'"
proof (cases "bq_status r")
  case Queued
  assume run: "request_build h now q db = Inr (r, db')"
  have added: "rd_types db' = rd_types db \<and> rd_builds db' = map id (rd_builds db) @ added \<Longrightarrow> keeps_builds X db db'" for added
    unfolding keeps_builds_def by (metis id_apply same_request_def)
  show ?thesis by (rule request_build_queued[OF run Queued], rule added) simp
next
  case Hit
  assume "request_build h now q db = Inr (r, db')"
  with Hit show ?thesis
    by (auto simp: request_build_def bind_sum_Inr Let_def keeps_builds_refl split: option.splits if_splits prod.splits)
qed

lemma update_keeps:
  assumes "i \<in> X" "\<And>b. same_request b (f b)"
  shows "keeps_builds X db (update_build i f db)"
  unfolding keeps_builds_def using assms
  by (intro conjI exI[of _ "\<lambda>b. if bu_id b = i then f b else b"] exI[of _ "[]"])
    (auto simp: update_build_def same_request_def)

lemma complete_keeps:
  assumes "bo_buildId outcome \<in> X"
  shows "keeps_builds X db (snd (build_complete h now auth outcome db))"
proof -
  have "keeps_builds X db (update_build (bo_buildId outcome) f db1)"
    if "bind_sum (to_descriptor d True) (\<lambda>x. ingest_release h now x c db) = Inr (r, db1)" "\<And>b. same_request b (f b)"
    for d c r db1 f
    using that keeps_builds_trans[OF ingest_keeps update_keeps[OF assms]] by (auto simp: bind_sum_Inr)
  then show ?thesis
    using update_keeps[OF assms]
    by (auto simp: build_complete_def same_request_def intro: keeps_builds_refl split: if_splits sum.splits prod.splits)
qed

lemma run_keeps: "keeps_builds (completed_by calls) db (api_run h calls db)"
proof -
  have step: "keeps_builds X db (api_do h c db)" if "completed_by [c] \<subseteq> X" for c X db
    using that register_keeps request_keeps complete_keeps verify_keeps
    by (cases c) (auto simp: api_do_def completed_by_def intro: keeps_builds_refl split: sum.splits prod.splits)
  have "keeps_builds X db (fold (api_do h) calls db)" if "completed_by calls \<subseteq> X" for X
    using that
  proof (induction calls arbitrary: db)
    case (Cons c calls)
    then have "completed_by [c] \<subseteq> X" "completed_by calls \<subseteq> X" by (auto simp: completed_by_def)
    with Cons.IH keeps_builds_trans[OF step] show ?case by simp
  qed (simp add: keeps_builds_refl)
  then show ?thesis by (simp add: api_run_def)
qed

lemma keeps_hash: "keeps_builds X db db' \<Longrightarrow> request_hash h db' q = request_hash h db q"
  by (simp add: keeps_builds_def request_hash_def)

text \<open>Where a build is found after such calls: behind the rows that were there before it.\<close>

lemma keeps_find:
  assumes "keeps_builds X db db'" "rd_builds db = old @ b # rest"
  obtains old' c rest' where "rd_builds db' = old' @ c # rest'" "same_request b c" "bu_id b \<notin> X \<longrightarrow> c = b"
    "map bu_id old' = map bu_id old" "map bu_configHash old' = map bu_configHash old"
proof -
  obtain f added where f: "rd_builds db' = map f (rd_builds db) @ added"
    "\<forall>b. same_request b (f b) \<and> (bu_id b \<notin> X \<longrightarrow> f b = b)"
    using assms(1) unfolding keeps_builds_def by blast
  show thesis
    by (rule that[of "map f old" "f b" "map f rest @ added"]) (use assms(2) f in \<open>auto simp: same_request_def\<close>)
qed

lemma find_after: "(\<forall>x \<in> set xs. \<not> P x) \<Longrightarrow> P y \<Longrightarrow> find P (xs @ y # ys) = Some y"
  by (induction xs) auto

text \<open>C19: A custom build is built once. A request that is queued gets a callback token that opens
  exactly this build until it expires, whatever calls of the API come in between. Once the
  worker with the token has completed the build, then, after any further calls that do not
  complete it again, every request with the same configuration hash is answered with this
  build and its release, and changes nothing, provided that it is the only build of this
  configuration: other attempts, failed or unfinished, can hide it.\<close>

theorem build_found_again:
  assumes inj: "inj (rh_random h)" and hex: "hex_source h" and ok: "builds_ok h db"
    and req: "request_build h now q db = Inr (res, db1)" "bq_status res = Queued"
  shows "verify_build_callback h now1 (api_run h calls db1) (bq_buildId res) (bq_callbackToken res) =
      (if now1 < now + CALLBACK_TTL_MS then Inr (Some (br_ownerUserId q), br_typeKey q) else Inl invalid_callback) \<and>
    (\<forall>outcome rid db2 later q'. bo_buildId outcome = bq_buildId res \<longrightarrow>
      build_complete h now1 (Some (''Bearer '' @ the (bq_callbackToken res))) outcome (api_run h calls db1) =
        (Inr (True, Some rid), db2) \<longrightarrow>
      bq_buildId res \<notin> completed_by later \<longrightarrow>
      (\<forall>b \<in> set (rd_builds (api_run h later db2)).
         Some (bu_configHash b) = request_hash h db q \<longrightarrow> bu_id b = bq_buildId res) \<longrightarrow>
      request_hash h db q' = request_hash h db q \<longrightarrow>
      (\<exists>vid. request_build h now2 q' (api_run h later db2) =
         Inr (\<lparr>bq_status = Hit, bq_buildId = bq_buildId res, bq_releaseId = Some rid,
               bq_variantId = vid, bq_callbackToken = None\<rparr>, api_run h later db2)))"
proof -
  obtain k where k: "request_hash h db q = Some k"
    and token: "bq_callbackToken res = Some (''bcb_'' @ rh_random h (Suc (rd_draws db)))"
    and bid: "bq_buildId res = prefixed_id h ''bld'' (rd_draws db)"
    and db1: "db1 = db\<lparr>rd_draws := Suc (Suc (rd_draws db)), rd_builds := rd_builds db @
       [queued_build (prefixed_id h ''bld'' (rd_draws db)) (hash_token h (''bcb_'' @ rh_random h (Suc (rd_draws db)))) now q k]\<rparr>"
    by (rule request_build_queued[OF req])
  let ?row = "queued_build (prefixed_id h ''bld'' (rd_draws db)) (hash_token h (''bcb_'' @ rh_random h (Suc (rd_draws db)))) now q k"
  let ?s = "api_run h calls db1"
  have fresh: "bq_buildId res \<notin> set (map bu_id (rd_builds db))"
    using table_ok_fresh[OF inj ok[unfolded builds_ok_def]] bid by fastforce
  have "rd_builds db1 = rd_builds db @ ?row # []" by (simp add: db1)
  then obtain old c rest where s: "rd_builds ?s = old @ c # rest" "same_request ?row c" "map bu_id old = map bu_id (rd_builds db)"
    by (rule keeps_find[OF run_keeps])
  have cid: "bu_id c = bq_buildId res" using s(2) by (simp add: same_request_def queued_build_def bid)
  have old: "\<forall>b \<in> set old. bu_id b \<noteq> bq_buildId res"
    using fresh unfolding s(3)[symmetric] by (metis image_eqI set_map)
  have find: "find (\<lambda>b. bu_id b = bq_buildId res) (rd_builds ?s) = Some c"
    unfolding s(1) by (rule find_after) (use old cid in auto)
  have "trim (''bcb_'' @ rh_random h (Suc (rd_draws db))) \<noteq> []"
    unfolding callback_secret_trim[OF hex] by simp
  then have verify: "verify_build_callback h now1 ?s (bq_buildId res) (bq_callbackToken res) =
      (if now1 < now + CALLBACK_TTL_MS then Inr (Some (br_ownerUserId q), br_typeKey q) else Inl invalid_callback)"
    using s(2) by (simp add: verify_build_callback_def token find queued_build_def constant_time_equals_iff same_request_def)
  have "\<exists>vid. request_build h now2 q' (api_run h later db2) =
      Inr (\<lparr>bq_status = Hit, bq_buildId = bq_buildId res, bq_releaseId = Some rid,
            bq_variantId = vid, bq_callbackToken = None\<rparr>, api_run h later db2)"
    if id: "bo_buildId outcome = bq_buildId res"
      and completed: "build_complete h now1 auth outcome ?s = (Inr (True, Some rid), db2)"
      and apart: "bq_buildId res \<notin> completed_by later"
      and only: "\<forall>b \<in> set (rd_builds (api_run h later db2)). Some (bu_configHash b) = request_hash h db q \<longrightarrow> bu_id b = bq_buildId res"
      and same: "request_hash h db q' = request_hash h db q" for outcome rid db2 later q' auth
  proof -
    obtain f db3 where f: "rd_builds db3 = rd_builds ?s" "rd_types db3 = rd_types ?s"
      "db2 = update_build (bo_buildId outcome) f db3" "\<And>b. bu_configHash (f b) = bu_configHash b"
      "\<And>b. bu_id (f b) = bu_id b" "\<And>b. bu_releaseId (f b) = Some rid"
      using build_complete_done[OF completed] by blast
    let ?u = "\<lambda>b. if bu_id b = bq_buildId res then f b else b"
    have "rd_builds db2 = map ?u old @ f c # map ?u rest"
      using f(1,3) id cid by (simp add: update_build_def s(1))
    then obtain old2 rest2 d where t: "rd_builds (api_run h later db2) = old2 @ d # rest2" "bu_id (f c) \<notin> completed_by later \<longrightarrow> d = f c"
      "map bu_id old2 = map bu_id (map ?u old)"
      by (rule keeps_find[OF run_keeps])
    have d: "d = f c" using t(2) apart f(5) cid by simp
    have "map bu_id (map ?u old) = map bu_id old" by (simp add: f(5))
    then have "\<forall>b \<in> set old2. bu_id b \<noteq> bq_buildId res"
      using fresh t(3) s(3) by (metis (no_types, lifting) image_eqI set_map)
    then have "\<forall>b \<in> set old2. bu_configHash b \<noteq> k" using only k unfolding t(1) by auto
    moreover have "bu_configHash (f c) = k" using s(2) f(4) by (simp add: same_request_def queued_build_def)
    ultimately have "find (\<lambda>b. bu_configHash b = k) (rd_builds (api_run h later db2)) = Some (f c)"
      unfolding t(1) d by (intro find_after) auto
    moreover have "request_hash h (api_run h later db2) q' = Some k"
    proof -
      have "rd_types db2 = rd_types ?s" using f(2,3) by (simp add: update_build_def)
      then have "request_hash h db2 q' = request_hash h ?s q'" by (simp add: request_hash_def)
      moreover have "request_hash h db1 q' = request_hash h db q'" by (simp add: request_hash_def db1)
      ultimately show ?thesis using keeps_hash[OF run_keeps] same k by metis
    qed
    ultimately show ?thesis using request_build_known f(5,6) cid by metis
  qed
  with verify show ?thesis by blast
qed

section \<open>Concrete requests\<close>

definition demo_input :: descriptor_input where
  "demo_input = \<lparr>di_typeKey = ''esp32'', di_name = ''helix'', di_version = ''1.2'', di_channel = ''stable'',
     di_sourceCommit = None, di_sourceDirty = None, di_config = None, di_analysis = None, di_publish = Some True,
     di_variants = [\<lparr>vi_selector = demo_selector, vi_name = None, vi_analysis = None,
       vi_artifacts = [\<lparr>ai_role = ''app'', ai_offset = None, ai_path = None, ai_sha256 = Some demo_sha,
         ai_sizeBytes = Some 5, ai_contentType = None, ai_metadata = None, ai_ref = None\<rparr>]\<rparr>]\<rparr>"

definition demo_secured :: releases_db where
  "demo_secured = demo_releases\<lparr>rd_tokens := [\<lparr>ct_id = ''tok'', ct_tokenPrefix = ''cit_0123abcd'',
     ct_tokenHash = ''cit_0123abcdef'', ct_scopes = Some \<lparr>sc_typeKeys = Some [''esp32''], sc_names = None,
     sc_canPublish = None\<rparr>, ct_lastUsedAt = None, ct_expiresAt = Some 50, ct_revokedAt = None\<rparr>]\<rparr>"

lemma demo_register:
  "isl (fst (ci_register_release demo_host 9 (Some ''Bearer cit_0123abcdef'') demo_input demo_secured)) = False"
  by code_simp

theorem ci_release_authorized_witness:
  "ci_authorized demo_host 9 (read_bearer (Some ''Bearer cit_0123abcdef'')) (register_requirement demo_input) demo_secured"
proof -
  obtain r db' where r: "ci_register_release demo_host 9 (Some ''Bearer cit_0123abcdef'') demo_input demo_secured = (Inr r, db')"
    using demo_register by (metis isl_def old.sum.exhaust prod.collapse)
  show ?thesis using ci_release_authorized[OF r] by blast
qed

definition demo_request :: build_request where
  "demo_request = \<lparr>br_typeKey = ''esp32'', br_ownerUserId = ''u'', br_config = build_config_json demo_config, br_selector = None\<rparr>"

definition demo_queued :: "build_request_result \<times> releases_db" where
  "demo_queued = projr (request_build demo_host 9 demo_request demo_releases)"

lemma demo_request_facts:
  "request_build demo_host 9 demo_request demo_releases = Inr (fst demo_queued, snd demo_queued)"
  "bq_status (fst demo_queued) = Queued"
proof -
  have a: "get_adapter demo_host ''esp32-firmware'' = Inr (esp32_adapter demo_host)" by (simp add: get_adapter_cases)
  obtain x where "request_build demo_host 9 demo_request demo_releases = Inr x" "bq_status (fst x) = Queued"
    by (simp add: request_build_def demo_releases_def demo_request_def a Let_def draw_id_simps
        generate_build_callback_token_def)
  then show "request_build demo_host 9 demo_request demo_releases = Inr (fst demo_queued, snd demo_queued)"
    "bq_status (fst demo_queued) = Queued"
    by (simp_all add: demo_queued_def)
qed

theorem build_found_again_witness:
  "verify_build_callback demo_host 10 (snd demo_queued) (bq_buildId (fst demo_queued)) (bq_callbackToken (fst demo_queued)) =
     Inr (Some ''u'', ''esp32'')"
proof -
  have hex: "hex_source demo_host"
    using nat_str_digits by (auto simp: hex_source_def demo_host_def hex_char_def Let_def)
  have ok: "builds_ok demo_host demo_releases"
    by (simp_all add: builds_ok_def table_ok_def demo_releases_def)
  show ?thesis
    using build_found_again[OF demo_releases_ok(2) hex ok demo_request_facts, of 10 "[]"]
    by (simp add: CALLBACK_TTL_MS_def demo_request_def api_run_def)
qed

text \<open>A build's callback token is checked against the build only: the release it registers may
  be of another type and name than the build was requested for.\<close>

definition demo_building :: releases_db where
  "demo_building = demo_releases
     \<lparr>rd_types := rd_types demo_releases @
        [\<lparr>ty_key = ''pkg'', ty_displayName = ''Package'', ty_adapterKey = ''helix-linux-package''\<rparr>],
      rd_builds := [\<lparr>bu_id = ''bld_0'', bu_typeKey = ''esp32'', bu_source = ''custom'', bu_ownerUserId = Some ''u'',
        bu_status = ''queued'', bu_requestConfig = JObj [], bu_configHash = ''h'', bu_selector = None, bu_releaseId = None,
        bu_variantId = None, bu_callbackTokenHash = Some ''bcb_1'', bu_callbackExpiresAt = Some 20, bu_analysis = None,
        bu_errorSummary = None, bu_durationMs = None, bu_createdAt = 0, bu_finishedAt = None\<rparr>],
      rd_draws := 2\<rparr>"

lemma callback_registers_any_release:
  "fst (build_complete demo_host 10 (Some ''Bearer bcb_1'')
      \<lparr>bo_buildId = ''bld_0'', bo_failed = False, bo_errorSummary = None, bo_analysis = None,
       bo_durationMs = None, bo_release = Some (demo_input\<lparr>di_typeKey := ''pkg'', di_name := ''agent'',
         di_variants := [\<lparr>vi_selector = JObj [(''arch'', JStr ''arm64'')], vi_name = None, vi_analysis = None,
           vi_artifacts = vi_artifacts (hd (di_variants demo_input))\<rparr>]\<rparr>)\<rparr> demo_building) =
   Inr (True, Some ''rel_2'')"
  by code_simp

text \<open>The configuration hash does not name the artifact type, and the lookup of a finished
  build asks for the hash only: two types of one adapter answer each other's requests.\<close>

lemma hit_of_another_type:
  assumes "find (\<lambda>t. ty_key t = k1) (rd_types db) = Some t1" "find (\<lambda>t. ty_key t = k2) (rd_types db) = Some t2"
    "ty_adapterKey t1 = ty_adapterKey t2"
  shows "request_hash h db (q\<lparr>br_typeKey := k1\<rparr>) = request_hash h db (q\<lparr>br_typeKey := k2\<rparr>)"
  using assms by (simp add: request_hash_def split: sum.split)

end
