(* ===== verification/Release_Admin.thy ===== *)
theory Release_Admin
  imports Release_Api Admin_Query
begin

text \<open>
  The administrators' view of the releases (\<open>releases/admin-router.ts\<close>): the release list, its
  detail, product lines (every version of the same thing, grouped by type and name), the history
  of custom builds and the request of a new one through the build container. Texts are sorted by the
  collation of the database.
\<close>

section \<open>Filters and sorting\<close>

definition facet :: "string list \<Rightarrow> string \<Rightarrow> bool" where
  "facet choices v = (if 0 < length choices then List.member choices v else True)"

type_synonym collator = "string \<Rightarrow> string \<Rightarrow> bool"

definition RELEASE_SORTABLE :: "collator \<Rightarrow> (string \<times> release_row column) list" where
  "RELEASE_SORTABLE le =
     [(''name'', \<lambda>a b. le (re_name a) (re_name b)), (''version'', \<lambda>a b. le (re_version a) (re_version b)),
      (''channel'', \<lambda>a b. le (re_channel a) (re_channel b)), (''status'', \<lambda>a b. le (re_status a) (re_status b)),
      (''createdAt'', \<lambda>a b. re_createdAt a \<le> re_createdAt b)]"

definition BUILD_SORTABLE :: "collator \<Rightarrow> (string \<times> build_row column) list" where
  "BUILD_SORTABLE le =
     [(''status'', \<lambda>a b. le (bu_status a) (bu_status b)),
      (''durationMs'', \<lambda>a b. nullable (\<le>) (bu_durationMs a) (bu_durationMs b)),
      (''createdAt'', \<lambda>a b. bu_createdAt a \<le> bu_createdAt b)]"

record release_list_row =
  ll_id :: string
  ll_typeKey :: string
  ll_name :: string
  ll_version :: string
  ll_channel :: string
  ll_status :: string
  ll_sourceCommit :: "string option"
  ll_createdAt :: nat
  ll_publishedAt :: "nat option"
  ll_variantCount :: nat

definition release_list_row_of :: "releases_db \<Rightarrow> release_row \<Rightarrow> release_list_row" where
  "release_list_row_of db r =
     \<lparr>ll_id = re_id r, ll_typeKey = re_typeKey r, ll_name = re_name r, ll_version = re_version r, ll_channel = re_channel r,
      ll_status = re_status r, ll_sourceCommit = re_sourceCommit r, ll_createdAt = re_createdAt r,
      ll_publishedAt = re_publishedAt r, ll_variantCount = length (filter (\<lambda>v. va_releaseId v = re_id r) (rd_variants db))\<rparr>"

definition run_release_list ::
    "collator \<Rightarrow> releases_db \<Rightarrow> (release_row \<Rightarrow> bool) \<Rightarrow> sort_item list \<Rightarrow> nat \<Rightarrow> nat \<Rightarrow> release_list_row page" where
  "run_release_list le db filters sort_items page perPage =
     paginate page perPage (map (release_list_row_of db)
       (sort_by (order_for sort_items (RELEASE_SORTABLE le) (\<lambda>a b. re_createdAt a \<le> re_createdAt b))
         (filter filters (rd_releases db))))"

section \<open>Releases\<close>

definition releases_list ::
    "(char \<Rightarrow> char) \<Rightarrow> collator \<Rightarrow> admin_user option \<Rightarrow> string list \<Rightarrow> int \<Rightarrow> int \<Rightarrow> string \<Rightarrow> string list \<Rightarrow> string list
      \<Rightarrow> string list \<Rightarrow> sort_item list \<Rightarrow> releases_db \<Rightarrow> trpc_error + release_list_row page" where
  "releases_list fold_case le user adminRoles page perPage name typeKey channel status sort_items db =
     admin_procedure user adminRoles (\<lambda>u. bind_sum (z_page page perPage) (\<lambda>(page, perPage).
       Inr (run_release_list le db (\<lambda>r. name_filter fold_case re_name name r \<and> facet typeKey (re_typeKey r)
           \<and> facet channel (re_channel r) \<and> facet status (re_status r)) sort_items page perPage)))"

definition types_by_name :: "collator \<Rightarrow> releases_db \<Rightarrow> (string \<times> string) list" where
  "types_by_name le db = map (\<lambda>t. (ty_key t, ty_displayName t)) (sort_by (\<lambda>a b. le (ty_displayName a) (ty_displayName b)) (rd_types db))"

definition releases_filter_options ::
    "collator \<Rightarrow> admin_user option \<Rightarrow> string list \<Rightarrow> releases_db \<Rightarrow> trpc_error + (string \<times> string) list \<times> string list" where
  "releases_filter_options le user adminRoles db = admin_procedure user adminRoles (\<lambda>u.
     Inr (types_by_name le db, sort_by le (remdups (map re_channel (rd_releases db)))))"

record linked_artifact =
  la_variantId :: string
  la_role :: string
  la_offset :: "string option"
  la_path :: "string option"
  la_artifactId :: string
  la_storageMode :: string
  la_sha256 :: "string option"
  la_sizeBytes :: "int option"
  la_storageKey :: "string option"
  la_contentType :: "string option"
  la_registry :: "string option"
  la_coordinate :: "string option"
  la_refVersion :: "string option"
  la_digest :: "string option"

definition linked_artifact_of :: "variant_artifact_row \<Rightarrow> artifact_row \<Rightarrow> linked_artifact" where
  "linked_artifact_of l a =
     \<lparr>la_variantId = vl_variantId l, la_role = vl_role l, la_offset = vl_offset l, la_path = vl_path l, la_artifactId = ar_id a,
      la_storageMode = ar_storageMode a, la_sha256 = ar_sha256 a, la_sizeBytes = ar_sizeBytes a, la_storageKey = ar_storageKey a,
      la_contentType = ar_contentType a, la_registry = ar_registry a, la_coordinate = ar_coordinate a,
      la_refVersion = ar_refVersion a, la_digest = ar_digest a\<rparr>"

record release_detail =
  rl_release :: release_row
  rl_variants :: "(variant_row \<times> linked_artifact list) list"

text \<open>The links of all variants come in one query; nothing sets their sort order, so it is the default.\<close>

definition releases_get_by_id ::
    "admin_user option \<Rightarrow> string list \<Rightarrow> string \<Rightarrow> releases_db \<Rightarrow> trpc_error + release_detail option" where
  "releases_get_by_id user adminRoles i db = admin_procedure user adminRoles (\<lambda>u.
     case find (\<lambda>r. re_id r = i) (rd_releases db) of
       None \<Rightarrow> Inr None
     | Some releaseRow \<Rightarrow>
         (let variants = sort_by (\<lambda>a b. va_createdAt b \<le> va_createdAt a) (filter (\<lambda>v. va_releaseId v = i) (rd_variants db));
              variantIds = map va_id variants;
              links = (if length variantIds = 0 then []
                else concat (map (\<lambda>l. map (linked_artifact_of l) (filter (\<lambda>a. ar_id a = vl_artifactId l) (rd_artifacts db)))
                  (filter (\<lambda>l. List.member variantIds (vl_variantId l)) (rd_links db))))
          in Inr (Some \<lparr>rl_release = releaseRow,
               rl_variants = map (\<lambda>row. (row, filter (\<lambda>link. la_variantId link = va_id row) links)) variants\<rparr>)))"

section \<open>Product lines\<close>

type_synonym product_line = "string \<times> string"

definition line_of :: "release_row \<Rightarrow> product_line" where
  "line_of r = (re_typeKey r, re_name r)"

record product_row =
  po_typeKey :: string
  po_name :: string
  po_releaseCount :: nat
  po_readyCount :: nat
  po_draftCount :: nat
  po_channels :: "string list"
  po_latestCreatedAt :: nat
  po_latestVersion :: string

definition with_status :: "string \<Rightarrow> release_row list \<Rightarrow> nat" where
  "with_status s rows = length (filter (\<lambda>r. re_status r = s) rows)"

definition channels_of :: "collator \<Rightarrow> release_row list \<Rightarrow> string list" where
  "channels_of le rows = sort_by le (remdups (map re_channel rows))"

definition latest_created :: "release_row list \<Rightarrow> nat" where
  "latest_created rows = foldl max 0 (map re_createdAt rows)"

definition product_group :: "collator \<Rightarrow> release_row list \<Rightarrow> product_line \<Rightarrow> product_row" where
  "product_group le rows line =
     (let own = filter (\<lambda>r. line_of r = line) rows
      in \<lparr>po_typeKey = fst line, po_name = snd line, po_releaseCount = length own, po_readyCount = with_status ''ready'' own,
          po_draftCount = with_status ''draft'' own, po_channels = channels_of le own, po_latestCreatedAt = latest_created own,
          po_latestVersion = []\<rparr>)"

definition PRODUCT_SORTABLE :: "collator \<Rightarrow> (string \<times> product_row column) list" where
  "PRODUCT_SORTABLE le =
     [(''name'', \<lambda>a b. le (po_name a) (po_name b)), (''typeKey'', \<lambda>a b. le (po_typeKey a) (po_typeKey b)),
      (''releaseCount'', \<lambda>a b. po_releaseCount a \<le> po_releaseCount b),
      (''latestCreatedAt'', \<lambda>a b. po_latestCreatedAt a \<le> po_latestCreatedAt b)]"

text \<open>\<open>DISTINCT ON\<close>: the first row of every line, the lines in order and the newest release first.\<close>

fun distinct_on :: "('r \<Rightarrow> 'k) \<Rightarrow> 'r list \<Rightarrow> 'k list \<Rightarrow> 'r list" where
  "distinct_on key [] seen = []"
| "distinct_on key (r # rs) seen =
     (if List.member seen (key r) then distinct_on key rs seen else r # distinct_on key rs (key r # seen))"

definition latest_releases :: "collator \<Rightarrow> release_row list \<Rightarrow> release_row list" where
  "latest_releases le rows = distinct_on line_of (sort_by (then_by [\<lambda>a b. le (re_typeKey a) (re_typeKey b),
     \<lambda>a b. le (re_name a) (re_name b), \<lambda>a b. re_createdAt b \<le> re_createdAt a]) rows) []"

text \<open>The map from lines to versions is keyed by a text.\<close>

definition line_key :: "string \<Rightarrow> string \<Rightarrow> string" where
  "line_key typeKey name = typeKey @ '' '' @ name"

definition latest_by_line :: "collator \<Rightarrow> release_row list \<Rightarrow> (string, string) js_map" where
  "latest_by_line le rows = map_from (map (\<lambda>r. (line_key (re_typeKey r) (re_name r), re_version r)) (latest_releases le rows))"

definition product_rows :: "collator \<Rightarrow> sort_item list \<Rightarrow> release_row list \<Rightarrow> product_row list" where
  "product_rows le sort_items rows =
     sort_by (order_for sort_items (PRODUCT_SORTABLE le) (\<lambda>a b. po_latestCreatedAt a \<le> po_latestCreatedAt b))
       (map (product_group le rows) (remdups (map line_of rows)))"

definition with_latest :: "(string, string) js_map \<Rightarrow> product_row \<Rightarrow> product_row" where
  "with_latest latestByLine row = row\<lparr>po_latestVersion := or_else (map_get latestByLine (line_key (po_typeKey row) (po_name row))) []\<rparr>"

definition products_list ::
    "(char \<Rightarrow> char) \<Rightarrow> collator \<Rightarrow> admin_user option \<Rightarrow> string list \<Rightarrow> int \<Rightarrow> int \<Rightarrow> string \<Rightarrow> string list
      \<Rightarrow> sort_item list \<Rightarrow> releases_db \<Rightarrow> trpc_error + product_row page" where
  "products_list fold_case le user adminRoles page perPage name typeKey sort_items db =
     admin_procedure user adminRoles (\<lambda>u. bind_sum (z_page page perPage) (\<lambda>(page, perPage).
       let rows = filter (\<lambda>r. name_filter fold_case re_name name r \<and> facet typeKey (re_typeKey r)) (rd_releases db);
           grouped = page_rows page perPage (product_rows le sort_items rows)
       in Inr \<lparr>pg_rows = map (with_latest (latest_by_line le rows)) grouped,
               pg_pageCount = page_count (length (remdups (map line_of rows))) perPage\<rparr>))"

record channel_head =
  hd_channel :: string
  hd_releaseId :: string
  hd_version :: string
  hd_status :: string
  hd_updatedAt :: nat

record line_summary =
  lm_typeKey :: string
  lm_typeName :: string
  lm_name :: string
  lm_releaseCount :: nat
  lm_readyCount :: nat
  lm_draftCount :: nat
  lm_channels :: "string list"
  lm_channelHeads :: "channel_head list"

definition channel_heads_of :: "releases_db \<Rightarrow> channel_head_row \<Rightarrow> channel_head list" where
  "channel_heads_of db c = map (\<lambda>r. \<lparr>hd_channel = ch_channel c, hd_releaseId = ch_releaseId c, hd_version = re_version r,
     hd_status = re_status r, hd_updatedAt = ch_updatedAt c\<rparr>) (filter (\<lambda>r. re_id r = ch_releaseId c) (rd_releases db))"

definition products_get ::
    "collator \<Rightarrow> admin_user option \<Rightarrow> string list \<Rightarrow> string \<Rightarrow> string \<Rightarrow> releases_db \<Rightarrow> trpc_error + line_summary option" where
  "products_get le user adminRoles typeKey name db = admin_procedure user adminRoles (\<lambda>u.
     let own = filter (\<lambda>r. re_typeKey r = typeKey \<and> re_name r = name) (rd_releases db)
     in if length own = 0 then Inr None
        else Inr (Some \<lparr>lm_typeKey = typeKey,
          lm_typeName = (case find (\<lambda>t. ty_key t = typeKey) (rd_types db) of None \<Rightarrow> typeKey | Some t \<Rightarrow> ty_displayName t),
          lm_name = name, lm_releaseCount = length own, lm_readyCount = with_status ''ready'' own,
          lm_draftCount = with_status ''draft'' own, lm_channels = channels_of le own,
          lm_channelHeads = sort_by (\<lambda>a b. le (hd_channel a) (hd_channel b)) (concat (map (channel_heads_of db)
            (filter (\<lambda>c. ch_typeKey c = typeKey \<and> ch_name c = name) (rd_heads db))))\<rparr>))"

definition products_releases ::
    "collator \<Rightarrow> admin_user option \<Rightarrow> string list \<Rightarrow> int \<Rightarrow> int \<Rightarrow> string \<Rightarrow> string \<Rightarrow> string list \<Rightarrow> string list
      \<Rightarrow> sort_item list \<Rightarrow> releases_db \<Rightarrow> trpc_error + release_list_row page" where
  "products_releases le user adminRoles page perPage typeKey name channel status sort_items db =
     admin_procedure user adminRoles (\<lambda>u. bind_sum (z_page page perPage) (\<lambda>(page, perPage).
       Inr (run_release_list le db (\<lambda>r. re_typeKey r = typeKey \<and> re_name r = name
           \<and> facet channel (re_channel r) \<and> facet status (re_status r)) sort_items page perPage)))"

section \<open>Builds\<close>

text \<open>What the history and the poll of one build select; neither shows the callback token.\<close>

record build_view =
  bv_id :: string
  bv_typeKey :: string
  bv_source :: string
  bv_status :: string
  bv_configHash :: string
  bv_releaseId :: "string option"
  bv_durationMs :: "int option"
  bv_errorSummary :: "string option"
  bv_createdAt :: nat
  bv_finishedAt :: "nat option"

definition build_view_of :: "build_row \<Rightarrow> build_view" where
  "build_view_of b =
     \<lparr>bv_id = bu_id b, bv_typeKey = bu_typeKey b, bv_source = bu_source b, bv_status = bu_status b, bv_configHash = bu_configHash b,
      bv_releaseId = bu_releaseId b, bv_durationMs = bu_durationMs b, bv_errorSummary = bu_errorSummary b,
      bv_createdAt = bu_createdAt b, bv_finishedAt = bu_finishedAt b\<rparr>"

record build_list_row = build_view +
  bv_ownerUserId :: "string option"

record build_state = build_view +
  bv_analysis :: "json option"

definition builds_list ::
    "collator \<Rightarrow> admin_user option \<Rightarrow> string list \<Rightarrow> int \<Rightarrow> int \<Rightarrow> string list \<Rightarrow> string list \<Rightarrow> string list
      \<Rightarrow> sort_item list \<Rightarrow> releases_db \<Rightarrow> trpc_error + build_list_row page" where
  "builds_list le user adminRoles page perPage typeKey source status sort_items db =
     admin_procedure user adminRoles (\<lambda>u. bind_sum (z_page page perPage) (\<lambda>(page, perPage).
       Inr (paginate page perPage (map (\<lambda>b. build_view.extend (build_view_of b) (build_list_row.fields (bu_ownerUserId b)))
         (sort_by (order_for sort_items (BUILD_SORTABLE le) (\<lambda>a b. bu_createdAt a \<le> bu_createdAt b))
           (filter (\<lambda>b. facet typeKey (bu_typeKey b) \<and> facet source (bu_source b) \<and> facet status (bu_status b)) (rd_builds db)))))))"

definition builds_filter_options :: "collator \<Rightarrow> admin_user option \<Rightarrow> string list \<Rightarrow> releases_db \<Rightarrow> trpc_error + (string \<times> string) list" where
  "builds_filter_options le user adminRoles db = admin_procedure user adminRoles (\<lambda>u. Inr (types_by_name le db))"

definition builds_get :: "admin_user option \<Rightarrow> string list \<Rightarrow> string \<Rightarrow> releases_db \<Rightarrow> trpc_error + build_state option" where
  "builds_get user adminRoles i db = admin_procedure user adminRoles (\<lambda>u.
     Inr (map_option (\<lambda>b. build_view.extend (build_view_of b) (build_state.fields (bu_analysis b))) (find (\<lambda>b. bu_id b = i) (rd_builds db))))"

text \<open>Where the build container is and where it calls back; both may be unset.\<close>

record build_settings =
  bs_buildWorkerUrl :: "string option"
  bs_buildCallbackBaseUrl :: "string option"

definition builds_service_status :: "build_settings \<Rightarrow> admin_user option \<Rightarrow> string list \<Rightarrow> trpc_error + bool" where
  "builds_service_status settings user adminRoles = admin_procedure user adminRoles (\<lambda>u.
     Inr (bs_buildWorkerUrl settings \<noteq> None \<and> bs_buildCallbackBaseUrl settings \<noteq> None))"

definition not_configured :: trpc_error where
  "not_configured = TRPC PRECONDITION_FAILED ''Build service is not configured (set HELIX_BUILD_WORKER_URL).''"

definition as_internal :: "string + 'a \<Rightarrow> trpc_error + 'a" where
  "as_internal v = (case v of Inl e \<Rightarrow> Inl (internal e) | Inr x \<Rightarrow> Inr x)"

definition builds_catalog :: "http_fetch \<Rightarrow> build_settings \<Rightarrow> admin_user option \<Rightarrow> string list \<Rightarrow> trpc_error + json" where
  "builds_catalog fetch settings user adminRoles = admin_procedure user adminRoles (\<lambda>u.
     case bs_buildWorkerUrl settings of
       None \<Rightarrow> Inl not_configured
     | Some url \<Rightarrow> as_internal (fetch_catalog fetch url))"

definition FIRMWARE_TYPE_KEY :: string where
  "FIRMWARE_TYPE_KEY = ''esp32-firmware''"

record build_request_input =
  ri_name :: string
  ri_version :: string
  ri_channel :: string
  ri_chip :: string
  ri_flashSize :: string
  ri_apps :: "string list"
  ri_features :: "string list"
  ri_set :: "(string, string) js_map"
  ri_fake :: "bool option"

definition build_request_input_ok :: "build_request_input \<Rightarrow> bool" where
  "build_request_input_ok i = (ri_name i \<noteq> [] \<and> ri_version i \<noteq> [] \<and> ri_channel i \<noteq> [] \<and> ri_chip i \<noteq> [] \<and> ri_flashSize i \<noteq> [])"

definition requested_selector :: "build_request_input \<Rightarrow> json" where
  "requested_selector i = JObj [(''chip'', JStr (ri_chip i)), (''flashSize'', JStr (ri_flashSize i))]"

definition requested_config :: "build_request_input \<Rightarrow> json" where
  "requested_config i = build_config_json
     \<lparr>bc_apps = ri_apps i, bc_features = ri_features i, bc_set = ri_set i, bc_chip = ri_chip i, bc_flashSize = ri_flashSize i\<rparr>"

text \<open>What was written before the dispatch failed stays written.\<close>

definition admin_builds_request ::
    "release_host \<Rightarrow> http_fetch \<Rightarrow> nat \<Rightarrow> build_settings \<Rightarrow> admin_user option \<Rightarrow> string list \<Rightarrow> build_request_input \<Rightarrow> releases_db
      \<Rightarrow> (trpc_error + build_status \<times> string \<times> string option) \<times> releases_db" where
  "admin_builds_request h fetch now settings user adminRoles i db =
     (case admin_procedure user adminRoles (\<lambda>u. if build_request_input_ok i then Inr u else Inl (TRPC BAD_REQUEST ''input'')) of
        Inl e \<Rightarrow> (Inl e, db)
      | Inr u \<Rightarrow>
          (case (bs_buildWorkerUrl settings, bs_buildCallbackBaseUrl settings) of
             (Some workerUrl, Some callbackUrl) \<Rightarrow>
               (let selector = requested_selector i; config = requested_config i
                in case request_build h now \<lparr>br_typeKey = FIRMWARE_TYPE_KEY, br_ownerUserId = au_id u, br_config = config,
                       br_selector = Some selector\<rparr> db of
                     Inl message \<Rightarrow> (Inl (internal message), db)
                   | Inr (result, db1) \<Rightarrow>
                       if bq_status result = Hit then (Inr (Hit, bq_buildId result, bq_releaseId result), db1)
                       else (case dispatch_build fetch workerUrl \<lparr>bj_buildId = bq_buildId result,
                               bj_callbackToken = or_else (bq_callbackToken result) [], bj_publicUrl = callbackUrl,
                               bj_name = ri_name i, bj_version = ri_version i, bj_channel = ri_channel i,
                               bj_selector = selector, bj_config = config, bj_fake = ri_fake i\<rparr> of
                             Inl message \<Rightarrow> (Inl (internal message), db1)
                           | Inr _ \<Rightarrow> (Inr (Queued, bq_buildId result, None), db1)))
           | _ \<Rightarrow> (Inl not_configured, db)))"

section \<open>Lines and their releases\<close>

lemma distinct_on_mem:
  "r \<in> set (distinct_on key xs seen) \<longleftrightarrow> key r \<notin> set seen \<and> find (\<lambda>x. key x = key r) xs = Some r"
  by (induction xs arbitrary: seen) auto

lemma find_found_append: "find P xs = Some x \<Longrightarrow> find P (xs @ ys) = Some x"
  by (induction xs) auto

lemma find_first:
  assumes "sorted_wrt P xs" "find Q xs = Some r" "y \<in> set xs" "Q y"
  shows "y = r \<or> P r y"
  using assms by (induction xs) (auto split: if_splits)

lemma line_key_inject:
  "CHR '' '' \<notin> set t \<Longrightarrow> CHR '' '' \<notin> set u \<Longrightarrow> line_key t m = line_key u n \<longleftrightarrow> t = u \<and> m = n"
  unfolding line_key_def by (induction t arbitrary: u) (case_tac u; auto)+

lemma latest_created_max: "latest_created rows = Max (insert 0 (re_createdAt ` set rows))"
proof -
  have "foldl max a xs = Max (insert a (set xs))" for a :: nat and xs
  proof (induction xs arbitrary: a)
    case (Cons x xs)
    then show ?case by (cases "xs = []") (auto simp: max.assoc)
  qed simp
  then show ?thesis by (simp add: latest_created_def)
qed

lemma latest_created_eq:
  "r \<in> set rows \<Longrightarrow> (\<And>r'. r' \<in> set rows \<Longrightarrow> re_createdAt r' \<le> re_createdAt r) \<Longrightarrow> latest_created rows = re_createdAt r"
  unfolding latest_created_max by (rule Max_eqI) auto

lemma latest_releases_find:
  "r \<in> set (latest_releases le rows) \<Longrightarrow> find (\<lambda>x. line_of x = line_of r)
     (sort_by (then_by [\<lambda>a b. le (re_typeKey a) (re_typeKey b), \<lambda>a b. le (re_name a) (re_name b),
        \<lambda>a b. re_createdAt b \<le> re_createdAt a]) rows) = Some r"
  by (simp add: latest_releases_def distinct_on_mem)

definition newest_of :: "release_row list \<Rightarrow> product_line \<Rightarrow> release_row \<Rightarrow> bool" where
  "newest_of rows line r \<longleftrightarrow> r \<in> set rows \<and> line_of r = line
     \<and> (\<forall>r'\<in>set rows. line_of r' = line \<longrightarrow> re_createdAt r' \<le> re_createdAt r)"

lemma latest_releases_newest:
  assumes "ranking le" "r \<in> set (latest_releases le rows)"
  shows "newest_of rows (line_of r) r"
proof -
  let ?c = "then_by [\<lambda>a b. le (re_typeKey a) (re_typeKey b), \<lambda>a b. le (re_name a) (re_name b), \<lambda>a b. re_createdAt b \<le> re_createdAt a]"
  have c: "ranking ?c"
    by (rule ranking_then_by) (use assms(1) in \<open>auto intro: ranking_key simp: ranking_def\<close>)
  have f: "find (\<lambda>x. line_of x = line_of r) (sort_by ?c rows) = Some r"
    by (rule latest_releases_find[OF assms(2)])
  have "re_createdAt r' \<le> re_createdAt r" if "r' \<in> set rows" "line_of r' = line_of r" for r'
  proof -
    have "r' = r \<or> ?c r r'" using find_first[OF ranking.sorted[OF c] f] that by simp
    moreover have "le x x" for x using ranking.refl[OF assms(1)] .
    ultimately show ?thesis using that(2) by (auto simp: line_of_def)
  qed
  with find_Some_mem[OF f] show ?thesis by (simp add: newest_of_def)
qed

lemma latest_releases_unique:
  "r \<in> set (latest_releases le rows) \<Longrightarrow> r' \<in> set (latest_releases le rows) \<Longrightarrow> line_of r = line_of r' \<Longrightarrow> r = r'"
  using latest_releases_find[of r le rows] latest_releases_find[of r' le rows] by (metis option.inject)

lemma latest_releases_total:
  assumes "line \<in> line_of ` set rows"
  obtains r where "r \<in> set (latest_releases le rows)" "line_of r = line"
proof -
  let ?xs = "sort_by (then_by [\<lambda>a b. le (re_typeKey a) (re_typeKey b), \<lambda>a b. le (re_name a) (re_name b), \<lambda>a b. re_createdAt b \<le> re_createdAt a]) rows"
  have "find (\<lambda>x. line_of x = line) ?xs \<noteq> None" using assms by (auto simp: find_None_iff_all)
  then obtain r where r: "find (\<lambda>x. line_of x = line) ?xs = Some r" by blast
  then have l: "line_of r = line" using find_Some_mem[OF r] by simp
  with r have "r \<in> set (latest_releases le rows)" by (simp add: latest_releases_def distinct_on_mem)
  then show thesis using l by (rule that)
qed

lemma latest_by_line_get:
  assumes "\<forall>r\<in>set rows. CHR '' '' \<notin> set (re_typeKey r)" "r \<in> set (latest_releases le rows)"
  shows "map_get (latest_by_line le rows) (line_key (re_typeKey r) (re_name r)) = Some (re_version r)"
proof -
  let ?es = "map (\<lambda>r. (line_key (re_typeKey r) (re_name r), re_version r)) (latest_releases le rows)"
  have sub: "x \<in> set rows" if "x \<in> set (latest_releases le rows)" for x
    using find_Some_mem[OF latest_releases_find[OF that]] by simp
  have only: "v = re_version r" if es: "(line_key (re_typeKey r) (re_name r), v) \<in> set ?es" for v
  proof -
    obtain x where x: "x \<in> set (latest_releases le rows)" "v = re_version x"
      "line_key (re_typeKey r) (re_name r) = line_key (re_typeKey x) (re_name x)" using es by auto
    then have "line_of r = line_of x"
      using assms(1) sub[OF assms(2)] sub[OF x(1)] line_key_inject by (simp add: line_of_def)
    with x assms(2) latest_releases_unique show ?thesis by metis
  qed
  have "map_of (rev ?es) (line_key (re_typeKey r) (re_name r)) \<noteq> None"
    using weak_map_of_SomeI[of _ "re_version r" "rev ?es"] assms(2) by auto
  then obtain v where v: "map_of (rev ?es) (line_key (re_typeKey r) (re_name r)) = Some v" by blast
  then have "v = re_version r" using only map_of_SomeD by fastforce
  with v show ?thesis by (simp add: latest_by_line_def map_from_get)
qed

definition po_line :: "product_row \<Rightarrow> product_line" where
  "po_line row = (po_typeKey row, po_name row)"

lemma po_line_with_latest [simp]: "po_line (with_latest m row) = po_line row"
  by (simp add: po_line_def with_latest_def)

lemma po_line_group [simp]: "po_line (product_group le rows line) = line"
  by (simp add: po_line_def product_group_def Let_def)

text \<open>The rows of all pages, in the order of the sorting.\<close>

definition all_lines :: "collator \<Rightarrow> sort_item list \<Rightarrow> release_row list \<Rightarrow> product_row list" where
  "all_lines le sort_items rows = map (with_latest (latest_by_line le rows)) (product_rows le sort_items rows)"

lemma all_lines_fields:
  assumes "row \<in> set (all_lines le sort_items rows)"
  shows "po_line row \<in> line_of ` set rows"
    and "po_releaseCount row = length (filter (\<lambda>r. line_of r = po_line row) rows)"
    and "po_readyCount row = with_status ''ready'' (filter (\<lambda>r. line_of r = po_line row) rows)"
    and "po_draftCount row = with_status ''draft'' (filter (\<lambda>r. line_of r = po_line row) rows)"
    and "po_channels row = channels_of le (filter (\<lambda>r. line_of r = po_line row) rows)"
    and "po_latestCreatedAt row = latest_created (filter (\<lambda>r. line_of r = po_line row) rows)"
    and "po_latestVersion row = or_else (map_get (latest_by_line le rows) (line_key (po_typeKey row) (po_name row))) []"
  using assms by (auto simp: all_lines_def product_rows_def with_latest_def product_group_def po_line_def Let_def)

lemma all_lines_distinct: "distinct (map po_line (all_lines le sort_items rows))"
  "po_line ` set (all_lines le sort_items rows) = line_of ` set rows"
proof -
  let ?g = "map (product_group le rows) (remdups (map line_of rows))"
  have "mset (map po_line (product_rows le sort_items rows)) = mset (map po_line ?g)"
    unfolding product_rows_def by (simp only: mset_map mset_sort_by)
  moreover have "map po_line ?g = remdups (map line_of rows)" by (simp add: comp_def)
  ultimately have "distinct (map po_line (product_rows le sort_items rows))"
    by (metis distinct_remdups mset_eq_imp_distinct_iff)
  then show "distinct (map po_line (all_lines le sort_items rows))" by (simp add: all_lines_def comp_def)
  show "po_line ` set (all_lines le sort_items rows) = line_of ` set rows"
    by (simp add: all_lines_def product_rows_def image_image)
qed

lemma count_by_line:
  "distinct ls \<Longrightarrow> line_of ` set rows \<subseteq> set ls \<Longrightarrow>
     sum_list (map (\<lambda>l. length (filter (\<lambda>r. line_of r = l) rows)) ls) = length rows"
proof (induction rows)
  case (Cons r rows)
  have "sum_list (map (\<lambda>l. length (filter (\<lambda>x. line_of x = l) (r # rows))) ls) =
      sum_list (map (\<lambda>l. (if line_of r = l then 1 else 0) + length (filter (\<lambda>x. line_of x = l) rows)) ls)"
    by (rule arg_cong[where f = sum_list]) simp
  also have "\<dots> = sum_list (map (\<lambda>l. if line_of r = l then 1 else 0) ls) + length rows"
    using Cons by (simp add: sum_list_addf)
  also have "sum_list (map (\<lambda>l. if line_of r = l then 1 else 0 :: nat) ls) = 1"
    using Cons.prems by (simp add: sum_list_distinct_conv_sum_set)
  finally show ?case by simp
qed simp

lemma admin_call_allowed: "admin_procedure user roles f = Inr x \<Longrightarrow> \<exists>u. admin_procedure user roles = (\<lambda>g. g u) \<and> f u = Inr x"
  by (auto simp: admin_procedure_def fun_eq_iff split: option.splits if_splits)

text \<open>A row of the list agrees with the page of its line, and shows a newest release of the line.\<close>

definition line_faithful :: "collator \<Rightarrow> admin_user option \<Rightarrow> string list \<Rightarrow> releases_db \<Rightarrow> product_row \<Rightarrow> bool" where
  "line_faithful le user roles db row \<longleftrightarrow>
     (\<exists>s r. products_get le user roles (po_typeKey row) (po_name row) db = Inr (Some s)
        \<and> lm_releaseCount s = po_releaseCount row \<and> lm_readyCount s = po_readyCount row \<and> lm_draftCount s = po_draftCount row
        \<and> lm_channels s = po_channels row \<and> newest_of (rd_releases db) (po_line row) r
        \<and> po_latestVersion row = re_version r \<and> po_latestCreatedAt row = re_createdAt r)"

section \<open>The property\<close>

text \<open>Product lines account for every release. Paging through the unfiltered list of product lines
  shows every line of the release table exactly once, with its releases counted; the totals, the
  states and the channels of a row are those of the line's own page, and the version it shows as the
  latest is that of a newest release of this very line. Type keys must not contain spaces.\<close>

theorem product_lines_agree:
  assumes le: "ranking le" and keys: "\<forall>r\<in>set (rd_releases db). CHR '' '' \<notin> set (re_typeKey r)"
    and first: "products_list fold_case le user roles 1 perPage [] [] sort_items db = Inr p"
  shows "\<exists>rows. map (\<lambda>page. products_list fold_case le user roles (int page) perPage [] [] sort_items db) [1..<Suc (pg_pageCount p)]
        = map (\<lambda>page. Inr \<lparr>pg_rows = page_rows page (nat perPage) rows, pg_pageCount = pg_pageCount p\<rparr>) [1..<Suc (pg_pageCount p)]
     \<and> concat (map (\<lambda>page. page_rows page (nat perPage) rows) [1..<Suc (pg_pageCount p)]) = rows
     \<and> distinct (map po_line rows) \<and> po_line ` set rows = line_of ` set (rd_releases db)
     \<and> sum_list (map po_releaseCount rows) = length (rd_releases db)
     \<and> (\<forall>row\<in>set rows. line_faithful le user roles db row)"
proof (rule exI[of _ "all_lines le sort_items (rd_releases db)"], intro conjI)
  let ?db = "rd_releases db" and ?rows = "all_lines le sort_items (rd_releases db)"
  have all: "filter (\<lambda>r. name_filter fold_case re_name [] r \<and> facet [] (re_typeKey r)) ?db = ?db"
    by (simp add: name_filter_def facet_def)
  obtain u where u: "admin_procedure user roles = (\<lambda>g :: admin_user \<Rightarrow> trpc_error + product_row page. g u)"
    using admin_call_allowed[OF first[unfolded products_list_def]] by blast
  have pp: "1 \<le> perPage" "perPage \<le> 50"
    using first by (auto simp: products_list_def u z_page_def PER_PAGE_MAX_def split: if_splits)
  have list: "products_list fold_case le user roles (int page) perPage [] [] sort_items db
      = Inr \<lparr>pg_rows = page_rows page (nat perPage) ?rows, pg_pageCount = page_count (length ?rows) (nat perPage)\<rparr>" if "1 \<le> page" for page
    using that pp by (simp add: products_list_def u z_page_def PER_PAGE_MAX_def all page_rows_def all_lines_def drop_map take_map
        product_rows_def Let_def)
  have count: "pg_pageCount p = page_count (length ?rows) (nat perPage)" using list[of 1] first by simp
  show "map (\<lambda>page. products_list fold_case le user roles (int page) perPage [] [] sort_items db) [1..<Suc (pg_pageCount p)]
      = map (\<lambda>page. Inr \<lparr>pg_rows = page_rows page (nat perPage) ?rows, pg_pageCount = pg_pageCount p\<rparr>) [1..<Suc (pg_pageCount p)]"
    by (rule map_cong[OF refl]) (use list in \<open>auto simp: count simp del: upt_Suc\<close>)
  show "concat (map (\<lambda>page. page_rows page (nat perPage) ?rows) [1..<Suc (pg_pageCount p)]) = ?rows"
    unfolding count by (rule pages_concat) (use pp in simp)
  show d: "distinct (map po_line ?rows)" "po_line ` set ?rows = line_of ` set ?db" by (rule all_lines_distinct)+
  have "map po_releaseCount ?rows = map (\<lambda>l. length (filter (\<lambda>r. line_of r = l) ?db)) (map po_line ?rows)"
    using all_lines_fields(2) by simp
  then show "sum_list (map po_releaseCount ?rows) = length ?db"
    by (simp only: count_by_line[OF d(1)] set_map d(2) order_refl)
next
  let ?db = "rd_releases db"
  have "line_faithful le user roles db row"
    if shown: "row \<in> set (all_lines le sort_items ?db)" for row
  proof -
    note row = all_lines_fields[OF shown]
    obtain r where r: "r \<in> set (latest_releases le ?db)" "line_of r = po_line row"
      by (rule latest_releases_total[OF row(1)])
    then have newest: "newest_of ?db (po_line row) r" using latest_releases_newest[OF le r(1)] by simp
    let ?own = "filter (\<lambda>r. line_of r = po_line row) ?db"
    have own: "filter (\<lambda>r. re_typeKey r = po_typeKey row \<and> re_name r = po_name row) ?db = ?own"
      by (simp add: line_of_def po_line_def)
    have ne: "?own \<noteq> []" using newest by (auto simp: newest_of_def filter_empty_conv)
    have vers: "po_latestVersion row = re_version r"
      using latest_by_line_get[OF keys r(1)] r(2) by (simp add: row(7) line_of_def po_line_def)
    have "latest_created ?own = re_createdAt r" by (rule latest_created_eq) (use newest in \<open>auto simp: newest_of_def\<close>)
    then have created: "po_latestCreatedAt row = re_createdAt r" by (simp add: row(6))
    obtain u where u: "admin_procedure user roles = (\<lambda>g :: admin_user \<Rightarrow> trpc_error + line_summary option. g u)"
      using first by (auto simp: products_list_def admin_procedure_def fun_eq_iff split: option.splits if_splits)
    obtain s where s: "products_get le user roles (po_typeKey row) (po_name row) db = Inr (Some s)"
      "lm_releaseCount s = length ?own" "lm_readyCount s = with_status ''ready'' ?own"
      "lm_draftCount s = with_status ''draft'' ?own" "lm_channels s = channels_of le ?own"
      using ne by (simp add: products_get_def u own Let_def)
    show ?thesis unfolding line_faithful_def
      using s newest vers created row(2-5) by (intro exI conjI) simp_all
  qed
  then show "\<forall>row\<in>set (all_lines le sort_items ?db). line_faithful le user roles db row" by blast
qed

definition demo_release :: "string \<Rightarrow> string \<Rightarrow> string \<Rightarrow> nat \<Rightarrow> release_row" where
  "demo_release i name version createdAt = \<lparr>re_id = i, re_typeKey = ''esp32'', re_name = name, re_version = version,
     re_channel = ''stable'', re_status = ''ready'', re_ownerUserId = None, re_buildId = None, re_sourceCommit = None,
     re_sourceDirty = False, re_config = JNull, re_analysis = None, re_createdAt = createdAt, re_publishedAt = None\<rparr>"

definition demo_lines :: releases_db where
  "demo_lines = demo_releases\<lparr>rd_releases := [demo_release ''r1'' ''hub'' ''1.0'' 3, demo_release ''r2'' ''hub'' ''1.1'' 5,
     demo_release ''r3'' ''lamp'' ''0.1'' 4]\<rparr>"

definition demo_sysadmin :: "admin_user option" where
  "demo_sysadmin = Some \<lparr>au_id = ''a'', au_role = Some ''sysadmin''\<rparr>"

theorem product_lines_agree_witness:
  "\<exists>rows. distinct (map po_line rows) \<and> po_line ` set rows = {(''esp32'', ''hub''), (''esp32'', ''lamp'')}
     \<and> sum_list (map po_releaseCount rows) = 3"
proof -
  let ?list = "\<lambda>page. products_list id (\<le>) demo_sysadmin [''sysadmin''] page 10 [] [] [] demo_lines"
  have le: "ranking ((\<le>) :: string \<Rightarrow> _)" by (rule ranking_le)
  have keys: "\<forall>r\<in>set (rd_releases demo_lines). CHR '' '' \<notin> set (re_typeKey r)"
    by (simp add: demo_lines_def demo_release_def)
  obtain p where p: "?list 1 = Inr p"
    by (simp add: products_list_def demo_sysadmin_def admin_procedure_def z_page_def PER_PAGE_MAX_def Let_def)
  have lines: "line_of ` set (rd_releases demo_lines) = {(''esp32'', ''hub''), (''esp32'', ''lamp'')}" "length (rd_releases demo_lines) = 3"
    by (simp_all add: demo_lines_def demo_release_def line_of_def)
  from product_lines_agree[OF le keys p] show ?thesis unfolding lines by blast
qed

section \<open>Findings\<close>

text \<open>With a space in a type key two lines share a key, and one shows the other's version.\<close>

lemma spaced_line_shows_other:
  "line_key ''a b'' ''c'' = line_key ''a'' ''b c''"
  "map po_latestVersion (all_lines (\<le>) [] [(demo_release ''r1'' ''c'' ''1'' 3)\<lparr>re_typeKey := ''a b''\<rparr>,
     (demo_release ''r2'' ''b c'' ''2'' 5)\<lparr>re_typeKey := ''a''\<rparr>]) = [''1'', ''1'']"
  by code_simp+

text \<open>A build that the container refused stays queued; nothing ever completes it.\<close>

lemma refused_build_stays_queued:
  assumes "request_build h now \<lparr>br_typeKey = FIRMWARE_TYPE_KEY, br_ownerUserId = au_id u, br_config = requested_config i,
      br_selector = Some (requested_selector i)\<rparr> db = Inr (result, db1)" "bq_status result = Queued"
    and "build_request_input_ok i" "or_else (au_role u) [] \<in> set adminRoles"
  shows "admin_builds_request h (\<lambda>_ _. Inl ''refused'') now \<lparr>bs_buildWorkerUrl = Some w, bs_buildCallbackBaseUrl = Some c\<rparr>
    (Some u) adminRoles i db = (Inl (internal ''refused''), db1)"
  using assms by (simp add: admin_builds_request_def admin_procedure_def dispatch_build_def Let_def)

text \<open>A build that failed hides the builds of the same configuration behind it: each later request of
  it is built again, however often it has been built.\<close>

lemma failed_build_hides:
  assumes "find (\<lambda>b. bu_configHash b = k) (rd_builds db) = Some b" "bu_releaseId b = None" "request_hash h db q = Some k"
    and "request_build h now q db = Inr (res, db')"
  shows "bq_status res = Queued \<and> find (\<lambda>b. bu_configHash b = k) (rd_builds db') = Some b"
proof
  show queued: "bq_status res = Queued"
    using assms by (auto simp: request_build_def request_hash_def bind_sum_Inr Let_def generate_build_callback_token_def
        split: option.splits sum.splits prod.splits)
  show "find (\<lambda>b. bu_configHash b = k) (rd_builds db') = Some b"
    by (rule request_build_queued[OF assms(4) queued]) (simp add: find_found_append[OF assms(1)])
qed

end
