(* ===== verification/Stream_Frame.thy ===== *)
theory Stream_Frame
  imports Helix_Prelude
begin

unbundle bit_operations_syntax

text \<open>
  The HelixStream wire format (\<open>web/packages/protocol/src/stream/frame.ts\<close>): a frame is
  one type byte, a big-endian 32-bit stream id and the payload. Byte arrays are lists of
  8-bit words. A JavaScript stream id or credit is a number, here a natural number, that
  \<open>>>> 0\<close> reduces modulo \<open>2 ^ 32\<close> before it is written; what is read back is a 32-bit word.
  The type byte of a received frame is whatever the peer sent: \<open>decodeFrame\<close> casts it and
  does not check it, so a frame carries the raw byte.
\<close>

datatype frame_type = Open | Data | End | Reset | Signal | Credit | Ping | Pong

fun opcode :: "frame_type \<Rightarrow> byte" where
  "opcode Open = 0x01"
| "opcode Data = 0x02"
| "opcode End = 0x03"
| "opcode Reset = 0x04"
| "opcode Signal = 0x05"
| "opcode Credit = 0x06"
| "opcode Ping = 0x10"
| "opcode Pong = 0x11"

definition frame_types :: "frame_type list" where
  "frame_types = [Open, Data, End, Reset, Signal, Credit, Ping, Pong]"

text \<open>The \<open>switch\<close> of a receiver: the first enum member with this value, if any.\<close>

definition of_opcode :: "byte \<Rightarrow> frame_type option" where
  "of_opcode b = find (\<lambda>t. opcode t = b) frame_types"

record frame =
  f_type :: byte
  f_stream :: "32 word"
  f_payload :: bytes

definition FRAME_HEADER :: nat where
  "FRAME_HEADER = 5"

text \<open>\<open>DataView.setUint32(_, w, false)\<close> and \<open>getUint32(_, false)\<close>.\<close>

definition be32 :: "32 word \<Rightarrow> bytes" where
  "be32 w = [ucast (drop_bit 24 w), ucast (drop_bit 16 w), ucast (drop_bit 8 w), ucast w]"

definition un_be32 :: "byte \<Rightarrow> byte \<Rightarrow> byte \<Rightarrow> byte \<Rightarrow> 32 word" where
  "un_be32 a b c d =
     push_bit 24 (ucast a) OR push_bit 16 (ucast b) OR push_bit 8 (ucast c) OR ucast d"

text \<open>\<open>encodeFrame\<close>: header byte, id, payload.\<close>

definition encode_frame :: "frame_type \<Rightarrow> nat \<Rightarrow> bytes \<Rightarrow> bytes" where
  "encode_frame t streamId payload = opcode t # be32 (word_of_nat streamId) @ payload"

text \<open>\<open>decodeFrame\<close>: anything shorter than the header is not a frame.\<close>

fun decode_frame :: "bytes \<Rightarrow> frame option" where
  "decode_frame (t # a # b # c # d # payload) =
     Some \<lparr>f_type = t, f_stream = un_be32 a b c d, f_payload = payload\<rparr>"
| "decode_frame _ = None"

definition encode_credit :: "nat \<Rightarrow> bytes" where
  "encode_credit n = be32 (word_of_nat n)"

text \<open>\<open>decodeCredit\<close>: a short payload grants nothing, extra bytes are ignored.\<close>

fun decode_credit :: "bytes \<Rightarrow> nat" where
  "decode_credit (a # b # c # d # _) = unat (un_be32 a b c d)"
| "decode_credit _ = 0"

subsection \<open>Lemmas\<close>

lemma length_be32 [simp]: "length (be32 w) = 4"
  by (simp add: be32_def)

lemma un_be32_be32:
  "un_be32 (ucast (drop_bit 24 w)) (ucast (drop_bit 16 w)) (ucast (drop_bit 8 w)) (ucast w) = w"
proof (rule bit_word_eqI)
  fix n assume "n < LENGTH(32)"
  then consider "n < 8" | "8 \<le> n" "n < 16" | "16 \<le> n" "n < 24" | "24 \<le> n" "n < 32"
    by fastforce
  then show "bit (un_be32 (ucast (drop_bit 24 w)) (ucast (drop_bit 16 w))
      (ucast (drop_bit 8 w)) (ucast w)) n = bit w n"
    by cases (auto simp: un_be32_def bit_simps)
qed

lemma byte_bit_high: "8 \<le> n \<Longrightarrow> \<not> bit (b :: byte) n"
  using bit_imp_le_length[of b n] by auto

lemma be32_un_be32: "be32 (un_be32 a b c d) = [a, b, c, d]"
  unfolding be32_def un_be32_def
  by (auto intro!: bit_word_eqI simp: bit_simps byte_bit_high)

lemma of_opcode_opcode [simp]: "of_opcode (opcode t) = Some t"
  by (cases t) (simp_all add: of_opcode_def frame_types_def)

lemma of_opcode_Some: "of_opcode b = Some t \<Longrightarrow> b = opcode t"
  unfolding of_opcode_def by (drule find_Some_mem) simp

lemma opcode_inject [simp]: "opcode s = opcode t \<longleftrightarrow> s = t"
  by (metis of_opcode_opcode option.inject)

text \<open>A frame as the receiver sees it, written back: the inverse of \<open>decodeFrame\<close>.\<close>

definition frame_bytes :: "frame \<Rightarrow> bytes" where
  "frame_bytes f = f_type f # be32 (f_stream f) @ f_payload f"

lemma decode_frame_bytes: "decode_frame (frame_bytes f) = Some f"
  by (cases f) (simp add: frame_bytes_def be32_def un_be32_be32)

lemma decode_frame_Some: "decode_frame w = Some f \<Longrightarrow> frame_bytes f = w"
  by (cases w rule: decode_frame.cases) (auto simp: frame_bytes_def be32_un_be32)

interpretation frame_codec: exact_codec frame_bytes decode_frame "\<lambda>_. True"
  by unfold_locales (auto simp: decode_frame_bytes decode_frame_Some)

interpretation opcode_codec: exact_codec opcode of_opcode "\<lambda>_. True"
  by unfold_locales (auto dest: of_opcode_Some)

lemma encode_frame_bytes:
  "encode_frame t i p = frame_bytes \<lparr>f_type = opcode t, f_stream = word_of_nat i, f_payload = p\<rparr>"
  by (simp add: encode_frame_def frame_bytes_def)

lemma decode_encode_frame:
  "decode_frame (encode_frame t i p) =
     Some \<lparr>f_type = opcode t, f_stream = word_of_nat i, f_payload = p\<rparr>"
  by (simp add: encode_frame_bytes frame_codec.dec_enc)

lemma decode_frame_None: "decode_frame w = None \<longleftrightarrow> length w < FRAME_HEADER"
  by (cases w rule: decode_frame.cases) (auto simp: FRAME_HEADER_def)

lemma decode_encode_credit [simp]: "n < 2 ^ 32 \<Longrightarrow> decode_credit (encode_credit n) = n"
  unfolding encode_credit_def be32_def decode_credit.simps un_be32_be32
  by (simp add: unsigned_of_nat take_bit_nat_eq_self)

lemma decode_credit_bound: "decode_credit p < 2 ^ 32"
  by (cases p rule: decode_credit.cases)
    (use unsigned_less[where 'a=nat and 'b=32] in \<open>simp_all\<close>)

interpretation credit_codec:
  codec encode_credit "\<lambda>w. if length w = 4 then Some (decode_credit w) else None" "\<lambda>n. n < 2 ^ 32"
  by unfold_locales (simp add: encode_credit_def, simp add: encode_credit_def[symmetric])

end
