(* ===== verification/Stream_Session.thy ===== *)
theory Stream_Session
  imports Stream_Frame
begin

text \<open>
  The HelixStream multiplexer (\<open>web/packages/protocol/src/stream/stream.ts\<close> and
  \<open>session.ts\<close>): many flow-controlled byte streams over one binary transport.

  Stream objects are shared between the session's table and the application, which can
  keep one that the table has dropped or replaced, so they live in an explicit store
  \<open>s_objs\<close> (an address is a list index) and the table \<open>s_streams\<close> maps ids to addresses.
  Write promises live in \<open>s_promises\<close>: an entry is \<^const>\<open>None\<close> while pending and settles
  once. What the transport and the application see (frames handed to the transport,
  callbacks) is appended to \<open>s_log\<close>, together with three observations the ledgers of
  the proofs need: the bytes a stream accepted, the data it asked the host to send, and
  the credit it received or granted. Whether the transport's \<open>n\<close>-th \<open>send\<close> throws is the
  environment's choice \<open>s_link\<close>. Application callbacks do not call back into the session
  before they return.
\<close>

section \<open>State\<close>

datatype stream_error =
    StreamClosedErr | WriteClosedErr | SessionClosedErr | PeerResetErr
  | StreamResetErr string | TransportErr | PeerErr string

record pending_write =
  w_data :: bytes
  w_offset :: nat
  w_promise :: nat

record hstream =
  st_id :: nat
  st_meta :: bytes
  st_window :: nat
  st_queue :: "pending_write list"
  st_unacked :: nat
  st_send_closed :: bool
  st_closed :: bool

datatype settlement = Resolved | Rejected stream_error

datatype obs =
    Sent frame_type nat bytes
  | Accepted nat bytes
  | DataOut nat bytes
  | CreditIn nat nat
  | CreditOut nat nat
  | GotData nat bytes
  | GotEnd nat
  | GotSignal nat bytes
  | GotStream nat
  | StreamGone nat "stream_error option"
  | TransportClosed
  | SessionGone "stream_error option"

record session_options =
  o_client :: bool
  o_initialWindow :: "nat option"
  o_maxChunk :: "nat option"
  o_pingIntervalMs :: "nat option"

record hsession =
  s_initialWindow :: nat
  s_maxChunk :: nat
  s_creditThreshold :: nat
  s_nextId :: nat
  s_closed :: bool
  s_pinging :: bool
  s_streams :: "(nat, nat) js_map"
  s_objs :: "hstream list"
  s_promises :: "settlement option list"
  s_link :: "nat \<Rightarrow> bool"
  s_sends :: nat
  s_log :: "obs list"

definition DEFAULT_INITIAL_WINDOW_BYTES :: nat where
  "DEFAULT_INITIAL_WINDOW_BYTES = 262144"

definition DEFAULT_MAX_CHUNK_BYTES :: nat where
  "DEFAULT_MAX_CHUNK_BYTES = 32768"

definition DEFAULT_PING_INTERVAL_MS :: nat where
  "DEFAULT_PING_INTERVAL_MS = 20000"

section \<open>Operations\<close>

text \<open>The constructor of \<open>HelixStreamSession\<close>.\<close>

definition new_session :: "session_options \<Rightarrow> (nat \<Rightarrow> bool) \<Rightarrow> hsession" where
  "new_session opts link =
     (let iw = (case o_initialWindow opts of None \<Rightarrow> DEFAULT_INITIAL_WINDOW_BYTES | Some n \<Rightarrow> n);
          interval = (case o_pingIntervalMs opts of None \<Rightarrow> DEFAULT_PING_INTERVAL_MS | Some n \<Rightarrow> n)
      in \<lparr>s_initialWindow = iw,
          s_maxChunk = (case o_maxChunk opts of None \<Rightarrow> DEFAULT_MAX_CHUNK_BYTES | Some n \<Rightarrow> n),
          s_creditThreshold = iw div 2,
          s_nextId = (if o_client opts then 1 else 2),
          s_closed = False,
          s_pinging = (interval > 0),
          s_streams = [], s_objs = [], s_promises = [],
          s_link = link, s_sends = 0, s_log = []\<rparr>)"

text \<open>The constructor of \<open>HelixStream\<close>.\<close>

definition new_hstream :: "nat \<Rightarrow> bytes \<Rightarrow> nat \<Rightarrow> hstream" where
  "new_hstream i meta initialWindow =
     \<lparr>st_id = i, st_meta = meta, st_window = initialWindow, st_queue = [], st_unacked = 0,
      st_send_closed = False, st_closed = False\<rparr>"

abbreviation obj :: "hsession \<Rightarrow> nat \<Rightarrow> hstream" where
  "obj s a \<equiv> s_objs s ! a"

definition set_obj :: "nat \<Rightarrow> hstream \<Rightarrow> hsession \<Rightarrow> hsession" where
  "set_obj a st s = s\<lparr>s_objs := (s_objs s)[a := st]\<rparr>"

definition log_obs :: "obs \<Rightarrow> hsession \<Rightarrow> hsession" where
  "log_obs ev s = s\<lparr>s_log := s_log s @ [ev]\<rparr>"

text \<open>A promise settles once; later calls of its resolve or reject change nothing.\<close>

definition settle :: "settlement \<Rightarrow> nat \<Rightarrow> hsession \<Rightarrow> hsession" where
  "settle v i s =
     (if s_promises s ! i = None then s\<lparr>s_promises := (s_promises s)[i := Some v]\<rparr> else s)"

text \<open>\<open>HelixStream.teardown\<close>: reject every queued write, empty the queue, tell the application.\<close>

definition teardown :: "nat \<Rightarrow> stream_error option \<Rightarrow> hsession \<Rightarrow> hsession" where
  "teardown a err s =
     (if st_closed (obj s a) then s
      else let s1 = set_obj a ((obj s a)\<lparr>st_closed := True\<rparr>) s;
               reason = (case err of None \<Rightarrow> StreamClosedErr | Some e \<Rightarrow> e);
               s2 = fold (\<lambda>w. settle (Rejected reason) (w_promise w)) (st_queue (obj s a)) s1;
               s3 = set_obj a ((obj s2 a)\<lparr>st_queue := []\<rparr>) s2
           in log_obs (StreamGone a err) s3)"

text \<open>\<open>HelixStreamSession.closeWithErr\<close>.\<close>

definition close_with_err :: "stream_error option \<Rightarrow> hsession \<Rightarrow> hsession" where
  "close_with_err err s =
     (if s_closed s then s
      else let s1 = s\<lparr>s_closed := True, s_pinging := False\<rparr>;
               s2 = fold (\<lambda>a. teardown a err) (map snd (s_streams s1)) s1;
               s3 = s2\<lparr>s_streams := []\<rparr>
           in log_obs (SessionGone err) (log_obs TransportClosed s3))"

text \<open>\<open>HelixStreamSession.sendFrame\<close>: a transport that throws closes the session.\<close>

definition send_frame :: "frame_type \<Rightarrow> nat \<Rightarrow> bytes \<Rightarrow> hsession \<Rightarrow> hsession" where
  "send_frame t i payload s =
     (if s_closed s then s
      else let n = s_sends s; s1 = s\<lparr>s_sends := Suc n\<rparr>
           in if s_link s n then log_obs (Sent t i payload) s1
              else close_with_err (Some TransportErr) s1)"

definition remove_stream :: "nat \<Rightarrow> hsession \<Rightarrow> hsession" where
  "remove_stream i s = s\<lparr>s_streams := map_delete i (s_streams s)\<rparr>"

text \<open>
  One turn of the loop in \<open>HelixStream.flush\<close>. \<open>send_frame\<close> may close the session and
  empty this very queue; the turn then still charges the window, and its \<open>shift\<close> and
  \<open>resolve\<close> find nothing left to do.
\<close>

definition turn_chunk :: "nat \<Rightarrow> hsession \<Rightarrow> nat" where
  "turn_chunk a s =
     (let st = obj s a; w = hd (st_queue st); remaining = length (w_data w) - w_offset w
      in min remaining (min (st_window st) (s_maxChunk s)))"

definition send_piece :: "nat \<Rightarrow> bytes \<Rightarrow> hsession \<Rightarrow> hsession" where
  "send_piece a piece s = send_frame Data (st_id (obj s a)) piece (log_obs (DataOut a piece) s)"

definition charge :: "nat \<Rightarrow> pending_write \<Rightarrow> nat \<Rightarrow> hsession \<Rightarrow> hsession" where
  "charge a w chunk s =
     (let st = obj s a; w1 = w\<lparr>w_offset := w_offset w + chunk\<rparr>
      in if length (w_data w) \<le> w_offset w1
         then settle Resolved (w_promise w)
                (set_obj a (st\<lparr>st_window := st_window st - chunk, st_queue := tl (st_queue st)\<rparr>) s)
         else set_obj a (st\<lparr>st_window := st_window st - chunk,
                            st_queue := (case st_queue st of [] \<Rightarrow> [] | _ # q \<Rightarrow> w1 # q)\<rparr>) s)"

definition flush_turn :: "nat \<Rightarrow> hsession \<Rightarrow> hsession" where
  "flush_turn a s =
     (let w = hd (st_queue (obj s a)); chunk = turn_chunk a s
      in charge a w chunk (send_piece a (take chunk (drop (w_offset w) (w_data w))) s))"

partial_function (option) flush :: "nat \<Rightarrow> hsession \<Rightarrow> hsession option" where
  "flush a s =
     (if st_queue (obj s a) \<noteq> [] \<and> 0 < st_window (obj s a) then flush a (flush_turn a s)
      else Some s)"

text \<open>\<open>HelixStream.write\<close>: the new promise is the last entry of \<open>s_promises\<close>.\<close>

definition stream_write :: "nat \<Rightarrow> bytes \<Rightarrow> hsession \<Rightarrow> hsession option" where
  "stream_write a data s =
     (let st = obj s a; p = length (s_promises s)
      in if st_closed st
         then Some (s\<lparr>s_promises := s_promises s @ [Some (Rejected StreamClosedErr)]\<rparr>)
         else if st_send_closed st
         then Some (s\<lparr>s_promises := s_promises s @ [Some (Rejected WriteClosedErr)]\<rparr>)
         else let w = \<lparr>w_data = data, w_offset = 0, w_promise = p\<rparr>;
                  s1 = s\<lparr>s_promises := s_promises s @ [None]\<rparr>
              in flush a (set_obj a (st\<lparr>st_queue := st_queue st @ [w]\<rparr>) (log_obs (Accepted a data) s1)))"

definition stream_end :: "nat \<Rightarrow> hsession \<Rightarrow> hsession" where
  "stream_end a s =
     (let st = obj s a
      in if st_send_closed st \<or> st_closed st then s
         else send_frame End (st_id st) [] (set_obj a (st\<lparr>st_send_closed := True\<rparr>) s))"

definition stream_reset :: "nat \<Rightarrow> string \<Rightarrow> hsession \<Rightarrow> hsession" where
  "stream_reset a reason s =
     (let i = st_id (obj s a);
          s1 = (if \<not> st_closed (obj s a)
                then send_frame Reset i (if reason = [] then [] else utf8 reason) s else s)
      in remove_stream i (teardown a (Some (StreamResetErr reason)) s1))"

definition stream_close :: "nat \<Rightarrow> hsession \<Rightarrow> hsession" where
  "stream_close a s = remove_stream (st_id (obj s a)) (teardown a None (stream_end a s))"

definition stream_signal :: "nat \<Rightarrow> bytes \<Rightarrow> hsession \<Rightarrow> hsession" where
  "stream_signal a payload s = send_frame Signal (st_id (obj s a)) payload s"

definition on_data :: "nat \<Rightarrow> bytes \<Rightarrow> hsession \<Rightarrow> hsession" where
  "on_data a payload s =
     (if st_closed (obj s a) then s
      else let s1 = log_obs (GotData a payload) s;
               st = obj s1 a;
               grant = st_unacked st + length payload
           in if s_creditThreshold s1 \<le> grant
              then send_frame Credit (st_id st) (encode_credit grant)
                     (log_obs (CreditOut a grant) (set_obj a (st\<lparr>st_unacked := 0\<rparr>) s1))
              else set_obj a (st\<lparr>st_unacked := grant\<rparr>) s1)"

definition on_end :: "nat \<Rightarrow> hsession \<Rightarrow> hsession" where
  "on_end a s = log_obs (GotEnd a) s"

definition on_credit :: "nat \<Rightarrow> nat \<Rightarrow> hsession \<Rightarrow> hsession option" where
  "on_credit a n s =
     flush a (set_obj a ((obj s a)\<lparr>st_window := st_window (obj s a) + n\<rparr>) (log_obs (CreditIn a n) s))"

definition on_signal :: "nat \<Rightarrow> bytes \<Rightarrow> hsession \<Rightarrow> hsession" where
  "on_signal a payload s = log_obs (GotSignal a payload) s"

text \<open>\<open>HelixStreamSession.open\<close>: the error it throws, or the new stream's address.\<close>

definition open_stream :: "bytes option \<Rightarrow> hsession \<Rightarrow> stream_error + nat \<times> hsession" where
  "open_stream meta s =
     (if s_closed s then Inl SessionClosedErr
      else let i = s_nextId s;
               a = length (s_objs s);
               m = (case meta of None \<Rightarrow> [] | Some b \<Rightarrow> b);
               s1 = s\<lparr>s_nextId := i + 2,
                      s_objs := s_objs s @ [new_hstream i m (s_initialWindow s)],
                      s_streams := map_set i a (s_streams s)\<rparr>
           in Inr (a, send_frame Open i m s1))"

definition ping_tick :: "hsession \<Rightarrow> hsession" where
  "ping_tick s = (if s_pinging s then send_frame Ping 0 [] s else s)"

text \<open>\<open>HelixStreamSession.dispatch\<close>: one received transport message.\<close>

definition dispatch :: "bytes \<Rightarrow> hsession \<Rightarrow> hsession option" where
  "dispatch data s =
     (case decode_frame data of
        None \<Rightarrow> Some s
      | Some f \<Rightarrow>
          let i = unat (f_stream f); payload = f_payload f; target = map_get (s_streams s) i
          in (case of_opcode (f_type f) of
                Some Ping \<Rightarrow> Some (send_frame Pong 0 [] s)
              | Some Pong \<Rightarrow> Some s
              | Some Open \<Rightarrow>
                  let a = length (s_objs s)
                  in Some (log_obs (GotStream a)
                       (s\<lparr>s_objs := s_objs s @ [new_hstream i payload (s_initialWindow s)],
                          s_streams := map_set i a (s_streams s)\<rparr>))
              | Some Data \<Rightarrow> Some (case target of None \<Rightarrow> s | Some a \<Rightarrow> on_data a payload s)
              | Some End \<Rightarrow> Some (case target of None \<Rightarrow> s | Some a \<Rightarrow> on_end a s)
              | Some Reset \<Rightarrow>
                  Some (case target of None \<Rightarrow> s
                        | Some a \<Rightarrow> remove_stream i (teardown a (Some PeerResetErr) s))
              | Some Signal \<Rightarrow> Some (case target of None \<Rightarrow> s | Some a \<Rightarrow> on_signal a payload s)
              | Some Credit \<Rightarrow>
                  (case target of None \<Rightarrow> Some s | Some a \<Rightarrow> on_credit a (decode_credit payload) s)
              | None \<Rightarrow> Some s))"

text \<open>Everything that can happen to a session: the application's calls on it and on the
  streams it holds, the transport's callbacks, the ping timer.\<close>

datatype session_input =
    IOpen "bytes option" | IWrite nat bytes | IEnd nat | IReset nat string | IClose nat
  | ISignal nat bytes | IReceive bytes | ITransportClosed "stream_error option" | IPing
  | ICloseSession

fun session_step :: "session_input \<Rightarrow> hsession \<Rightarrow> hsession option" where
  "session_step (IOpen meta) s = Some (case open_stream meta s of Inl _ \<Rightarrow> s | Inr (_, s') \<Rightarrow> s')"
| "session_step (IWrite a data) s = (if a < length (s_objs s) then stream_write a data s else Some s)"
| "session_step (IEnd a) s = Some (if a < length (s_objs s) then stream_end a s else s)"
| "session_step (IReset a r) s = Some (if a < length (s_objs s) then stream_reset a r s else s)"
| "session_step (IClose a) s = Some (if a < length (s_objs s) then stream_close a s else s)"
| "session_step (ISignal a p) s = Some (if a < length (s_objs s) then stream_signal a p s else s)"
| "session_step (IReceive data) s = dispatch data s"
| "session_step (ITransportClosed err) s = Some (close_with_err err s)"
| "session_step IPing s = Some (ping_tick s)"
| "session_step ICloseSession s = Some (close_with_err None s)"

end
