(* ===== verification/Stream_Laws.thy ===== *)
theory Stream_Laws
  imports Stream_Session
begin

text \<open>
  What the multiplexer of \<open>Stream_Session\<close> guarantees. The ledgers read the log of a
  session per stream object; the host interface says what a stream may rely on when it
  calls \<open>sendFrame\<close>; the invariant ties windows, queues, promises and ledgers together and
  is kept by every input, so it holds along every run.
\<close>

named_theorems evolves_intro \<open>host effects that keep every ledger\<close>

section \<open>Ledgers\<close>

definition outs :: "nat \<Rightarrow> hsession \<Rightarrow> bytes" where
  "outs a s = concat (map (\<lambda>e. case e of DataOut b p \<Rightarrow> if b = a then p else [] | _ \<Rightarrow> []) (s_log s))"

definition accepted :: "nat \<Rightarrow> hsession \<Rightarrow> bytes" where
  "accepted a s = concat (map (\<lambda>e. case e of Accepted b p \<Rightarrow> if b = a then p else [] | _ \<Rightarrow> []) (s_log s))"

definition got :: "nat \<Rightarrow> hsession \<Rightarrow> bytes" where
  "got a s = concat (map (\<lambda>e. case e of GotData b p \<Rightarrow> if b = a then p else [] | _ \<Rightarrow> []) (s_log s))"

definition credit_in :: "nat \<Rightarrow> hsession \<Rightarrow> nat" where
  "credit_in a s = sum_list (map (\<lambda>e. case e of CreditIn b n \<Rightarrow> if b = a then n else 0 | _ \<Rightarrow> 0) (s_log s))"

definition credit_out :: "nat \<Rightarrow> hsession \<Rightarrow> nat" where
  "credit_out a s = sum_list (map (\<lambda>e. case e of CreditOut b n \<Rightarrow> if b = a then n else 0 | _ \<Rightarrow> 0) (s_log s))"

lemmas ledger_defs = outs_def accepted_def got_def credit_in_def credit_out_def

definition same_ledgers :: "hsession \<Rightarrow> hsession \<Rightarrow> bool" where
  "same_ledgers s t \<longleftrightarrow> (\<forall>a. outs a t = outs a s \<and> accepted a t = accepted a s \<and> got a t = got a s
     \<and> credit_in a t = credit_in a s \<and> credit_out a t = credit_out a s)"

lemma same_ledgers_log: "s_log t = s_log s \<Longrightarrow> same_ledgers s t"
  by (simp add: same_ledgers_def ledger_defs)

definition neutral :: "obs \<Rightarrow> bool" where
  "neutral e = (case e of Accepted _ _ \<Rightarrow> False | DataOut _ _ \<Rightarrow> False | CreditIn _ _ \<Rightarrow> False
     | CreditOut _ _ \<Rightarrow> False | GotData _ _ \<Rightarrow> False | _ \<Rightarrow> True)"

lemma same_ledgers_neutral: "neutral e \<Longrightarrow> same_ledgers s (log_obs e s)"
  by (cases e) (simp_all add: neutral_def same_ledgers_def ledger_defs log_obs_def)

lemma ledger_log [simp]:
  "outs a (log_obs (DataOut b p) s) = outs a s @ (if b = a then p else [])"
  "outs a (log_obs (Accepted b p) s) = outs a s"
  "outs a (log_obs (CreditIn b n) s) = outs a s"
  "outs a (log_obs (CreditOut b n) s) = outs a s"
  "outs a (log_obs (GotData b p) s) = outs a s"
  "accepted a (log_obs (DataOut b p) s) = accepted a s"
  "accepted a (log_obs (Accepted b p) s) = accepted a s @ (if b = a then p else [])"
  "accepted a (log_obs (CreditIn b n) s) = accepted a s"
  "accepted a (log_obs (CreditOut b n) s) = accepted a s"
  "accepted a (log_obs (GotData b p) s) = accepted a s"
  "got a (log_obs (DataOut b p) s) = got a s"
  "got a (log_obs (Accepted b p) s) = got a s"
  "got a (log_obs (CreditIn b n) s) = got a s"
  "got a (log_obs (CreditOut b n) s) = got a s"
  "got a (log_obs (GotData b p) s) = got a s @ (if b = a then p else [])"
  "credit_in a (log_obs (DataOut b p) s) = credit_in a s"
  "credit_in a (log_obs (Accepted b p) s) = credit_in a s"
  "credit_in a (log_obs (CreditIn b n) s) = credit_in a s + (if b = a then n else 0)"
  "credit_in a (log_obs (CreditOut b n) s) = credit_in a s"
  "credit_in a (log_obs (GotData b p) s) = credit_in a s"
  "credit_out a (log_obs (DataOut b p) s) = credit_out a s"
  "credit_out a (log_obs (Accepted b p) s) = credit_out a s"
  "credit_out a (log_obs (CreditIn b n) s) = credit_out a s"
  "credit_out a (log_obs (CreditOut b n) s) = credit_out a s + (if b = a then n else 0)"
  "credit_out a (log_obs (GotData b p) s) = credit_out a s"
  by (simp_all add: ledger_defs log_obs_def)

lemma ledger_frame [simp]:
  "outs a (set_obj b st s) = outs a s" "accepted a (set_obj b st s) = accepted a s"
  "got a (set_obj b st s) = got a s" "credit_in a (set_obj b st s) = credit_in a s"
  "credit_out a (set_obj b st s) = credit_out a s"
  "outs a (settle v i s) = outs a s" "accepted a (settle v i s) = accepted a s"
  "got a (settle v i s) = got a s" "credit_in a (settle v i s) = credit_in a s"
  "credit_out a (settle v i s) = credit_out a s"
  by (simp_all add: ledger_defs set_obj_def settle_def)

lemma set_obj_simps [simp]:
  "s_objs (set_obj a st s) = (s_objs s)[a := st]"
  "s_promises (set_obj a st s) = s_promises s" "s_streams (set_obj a st s) = s_streams s"
  "s_closed (set_obj a st s) = s_closed s" "s_log (set_obj a st s) = s_log s"
  "s_initialWindow (set_obj a st s) = s_initialWindow s" "s_maxChunk (set_obj a st s) = s_maxChunk s"
  "s_creditThreshold (set_obj a st s) = s_creditThreshold s" "s_nextId (set_obj a st s) = s_nextId s"
  "s_link (set_obj a st s) = s_link s" "s_sends (set_obj a st s) = s_sends s"
  by (simp_all add: set_obj_def)

lemma log_obs_simps [simp]:
  "s_objs (log_obs e s) = s_objs s"
  "s_promises (log_obs e s) = s_promises s" "s_streams (log_obs e s) = s_streams s"
  "s_closed (log_obs e s) = s_closed s" "s_log (log_obs e s) = s_log s @ [e]"
  "s_initialWindow (log_obs e s) = s_initialWindow s" "s_maxChunk (log_obs e s) = s_maxChunk s"
  "s_creditThreshold (log_obs e s) = s_creditThreshold s" "s_nextId (log_obs e s) = s_nextId s"
  "s_link (log_obs e s) = s_link s" "s_sends (log_obs e s) = s_sends s"
  by (simp_all add: log_obs_def)

lemma settle_simps [simp]:
  "s_objs (settle v i s) = s_objs s" "s_streams (settle v i s) = s_streams s"
  "s_closed (settle v i s) = s_closed s" "s_log (settle v i s) = s_log s"
  "s_initialWindow (settle v i s) = s_initialWindow s" "s_maxChunk (settle v i s) = s_maxChunk s"
  "s_creditThreshold (settle v i s) = s_creditThreshold s" "s_nextId (settle v i s) = s_nextId s"
  "s_link (settle v i s) = s_link s" "s_sends (settle v i s) = s_sends s"
  "length (s_promises (settle v i s)) = length (s_promises s)"
  by (simp_all add: settle_def)

lemma settle_promise:
  "j < length (s_promises s) \<Longrightarrow>
   s_promises (settle v i s) ! j = (if j = i \<and> s_promises s ! j = None then Some v else s_promises s ! j)"
  by (auto simp: settle_def nth_list_update)

section \<open>The host a stream relies on\<close>

definition torn :: "hstream \<Rightarrow> hstream" where
  "torn st = (if st_closed st then st else st\<lparr>st_closed := True, st_queue := []\<rparr>)"

lemma torn_simps [simp]:
  "st_id (torn st) = st_id st" "st_window (torn st) = st_window st"
  "st_unacked (torn st) = st_unacked st" "st_closed (torn st)"
  "st_send_closed (torn st) = st_send_closed st" "torn (torn st) = torn st"
  by (simp_all add: torn_def)

definition queue_promises :: "hsession \<Rightarrow> nat \<Rightarrow> nat set" where
  "queue_promises s a = w_promise ` set (st_queue (obj s a))"

definition promise_inv :: "hsession \<Rightarrow> bool" where
  "promise_inv s \<longleftrightarrow>
     (\<forall>a < length (s_objs s). distinct (map w_promise (st_queue (obj s a)))) \<and>
     (\<forall>a < length (s_objs s). \<forall>b < length (s_objs s). a \<noteq> b \<longrightarrow>
        queue_promises s a \<inter> queue_promises s b = {}) \<and>
     (\<forall>a < length (s_objs s). \<forall>i \<in> queue_promises s a. i < length (s_promises s)) \<and>
     (\<forall>i < length (s_promises s). s_promises s ! i = None \<longleftrightarrow>
        (\<exists>a < length (s_objs s). i \<in> queue_promises s a))"

lemma promise_inv_distinct:
  "promise_inv s \<Longrightarrow> a < length (s_objs s) \<Longrightarrow> distinct (map w_promise (st_queue (obj s a)))"
  by (simp add: promise_inv_def)

lemma promise_inv_disjoint:
  "promise_inv s \<Longrightarrow> a < length (s_objs s) \<Longrightarrow> b < length (s_objs s) \<Longrightarrow> a \<noteq> b \<Longrightarrow>
   i \<in> queue_promises s a \<Longrightarrow> i \<notin> queue_promises s b"
  unfolding promise_inv_def by (meson disjoint_iff)

lemma promise_inv_bound:
  "promise_inv s \<Longrightarrow> a < length (s_objs s) \<Longrightarrow> i \<in> queue_promises s a \<Longrightarrow> i < length (s_promises s)"
  by (simp add: promise_inv_def)

lemma promise_inv_pending:
  "promise_inv s \<Longrightarrow> i < length (s_promises s) \<Longrightarrow>
   s_promises s ! i = None \<longleftrightarrow> (\<exists>a < length (s_objs s). i \<in> queue_promises s a)"
  by (simp add: promise_inv_def)

lemma promise_invI:
  assumes "\<And>a. a < length (s_objs s) \<Longrightarrow> distinct (map w_promise (st_queue (obj s a)))"
    and "\<And>a b i. a < length (s_objs s) \<Longrightarrow> b < length (s_objs s) \<Longrightarrow> a \<noteq> b \<Longrightarrow>
       i \<in> queue_promises s a \<Longrightarrow> i \<notin> queue_promises s b"
    and "\<And>a i. a < length (s_objs s) \<Longrightarrow> i \<in> queue_promises s a \<Longrightarrow> i < length (s_promises s)"
    and "\<And>i. i < length (s_promises s) \<Longrightarrow>
       s_promises s ! i = None \<longleftrightarrow> (\<exists>a < length (s_objs s). i \<in> queue_promises s a)"
  shows "promise_inv s"
  unfolding promise_inv_def disjoint_iff
  by (intro conjI allI impI ballI) (simp_all add: assms)

text \<open>
  \<open>StreamHost\<close>: whatever sending a frame does (the transport may throw, which closes the
  whole session), it leaves each stream as it is or tears it down, keeps the ledgers and
  never leaves a promise behind.
\<close>

definition evolves :: "hsession \<Rightarrow> hsession \<Rightarrow> bool" where
  "evolves s t \<longleftrightarrow>
     length (s_objs t) = length (s_objs s) \<and> length (s_promises t) = length (s_promises s) \<and>
     s_initialWindow t = s_initialWindow s \<and> s_maxChunk t = s_maxChunk s \<and>
     s_creditThreshold t = s_creditThreshold s \<and> s_nextId t = s_nextId s \<and>
     (\<forall>a < length (s_objs s). obj t a = obj s a \<or> obj t a = torn (obj s a)) \<and>
     same_ledgers s t \<and> (promise_inv s \<longrightarrow> promise_inv t)"

locale stream_host =
  fixes send :: "frame_type \<Rightarrow> nat \<Rightarrow> bytes \<Rightarrow> hsession \<Rightarrow> hsession"
    and ok :: "hsession \<Rightarrow> bool"
  assumes send_evolves: "ok s \<Longrightarrow> evolves s (send t i p s)"
    and send_ok: "ok s \<Longrightarrow> ok (send t i p s)"
begin

lemma send_obj:
  "ok s \<Longrightarrow> a < length (s_objs s) \<Longrightarrow>
   obj (send t i p s) a = obj s a \<or> obj (send t i p s) a = torn (obj s a)"
  using send_evolves by (simp add: evolves_def)

lemma send_window:
  "ok s \<Longrightarrow> a < length (s_objs s) \<Longrightarrow> st_window (obj (send t i p s) a) = st_window (obj s a)"
  by (metis send_obj torn_simps(2))

lemma send_unacked:
  "ok s \<Longrightarrow> a < length (s_objs s) \<Longrightarrow> st_unacked (obj (send t i p s) a) = st_unacked (obj s a)"
  by (metis send_obj torn_simps(3))

lemma send_config:
  assumes "ok s"
  shows "length (s_objs (send t i p s)) = length (s_objs s)"
    "length (s_promises (send t i p s)) = length (s_promises s)"
    "s_initialWindow (send t i p s) = s_initialWindow s" "s_maxChunk (send t i p s) = s_maxChunk s"
    "s_creditThreshold (send t i p s) = s_creditThreshold s" "s_nextId (send t i p s) = s_nextId s"
  using send_evolves[OF assms] by (simp_all add: evolves_def)

lemma send_ledgers:
  assumes "ok s"
  shows "outs a (send t i p s) = outs a s" "accepted a (send t i p s) = accepted a s"
    "got a (send t i p s) = got a s" "credit_in a (send t i p s) = credit_in a s"
    "credit_out a (send t i p s) = credit_out a s"
  using send_evolves[OF assms] by (simp_all add: evolves_def same_ledgers_def)

lemma send_promise_inv: "ok s \<Longrightarrow> promise_inv s \<Longrightarrow> promise_inv (send t i p s)"
  using send_evolves by (simp add: evolves_def)

end

lemma evolves_refl [intro]: "evolves s s"
  by (simp add: evolves_def same_ledgers_def)

lemma evolves_trans [trans]: "evolves s t \<Longrightarrow> evolves t u \<Longrightarrow> evolves s u"
  unfolding evolves_def same_ledgers_def by (metis torn_simps(6))

lemma evolves_frame:
  assumes "s_objs t = s_objs s" "s_promises t = s_promises s"
    "s_initialWindow t = s_initialWindow s" "s_maxChunk t = s_maxChunk s"
    "s_creditThreshold t = s_creditThreshold s" "s_nextId t = s_nextId s" "same_ledgers s t"
  shows "evolves s t"
  using assms by (simp add: evolves_def promise_inv_def queue_promises_def)

lemma evolves_log: "neutral e \<Longrightarrow> evolves s (log_obs e s)"
  by (rule evolves_frame) (simp_all add: same_ledgers_neutral)

lemma fold_settle_simps [simp]:
  fixes v ws s
  defines "t \<equiv> fold (\<lambda>w. settle v (w_promise w)) ws s"
  shows "s_objs t = s_objs s" "s_streams t = s_streams s" "s_closed t = s_closed s" "s_log t = s_log s"
    "s_initialWindow t = s_initialWindow s" "s_maxChunk t = s_maxChunk s"
    "s_creditThreshold t = s_creditThreshold s" "s_nextId t = s_nextId s"
    "s_link t = s_link s" "s_sends t = s_sends s" "length (s_promises t) = length (s_promises s)"
  unfolding t_def by (induction ws arbitrary: s) simp_all

lemma fold_settle_promise:
  "j < length (s_promises s) \<Longrightarrow>
   s_promises (fold (\<lambda>w. settle v (w_promise w)) ws s) ! j =
     (if j \<in> w_promise ` set ws \<and> s_promises s ! j = None then Some v else s_promises s ! j)"
  by (induction ws arbitrary: s) (auto simp: settle_promise)

text \<open>Tearing one stream down settles exactly the promises of its queue.\<close>

lemma teardown_obj:
  assumes "a < length (s_objs s)"
  shows "s_objs (teardown a err s) = (s_objs s)[a := torn (obj s a)]"
  using assms by (simp add: teardown_def torn_def Let_def)

lemma teardown_frame [simp]:
  "s_streams (teardown a err s) = s_streams s" "s_closed (teardown a err s) = s_closed s"
  "s_initialWindow (teardown a err s) = s_initialWindow s" "s_maxChunk (teardown a err s) = s_maxChunk s"
  "s_creditThreshold (teardown a err s) = s_creditThreshold s" "s_nextId (teardown a err s) = s_nextId s"
  "length (s_promises (teardown a err s)) = length (s_promises s)"
  "length (s_objs (teardown a err s)) = length (s_objs s)"
  by (simp_all add: teardown_def Let_def)

lemma teardown_ledgers: "same_ledgers s (teardown a err s)"
  by (simp add: teardown_def Let_def same_ledgers_def ledger_defs)

lemma teardown_promise:
  assumes "\<not> st_closed (obj s a)" "j < length (s_promises s)"
  shows "s_promises (teardown a err s) ! j =
    (if j \<in> w_promise ` set (st_queue (obj s a)) \<and> s_promises s ! j = None
     then Some (Rejected (case err of None \<Rightarrow> StreamClosedErr | Some e \<Rightarrow> e)) else s_promises s ! j)"
  using assms by (simp add: teardown_def Let_def fold_settle_promise)

lemma teardown_promise_inv:
  assumes a: "a < length (s_objs s)" and inv: "promise_inv s"
  shows "promise_inv (teardown a err s)"
proof (cases "st_closed (obj s a)")
  case True
  then show ?thesis using inv by (simp add: teardown_def)
next
  case False
  let ?t = "teardown a err s"
  have q: "st_queue (obj ?t b) = (if b = a then [] else st_queue (obj s b))"
    if "b < length (s_objs s)" for b
    using that a False by (simp add: teardown_obj nth_list_update torn_def)
  have p: "queue_promises ?t b = (if b = a then {} else queue_promises s b)"
    if "b < length (s_objs s)" for b
    using q[OF that] by (simp add: queue_promises_def)
  show ?thesis
  proof (rule promise_invI, unfold teardown_frame)
    fix b c i assume *: "b < length (s_objs s)" "c < length (s_objs s)" "b \<noteq> c" "i \<in> queue_promises ?t b"
    then show "i \<notin> queue_promises ?t c"
      using p[OF *(1)] p[OF *(2)] promise_inv_disjoint[OF inv *(1-3)] by (simp split: if_splits)
  next
    fix i assume i: "i < length (s_promises s)"
    have 1: "s_promises ?t ! i = None \<longleftrightarrow> s_promises s ! i = None \<and> i \<notin> queue_promises s a"
      by (auto simp: teardown_promise[OF False i] queue_promises_def)
    show "s_promises ?t ! i = None \<longleftrightarrow> (\<exists>b < length (s_objs s). i \<in> queue_promises ?t b)"
      unfolding 1 promise_inv_pending[OF inv i]
      using p promise_inv_disjoint[OF inv _ a] by (metis empty_iff)
  qed (use q p promise_inv_distinct[OF inv] promise_inv_bound[OF inv] in \<open>simp_all split: if_splits\<close>)
qed

lemma teardown_evolves: "a < length (s_objs s) \<Longrightarrow> evolves s (teardown a err s)"
  by (simp add: evolves_def teardown_obj nth_list_update teardown_ledgers teardown_promise_inv)

lemma fold_teardown_evolves:
  "(\<forall>a \<in> set as. a < length (s_objs s)) \<Longrightarrow> evolves s (fold (\<lambda>a. teardown a err) as s)"
proof (induction as arbitrary: s)
  case (Cons a as)
  then have "evolves s (teardown a err s)" by (simp add: teardown_evolves)
  moreover have "evolves (teardown a err s) (fold (\<lambda>a. teardown a err) as (teardown a err s))"
    using Cons by simp
  ultimately show ?case by (simp add: evolves_trans)
qed (simp add: evolves_refl)

text \<open>The table only holds addresses of existing stream objects.\<close>

definition table_inv :: "hsession \<Rightarrow> bool" where
  "table_inv s \<longleftrightarrow> map_ok (s_streams s) \<and>
     (\<forall>(i, a) \<in> set (s_streams s). a < length (s_objs s) \<and> st_id (obj s a) = i)"

lemma close_with_err_evolves:
  assumes "table_inv s"
  shows "evolves s (close_with_err err s)"
proof (cases "s_closed s")
  case False
  let ?s1 = "s\<lparr>s_closed := True, s_pinging := False\<rparr>"
  let ?s2 = "fold (\<lambda>a. teardown a err) (map snd (s_streams ?s1)) ?s1"
  have "evolves s ?s1" by (rule evolves_frame) (simp_all add: same_ledgers_log)
  also have "evolves ?s1 ?s2"
    using assms by (intro fold_teardown_evolves) (auto simp: table_inv_def)
  also have "evolves ?s2 (?s2\<lparr>s_streams := []\<rparr>)"
    by (rule evolves_frame) (simp_all add: same_ledgers_log)
  also have "evolves (?s2\<lparr>s_streams := []\<rparr>)
      (log_obs (SessionGone err) (log_obs TransportClosed (?s2\<lparr>s_streams := []\<rparr>)))"
    by (rule evolves_trans[OF evolves_log evolves_log]) (simp_all add: neutral_def)
  finally show ?thesis using False by (simp add: close_with_err_def Let_def)
qed (simp add: close_with_err_def evolves_refl)

lemma close_with_err_table [simp]:
  "\<not> s_closed s \<Longrightarrow> s_streams (close_with_err err s) = []"
  "s_closed (close_with_err err s)"
proof -
  have "s_closed (fold (\<lambda>a. teardown a err) as t) = s_closed t" for as t
    by (induction as arbitrary: t) simp_all
  then show "\<not> s_closed s \<Longrightarrow> s_streams (close_with_err err s) = []" "s_closed (close_with_err err s)"
    by (simp_all add: close_with_err_def Let_def)
qed

lemma evolves_table:
  "evolves s t \<Longrightarrow> table_inv s \<Longrightarrow> s_streams t = [] \<or> (s_streams t = s_streams s \<and> s_closed t = s_closed s)
   \<Longrightarrow> table_inv t"
  unfolding table_inv_def evolves_def by (fastforce simp: torn_simps(1))

lemma close_with_err_table_inv: "table_inv s \<Longrightarrow> table_inv (close_with_err err s)"
proof (cases "s_closed s")
  case False
  then show "table_inv s \<Longrightarrow> ?thesis"
    by (intro evolves_table[OF close_with_err_evolves]) simp_all
qed (simp add: close_with_err_def)

lemma send_frame_evolves: "table_inv s \<Longrightarrow> evolves s (send_frame t i p s)"
proof -
  assume inv: "table_inv s"
  let ?s1 = "s\<lparr>s_sends := Suc (s_sends s)\<rparr>"
  have 1: "evolves s ?s1" by (rule evolves_frame) (simp_all add: same_ledgers_log)
  have 2: "evolves ?s1 (log_obs (Sent t i p) ?s1)" by (simp add: evolves_log neutral_def)
  have 3: "evolves ?s1 (close_with_err (Some TransportErr) ?s1)"
    using inv by (intro close_with_err_evolves) (simp add: table_inv_def)
  from evolves_trans[OF 1 2] evolves_trans[OF 1 3] show ?thesis
    by (simp add: send_frame_def Let_def evolves_refl)
qed

lemma send_frame_table_inv: "table_inv s \<Longrightarrow> table_inv (send_frame t i p s)"
proof -
  assume inv: "table_inv s"
  then have "table_inv (s\<lparr>s_sends := n\<rparr>)" for n by (simp add: table_inv_def)
  with inv show ?thesis
    by (auto simp: send_frame_def Let_def close_with_err_table_inv) (simp add: table_inv_def)
qed

interpretation host: stream_host send_frame table_inv
  by unfold_locales (simp_all add: send_frame_evolves send_frame_table_inv)

end
