(* ===== verification/Stream_Invariant.thy ===== *)
theory Stream_Invariant
  imports Stream_Laws
begin

text \<open>
  The invariant of a stream session and its preservation by every input. Per stream it
  balances the flow-control window against the credit received, the accepted bytes against
  the bytes sent and queued, and the received bytes against the credit granted.
\<close>

section \<open>The law of one stream\<close>

definition pending_bytes :: "pending_write list \<Rightarrow> bytes" where
  "pending_bytes q = concat (map (\<lambda>w. drop (w_offset w) (w_data w)) q)"

lemma pending_bytes_simps [simp]:
  "pending_bytes [] = []"
  "pending_bytes (w # q) = drop (w_offset w) (w_data w) @ pending_bytes q"
  "pending_bytes (q @ r) = pending_bytes q @ pending_bytes r"
  by (simp_all add: pending_bytes_def)

definition stream_law :: "hsession \<Rightarrow> nat \<Rightarrow> bool" where
  "stream_law s a \<longleftrightarrow>
     st_window (obj s a) + length (outs a s) = s_initialWindow s + credit_in a s \<and>
     length (got a s) = credit_out a s + st_unacked (obj s a) \<and>
     st_unacked (obj s a) < max 1 (s_creditThreshold s) \<and>
     (if st_closed (obj s a)
      then st_queue (obj s a) = [] \<and> (\<exists>rest. accepted a s = outs a s @ rest)
      else accepted a s = outs a s @ pending_bytes (st_queue (obj s a)))"

definition blank :: "hsession \<Rightarrow> nat \<Rightarrow> bool" where
  "blank s a \<longleftrightarrow> outs a s = [] \<and> accepted a s = [] \<and> got a s = [] \<and> credit_in a s = 0 \<and> credit_out a s = 0"

definition session_ok :: "hsession \<Rightarrow> bool" where
  "session_ok s \<longleftrightarrow> table_inv s \<and> promise_inv s \<and> 0 < s_maxChunk s \<and>
     (\<forall>a < length (s_objs s). stream_law s a) \<and> (\<forall>a \<ge> length (s_objs s). blank s a)"

text \<open>Between inputs nothing sendable is left in a queue.\<close>

definition drained :: "hsession \<Rightarrow> nat \<Rightarrow> bool" where
  "drained s a \<longleftrightarrow> st_queue (obj s a) = [] \<or> st_window (obj s a) = 0"

definition session_inv :: "hsession \<Rightarrow> bool" where
  "session_inv s \<longleftrightarrow> session_ok s \<and> (\<forall>a < length (s_objs s). drained s a)"

lemma session_okD:
  assumes "session_ok s"
  shows "table_inv s" "promise_inv s" "0 < s_maxChunk s"
    "\<And>a. a < length (s_objs s) \<Longrightarrow> stream_law s a" "\<And>a. length (s_objs s) \<le> a \<Longrightarrow> blank s a"
  using assms by (simp_all add: session_ok_def)

section \<open>What keeps it\<close>

lemma evolves_law:
  assumes "evolves s t" "a < length (s_objs s)" "stream_law s a"
  shows "stream_law t a"
proof -
  have "obj t a = obj s a \<or> obj t a = torn (obj s a)" and l: "same_ledgers s t"
    and c: "s_initialWindow t = s_initialWindow s" "s_creditThreshold t = s_creditThreshold s"
    using assms(1,2) by (simp_all add: evolves_def)
  then show ?thesis
    using assms(3) by (auto simp: stream_law_def same_ledgers_def torn_def split: if_splits)
qed

lemma evolves_ok:
  assumes "evolves s t" "table_inv t" "session_ok s"
  shows "session_ok t"
proof -
  have "blank t a = blank s a" for a
    using assms(1) by (simp add: evolves_def same_ledgers_def blank_def)
  moreover have "length (s_objs t) = length (s_objs s)" "promise_inv s \<longrightarrow> promise_inv t"
    "s_maxChunk t = s_maxChunk s"
    using assms(1) by (simp_all add: evolves_def)
  ultimately show ?thesis
    using assms evolves_law by (simp add: session_ok_def)
qed

lemma evolves_drained:
  assumes "evolves s t" "a < length (s_objs s)" "drained s a"
  shows "drained t a"
proof -
  have "obj t a = obj s a \<or> obj t a = torn (obj s a)"
    using assms(1,2) by (simp add: evolves_def)
  then show ?thesis using assms(3) by (auto simp: drained_def torn_def)
qed

lemma evolves_inv: "evolves s t \<Longrightarrow> table_inv t \<Longrightarrow> session_inv s \<Longrightarrow> session_inv t"
  unfolding session_inv_def by (metis evolves_ok evolves_drained evolves_def)

text \<open>The invariant, without the law of stream \<open>a\<close>.\<close>

definition ok_but :: "nat \<Rightarrow> hsession \<Rightarrow> bool" where
  "ok_but a s \<longleftrightarrow> table_inv s \<and> promise_inv s \<and> 0 < s_maxChunk s \<and>
     (\<forall>b < length (s_objs s). b \<noteq> a \<longrightarrow> stream_law s b) \<and> (\<forall>b \<ge> length (s_objs s). blank s b)"

lemma ok_but_law: "ok_but a s \<Longrightarrow> stream_law s a \<Longrightarrow> session_ok s"
  unfolding ok_but_def session_ok_def by metis

lemma ok_ok_but: "session_ok s \<Longrightarrow> ok_but a s"
  by (simp add: ok_but_def session_ok_def)

lemma ok_butD:
  assumes "ok_but a s"
  shows "table_inv s" "promise_inv s" "0 < s_maxChunk s"
    "\<And>b. b < length (s_objs s) \<Longrightarrow> b \<noteq> a \<Longrightarrow> stream_law s b"
    "\<And>b. length (s_objs s) \<le> b \<Longrightarrow> blank s b"
  using assms by (simp_all add: ok_but_def)

lemma evolves_ok_but:
  assumes e: "evolves s t" and t: "table_inv t" and ok: "ok_but a s"
  shows "ok_but a t"
proof -
  have "blank t b = blank s b" for b
    using e by (simp add: evolves_def same_ledgers_def blank_def)
  moreover have "length (s_objs t) = length (s_objs s)" "promise_inv t" "s_maxChunk t = s_maxChunk s"
    using e ok_butD(2)[OF ok] by (simp_all add: evolves_def)
  ultimately show ?thesis
    using t ok_butD[OF ok] evolves_law[OF e] by (simp add: ok_but_def)
qed

text \<open>Everything but the object at \<open>a\<close>, its ledgers and the promises is left alone.\<close>

definition touches :: "nat \<Rightarrow> hsession \<Rightarrow> hsession \<Rightarrow> bool" where
  "touches a s t \<longleftrightarrow>
     length (s_objs t) = length (s_objs s) \<and> (\<forall>b. b \<noteq> a \<longrightarrow> obj t b = obj s b) \<and>
     st_id (obj t a) = st_id (obj s a) \<and> s_streams t = s_streams s \<and>
     s_initialWindow t = s_initialWindow s \<and> s_maxChunk t = s_maxChunk s \<and>
     s_creditThreshold t = s_creditThreshold s \<and>
     (\<forall>b. b \<noteq> a \<longrightarrow> outs b t = outs b s \<and> accepted b t = accepted b s \<and> got b t = got b s
        \<and> credit_in b t = credit_in b s \<and> credit_out b t = credit_out b s)"

lemma touches_ok_but:
  assumes t: "touches a s t" and a: "a < length (s_objs s)" and p: "promise_inv t" and ok: "ok_but a s"
  shows "ok_but a t"
proof -
  have "stream_law t b = stream_law s b" if "b \<noteq> a" for b
    using t that by (simp add: touches_def stream_law_def)
  moreover have "blank t b = blank s b" if "b \<noteq> a" for b
    using t that by (simp add: touches_def blank_def)
  moreover have "st_id (obj t b) = st_id (obj s b)" for b
    using t by (cases "b = a") (simp_all add: touches_def)
  moreover have l: "length (s_objs t) = length (s_objs s)" "s_streams t = s_streams s"
    "s_maxChunk t = s_maxChunk s"
    using t by (simp_all add: touches_def)
  moreover have "table_inv t"
    using calculation(3-5) ok_butD(1)[OF ok] by (simp add: table_inv_def)
  ultimately show ?thesis
    using p ok_butD[OF ok] a by (simp add: ok_but_def)
qed

lemma touches_drained:
  "touches a s t \<Longrightarrow> b \<noteq> a \<Longrightarrow> drained t b = drained s b"
  by (simp add: touches_def drained_def)

section \<open>Promises and queues\<close>

lemma promise_inv_same:
  assumes inv: "promise_inv s" and l: "length (s_objs t) = length (s_objs s)"
    and p: "s_promises t = s_promises s"
    and q: "\<And>b. b < length (s_objs s) \<Longrightarrow> map w_promise (st_queue (obj t b)) = map w_promise (st_queue (obj s b))"
  shows "promise_inv t"
proof -
  have qp: "queue_promises t b = queue_promises s b" if "b < length (s_objs s)" for b
    using q[OF that] by (metis queue_promises_def list.set_map)
  show ?thesis
    by (rule promise_invI, unfold l p)
      (use q qp inv in \<open>auto simp: promise_inv_distinct promise_inv_bound promise_inv_pending
         dest: promise_inv_disjoint\<close>)
qed

text \<open>A write queues one entry behind one new pending promise.\<close>

lemma promise_inv_push:
  assumes inv: "promise_inv s" and a: "a < length (s_objs s)"
    and l: "length (s_objs t) = length (s_objs s)"
    and p: "s_promises t = s_promises s @ [None]"
    and qa: "map w_promise (st_queue (obj t a)) = map w_promise (st_queue (obj s a)) @ [length (s_promises s)]"
    and q: "\<And>b. b < length (s_objs s) \<Longrightarrow> b \<noteq> a \<Longrightarrow> st_queue (obj t b) = st_queue (obj s b)"
  shows "promise_inv t"
proof -
  have qpa: "queue_promises t a = insert (length (s_promises s)) (queue_promises s a)"
    using arg_cong[OF qa, of set] by (simp add: queue_promises_def)
  have qp: "queue_promises t b = queue_promises s b" if "b < length (s_objs s)" "b \<noteq> a" for b
    using q[OF that] by (simp add: queue_promises_def)
  have fresh: "length (s_promises s) \<notin> queue_promises s b" if "b < length (s_objs s)" for b
    using promise_inv_bound[OF inv that] by blast
  show ?thesis
  proof (rule promise_invI, unfold l)
    show "distinct (map w_promise (st_queue (obj t b)))" if b: "b < length (s_objs s)" for b
      using qa q[OF b] fresh[OF a] promise_inv_distinct[OF inv b]
      by (cases "b = a") (auto simp: queue_promises_def)
    show "i \<notin> queue_promises t c"
      if *: "b < length (s_objs s)" "c < length (s_objs s)" "b \<noteq> c" "i \<in> queue_promises t b" for b c i
      using * qpa qp[OF *(1)] qp[OF *(2)] fresh[OF *(1)] fresh[OF *(2)] promise_inv_disjoint[OF inv *(1-3)]
      by (cases "b = a"; cases "c = a") auto
    show "i < length (s_promises t)" if *: "b < length (s_objs s)" "i \<in> queue_promises t b" for b i
      using * qpa qp[OF *(1)] promise_inv_bound[OF inv *(1)] p by (cases "b = a") (auto simp: less_Suc_eq)
    show "s_promises t ! i = None \<longleftrightarrow> (\<exists>b < length (s_objs s). i \<in> queue_promises t b)"
      if i: "i < length (s_promises t)" for i
    proof (cases "i = length (s_promises s)")
      case True
      then show ?thesis using p qpa a by auto
    next
      case False
      with i p have "i < length (s_promises s)" by simp
      moreover have "i \<in> queue_promises t b \<longleftrightarrow> i \<in> queue_promises s b" if "b < length (s_objs s)" for b
        using False qpa qp[OF that] by (cases "b = a") auto
      ultimately show ?thesis
        using p promise_inv_pending[OF inv] by (simp add: nth_append) metis
    qed
  qed
qed

text \<open>Finishing the head of a queue settles its promise.\<close>

lemma promise_inv_pop:
  assumes inv: "promise_inv s" and a: "a < length (s_objs s)" and ne: "st_queue (obj s a) = w # ws"
    and l: "length (s_objs t) = length (s_objs s)"
    and p: "s_promises t = (s_promises s)[w_promise w := Some v]"
    and qa: "st_queue (obj t a) = ws"
    and q: "\<And>b. b < length (s_objs s) \<Longrightarrow> b \<noteq> a \<Longrightarrow> st_queue (obj t b) = st_queue (obj s b)"
  shows "promise_inv t"
proof -
  have d: "w_promise w \<notin> w_promise ` set ws" "distinct (map w_promise ws)"
    using promise_inv_distinct[OF inv a] ne by auto
  have wa: "w_promise w \<in> queue_promises s a" using ne by (simp add: queue_promises_def)
  have qpa: "queue_promises t a = queue_promises s a - {w_promise w}"
    using d ne qa by (simp add: queue_promises_def)
  have qp: "queue_promises t b = queue_promises s b" if "b < length (s_objs s)" "b \<noteq> a" for b
    using q[OF that] by (simp add: queue_promises_def)
  have out: "w_promise w \<notin> queue_promises s b" if "b < length (s_objs s)" "b \<noteq> a" for b
    using promise_inv_disjoint[OF inv a that(1) _ wa] that by auto
  have mem: "i \<in> queue_promises t b \<longleftrightarrow> i \<in> queue_promises s b \<and> i \<noteq> w_promise w"
    if "b < length (s_objs s)" for b i
    using qpa qp[OF that] out[OF that] by (cases "b = a") auto
  show ?thesis
  proof (rule promise_invI, unfold l)
    show "distinct (map w_promise (st_queue (obj t b)))" if b: "b < length (s_objs s)" for b
      using qa q[OF b] d promise_inv_distinct[OF inv b] by (cases "b = a") auto
    show "i \<notin> queue_promises t c"
      if *: "b < length (s_objs s)" "c < length (s_objs s)" "b \<noteq> c" "i \<in> queue_promises t b" for b c i
      using * mem[OF *(1)] mem[OF *(2)] promise_inv_disjoint[OF inv *(1-3)] by blast
    show "i < length (s_promises t)" if *: "b < length (s_objs s)" "i \<in> queue_promises t b" for b i
      using * mem[OF *(1)] promise_inv_bound[OF inv *(1)] p by simp
    show "s_promises t ! i = None \<longleftrightarrow> (\<exists>b < length (s_objs s). i \<in> queue_promises t b)"
      if i: "i < length (s_promises t)" for i
    proof -
      have "i < length (s_promises s)" using i p by simp
      moreover have "w_promise w < length (s_promises s)" using promise_inv_bound[OF inv a wa] .
      ultimately show ?thesis
        using p mem promise_inv_pending[OF inv, of i] by (cases "i = w_promise w") auto
    qed
  qed
qed

section \<open>Flushing\<close>

lemma table_inv_frame:
  assumes "s_streams t = s_streams s" "length (s_objs t) = length (s_objs s)"
    "\<And>a. a < length (s_objs s) \<Longrightarrow> st_id (obj t a) = st_id (obj s a)"
  shows "table_inv t = table_inv s"
  using assms by (fastforce simp: table_inv_def)

lemma evolves_queue:
  assumes "evolves s t" "a < length (s_objs s)"
  shows "queue_promises t a \<subseteq> queue_promises s a"
proof -
  have "obj t a = obj s a \<or> obj t a = torn (obj s a)" using assms by (simp add: evolves_def)
  then show ?thesis by (auto simp: queue_promises_def torn_def split: if_splits)
qed

text \<open>The state between \<open>sendFrame\<close> and the charge: \<open>piece\<close> is sent and not yet paid for.\<close>

definition sent_law :: "hsession \<Rightarrow> nat \<Rightarrow> pending_write \<Rightarrow> pending_write list \<Rightarrow> nat \<Rightarrow> bool" where
  "sent_law s a w ws chunk \<longleftrightarrow>
     chunk \<le> st_window (obj s a) \<and>
     st_window (obj s a) - chunk + length (outs a s) = s_initialWindow s + credit_in a s \<and>
     length (got a s) = credit_out a s + st_unacked (obj s a) \<and>
     st_unacked (obj s a) < max 1 (s_creditThreshold s) \<and>
     accepted a s = outs a s @ drop (w_offset w + chunk) (w_data w) @ pending_bytes ws \<and>
     (if st_closed (obj s a) then st_queue (obj s a) = [] \<and>
        w_promise w < length (s_promises s) \<and> s_promises s ! w_promise w \<noteq> None
      else st_queue (obj s a) = w # ws)"

lemma send_piece_ok:
  assumes ok: "session_ok s" and a: "a < length (s_objs s)"
  shows "ok_but a (send_piece a piece s)"
    and "evolves (log_obs (DataOut a piece) s) (send_piece a piece s)"
proof -
  define s0 where "s0 = log_obs (DataOut a piece) s"
  have "touches a s s0" by (simp add: touches_def s0_def)
  moreover have "promise_inv s0"
    by (rule promise_inv_same[OF session_okD(2)[OF ok]]) (simp_all add: s0_def)
  ultimately have b0: "ok_but a s0" using touches_ok_but a ok_ok_but[OF ok] by blast
  note t0 = ok_butD(1)[OF b0]
  show "ok_but a (send_piece a piece s)" "evolves (log_obs (DataOut a piece) s) (send_piece a piece s)"
    using evolves_ok_but[OF host.send_evolves[OF t0] host.send_ok[OF t0] b0] host.send_evolves[OF t0]
    by (simp_all add: send_piece_def s0_def)
qed

text \<open>A queued promise of an evolved state is settled as soon as its stream is torn down.\<close>

lemma evolves_settled:
  assumes ev: "evolves s t" and inv: "promise_inv s" and a: "a < length (s_objs s)"
    and i: "i \<in> queue_promises s a" and gone: "st_queue (obj t a) = []"
  shows "i < length (s_promises t) \<and> s_promises t ! i \<noteq> None"
proof -
  have l: "length (s_objs t) = length (s_objs s)" "length (s_promises t) = length (s_promises s)"
    and inv': "promise_inv t"
    using ev inv by (simp_all add: evolves_def)
  have "i \<notin> queue_promises t b" if b: "b < length (s_objs t)" for b
  proof (cases "b = a")
    case False
    have b': "b < length (s_objs s)" using b l by simp
    from promise_inv_disjoint[OF inv a b' _ i] False evolves_queue[OF ev b'] show ?thesis by auto
  qed (simp add: gone queue_promises_def)
  moreover have "i < length (s_promises s)" by (rule promise_inv_bound[OF inv a i])
  ultimately show ?thesis using promise_inv_pending[OF inv', of i] l by auto
qed

lemma send_piece_law:
  assumes ok: "session_ok s" and a: "a < length (s_objs s)" and q: "st_queue (obj s a) = w # ws"
    and chunk: "chunk = turn_chunk a s"
    and piece: "piece = take chunk (drop (w_offset w) (w_data w))"
  shows "sent_law (send_piece a piece s) a w ws chunk"
proof -
  let ?s0 = "log_obs (DataOut a piece) s" and ?s1 = "send_piece a piece s"
  have law: "stream_law s a" by (rule session_okD(4)[OF ok a])
  have op: "\<not> st_closed (obj s a)" using law q by (auto simp: stream_law_def)
  have lenp: "length piece = chunk" and wle: "chunk \<le> st_window (obj s a)"
    using q by (simp_all add: piece chunk turn_chunk_def Let_def)
  have split_w: "drop (w_offset w) (w_data w) = piece @ drop (w_offset w + chunk) (w_data w)"
    unfolding piece by (metis append_take_drop_id drop_drop add.commute)
  have ev: "evolves ?s0 ?s1" by (rule send_piece_ok(2)[OF ok a])
  have a0: "a < length (s_objs ?s0)" using a by simp
  have led: "outs a ?s1 = outs a s @ piece" "accepted a ?s1 = accepted a s" "got a ?s1 = got a s"
    "credit_in a ?s1 = credit_in a s" "credit_out a ?s1 = credit_out a s"
    "s_initialWindow ?s1 = s_initialWindow s" "s_creditThreshold ?s1 = s_creditThreshold s"
    using ev by (simp_all add: evolves_def same_ledgers_def)
  have o1: "obj ?s1 a = obj s a \<or> obj ?s1 a = torn (obj s a)"
    using ev a by (simp add: evolves_def)
  have p0: "promise_inv ?s0"
    by (rule promise_inv_same[OF session_okD(2)[OF ok]]) simp_all
  have wp: "w_promise w \<in> queue_promises ?s0 a" using q by (simp add: queue_promises_def)
  have "w_promise w < length (s_promises ?s1) \<and> s_promises ?s1 ! w_promise w \<noteq> None"
    if "st_queue (obj ?s1 a) = []"
    by (rule evolves_settled[OF ev p0 a0 wp that])
  moreover have "accepted a s = outs a s @ piece @ drop (w_offset w + chunk) (w_data w) @ pending_bytes ws"
    using law op q split_w by (simp add: stream_law_def)
  moreover have "st_window (obj s a) + length (outs a s) = s_initialWindow s + credit_in a s"
    "length (got a s) = credit_out a s + st_unacked (obj s a)"
    "st_unacked (obj s a) < max 1 (s_creditThreshold s)"
    using law by (simp_all add: stream_law_def)
  ultimately show ?thesis
    using o1 op led lenp wle q unfolding sent_law_def by (auto simp: torn_def)
qed

lemma charge_ok:
  assumes b: "ok_but a s" and a: "a < length (s_objs s)" and l: "sent_law s a w ws chunk"
  shows "session_ok (charge a w chunk s)"
proof -
  let ?t = "charge a w chunk s"
  have tch: "touches a s ?t" using a by (simp add: charge_def Let_def touches_def)
  have lawt: "stream_law ?t a"
  proof (cases "st_closed (obj s a)")
    case True
    with l a show ?thesis by (simp add: charge_def Let_def sent_law_def stream_law_def)
  next
    case False
    with l a show ?thesis by (simp add: charge_def Let_def sent_law_def stream_law_def)
  qed
  have prm: "promise_inv ?t"
  proof (cases "length (w_data w) \<le> w_offset w + chunk \<and> \<not> st_closed (obj s a)")
    case True
    then have q: "st_queue (obj s a) = w # ws" using l by (simp add: sent_law_def)
    have "w_promise w \<in> queue_promises s a" by (simp add: queue_promises_def q)
    then have bnd: "w_promise w < length (s_promises s)" and pd: "s_promises s ! w_promise w = None"
      using promise_inv_bound[OF ok_butD(2)[OF b] a] promise_inv_pending[OF ok_butD(2)[OF b]] a
      by blast+
    show ?thesis
      by (rule promise_inv_pop[OF ok_butD(2)[OF b] a q, of _ Resolved])
        (use a q pd True in \<open>simp_all add: charge_def Let_def settle_def set_obj_def\<close>)
  next
    case False
    show ?thesis
      by (rule promise_inv_same[OF ok_butD(2)[OF b]])
        (use a l False in \<open>auto simp: charge_def Let_def sent_law_def settle_def nth_list_update split: if_splits\<close>)
  qed
  show ?thesis
    using ok_but_law[OF touches_ok_but[OF tch a prm b] lawt] .
qed

lemma flush_turn_ok:
  assumes ok: "session_ok s" and a: "a < length (s_objs s)" and ne: "st_queue (obj s a) \<noteq> []"
  shows "session_ok (flush_turn a s)"
proof -
  obtain w ws where q: "st_queue (obj s a) = w # ws" using ne by (cases "st_queue (obj s a)") auto
  let ?p = "take (turn_chunk a s) (drop (w_offset w) (w_data w))"
  have "a < length (s_objs (send_piece a ?p s))"
    using a send_piece_ok(2)[OF ok a] by (simp add: evolves_def)
  then show ?thesis
    using charge_ok[OF send_piece_ok(1)[OF ok a] _ send_piece_law[OF ok a q refl refl]] q
    by (simp add: flush_turn_def Let_def)
qed

text \<open>Bytes left plus entries left: every turn lowers it when \<open>maxChunk\<close> is positive.\<close>

definition flush_size :: "nat \<Rightarrow> hsession \<Rightarrow> nat" where
  "flush_size a s = sum_list (map (\<lambda>w. Suc (length (w_data w) - w_offset w)) (st_queue (obj s a)))"

lemma charge_simps [simp]:
  "length (s_objs (charge a w chunk s)) = length (s_objs s)"
  "s_streams (charge a w chunk s) = s_streams s" "s_closed (charge a w chunk s) = s_closed s"
  "s_log (charge a w chunk s) = s_log s" "s_maxChunk (charge a w chunk s) = s_maxChunk s"
  "s_nextId (charge a w chunk s) = s_nextId s" "s_initialWindow (charge a w chunk s) = s_initialWindow s"
  "s_creditThreshold (charge a w chunk s) = s_creditThreshold s"
  "length (s_promises (charge a w chunk s)) = length (s_promises s)"
  by (simp_all add: charge_def Let_def)

lemma charge_obj:
  "a < length (s_objs s) \<Longrightarrow> obj (charge a w chunk s) b =
    (if b \<noteq> a then obj s b
     else (obj s a)\<lparr>st_window := st_window (obj s a) - chunk,
       st_queue := (if length (w_data w) \<le> w_offset w + chunk then tl (st_queue (obj s a))
         else case st_queue (obj s a) of [] \<Rightarrow> [] | _ # q \<Rightarrow> w\<lparr>w_offset := w_offset w + chunk\<rparr> # q)\<rparr>)"
  by (simp add: charge_def Let_def)

lemma flush_turn_objs:
  assumes "session_ok s" "a < length (s_objs s)"
  shows "length (s_objs (flush_turn a s)) = length (s_objs s)"
  using send_piece_ok(2)[OF assms] by (simp add: flush_turn_def Let_def evolves_def)

lemma flush_turn_less:
  assumes ok: "session_ok s" and a: "a < length (s_objs s)" and ne: "st_queue (obj s a) \<noteq> []"
    and win: "0 < st_window (obj s a)"
  shows "flush_size a (flush_turn a s) < flush_size a s"
proof -
  obtain w ws where q: "st_queue (obj s a) = w # ws" using ne by (cases "st_queue (obj s a)") auto
  define chunk where "chunk = turn_chunk a s"
  define s1 where "s1 = send_piece a (take chunk (drop (w_offset w) (w_data w))) s"
  have t: "flush_turn a s = charge a w chunk s1"
    using q by (simp add: flush_turn_def Let_def s1_def chunk_def)
  have a1: "a < length (s_objs s1)"
    using a send_piece_ok(2)[OF ok a] by (simp add: s1_def evolves_def)
  have q1: "st_queue (obj s1 a) = [] \<or> st_queue (obj s1 a) = w # ws"
    using send_piece_law[OF ok a q chunk_def refl] by (auto simp: s1_def sent_law_def split: if_splits)
  have "chunk = min (length (w_data w) - w_offset w) (min (st_window (obj s a)) (s_maxChunk s))"
    using q by (simp add: chunk_def turn_chunk_def Let_def)
  then have "w_offset w < length (w_data w) \<Longrightarrow> 0 < chunk"
    using win session_okD(3)[OF ok] by simp
  then show ?thesis
    using q1 q unfolding t flush_size_def charge_obj[OF a1] by auto
qed

text \<open>The loop returns, and what every turn keeps holds of its result.\<close>

lemma flush_rule:
  assumes "session_ok s" "a < length (s_objs s)" "P s"
    and turn: "\<And>u. session_ok u \<Longrightarrow> a < length (s_objs u) \<Longrightarrow> st_queue (obj u a) \<noteq> [] \<Longrightarrow>
      0 < st_window (obj u a) \<Longrightarrow> P u \<Longrightarrow> P (flush_turn a u)"
  shows "\<exists>t. flush a s = Some t \<and> session_ok t \<and> length (s_objs t) = length (s_objs s) \<and> drained t a \<and> P t"
  using assms(1-3)
proof (induction "flush_size a s" arbitrary: s rule: less_induct)
  case less
  show ?case
  proof (cases "st_queue (obj s a) \<noteq> [] \<and> 0 < st_window (obj s a)")
    case True
    let ?u = "flush_turn a s"
    have "flush a s = flush a ?u" using True by (subst flush.simps) simp
    moreover have "\<exists>t. flush a ?u = Some t \<and> session_ok t \<and> length (s_objs t) = length (s_objs ?u) \<and> drained t a \<and> P t"
      using True less.prems turn[of s] flush_turn_objs[OF less.prems(1,2)]
      by (intro less.hyps flush_turn_less flush_turn_ok) simp_all
    ultimately show ?thesis using flush_turn_objs[OF less.prems(1,2)] by simp
  next
    case False
    then show ?thesis
      using less.prems by (subst flush.simps) (auto simp: drained_def)
  qed
qed

end
