(* ===== verification/Stream_Run.thy ===== *)
theory Stream_Run
  imports Stream_Invariant
begin

text \<open>
  Every input of a stream session returns, keeps its invariant and only adds to its
  history. The state-machine interfaces are interpreted on \<^const>\<open>session_step\<close>, which
  lifts both laws to whole runs; the properties of the multiplexer follow.
\<close>

section \<open>History only grows\<close>

definition wire :: "hsession \<Rightarrow> (frame_type \<times> nat \<times> bytes) list" where
  "wire s = List.map_filter (\<lambda>e. case e of Sent t i p \<Rightarrow> Some (t, i, p) | _ \<Rightarrow> None) (s_log s)"

text \<open>
  What the streams gave out, piece by piece, and the data frames the transport really got.
  A step carries its pieces if the data frames it puts on the wire are these pieces, in order,
  under the ids of their streams; only a session that is closed may lose some, at the end.
\<close>

definition pieces :: "hsession \<Rightarrow> (nat \<times> bytes) list" where
  "pieces s = List.map_filter (\<lambda>e. case e of DataOut a p \<Rightarrow> Some (a, p) | _ \<Rightarrow> None) (s_log s)"

definition data_wire :: "hsession \<Rightarrow> (nat \<times> bytes) list" where
  "data_wire s = List.map_filter (\<lambda>e. case e of Sent t i p \<Rightarrow> if t = Data then Some (i, p) else None | _ \<Rightarrow> None) (s_log s)"

definition framed :: "hsession \<Rightarrow> (nat \<times> bytes) list \<Rightarrow> (nat \<times> bytes) list" where
  "framed s = map (\<lambda>(a, p). (st_id (obj s a), p))"

definition carries :: "hsession \<Rightarrow> hsession \<Rightarrow> bool" where
  "carries s t \<longleftrightarrow> (\<exists>np nd. pieces t = pieces s @ np \<and> data_wire t = data_wire s @ nd \<and>
     (\<forall>(a, p) \<in> set np. a < length (s_objs t)) \<and> (\<exists>lost. framed t np = nd @ lost) \<and>
     (\<not> s_closed t \<longrightarrow> framed t np = nd) \<and> (s_closed s \<longrightarrow> nd = [] \<and> s_closed t))"

lemma pieces_log [simp]: "pieces (log_obs e s) = pieces s @ (case e of DataOut a p \<Rightarrow> [(a, p)] | _ \<Rightarrow> [])"
  by (cases e) (simp_all add: pieces_def map_filter_def)

lemma data_wire_log [simp]:
  "data_wire (log_obs e s) = data_wire s @ (case e of Sent t i p \<Rightarrow> if t = Data then [(i, p)] else [] | _ \<Rightarrow> [])"
  by (cases e) (simp_all add: data_wire_def map_filter_def)

lemma same_log_carried: "s_log t = s_log s \<Longrightarrow> pieces t = pieces s \<and> data_wire t = data_wire s \<and> wire t = wire s"
  by (simp add: pieces_def data_wire_def wire_def)

lemma carries_quiet:
  "pieces t = pieces s \<Longrightarrow> data_wire t = data_wire s \<Longrightarrow> (s_closed s \<longrightarrow> s_closed t) \<Longrightarrow> carries s t"
  by (simp add: carries_def framed_def)

lemma carries_same_log: "s_log t = s_log s \<Longrightarrow> (s_closed s \<longrightarrow> s_closed t) \<Longrightarrow> carries s t"
  using same_log_carried[of t s] by (simp add: carries_quiet)

lemma framed_simps [simp]: "framed s [] = []" "framed s (x # xs) = (st_id (obj s (fst x)), snd x) # framed s xs"
  "framed s (xs @ ys) = framed s xs @ framed s ys"
  by (simp_all add: framed_def split: prod.splits)

lemma framed_cong:
  "(\<forall>(a, p) \<in> set ps. st_id (obj t a) = st_id (obj s a)) \<Longrightarrow> framed t ps = framed s ps"
  by (auto simp: framed_def)

definition grows :: "hsession \<Rightarrow> hsession \<Rightarrow> bool" where
  "grows s t \<longleftrightarrow>
     length (s_objs s) \<le> length (s_objs t) \<and>
     (\<forall>a < length (s_objs s). st_id (obj t a) = st_id (obj s a) \<and>
        (st_closed (obj s a) \<longrightarrow> st_closed (obj t a)) \<and>
        (st_send_closed (obj s a) \<longrightarrow> st_send_closed (obj t a))) \<and>
     length (s_promises s) \<le> length (s_promises t) \<and>
     (\<forall>i < length (s_promises s). s_promises s ! i \<noteq> None \<longrightarrow> s_promises t ! i = s_promises s ! i) \<and>
     (\<exists>new. s_log t = s_log s @ new) \<and>
     (s_closed s \<longrightarrow> s_closed t \<and> wire t = wire s) \<and> s_nextId s \<le> s_nextId t \<and>
     s_initialWindow t = s_initialWindow s \<and> s_creditThreshold t = s_creditThreshold s \<and> carries s t"

named_theorems grows_intro \<open>steps that only add to the history\<close>

lemma grows_refl [grows_intro]: "grows s s"
  by (simp add: grows_def carries_quiet)

lemma carries_trans:
  assumes "carries s t" "carries t u" "length (s_objs t) \<le> length (s_objs u)"
    and ids: "\<And>a. a < length (s_objs t) \<Longrightarrow> st_id (obj u a) = st_id (obj t a)"
  shows "carries s u"
proof -
  obtain p1 d1 lost where 1: "pieces t = pieces s @ p1" "data_wire t = data_wire s @ d1"
    "\<forall>(a, p) \<in> set p1. a < length (s_objs t)" "framed t p1 = d1 @ lost"
    "\<not> s_closed t \<longrightarrow> framed t p1 = d1" "s_closed s \<longrightarrow> d1 = [] \<and> s_closed t"
    using assms(1) unfolding carries_def by blast
  obtain p2 d2 lost' where 2: "pieces u = pieces t @ p2" "data_wire u = data_wire t @ d2"
    "\<forall>(a, p) \<in> set p2. a < length (s_objs u)" "framed u p2 = d2 @ lost'"
    "\<not> s_closed u \<longrightarrow> framed u p2 = d2" "s_closed t \<longrightarrow> d2 = [] \<and> s_closed u"
    using assms(2) unfolding carries_def by blast
  have f: "framed u p1 = framed t p1" using 1(3) ids by (intro framed_cong) auto
  have "\<exists>l. framed u (p1 @ p2) = (d1 @ d2) @ l" using f 1(4,5) 2(4,6) by (cases "s_closed t") auto
  moreover have "\<forall>(a, p) \<in> set (p1 @ p2). a < length (s_objs u)" using 1(3) 2(3) assms(3) by auto
  moreover have "\<not> s_closed u \<longrightarrow> framed u (p1 @ p2) = d1 @ d2" using f 1(5) 2(5,6) by auto
  ultimately show ?thesis unfolding carries_def using 1(1,2,6) 2(1,2,6) by (intro exI[of _ "p1 @ p2"] exI[of _ "d1 @ d2"]) auto
qed

lemma grows_trans [trans]:
  assumes "grows s t" "grows t u" shows "grows s u"
  unfolding grows_def
proof (intro conjI allI impI)
  fix i assume "i < length (s_promises s)" "s_promises s ! i \<noteq> None"
  then show "s_promises u ! i = s_promises s ! i"
    using assms unfolding grows_def by (metis order_less_le_trans)
next
  show "\<exists>new. s_log u = s_log s @ new"
    using assms unfolding grows_def by (metis append.assoc)
next
  show "carries s u"
    by (rule carries_trans[of s t]) (use assms in \<open>simp_all add: grows_def\<close>)
next
  fix a assume "a < length (s_objs s)"
  then have "a < length (s_objs t)" using assms(1) by (simp add: grows_def)
  with \<open>a < length (s_objs s)\<close> assms show "st_id (obj u a) = st_id (obj s a)"
    "st_closed (obj s a) \<Longrightarrow> st_closed (obj u a)" "st_send_closed (obj s a) \<Longrightarrow> st_send_closed (obj u a)"
    by (simp_all add: grows_def)
qed (use assms in \<open>auto simp: grows_def\<close>)

lemma grows_frame:
  assumes "s_objs t = s_objs s" "s_promises t = s_promises s" "s_log t = s_log s"
    "s_closed s \<longrightarrow> s_closed t" "s_nextId s \<le> s_nextId t"
    "s_initialWindow t = s_initialWindow s" "s_creditThreshold t = s_creditThreshold s"
  shows "grows s t"
  using assms same_log_carried[of t s] by (simp add: grows_def carries_quiet)

lemma grows_set_obj [grows_intro]:
  "st_id st = st_id (obj s a) \<Longrightarrow> (st_closed (obj s a) \<longrightarrow> st_closed st) \<Longrightarrow>
   (st_send_closed (obj s a) \<longrightarrow> st_send_closed st) \<Longrightarrow> grows s (set_obj a st s)"
  unfolding grows_def using same_log_carried[of "set_obj a st s" s]
  by (auto intro: carries_quiet) (metis nth_list_update_eq nth_list_update_neq)+

lemma wire_log [simp]:
  "wire (log_obs e s) = wire s @ (case e of Sent t i p \<Rightarrow> [(t, i, p)] | _ \<Rightarrow> [])"
  by (cases e) (simp_all add: wire_def map_filter_def)

lemma grows_log [grows_intro]:
  "(case e of Sent t _ _ \<Rightarrow> \<not> s_closed s \<and> t \<noteq> Data | DataOut _ _ \<Rightarrow> False | _ \<Rightarrow> True) \<Longrightarrow> grows s (log_obs e s)"
  by (cases e) (simp_all add: grows_def carries_quiet)

lemma grows_settle [grows_intro]: "grows s (settle v i s)"
proof -
  have "(s_promises s)[i := Some v] ! j = s_promises s ! j"
    if "s_promises s ! i = None" "s_promises s ! j = Some y" for j y
    using that by (cases "j = i") auto
  then show ?thesis using same_log_carried[of "settle v i s" s] by (auto simp: grows_def carries_quiet) (auto simp: settle_def)
qed

lemma grows_fold: "(\<And>x s. grows s (f x s)) \<Longrightarrow> grows s (fold f xs s)"
  by (induction xs arbitrary: s) (auto intro: grows_refl grows_trans)

lemma grows_teardown [grows_intro]: "grows s (teardown a err s)"
proof (cases "st_closed (obj s a)")
  case False
  let ?s1 = "set_obj a ((obj s a)\<lparr>st_closed := True\<rparr>) s"
  let ?s2 = "fold (\<lambda>w. settle (Rejected (case err of None \<Rightarrow> StreamClosedErr | Some e \<Rightarrow> e)) (w_promise w))
    (st_queue (obj s a)) ?s1"
  have "grows s ?s1" by (rule grows_set_obj) simp_all
  also have "grows ?s1 ?s2" by (rule grows_fold[OF grows_settle])
  also have "grows ?s2 (set_obj a ((obj ?s2 a)\<lparr>st_queue := []\<rparr>) ?s2)" by (rule grows_set_obj) simp_all
  also have "grows \<dots> (log_obs (StreamGone a err) \<dots>)" by (rule grows_log) simp
  finally show ?thesis using False by (simp add: teardown_def Let_def)
qed (simp add: teardown_def grows_refl)

lemma grows_close [grows_intro]: "grows s (close_with_err err s)"
proof (cases "s_closed s")
  case False
  let ?s1 = "s\<lparr>s_closed := True, s_pinging := False\<rparr>"
  let ?s2 = "fold (\<lambda>a. teardown a err) (map snd (s_streams ?s1)) ?s1"
  have "grows s ?s1" by (rule grows_frame) simp_all
  also have "grows ?s1 ?s2" by (rule grows_fold[OF grows_teardown])
  also have "grows ?s2 (?s2\<lparr>s_streams := []\<rparr>)" by (rule grows_frame) simp_all
  also have "grows \<dots> (log_obs TransportClosed \<dots>)" by (rule grows_log) simp
  also have "grows \<dots> (log_obs (SessionGone err) \<dots>)" by (rule grows_log) simp
  finally show ?thesis using False by (simp add: close_with_err_def Let_def)
qed (simp add: close_with_err_def grows_refl)

lemma grows_send [grows_intro]:
  assumes "t \<noteq> Data"
  shows "grows s (send_frame t i p s)"
proof (cases "s_closed s")
  case False
  let ?s1 = "s\<lparr>s_sends := Suc (s_sends s)\<rparr>"
  have "grows s ?s1" by (rule grows_frame) simp_all
  moreover have "grows ?s1 (log_obs (Sent t i p) ?s1)" by (rule grows_log) (simp add: False assms)
  moreover have "grows ?s1 (close_with_err (Some TransportErr) ?s1)" by (rule grows_close)
  ultimately show ?thesis using False by (auto simp: send_frame_def Let_def intro: grows_trans)
qed (simp add: send_frame_def grows_refl)

lemma grows_remove [grows_intro]: "grows s (remove_stream i s)"
  by (rule grows_frame) (simp_all add: remove_stream_def)

lemma grows_charge [grows_intro]: "grows s (charge a w chunk s)"
  unfolding charge_def Let_def
  by (auto intro!: grows_trans[OF grows_set_obj grows_settle] grows_set_obj)

text \<open>A piece is given out and put on the wire in one go; if that fails, the session closes.\<close>

lemma teardown_carried:
  "pieces (teardown a err s) = pieces s" "data_wire (teardown a err s) = data_wire s"
proof -
  have "pieces (fold (\<lambda>w. settle v (w_promise w)) ws t) = pieces t" for v t and ws :: "pending_write list"
    by (simp add: pieces_def)
  moreover have "data_wire (fold (\<lambda>w. settle v (w_promise w)) ws t) = data_wire t" for v t and ws :: "pending_write list"
    by (simp add: data_wire_def)
  moreover have "pieces (set_obj a st t) = pieces t" "data_wire (set_obj a st t) = data_wire t" for st t
    by (simp_all add: pieces_def data_wire_def)
  ultimately show "pieces (teardown a err s) = pieces s" "data_wire (teardown a err s) = data_wire s"
    by (simp_all add: teardown_def Let_def)
qed

lemma close_carried:
  "pieces (close_with_err err s) = pieces s" "data_wire (close_with_err err s) = data_wire s"
proof -
  have fold: "pieces (fold (\<lambda>a. teardown a err) as t) = pieces t" "data_wire (fold (\<lambda>a. teardown a err) as t) = data_wire t"
    for as t by (induction as arbitrary: t) (simp_all add: teardown_carried)
  have "pieces (t\<lparr>s_streams := x\<rparr>) = pieces t" "data_wire (t\<lparr>s_streams := x\<rparr>) = data_wire t"
    "pieces (t\<lparr>s_closed := c, s_pinging := d\<rparr>) = pieces t" "data_wire (t\<lparr>s_closed := c, s_pinging := d\<rparr>) = data_wire t"
    for t x c d by (simp_all add: pieces_def data_wire_def)
  then show "pieces (close_with_err err s) = pieces s" "data_wire (close_with_err err s) = data_wire s"
    by (simp_all add: close_with_err_def Let_def fold)
qed

lemma grows_piece:
  assumes a: "a < length (s_objs s)"
  shows "grows s (send_piece a p s)"
proof -
  let ?u = "(log_obs (DataOut a p) s)\<lparr>s_sends := Suc (s_sends s)\<rparr>" and ?i = "st_id (obj s a)"
  have log: "pieces ?u = pieces s @ [(a, p)]" "data_wire ?u = data_wire s" "wire ?u = wire s"
    using same_log_carried[of ?u "log_obs (DataOut a p) s"] by simp_all
  consider "s_closed s" | "\<not> s_closed s" "s_link s (s_sends s)" | "\<not> s_closed s" "\<not> s_link s (s_sends s)" by blast
  then show ?thesis
  proof cases
    case 1
    have "carries s (log_obs (DataOut a p) s)"
      unfolding carries_def using a 1 by (intro exI[of _ "[(a, p)]"] exI[of _ "[]"]) simp
    with 1 show ?thesis by (simp add: send_piece_def send_frame_def grows_def)
  next
    case 2
    have "carries s (log_obs (Sent Data ?i p) ?u)"
      unfolding carries_def using a 2 log by (intro exI[of _ "[(a, p)]"] exI[of _ "[(?i, p)]"]) simp
    with 2 show ?thesis by (simp add: send_piece_def send_frame_def Let_def grows_def)
  next
    case 3
    let ?t = "close_with_err (Some TransportErr) ?u"
    have g: "grows ?u ?t" by (rule grows_close)
    have "carries s ?t"
      unfolding carries_def using a 3 log g
      by (intro exI[of _ "[(a, p)]"] exI[of _ "[]"]) (simp add: close_carried grows_def)
    with g 3 have "grows s ?t" by (auto simp: grows_def)
    with 3 show ?thesis by (simp add: send_piece_def send_frame_def Let_def)
  qed
qed

lemma grows_flush_turn: "a < length (s_objs s) \<Longrightarrow> grows s (flush_turn a s)"
  unfolding flush_turn_def Let_def by (rule grows_trans[OF grows_piece grows_charge])

lemma flush_returns:
  assumes ok: "session_ok s" and a: "a < length (s_objs s)"
    and dr: "\<And>b. b < length (s_objs s) \<Longrightarrow> b \<noteq> a \<Longrightarrow> drained s b"
  shows "\<exists>t. flush a s = Some t \<and> session_inv t \<and> grows s t"
proof -
  let ?P = "\<lambda>u. grows s u \<and> length (s_objs u) = length (s_objs s) \<and>
    (\<forall>b < length (s_objs s). b \<noteq> a \<longrightarrow> drained u b)"
  have "\<exists>t. flush a s = Some t \<and> session_ok t \<and> length (s_objs t) = length (s_objs s) \<and> drained t a \<and> ?P t"
  proof (rule flush_rule[OF ok a])
    show "?P s" using dr by (simp add: grows_refl)
    fix u assume u: "session_ok u" "a < length (s_objs u)" and P: "?P u"
    let ?p = "take (turn_chunk a u) (drop (w_offset (hd (st_queue (obj u a)))) (w_data (hd (st_queue (obj u a)))))"
    have ev: "evolves (log_obs (DataOut a ?p) u) (send_piece a ?p u)"
      by (rule send_piece_ok(2)[OF u])
    have "drained (flush_turn a u) b" if "b < length (s_objs s)" "b \<noteq> a" for b
    proof -
      have "drained (log_obs (DataOut a ?p) u) b" using P that by (simp add: drained_def)
      then have "drained (send_piece a ?p u) b"
        using evolves_drained[OF ev] P that by simp
      moreover have "a < length (s_objs (send_piece a ?p u))" using ev u(2) by (simp add: evolves_def)
      ultimately show ?thesis
        using that by (simp add: flush_turn_def Let_def drained_def charge_obj)
    qed
    then show "?P (flush_turn a u)"
      using P flush_turn_objs[OF u] grows_trans[OF _ grows_flush_turn[OF u(2)]] by auto
  qed
  then obtain t where t: "flush a s = Some t" "session_ok t" "length (s_objs t) = length (s_objs s)"
    "drained t a" "?P t" by blast
  then have "drained t b" if "b < length (s_objs t)" for b
    using that by (cases "b = a") simp_all
  then show ?thesis using t unfolding session_inv_def by blast
qed

section \<open>Every input\<close>

lemma session_invD:
  assumes "session_inv s"
  shows "session_ok s" "\<And>a. a < length (s_objs s) \<Longrightarrow> drained s a" "table_inv s"
  using assms session_okD(1) by (simp_all add: session_inv_def)

text \<open>Inputs that stay within what a host may do to streams.\<close>

lemma inv_send: "session_inv s \<Longrightarrow> session_inv (send_frame t i p s)"
  by (intro evolves_inv[OF host.send_evolves host.send_ok]) (simp_all add: session_invD)

lemma inv_log: "neutral e \<Longrightarrow> session_inv s \<Longrightarrow> session_inv (log_obs e s)"
  by (rule evolves_inv[OF evolves_log]) (use session_invD(3) in \<open>simp_all add: table_inv_def\<close>)

lemma inv_close: "session_inv s \<Longrightarrow> session_inv (close_with_err err s)"
  by (intro evolves_inv[OF close_with_err_evolves close_with_err_table_inv]) (simp_all add: session_invD)

lemma table_inv_teardown:
  "table_inv s \<Longrightarrow> a < length (s_objs s) \<Longrightarrow> table_inv (teardown a err s)"
  by (subst table_inv_frame[of _ s]) (simp_all add: teardown_obj nth_list_update)

lemma inv_teardown:
  "session_inv s \<Longrightarrow> a < length (s_objs s) \<Longrightarrow> session_inv (teardown a err s)"
  by (rule evolves_inv[OF teardown_evolves table_inv_teardown]) (simp_all add: session_invD)

lemma inv_remove: "session_inv s \<Longrightarrow> session_inv (remove_stream i s)"
proof -
  assume inv: "session_inv s"
  have "table_inv (remove_stream i s)"
    using session_invD(3)[OF inv] by (auto simp: table_inv_def remove_stream_def AList.delete_eq)
  moreover have "evolves s (remove_stream i s)"
    by (rule evolves_frame) (simp_all add: remove_stream_def same_ledgers_log)
  ultimately show ?thesis using inv evolves_inv by blast
qed

text \<open>Inputs that change one stream.\<close>

lemma inv_touches:
  assumes inv: "session_inv s" and a: "a < length (s_objs s)" and t: "touches a s t"
    and p: "s_promises t = s_promises s" and q: "st_queue (obj t a) = st_queue (obj s a)"
    and w: "st_window (obj t a) = st_window (obj s a)" and l: "stream_law t a"
  shows "session_inv t"
proof -
  have ok: "session_ok s" by (rule session_invD(1)[OF inv])
  have l: "length (s_objs t) = length (s_objs s)" and other: "\<And>b. b \<noteq> a \<Longrightarrow> obj t b = obj s b"
    using t by (simp_all add: touches_def)
  have pi: "promise_inv t"
  proof (rule promise_inv_same[OF session_okD(2)[OF ok] l p])
    show "map w_promise (st_queue (obj t b)) = map w_promise (st_queue (obj s b))" for b
      using other q by (cases "b = a") simp_all
  qed
  have "session_ok t"
    by (rule ok_but_law[OF touches_ok_but[OF t a pi ok_ok_but[OF ok]] assms(7)])
  moreover have "drained t b" if "b < length (s_objs t)" for b
    using session_invD(2)[OF inv] that l other q w by (cases "b = a") (simp_all add: drained_def)
  ultimately show ?thesis by (simp add: session_inv_def)
qed

lemma inv_end: "session_inv s \<Longrightarrow> a < length (s_objs s) \<Longrightarrow> session_inv (stream_end a s)"
proof -
  assume inv: "session_inv s" and a: "a < length (s_objs s)"
  have "session_inv (set_obj a ((obj s a)\<lparr>st_send_closed := True\<rparr>) s)"
    by (rule inv_touches[OF inv a])
      (use a session_okD(4)[OF session_invD(1)[OF inv] a] in \<open>simp_all add: touches_def stream_law_def\<close>)
  with inv show ?thesis by (simp add: stream_end_def Let_def inv_send)
qed

lemma inv_on_data:
  assumes inv: "session_inv s" and a: "a < length (s_objs s)"
  shows "session_inv (on_data a payload s)"
proof (cases "st_closed (obj s a)")
  case False
  note law = session_okD(4)[OF session_invD(1)[OF inv] a]
  let ?s1 = "log_obs (GotData a payload) s" and ?n = "st_unacked (obj s a) + length payload"
  have keep: "session_inv (set_obj a ((obj s a)\<lparr>st_unacked := ?n\<rparr>) ?s1)" if "?n < s_creditThreshold s"
    by (rule inv_touches[OF inv a])
      (use that a law in \<open>simp_all add: touches_def stream_law_def\<close>)
  have grant: "session_inv (log_obs (CreditOut a ?n) (set_obj a ((obj s a)\<lparr>st_unacked := 0\<rparr>) ?s1))"
    by (rule inv_touches[OF inv a])
      (use a law in \<open>simp_all add: touches_def stream_law_def\<close>)
  show ?thesis using False keep grant by (simp add: on_data_def Let_def inv_send not_le)
qed (simp add: on_data_def inv)

lemma credited_ok:
  assumes ok: "session_ok s" and a: "a < length (s_objs s)"
  shows "session_ok (set_obj a ((obj s a)\<lparr>st_window := st_window (obj s a) + n\<rparr>) (log_obs (CreditIn a n) s))"
    (is "session_ok ?t")
proof -
  have tch: "touches a s ?t" using a by (simp add: touches_def)
  have pi: "promise_inv ?t"
    by (rule promise_inv_same[OF session_okD(2)[OF ok]]) (use a in \<open>auto simp: nth_list_update\<close>)
  have law: "stream_law ?t a"
    using session_okD(4)[OF ok a] a by (auto simp: stream_law_def split: if_splits)
  show ?thesis
    by (rule ok_but_law[OF touches_ok_but[OF tch a pi ok_ok_but[OF ok]] law])
qed

lemma on_credit_returns:
  assumes inv: "session_inv s" and a: "a < length (s_objs s)"
  shows "\<exists>t. on_credit a n s = Some t \<and> session_inv t \<and> grows s t"
proof -
  let ?t = "set_obj a ((obj s a)\<lparr>st_window := st_window (obj s a) + n\<rparr>) (log_obs (CreditIn a n) s)"
  note credited_ok[OF session_invD(1)[OF inv] a, of n]
  moreover have "drained ?t b" if "b < length (s_objs ?t)" "b \<noteq> a" for b
    using session_invD(2)[OF inv, of b] that by (simp add: drained_def)
  moreover have "grows s ?t"
    by (rule grows_trans[OF grows_log[of _ "CreditIn a n"] grows_set_obj]) simp_all
  ultimately show ?thesis
    using flush_returns[of ?t a] a unfolding on_credit_def by (auto intro: grows_trans)
qed

lemma rejected_inv:
  assumes inv: "session_inv s"
  shows "session_inv (s\<lparr>s_promises := s_promises s @ [Some v]\<rparr>)" (is "session_inv ?r")
    and "grows s (s\<lparr>s_promises := s_promises s @ [Some v]\<rparr>)"
proof -
  have qp: "queue_promises ?r b = queue_promises s b" for b by (simp add: queue_promises_def)
  note pi = session_okD(2)[OF session_invD(1)[OF inv]]
  have "promise_inv ?r"
  proof (rule promise_invI)
    fix i assume i: "i < length (s_promises ?r)"
    have "length (s_promises s) \<notin> queue_promises s b" if "b < length (s_objs s)" for b
      using promise_inv_bound[OF pi that] by blast
    then show "s_promises ?r ! i = None \<longleftrightarrow> (\<exists>b < length (s_objs ?r). i \<in> queue_promises ?r b)"
      using i promise_inv_pending[OF pi, of i] qp by (auto simp: nth_append less_Suc_eq)
  qed (use pi qp in \<open>auto simp: promise_inv_distinct less_Suc_eq
         dest: promise_inv_disjoint promise_inv_bound\<close>)
  moreover have "stream_law ?r b = stream_law s b" "blank ?r b = blank s b" "drained ?r b = drained s b" for b
    by (simp_all add: stream_law_def blank_def drained_def ledger_defs)
  ultimately show "session_inv ?r" "grows s ?r"
    using inv by (simp_all add: session_inv_def session_ok_def table_inv_def grows_def wire_def nth_append carries_same_log)
qed

lemma queued_ok:
  fixes s a data
  defines "t \<equiv> set_obj a ((obj s a)\<lparr>st_queue := st_queue (obj s a) @
      [\<lparr>w_data = data, w_offset = 0, w_promise = length (s_promises s)\<rparr>]\<rparr>)
    (log_obs (Accepted a data) (s\<lparr>s_promises := s_promises s @ [None]\<rparr>))"
  assumes ok: "session_ok s" and a: "a < length (s_objs s)" and op: "\<not> st_closed (obj s a)"
  shows "session_ok t"
proof -
  have "touches a s t" using a by (simp add: t_def touches_def ledger_defs)
  moreover have "promise_inv t"
    by (rule promise_inv_push[OF session_okD(2)[OF ok] a]) (use a in \<open>simp_all add: t_def\<close>)
  moreover have "stream_law t a"
    using session_okD(4)[OF ok a] a op by (simp add: t_def stream_law_def ledger_defs)
  ultimately show ?thesis using ok_but_law touches_ok_but[OF _ a] ok_ok_but[OF ok] by blast
qed

lemma stream_write_returns:
  assumes inv: "session_inv s" and a: "a < length (s_objs s)"
  shows "\<exists>t. stream_write a data s = Some t \<and> session_inv t \<and> grows s t"
proof -
  let ?w = "\<lparr>w_data = data, w_offset = 0, w_promise = length (s_promises s)\<rparr>"
  let ?t = "set_obj a ((obj s a)\<lparr>st_queue := st_queue (obj s a) @ [?w]\<rparr>)
    (log_obs (Accepted a data) (s\<lparr>s_promises := s_promises s @ [None]\<rparr>))"
  have "grows s (s\<lparr>s_promises := s_promises s @ [None]\<rparr>)"
    by (simp add: grows_def wire_def nth_append carries_same_log)
  then have "grows s ?t"
    by (rule grows_trans[OF _ grows_trans[OF grows_log[of _ "Accepted a data"] grows_set_obj]]) simp_all
  moreover have "drained ?t b" if "b < length (s_objs ?t)" "b \<noteq> a" for b
    using session_invD(2)[OF inv, of b] that by (simp add: drained_def)
  moreover have "session_ok ?t" if "\<not> st_closed (obj s a)"
    by (rule queued_ok[OF session_invD(1)[OF inv] a that])
  ultimately show ?thesis
    using rejected_inv[OF inv] flush_returns[of ?t a] a unfolding stream_write_def Let_def
    by (auto intro: grows_trans)
qed

text \<open>A new stream, opened locally (\<open>n\<close> is then the next id) or by the peer.\<close>

lemma inv_add:
  fixes s i m n
  defines "t \<equiv> s\<lparr>s_nextId := n, s_objs := s_objs s @ [new_hstream i m (s_initialWindow s)],
    s_streams := map_set i (length (s_objs s)) (s_streams s)\<rparr>"
  assumes inv: "session_inv s"
  shows "session_inv t" and "s_nextId s \<le> n \<Longrightarrow> grows s t"
proof -
  note ok = session_invD(1)[OF inv] and table = session_invD(3)[OF inv]
  have led: "outs a t = outs a s" "accepted a t = accepted a s" "got a t = got a s"
    "credit_in a t = credit_in a s" "credit_out a t = credit_out a s" for a
    by (simp_all add: t_def ledger_defs)
  have old: "obj t a = obj s a" if "a < length (s_objs s)" for a
    using that by (simp add: t_def nth_append)
  have new: "obj t (length (s_objs s)) = new_hstream i m (s_initialWindow s)" by (simp add: t_def)
  have len: "length (s_objs t) = Suc (length (s_objs s))" by (simp add: t_def)
  have tab: "table_inv t"
    unfolding table_inv_def
  proof (intro conjI ballI)
    show "map_ok (s_streams t)" using table by (simp add: t_def table_inv_def)
    fix e assume "e \<in> set (s_streams t)"
    then consider "e = (i, length (s_objs s))" | "e \<in> set (s_streams s)"
      using table by (auto simp: t_def table_inv_def set_map_set)
    then show "case e of (i, a) \<Rightarrow> a < length (s_objs t) \<and> st_id (obj t a) = i"
    proof cases
      case 2
      with table old len show ?thesis by (fastforce simp: table_inv_def)
    qed (simp add: len new new_hstream_def)
  qed
  have qp: "queue_promises t a = queue_promises s a" if "a < length (s_objs s)" for a
    using old[OF that] by (simp add: queue_promises_def)
  have qp0: "queue_promises t (length (s_objs s)) = {}"
    by (simp add: queue_promises_def new new_hstream_def)
  note pi = session_okD(2)[OF ok]
  have prm: "promise_inv t"
  proof (rule promise_invI)
    show "distinct (map w_promise (st_queue (obj t a)))" if "a < length (s_objs t)" for a
      using that len old promise_inv_distinct[OF pi] by (cases "a = length (s_objs s)") (auto simp: new new_hstream_def)
    show "k \<notin> queue_promises t b"
      if "a < length (s_objs t)" "b < length (s_objs t)" "a \<noteq> b" "k \<in> queue_promises t a" for a b k
    proof (cases "a = length (s_objs s) \<or> b = length (s_objs s)")
      case False
      then have "a < length (s_objs s)" "b < length (s_objs s)" using that(1,2) len by simp_all
      with that(3,4) qp promise_inv_disjoint[OF pi] show ?thesis by metis
    qed (use that(4) qp0 in auto)
    show "k < length (s_promises t)" if "a < length (s_objs t)" "k \<in> queue_promises t a" for a k
    proof (cases "a = length (s_objs s)")
      case False
      then have "a < length (s_objs s)" using that(1) len by simp
      with that(2) qp promise_inv_bound[OF pi] show ?thesis by (simp add: t_def)
    qed (use that(2) qp0 in auto)
    show "s_promises t ! k = None \<longleftrightarrow> (\<exists>a < length (s_objs t). k \<in> queue_promises t a)"
      if "k < length (s_promises t)" for k
    proof -
      have "s_promises t = s_promises s" by (simp add: t_def)
      then show ?thesis
        using that promise_inv_pending[OF pi, of k] qp qp0 unfolding len
        by (metis empty_iff less_Suc_eq)
    qed
  qed
  have blank0: "blank s (length (s_objs s))" using session_okD(5)[OF ok] by simp
  have cfg: "s_initialWindow t = s_initialWindow s" "s_creditThreshold t = s_creditThreshold s"
    "s_maxChunk t = s_maxChunk s" by (simp_all add: t_def)
  have "stream_law t a" if a: "a < length (s_objs t)" for a
  proof (cases "a = length (s_objs s)")
    case True
    with blank0 show ?thesis
      by (simp add: stream_law_def blank_def led new new_hstream_def cfg)
  next
    case False
    with a len have "a < length (s_objs s)" by simp
    with session_okD(4)[OF ok this] old show ?thesis by (simp add: stream_law_def led cfg)
  qed
  moreover have "blank t a" if "length (s_objs t) \<le> a" for a
    using session_okD(5)[OF ok, of a] that len by (simp add: blank_def led)
  moreover have "drained t a" if a: "a < length (s_objs t)" for a
  proof (cases "a = length (s_objs s)")
    case False
    with a len have "a < length (s_objs s)" by simp
    with session_invD(2)[OF inv this] old show ?thesis by (simp add: drained_def)
  qed (simp add: drained_def new new_hstream_def)
  ultimately show "session_inv t"
    using tab prm session_okD(3)[OF ok] cfg by (simp add: session_inv_def session_ok_def)
  show "grows s t" if "s_nextId s \<le> n"
    using that len old carries_same_log[of t s] by (simp add: grows_def) (simp add: t_def wire_def)
qed

lemma inv_add_peer:
  "session_inv s \<Longrightarrow>
   session_inv (s\<lparr>s_objs := s_objs s @ [new_hstream i m (s_initialWindow s)],
     s_streams := map_set i (length (s_objs s)) (s_streams s)\<rparr>) \<and>
   grows s (s\<lparr>s_objs := s_objs s @ [new_hstream i m (s_initialWindow s)],
     s_streams := map_set i (length (s_objs s)) (s_streams s)\<rparr>)"
  using inv_add[where s = s and n = "s_nextId s" and i = i and m = m] by simp

lemma table_target: "table_inv s \<Longrightarrow> map_of (s_streams s) i = Some a \<Longrightarrow> a < length (s_objs s)"
  by (auto simp: table_inv_def dest!: map_of_SomeD)

lemma grows_on_data [grows_intro]: "grows s (on_data a p s)"
proof -
  let ?n = "st_unacked (obj s a) + length p"
  have 1: "grows s (log_obs (GotData a p) s)" by (rule grows_log) simp
  have 2: "grows s (set_obj a ((obj s a)\<lparr>st_unacked := k\<rparr>) (log_obs (GotData a p) s))" for k
    by (rule grows_trans[OF 1 grows_set_obj]) simp_all
  have 3: "grows s (log_obs (CreditOut a ?n) (set_obj a ((obj s a)\<lparr>st_unacked := k\<rparr>) (log_obs (GotData a p) s)))" for k
    by (rule grows_trans[OF 2 grows_log]) simp
  show ?thesis
    using 2 grows_trans[OF 3 grows_send] by (simp add: on_data_def Let_def grows_refl)
qed

lemma grows_end [grows_intro]: "grows s (stream_end a s)"
  unfolding stream_end_def Let_def
  by (auto intro!: grows_trans[OF grows_set_obj grows_send] grows_refl)

text \<open>A step keeps the invariant and returns.\<close>

lemma dispatch_returns:
  assumes inv: "session_inv s"
  shows "\<exists>t. dispatch data s = Some t \<and> session_inv t \<and> grows s t"
proof (cases "decode_frame data")
  case (Some f)
  let ?i = "unat (f_stream f)" and ?p = "f_payload f"
  have target: "a < length (s_objs s)" if "map_of (s_streams s) ?i = Some a" for a
    by (rule table_target[OF session_invD(3)[OF inv] that])
  have open_case: "session_inv (log_obs (GotStream a) u) \<and> grows s (log_obs (GotStream a) u)"
    if "session_inv u \<and> grows s u" for a u
    using that inv_log[of "GotStream a" u] grows_trans[OF _ grows_log[of u "GotStream a"]]
    by (simp add: neutral_def)
  show ?thesis
  proof (cases "of_opcode (f_type f)")
    case None
    with Some inv show ?thesis by (simp add: dispatch_def Let_def grows_refl)
  next
    case t: (Some t)
    have log: "session_inv (log_obs e s) \<and> grows s (log_obs e s)" if "e = GotEnd a \<or> e = GotSignal a q" for e a q
      using that inv_log[OF _ inv, of e] grows_log[of s e] by (auto simp: neutral_def)
    show ?thesis
    proof (cases t)
      case Open
      show ?thesis
        using open_case[OF inv_add_peer[OF inv, of ?i ?p]] Some t Open by (simp add: dispatch_def Let_def)
    next
      case Reset
      then show ?thesis
        using Some t inv target grows_trans[OF grows_teardown grows_remove]
        by (auto simp: dispatch_def Let_def grows_refl inv_remove inv_teardown split: option.splits)
    next
      case Credit
      then show ?thesis
        using Some t inv target on_credit_returns[OF inv]
        by (auto simp: dispatch_def Let_def grows_refl split: option.splits)
    qed (use Some t inv target log in \<open>auto simp: dispatch_def Let_def on_end_def on_signal_def
           grows_refl grows_send grows_on_data inv_send inv_on_data split: option.splits\<close>)
  qed
qed (use inv in \<open>simp add: dispatch_def grows_refl\<close>)

lemma open_stream_inv:
  assumes inv: "session_inv s"
  shows "open_stream m s = Inr (a, t) \<Longrightarrow> session_inv t \<and> grows s t"
  using inv_add[OF inv, where n = "s_nextId s + 2" and i = "s_nextId s"] inv_send grows_trans[OF _ grows_send]
  by (auto simp: open_stream_def Let_def split: if_splits)

lemma stream_close_inv:
  assumes inv: "session_inv s" and a: "a < length (s_objs s)"
  shows "session_inv (stream_close a s)" "session_inv (stream_reset a r s)"
    "grows s (stream_close a s)" "grows s (stream_reset a r s)"
proof -
  have "a < length (s_objs (stream_end a s))" using grows_end[of s a] a by (simp add: grows_def)
  then show "session_inv (stream_close a s)"
    unfolding stream_close_def using inv_end[OF inv a] by (intro inv_remove inv_teardown)
  have "a < length (s_objs (send_frame Reset i p s))" for i p
    using grows_send[where s = s and t = Reset and i = i and p = p] a by (simp add: grows_def)
  then show "session_inv (stream_reset a r s)"
    unfolding stream_reset_def Let_def using inv a by (auto intro!: inv_remove inv_teardown inv_send)
  show "grows s (stream_close a s)" unfolding stream_close_def
    by (rule grows_trans[OF grows_trans[OF grows_end grows_teardown] grows_remove])
  show "grows s (stream_reset a r s)" unfolding stream_reset_def Let_def
    by (auto intro!: grows_trans[OF grows_trans[OF grows_send grows_teardown] grows_remove]
        grows_trans[OF grows_teardown grows_remove])
qed

lemma session_step_ok:
  assumes inv: "session_inv s"
  shows "\<exists>t. session_step i s = Some t \<and> session_inv t \<and> grows s t"
proof (cases i)
  case (IOpen m)
  then show ?thesis
    using open_stream_inv[OF inv] inv by (auto simp: grows_refl split: sum.splits)
qed (use inv in \<open>auto simp: grows_refl stream_write_returns inv_end grows_end stream_close_inv
       stream_signal_def inv_send grows_send dispatch_returns inv_close grows_close ping_tick_def\<close>)

interpretation session: total_machine session_step session_inv
  using session_step_ok by unfold_locales (metis option.inject)+

lemma session_grows:
  "session_inv s \<Longrightarrow> run_steps session_step is s = Some t \<Longrightarrow> grows s t"
proof (rule session.run_relates[of grows])
  show "grows s s'" if "session_inv s" "session_step i s = Some s'" for i s s'
    using session_step_ok[OF that(1), of i] that(2) by auto
qed (auto intro: grows_refl grows_trans)

text \<open>The data frames with an id, and what the ledger of a stream says of its pieces.\<close>

definition wire_bytes :: "nat \<Rightarrow> hsession \<Rightarrow> bytes" where
  "wire_bytes i s = concat (map snd (filter (\<lambda>f. fst f = i) (data_wire s)))"

lemma outs_pieces: "outs a s = concat (map snd (filter (\<lambda>f. fst f = a) (pieces s)))"
proof -
  have "concat (map (\<lambda>e. case e of DataOut b p \<Rightarrow> if b = a then p else [] | _ \<Rightarrow> []) es) =
    concat (map snd (filter (\<lambda>f. fst f = a) (List.map_filter (\<lambda>e. case e of DataOut a p \<Rightarrow> Some (a, p) | _ \<Rightarrow> None) es)))" for es
    by (induction es) (simp_all add: map_filter_def split: obs.splits)
  then show ?thesis by (simp add: outs_def pieces_def)
qed

definition own_id :: "hsession \<Rightarrow> nat \<Rightarrow> bool" where
  "own_id s a \<longleftrightarrow> (\<forall>b < length (s_objs s). st_id (obj s b) = st_id (obj s a) \<longrightarrow> b = a)"

lemma framed_own:
  "own_id s a \<Longrightarrow> \<forall>(b, p) \<in> set ps. b < length (s_objs s) \<Longrightarrow>
   concat (map snd (filter (\<lambda>f. fst f = st_id (obj s a)) (framed s ps))) = concat (map snd (filter (\<lambda>f. fst f = a) ps))"
  by (induction ps) (auto simp: own_id_def)

lemma carried_bytes:
  assumes "pieces s = []" "data_wire s = []" "carries s t" "own_id t a"
  shows "\<exists>lost. outs a t = wire_bytes (st_id (obj t a)) t @ lost \<and> (\<not> s_closed t \<longrightarrow> lost = [])"
proof -
  obtain lost where c: "\<forall>(b, p) \<in> set (pieces t). b < length (s_objs t)"
    "framed t (pieces t) = data_wire t @ lost" "\<not> s_closed t \<longrightarrow> lost = []"
    using assms(1-3) unfolding carries_def by auto
  have "outs a t = wire_bytes (st_id (obj t a)) t @ concat (map snd (filter (\<lambda>f. fst f = st_id (obj t a)) lost))"
    using framed_own[OF assms(4) c(1)] c(2) by (simp add: outs_pieces wire_bytes_def)
  with c(3) show ?thesis by auto
qed

lemma new_session_inv:
  assumes "o_maxChunk opts \<noteq> Some 0"
  shows "session_inv (new_session opts link)"
  using assms
  by (auto simp: session_inv_def session_ok_def new_session_def Let_def table_inv_def promise_inv_def
      blank_def ledger_defs DEFAULT_MAX_CHUNK_BYTES_def split: option.splits)

end
