(* ===== verification/Stream_Properties.thy ===== *)
theory Stream_Properties
  imports Stream_Run
begin

text \<open>
  The properties of the wire format and of the multiplexer. A session is what any list of
  inputs makes of a new one: \<open>reaches opts link is s\<close>. Every law below comes from the
  interpretations of \<open>Stream_Frame\<close> and \<open>Stream_Run\<close>.
\<close>

definition reaches :: "session_options \<Rightarrow> (nat \<Rightarrow> bool) \<Rightarrow> session_input list \<Rightarrow> hsession \<Rightarrow> bool" where
  "reaches opts link is s \<longleftrightarrow>
     o_maxChunk opts \<noteq> Some 0 \<and> run_steps session_step is (new_session opts link) = Some s"

lemma reaches_inv: "reaches opts link is s \<Longrightarrow> session_inv s"
  unfolding reaches_def using session.run_inv new_session_inv by blast

lemma reaches_law: "reaches opts link is s \<Longrightarrow> a < length (s_objs s) \<Longrightarrow> stream_law s a"
  using reaches_inv session_invD(1) session_okD(4) by blast

text \<open>The bytes of a stream on the wire, and the settings a session keeps from its constructor.\<close>

lemma reaches_grows: "reaches opts link is s \<Longrightarrow> grows (new_session opts link) s"
  unfolding reaches_def using session_grows new_session_inv by blast

lemma reaches_wire:
  "reaches opts link is s \<Longrightarrow> own_id s a \<Longrightarrow>
   \<exists>lost. outs a s = wire_bytes (st_id (obj s a)) s @ lost \<and> (\<not> s_closed s \<longrightarrow> lost = [])"
  by (rule carried_bytes[of "new_session opts link"])
    (use reaches_grows in \<open>auto simp: pieces_def data_wire_def new_session_def Let_def map_filter_def grows_def\<close>)

lemma reaches_threshold: "reaches opts link is s \<Longrightarrow> s_creditThreshold s = s_initialWindow s div 2"
  using reaches_grows[of opts link "is" s] by (simp add: grows_def new_session_def Let_def)

text \<open>A concrete run the witnesses share: a client with a window of 4 bytes writes 6 of
  them, gets credit for 2 more, receives 3 bytes, and closes.\<close>

definition demo_opts :: session_options where
  "demo_opts = \<lparr>o_client = True, o_initialWindow = Some 4, o_maxChunk = Some 3, o_pingIntervalMs = Some 0\<rparr>"

definition demo_inputs :: "session_input list" where
  "demo_inputs = [IOpen None, IWrite 0 [1, 2, 3, 4, 5, 6],
     IReceive (encode_frame Credit 1 (encode_credit 2)), IReceive (encode_frame Data 1 [7, 8, 9])]"

definition demo :: hsession where
  "demo = the (run_steps session_step demo_inputs (new_session demo_opts (\<lambda>_. True)))"

lemma demo_run: "reaches demo_opts (\<lambda>_. True) demo_inputs demo"
proof -
  have "session_inv (new_session demo_opts (\<lambda>_. True))"
    by (rule new_session_inv) (simp add: demo_opts_def)
  then obtain t where "run_steps session_step demo_inputs (new_session demo_opts (\<lambda>_. True)) = Some t"
    using session.run_total by blast
  then show ?thesis by (simp add: reaches_def demo_def demo_opts_def)
qed

declare flush.simps [code]

lemma demo_facts:
  "length (s_objs demo) = 1" "outs 0 demo = [1, 2, 3, 4, 5, 6]" "s_closed demo = False"
  "s_promises demo = [Some Resolved]" "got 0 demo = [7, 8, 9]" "st_closed (obj demo 0) = False"
  by code_simp+

section \<open>The wire format\<close>

text \<open>Decoding an encoded frame gives back its type, its stream id (any id below
  \<open>2 ^ 32\<close>) and its payload; a message is no frame exactly when it is shorter than the
  header; and every message that decodes is the encoding of what it decodes to.\<close>

theorem frame_roundtrip:
  assumes "i < 2 ^ 32"
  shows "(\<exists>f. decode_frame (encode_frame t i p) = Some f \<and> of_opcode (f_type f) = Some t \<and>
            unat (f_stream f) = i \<and> f_payload f = p)
    \<and> (\<forall>w. decode_frame w = None \<longleftrightarrow> length w < FRAME_HEADER)
    \<and> (\<forall>w f. decode_frame w = Some f \<longrightarrow> frame_bytes f = w)"
  using assms frame_codec.enc_dec
  by (simp add: decode_encode_frame decode_frame_None unsigned_of_nat take_bit_nat_eq_self)

theorem frame_roundtrip_witness:
  "(7::nat) < 2 ^ 32 \<and> (\<exists>f. decode_frame (encode_frame Data 7 [1, 2]) = Some f \<and> f_payload f = [1, 2])"
  using frame_roundtrip[of 7 Data "[1, 2]"] by auto

section \<open>Flow control\<close>

text \<open>C14: Flow control. With a chunk size other than zero, whatever the application, the peer and
  the transport do, every input of a session returns, and a stream's window plus the bytes it
  handed to \<open>sendFrame\<close> is always its initial window plus the credit it received. Between inputs
  no sendable byte waits: a stream with queued bytes has an empty window. The data frames
  with a stream's id, if no other stream of the session has it, never hold more bytes than
  the peer allowed.\<close>

theorem stream_flow_control:
  assumes "o_maxChunk opts \<noteq> Some 0"
  shows "\<exists>s. run_steps session_step is (new_session opts link) = Some s \<and>
    (\<forall>a < length (s_objs s).
       st_window (obj s a) + length (outs a s) = s_initialWindow s + credit_in a s \<and>
       (st_queue (obj s a) = [] \<or> st_window (obj s a) = 0) \<and>
       (own_id s a \<longrightarrow> length (wire_bytes (st_id (obj s a)) s) \<le> s_initialWindow s + credit_in a s))"
proof -
  note inv = new_session_inv[OF assms, of link]
  obtain s where s: "run_steps session_step is (new_session opts link) = Some s"
    using session.run_total[OF inv] by blast
  with session.run_inv[OF inv] have si: "session_inv s" .
  have r: "reaches opts link is s" using s assms by (simp add: reaches_def)
  have "length (wire_bytes (st_id (obj s a)) s) \<le> length (outs a s)" if "own_id s a" for a
    using reaches_wire[OF r that] by auto
  with s si show ?thesis
    by (fastforce simp: session_inv_def drained_def session_ok_def stream_law_def)
qed

theorem stream_flow_control_witness:
  "o_maxChunk demo_opts \<noteq> Some 0 \<and>
   (\<exists>s. run_steps session_step demo_inputs (new_session demo_opts (\<lambda>_. True)) = Some s)"
  using stream_flow_control[of demo_opts demo_inputs "\<lambda>_. True"] by (auto simp: demo_opts_def)

text \<open>C16: Integrity and order. Take a stream whose id no other stream of the session has. While the
  session is open, the bytes an open stream accepted from \<open>write\<close> are exactly the payloads of the
  data frames with its id that the transport got, in order, followed by those still queued; a
  stream that was torn down put a prefix of what it accepted on the wire, and holds nothing
  back. Once the session is closed, the frames sent hold a prefix of what was accepted.\<close>

theorem stream_fifo:
  assumes "reaches opts link is s" "a < length (s_objs s)" "own_id s a"
  shows "\<exists>rest. accepted a s = wire_bytes (st_id (obj s a)) s @ rest \<and>
    (st_closed (obj s a) \<longrightarrow> st_queue (obj s a) = []) \<and>
    (\<not> s_closed s \<longrightarrow> \<not> st_closed (obj s a) \<longrightarrow> rest = pending_bytes (st_queue (obj s a)))"
proof -
  obtain lost where "outs a s = wire_bytes (st_id (obj s a)) s @ lost" "\<not> s_closed s \<longrightarrow> lost = []"
    using reaches_wire[OF assms(1,3)] by blast
  then show ?thesis using reaches_law[OF assms(1,2)] by (auto simp: stream_law_def split: if_splits)
qed

lemma demo_own: "own_id demo 0"
  by (simp add: own_id_def demo_facts)

theorem stream_fifo_witness:
  "accepted 0 demo = wire_bytes (st_id (obj demo 0)) demo @ pending_bytes (st_queue (obj demo 0))"
  using stream_fifo[OF demo_run _ demo_own] demo_facts by auto

text \<open>C18: No credit deadlock. Two sessions with the same positive initial window, one sending on
  stream \<open>a\<close> and one receiving it as stream \<open>b\<close>: once everything sent was delivered and
  every credit granted has arrived, an open sender has sent all it accepted, however
  small the window (unacknowledged bytes never block it).\<close>

theorem no_credit_deadlock:
  assumes s: "reaches o1 l1 i1 s" "a < length (s_objs s)" "\<not> st_closed (obj s a)"
    and r: "reaches o2 l2 i2 r" "b < length (s_objs r)"
    and win: "s_initialWindow s = s_initialWindow r" "0 < s_initialWindow s"
    and delivered: "got b r = outs a s" "credit_in a s = credit_out b r"
  shows "outs a s = accepted a s"
proof -
  have l: "stream_law s a" "stream_law r b" using reaches_law s(1,2) r by blast+
  have thr: "s_creditThreshold r = s_initialWindow r div 2" by (rule reaches_threshold[OF r(1)])
  have "drained s a" using reaches_inv[OF s(1)] s(2) session_invD(2) by blast
  moreover have "0 < st_window (obj s a)"
    using l win thr delivered by (auto simp: stream_law_def)
  ultimately show ?thesis using l(1) s(3) by (simp add: stream_law_def drained_def)
qed

definition demo_peer_inputs :: "session_input list" where
  "demo_peer_inputs = [IReceive (encode_frame Open 1 []), IReceive (encode_frame Data 1 [1, 2, 3]),
     IReceive (encode_frame Data 1 [4, 5, 6])]"

definition demo_peer :: hsession where
  "demo_peer = the (run_steps session_step demo_peer_inputs
     (new_session (demo_opts\<lparr>o_client := False\<rparr>) (\<lambda>_. True)))"

lemma demo_peer_run: "reaches (demo_opts\<lparr>o_client := False\<rparr>) (\<lambda>_. True) demo_peer_inputs demo_peer"
proof -
  have "session_inv (new_session (demo_opts\<lparr>o_client := False\<rparr>) (\<lambda>_. True))"
    by (rule new_session_inv) (simp add: demo_opts_def)
  then show ?thesis
    using session.run_total by (fastforce simp: reaches_def demo_peer_def demo_opts_def)
qed

definition demo_sender_inputs :: "session_input list" where
  "demo_sender_inputs = [IOpen None, IWrite 0 [1, 2, 3, 4], IReceive (encode_frame Credit 1 (encode_credit 3)),
     IWrite 0 [5, 6], IReceive (encode_frame Credit 1 (encode_credit 3))]"

definition demo_sender :: hsession where
  "demo_sender = the (run_steps session_step demo_sender_inputs (new_session demo_opts (\<lambda>_. True)))"

lemma demo_sender_run: "reaches demo_opts (\<lambda>_. True) demo_sender_inputs demo_sender"
proof -
  have "session_inv (new_session demo_opts (\<lambda>_. True))"
    by (rule new_session_inv) (simp add: demo_opts_def)
  then show ?thesis
    using session.run_total by (fastforce simp: reaches_def demo_sender_def demo_opts_def)
qed

lemma demo_pair_facts:
  "length (s_objs demo_sender) = 1" "st_closed (obj demo_sender 0) = False"
  "length (s_objs demo_peer) = 1" "s_initialWindow demo_sender = 4" "s_initialWindow demo_peer = 4"
  "s_creditThreshold demo_peer = 2" "got 0 demo_peer = [1, 2, 3, 4, 5, 6]"
  "outs 0 demo_sender = [1, 2, 3, 4, 5, 6]" "credit_in 0 demo_sender = 6" "credit_out 0 demo_peer = 6"
  by code_simp+

theorem no_credit_deadlock_witness: "accepted 0 demo_sender = [1, 2, 3, 4, 5, 6]"
  using no_credit_deadlock[OF demo_sender_run _ _ demo_peer_run, of 0 0] by (simp add: demo_pair_facts)

section \<open>Writes\<close>

text \<open>The abstract channel a stream implements: a window and the bytes waiting for it.
  Accepting data or credit sends the longest prefix the window allows.\<close>

record channel =
  ch_window :: nat
  ch_waiting :: bytes
  ch_sent :: bytes

definition channel_flush :: "channel \<Rightarrow> channel" where
  "channel_flush c = \<lparr>ch_window = ch_window c - length (ch_waiting c),
     ch_waiting = drop (ch_window c) (ch_waiting c),
     ch_sent = ch_sent c @ take (ch_window c) (ch_waiting c)\<rparr>"

definition channel_write :: "bytes \<Rightarrow> channel \<Rightarrow> channel" where
  "channel_write data c = channel_flush (c\<lparr>ch_waiting := ch_waiting c @ data\<rparr>)"

definition channel_credit :: "nat \<Rightarrow> channel \<Rightarrow> channel" where
  "channel_credit n c = channel_flush (c\<lparr>ch_window := ch_window c + n\<rparr>)"

definition channel_of :: "nat \<Rightarrow> hsession \<Rightarrow> channel" where
  "channel_of a s = \<lparr>ch_window = st_window (obj s a),
     ch_waiting = pending_bytes (st_queue (obj s a)), ch_sent = outs a s\<rparr>"

lemma send_piece_balance:
  assumes "session_ok s" "a < length (s_objs s)"
  shows "accepted a (send_piece a p s) = accepted a s" "credit_in a (send_piece a p s) = credit_in a s"
    "s_initialWindow (send_piece a p s) = s_initialWindow s"
  using send_piece_ok(2)[OF assms, of p] by (simp_all add: evolves_def same_ledgers_def)

lemma charge_balance [simp]:
  "accepted b (charge a w chunk s) = accepted b s" "credit_in b (charge a w chunk s) = credit_in b s"
  by (simp_all add: charge_def Let_def)

text \<open>What the loop leaves on a stream that survives it is fixed by the balances.\<close>

lemma flush_channel:
  assumes ok: "session_ok s" and a: "a < length (s_objs s)" and f: "flush a s = Some t"
    and alive: "\<not> st_closed (obj t a)" "\<not> st_closed (obj s a)"
  shows "channel_of a t = channel_flush (channel_of a s)"
proof -
  let ?P = "\<lambda>u. accepted a u = accepted a s \<and> credit_in a u = credit_in a s \<and>
    s_initialWindow u = s_initialWindow s \<and> length (s_objs u) = length (s_objs s) \<and> grows s u"
  have "\<exists>t. flush a s = Some t \<and> session_ok t \<and> length (s_objs t) = length (s_objs s) \<and> drained t a \<and> ?P t"
  proof (rule flush_rule[OF ok a])
    show "?P (flush_turn a u)" if u: "session_ok u" "a < length (s_objs u)" and "?P u" for u
      using that send_piece_balance[OF u] flush_turn_objs[OF u]
        grows_trans[OF _ grows_flush_turn, of s u a]
      by (simp add: flush_turn_def Let_def charge_def)
  qed (simp add: grows_refl)
  then have t: "session_ok t" "drained t a" "?P t" using f by auto
  then have l: "stream_law t a" "stream_law s a" using session_okD(4) ok a by simp_all
  then have sent: "outs a t @ pending_bytes (st_queue (obj t a)) =
      outs a s @ pending_bytes (st_queue (obj s a))"
    and bal: "st_window (obj t a) + length (outs a t) = st_window (obj s a) + length (outs a s)"
    using t alive by (simp_all add: stream_law_def)
  obtain new where new: "s_log t = s_log s @ new" using t(3) by (auto simp: grows_def)
  then obtain x where x: "outs a t = outs a s @ x" by (simp add: outs_def)
  have w: "pending_bytes (st_queue (obj s a)) = x @ pending_bytes (st_queue (obj t a))"
    and n: "st_window (obj s a) = st_window (obj t a) + length x"
    using sent bal x by simp_all
  show ?thesis
    using t(2) w n x by (auto simp: drained_def channel_of_def channel_flush_def)
qed

lemma write_channel:
  assumes ok: "session_ok s" and a: "a < length (s_objs s)" and op: "\<not> st_closed (obj s a)"
    and w: "\<not> st_send_closed (obj s a)" "stream_write a data s = Some t" "\<not> st_closed (obj t a)"
  shows "channel_of a t = channel_write data (channel_of a s)"
proof -
  let ?w = "\<lparr>w_data = data, w_offset = 0, w_promise = length (s_promises s)\<rparr>"
  let ?u = "set_obj a ((obj s a)\<lparr>st_queue := st_queue (obj s a) @ [?w]\<rparr>)
    (log_obs (Accepted a data) (s\<lparr>s_promises := s_promises s @ [None]\<rparr>))"
  have "channel_of a ?u = (channel_of a s)\<lparr>ch_waiting := ch_waiting (channel_of a s) @ data\<rparr>"
    using a by (simp add: channel_of_def) (simp add: outs_def)
  then show ?thesis
    using flush_channel[OF queued_ok[OF ok a op] _ _ w(3)] w(1,2) a op
    by (simp add: stream_write_def Let_def channel_write_def)
qed

lemma credit_channel:
  assumes ok: "session_ok s" and a: "a < length (s_objs s)" and op: "\<not> st_closed (obj s a)"
    and c: "on_credit a n s = Some t" "\<not> st_closed (obj t a)"
  shows "channel_of a t = channel_credit n (channel_of a s)"
proof -
  let ?v = "set_obj a ((obj s a)\<lparr>st_window := st_window (obj s a) + n\<rparr>) (log_obs (CreditIn a n) s)"
  have "channel_of a ?v = (channel_of a s)\<lparr>ch_window := ch_window (channel_of a s) + n\<rparr>"
    using a by (simp add: channel_of_def)
  then show ?thesis
    using flush_channel[OF credited_ok[OF ok a] _ _ c(2)] c(1) a op
    by (simp add: on_credit_def channel_credit_def)
qed

text \<open>C21: Refinement. A write to an open stream, and credit for it, act on the stream exactly
  as the abstract channel does (chunking into frames of at most \<open>maxChunk\<close> bytes is
  invisible), unless the transport failed under it and tore the stream down.\<close>

theorem stream_refines_channel:
  assumes "reaches opts link is s" "a < length (s_objs s)" "\<not> st_closed (obj s a)"
  shows "(\<forall>data t. \<not> st_send_closed (obj s a) \<longrightarrow> stream_write a data s = Some t \<longrightarrow>
            \<not> st_closed (obj t a) \<longrightarrow> channel_of a t = channel_write data (channel_of a s)) \<and>
         (\<forall>n t. on_credit a n s = Some t \<longrightarrow> \<not> st_closed (obj t a) \<longrightarrow>
            channel_of a t = channel_credit n (channel_of a s))"
  using write_channel credit_channel session_invD(1)[OF reaches_inv[OF assms(1)]] assms(2,3) by blast

lemma demo_write_facts:
  "st_send_closed (obj demo 0) = False"
  "map_option (\<lambda>t. st_closed (obj t 0)) (stream_write 0 [1, 2] demo) = Some False"
  by code_simp+

theorem stream_refines_channel_witness:
  "\<exists>t. stream_write 0 [1, 2] demo = Some t \<and> channel_of 0 t = channel_write [1, 2] (channel_of 0 demo)"
  using stream_refines_channel[OF demo_run, of 0] demo_facts demo_write_facts by auto

text \<open>C24: A write's promise is pending exactly as long as its bytes are queued on some
  stream, and once it is resolved or rejected nothing that happens later changes it.\<close>

theorem write_settles_once:
  assumes "reaches opts link is s" "run_steps session_step js s = Some t" "i < length (s_promises s)"
  shows "(s_promises s ! i = None \<longleftrightarrow>
            (\<exists>a < length (s_objs s). \<exists>w \<in> set (st_queue (obj s a)). w_promise w = i)) \<and>
         (\<forall>v. s_promises s ! i = Some v \<longrightarrow> s_promises t ! i = Some v)"
proof -
  note inv = reaches_inv[OF assms(1)]
  have "grows s t" by (rule session_grows[OF inv assms(2)])
  then show ?thesis
    using promise_inv_pending[OF session_okD(2)[OF session_invD(1)[OF inv]] assms(3)] assms(3)
    by (auto simp: grows_def queue_promises_def)
qed

theorem write_settles_once_witness:
  "\<exists>t. run_steps session_step [IClose 0] demo = Some t \<and> s_promises t ! 0 = Some Resolved"
proof -
  obtain t where "run_steps session_step [IClose 0] demo = Some t"
    using session.run_total[OF reaches_inv[OF demo_run]] by blast
  with write_settles_once[OF demo_run this, of 0] show ?thesis by (simp add: demo_facts)
qed

text \<open>A closed session is silent: after \<open>close\<close>, a transport failure or the transport's
  own close, no input puts another frame on the wire, and no closed stream reopens.\<close>

theorem closed_session_silent:
  assumes "reaches opts link is s" "s_closed s" "run_steps session_step js s = Some t"
  shows "s_closed t \<and> wire t = wire s \<and>
    (\<forall>a < length (s_objs s). st_closed (obj s a) \<longrightarrow> st_closed (obj t a))"
  using session_grows[OF reaches_inv[OF assms(1)] assms(3)] assms(2) by (simp add: grows_def)

lemma demo_closed_run:
  "\<exists>s. reaches demo_opts (\<lambda>_. True) (demo_inputs @ [ICloseSession]) s \<and> s_closed s"
  using demo_run by (auto simp: reaches_def session.run_append)

theorem closed_session_silent_witness:
  "\<exists>s t. s_closed s \<and> run_steps session_step [IOpen None, IPing] s = Some t \<and> wire t = wire s"
proof -
  obtain s where s: "reaches demo_opts (\<lambda>_. True) (demo_inputs @ [ICloseSession]) s" "s_closed s"
    using demo_closed_run by blast
  obtain t where t: "run_steps session_step [IOpen None, IPing] s = Some t"
    using session.run_total[OF reaches_inv[OF s(1)]] by blast
  from closed_session_silent[OF s t] s t show ?thesis by blast
qed

section \<open>What the code does not promise\<close>

text \<open>
  \<open>end()\<close> does not wait for the queue: with the window exhausted, END goes out at once and
  the queued bytes follow it when credit arrives.
\<close>

lemma end_overtakes_data:
  "map_option wire (run_steps session_step
     [IOpen None, IWrite 0 [1, 2, 3, 4, 5, 6], IEnd 0, IReceive (encode_frame Credit 1 (encode_credit 2))]
     (new_session demo_opts (\<lambda>_. True))) =
   Some [(Open, 1, []), (Data, 1, [1, 2, 3]), (Data, 1, [4]), (End, 1, []), (Data, 1, [5, 6])]"
  by code_simp

text \<open>
  An OPEN for an id in use replaces the table's entry and leaves the old stream open: a
  write on it still sends under the id the new stream now has, and closing the session
  does not close it.
\<close>

lemma reopened_id_orphans:
  "map_option (\<lambda>s. (s_closed s, st_closed (obj s 0), st_closed (obj s 1)))
     (run_steps session_step [IReceive (encode_frame Open 5 []), IReceive (encode_frame Open 5 []), ICloseSession]
        (new_session demo_opts (\<lambda>_. True))) = Some (True, False, True)"
  by code_simp

text \<open>A write on such an orphan of a closed session resolves although no frame is sent.\<close>

lemma orphan_write_lost:
  "map_option (\<lambda>s. (s_closed s, s_promises s, wire s))
     (run_steps session_step [IReceive (encode_frame Open 5 []), IReceive (encode_frame Open 5 []), ICloseSession,
          IWrite 0 [1, 2]]
        (new_session demo_opts (\<lambda>_. True))) = Some (True, [Some Resolved], [])"
  by code_simp

text \<open>With \<open>maxChunk\<close> zero a flush with bytes to send never returns.\<close>

definition stuck :: "nat \<Rightarrow> pending_write \<Rightarrow> hsession \<Rightarrow> bool" where
  "stuck a w s \<longleftrightarrow> s_maxChunk s = 0 \<and> a < length (s_objs s) \<and> (\<exists>ws. st_queue (obj s a) = w # ws) \<and>
     w_offset w < length (w_data w) \<and> 0 < st_window (obj s a) \<and> (\<forall>n. s_link s n)"

lemma stuck_turn: "stuck a w s \<Longrightarrow> stuck a w (flush_turn a s)"
  by (auto simp: stuck_def flush_turn_def turn_chunk_def Let_def send_piece_def send_frame_def
      charge_def log_obs_def set_obj_def)

lemma flush_stuck: "flush a s = Some t \<Longrightarrow> \<not> stuck a w s"
proof (erule flush.raw_induct[of "\<lambda>a s t. \<not> stuck a w s", rotated], rule notI)
  fix flush' :: "nat \<Rightarrow> hsession \<Rightarrow> hsession option" and a s t
  assume IH: "\<And>a s t. flush' a s = Some t \<Longrightarrow> \<not> stuck a w s"
    and body: "(if st_queue (obj s a) \<noteq> [] \<and> 0 < st_window (obj s a)
      then flush' a (flush_turn a s) else Some s) = Some t"
    and st: "stuck a w s"
  then have "flush' a (flush_turn a s) = Some t" by (auto simp: stuck_def)
  from IH[OF this] stuck_turn[OF st] show False ..
qed

lemma flush_zero_chunk: "stuck a w s \<Longrightarrow> flush a s = None"
  using flush_stuck by (cases "flush a s") auto

end
