(* ===== verification/Serial.thy ===== *)
theory Serial
  imports Protocol
begin

text \<open>
  The Web Serial transport (\<open>web/packages/protocol/src/serial/index.ts\<close>): packets as lines
  of text between a prefix and a line break, found again in whatever a device prints. The
  browser is the environment: which ports it has, whether opening one works, and how the
  bytes of a port arrive in chunks. All clients of the module share one \<open>TextDecoder\<close>, which carries
  an unfinished character from one chunk to the next, whichever port either came from.
\<close>

section \<open>The text decoder\<close>

text \<open>The UTF-8 decoder of the Encoding Standard on code points: how many bytes of a character are
  missing, what was read of it, the bounds of its next byte, and whether a byte order mark may still
  be dropped.\<close>

record text_decoder =
  td_left :: nat
  td_code :: nat
  td_lower :: nat
  td_upper :: nat
  td_bomSeen :: bool

definition new_decoder :: text_decoder where
  "new_decoder = \<lparr>td_left = 0, td_code = 0, td_lower = 0x80, td_upper = 0xBF, td_bomSeen = False\<rparr>"

definition emit_code :: "nat \<Rightarrow> text_decoder \<Rightarrow> nat list \<times> text_decoder" where
  "emit_code n d = (if n = 0xFEFF \<and> \<not> td_bomSeen d then [] else [n], d\<lparr>td_bomSeen := True\<rparr>)"

definition start_byte :: "nat \<Rightarrow> text_decoder \<Rightarrow> nat list \<times> text_decoder" where
  "start_byte n d =
     (if n \<le> 0x7F then emit_code n d
      else if 0xC2 \<le> n \<and> n \<le> 0xDF then ([], d\<lparr>td_left := 1, td_code := n - 0xC0\<rparr>)
      else if 0xE0 \<le> n \<and> n \<le> 0xEF then
        ([], d\<lparr>td_left := 2, td_code := n - 0xE0, td_lower := (if n = 0xE0 then 0xA0 else 0x80),
              td_upper := (if n = 0xED then 0x9F else 0xBF)\<rparr>)
      else if 0xF0 \<le> n \<and> n \<le> 0xF4 then
        ([], d\<lparr>td_left := 3, td_code := n - 0xF0, td_lower := (if n = 0xF0 then 0x90 else 0x80),
              td_upper := (if n = 0xF4 then 0x8F else 0xBF)\<rparr>)
      else emit_code 0xFFFD d)"

definition between_chars :: "text_decoder \<Rightarrow> text_decoder" where
  "between_chars d = d\<lparr>td_left := 0, td_code := 0, td_lower := 0x80, td_upper := 0xBF\<rparr>"

definition decode_byte :: "nat \<Rightarrow> text_decoder \<Rightarrow> nat list \<times> text_decoder" where
  "decode_byte n d =
     (if td_left d = 0 then start_byte n d
      else if n < td_lower d \<or> td_upper d < n then
        (let (a, d1) = emit_code 0xFFFD (between_chars d); (b, d2) = start_byte n d1 in (a @ b, d2))
      else let code = td_code d * 64 + (n - 0x80)
        in if td_left d = 1 then emit_code code (between_chars d)
           else ([], d\<lparr>td_left := td_left d - 1, td_code := code, td_lower := 0x80, td_upper := 0xBF\<rparr>))"

fun decode_codes :: "bytes \<Rightarrow> text_decoder \<Rightarrow> nat list \<times> text_decoder" where
  "decode_codes [] d = ([], d)"
| "decode_codes (b # bs) d =
     (let (xs, d1) = decode_byte (unat b) d; (ys, d2) = decode_codes bs d1 in (xs @ ys, d2))"

text \<open>\<open>decode(value, { stream: true })\<close>. Text of the model has code points below 256; any other one,
  the replacement character U+FFFD included, is carried as the control character U+001A, which no
  JSON text may hold.\<close>

definition text_of_codes :: "nat list \<Rightarrow> string" where
  "text_of_codes = map (\<lambda>n. if n < 256 then char_of n else CHR 0x1A)"

definition decode_stream :: "bytes \<Rightarrow> text_decoder \<Rightarrow> string \<times> text_decoder" where
  "decode_stream value d = map_prod text_of_codes id (decode_codes value d)"

lemma decode_codes_append:
  "decode_codes (a @ b) d = (let (xs, d1) = decode_codes a d; (ys, d2) = decode_codes b d1 in (xs @ ys, d2))"
  by (induction a arbitrary: d) (simp_all add: Let_def split: prod.splits)

lemma decode_stream_append:
  "decode_stream (a @ b) d = (let (s, d1) = decode_stream a d; (t, d2) = decode_stream b d1 in (s @ t, d2))"
  by (simp add: decode_stream_def decode_codes_append text_of_codes_def split: prod.splits)

text \<open>Between characters the decoder reads back what \<open>TextEncoder\<close> wrote.\<close>

definition resting :: "text_decoder \<Rightarrow> bool" where
  "resting d \<longleftrightarrow> td_left d = 0 \<and> td_lower d = 0x80 \<and> td_upper d = 0xBF"

lemma resting_simps [simp]: "resting new_decoder" "resting d \<Longrightarrow> td_left d = 0"
  "resting d \<Longrightarrow> resting (d\<lparr>td_bomSeen := b\<rparr>)" "resting (between_chars d)"
  by (simp_all add: resting_def between_chars_def new_decoder_def)

lemma decode_second:
  assumes "resting d" "r < 64"
  shows "decode_byte (128 + r) (d\<lparr>td_left := 1, td_code := q\<rparr>) = emit_code (q * 64 + r) (between_chars d)"
  using assms by (simp add: decode_byte_def resting_def between_chars_def)

lemma decode_stream_char:
  assumes "resting d"
  shows "\<exists>d1. resting d1 \<and> decode_stream (utf8_char c) d = ([c], d1)"
proof -
  define n where "n = (of_char c :: nat)"
  have n: "n < 256" "char_of n = c" by (simp_all add: n_def)
  show ?thesis
  proof (cases "n < 128")
    case True
    then have "utf8_char c = [word_of_nat n]" by (simp add: utf8_char_def n_def Let_def)
    moreover have "unat (word_of_nat n :: byte) = n" using True by (simp add: unat_of_nat)
    ultimately show ?thesis
      using True n assms by (simp add: decode_stream_def decode_byte_def start_byte_def emit_code_def text_of_codes_def)
  next
    case False
    then have u: "utf8_char c = [word_of_nat (192 + n div 64), word_of_nat (128 + n mod 64)]"
      by (simp add: utf8_char_def n_def Let_def)
    have lt: "192 + n div 64 < 256" "128 + n mod 64 < 256" using n by (simp_all add: div_less_iff_less_mult)
    then have w: "unat (word_of_nat (192 + n div 64) :: byte) = 192 + n div 64"
        "unat (word_of_nat (128 + n mod 64) :: byte) = 128 + n mod 64"
      by (simp_all add: unat_of_nat del: of_nat_add)
    have "2 \<le> n div 64" "n div 64 \<le> 3" using False n by linarith+
    then have lead: "start_byte (192 + n div 64) d = ([], d\<lparr>td_left := 1, td_code := n div 64\<rparr>)"
      by (simp add: start_byte_def)
    have "n mod 64 < 64" "n div 64 * 64 + n mod 64 = n" "n \<noteq> 0xFEFF" using n by simp_all
    then have "decode_byte (128 + n mod 64) (d\<lparr>td_left := 1, td_code := n div 64\<rparr>)
        = ([n], (between_chars d)\<lparr>td_bomSeen := True\<rparr>)"
      using decode_second[OF assms, of "n mod 64" "n div 64"] by (simp add: emit_code_def)
    then show ?thesis
      using assms n lead w by (simp add: u decode_stream_def decode_byte_def[of "192 + n div 64"] text_of_codes_def del: of_nat_add)
  qed
qed

lemma decode_stream_utf8:
  "resting d \<Longrightarrow> \<exists>d1. resting d1 \<and> decode_stream (utf8 s) d = (s, d1)"
proof (induction s arbitrary: d)
  case (Cons c s)
  then obtain d1 where 1: "resting d1" "decode_stream (utf8_char c) d = ([c], d1)" using decode_stream_char by blast
  then obtain d2 where "resting d2" "decode_stream (utf8 s) d1 = (s, d2)" using Cons.IH by blast
  with 1 show ?case using decode_stream_append[of "utf8_char c" "utf8 s" d] by (simp add: utf8_def)
qed (simp add: utf8_def decode_stream_def text_of_codes_def)

section \<open>Ports\<close>

record port_info =
  usbProductId :: "nat option"
  usbVendorId :: "nat option"

record serial_port =
  sp_id :: nat
  sp_info :: port_info

record port_filter =
  pf_usbProductId :: "nat option"
  pf_usbVendorId :: "nat option"

definition matches_filter :: "serial_port \<Rightarrow> port_filter \<Rightarrow> bool" where
  "matches_filter port f =
     ((pf_usbVendorId f = None \<or> pf_usbVendorId f = usbVendorId (sp_info port)) \<and>
      (pf_usbProductId f = None \<or> pf_usbProductId f = usbProductId (sp_info port)))"

text \<open>An authorised port that passes a filter, else whatever \<open>requestPort\<close> gives.\<close>

definition select_serial_port ::
  "serial_port list \<Rightarrow> string + serial_port \<Rightarrow> port_filter list \<Rightarrow> string + serial_port" where
  "select_serial_port authorizedPorts requested filters =
     (case find (\<lambda>p. filters = [] \<or> list_ex (matches_filter p) filters) authorizedPorts of
        Some p \<Rightarrow> Inr p
      | None \<Rightarrow> requested)"

section \<open>Finding a packet in a line\<close>

text \<open>How many characters the JSON object at the head of the text takes, by counting braces
  outside strings.\<close>

fun scan_object :: "nat \<Rightarrow> bool \<Rightarrow> bool \<Rightarrow> string \<Rightarrow> nat option" where
  "scan_object depth escaped quoted [] = None"
| "scan_object depth escaped quoted (c # cs) =
     map_option Suc
       (if quoted then
          (if escaped then scan_object depth False True cs
           else if c = CHR 0x5C then scan_object depth True True cs
           else if c = CHR 0x22 then scan_object depth escaped False cs
           else scan_object depth escaped True cs)
        else if c = CHR 0x22 then scan_object depth escaped True cs
        else if c = CHR ''{'' then scan_object (depth + 1) escaped False cs
        else if c = CHR ''}'' then (if depth = 1 then Some 0 else scan_object (depth - 1) escaped False cs)
        else scan_object depth escaped False cs)"

fun extract_json_object :: "string \<Rightarrow> string option" where
  "extract_json_object [] = None"
| "extract_json_object (c # cs) =
     (if c = CHR ''{'' then
        (case scan_object 0 False False (c # cs) of
           Some n \<Rightarrow> Some (take n (c # cs))
         | None \<Rightarrow> extract_json_object cs)
      else extract_json_object cs)"

section \<open>The transport\<close>

datatype status = Connecting | Connected port_info | Disconnected string | ErrorStatus string

datatype serial_event = Status status | Delivered packet

record serial_options =
  so_errorPrefix :: "string option"
  so_inputPrefix :: "string option"
  so_outputPrefix :: "string option"
  so_baudRate :: "nat option"
  so_bufferSize :: "nat option"
  so_filters :: "port_filter list"
  so_port :: "serial_port option"

definition DEFAULT_SERIAL_BAUD_RATE :: nat where
  "DEFAULT_SERIAL_BAUD_RATE = 115200"

definition DEFAULT_SERIAL_BUFFER_BYTES :: nat where
  "DEFAULT_SERIAL_BUFFER_BYTES = 4096"

definition HELIX_SERIAL_INPUT_PREFIX :: string where
  "HELIX_SERIAL_INPUT_PREFIX = ''SERVICE ''"

definition HELIX_SERIAL_OUTPUT_PREFIX :: string where
  "HELIX_SERIAL_OUTPUT_PREFIX = ''HELIX_RESPONSE ''"

definition HELIX_SERIAL_ERROR_PREFIX :: string where
  "HELIX_SERIAL_ERROR_PREFIX = ''HELIX_ERROR ''"

definition or_default :: "'a option \<Rightarrow> 'a \<Rightarrow> 'a" where
  "or_default x d = (case x of None \<Rightarrow> d | Some v \<Rightarrow> v)"

text \<open>\<open>#handleLine\<close>: what it emits, to the status handlers or to the packet handlers.\<close>

definition handle_line :: "serial_options \<Rightarrow> string \<Rightarrow> serial_event list" where
  "handle_line opts line =
     (let trimmed = trim line;
          errorPrefix = or_default (so_errorPrefix opts) HELIX_SERIAL_ERROR_PREFIX;
          outputPrefix = or_default (so_outputPrefix opts) HELIX_SERIAL_OUTPUT_PREFIX
      in if starts_with errorPrefix trimmed
         then [Status (ErrorStatus (trim (drop (length errorPrefix) trimmed)))]
         else
           (case extract_json_object
                   (if starts_with outputPrefix trimmed then drop (length outputPrefix) trimmed else trimmed) of
              None \<Rightarrow> []
            | Some packetJson \<Rightarrow>
                (case decode_packet packetJson of
                   Inl _ \<Rightarrow> [Status (ErrorStatus ''Serial response contained invalid Helix JSON.'')]
                 | Inr p \<Rightarrow> if is_service_message (p_message p) then [Delivered p] else [])))"

text \<open>\<open>buffer.split(/\r?\n/)\<close>.\<close>

fun split_lines :: "string \<Rightarrow> string list" where
  "split_lines [] = [[]]"
| "split_lines (c # cs) =
     (if c = CHR 0x0A then [] # split_lines cs
      else if c = CHR 0x0D \<and> cs \<noteq> [] \<and> hd cs = CHR 0x0A then split_lines cs
      else case split_lines cs of [] \<Rightarrow> [[c]] | w # ws \<Rightarrow> (c # w) # ws)"

text \<open>One iteration of \<open>#readLoop\<close>: the decoder and the buffer after it, and the events of the
  complete lines.\<close>

definition read_chunk :: "serial_options \<Rightarrow> text_decoder \<times> string \<Rightarrow> bytes \<Rightarrow> (text_decoder \<times> string) \<times> serial_event list" where
  "read_chunk opts st value =
     (let (str, d) = decode_stream value (fst st);
          lines = split_lines (snd st @ str)
      in ((d, last lines), concat (map (handle_line opts) (butlast lines))))"

fun read_loop :: "serial_options \<Rightarrow> text_decoder \<times> string \<Rightarrow> bytes list \<Rightarrow> (text_decoder \<times> string) \<times> serial_event list" where
  "read_loop opts st [] = (st, [])"
| "read_loop opts st (t # ts) =
     (let (st1, es) = read_chunk opts st t; (st2, fs) = read_loop opts st1 ts in (st2, es @ fs))"

record serial_client =
  sr_options :: serial_options
  sr_port :: "serial_port option"
  sr_buffer :: string
  sr_events :: "serial_event list"
  sr_written :: "(nat \<times> bytes) list"

definition new_serial :: "serial_options \<Rightarrow> serial_client" where
  "new_serial opts = \<lparr>sr_options = opts, sr_port = None, sr_buffer = [], sr_events = [], sr_written = []\<rparr>"

definition emit_status :: "status \<Rightarrow> serial_client \<Rightarrow> serial_client" where
  "emit_status st s = s\<lparr>sr_events := sr_events s @ [Status st]\<rparr>"

text \<open>What the browser does while a client connects.\<close>

record connect_env =
  ce_serial :: "serial_port list option"
  ce_requested :: "string + serial_port"
  ce_open :: "string option"
  ce_streams :: bool

definition serial_disconnect :: "string \<Rightarrow> serial_client \<Rightarrow> serial_client" where
  "serial_disconnect reason s = emit_status (Disconnected reason) (s\<lparr>sr_port := None, sr_buffer := []\<rparr>)"

definition serial_connect :: "connect_env \<Rightarrow> serial_client \<Rightarrow> serial_client" where
  "serial_connect env s =
     (if sr_port s \<noteq> None then s
      else if ce_serial env = None \<and> so_port (sr_options s) = None
      then emit_status (ErrorStatus ''Web Serial is not available in this browser.'') s
      else let s1 = emit_status Connecting s;
               chosen = (case so_port (sr_options s) of
                   Some p \<Rightarrow> Inr p
                 | None \<Rightarrow> select_serial_port (the (ce_serial env)) (ce_requested env) (so_filters (sr_options s)));
               opened = (case chosen of
                   Inl e \<Rightarrow> Inl e
                 | Inr p \<Rightarrow> (case ce_open env of
                     Some e \<Rightarrow> Inl e
                   | None \<Rightarrow> if ce_streams env then Inr p
                       else Inl ''Serial port did not expose readable and writable streams.''))
           in case opened of
                Inr p \<Rightarrow> emit_status (Connected (sp_info p)) (s1\<lparr>sr_port := Some p, sr_buffer := []\<rparr>)
              | Inl e \<Rightarrow> serial_disconnect ''connection failed'' (emit_status (ErrorStatus e) s1))"

text \<open>\<open>send\<close>: the write queue runs one \<open>#writePacket\<close> after the other, also after a failure.\<close>

definition serial_send :: "packet \<Rightarrow> serial_client \<Rightarrow> string + serial_client" where
  "serial_send p s =
     (case sr_port s of
        None \<Rightarrow> Inl ''Serial transport is not connected.''
      | Some port \<Rightarrow>
          Inr (s\<lparr>sr_written := sr_written s @ [(sp_id port,
            utf8 (or_default (so_inputPrefix (sr_options s)) HELIX_SERIAL_INPUT_PREFIX @ encode_packet p @ [CHR 0x0A]))]\<rparr>))"

text \<open>A chunk of one client's port goes through the decoder of all.\<close>

definition serial_receive :: "bytes \<Rightarrow> text_decoder \<Rightarrow> serial_client \<Rightarrow> text_decoder \<times> serial_client" where
  "serial_receive value d s =
     (if sr_port s = None then (d, s)
      else let ((d1, b), es) = read_chunk (sr_options s) (d, sr_buffer s) value
           in (d1, s\<lparr>sr_buffer := b, sr_events := sr_events s @ es\<rparr>))"

section \<open>Chunking does not matter\<close>

lemma split_lines_ne [simp]: "split_lines s \<noteq> []"
  by (induction s) (auto split: list.splits)

lemma split_lines_lf: "cs \<noteq> [] \<Longrightarrow> hd cs = CHR 0x0A \<Longrightarrow> split_lines cs = [] # split_lines (tl cs)"
  by (cases cs) auto

lemma split_lines_single: "split_lines s = [w] \<Longrightarrow> w = s"
proof (induction s arbitrary: w)
  case (Cons c cs)
  have "\<not> (c = CHR 0x0D \<and> cs \<noteq> [] \<and> hd cs = CHR 0x0A)"
    using Cons.prems split_lines_lf[of cs] split_lines_ne[of "tl cs"] by (auto simp del: split_lines_ne)
  moreover have "c \<noteq> CHR 0x0A" using Cons.prems by auto
  moreover have "split_lines cs \<noteq> []" by simp
  ultimately show ?case using Cons by (auto split: list.splits)
qed simp

lemma split_lines_last: "split_lines (last (split_lines s)) = [last (split_lines s)]"
proof (induction s)
  case (Cons c cs)
  obtain w ws where w: "split_lines cs = w # ws" by (cases "split_lines cs") auto
  show ?case
  proof (cases "c = CHR 0x0A \<or> (c = CHR 0x0D \<and> cs \<noteq> [] \<and> hd cs = CHR 0x0A) \<or> ws \<noteq> []")
    case True
    then have "last (split_lines (c # cs)) = last (split_lines cs)" using w by auto
    with Cons show ?thesis by simp
  next
    case False
    then have "w = cs" using w split_lines_single by auto
    with False w show ?thesis by auto
  qed
qed simp

lemma split_lines_append:
  "split_lines (a @ b) = butlast (split_lines a) @ split_lines (last (split_lines a) @ b)"
proof (induction a)
  case (Cons c cs)
  obtain w ws where w: "split_lines cs = w # ws" by (cases "split_lines cs") auto
  consider (lf) "c = CHR 0x0A" | (cr) "c = CHR 0x0D" "cs \<noteq> []" "hd cs = CHR 0x0A"
    | (one) "c \<noteq> CHR 0x0A" "\<not> (c = CHR 0x0D \<and> cs \<noteq> [] \<and> hd cs = CHR 0x0A)" "ws = []"
    | (more) "c \<noteq> CHR 0x0A" "\<not> (c = CHR 0x0D \<and> cs \<noteq> [] \<and> hd cs = CHR 0x0A)" "ws \<noteq> []"
    by blast
  then show ?case
  proof cases
    case cr
    then have "hd (cs @ b) = CHR 0x0A" by simp
    with cr Cons show ?thesis by simp
  next
    case one
    then have "w = cs" using w split_lines_single by auto
    with one w show ?thesis by auto
  next
    case more
    then have "cs \<noteq> []" using w by auto
    then have "hd (cs @ b) = hd cs" by simp
    with Cons w more show ?thesis by auto
  qed (use Cons in simp)
qed simp

lemma read_loop_chunks:
  "split_lines buffer = [buffer] \<Longrightarrow> decode_stream (concat ts) d = (str, d1) \<Longrightarrow>
   read_loop opts (d, buffer) ts = ((d1, last (split_lines (buffer @ str))),
     concat (map (handle_line opts) (butlast (split_lines (buffer @ str)))))"
proof (induction ts arbitrary: buffer d str)
  case Nil
  then show ?case by (simp add: decode_stream_def text_of_codes_def)
next
  case (Cons t ts)
  obtain a d2 where a: "decode_stream t d = (a, d2)" by force
  obtain b d3 where b: "decode_stream (concat ts) d2 = (b, d3)" by force
  have str: "str = a @ b" "d3 = d1" using Cons.prems(2) a b by (simp_all add: decode_stream_append)
  let ?b = "last (split_lines (buffer @ a))"
  have "split_lines (buffer @ a @ b) = butlast (split_lines (buffer @ a)) @ split_lines (?b @ b)"
    using split_lines_append[of "buffer @ a" b] by simp
  with Cons.IH[OF split_lines_last b[unfolded str(2)]] a show ?case
    by (simp add: read_chunk_def Let_def butlast_append str)
qed

section \<open>A printed packet is found again\<close>

text \<open>The scan of the rest, shifted by what was read before it.\<close>

definition skip :: "nat \<Rightarrow> nat option \<Rightarrow> nat option" where
  "skip n x = map_option (\<lambda>k. n + k) x"

lemma skip_simps [simp]:
  "skip 0 x = x" "map_option Suc x = skip (Suc 0) x" "skip m (skip n x) = skip (m + n) x"
  "skip n (Some k) = Some (n + k)"
  by (cases x; simp add: skip_def)+

lemma scan_plain:
  "\<forall>c \<in> set s. c \<noteq> CHR 0x22 \<and> c \<noteq> CHR ''{'' \<and> c \<noteq> CHR ''}'' \<Longrightarrow>
   scan_object d False False (s @ r) = skip (length s) (scan_object d False False r)"
  by (induction s) simp_all

lemma scan_esc_char:
  "scan_object d False True (esc_char c @ r) =
     skip (length (esc_char c)) (scan_object d False True r)"
proof -
  define n where "n = (of_char c :: nat)"
  have ne: "n \<noteq> 0x22 \<Longrightarrow> c \<noteq> CHR 0x22" "n \<noteq> 0x5C \<Longrightarrow> c \<noteq> CHR 0x5C" by (auto simp: n_def)
  have hex: "hex_digit k \<noteq> CHR 0x22" "hex_digit k \<noteq> CHR 0x5C" if "k < 16" for k
    using that by (auto simp: hex_digit_def of_char_eq_iff[where 'a = nat, symmetric] simp del: of_char_eq_iff)
  show ?thesis
    using ne hex[of "n div 16"] hex[of "n mod 16"] unfolding esc_char_def n_def[symmetric] Let_def
    by simp
qed

lemma scan_print_str:
  "scan_object d False False (print_str s @ r) =
     skip (length (print_str s)) (scan_object d False False r)"
proof -
  have "scan_object d False True (concat (map esc_char s) @ CHR 0x22 # r) =
      skip (length (concat (map esc_char s)) + 1) (scan_object d False False r)"
    by (induction s) (simp_all add: scan_esc_char)
  then show ?thesis by (simp add: print_str_def)
qed

lemma scan_print_int:
  "scan_object d False False (print_int i @ r) =
     skip (length (print_int i)) (scan_object d False False r)"
proof (rule scan_plain, intro ballI)
  fix c assume "c \<in> set (print_int i)"
  then have "c = CHR ''-'' \<or> (48 \<le> (of_char c :: nat) \<and> (of_char c :: nat) \<le> 57)"
    using nat_str_digits[of c] by (auto simp: print_int_def split: if_splits)
  then show "c \<noteq> CHR 0x22 \<and> c \<noteq> CHR ''{'' \<and> c \<noteq> CHR ''}''" by auto
qed

lemmas scan_simps = scan_print_str scan_print_int

lemma scan_print:
  "0 < d \<Longrightarrow> scan_object d False False (json_print v @ r) =
     skip (length (json_print v)) (scan_object d False False r)"
  "0 < d \<Longrightarrow> scan_object d False False (print_elems vs @ r) =
     skip (length (print_elems vs)) (scan_object d False False r)"
  "0 < d \<Longrightarrow> scan_object d False False (print_members es @ r) =
     skip (length (print_members es)) (scan_object d False False r)"
proof (induction v and vs and es arbitrary: d r and d r and d r rule: json_induct)
  case (Bool b) then show ?case by (cases b) (simp_all add: scan_simps)
next
  case (Elem v vs) then show ?case by (simp add: print_elems_Cons scan_simps)
next
  case (Member k v es) then show ?case by (simp add: print_members_Cons scan_simps add.assoc)
qed (simp_all add: scan_simps)

lemma scan_obj: "scan_object 0 False False (json_print (JObj es) @ r) = Some (length (json_print (JObj es)))"
  by (simp add: scan_print)

lemma extract_noise:
  "CHR ''{'' \<notin> set noise \<Longrightarrow>
   extract_json_object (noise @ json_print (JObj es) @ r) = Some (json_print (JObj es))"
proof (induction noise)
  case Nil
  then show ?case using scan_obj[of es r] by simp
qed auto

section \<open>Packets in, packets out\<close>

text \<open>Printed JSON holds no control characters, so no line breaks.\<close>

lemma esc_char_printable: "x \<in> set (esc_char c) \<Longrightarrow> 32 \<le> (of_char x :: nat)"
  by (auto simp: esc_char_def hex_digit_def Let_def split: if_splits)

lemma print_str_printable: "x \<in> set (print_str s) \<Longrightarrow> 32 \<le> (of_char x :: nat)"
  using esc_char_printable by (auto simp: print_str_def)

lemma print_int_printable: "x \<in> set (print_int i) \<Longrightarrow> 32 \<le> (of_char x :: nat)"
  using nat_str_digits[of x] by (fastforce simp: print_int_def split: if_splits)

lemma print_printable:
  "x \<in> set (json_print v) \<Longrightarrow> 32 \<le> (of_char x :: nat)"
  "x \<in> set (print_elems vs) \<Longrightarrow> 32 \<le> (of_char x :: nat)"
  "x \<in> set (print_members es) \<Longrightarrow> 32 \<le> (of_char x :: nat)"
proof (induction v and vs and es rule: json_induct)
  case (Bool b) then show ?case by (cases b) auto
next
  case (Elem v vs) then show ?case by (auto simp: print_elems_Cons split: if_splits)
next
  case (Member k v es) then show ?case
    by (auto simp: print_members_Cons split: if_splits dest: print_str_printable)
qed (auto dest: print_str_printable print_int_printable)

definition default_serial :: "serial_options \<Rightarrow> bool" where
  "default_serial opts \<longleftrightarrow> so_errorPrefix opts = None \<and> so_outputPrefix opts = None"

text \<open>A line a device sends: noise without an opening brace, the packet, more noise.\<close>

lemma handle_packet_line:
  assumes "default_serial opts" "json_ok (p_message p)" "is_service_message (p_message p)"
  shows "handle_line opts (HELIX_SERIAL_OUTPUT_PREFIX @ encode_packet p) = [Delivered p]"
proof -
  obtain es where es: "packet_json p = JObj es" by (simp add: packet_json_def)
  have enc: "encode_packet p = json_print (JObj es)" by (simp add: encode_packet_def es)
  have tr: "trim (HELIX_SERIAL_OUTPUT_PREFIX @ encode_packet p) = HELIX_SERIAL_OUTPUT_PREFIX @ encode_packet p"
    by (rule trim_id) (simp add: enc HELIX_SERIAL_OUTPUT_PREFIX_def js_space_simps)
  have ne: "\<not> starts_with HELIX_SERIAL_ERROR_PREFIX (HELIX_SERIAL_OUTPUT_PREFIX @ encode_packet p)"
    by (simp add: HELIX_SERIAL_OUTPUT_PREFIX_def HELIX_SERIAL_ERROR_PREFIX_def)
  have ex: "extract_json_object (encode_packet p) = Some (encode_packet p)"
    using extract_noise[of "[]" es "[]"] by (simp add: enc)
  show ?thesis
    using assms unfolding handle_line_def Let_def tr default_serial_def
    by (simp add: or_default_def ne ex decode_encode_packet)
qed

lemma split_lines_crlf:
  "\<forall>c \<in> set l. 32 \<le> (of_char c :: nat) \<Longrightarrow>
   split_lines (l @ CHR 0x0D # CHR 0x0A # r) = l # split_lines r"
proof (induction l)
  case (Cons c l)
  then have "c \<noteq> CHR 0x0A" "c \<noteq> CHR 0x0D" by auto
  with Cons show ?case by simp
qed simp

definition device_line :: "packet \<Rightarrow> string" where
  "device_line p = HELIX_SERIAL_OUTPUT_PREFIX @ encode_packet p @ [CHR 0x0D, CHR 0x0A]"

lemma split_device_lines:
  "split_lines (concat (map device_line ps)) = map (\<lambda>p. HELIX_SERIAL_OUTPUT_PREFIX @ encode_packet p) ps @ [[]]"
proof (induction ps)
  case (Cons p ps)
  have "\<forall>c \<in> set (HELIX_SERIAL_OUTPUT_PREFIX @ encode_packet p). 32 \<le> (of_char c :: nat)"
    using print_printable(1) by (auto simp: HELIX_SERIAL_OUTPUT_PREFIX_def encode_packet_def)
  from split_lines_crlf[OF this, of "concat (map device_line ps)"] Cons show ?case
    by (simp add: device_line_def[of p])
qed simp

text \<open>C31: Serial delivery. However the UTF-8 bytes of a port are cut into chunks, also inside a
  character, the service packets a device prints, one per line, are delivered exactly and in order,
  and afterwards the buffer is empty and the decoder between characters: as long as the decoder
  is between characters at first and no other port is read meanwhile.\<close>

theorem serial_delivers:
  assumes "default_serial opts" "\<forall>p \<in> set ps. json_ok (p_message p) \<and> is_service_message (p_message p)"
    and "concat chunks = utf8 (concat (map device_line ps))" and "resting d"
  shows "\<exists>d1. resting d1 \<and> read_loop opts (d, []) chunks = ((d1, []), map Delivered ps)"
proof -
  obtain d1 where d1: "resting d1" "decode_stream (concat chunks) d = (concat (map device_line ps), d1)"
    using decode_stream_utf8[OF assms(4)] assms(3) by metis
  have "concat (map (handle_line opts) (map (\<lambda>p. HELIX_SERIAL_OUTPUT_PREFIX @ encode_packet p) ps)) = map Delivered ps"
    using assms(1,2) by (induction ps) (simp_all add: handle_packet_line)
  then have "read_loop opts (d, []) chunks = ((d1, []), map Delivered ps)"
    using read_loop_chunks[of "[]" chunks d _ d1 opts] d1(2) split_device_lines[of ps]
    by (simp add: butlast_append)
  with d1(1) show ?thesis by blast
qed

text \<open>The witness cuts the two bytes of a character apart.\<close>

definition demo_service_packet :: packet where
  "demo_service_packet = create_service_packet ''lamp'' ''on'' (Some (JStr (''x{y'' @ [CHR 0xE9])))"

definition demo_serial_options :: serial_options where
  "demo_serial_options = \<lparr>so_errorPrefix = None, so_inputPrefix = None, so_outputPrefix = None, so_baudRate = None,
     so_bufferSize = None, so_filters = [], so_port = None\<rparr>"

lemma demo_serial_ok:
  "default_serial demo_serial_options" "json_ok (p_message demo_service_packet)" "is_service_message (p_message demo_service_packet)"
  by (simp_all add: default_serial_def demo_serial_options_def demo_service_packet_def create_service_packet_def
      create_service_message_def is_service_message_def is_str_def)

theorem serial_delivers_witness:
  "(utf8 (device_line demo_service_packet)) ! 55 = 0xC3 \<and>
   (\<exists>d. read_loop demo_serial_options (new_decoder, [])
     [take 56 (utf8 (device_line demo_service_packet)), drop 56 (utf8 (device_line demo_service_packet))] =
   ((d, []), [Delivered demo_service_packet]))"
proof
  have "\<exists>d. resting d \<and> read_loop demo_serial_options (new_decoder, [])
     [take 56 (utf8 (device_line demo_service_packet)), drop 56 (utf8 (device_line demo_service_packet))]
     = ((d, []), map Delivered [demo_service_packet])"
    by (rule serial_delivers) (use demo_serial_ok in simp_all)
  then show "\<exists>d. read_loop demo_serial_options (new_decoder, [])
     [take 56 (utf8 (device_line demo_service_packet)), drop 56 (utf8 (device_line demo_service_packet))] =
   ((d, []), [Delivered demo_service_packet])" by auto
  show "(utf8 (device_line demo_service_packet)) ! 55 = 0xC3" by code_simp
qed

text \<open>The decoder outlives the connection: when a device is unplugged inside a character, the first
  line of the next device is damaged, whichever client reads it.\<close>

lemma shared_decoder_corrupts:
  "\<exists>d. decode_codes [0xC3] new_decoder = ([], d)
    \<and> (\<forall>bs. fst (decode_codes (0x48 # bs) d) = 0xFFFD # fst (decode_codes (0x48 # bs) (d\<lparr>td_left := 0, td_code := 0, td_bomSeen := True\<rparr>)))"
  by (simp add: decode_byte_def start_byte_def new_decoder_def between_chars_def emit_code_def split: prod.splits)

end
