(* ===== verification/Packet_Transports.thy ===== *)
theory Packet_Transports
  imports Protocol
begin

text \<open>
  The packet transports over a WebSocket and over an MQTT adapter
  (\<open>web/packages/protocol/src/websocket/index.ts\<close>, \<open>mqtt/index.ts\<close>) and the adapter that
  carries stream frames over a WebRTC data channel (\<open>peer/transport.ts\<close>). A subscription
  is a number; the socket, the broker and the channel are the environment.
\<close>

section \<open>Packet transports\<close>

record packet_transport =
  pt_handlers :: "nat list"
  pt_open :: bool
  pt_sent :: "string list"

definition pt_subscribe :: "nat \<Rightarrow> packet_transport \<Rightarrow> packet_transport" where
  "pt_subscribe h t = t\<lparr>pt_handlers := set_add h (pt_handlers t)\<rparr>"

definition pt_unsubscribe :: "nat \<Rightarrow> packet_transport \<Rightarrow> packet_transport" where
  "pt_unsubscribe h t = t\<lparr>pt_handlers := removeAll h (pt_handlers t)\<rparr>"

text \<open>An undecodable message throws before any handler runs.\<close>

definition pt_deliver :: "string \<Rightarrow> packet_transport \<Rightarrow> protocol_error + (nat \<times> packet) list" where
  "pt_deliver wire t =
     (case decode_packet wire of
        Inl e \<Rightarrow> Inl e
      | Inr p \<Rightarrow> Inr (map (\<lambda>h. (h, p)) (pt_handlers t)))"

definition ws_message :: "string \<Rightarrow> packet_transport \<Rightarrow> protocol_error + (nat \<times> packet) list" where
  "ws_message wire t = pt_deliver wire t"

definition ws_send :: "packet \<Rightarrow> packet_transport \<Rightarrow> packet_transport" where
  "ws_send p t = t\<lparr>pt_sent := pt_sent t @ [encode_packet p]\<rparr>"

definition ws_close :: "packet_transport \<Rightarrow> packet_transport" where
  "ws_close t = t\<lparr>pt_open := False\<rparr>"

text \<open>The MQTT adapter stops calling back once \<open>close\<close> unsubscribed.\<close>

definition mqtt_message :: "string \<Rightarrow> packet_transport \<Rightarrow> protocol_error + (nat \<times> packet) list" where
  "mqtt_message wire t = (if pt_open t then pt_deliver wire t else Inr [])"

definition mqtt_send :: "packet \<Rightarrow> packet_transport \<Rightarrow> packet_transport" where
  "mqtt_send p t = t\<lparr>pt_sent := pt_sent t @ [encode_packet p]\<rparr>"

definition mqtt_close :: "packet_transport \<Rightarrow> packet_transport" where
  "mqtt_close t = t\<lparr>pt_open := False\<rparr>"

text \<open>A transport between two ends: what one sends, every handler of the other gets.\<close>

locale packet_link =
  fixes send :: "packet \<Rightarrow> packet_transport \<Rightarrow> packet_transport"
    and message :: "string \<Rightarrow> packet_transport \<Rightarrow> protocol_error + (nat \<times> packet) list"
  assumes send_wire: "pt_sent (send p t) = pt_sent t @ [encode_packet p]"
    and message_open: "pt_open t \<Longrightarrow> message w t = pt_deliver w t"
begin

lemma delivered:
  "json_ok (p_message p) \<Longrightarrow> pt_open r \<Longrightarrow>
   message (last (pt_sent (send p t))) r = Inr (map (\<lambda>h. (h, p)) (pt_handlers r))"
  by (simp add: send_wire message_open pt_deliver_def decode_encode_packet)

end

interpretation ws: packet_link ws_send ws_message
  by unfold_locales (simp_all add: ws_send_def ws_message_def)

interpretation mqtt: packet_link mqtt_send mqtt_message
  by unfold_locales (simp_all add: mqtt_send_def mqtt_message_def)

section \<open>The data channel\<close>

text \<open>
  \<open>RTCDataChannel.send\<close> never blocks: \<open>dc_buffered\<close> is the channel's \<open>bufferedAmount\<close>, which
  a send raises and the network lowers; frames wait in \<open>dc_backlog\<close> while it is high.
\<close>

definition HIGH_WATER_BYTES :: nat where
  "HIGH_WATER_BYTES = 1048576"

record data_channel =
  dc_open :: bool
  dc_buffered :: nat
  dc_backlog :: "bytes list"
  dc_flushing :: bool
  dc_wire :: "bytes list"

definition new_channel :: data_channel where
  "new_channel = \<lparr>dc_open = True, dc_buffered = 0, dc_backlog = [], dc_flushing = False, dc_wire = []\<rparr>"

definition channel_put :: "bytes \<Rightarrow> data_channel \<Rightarrow> data_channel" where
  "channel_put d c = c\<lparr>dc_buffered := dc_buffered c + length d, dc_wire := dc_wire c @ [d]\<rparr>"

definition dc_send :: "bytes \<Rightarrow> data_channel \<Rightarrow> data_channel" where
  "dc_send d c =
     (if \<not> dc_open c then c
      else if dc_flushing c \<or> HIGH_WATER_BYTES < dc_buffered c
      then c\<lparr>dc_flushing := True, dc_backlog := dc_backlog c @ [d]\<rparr>
      else channel_put d c)"

text \<open>The loop of the \<open>bufferedamountlow\<close> listener.\<close>

fun drain_backlog :: "bytes list \<Rightarrow> data_channel \<Rightarrow> data_channel" where
  "drain_backlog [] c = c\<lparr>dc_backlog := []\<rparr>"
| "drain_backlog (d # ds) c =
     (if dc_buffered c \<le> HIGH_WATER_BYTES
      then drain_backlog ds (if dc_open c then channel_put d c else c)
      else c\<lparr>dc_backlog := d # ds\<rparr>)"

definition dc_low :: "data_channel \<Rightarrow> data_channel" where
  "dc_low c = (let c1 = drain_backlog (dc_backlog c) c in c1\<lparr>dc_flushing := (dc_backlog c1 \<noteq> [])\<rparr>)"

definition dc_close :: "data_channel \<Rightarrow> data_channel" where
  "dc_close c = c\<lparr>dc_open := False\<rparr>"

datatype channel_input = ChSend bytes | ChDrained nat | ChClose

text \<open>The network sent \<open>n\<close> bytes; the listener runs when the buffer falls to half the mark.\<close>

fun channel_step :: "channel_input \<Rightarrow> data_channel \<Rightarrow> data_channel option" where
  "channel_step (ChSend d) c = Some (dc_send d c)"
| "channel_step (ChDrained n) c =
     (let c1 = c\<lparr>dc_buffered := dc_buffered c - n\<rparr>
      in Some (if HIGH_WATER_BYTES div 2 < dc_buffered c \<and> dc_buffered c1 \<le> HIGH_WATER_BYTES div 2
               then dc_low c1 else c1))"
| "channel_step ChClose c = Some (dc_close c)"

fun sent_of :: "channel_input list \<Rightarrow> bytes list" where
  "sent_of [] = []"
| "sent_of (ChSend d # is) = d # sent_of is"
| "sent_of (_ # is) = sent_of is"

definition channel_ok :: "data_channel \<Rightarrow> bool" where
  "channel_ok c \<longleftrightarrow> dc_flushing c = (dc_backlog c \<noteq> []) \<and>
     (dc_backlog c \<noteq> [] \<longrightarrow> HIGH_WATER_BYTES div 2 < dc_buffered c)"

lemma drain_backlog_split:
  "dc_open c \<Longrightarrow> dc_wire (drain_backlog ds c) @ dc_backlog (drain_backlog ds c) = dc_wire c @ ds"
  by (induction ds arbitrary: c) (simp_all add: channel_put_def)

lemma drain_backlog_open [simp]: "dc_open (drain_backlog ds c) = dc_open c"
  by (induction ds arbitrary: c) (simp_all add: channel_put_def)

lemma drain_backlog_high:
  "dc_backlog (drain_backlog ds c) \<noteq> [] \<Longrightarrow> HIGH_WATER_BYTES < dc_buffered (drain_backlog ds c)"
  by (induction ds arbitrary: c) (auto split: if_splits)

lemma channel_step_ok: "channel_ok c \<Longrightarrow> channel_step i c = Some d \<Longrightarrow> channel_ok d"
proof (cases i)
  case (ChDrained n)
  then show "channel_ok c \<Longrightarrow> channel_step i c = Some d \<Longrightarrow> ?thesis"
    using drain_backlog_high[of "dc_backlog c" "c\<lparr>dc_buffered := dc_buffered c - n\<rparr>"]
    by (auto simp: channel_ok_def dc_low_def Let_def split: if_splits)
qed (auto simp: channel_ok_def dc_send_def dc_close_def channel_put_def HIGH_WATER_BYTES_def split: if_splits)

interpretation channel: total_machine channel_step channel_ok
proof
  show "channel_ok c \<Longrightarrow> channel_step i c = Some d \<Longrightarrow> channel_ok d" for c i d by (rule channel_step_ok)
  show "\<exists>d. channel_step i c = Some d" for i c by (cases i) (simp_all add: Let_def)
qed

lemma channel_step_wire:
  assumes "channel_ok c" "channel_step i c = Some d" "dc_open d"
  shows "dc_open c \<and> dc_wire d @ dc_backlog d = dc_wire c @ dc_backlog c @ sent_of [i]"
  using assms
  by (cases i) (auto simp: dc_send_def dc_close_def dc_low_def channel_put_def channel_ok_def Let_def
      drain_backlog_split split: if_splits)

lemma channel_run_wire:
  "channel_ok c \<Longrightarrow> run_steps channel_step is c = Some d \<Longrightarrow> dc_open d \<Longrightarrow>
   dc_wire d @ dc_backlog d = dc_wire c @ dc_backlog c @ sent_of is"
proof (induction "is" arbitrary: c)
  case (Cons i "is")
  obtain e where e: "channel_step i c = Some e" "run_steps channel_step is e = Some d"
    using Cons.prems(2) by (auto simp: bind_eq_Some_conv)
  have ok: "channel_ok e" by (rule channel_step_ok[OF Cons.prems(1) e(1)])
  have mono: "dc_open e"
    using ok e(2) Cons.prems(3)
  proof (induction "is" arbitrary: e)
    case (Cons j js)
    then obtain f where "channel_step j e = Some f" "run_steps channel_step js f = Some d"
      by (auto simp: bind_eq_Some_conv)
    with Cons channel_step_ok channel_step_wire show ?case by blast
  qed simp
  have "sent_of (i # is) = sent_of [i] @ sent_of is" by (cases i) simp_all
  with Cons.IH[OF ok e(2) Cons.prems(3)] channel_step_wire[OF Cons.prems(1) e(1) mono] show ?case by simp
qed simp

text \<open>The data channel keeps the order stream frames need: while it is open, what is on the
  wire followed by the backlog is exactly what was sent, in order, and frames only wait
  while more than half the high-water mark is buffered, so a drained channel never stalls.\<close>

theorem channel_in_order:
  assumes "run_steps channel_step is new_channel = Some c" "dc_open c"
  shows "dc_wire c @ dc_backlog c = sent_of is \<and>
    (dc_backlog c \<noteq> [] \<longrightarrow> HIGH_WATER_BYTES div 2 < dc_buffered c)"
proof -
  have ok: "channel_ok new_channel" by (simp add: channel_ok_def new_channel_def)
  show ?thesis
    using channel_run_wire[OF ok assms] channel.run_inv[OF ok assms(1)]
    by (simp add: channel_ok_def new_channel_def)
qed

theorem channel_in_order_witness:
  "\<exists>c. run_steps channel_step [ChSend [1], ChSend [2, 3], ChDrained 3] new_channel = Some c \<and>
     dc_wire c @ dc_backlog c = [[1], [2, 3]]"
proof -
  have "\<exists>c. run_steps channel_step [ChSend [1], ChSend [2, 3], ChDrained 3] new_channel = Some c \<and> dc_open c"
    by (simp add: new_channel_def dc_send_def channel_put_def HIGH_WATER_BYTES_def)
  then obtain c where c: "run_steps channel_step [ChSend [1], ChSend [2, 3], ChDrained 3] new_channel = Some c"
    "dc_open c" by blast
  from channel_in_order[OF c] c(1) show ?thesis by auto
qed

end
