(* ===== verification/Gateway.thy ===== *)
theory Gateway
  imports Protocol
begin

text \<open>
  The device gateway (\<open>web/packages/helix-backend/src/gateway/\<close>): browsers connect over
  WebSockets, devices over MQTT, and the router decides which browsers see a packet of a
  device. Connection ids, the clock and the decoded request URL are inputs; what the
  gateway sends is appended to \<open>g_out\<close>.
\<close>

section \<open>The router\<close>

record gw_client =
  gc_auth :: "string option"
  gc_connectionId :: string
  gc_deviceId :: string

datatype gw_obs = ToDevice string packet | ToClient string packet | GatewayError string

record gateway =
  g_clients :: "(string, gw_client) js_map"
  g_ttl :: nat
  g_requestOwners :: "(string, string \<times> nat) js_map"
  g_sessionOwners :: "(string, string) js_map"
  g_out :: "gw_obs list"

definition DEFAULT_REQUEST_OWNER_TTL_MS :: nat where
  "DEFAULT_REQUEST_OWNER_TTL_MS = 120000"

definition new_gateway :: "nat option \<Rightarrow> gateway" where
  "new_gateway ttl = \<lparr>g_clients = [],
     g_ttl = (case ttl of None \<Rightarrow> DEFAULT_REQUEST_OWNER_TTL_MS | Some n \<Rightarrow> n),
     g_requestOwners = [], g_sessionOwners = [], g_out = []\<rparr>"

definition request_owner_key :: "string \<Rightarrow> string \<Rightarrow> string" where
  "request_owner_key deviceId requestId = nat_str (length deviceId) @ '':'' @ deviceId @ requestId"

definition session_id_of :: "packet \<Rightarrow> string option" where
  "session_id_of p =
     (case json_get (p_message p) ''payload'' of
        Some payload \<Rightarrow>
          (case json_get payload ''sessionId'' of
             Some (JStr s) \<Rightarrow> if s = [] then None else Some s
           | _ \<Rightarrow> None)
      | None \<Rightarrow> None)"

definition add_client :: "gw_client \<Rightarrow> gateway \<Rightarrow> gateway" where
  "add_client c g = g\<lparr>g_clients := map_set (gc_connectionId c) c (g_clients g)\<rparr>"

definition remove_client :: "string \<Rightarrow> gateway \<Rightarrow> gateway" where
  "remove_client connectionId g =
     g\<lparr>g_clients := map_delete connectionId (g_clients g),
       g_requestOwners := filter (\<lambda>(_, owner). fst owner \<noteq> connectionId) (g_requestOwners g),
       g_sessionOwners := filter (\<lambda>(_, owner). owner \<noteq> connectionId) (g_sessionOwners g)\<rparr>"

definition gw_log :: "gw_obs list \<Rightarrow> gateway \<Rightarrow> gateway" where
  "gw_log os g = g\<lparr>g_out := g_out g @ os\<rparr>"

definition learn_session :: "string \<Rightarrow> string \<Rightarrow> packet \<Rightarrow> gateway \<Rightarrow> gateway" where
  "learn_session deviceId connectionId p g =
     (case session_id_of p of
        None \<Rightarrow> g
      | Some sessionId \<Rightarrow>
          (let key = request_owner_key deviceId sessionId
           in case map_get (g_sessionOwners g) key of
                Some owner \<Rightarrow>
                  if map_has (g_clients g) owner then g
                  else g\<lparr>g_sessionOwners := map_set key connectionId (g_sessionOwners g)\<rparr>
              | None \<Rightarrow> g\<lparr>g_sessionOwners := map_set key connectionId (g_sessionOwners g)\<rparr>))"

definition receive_from_client :: "nat \<Rightarrow> string \<Rightarrow> packet \<Rightarrow> gateway \<Rightarrow> gateway" where
  "receive_from_client now connectionId p g =
     (case map_get (g_clients g) connectionId of
        None \<Rightarrow> g
      | Some client \<Rightarrow>
          (let deviceId = gc_deviceId client;
               g1 = learn_session deviceId connectionId p g;
               g2 = (case p_requestId p of
                       None \<Rightarrow> g1
                     | Some r \<Rightarrow> g1\<lparr>g_requestOwners := map_set (request_owner_key deviceId r)
                           (connectionId, now + g_ttl g1) (g_requestOwners g1)\<rparr>)
           in gw_log [ToDevice deviceId p] g2))"

definition broadcast_from_device :: "string \<Rightarrow> packet \<Rightarrow> gateway \<Rightarrow> gateway" where
  "broadcast_from_device deviceId p g =
     gw_log (map (\<lambda>(_, c). ToClient (gc_connectionId c) p)
       (filter (\<lambda>(_, c). gc_deviceId c = deviceId) (g_clients g))) g"

text \<open>A connected client of this very device.\<close>

definition client_of :: "string \<Rightarrow> string option \<Rightarrow> gateway \<Rightarrow> gw_client option" where
  "client_of deviceId owner g =
     (case Option.bind owner (map_get (g_clients g)) of
        None \<Rightarrow> None
      | Some c \<Rightarrow> if gc_deviceId c = deviceId then Some c else None)"

definition deliver_session :: "string \<Rightarrow> packet \<Rightarrow> gateway \<Rightarrow> gateway" where
  "deliver_session deviceId p g =
     (case Option.bind (session_id_of p)
             (\<lambda>s. client_of deviceId (map_get (g_sessionOwners g) (request_owner_key deviceId s)) g) of
        Some c \<Rightarrow> gw_log [ToClient (gc_connectionId c) p] g
      | None \<Rightarrow> broadcast_from_device deviceId p g)"

definition receive_from_device :: "nat \<Rightarrow> string \<Rightarrow> packet \<Rightarrow> gateway \<Rightarrow> gateway" where
  "receive_from_device now deviceId p g =
     (case p_requestId p of
        None \<Rightarrow> deliver_session deviceId p g
      | Some r \<Rightarrow>
          (let ownerKey = request_owner_key deviceId r
           in case map_get (g_requestOwners g) ownerKey of
                None \<Rightarrow> deliver_session deviceId p g
              | Some (owner, expiresAt) \<Rightarrow>
                  if expiresAt \<le> now
                  then deliver_session deviceId p (g\<lparr>g_requestOwners := map_delete ownerKey (g_requestOwners g)\<rparr>)
                  else (case client_of deviceId (Some owner) g of
                          Some c \<Rightarrow> gw_log [ToClient (gc_connectionId c) p] g
                        | None \<Rightarrow> deliver_session deviceId p g)))"

datatype gw_input =
    GConnect gw_client | GDisconnect string | GFromClient nat string packet | GFromDevice nat string packet

fun gateway_step :: "gw_input \<Rightarrow> gateway \<Rightarrow> gateway option" where
  "gateway_step (GConnect c) g = Some (add_client c g)"
| "gateway_step (GDisconnect i) g = Some (remove_client i g)"
| "gateway_step (GFromClient now i p) g = Some (receive_from_client now i p g)"
| "gateway_step (GFromDevice now d p) g = Some (receive_from_device now d p g)"

section \<open>The MQTT and WebSocket bridge\<close>

definition POLICY_VIOLATION_CLOSE_CODE :: nat where
  "POLICY_VIOLATION_CLOSE_CODE = 1008"

definition device_in_topic :: "string \<Rightarrow> string" where
  "device_in_topic deviceId = ''helix/device/'' @ deviceId @ ''/in''"

text \<open>\<open>parseConnection\<close>: \<open>params\<close> are the query parameters, \<open>b64\<close> is Node's
  \<open>Buffer.from(_, 'base64url').toString('utf8')\<close>.\<close>

definition query_connection :: "(string, string) js_map \<Rightarrow> string + string \<times> string option" where
  "query_connection params =
     (case map_option trim (map_get params ''deviceId'') of
        None \<Rightarrow> Inl ''connection string or deviceId query parameter is required''
      | Some d \<Rightarrow>
          if d = [] then Inl ''connection string or deviceId query parameter is required''
          else Inr (d, map_get params ''token''))"

definition parse_connection ::
  "(string \<Rightarrow> string) \<Rightarrow> (string, string) js_map \<Rightarrow> string + string \<times> string option" where
  "parse_connection b64 params =
     (case map_get params ''connection'' of
        None \<Rightarrow> query_connection params
      | Some raw \<Rightarrow>
          if trim raw = [] then query_connection params
          else (case json_parse (b64 raw) of
                  None \<Rightarrow> Inl ''SyntaxError''
                | Some JNull \<Rightarrow> Inl ''TypeError''
                | Some parsed \<Rightarrow>
                    (case json_get parsed ''deviceId'' of
                       Some (JStr d) \<Rightarrow>
                         if trim d = [] then query_connection params
                         else Inr (trim d, case json_get parsed ''token'' of Some (JStr t) \<Rightarrow> Some t | _ \<Rightarrow> None)
                     | _ \<Rightarrow> query_connection params)))"

definition read_packet :: "string \<Rightarrow> string + packet" where
  "read_packet wire =
     (case decode_packet wire of
        Inl _ \<Rightarrow> Inl ''Invalid Helix packet''
      | Inr p \<Rightarrow>
          if is_service_message (p_message p) then Inr p
          else Inl ''Helix packet message must contain service and method.'')"

text \<open>The device of an \<open>out\<close> topic.\<close>

definition out_topic_device :: "string \<Rightarrow> string option" where
  "out_topic_device topic =
     (case split_on (CHR ''/'') topic of
        [a, b, d, e] \<Rightarrow> if a = ''helix'' \<and> b = ''device'' \<and> d \<noteq> [] \<and> e = ''out'' then Some d else None
      | _ \<Rightarrow> None)"

text \<open>An MQTT message; \<open>Inl\<close> is an exception nobody catches.\<close>

definition on_mqtt_message :: "nat \<Rightarrow> string \<Rightarrow> string \<Rightarrow> gateway \<Rightarrow> protocol_error + gateway" where
  "on_mqtt_message now topic payload g =
     (case out_topic_device topic of
        None \<Rightarrow> Inr g
      | Some deviceId \<Rightarrow>
          (case decode_packet payload of
             Inl e \<Rightarrow> Inl e
           | Inr p \<Rightarrow>
               if is_service_message (p_message p) then Inr (receive_from_device now deviceId p g) else Inr g))"

text \<open>A new WebSocket: the code and reason it is closed with, or the gateway with its client.\<close>

definition on_connection ::
  "(string \<Rightarrow> string) \<Rightarrow> (string, string) js_map \<Rightarrow> string \<Rightarrow> gateway \<Rightarrow> nat \<times> string + gateway" where
  "on_connection b64 params connectionId g =
     (case parse_connection b64 params of
        Inl e \<Rightarrow> Inl (POLICY_VIOLATION_CLOSE_CODE, e)
      | Inr (d, token) \<Rightarrow>
          Inr (add_client \<lparr>gc_auth = token, gc_connectionId = connectionId, gc_deviceId = d\<rparr> g))"

definition on_socket_message :: "nat \<Rightarrow> string \<Rightarrow> string \<Rightarrow> gateway \<Rightarrow> gateway" where
  "on_socket_message now connectionId wire g =
     (case read_packet wire of
        Inl e \<Rightarrow> gw_log [GatewayError e] g
      | Inr p \<Rightarrow> receive_from_client now connectionId p g)"

section \<open>The upgrade router\<close>

type_synonym upgrade_routes = "(string, nat) js_map"

definition upgrade_register :: "string \<Rightarrow> nat \<Rightarrow> upgrade_routes \<Rightarrow> upgrade_routes" where
  "upgrade_register path handler routes = map_set path handler routes"

definition upgrade_dispose :: "string \<Rightarrow> nat \<Rightarrow> upgrade_routes \<Rightarrow> upgrade_routes" where
  "upgrade_dispose path handler routes =
     (if map_get routes path = Some handler then map_delete path routes else routes)"

text \<open>The handler of a request; \<^const>\<open>None\<close> destroys the socket.\<close>

definition on_upgrade :: "string option \<Rightarrow> upgrade_routes \<Rightarrow> nat option" where
  "on_upgrade url routes =
     map_get routes (hd (split_on (CHR ''?'') (case url of None \<Rightarrow> ''/'' | Some u \<Rightarrow> u)))"

lemma upgrade_laws:
  "on_upgrade url (upgrade_register p h routes) =
     (if hd (split_on (CHR ''?'') (case url of None \<Rightarrow> ''/'' | Some u \<Rightarrow> u)) = p then Some h else on_upgrade url routes)"
  "upgrade_dispose p h (upgrade_register p h routes) = map_delete p (map_set p h routes)"
  "h \<noteq> k \<Longrightarrow> upgrade_dispose p h (upgrade_register p k routes) = upgrade_register p k routes"
  by (simp_all add: on_upgrade_def upgrade_register_def upgrade_dispose_def)

section \<open>Keys\<close>

lemma request_owner_key_inject:
  "request_owner_key d r = request_owner_key e q \<longleftrightarrow> d = e \<and> r = q"
proof
  assume eq: "request_owner_key d r = request_owner_key e q"
  have nc: "CHR '':'' \<notin> set (nat_str n)" for n using nat_str_digits[of "CHR '':''" n] by auto
  have sp: "split_on (CHR '':'') (request_owner_key x y) = nat_str (length x) # split_on (CHR '':'') (x @ y)" for x y
    using split_on_append[OF nc] by (simp add: request_owner_key_def)
  have "nat_str (length d) = nat_str (length e)" using arg_cong[OF eq, of "split_on (CHR '':'')"] sp by simp
  then have "length d = length e" by simp
  with eq show "d = e \<and> r = q" by (simp add: request_owner_key_def)
qed simp

section \<open>Invariant\<close>

text \<open>A client is filed under its connection id, and session owners are connected.\<close>

definition gateway_ok :: "gateway \<Rightarrow> bool" where
  "gateway_ok g \<longleftrightarrow> map_ok (g_clients g) \<and> map_ok (g_requestOwners g) \<and> map_ok (g_sessionOwners g) \<and>
     (\<forall>i c. map_of (g_clients g) i = Some c \<longrightarrow> gc_connectionId c = i) \<and>
     (\<forall>k i. map_of (g_sessionOwners g) k = Some i \<longrightarrow> map_has (g_clients g) i)"

lemma gw_log_simps [simp]:
  "g_clients (gw_log os g) = g_clients g" "g_requestOwners (gw_log os g) = g_requestOwners g"
  "g_sessionOwners (gw_log os g) = g_sessionOwners g" "g_out (gw_log os g) = g_out g @ os"
  "g_ttl (gw_log os g) = g_ttl g"
  by (simp_all add: gw_log_def)

lemma gateway_ok_log [simp]: "gateway_ok (gw_log os g) = gateway_ok g"
  by (simp add: gateway_ok_def)

lemma deliver_session_frame [simp]:
  "g_clients (deliver_session d p g) = g_clients g" "g_requestOwners (deliver_session d p g) = g_requestOwners g"
  "g_sessionOwners (deliver_session d p g) = g_sessionOwners g" "g_ttl (deliver_session d p g) = g_ttl g"
  by (simp_all add: deliver_session_def broadcast_from_device_def split: option.splits)

lemma receive_from_device_frame [simp]:
  "g_clients (receive_from_device now d p g) = g_clients g"
  "g_sessionOwners (receive_from_device now d p g) = g_sessionOwners g"
  "g_ttl (receive_from_device now d p g) = g_ttl g"
  by (simp_all add: receive_from_device_def Let_def split: option.splits prod.splits)

lemma learn_session_frame [simp]:
  "g_clients (learn_session d i p g) = g_clients g"
  "g_requestOwners (learn_session d i p g) = g_requestOwners g" "g_ttl (learn_session d i p g) = g_ttl g"
  "g_out (learn_session d i p g) = g_out g"
  by (simp_all add: learn_session_def Let_def split: option.splits)

lemma learn_session_ok:
  "gateway_ok g \<Longrightarrow> map_has (g_clients g) i \<Longrightarrow> gateway_ok (learn_session d i p g)"
  by (auto simp: learn_session_def gateway_ok_def Let_def split: option.splits if_splits)

lemma receive_from_device_owners:
  "map_of (g_requestOwners (receive_from_device now d p g)) k =
     (case (p_requestId p, map_of (g_requestOwners g) k) of
        (Some r, Some (i, e)) \<Rightarrow> if k = request_owner_key d r \<and> e \<le> now then None else Some (i, e)
      | (_, x) \<Rightarrow> x)"
  by (auto simp: receive_from_device_def Let_def split: option.splits prod.splits)

lemma gateway_step_ok: "gateway_ok g \<Longrightarrow> gateway_step i g = Some h \<Longrightarrow> gateway_ok h"
proof (cases i)
  case (GConnect c)
  then show "gateway_ok g \<Longrightarrow> gateway_step i g = Some h \<Longrightarrow> ?thesis"
    by (auto simp: add_client_def gateway_ok_def split: if_splits)
next
  case (GDisconnect c)
  then show "gateway_ok g \<Longrightarrow> gateway_step i g = Some h \<Longrightarrow> ?thesis"
    by (auto simp: remove_client_def gateway_ok_def map_get_filter split: option.splits if_splits)
next
  case (GFromClient now c p)
  show ?thesis if ok: "gateway_ok g" and st: "gateway_step i g = Some h"
  proof (cases "map_of (g_clients g) c")
    case (Some x)
    then have "gateway_ok (learn_session (gc_deviceId x) c p g)" by (simp add: learn_session_ok ok)
    with st Some GFromClient show ?thesis
      by (auto simp: receive_from_client_def Let_def gateway_ok_def split: option.splits)
  qed (use st ok GFromClient in \<open>simp add: receive_from_client_def\<close>)
next
  case (GFromDevice now d p)
  show ?thesis if ok: "gateway_ok g" and st: "gateway_step i g = Some h"
    using st ok GFromDevice
    by (auto simp: gateway_ok_def) (auto simp: receive_from_device_def Let_def split: option.splits prod.splits)
qed

interpretation gateway: total_machine gateway_step gateway_ok
proof
  show "gateway_ok g \<Longrightarrow> gateway_step i g = Some h \<Longrightarrow> gateway_ok h" for g i h by (rule gateway_step_ok)
  show "\<exists>h. gateway_step i g = Some h" for i g by (cases i) simp_all
qed

lemma new_gateway_ok: "gateway_ok (new_gateway ttl)"
  by (simp add: gateway_ok_def new_gateway_def)

section \<open>Who receives what\<close>

lemma client_of_Some:
  "gateway_ok g \<Longrightarrow> client_of d owner g = Some c \<Longrightarrow>
   map_of (g_clients g) (gc_connectionId c) = Some c \<and> gc_deviceId c = d \<and> owner = Some (gc_connectionId c)"
  by (auto simp: client_of_def gateway_ok_def bind_eq_Some_conv split: option.splits if_splits)

definition reaches_only :: "string \<Rightarrow> packet \<Rightarrow> gateway \<Rightarrow> gateway \<Rightarrow> bool" where
  "reaches_only d p g h \<longleftrightarrow>
     (\<exists>cs. g_out h = g_out g @ map (\<lambda>c. ToClient (gc_connectionId c) p) cs \<and>
       (\<forall>c \<in> set cs. map_of (g_clients g) (gc_connectionId c) = Some c \<and> gc_deviceId c = d))"

lemma reaches_only_one:
  assumes "map_of (g_clients g) (gc_connectionId c) = Some c" "gc_deviceId c = d"
  shows "reaches_only d p g (gw_log [ToClient (gc_connectionId c) p] g)"
  unfolding reaches_only_def by (rule exI[of _ "[c]"]) (simp add: assms)

lemma deliver_session_only:
  assumes "gateway_ok g"
  shows "reaches_only d p g (deliver_session d p g)"
proof (cases "Option.bind (session_id_of p)
    (\<lambda>s. client_of d (map_get (g_sessionOwners g) (request_owner_key d s)) g)")
  case None
  define cs where "cs = map snd (filter (\<lambda>(_, c). gc_deviceId c = d) (g_clients g))"
  have "map_of (g_clients g) (gc_connectionId c) = Some c \<and> gc_deviceId c = d" if mem: "c \<in> set cs" for c
  proof -
    obtain i where i: "(i, c) \<in> set (g_clients g)" "gc_deviceId c = d"
      using mem unfolding cs_def by (auto simp: image_iff split: prod.splits)
    have "map_of (g_clients g) i = Some c"
      using i(1) assms by (simp add: gateway_ok_def map_get_iff_mem)
    moreover from this have "gc_connectionId c = i" using assms unfolding gateway_ok_def by blast
    ultimately show ?thesis using i(2) by simp
  qed
  moreover have "g_out (broadcast_from_device d p g) = g_out g @ map (\<lambda>c. ToClient (gc_connectionId c) p) cs"
    by (simp add: broadcast_from_device_def cs_def case_prod_unfold comp_def)
  ultimately have "reaches_only d p g (broadcast_from_device d p g)"
    unfolding reaches_only_def by blast
  with None show ?thesis by (simp add: deliver_session_def)
next
  case (Some c)
  then obtain i where "client_of d i g = Some c" by (auto simp: bind_eq_Some_conv)
  note client_of_Some[OF assms this]
  moreover have "deliver_session d p g = gw_log [ToClient (gc_connectionId c) p] g"
    unfolding deliver_session_def Some by (rule option.case(2))
  ultimately show ?thesis using reaches_only_one[of g c d p] by metis
qed

lemma receive_from_device_only:
  assumes ok: "gateway_ok g"
  shows "reaches_only d p g (receive_from_device now d p g)"
proof -
  have del: "gateway_ok (g\<lparr>g_requestOwners := map_delete k (g_requestOwners g)\<rparr>)" for k
    using ok by (simp add: gateway_ok_def)
  have dropped: "reaches_only d p g (deliver_session d p (g\<lparr>g_requestOwners := map_delete k (g_requestOwners g)\<rparr>))" for k
    using deliver_session_only[OF del, of d p k] by (simp add: reaches_only_def)
  have owner: "reaches_only d p g (gw_log [ToClient (gc_connectionId c) p] g)" if "client_of d i g = Some c" for c i
    using client_of_Some[OF ok that] reaches_only_one by blast
  show ?thesis
    using deliver_session_only[OF ok] dropped owner
    by (auto simp: receive_from_device_def Let_def split: option.splits prod.splits)
qed

text \<open>C1: Isolation. In every reachable state, a packet of a device reaches only browsers that
  are connected for that device, and a browser's packet reaches only the device its
  connection was opened for.\<close>

theorem gateway_isolation:
  assumes "run_steps gateway_step is (new_gateway ttl) = Some g"
  shows "reaches_only d p g (receive_from_device now d p g) \<and>
    (\<exists>os. g_out (receive_from_client now i p g) = g_out g @ os \<and>
       (\<forall>x \<in> set os. \<exists>c. map_of (g_clients g) i = Some c \<and> x = ToDevice (gc_deviceId c) p))"
proof -
  have ok: "gateway_ok g" by (rule gateway.run_inv[OF new_gateway_ok assms])
  have "\<exists>os. g_out (receive_from_client now i p g) = g_out g @ os \<and>
       (\<forall>x \<in> set os. \<exists>c. map_of (g_clients g) i = Some c \<and> x = ToDevice (gc_deviceId c) p)"
    by (cases "map_of (g_clients g) i") (simp_all add: receive_from_client_def Let_def split: option.splits)
  with receive_from_device_only[OF ok] show ?thesis by blast
qed

definition demo_conn :: "string \<Rightarrow> string \<Rightarrow> gw_client" where
  "demo_conn i d = \<lparr>gc_auth = None, gc_connectionId = i, gc_deviceId = d\<rparr>"

definition demo_event :: packet where
  "demo_event = \<lparr>p_message = JObj [(''service'', JStr ''a''), (''method'', JStr ''b'')], p_requestId = None\<rparr>"

definition demo_gateway :: gateway where
  "demo_gateway = the (run_steps gateway_step
     [GConnect (demo_conn ''c1'' ''d1''), GConnect (demo_conn ''c2'' ''d2''), GConnect (demo_conn ''c3'' ''d1'')]
     (new_gateway None))"

lemma demo_gateway_run:
  "run_steps gateway_step
     [GConnect (demo_conn ''c1'' ''d1''), GConnect (demo_conn ''c2'' ''d2''), GConnect (demo_conn ''c3'' ''d1'')]
     (new_gateway None) = Some demo_gateway"
  by (simp add: demo_gateway_def)

theorem gateway_isolation_witness:
  "reaches_only ''d1'' demo_event demo_gateway (receive_from_device 5 ''d1'' demo_event demo_gateway)"
  using gateway_isolation[OF demo_gateway_run] by blast

text \<open>Events that leave the owner \<open>i\<close> of request \<open>r\<close> of device \<open>d\<close> alone until time \<open>e\<close>: it does not
  disconnect, its connection id is not given away, no browser of the same device uses the request id,
  and the device's responses to it come in time. Anything else may happen: browsers of other devices
  may use the same id, other devices may answer to it at any time.\<close>

definition leaves_owner :: "string \<Rightarrow> string \<Rightarrow> string \<Rightarrow> nat \<Rightarrow> gateway \<Rightarrow> gw_input \<Rightarrow> bool" where
  "leaves_owner d i r e g x =
     (case x of
        GConnect c \<Rightarrow> gc_connectionId c \<noteq> i
      | GDisconnect j \<Rightarrow> j \<noteq> i
      | GFromClient _ j p \<Rightarrow> p_requestId p = Some r \<longrightarrow>
          (case map_get (g_clients g) j of None \<Rightarrow> True | Some c \<Rightarrow> gc_deviceId c \<noteq> d)
      | GFromDevice now f p \<Rightarrow> f = d \<and> p_requestId p = Some r \<longrightarrow> now < e)"

fun all_leave_owner :: "string \<Rightarrow> string \<Rightarrow> string \<Rightarrow> nat \<Rightarrow> gw_input list \<Rightarrow> gateway \<Rightarrow> bool" where
  "all_leave_owner d i r e [] g = True"
| "all_leave_owner d i r e (x # xs) g = (leaves_owner d i r e g x
     \<and> (case gateway_step x g of None \<Rightarrow> True | Some h \<Rightarrow> all_leave_owner d i r e xs h))"

lemma receive_from_client_owners:
  assumes "p_requestId p = Some r \<longrightarrow> (case map_get (g_clients g) j of None \<Rightarrow> True | Some c \<Rightarrow> gc_deviceId c \<noteq> d)"
  shows "map_of (g_requestOwners (receive_from_client now j p g)) (request_owner_key d r) =
     map_of (g_requestOwners g) (request_owner_key d r)"
  using assms by (auto simp: receive_from_client_def Let_def request_owner_key_inject split: option.splits)

lemma receive_from_client_clients [simp]:
  "g_clients (receive_from_client now j p g) = g_clients g" "g_ttl (receive_from_client now j p g) = g_ttl g"
  by (simp_all add: receive_from_client_def Let_def split: option.splits)

lemma owner_kept_step:
  assumes "gateway_ok g" "map_of (g_requestOwners g) (request_owner_key d r) = Some (i, e)"
    "map_of (g_clients g) i = Some c" "leaves_owner d i r e g x" "gateway_step x g = Some h"
  shows "map_of (g_requestOwners h) (request_owner_key d r) = Some (i, e) \<and> map_of (g_clients h) i = Some c"
proof (cases x)
  case (GDisconnect j)
  with assms show ?thesis
    by (auto simp: leaves_owner_def remove_client_def gateway_ok_def map_get_filter)
next
  case (GFromClient now j p)
  from assms(4) have "p_requestId p = Some r \<longrightarrow> (case map_get (g_clients g) j of None \<Rightarrow> True | Some c \<Rightarrow> gc_deviceId c \<noteq> d)"
    unfolding GFromClient leaves_owner_def by simp
  from receive_from_client_owners[OF this, of now] GFromClient assms show ?thesis by auto
next
  case (GFromDevice now f p)
  with assms show ?thesis
    by (auto simp: leaves_owner_def receive_from_device_owners request_owner_key_inject split: option.splits)
qed (use assms in \<open>auto simp: leaves_owner_def add_client_def\<close>)

lemma owner_kept_run:
  "gateway_ok g \<Longrightarrow> map_of (g_requestOwners g) (request_owner_key d r) = Some (i, e) \<Longrightarrow>
   map_of (g_clients g) i = Some c \<Longrightarrow> all_leave_owner d i r e is g \<Longrightarrow>
   run_steps gateway_step is g = Some h \<Longrightarrow>
   map_of (g_requestOwners h) (request_owner_key d r) = Some (i, e) \<and> map_of (g_clients h) i = Some c"
proof (induction "is" arbitrary: g)
  case (Cons x xs)
  then obtain f where f: "gateway_step x g = Some f" "run_steps gateway_step xs f = Some h"
    by (auto simp: bind_eq_Some_conv)
  from owner_kept_step[OF Cons.prems(1-3) _ f(1)] Cons.prems(4)
  have "map_of (g_requestOwners f) (request_owner_key d r) = Some (i, e)" "map_of (g_clients f) i = Some c" by auto
  with Cons.IH[OF gateway_step_ok[OF Cons.prems(1) f(1)]] Cons.prems(4) f show ?case by simp
qed simp

text \<open>C2: Replies find their asker. The response of a device to a request goes to the browser that was
  the last of this device's browsers to use the request id, and to no other, as long as that browser
  stays connected under its connection id and the time to live has not passed when the device
  answers. Whatever else the gateway handles in between does not matter: browsers that come and go,
  other requests, and browsers and responses of other devices with the very same request id.\<close>

theorem gateway_reply_to_owner:
  assumes "run_steps gateway_step pre (new_gateway ttl) = Some g" "map_of (g_clients g) i = Some c"
    and "p_requestId p = Some r" "p_requestId q = Some r" "now' < now + g_ttl g"
    and "all_leave_owner (gc_deviceId c) i r (now + g_ttl g) is (receive_from_client now i p g)"
    and "run_steps gateway_step is (receive_from_client now i p g) = Some h"
  shows "receive_from_device now' (gc_deviceId c) q h = gw_log [ToClient i q] h"
proof -
  have ok: "gateway_ok g" by (rule gateway.run_inv[OF new_gateway_ok assms(1)])
  let ?f = "receive_from_client now i p g" and ?k = "request_owner_key (gc_deviceId c) r"
  have f: "gateway_ok ?f" using gateway_step_ok[OF ok, of "GFromClient now i p"] by simp
  have "map_of (g_requestOwners ?f) ?k = Some (i, now + g_ttl g)"
    using assms(2,3) by (simp add: receive_from_client_def Let_def)
  from owner_kept_run[OF f this _ assms(6,7)] assms(2)
  have h: "map_of (g_requestOwners h) ?k = Some (i, now + g_ttl g)" "map_of (g_clients h) i = Some c" by auto
  have "gc_connectionId c = i" using ok assms(2) by (simp add: gateway_ok_def)
  then have "client_of (gc_deviceId c) (Some i) h = Some c" using h(2) by (simp add: client_of_def)
  with h(1) assms(4,5) \<open>gc_connectionId c = i\<close> show ?thesis
    by (simp add: receive_from_device_def Let_def)
qed

definition demo_ask :: packet where
  "demo_ask = demo_event\<lparr>p_requestId := Some ''r1''\<rparr>"

lemma demo_gateway_clients:
  "map_of (g_clients demo_gateway) ''c1'' = Some (demo_conn ''c1'' ''d1'')" "g_ttl demo_gateway = 120000"
  "map_of (g_clients demo_gateway) ''c3'' = Some (demo_conn ''c3'' ''d1'')"
  "map_of (g_clients demo_gateway) ''c2'' = Some (demo_conn ''c2'' ''d2'')"
  "map_of (g_sessionOwners demo_gateway) k = None"
  by (simp_all add: demo_gateway_def demo_conn_def add_client_def new_gateway_def DEFAULT_REQUEST_OWNER_TTL_MS_def)

theorem gateway_reply_to_owner_witness:
  "\<exists>h. run_steps gateway_step [GFromClient 8 ''c2'' demo_ask, GFromDevice 9 ''d2'' demo_ask, GDisconnect ''c3'',
         GFromDevice 999999 ''d2'' demo_ask] (receive_from_client 7 ''c1'' demo_ask demo_gateway) = Some h \<and>
     receive_from_device 100 ''d1'' demo_ask h = gw_log [ToClient ''c1'' demo_ask] h"
proof -
  let ?is = "[GFromClient 8 ''c2'' demo_ask, GFromDevice 9 ''d2'' demo_ask, GDisconnect ''c3'', GFromDevice 999999 ''d2'' demo_ask]"
  obtain h where h: "run_steps gateway_step ?is (receive_from_client 7 ''c1'' demo_ask demo_gateway) = Some h"
    by simp
  have "receive_from_device 100 (gc_deviceId (demo_conn ''c1'' ''d1'')) demo_ask h = gw_log [ToClient ''c1'' demo_ask] h"
    by (rule gateway_reply_to_owner[OF demo_gateway_run _ _ _ _ _ h, where r = "''r1''"])
      (simp_all add: demo_gateway_clients demo_ask_def leaves_owner_def demo_conn_def)
  with h show ?thesis by (auto simp: demo_conn_def)
qed

lemma session_kept_step:
  assumes "map_of (g_sessionOwners g) k = Some i" "map_of (g_clients g) i = Some c" "gateway_ok g"
    "(case x of GConnect y \<Rightarrow> gc_connectionId y \<noteq> i | GDisconnect j \<Rightarrow> j \<noteq> i | _ \<Rightarrow> True)"
    "gateway_step x g = Some h"
  shows "map_of (g_sessionOwners h) k = Some i \<and> map_of (g_clients h) i = Some c"
proof (cases x)
  case (GFromClient now j p)
  have "map_of (g_sessionOwners (learn_session d j p g)) k = Some i" for d
    using assms(1,2) by (auto simp: learn_session_def Let_def split: option.splits)
  with GFromClient assms show ?thesis
    by (auto simp: receive_from_client_def Let_def split: option.splits)
qed (use assms in \<open>auto simp: add_client_def remove_client_def gateway_ok_def map_get_filter\<close>)

lemma session_kept_run:
  "gateway_ok g \<Longrightarrow> map_of (g_sessionOwners g) k = Some i \<Longrightarrow> map_of (g_clients g) i = Some c \<Longrightarrow>
   \<forall>x \<in> set is. (case x of GConnect y \<Rightarrow> gc_connectionId y \<noteq> i | GDisconnect j \<Rightarrow> j \<noteq> i | _ \<Rightarrow> True) \<Longrightarrow>
   run_steps gateway_step is g = Some h \<Longrightarrow>
   map_of (g_sessionOwners h) k = Some i \<and> map_of (g_clients h) i = Some c"
proof (induction "is" arbitrary: g)
  case (Cons x xs)
  then obtain f where f: "gateway_step x g = Some f" "run_steps gateway_step xs f = Some h"
    by (auto simp: bind_eq_Some_conv)
  from session_kept_step[OF Cons.prems(2,3,1) _ f(1)] Cons.prems(4)
  have "map_of (g_sessionOwners f) k = Some i" "map_of (g_clients f) i = Some c" by auto
  with Cons.IH[OF gateway_step_ok[OF Cons.prems(1) f(1)]] Cons.prems(4) f(2) show ?case by simp
qed simp

text \<open>Sessions are sticky. The browser that first talks about a session of its device owns
  it until it disconnects, whatever other browsers send about the same session, and the
  device's unsolicited packets of the session go to it alone.\<close>

theorem gateway_session_sticky:
  assumes "run_steps gateway_step pre (new_gateway ttl) = Some g" "map_of (g_clients g) i = Some c"
    and "session_id_of p = Some s" "map_of (g_sessionOwners g) (request_owner_key (gc_deviceId c) s) = None"
    and "\<forall>x \<in> set is. (case x of GConnect y \<Rightarrow> gc_connectionId y \<noteq> i | GDisconnect j \<Rightarrow> j \<noteq> i | _ \<Rightarrow> True)"
    and "run_steps gateway_step is (receive_from_client now i p g) = Some h"
    and "session_id_of q = Some s" "p_requestId q = None"
  shows "receive_from_device now' (gc_deviceId c) q h = gw_log [ToClient i q] h"
proof -
  have ok: "gateway_ok g" by (rule gateway.run_inv[OF new_gateway_ok assms(1)])
  let ?f = "receive_from_client now i p g" and ?k = "request_owner_key (gc_deviceId c) s"
  have f: "gateway_ok ?f" using gateway_step_ok[OF ok, of "GFromClient now i p"] by simp
  have "map_of (g_sessionOwners ?f) ?k = Some i"
    using assms(2-4) by (simp add: receive_from_client_def Let_def learn_session_def split: option.splits)
  from session_kept_run[OF f this _ assms(5,6)] assms(2)
  have h: "map_of (g_sessionOwners h) ?k = Some i" "map_of (g_clients h) i = Some c" by auto
  have ci: "gc_connectionId c = i" using ok assms(2) by (simp add: gateway_ok_def)
  then have "client_of (gc_deviceId c) (Some i) h = Some c" using h(2) by (simp add: client_of_def)
  with h(1) assms(7,8) ci show ?thesis
    by (simp add: receive_from_device_def deliver_session_def)
qed

definition demo_session :: packet where
  "demo_session = \<lparr>p_message = JObj [(''payload'', JObj [(''sessionId'', JStr ''s1'')])], p_requestId = None\<rparr>"

theorem gateway_session_sticky_witness:
  "\<exists>h. run_steps gateway_step [GFromClient 8 ''c3'' demo_session]
       (receive_from_client 7 ''c1'' demo_session demo_gateway) = Some h \<and>
     receive_from_device 9 ''d1'' demo_session h = gw_log [ToClient ''c1'' demo_session] h"
proof -
  obtain h where h: "run_steps gateway_step [GFromClient 8 ''c3'' demo_session]
      (receive_from_client 7 ''c1'' demo_session demo_gateway) = Some h" by simp
  have "receive_from_device 9 (gc_deviceId (demo_conn ''c1'' ''d1'')) demo_session h = gw_log [ToClient ''c1'' demo_session] h"
    by (rule gateway_session_sticky[OF demo_gateway_run _ _ _ _ h, where s = "''s1''"])
      (simp_all add: demo_gateway_clients demo_session_def session_id_of_def)
  with h show ?thesis by (auto simp: demo_conn_def)
qed

text \<open>A device that publishes text that is no packet makes the MQTT listener throw.\<close>

lemma decode_hello: "decode_packet ''hello'' = Inl SyntaxErr"
  by code_simp

lemma mqtt_message_throws:
  "on_mqtt_message now ''helix/device/d1/out'' ''hello'' g = Inl SyntaxErr"
  by (simp add: on_mqtt_message_def out_topic_device_def decode_hello)

end
