(* ===== verification/Enrollment.thy ===== *)
theory Enrollment
  imports Helix_Prelude
begin

text \<open>
  The enrollment relay (\<open>web/packages/helix-backend/src/device-auth/enrollment-relay.ts\<close>):
  a credential a device minted waits in memory until its owner's browser takes it, once.
  The clock, the random id and the random bytes of the user code are inputs. Three ghost
  fields record what was created, approved and revealed.
\<close>

datatype enrollment_status = Pending | Approved | Revealed | Denied | Expired

text \<open>The order in which an enrollment can move: only upwards.\<close>

fun status_rank :: "enrollment_status \<Rightarrow> nat" where
  "status_rank Pending = 0"
| "status_rank Approved = 1"
| "status_rank Denied = 2"
| "status_rank Revealed = 3"
| "status_rank Expired = 4"

instantiation enrollment_status :: linorder
begin

definition less_eq_enrollment_status :: "enrollment_status \<Rightarrow> enrollment_status \<Rightarrow> bool" where
  "less_eq_enrollment_status a b = (status_rank a \<le> status_rank b)"

definition less_enrollment_status :: "enrollment_status \<Rightarrow> enrollment_status \<Rightarrow> bool" where
  "less_enrollment_status a b = (status_rank a < status_rank b)"

instance
proof
  fix a b :: enrollment_status
  show "a \<le> b \<Longrightarrow> b \<le> a \<Longrightarrow> a = b"
    by (cases a; cases b) (simp_all add: less_eq_enrollment_status_def)
qed (auto simp: less_eq_enrollment_status_def less_enrollment_status_def)

end

record enrollment_request =
  q_deviceId :: string
  q_username :: string
  q_linuxUid :: nat
  q_credentialId :: string
  q_credential :: string
  q_durationHours :: nat

record enrollment =
  e_id :: string
  e_userCode :: string
  e_request :: enrollment_request
  e_status :: enrollment_status
  e_userId :: "string option"
  e_approvedDurationHours :: "nat option"
  e_credential :: "string option"
  e_expiresAt :: nat

record enrollment_state =
  x_id :: string
  x_userCode :: string
  x_status :: enrollment_status
  x_userId :: "string option"
  x_approvedDurationHours :: "nat option"

record enrollment_summary =
  y_deviceId :: string
  y_username :: string
  y_durationHours :: nat
  y_status :: enrollment_status

record relay =
  rl_byId :: "(string, enrollment) js_map"
  rl_byUserCode :: "(string, string) js_map"
  rl_ttl :: nat
  rl_created :: "(string \<times> enrollment_request) list"
  rl_approvals :: "(string \<times> string) list"
  rl_reveals :: "(string \<times> string \<times> string) list"

definition USER_CODE_ALPHABET :: string where
  "USER_CODE_ALPHABET = ''ABCDEFGHJKLMNPQRSTUVWXYZ23456789''"

definition USER_CODE_LENGTH :: nat where "USER_CODE_LENGTH = 8"
definition FIVE_MINUTES_MS :: nat where "FIVE_MINUTES_MS = 300000"
definition DEFAULT_TTL_MS :: nat where "DEFAULT_TTL_MS = FIVE_MINUTES_MS"

definition random_code :: "bytes \<Rightarrow> string" where
  "random_code bs = map (\<lambda>b. USER_CODE_ALPHABET ! (unat b mod length USER_CODE_ALPHABET)) bs"

definition new_relay :: "nat option \<Rightarrow> relay" where
  "new_relay ttl = \<lparr>rl_byId = [], rl_byUserCode = [],
     rl_ttl = (case ttl of None \<Rightarrow> DEFAULT_TTL_MS | Some n \<Rightarrow> n),
     rl_created = [], rl_approvals = [], rl_reveals = []\<rparr>"

text \<open>\<open>#sweep\<close>: one entry, then all of them.\<close>

definition sweep_one :: "nat \<Rightarrow> string \<times> enrollment \<Rightarrow> relay \<Rightarrow> relay" where
  "sweep_one now e r =
     (if now < e_expiresAt (snd e) then r
      else r\<lparr>rl_byId := map_delete (fst e) (rl_byId r),
             rl_byUserCode := map_delete (e_userCode (snd e)) (rl_byUserCode r)\<rparr>)"

definition sweep :: "nat \<Rightarrow> relay \<Rightarrow> relay" where
  "sweep now r = fold (sweep_one now) (rl_byId r) r"

definition state_of :: "enrollment \<Rightarrow> enrollment_state" where
  "state_of e = \<lparr>x_id = e_id e, x_userCode = e_userCode e, x_status = e_status e, x_userId = e_userId e,
     x_approvedDurationHours = e_approvedDurationHours e\<rparr>"

text \<open>\<open>#find\<close> on a swept relay.\<close>

definition find_enrollment :: "string \<Rightarrow> relay \<Rightarrow> enrollment option" where
  "find_enrollment userCode r =
     Option.bind (map_get (rl_byUserCode r) (to_upper (trim userCode))) (map_get (rl_byId r))"

definition put :: "enrollment \<Rightarrow> relay \<Rightarrow> relay" where
  "put e r = r\<lparr>rl_byId := map_set (e_id e) e (rl_byId r)\<rparr>"

definition relay_create ::
  "nat \<Rightarrow> string \<Rightarrow> bytes \<Rightarrow> enrollment_request \<Rightarrow> relay \<Rightarrow> enrollment_state \<times> relay" where
  "relay_create now i bs request r0 =
     (let r = sweep now r0;
          userCode = random_code bs;
          e = \<lparr>e_id = i, e_userCode = userCode, e_request = request, e_status = Pending, e_userId = None,
               e_approvedDurationHours = None, e_credential = Some (q_credential request),
               e_expiresAt = now + rl_ttl r\<rparr>
      in (state_of e, (put e r)\<lparr>rl_byUserCode := map_set userCode i (rl_byUserCode r),
            rl_created := rl_created r @ [(i, request)]\<rparr>))"

definition relay_summary :: "nat \<Rightarrow> string \<Rightarrow> relay \<Rightarrow> enrollment_summary option \<times> relay" where
  "relay_summary now userCode r0 =
     (let r = sweep now r0
      in (map_option (\<lambda>e. \<lparr>y_deviceId = q_deviceId (e_request e), y_username = q_username (e_request e),
            y_durationHours = q_durationHours (e_request e), y_status = e_status e\<rparr>) (find_enrollment userCode r), r))"

definition relay_approve ::
  "nat \<Rightarrow> string \<Rightarrow> string \<Rightarrow> nat \<Rightarrow> relay \<Rightarrow> enrollment_state option \<times> relay" where
  "relay_approve now userCode userId hours r0 =
     (let r = sweep now r0
      in case find_enrollment userCode r of
           None \<Rightarrow> (None, r)
         | Some e \<Rightarrow>
             if e_status e \<noteq> Pending then (None, r)
             else let e1 = e\<lparr>e_status := Approved, e_userId := Some userId, e_approvedDurationHours := Some hours\<rparr>
                  in (Some (state_of e1), (put e1 r)\<lparr>rl_approvals := rl_approvals r @ [(e_id e, userId)]\<rparr>))"

definition relay_deny :: "nat \<Rightarrow> string \<Rightarrow> relay \<Rightarrow> bool \<times> relay" where
  "relay_deny now userCode r0 =
     (let r = sweep now r0
      in case find_enrollment userCode r of
           None \<Rightarrow> (False, r)
         | Some e \<Rightarrow>
             if e_status e \<noteq> Pending then (False, r)
             else (True, put (e\<lparr>e_status := Denied, e_credential := None\<rparr>) r))"

datatype reveal_error = NotAvailable | AlreadyRevealed | NotApproved

definition relay_reveal :: "nat \<Rightarrow> string \<Rightarrow> string \<Rightarrow> relay \<Rightarrow> (reveal_error + string) \<times> relay" where
  "relay_reveal now userCode userId r0 =
     (let r = sweep now r0
      in case find_enrollment userCode r of
           None \<Rightarrow> (Inl NotAvailable, r)
         | Some e \<Rightarrow>
             if e_userId e \<noteq> Some userId then (Inl NotAvailable, r)
             else (case e_credential e of
                     None \<Rightarrow> (Inl AlreadyRevealed, r)
                   | Some credential \<Rightarrow>
                       if e_status e = Revealed then (Inl AlreadyRevealed, r)
                       else if e_status e \<noteq> Approved then (Inl NotApproved, r)
                       else (Inr credential,
                         (put (e\<lparr>e_credential := None, e_status := Revealed\<rparr>) r)
                           \<lparr>rl_reveals := rl_reveals r @ [(e_id e, userId, credential)]\<rparr>)))"

definition relay_poll :: "nat \<Rightarrow> string \<Rightarrow> relay \<Rightarrow> enrollment_state option \<times> relay" where
  "relay_poll now i r0 = (let r = sweep now r0 in (map_option state_of (map_get (rl_byId r) i), r))"

definition relay_discard :: "string \<Rightarrow> relay \<Rightarrow> relay" where
  "relay_discard i r =
     (case map_get (rl_byId r) i of
        None \<Rightarrow> r
      | Some e \<Rightarrow> r\<lparr>rl_byId := map_delete i (rl_byId r),
                     rl_byUserCode := map_delete (e_userCode e) (rl_byUserCode r)\<rparr>)"

datatype relay_input =
    RCreate nat string bytes enrollment_request | RSummary nat string | RApprove nat string string nat
  | RDeny nat string | RReveal nat string string | RPoll nat string | RDiscard string

fun relay_step :: "relay_input \<Rightarrow> relay \<Rightarrow> relay option" where
  "relay_step (RCreate now i bs q) r = Some (snd (relay_create now i bs q r))"
| "relay_step (RSummary now c) r = Some (snd (relay_summary now c r))"
| "relay_step (RApprove now c u h) r = Some (snd (relay_approve now c u h r))"
| "relay_step (RDeny now c) r = Some (snd (relay_deny now c r))"
| "relay_step (RReveal now c u) r = Some (snd (relay_reveal now c u r))"
| "relay_step (RPoll now i) r = Some (snd (relay_poll now i r))"
| "relay_step (RDiscard i) r = Some (relay_discard i r)"

section \<open>Sweeping only removes\<close>

definition shrinks :: "relay \<Rightarrow> relay \<Rightarrow> bool" where
  "shrinks r t \<longleftrightarrow> (map_ok (rl_byId r) \<longrightarrow> map_ok (rl_byId t)) \<and>
     (\<forall>i e. map_of (rl_byId t) i = Some e \<longrightarrow> map_of (rl_byId r) i = Some e) \<and>
     rl_created t = rl_created r \<and> rl_approvals t = rl_approvals r \<and> rl_reveals t = rl_reveals r \<and> rl_ttl t = rl_ttl r"

lemma shrinks_trans: "shrinks r s \<Longrightarrow> shrinks s t \<Longrightarrow> shrinks r t"
  by (simp add: shrinks_def)

lemma sweep_one_shrinks: "shrinks r (sweep_one now e r)"
  by (simp add: sweep_one_def shrinks_def)

lemma fold_sweep: "shrinks r (fold (sweep_one now) es r)"
proof (induction es arbitrary: r)
  case (Cons e es)
  show ?case using shrinks_trans[OF sweep_one_shrinks Cons] by simp
qed (simp add: shrinks_def)

lemma sweep_shrinks: "shrinks r (sweep now r)"
  by (simp add: sweep_def fold_sweep)

lemma sweep_frame [simp]:
  "rl_created (sweep now r) = rl_created r" "rl_approvals (sweep now r) = rl_approvals r"
  "rl_reveals (sweep now r) = rl_reveals r" "rl_ttl (sweep now r) = rl_ttl r"
  "map_ok (rl_byId r) \<Longrightarrow> map_ok (rl_byId (sweep now r))"
  using sweep_shrinks[of r now] by (simp_all add: shrinks_def)

lemma sweep_sub: "map_of (rl_byId (sweep now r)) i = Some e \<Longrightarrow> map_of (rl_byId r) i = Some e"
  using sweep_shrinks[of r now] by (simp add: shrinks_def)

section \<open>The invariant\<close>

text \<open>
  An entry is filed under its id and stems from the creation of that id; its credential is
  there exactly while it is pending or approved; it was approved by its user if it is
  approved or revealed, and it is revealed exactly if a reveal of it is on record.
\<close>

definition entry_ok :: "relay \<Rightarrow> string \<Rightarrow> enrollment \<Rightarrow> bool" where
  "entry_ok r i e \<longleftrightarrow> e_id e = i \<and> (i, e_request e) \<in> set (rl_created r) \<and>
     e_credential e = (if e_status e \<in> {Pending, Approved} then Some (q_credential (e_request e)) else None) \<and>
     (e_status e \<in> {Approved, Revealed} \<longrightarrow> (\<exists>u. e_userId e = Some u \<and> (i, u) \<in> set (rl_approvals r))) \<and>
     (e_status e = Revealed \<longleftrightarrow> i \<in> fst ` set (rl_reveals r))"

definition relay_ok :: "relay \<Rightarrow> bool" where
  "relay_ok r \<longleftrightarrow> map_ok (rl_byId r) \<and> (\<forall>i e. map_of (rl_byId r) i = Some e \<longrightarrow> entry_ok r i e) \<and>
     distinct (map fst (rl_reveals r)) \<and> fst ` set (rl_reveals r) \<subseteq> fst ` set (rl_created r) \<and>
     (\<forall>(i, u, c) \<in> set (rl_reveals r). (i, u) \<in> set (rl_approvals r) \<and>
        (\<exists>q. (i, q) \<in> set (rl_created r) \<and> q_credential q = c))"

lemma relay_okD:
  assumes "relay_ok r"
  shows "map_ok (rl_byId r)" "\<And>i e. map_of (rl_byId r) i = Some e \<Longrightarrow> entry_ok r i e"
    "distinct (map fst (rl_reveals r))" "fst ` set (rl_reveals r) \<subseteq> fst ` set (rl_created r)"
    "\<And>i u c. (i, u, c) \<in> set (rl_reveals r) \<Longrightarrow> (i, u) \<in> set (rl_approvals r)"
    "\<And>i u c. (i, u, c) \<in> set (rl_reveals r) \<Longrightarrow> \<exists>q. (i, q) \<in> set (rl_created r) \<and> q_credential q = c"
proof -
  note inv = assms[unfolded relay_ok_def]
  note ent = inv[THEN conjunct2, THEN conjunct1]
    and all = inv[THEN conjunct2, THEN conjunct2, THEN conjunct2, THEN conjunct2]
  show "(i, u) \<in> set (rl_approvals r)" "\<exists>q. (i, q) \<in> set (rl_created r) \<and> q_credential q = c"
    if "(i, u, c) \<in> set (rl_reveals r)" for i u c
    using bspec[OF all that] by simp_all
  show "entry_ok r i e" if "map_of (rl_byId r) i = Some e" for i e using ent that by simp
qed (use assms in \<open>simp_all add: relay_ok_def\<close>)

lemma shrinks_ok:
  assumes "relay_ok r" "shrinks r t"
  shows "relay_ok t"
proof -
  have "entry_ok t = entry_ok r" using assms(2) by (intro ext) (simp add: entry_ok_def shrinks_def)
  then show ?thesis using assms by (simp add: relay_ok_def shrinks_def)
qed

lemma sweep_ok: "relay_ok r \<Longrightarrow> relay_ok (sweep now r)"
  by (rule shrinks_ok[OF _ sweep_shrinks])

lemma discard_ok: "relay_ok r \<Longrightarrow> relay_ok (relay_discard i r)"
  by (erule shrinks_ok) (simp add: relay_discard_def shrinks_def split: option.splits)

lemma discard_created [simp]: "rl_created (relay_discard i r) = rl_created r"
  by (simp add: relay_discard_def split: option.splits)

lemma find_ok:
  assumes "relay_ok r" "find_enrollment c r = Some e"
  shows "map_of (rl_byId r) (e_id e) = Some e" "entry_ok r (e_id e) e"
proof -
  obtain i where i: "map_of (rl_byId r) i = Some e"
    using assms(2) by (auto simp: find_enrollment_def bind_eq_Some_conv)
  then have "entry_ok r i e" using relay_okD(2)[OF assms(1)] by blast
  moreover from this have "e_id e = i" by (simp add: entry_ok_def)
  ultimately show "map_of (rl_byId r) (e_id e) = Some e" "entry_ok r (e_id e) e" using i by simp_all
qed

text \<open>One entry is new or changed; the records may only gain entries of that id.\<close>

lemma relay_ok_change:
  assumes ok: "relay_ok r" and e: "entry_ok t i e"
    and byId: "rl_byId t = map_set i e (rl_byId r)"
    and c: "rl_created t = rl_created r @ nc" and a: "rl_approvals t = rl_approvals r @ na"
    and v: "rl_reveals t = rl_reveals r @ nv" "fst ` set nv \<subseteq> {i}" "distinct (map fst nv)"
    and n: "nv \<noteq> [] \<Longrightarrow> i \<notin> fst ` set (rl_reveals r)"
    and w: "\<And>j u k. (j, u, k) \<in> set nv \<Longrightarrow> (j, u) \<in> set (rl_approvals t) \<and>
      (\<exists>q. (j, q) \<in> set (rl_created t) \<and> q_credential q = k)"
  shows "relay_ok t"
  unfolding relay_ok_def
proof (intro conjI allI impI)
  note ok' = relay_okD[OF ok]
  show "map_ok (rl_byId t)" using ok'(1) byId by simp
  show "distinct (map fst (rl_reveals t))"
    using ok'(3) v n by (cases "nv = []") (auto simp: subset_iff)
  show "fst ` set (rl_reveals t) \<subseteq> fst ` set (rl_created t)"
  proof -
    have "j \<in> fst ` set (rl_created t)" if jn: "j \<in> fst ` set nv" for j
    proof -
      obtain u k where "(j, u, k) \<in> set nv" using jn by auto
      with w show ?thesis by (metis fst_conv image_eqI)
    qed
    then show ?thesis using ok'(4) by (auto simp: v c)
  qed
  show "\<forall>(i, u, k) \<in> set (rl_reveals t). (i, u) \<in> set (rl_approvals t) \<and>
      (\<exists>q. (i, q) \<in> set (rl_created t) \<and> q_credential q = k)"
  proof (intro ballI, clarify)
    fix j u k assume "(j, u, k) \<in> set (rl_reveals t)"
    then consider "(j, u, k) \<in> set nv" | "(j, u, k) \<in> set (rl_reveals r)" by (auto simp: v)
    then show "(j, u) \<in> set (rl_approvals t) \<and> (\<exists>q. (j, q) \<in> set (rl_created t) \<and> q_credential q = k)"
    proof cases
      case 2
      from ok'(5,6)[OF 2] show ?thesis by (auto simp: a c)
    qed (rule w)
  qed
  fix j x assume x: "map_of (rl_byId t) j = Some x"
  show "entry_ok t j x"
  proof (cases "j = i")
    case False
    with x byId have "entry_ok r j x" using ok'(2) by simp
    with False v(2) show ?thesis by (auto simp: entry_ok_def a c v(1))
  qed (use x e byId in simp)
qed

lemma approve_ok: "relay_ok r \<Longrightarrow> relay_ok (snd (relay_approve now c u h r))"
proof -
  assume ok: "relay_ok r"
  note sw = sweep_ok[OF ok, of now]
  have "relay_ok ((put (e\<lparr>e_status := Approved, e_userId := Some u, e_approvedDurationHours := Some h\<rparr>) (sweep now r))
      \<lparr>rl_approvals := rl_approvals r @ [(e_id e, u)]\<rparr>)"
    if e: "find_enrollment c (sweep now r) = Some e" "e_status e = Pending" for e
    by (rule relay_ok_change[OF sw, where i = "e_id e" and nc = "[]" and nv = "[]"])
      (use find_ok(2)[OF sw e(1)] e(2) in \<open>simp_all add: put_def entry_ok_def\<close>)
  with sw show ?thesis by (auto simp: relay_approve_def Let_def split: option.splits)
qed

lemma deny_ok: "relay_ok r \<Longrightarrow> relay_ok (snd (relay_deny now c r))"
proof -
  assume ok: "relay_ok r"
  note sw = sweep_ok[OF ok, of now]
  have "relay_ok (put (e\<lparr>e_status := Denied, e_credential := None\<rparr>) (sweep now r))"
    if e: "find_enrollment c (sweep now r) = Some e" "e_status e = Pending" for e
    by (rule relay_ok_change[OF sw, where i = "e_id e" and nc = "[]" and nv = "[]"])
      (use find_ok(2)[OF sw e(1)] e(2) in \<open>simp_all add: put_def entry_ok_def\<close>)
  with sw show ?thesis by (auto simp: relay_deny_def Let_def split: option.splits)
qed

lemma reveal_ok: "relay_ok r \<Longrightarrow> relay_ok (snd (relay_reveal now c u r))"
proof -
  assume ok: "relay_ok r"
  note sw = sweep_ok[OF ok, of now]
  have "relay_ok ((put (e\<lparr>e_credential := None, e_status := Revealed\<rparr>) (sweep now r))
      \<lparr>rl_reveals := rl_reveals r @ [(e_id e, u, k)]\<rparr>)"
    if e: "find_enrollment c (sweep now r) = Some e" "e_status e = Approved" "e_userId e = Some u" "e_credential e = Some k" for e k
    by (rule relay_ok_change[OF sw, where i = "e_id e" and nc = "[]" and nv = "[(e_id e, u, k)]"])
      (use find_ok(2)[OF sw e(1)] e(2-) in \<open>auto simp: put_def entry_ok_def\<close>)
  with sw show ?thesis by (auto simp: relay_reveal_def Let_def split: option.splits)
qed

text \<open>A creation keeps it when its random id is new.\<close>

lemma create_ok:
  assumes ok: "relay_ok r" and fresh: "i \<notin> fst ` set (rl_created r)"
  shows "relay_ok (snd (relay_create now i bs q r))"
proof -
  note sw = sweep_ok[OF ok, of now]
  have "i \<notin> fst ` set (rl_reveals r)" using relay_okD(4)[OF ok] fresh by blast
  then show ?thesis
    unfolding relay_create_def Let_def snd_conv
    by (intro relay_ok_change[OF sw, where i = i and nc = "[(i, q)]" and nv = "[]" and na = "[]"])
      (auto simp: put_def entry_ok_def)
qed

definition created_ids :: "relay_input list \<Rightarrow> string list" where
  "created_ids is = List.map_filter (\<lambda>x. case x of RCreate _ i _ _ \<Rightarrow> Some i | _ \<Rightarrow> None) is"

lemma relay_step_ok:
  assumes "relay_ok r" "relay_step x r = Some t" "\<forall>i \<in> set (created_ids [x]). i \<notin> fst ` set (rl_created r)"
  shows "relay_ok t \<and> fst ` set (rl_created t) = fst ` set (rl_created r) \<union> set (created_ids [x])"
proof (cases x)
  case (RCreate now i bs q)
  with assms show ?thesis using create_ok[OF assms(1)]
    by (auto simp: created_ids_def map_filter_def relay_create_def Let_def put_def)
next
  case (RDiscard i)
  with assms show ?thesis using discard_ok[OF assms(1)]
    by (auto simp: created_ids_def map_filter_def)
next
  case (RApprove now c u h)
  with assms approve_ok[OF assms(1), of now c u h] show ?thesis
    by (auto simp: created_ids_def map_filter_def relay_approve_def Let_def put_def split: option.splits if_splits)
next
  case (RDeny now c)
  with assms deny_ok[OF assms(1), of now c] show ?thesis
    by (auto simp: created_ids_def map_filter_def relay_deny_def Let_def put_def split: option.splits if_splits)
next
  case (RReveal now c u)
  with assms reveal_ok[OF assms(1), of now c u] show ?thesis
    by (auto simp: created_ids_def map_filter_def relay_reveal_def Let_def put_def split: option.splits if_splits)
qed (use assms sweep_ok in \<open>auto simp: created_ids_def map_filter_def relay_summary_def relay_poll_def Let_def\<close>)

lemma relay_run_ok:
  "relay_ok r \<Longrightarrow> run_steps relay_step is r = Some t \<Longrightarrow> distinct (created_ids is) \<Longrightarrow>
   \<forall>i \<in> set (created_ids is). i \<notin> fst ` set (rl_created r) \<Longrightarrow> relay_ok t"
proof (induction "is" arbitrary: r)
  case (Cons x xs)
  obtain s where s: "relay_step x r = Some s" "run_steps relay_step xs s = Some t"
    using Cons.prems(2) by (auto simp: bind_eq_Some_conv)
  have ids: "created_ids (x # xs) = created_ids [x] @ created_ids xs"
    by (simp add: created_ids_def map_filter_def split: option.splits)
  from relay_step_ok[OF Cons.prems(1) s(1)] Cons.prems(4) ids
  have "relay_ok s" "fst ` set (rl_created s) = fst ` set (rl_created r) \<union> set (created_ids [x])" by auto
  with Cons.IH[OF _ s(2)] Cons.prems(3,4) ids show ?case by auto
qed simp

lemma new_relay_ok: "relay_ok (new_relay ttl)"
  by (simp add: relay_ok_def new_relay_def)

section \<open>Properties\<close>

text \<open>C3: Revealed once, to its owner. As long as the random ids are distinct, no credential is
  ever handed out twice, whatever devices and browsers do; each one handed out is the
  credential the device created the enrollment with, and goes to the user who approved
  it before; and the relay then no longer offers it.\<close>

theorem credential_revealed_once:
  assumes "run_steps relay_step is (new_relay ttl) = Some r" "distinct (created_ids is)"
  shows "distinct (map fst (rl_reveals r)) \<and>
    (\<forall>i u k. (i, u, k) \<in> set (rl_reveals r) \<longrightarrow> (i, u) \<in> set (rl_approvals r) \<and>
       (\<exists>q. (i, q) \<in> set (rl_created r) \<and> q_credential q = k) \<and>
       (\<forall>e. map_of (rl_byId r) i = Some e \<longrightarrow> e_credential e = None))"
proof -
  have "relay_ok r"
    by (rule relay_run_ok[OF new_relay_ok assms]) (simp add: new_relay_def)
  note ok = relay_okD[OF this]
  have "e_credential e = None" if "(i, u, k) \<in> set (rl_reveals r)" "map_of (rl_byId r) i = Some e" for i u k e
    using ok(2)[OF that(2)] that(1) by (auto simp: entry_ok_def rev_image_eqI)
  then show ?thesis using ok(3,5,6) by blast
qed

definition demo_request :: enrollment_request where
  "demo_request = \<lparr>q_deviceId = ''d'', q_username = ''ann'', q_linuxUid = 7, q_credentialId = ''c'',
     q_credential = ''secret'', q_durationHours = 4\<rparr>"

definition demo_enrollment :: "relay_input list" where
  "demo_enrollment = [RCreate 0 ''i1'' [0, 1, 2, 3, 4, 5, 6, 7] demo_request,
     RApprove 1 ''abcdefgh'' ''u1'' 4, RReveal 2 ''ABCDEFGH'' ''u1'', RReveal 3 ''ABCDEFGH'' ''u1'']"

lemma demo_enrollment_run:
  "map_option (\<lambda>r. (rl_reveals r,
       map_option (\<lambda>e. (e_status e, e_credential e, q_credential (e_request e))) (map_of (rl_byId r) ''i1'')))
     (run_steps relay_step demo_enrollment (new_relay None)) =
   Some ([(''i1'', ''u1'', ''secret'')], Some (Revealed, None, ''secret''))"
  by (simp add: demo_enrollment_def new_relay_def relay_create_def relay_approve_def relay_reveal_def sweep_def
      sweep_one_def random_code_def USER_CODE_ALPHABET_def find_enrollment_def to_upper_def upper_char_def
      put_def DEFAULT_TTL_MS_def FIVE_MINUTES_MS_def demo_request_def Let_def char_of_eq_iff
      trim_def trim_start_def trim_end_def js_space_simps)

theorem credential_revealed_once_witness:
  "\<exists>r. run_steps relay_step demo_enrollment (new_relay None) = Some r \<and>
     rl_reveals r = [(''i1'', ''u1'', ''secret'')] \<and> distinct (map fst (rl_reveals r)) \<and>
     (''i1'', ''u1'') \<in> set (rl_approvals r)"
proof -
  obtain r where r: "run_steps relay_step demo_enrollment (new_relay None) = Some r"
    "rl_reveals r = [(''i1'', ''u1'', ''secret'')]"
    using demo_enrollment_run by auto
  have "distinct (created_ids demo_enrollment)"
    by (simp add: created_ids_def demo_enrollment_def map_filter_def)
  from credential_revealed_once[OF r(1) this] r show ?thesis by simp
qed

text \<open>An entry's status only moves up in the order of the lifecycle.\<close>

lemma status_monotone:
  assumes "relay_ok r" "relay_step x r = Some t" "i \<notin> set (created_ids [x])"
    "map_of (rl_byId r) i = Some e" "map_of (rl_byId t) i = Some f"
  shows "e_status e \<le> e_status f"
proof -
  have up: "e_status e \<le> e_status f"
    if g: "find_enrollment c (sweep now r) = Some g" "e_status g \<le> e_status h" "e_id h = e_id g"
      and m: "map_of (map_set (e_id h) h (rl_byId (sweep now r))) i = Some f" for c now g h
  proof (cases "i = e_id g")
    case True
    have "map_of (rl_byId r) i = Some g"
      using find_ok(1)[OF sweep_ok[OF assms(1)] g(1)] sweep_sub True by blast
    then show ?thesis using assms(4) m g(2,3) True by simp
  next
    case False
    then have "map_of (rl_byId (sweep now r)) i = Some f" using m g(3) by simp
    from sweep_sub[OF this] show ?thesis using assms(4) by simp
  qed
  have same: "e_status e \<le> e_status f" if "map_of (rl_byId (sweep now r)) i = Some f" for now
    using sweep_sub[OF that] assms(4) by simp
  note le = less_eq_enrollment_status_def
  show ?thesis
  proof (cases x)
    case (RCreate now j bs q)
    then show ?thesis using assms(2,3,5) same[of now]
      by (auto simp: created_ids_def map_filter_def relay_create_def Let_def put_def)
  next
    case (RApprove now c u h)
    show ?thesis
    proof (cases "\<exists>g. find_enrollment c (sweep now r) = Some g \<and> e_status g = Pending")
      case True
      then obtain g where g: "find_enrollment c (sweep now r) = Some g" "e_status g = Pending" by blast
      then show ?thesis
        using assms(2,5) RApprove
          up[OF g(1), of "g\<lparr>e_status := Approved, e_userId := Some u, e_approvedDurationHours := Some h\<rparr>"]
        by (auto simp: relay_approve_def Let_def put_def le)
    qed (use assms(2,5) same[of now] RApprove in
        \<open>auto simp: relay_approve_def Let_def split: option.splits if_splits\<close>)
  next
    case (RDeny now c)
    show ?thesis
    proof (cases "\<exists>g. find_enrollment c (sweep now r) = Some g \<and> e_status g = Pending")
      case True
      then obtain g where g: "find_enrollment c (sweep now r) = Some g" "e_status g = Pending" by blast
      then show ?thesis
        using assms(2,5) RDeny up[OF g(1), of "g\<lparr>e_status := Denied, e_credential := None\<rparr>"]
        by (auto simp: relay_deny_def Let_def put_def le)
    qed (use assms(2,5) same[of now] RDeny in
        \<open>auto simp: relay_deny_def Let_def split: option.splits if_splits\<close>)
  next
    case (RReveal now c u)
    show ?thesis
    proof (cases "\<exists>g k. find_enrollment c (sweep now r) = Some g \<and> e_status g = Approved \<and> e_userId g = Some u \<and>
        e_credential g = Some k")
      case True
      then obtain g k where g: "find_enrollment c (sweep now r) = Some g" "e_status g = Approved"
        "e_userId g = Some u" "e_credential g = Some k" by blast
      then show ?thesis
        using assms(2,5) RReveal up[OF g(1), of "g\<lparr>e_credential := None, e_status := Revealed\<rparr>"]
        by (auto simp: relay_reveal_def Let_def put_def le)
    qed (use assms(2,5) same[of now] RReveal in
        \<open>auto simp: relay_reveal_def Let_def split: option.splits if_splits\<close>)
  next
    case (RDiscard j)
    then show ?thesis using assms(2,4,5) by (auto simp: relay_discard_def split: option.splits if_splits)
  qed (use assms(2,5) same in \<open>auto simp: relay_summary_def relay_poll_def Let_def\<close>)
qed

text \<open>
  The reveal destroys \<open>credential\<close>, but the entry still holds \<open>request\<close>, and with it the
  plaintext, until it is swept or discarded.
\<close>

lemma reveal_keeps_request:
  assumes "find_enrollment c (sweep now r) = Some e" "relay_reveal now c u r = (Inr k, t)"
  shows "\<exists>f. map_of (rl_byId t) (e_id e) = Some f \<and> e_status f = Revealed \<and> e_credential f = None \<and>
    e_request f = e_request e"
  using assms by (auto simp: relay_reveal_def Let_def put_def split: option.splits if_splits)

end
