(* ===== verification/Device_Auth.thy ===== *)
theory Device_Auth
  imports Trpc Json Offline_Code Enrollment
begin

text \<open>
  Who may log in to a device (\<open>web/packages/helix-backend/src/device-auth/\<close>): the contract of
  an authorization provider (\<open>types.ts\<close>) as a locale, the fixture-backed provider that
  implements it, and the three routers built on it: the device-facing API, the browser
  half of offline login and the browser half of credential enrollment.
\<close>

section \<open>Contracts\<close>

record unix_identity =
  ui_username :: string
  ui_linuxUid :: nat

record login_authorization =
  la_allowed :: bool
  la_scopes :: "string list"
  la_policyVersion :: nat

definition DEVICE_LOGIN_SCOPE :: string where
  "DEVICE_LOGIN_SCOPE = ''device.login''"

record decision =
  dc_allowed :: bool
  dc_linuxUid :: "nat option"
  dc_policyVersion :: nat
  dc_scopes :: "string list"
  dc_username :: "string option"
  dc_userId :: "string option"

definition DENIED_DECISION :: decision where
  "DENIED_DECISION = \<lparr>dc_allowed = False, dc_linuxUid = None, dc_policyVersion = 0, dc_scopes = [],
     dc_username = None, dc_userId = None\<rparr>"

definition decide :: "string \<Rightarrow> unix_identity option \<Rightarrow> login_authorization \<Rightarrow> decision" where
  "decide userId identity authz =
     \<lparr>dc_allowed = (la_allowed authz \<and> identity \<noteq> None), dc_linuxUid = map_option ui_linuxUid identity,
      dc_policyVersion = la_policyVersion authz, dc_scopes = la_scopes authz,
      dc_username = map_option ui_username identity, dc_userId = Some userId\<rparr>"

locale authorization_provider =
  fixes authorize :: "'s \<Rightarrow> string \<Rightarrow> string \<Rightarrow> login_authorization"
  assumes login_scope: "la_allowed (authorize s d u) \<longleftrightarrow> DEVICE_LOGIN_SCOPE \<in> set (la_scopes (authorize s d u))"
begin

lemma decide_allowed:
  "dc_allowed (decide u i (authorize s d u)) \<longleftrightarrow> i \<noteq> None \<and> DEVICE_LOGIN_SCOPE \<in> set (dc_scopes (decide u i (authorize s d u)))"
  using login_scope by (auto simp: decide_def)

end

text \<open>A provider whose grants can change: a withdrawn login is denied from then on, until
  scopes are set again, and every change shows in the policy version.\<close>

locale mutable_provider = authorization_provider authorize
  for authorize :: "'s \<Rightarrow> string \<Rightarrow> string \<Rightarrow> login_authorization" +
  fixes set_scopes :: "string \<Rightarrow> string \<Rightarrow> string list \<Rightarrow> 's \<Rightarrow> 's"
    and revoke_login :: "string \<Rightarrow> string \<Rightarrow> 's \<Rightarrow> 's"
    and revoke_all :: "string \<Rightarrow> string \<Rightarrow> 's \<Rightarrow> 's"
    and version :: "'s \<Rightarrow> nat"
  assumes set_scopes_scopes: "la_scopes (authorize (set_scopes d u sc s) d u) = sc"
    and revoke_login_scopes:
      "la_scopes (authorize (revoke_login d u s) d u) = filter (\<lambda>x. x \<noteq> DEVICE_LOGIN_SCOPE) (la_scopes (authorize s d u))"
    and revoke_all_scopes: "la_scopes (authorize (revoke_all d u s) d u) = []"
    and version_grows: "version (set_scopes d u sc s) = version s + 1"
      "version (revoke_login d u s) = version s + 1" "version (revoke_all d u s) = version s + 1"
begin

lemma revoked_denied:
  "\<not> la_allowed (authorize (revoke_login d u s) d u)" "\<not> la_allowed (authorize (revoke_all d u s) d u)"
  by (simp_all add: login_scope revoke_login_scopes revoke_all_scopes)

lemma granted_allowed:
  "la_allowed (authorize (set_scopes d u sc s) d u) \<longleftrightarrow> DEVICE_LOGIN_SCOPE \<in> set sc"
  by (simp add: login_scope set_scopes_scopes)

end

section \<open>The fixture provider\<close>

record fixture_grant =
  fg_userId :: string
  fg_deviceId :: string
  fg_scopes :: "string list"

record fixture =
  fx_identities :: "(string \<times> unix_identity) list"
  fx_grants :: "fixture_grant list"
  fx_deviceSecrets :: "(string \<times> string) list"

record fixture_auth =
  fa_identities :: "(string, unix_identity) js_map"
  fa_grants :: "(string, string list) js_map"
  fa_deviceSecrets :: "(string, string) js_map"
  fa_policyVersion :: nat

definition DENIED :: login_authorization where
  "DENIED = \<lparr>la_allowed = False, la_scopes = [], la_policyVersion = 0\<rparr>"

definition grant_key :: "string \<Rightarrow> string \<Rightarrow> string" where
  "grant_key deviceId userId = deviceId @ '' '' @ userId"

definition new_fixture :: "fixture \<Rightarrow> fixture_auth" where
  "new_fixture f = \<lparr>fa_identities = map_from (fx_identities f),
     fa_grants = map_from (map (\<lambda>g. (grant_key (fg_deviceId g) (fg_userId g), fg_scopes g)) (fx_grants f)),
     fa_deviceSecrets = map_from (fx_deviceSecrets f), fa_policyVersion = 1\<rparr>"

text \<open>\<open>unhex\<close> is Node's \<open>Buffer.from(_, 'hex')\<close>.\<close>

definition secret_for :: "(string \<Rightarrow> bytes) \<Rightarrow> string \<Rightarrow> fixture_auth \<Rightarrow> bytes option" where
  "secret_for unhex deviceId f = map_option unhex (map_get (fa_deviceSecrets f) deviceId)"

definition lookup_identity :: "string \<Rightarrow> fixture_auth \<Rightarrow> unix_identity option" where
  "lookup_identity userId f = map_get (fa_identities f) userId"

definition fixture_authorize :: "fixture_auth \<Rightarrow> string \<Rightarrow> string \<Rightarrow> login_authorization" where
  "fixture_authorize f deviceId userId =
     (case map_get (fa_grants f) (grant_key deviceId userId) of
        None \<Rightarrow> DENIED
      | Some scopes \<Rightarrow> \<lparr>la_allowed = List.member scopes DEVICE_LOGIN_SCOPE, la_scopes = scopes,
          la_policyVersion = fa_policyVersion f\<rparr>)"

definition set_scopes :: "string \<Rightarrow> string \<Rightarrow> string list \<Rightarrow> fixture_auth \<Rightarrow> fixture_auth" where
  "set_scopes deviceId userId scopes f =
     f\<lparr>fa_grants := map_set (grant_key deviceId userId) scopes (fa_grants f),
       fa_policyVersion := fa_policyVersion f + 1\<rparr>"

definition revoke_login :: "string \<Rightarrow> string \<Rightarrow> fixture_auth \<Rightarrow> fixture_auth" where
  "revoke_login deviceId userId f =
     (let scopes = (case map_get (fa_grants f) (grant_key deviceId userId) of None \<Rightarrow> [] | Some s \<Rightarrow> s)
      in set_scopes deviceId userId (filter (\<lambda>s. s \<noteq> DEVICE_LOGIN_SCOPE) scopes) f)"

definition revoke_all :: "string \<Rightarrow> string \<Rightarrow> fixture_auth \<Rightarrow> fixture_auth" where
  "revoke_all deviceId userId f =
     f\<lparr>fa_grants := map_delete (grant_key deviceId userId) (fa_grants f),
       fa_policyVersion := fa_policyVersion f + 1\<rparr>"

interpretation fixture: mutable_provider fixture_authorize set_scopes revoke_login revoke_all fa_policyVersion
  by unfold_locales
    (auto simp: fixture_authorize_def DENIED_def set_scopes_def revoke_login_def revoke_all_def Let_def
       split: option.splits)

datatype fixture_error = FixtureSyntax | FixtureNotObject | FixtureIdentities | FixtureGrants

text \<open>The three parts of a fixture, unread; arrays pass the object test of the whole text
  and fail the next one.\<close>

definition parse_fixture :: "string \<Rightarrow> fixture_error + json option \<times> json option \<times> json option" where
  "parse_fixture text =
     (case json_parse text of
        None \<Rightarrow> Inl FixtureSyntax
      | Some parsed \<Rightarrow>
          if \<not> (case parsed of JObj _ \<Rightarrow> True | JArr _ \<Rightarrow> True | _ \<Rightarrow> False) then Inl FixtureNotObject
          else (case json_get parsed ''identities'' of
                  Some (JObj ids) \<Rightarrow>
                    (case json_get parsed ''grants'' of
                       Some (JArr gs) \<Rightarrow> Inr (Some (JObj ids), Some (JArr gs), json_get parsed ''deviceSecrets'')
                     | _ \<Rightarrow> Inl FixtureGrants)
                | _ \<Rightarrow> Inl FixtureIdentities))"

text \<open>\<open>cast\<close> reads the parsed parts as the types the code claims for them.\<close>

definition fixture_from_env ::
  "(json option \<times> json option \<times> json option \<Rightarrow> fixture) \<Rightarrow> string option \<Rightarrow> fixture_error + fixture_auth" where
  "fixture_from_env cast env =
     (case env of
        None \<Rightarrow> Inr (new_fixture \<lparr>fx_identities = [], fx_grants = [], fx_deviceSecrets = []\<rparr>)
      | Some text \<Rightarrow>
          if text = [] then Inr (new_fixture \<lparr>fx_identities = [], fx_grants = [], fx_deviceSecrets = []\<rparr>)
          else (case parse_fixture text of Inl e \<Rightarrow> Inl e | Inr parts \<Rightarrow> Inr (new_fixture (cast parts))))"

section \<open>The device-facing API\<close>

record session_row =
  ss_token :: string
  ss_userId :: string
  ss_expiresAt :: nat

definition MAX_DURATION_HOURS :: nat where
  "MAX_DURATION_HOURS = 168"

definition device_procedure :: "string option \<Rightarrow> string \<Rightarrow> device_row list \<Rightarrow> trpc_error + string" where
  "device_procedure header deviceId0 db =
     bind_sum (z_text deviceId0) (\<lambda>deviceId.
       (case read_bearer_token header of
          None \<Rightarrow> Inl (TRPC UNAUTHORIZED ''Device access token is missing or invalid.'')
        | Some token \<Rightarrow>
            if verify_device_id_token deviceId token db then Inr deviceId
            else Inl (TRPC UNAUTHORIZED ''Device access token is invalid.'')))"

definition authorize_login ::
  "string option \<Rightarrow> string \<Rightarrow> string \<Rightarrow> device_row list \<Rightarrow> fixture_auth \<Rightarrow> trpc_error + decision" where
  "authorize_login header deviceId0 userId0 db f =
     bind_sum (device_procedure header deviceId0 db) (\<lambda>deviceId.
     bind_sum (z_text userId0) (\<lambda>userId.
       Inr (decide userId (lookup_identity userId f) (fixture_authorize f deviceId userId))))"

definition authorize_session ::
  "nat \<Rightarrow> string option \<Rightarrow> string \<Rightarrow> string \<Rightarrow> device_row list \<Rightarrow> session_row list \<Rightarrow> fixture_auth \<Rightarrow>
   trpc_error + decision" where
  "authorize_session now header deviceId0 sessionToken0 db sessions f =
     bind_sum (device_procedure header deviceId0 db) (\<lambda>deviceId.
     bind_sum (z_text sessionToken0) (\<lambda>token.
       Inr (case find (\<lambda>s. ss_token s = token \<and> now < ss_expiresAt s) sessions of
              None \<Rightarrow> DENIED_DECISION
            | Some row \<Rightarrow> decide (ss_userId row) (lookup_identity (ss_userId row) f)
                (fixture_authorize f deviceId (ss_userId row)))))"

record enrollment_output =
  eo_state :: enrollment_state
  eo_verificationUri :: string

definition create_enrollment ::
  "nat \<Rightarrow> string \<Rightarrow> bytes \<Rightarrow> string \<Rightarrow> string option \<Rightarrow> enrollment_request \<Rightarrow> device_row list \<Rightarrow> relay \<Rightarrow>
   trpc_error + enrollment_output \<times> relay" where
  "create_enrollment now i bs uri header q db r =
     bind_sum (device_procedure header (q_deviceId q) db) (\<lambda>deviceId.
     bind_sum (z_text (q_username q)) (\<lambda>username.
     bind_sum (z_text (q_credentialId q)) (\<lambda>credentialId.
     bind_sum (z_text (q_credential q)) (\<lambda>credential.
       if q_durationHours q = 0 \<or> MAX_DURATION_HOURS < q_durationHours q then Inl (TRPC BAD_REQUEST ''durationHours'')
       else (let (st, r') = relay_create now i bs (q\<lparr>q_deviceId := deviceId, q_username := username,
                     q_credentialId := credentialId, q_credential := credential\<rparr>) r
             in Inr (\<lparr>eo_state = st, eo_verificationUri = uri\<rparr>, r'))))))"

definition enrollment_status_api ::
  "nat \<Rightarrow> string \<Rightarrow> string option \<Rightarrow> string \<Rightarrow> string \<Rightarrow> device_row list \<Rightarrow> relay \<Rightarrow>
   trpc_error + enrollment_output \<times> relay" where
  "enrollment_status_api now uri header deviceId0 enrollmentId0 db r =
     bind_sum (device_procedure header deviceId0 db) (\<lambda>deviceId.
     bind_sum (z_text enrollmentId0) (\<lambda>i.
       (let (st, r') = relay_poll now i r
        in Inr (\<lparr>eo_state = (case st of Some x \<Rightarrow> x
                  | None \<Rightarrow> \<lparr>x_id = i, x_userCode = [], x_status = Expired, x_userId = None, x_approvedDurationHours = None\<rparr>),
                 eo_verificationUri = uri\<rparr>, r'))))"

section \<open>The browser half of offline login\<close>

text \<open>\<open>None\<close> for the user is a browser that is not signed in.\<close>

definition signed_in :: "string option \<Rightarrow> trpc_error + string" where
  "signed_in user = (case user of None \<Rightarrow> Inl (TRPC UNAUTHORIZED []) | Some u \<Rightarrow> Inr u)"

definition offline_respond ::
  "(bytes \<Rightarrow> bytes \<Rightarrow> bytes) \<Rightarrow> (string \<Rightarrow> bytes) \<Rightarrow> string option \<Rightarrow> string \<Rightarrow> string \<Rightarrow> fixture_auth \<Rightarrow>
   trpc_error + string" where
  "offline_respond hmac unhex user deviceId0 challenge0 f =
     bind_sum (signed_in user) (\<lambda>u.
     bind_sum (z_text deviceId0) (\<lambda>deviceId.
     bind_sum (z_text challenge0) (\<lambda>challenge.
       (let authz = fixture_authorize f deviceId u
        in case (lookup_identity u f, secret_for unhex deviceId f) of
             (Some identity, Some secret) \<Rightarrow>
               if \<not> la_allowed authz \<or> \<not> List.member (la_scopes authz) DEVICE_LOGIN_SCOPE
               then Inl (TRPC FORBIDDEN ''You are not authorized to sign in to that device.'')
               else (case offline_response hmac secret \<lparr>ob_deviceId = deviceId, ob_userId = u,
                            ob_linuxUid = int (ui_linuxUid identity), ob_challenge = challenge\<rparr> of
                       Inl _ \<Rightarrow> Inl (TRPC BAD_REQUEST ''That challenge does not look right. Check it against the device.'')
                     | Inr response \<Rightarrow> Inr response)
           | _ \<Rightarrow> Inl (TRPC FORBIDDEN ''You are not authorized to sign in to that device.'')))))"

section \<open>The browser half of enrollment\<close>


definition enrollment_summary_api ::
  "nat \<Rightarrow> string option \<Rightarrow> string \<Rightarrow> relay \<Rightarrow> (trpc_error + enrollment_summary) \<times> relay" where
  "enrollment_summary_api now user userCode0 r =
     (case bind_sum (signed_in user) (\<lambda>_. z_text userCode0) of
        Inl e \<Rightarrow> (Inl e, r)
      | Inr userCode \<Rightarrow>
          (case relay_summary now userCode r of
             (None, r') \<Rightarrow> (Inl (TRPC NOT_FOUND ''No such enrollment.''), r')
           | (Some s, r') \<Rightarrow> (Inr s, r')))"


definition enrollment_deny :: "nat \<Rightarrow> string option \<Rightarrow> string \<Rightarrow> relay \<Rightarrow> (trpc_error + bool) \<times> relay" where
  "enrollment_deny now user userCode0 r =
     (case bind_sum (signed_in user) (\<lambda>_. z_text userCode0) of
        Inl e \<Rightarrow> (Inl e, r)
      | Inr userCode \<Rightarrow> (let (d, r') = relay_deny now userCode r in (Inr d, r')))"

definition enrollment_reveal :: "nat \<Rightarrow> string option \<Rightarrow> string \<Rightarrow> relay \<Rightarrow> (trpc_error + string) \<times> relay" where
  "enrollment_reveal now user userCode0 r =
     (case bind_sum (signed_in user) (\<lambda>u. bind_sum (z_text userCode0) (\<lambda>c. Inr (u, c))) of
        Inl e \<Rightarrow> (Inl e, r)
      | Inr (u, userCode) \<Rightarrow>
          (case relay_reveal now userCode u r of
             (Inr k, r') \<Rightarrow> (Inr k, r')
           | (Inl AlreadyRevealed, r') \<Rightarrow>
               (Inl (TRPC CONFLICT ''That credential has already been shown and cannot be shown again.''), r')
           | (Inl _, r') \<Rightarrow> (Inl (TRPC FORBIDDEN ''That credential is not available to you.''), r')))"

section \<open>The grants a user holds\<close>

text \<open>
  Specification: what somebody may do is read off the seed of the provider and the changes
  made since, pair by pair of device and user. No key is involved.
\<close>

datatype policy_change =
    Set_scopes string string "string list" | Revoke_login string string | Revoke_all string string

fun apply_change :: "policy_change \<Rightarrow> fixture_auth \<Rightarrow> fixture_auth" where
  "apply_change (Set_scopes d u sc) f = set_scopes d u sc f"
| "apply_change (Revoke_login d u) f = revoke_login d u f"
| "apply_change (Revoke_all d u) f = revoke_all d u f"

definition fixture_after :: "fixture \<Rightarrow> policy_change list \<Rightarrow> fixture_auth" where
  "fixture_after f cs = fold apply_change cs (new_fixture f)"

type_synonym holdings = "string \<times> string \<Rightarrow> string list"

fun holdings_change :: "policy_change \<Rightarrow> holdings \<Rightarrow> holdings" where
  "holdings_change (Set_scopes d u sc) g = g((d, u) := sc)"
| "holdings_change (Revoke_login d u) g = g((d, u) := filter (\<lambda>s. s \<noteq> DEVICE_LOGIN_SCOPE) (g (d, u)))"
| "holdings_change (Revoke_all d u) g = g((d, u) := [])"

definition seeded :: "fixture_grant list \<Rightarrow> holdings" where
  "seeded gs = fold (\<lambda>x g. g((fg_deviceId x, fg_userId x) := fg_scopes x)) gs (\<lambda>_. [])"

definition granted :: "fixture \<Rightarrow> policy_change list \<Rightarrow> holdings" where
  "granted f cs = fold holdings_change cs (seeded (fx_grants f))"

definition has_login :: "fixture \<Rightarrow> policy_change list \<Rightarrow> string \<Rightarrow> string \<Rightarrow> bool" where
  "has_login f cs d u \<longleftrightarrow> u \<in> fst ` set (fx_identities f) \<and> DEVICE_LOGIN_SCOPE \<in> set (granted f cs (d, u))"

text \<open>Device ids in which the separator of the grant key does not occur.\<close>

definition plain_id :: "string \<Rightarrow> bool" where
  "plain_id d \<longleftrightarrow> CHR 0x20 \<notin> set d"

fun change_device :: "policy_change \<Rightarrow> string" where
  "change_device (Set_scopes d u sc) = d"
| "change_device (Revoke_login d u) = d"
| "change_device (Revoke_all d u) = d"

definition plain_ids :: "fixture \<Rightarrow> policy_change list \<Rightarrow> bool" where
  "plain_ids f cs \<longleftrightarrow> (\<forall>x \<in> set (fx_grants f). plain_id (fg_deviceId x)) \<and>
     (\<forall>c \<in> set cs. plain_id (change_device c)) \<and> (\<forall>(d, s) \<in> set (fx_deviceSecrets f). plain_id d)"

lemma blank_split: "CHR 0x20 \<notin> set d \<Longrightarrow> CHR 0x20 \<notin> set e \<Longrightarrow> d @ CHR 0x20 # u = e @ CHR 0x20 # v \<Longrightarrow> d = e \<and> u = v"
proof (induction d arbitrary: e)
  case Nil
  then show ?case by (cases e) auto
next
  case (Cons c d)
  then show ?case by (cases e) auto
qed

lemma grant_key_eq: "plain_id d \<Longrightarrow> plain_id e \<Longrightarrow> grant_key d u = grant_key e v \<longleftrightarrow> d = e \<and> u = v"
  using blank_split[of d e u v] by (auto simp: grant_key_def plain_id_def)

text \<open>The provider's table, under the code's keys, holds what the history says.\<close>

definition holds :: "fixture_auth \<Rightarrow> holdings \<Rightarrow> bool" where
  "holds s g \<longleftrightarrow> (\<forall>d u. plain_id d \<longrightarrow> la_scopes (fixture_authorize s d u) = g (d, u))"

lemma scopes_table:
  "la_scopes (fixture_authorize s d u) = (case map_get (fa_grants s) (grant_key d u) of None \<Rightarrow> [] | Some sc \<Rightarrow> sc)"
  by (simp add: fixture_authorize_def DENIED_def split: option.splits)

lemma seeded_snoc: "seeded (gs @ [x]) = (seeded gs)((fg_deviceId x, fg_userId x) := fg_scopes x)"
  by (simp add: seeded_def)

lemma holds_new:
  assumes "\<forall>x \<in> set (fx_grants f). plain_id (fg_deviceId x)"
  shows "holds (new_fixture f) (seeded (fx_grants f))"
proof -
  have "(case map_of (rev (map (\<lambda>g. (grant_key (fg_deviceId g) (fg_userId g), fg_scopes g)) gs)) (grant_key d u) of
      None \<Rightarrow> [] | Some sc \<Rightarrow> sc) = seeded gs (d, u)"
    if "\<forall>x \<in> set gs. plain_id (fg_deviceId x)" "plain_id d" for gs d u
    using that by (induction gs rule: rev_induct) (simp_all add: seeded_snoc grant_key_eq, simp add: seeded_def)
  with assms show ?thesis by (simp add: holds_def scopes_table new_fixture_def map_from_get)
qed

lemma holds_change: "holds s g \<Longrightarrow> plain_id (change_device c) \<Longrightarrow> holds (apply_change c s) (holdings_change c g)"
  by (cases c) (simp_all add: holds_def scopes_table set_scopes_def revoke_login_def revoke_all_def grant_key_eq Let_def)

lemma holds_fold:
  "holds s g \<Longrightarrow> \<forall>c \<in> set cs. plain_id (change_device c) \<Longrightarrow> holds (fold apply_change cs s) (fold holdings_change cs g)"
  by (induction cs arbitrary: s g) (simp_all add: holds_change)

lemma holds_after: "plain_ids f cs \<Longrightarrow> holds (fixture_after f cs) (granted f cs)"
  using holds_fold[OF holds_new] by (simp add: plain_ids_def fixture_after_def granted_def)

lemma change_tables [simp]:
  "fa_identities (apply_change c s) = fa_identities s" "fa_deviceSecrets (apply_change c s) = fa_deviceSecrets s"
  by (cases c; simp add: set_scopes_def revoke_login_def revoke_all_def Let_def)+

lemma after_tables:
  "fa_identities (fixture_after f cs) = map_from (fx_identities f)"
  "fa_deviceSecrets (fixture_after f cs) = map_from (fx_deviceSecrets f)"
proof -
  have "fa_identities (fold apply_change cs s) = fa_identities s"
    "fa_deviceSecrets (fold apply_change cs s) = fa_deviceSecrets s" for s
    by (induction cs arbitrary: s) simp_all
  then show "fa_identities (fixture_after f cs) = map_from (fx_identities f)"
    "fa_deviceSecrets (fixture_after f cs) = map_from (fx_deviceSecrets f)"
    by (simp_all add: fixture_after_def new_fixture_def)
qed

lemma lookup_after: "lookup_identity u (fixture_after f cs) = map_of (rev (fx_identities f)) u"
  by (simp add: lookup_identity_def after_tables map_from_get)

lemma identity_known: "lookup_identity u (fixture_after f cs) \<noteq> None \<longleftrightarrow> u \<in> fst ` set (fx_identities f)"
  by (simp add: lookup_after map_of_eq_None_iff)


lemma has_login_iff:
  "plain_ids f cs \<Longrightarrow> plain_id d \<Longrightarrow> has_login f cs d u \<longleftrightarrow>
     lookup_identity u (fixture_after f cs) \<noteq> None \<and> la_allowed (fixture_authorize (fixture_after f cs) d u)"
  using holds_after[of f cs] identity_known[of u f cs] by (simp add: has_login_def fixture.login_scope holds_def)

lemma revoked_stays:
  assumes "c \<in> {Revoke_login d u, Revoke_all d u}" "\<forall>sc. Set_scopes d u sc \<notin> set later"
  shows "\<not> has_login f (before @ c # later) d u"
proof -
  have keep: "DEVICE_LOGIN_SCOPE \<notin> set (fold holdings_change cs g (d, u))"
    if "DEVICE_LOGIN_SCOPE \<notin> set (g (d, u))" "\<forall>sc. Set_scopes d u sc \<notin> set cs" for cs g
    using that
  proof (induction cs arbitrary: g)
    case (Cons c cs)
    have "DEVICE_LOGIN_SCOPE \<notin> set (holdings_change c g (d, u))" using Cons.prems by (cases c) auto
    with Cons show ?case by simp
  qed simp
  have "DEVICE_LOGIN_SCOPE \<notin> set (holdings_change c g (d, u))" for g using assms(1) by auto
  with keep assms(2) show ?thesis by (simp add: has_login_def granted_def)
qed

section \<open>Properties\<close>

lemma device_procedure_Inr:
  "device_procedure h d0 db = Inr d \<longleftrightarrow> d = trim d0 \<and> d \<noteq> [] \<and>
     (\<exists>t. read_bearer_token h = Some t \<and> verify_device_id_token d t db)"
  by (auto simp: device_procedure_def bind_sum_Inr z_text_Inr split: option.splits if_splits)

text \<open>The caller is the active device \<open>d\<close>: its header carries the access token of its row.\<close>

definition from_device :: "string option \<Rightarrow> string \<Rightarrow> device_row list \<Rightarrow> bool" where
  "from_device h d db \<longleftrightarrow> (\<exists>row \<in> set db. read_bearer_token h = Some (dv_accessToken row) \<and> dv_isActive row \<and> dv_id row = d)"

lemma device_procedure_from: "device_procedure h d0 db = Inr d \<Longrightarrow> d = trim d0 \<and> from_device h d db"
  by (auto simp: device_procedure_Inr verify_device_id_token_iff from_device_def)

lemma offline_respond_Inr:
  assumes "plain_ids f cs" "offline_respond hmac unhex user d0 c0 (fixture_after f cs) = Inr r"
  shows "\<exists>u. user = Some u \<and> has_login f cs (trim d0) u"
proof -
  obtain u i s where run: "user = Some u" "lookup_identity u (fixture_after f cs) = Some i"
    "map_get (fa_deviceSecrets (fixture_after f cs)) (trim d0) = Some s"
    "la_allowed (fixture_authorize (fixture_after f cs) (trim d0) u)"
    using assms(2)
    by (auto simp: offline_respond_def bind_sum_Inr z_text_Inr signed_in_def secret_for_def Let_def
        split: option.splits if_splits)
  have "(trim d0, s) \<in> set (fx_deviceSecrets f)"
    using run(3) map_of_SomeD by (fastforce simp: after_tables map_from_get)
  then have "plain_id (trim d0)" using assms(1) by (auto simp: plain_ids_def)
  with run assms(1) show ?thesis by (simp add: has_login_iff)
qed

text \<open>C4: Login needs a grant. Let no device id of the fixture, of the changes made to it and of
  the device table contain a blank. A device is told that a login is allowed exactly if the
  user has a Unix identity and the history of grants and revocations leaves that user the
  login scope on that very device, and only if the device presented its own access token;
  for a login session the same holds of the user of an unexpired session with the given
  token. A browser gets an offline response only as such a user. Once the login is
  revoked, and until scopes are set again for the pair, the user has no login on the device.\<close>

theorem login_needs_grant:
  assumes "plain_ids f cs" "\<forall>row \<in> set db. plain_id (dv_id row)"
  shows "(\<forall>h d0 u0 dec. authorize_login h d0 u0 db (fixture_after f cs) = Inr dec \<longrightarrow>
      (dc_allowed dec \<longleftrightarrow> has_login f cs (trim d0) (trim u0)) \<and> from_device h (trim d0) db) \<and>
   (\<forall>now h d0 tok ses dec. authorize_session now h d0 tok db ses (fixture_after f cs) = Inr dec \<longrightarrow>
      from_device h (trim d0) db \<and>
      (dc_allowed dec \<longrightarrow> (\<exists>row \<in> set ses. ss_token row = trim tok \<and> now < ss_expiresAt row \<and>
          has_login f cs (trim d0) (ss_userId row)))) \<and>
   (\<forall>hmac unhex user d0 c0 r. offline_respond hmac unhex user d0 c0 (fixture_after f cs) = Inr r \<longrightarrow>
      (\<exists>u. user = Some u \<and> has_login f cs (trim d0) u)) \<and>
   (\<forall>before c later d u. cs = before @ c # later \<longrightarrow> c \<in> {Revoke_login d u, Revoke_all d u} \<longrightarrow>
      (\<forall>sc. Set_scopes d u sc \<notin> set later) \<longrightarrow> \<not> has_login f cs d u)"
proof (intro conjI)
  have dev: "d = trim d0 \<and> from_device h (trim d0) db \<and> plain_id (trim d0)"
    if "device_procedure h d0 db = Inr d" for h d0 d
    using device_procedure_from[OF that] assms(2) by (auto simp: from_device_def)
  show "\<forall>h d0 u0 dec. authorize_login h d0 u0 db (fixture_after f cs) = Inr dec \<longrightarrow>
      (dc_allowed dec \<longleftrightarrow> has_login f cs (trim d0) (trim u0)) \<and> from_device h (trim d0) db"
    by (auto simp: authorize_login_def bind_sum_Inr z_text_Inr decide_def has_login_iff[OF assms(1)] dest!: dev)
  show "\<forall>now h d0 tok ses dec. authorize_session now h d0 tok db ses (fixture_after f cs) = Inr dec \<longrightarrow>
      from_device h (trim d0) db \<and>
      (dc_allowed dec \<longrightarrow> (\<exists>row \<in> set ses. ss_token row = trim tok \<and> now < ss_expiresAt row \<and>
          has_login f cs (trim d0) (ss_userId row)))"
  proof (intro allI impI)
    fix now h d0 tok ses dec
    assume "authorize_session now h d0 tok db ses (fixture_after f cs) = Inr dec"
    then have d: "from_device h (trim d0) db" "plain_id (trim d0)"
      and dec: "dec = (case find (\<lambda>s. ss_token s = trim tok \<and> now < ss_expiresAt s) ses of
              None \<Rightarrow> DENIED_DECISION
            | Some row \<Rightarrow> decide (ss_userId row) (lookup_identity (ss_userId row) (fixture_after f cs))
                (fixture_authorize (fixture_after f cs) (trim d0) (ss_userId row)))"
      by (auto simp: authorize_session_def bind_sum_Inr z_text_Inr dest!: dev)
    show "from_device h (trim d0) db \<and>
      (dc_allowed dec \<longrightarrow> (\<exists>row \<in> set ses. ss_token row = trim tok \<and> now < ss_expiresAt row \<and>
          has_login f cs (trim d0) (ss_userId row)))"
    proof (intro conjI impI)
      assume "dc_allowed dec"
      with dec obtain row where row: "find (\<lambda>s. ss_token s = trim tok \<and> now < ss_expiresAt s) ses = Some row"
        "has_login f cs (trim d0) (ss_userId row)"
        by (auto simp: DENIED_DECISION_def decide_def has_login_iff[OF assms(1) d(2)] split: option.splits)
      from find_Some_mem[OF row(1)] row(2)
      show "\<exists>row \<in> set ses. ss_token row = trim tok \<and> now < ss_expiresAt row \<and> has_login f cs (trim d0) (ss_userId row)"
        by blast
    qed (rule d(1))
  qed
qed (use offline_respond_Inr[OF assms(1)] revoked_stays in blast)+

definition demo_seed :: fixture where
  "demo_seed = \<lparr>fx_identities = [(''u1'', \<lparr>ui_username = ''ann'', ui_linuxUid = 7\<rparr>)],
     fx_grants = [\<lparr>fg_userId = ''u1'', fg_deviceId = ''d1'', fg_scopes = [''device.login'']\<rparr>], fx_deviceSecrets = []\<rparr>"

definition demo_devices :: "device_row list" where
  "demo_devices = [\<lparr>dv_id = ''d1'', dv_accessToken = ''tok'', dv_isActive = True\<rparr>]"

lemmas demo_fixture_simps = demo_seed_def fixture_after_def new_fixture_def lookup_identity_def fixture_authorize_def
  map_from_def grant_key_def DEVICE_LOGIN_SCOPE_def set_scopes_def revoke_login_def Let_def

lemma demo_plain: "plain_ids demo_seed [Revoke_login ''d2'' ''u1'']" "plain_ids demo_seed []"
  "\<forall>row \<in> set demo_devices. plain_id (dv_id row)"
  by (simp_all add: plain_ids_def plain_id_def demo_seed_def demo_devices_def)

lemma demo_login:
  "\<exists>dec. authorize_login (Some ''Bearer tok'') ''d1'' ''u1'' demo_devices (fixture_after demo_seed [Revoke_login ''d2'' ''u1''])
     = Inr dec \<and> dc_allowed dec"
  by (simp add: authorize_login_def device_procedure_def z_text_def trim_id js_space_simps read_bearer_token_def
      BEARER_PREFIX_def starts_with_def verify_device_id_token_def demo_devices_def decide_def demo_fixture_simps)

theorem login_needs_grant_witness:
  "has_login demo_seed [Revoke_login ''d2'' ''u1''] ''d1'' ''u1'' \<and> \<not> has_login demo_seed [Revoke_login ''d2'' ''u1''] ''d2'' ''u1''"
proof -
  obtain dec where d: "authorize_login (Some ''Bearer tok'') ''d1'' ''u1'' demo_devices
      (fixture_after demo_seed [Revoke_login ''d2'' ''u1'']) = Inr dec" "dc_allowed dec"
    using demo_login by blast
  have t: "trim ''d1'' = ''d1''" "trim ''u1'' = ''u1''" by (simp_all add: trim_id js_space_simps)
  note all = login_needs_grant[OF demo_plain(1,3)]
  show ?thesis
    using all[THEN conjunct1, rule_format, OF d(1)] d(2) t
      all[THEN conjunct2, THEN conjunct2, THEN conjunct2, rule_format,
        of "[]" "Revoke_login ''d2'' ''u1''" "[]" "''d2''" "''u1''"] by simp
qed








text \<open>The grant key joins its parts with a blank, so two grants can share a key.\<close>

lemma grant_key_clash: "grant_key ''a b'' ''c'' = grant_key ''a'' ''b c''"
  by (simp add: grant_key_def)

end
