(* ===== verification/Schema_Definition.thy ===== *)
theory Schema_Definition
  imports Release_Api
begin

text \<open>
  The schema editor's model of JSON Schema (\<open>web/packages/json-schema/src/definition.ts\<close>,
  \<open>object-schema.ts\<close>): definitions an author edits, their conversion into a schema and back. A schema
  comes as any JSON value; where the source would stumble over a value of the wrong type the model
  has the error. Definitions and schemas are given a meaning, the values they describe. An object keeps
  its keys in the order they were set; JavaScript puts keys that are array indices first and takes
  \<open>__proto__\<close> for the prototype, so what is proved of objects leaves such names out.
\<close>

section \<open>Definitions\<close>

datatype schema_type = T_string | T_number | T_boolean | T_null | T_object | T_array | T_enum | T_literal | T_union

datatype schema_definition =
    String_def | Number_def | Boolean_def | Null_def
  | Object_def "property_descriptor list"
  | Array_def schema_definition
  | Enum_def "string list"
  | Literal_def json
  | Union_def "schema_definition list"
and property_descriptor =
    Property (pd_name: string) (pd_required: bool) (pd_nullable: bool) (pd_schema: schema_definition)

lemma size_pd_schema [termination_simp]: "p \<in> set ps \<Longrightarrow> size (pd_schema p) < Suc (size_list size ps)"
proof (induction ps)
  case (Cons q ps)
  then show ?case by (cases q) auto
qed simp

definition type_schema :: "string \<Rightarrow> json" where
  "type_schema t = JObj [(''type'', JStr t)]"

definition wrap_nullable :: "json \<Rightarrow> bool \<Rightarrow> json" where
  "wrap_nullable schema nullable = (if nullable then JObj [(''anyOf'', JArr [schema, type_schema ''null''])] else schema)"

fun definition_to_json_schema :: "schema_definition \<Rightarrow> json" where
  "definition_to_json_schema String_def = type_schema ''string''"
| "definition_to_json_schema Number_def = type_schema ''number''"
| "definition_to_json_schema Boolean_def = type_schema ''boolean''"
| "definition_to_json_schema Null_def = type_schema ''null''"
| "definition_to_json_schema (Object_def ps) =
     (let properties = map_from (map (\<lambda>p. (pd_name p, wrap_nullable (definition_to_json_schema (pd_schema p)) (pd_nullable p))) ps);
          required = map pd_name (filter pd_required ps)
      in JObj ([(''type'', JStr ''object''), (''properties'', JObj properties)]
           @ (if 0 < length required then [(''required'', JArr (map JStr required))] else [])
           @ [(''additionalProperties'', JBool False)]))"
| "definition_to_json_schema (Array_def items) = JObj [(''type'', JStr ''array''), (''items'', definition_to_json_schema items)]"
| "definition_to_json_schema (Enum_def values) = JObj [(''enum'', JArr (map JStr values))]"
| "definition_to_json_schema (Literal_def v) = JObj [(''const'', v)]"
| "definition_to_json_schema (Union_def variants) = JObj [(''anyOf'', JArr (map definition_to_json_schema variants))]"

section \<open>Reading a schema\<close>

definition type_error :: "string + 'a" where
  "type_error = Inl ''TypeError''"

text \<open>\<open>a ?? b\<close> on properties that may be missing.\<close>

definition coalesce :: "json option \<Rightarrow> json option \<Rightarrow> json option" where
  "coalesce a b = (case a of None \<Rightarrow> b | Some JNull \<Rightarrow> b | Some v \<Rightarrow> Some v)"

definition variants_of :: "json \<Rightarrow> json option" where
  "variants_of schema = coalesce (json_get schema ''anyOf'') (json_get schema ''oneOf'')"

fun as_array :: "json \<Rightarrow> string + json list" where
  "as_array (JArr vs) = Inr vs"
| "as_array _ = type_error"

text \<open>\<open>typeof v === 'object'\<close>, which \<open>null\<close> and arrays are as well; reading a property of \<open>null\<close> fails.\<close>

fun is_object :: "json \<Rightarrow> bool" where
  "is_object JNull = True"
| "is_object (JArr _) = True"
| "is_object (JObj _) = True"
| "is_object _ = False"

fun is_array :: "json \<Rightarrow> bool" where
  "is_array (JArr _) = True"
| "is_array _ = False"

fun is_null_schema :: "json \<Rightarrow> string + bool" where
  "is_null_schema JNull = type_error"
| "is_null_schema v = Inr (is_object v \<and> json_get v ''type'' = Some (JStr ''null''))"

fun filter_sum :: "('a \<Rightarrow> 'e + bool) \<Rightarrow> 'a list \<Rightarrow> 'e + 'a list" where
  "filter_sum f [] = Inr []"
| "filter_sum f (x # xs) = bind_sum (f x) (\<lambda>b. bind_sum (filter_sum f xs) (\<lambda>ys. Inr (if b then x # ys else ys)))"

definition split_nullable :: "json \<Rightarrow> string + json \<times> bool" where
  "split_nullable schema =
     (if \<not> is_object schema then Inr (schema, False)
      else if schema = JNull then type_error
      else case variants_of schema of
        None \<Rightarrow> Inr (schema, False)
      | Some v \<Rightarrow> bind_sum (as_array v) (\<lambda>variants.
          bind_sum (filter_sum (\<lambda>variant. bind_sum (is_null_schema variant) (\<lambda>b. Inr (\<not> b))) variants) (\<lambda>nonNull.
            Inr (if int (length nonNull) = int (length variants) - 1 \<and> length nonNull = 1 then (hd nonNull, True) else (schema, False)))))"

text \<open>\<open>new Set(x ?? [])\<close> and \<open>Object.entries(x)\<close>.\<close>

definition to_set :: "json option \<Rightarrow> string + json list" where
  "to_set v = (case v of None \<Rightarrow> Inr [] | Some JNull \<Rightarrow> Inr [] | Some (JArr xs) \<Rightarrow> Inr xs
     | Some (JStr s) \<Rightarrow> Inr (map (\<lambda>c. JStr [c]) s) | Some _ \<Rightarrow> type_error)"

definition enumerated :: "json list \<Rightarrow> (string \<times> json) list" where
  "enumerated vs = map (\<lambda>i. (nat_str i, vs ! i)) [0..<length vs]"

definition object_entries :: "json \<Rightarrow> string + (string \<times> json) list" where
  "object_entries v = (case v of JNull \<Rightarrow> type_error | JObj es \<Rightarrow> Inr es | JArr vs \<Rightarrow> Inr (enumerated vs)
     | JStr s \<Rightarrow> Inr (enumerated (map (\<lambda>c. JStr [c]) s)) | _ \<Rightarrow> Inr [])"

lemma bind_sum_cong [fundef_cong]:
  "x = y \<Longrightarrow> (\<And>v. y = Inr v \<Longrightarrow> f v = g v) \<Longrightarrow> bind_sum x f = bind_sum y g"
  by (cases y) simp_all

lemma map_sum_list_cong [fundef_cong]:
  "xs = ys \<Longrightarrow> (\<And>x. x \<in> set ys \<Longrightarrow> f x = g x) \<Longrightarrow> map_sum_list f xs = map_sum_list g ys"
  by (induction ys arbitrary: xs) (auto intro!: bind_sum_cong)

lemma size_json_get: "json_get v k = Some w \<Longrightarrow> size w < size v"
  by (cases v) (auto dest: map_of_SomeD size_entry)

lemma size_variants: "variants_of v = Some w \<Longrightarrow> size w < size v"
  by (auto simp: variants_of_def coalesce_def split: option.splits json.splits dest: size_json_get)

lemma size_as_array: "as_array v = Inr vs \<Longrightarrow> w \<in> set vs \<Longrightarrow> size w < size v"
  by (cases v) (auto simp: type_error_def size_elem)

lemma filter_sum_subset: "filter_sum f xs = Inr ys \<Longrightarrow> set ys \<subseteq> set xs"
  by (induction xs arbitrary: ys) (fastforce simp: bind_sum_Inr split: if_splits)+

lemma size_split_nullable: "split_nullable v = Inr (w, n) \<Longrightarrow> size w \<le> size v \<and> (n \<longrightarrow> size w < size v)"
proof (cases "variants_of v")
  case (Some vs)
  assume "split_nullable v = Inr (w, n)"
  with Some consider "w = v" "\<not> n" | ws ns where "as_array vs = Inr ws" "set ns \<subseteq> set ws" "w = hd ns" "length ns = 1"
    by (auto simp: split_nullable_def bind_sum_Inr type_error_def dest!: filter_sum_subset split: if_splits)
  then show ?thesis
  proof cases
    case 2
    then have "w \<in> set ws" by (cases ns) auto
    with 2(1) size_as_array size_variants[OF Some] show ?thesis by fastforce
  qed simp
qed (auto simp: split_nullable_def type_error_def split: if_splits)

lemma enumerated_size: "(k, v) \<in> set (enumerated vs) \<Longrightarrow> v \<in> set vs"
  by (auto simp: enumerated_def)

lemma size_entries:
  assumes "object_entries v = Inr es" "e \<in> set es"
  shows "size (snd e) \<le> size v"
proof (cases v)
  case (JArr vs)
  with assms have "snd e \<in> set vs" by (cases e) (auto simp: object_entries_def dest: enumerated_size)
  with JArr show ?thesis using size_elem[of "snd e" vs] by simp
next
  case (JStr s)
  with assms have "snd e \<in> set (map (\<lambda>c. JStr [c]) s)" by (cases e) (auto simp: object_entries_def dest!: enumerated_size)
  with JStr show ?thesis by auto
next
  case (JObj fs)
  with assms show ?thesis using size_entry[of "fst e" "snd e" fs] by (simp add: object_entries_def)
qed (use assms in \<open>auto simp: object_entries_def type_error_def\<close>)

lemma size_property:
  assumes "json_get v k = Some ps" "object_entries ps = Inr es" "e \<in> set es" "split_nullable (snd e) = Inr (w, n)"
  shows "size w < size v"
  using size_json_get[OF assms(1)] size_entries[OF assms(2,3)] size_split_nullable[OF assms(4)] by simp

lemma size_variant: "variants_of v = Some x \<Longrightarrow> as_array x = Inr vs \<Longrightarrow> w \<in> set vs \<Longrightarrow> size w < size v"
  using size_variants size_as_array less_trans by blast

text \<open>A type that is no text, a list of types for instance, is read as a string.\<close>

function json_schema_to_definition :: "json \<Rightarrow> string + schema_definition" where
  "json_schema_to_definition schema =
     (if \<not> is_object schema then Inr String_def
      else if schema = JNull then type_error
      else case json_get schema ''const'' of
        Some v \<Rightarrow> Inr (Literal_def v)
      | None \<Rightarrow> (case json_get schema ''enum'' of
        Some v \<Rightarrow> bind_sum (as_array v) (\<lambda>entries. Inr (Enum_def (map js_text entries)))
      | None \<Rightarrow> (case variants_of schema of
        Some v \<Rightarrow> bind_sum (split_nullable schema) (\<lambda>(inner, nullable).
          if nullable then json_schema_to_definition inner
          else bind_sum (as_array v) (\<lambda>variants.
            bind_sum (map_sum_list json_schema_to_definition variants) (\<lambda>ds. Inr (Union_def ds))))
      | None \<Rightarrow>
          (let t = json_get schema ''type''
           in if t = Some (JStr ''string'') then Inr String_def
              else if t = Some (JStr ''number'') \<or> t = Some (JStr ''integer'') then Inr Number_def
              else if t = Some (JStr ''boolean'') then Inr Boolean_def
              else if t = Some (JStr ''null'') then Inr Null_def
              else if t = Some (JStr ''array'') then
                (case json_get schema ''items'' of
                   None \<Rightarrow> Inr (Array_def String_def)
                 | Some items \<Rightarrow> if is_array items then Inr (Array_def String_def)
                     else bind_sum (json_schema_to_definition items) (\<lambda>d. Inr (Array_def d)))
              else if t = Some (JStr ''object'') then
                (case json_get schema ''properties'' of
                   None \<Rightarrow> Inr (Object_def [])
                 | Some properties \<Rightarrow>
                     bind_sum (to_set (json_get schema ''required'')) (\<lambda>required.
                     bind_sum (object_entries properties) (\<lambda>entries.
                     bind_sum (map_sum_list (\<lambda>e. bind_sum (split_nullable (snd e)) (\<lambda>(inner, nullable).
                         bind_sum (json_schema_to_definition inner) (\<lambda>d.
                           Inr (Property (fst e) (List.member required (JStr (fst e))) nullable d)))) entries) (\<lambda>ps.
                       Inr (Object_def ps)))))
              else Inr String_def))))"
  by pat_completeness auto

termination json_schema_to_definition
proof (relation "measure size", goal_cases)
  case (2 schema)
  then show ?case by (auto dest: size_json_get)
next
  case (3 schema)
  then show ?case by (auto intro: size_property)
next
  case (4 schema)
  then show ?case by (auto dest: size_split_nullable)
next
  case (5 schema)
  then show ?case by (auto intro: size_variant)
qed simp

declare json_schema_to_definition.simps [simp del]

section \<open>Defaults\<close>

definition SCHEMA_TYPE_OPTIONS :: "(schema_type \<times> string) list" where
  "SCHEMA_TYPE_OPTIONS = [(T_string, ''String''), (T_number, ''Number''), (T_boolean, ''Boolean''), (T_null, ''Null''),
     (T_object, ''Object''), (T_array, ''Array''), (T_enum, ''Enum''), (T_literal, ''Literal''), (T_union, ''Union'')]"

fun create_default_definition :: "schema_type \<Rightarrow> schema_definition" where
  "create_default_definition T_string = String_def"
| "create_default_definition T_number = Number_def"
| "create_default_definition T_boolean = Boolean_def"
| "create_default_definition T_null = Null_def"
| "create_default_definition T_object = Object_def []"
| "create_default_definition T_array = Array_def String_def"
| "create_default_definition T_enum = Enum_def [''value1'']"
| "create_default_definition T_literal = Literal_def (JStr [])"
| "create_default_definition T_union = Union_def [String_def, Number_def]"

definition create_default_property :: "string \<Rightarrow> property_descriptor" where
  "create_default_property name = Property name True False String_def"

section \<open>Object schemas\<close>

definition empty_object_schema :: json where
  "empty_object_schema = JObj [(''type'', JStr ''object''), (''properties'', JObj []), (''additionalProperties'', JBool False)]"

text \<open>What is passed: nothing, a schema of the validation library, rendered by an argument, or a JSON schema.\<close>

datatype 'z schema_like = Undefined_schema | Zod_schema 'z | Plain_schema json

fun is_text :: "json \<Rightarrow> bool" where
  "is_text (JStr _) = True"
| "is_text _ = False"

definition resolve_object_schema :: "json \<Rightarrow> string + json" where
  "resolve_object_schema jsonSchema =
     (if \<not> is_object jsonSchema \<or> is_array jsonSchema then Inr empty_object_schema
      else (case jsonSchema of
        JObj es \<Rightarrow>
          if map_of es ''type'' \<noteq> Some (JStr ''object'') \<and> map_of es ''properties'' = None then Inr empty_object_schema
          else bind_sum (case map_of es ''required'' of None \<Rightarrow> Inr [] | Some JNull \<Rightarrow> Inr [] | Some v \<Rightarrow> as_array v) (\<lambda>entries.
            let required = filter is_text entries;
                properties = (case map_of es ''properties'' of None \<Rightarrow> JObj [] | Some JNull \<Rightarrow> JObj [] | Some v \<Rightarrow> v);
                typed = map_set ''properties'' properties (map_set ''type'' (JStr ''object'') es)
            in Inr (JObj (if 0 < length required then map_set ''required'' (JArr required) typed else typed)))
      | _ \<Rightarrow> type_error))"

definition to_object_schema :: "('z \<Rightarrow> json) \<Rightarrow> 'z schema_like \<Rightarrow> string + json" where
  "to_object_schema toJSONSchema schema =
     (case schema of Undefined_schema \<Rightarrow> Inr empty_object_schema
      | Zod_schema z \<Rightarrow> resolve_object_schema (toJSONSchema z)
      | Plain_schema j \<Rightarrow> resolve_object_schema j)"

section \<open>What definitions and schemas mean\<close>

fun elems :: "json \<Rightarrow> json list" where
  "elems (JArr vs) = vs"
| "elems _ = []"

fun members :: "json \<Rightarrow> (string \<times> json) list" where
  "members (JObj es) = es"
| "members _ = []"

fun type_matches :: "json \<Rightarrow> json \<Rightarrow> bool" where
  "type_matches t (JStr _) = (t = JStr ''string'')"
| "type_matches t (JNum _) = (t = JStr ''number'' \<or> t = JStr ''integer'')"
| "type_matches t (JBool _) = (t = JStr ''boolean'')"
| "type_matches t JNull = (t = JStr ''null'')"
| "type_matches t (JArr _) = (t = JStr ''array'')"
| "type_matches t (JObj _) = (t = JStr ''object'')"

text \<open>The values a definition describes: objects are closed, a property that is not required may be missing.\<close>

fun describes :: "schema_definition \<Rightarrow> json \<Rightarrow> bool" where
  "describes String_def v = type_matches (JStr ''string'') v"
| "describes Number_def v = type_matches (JStr ''number'') v"
| "describes Boolean_def v = type_matches (JStr ''boolean'') v"
| "describes Null_def v = (v = JNull)"
| "describes (Object_def ps) v = (type_matches (JStr ''object'') v
     \<and> list_all (\<lambda>e. fst e \<in> set (map pd_name ps)) (members v)
     \<and> list_all (\<lambda>p. case json_get v (pd_name p) of None \<Rightarrow> \<not> pd_required p
          | Some w \<Rightarrow> (pd_nullable p \<and> w = JNull) \<or> describes (pd_schema p) w) ps)"
| "describes (Array_def items) v = (type_matches (JStr ''array'') v \<and> list_all (describes items) (elems v))"
| "describes (Enum_def values) v = (v \<in> JStr ` set values)"
| "describes (Literal_def l) v = (v = l)"
| "describes (Union_def variants) v = list_ex (\<lambda>d. describes d v) variants"

text \<open>The meaning JSON Schema gives to the keywords the editor writes.\<close>

function validates :: "json \<Rightarrow> json \<Rightarrow> bool" where
  "validates schema v =
     (case schema of
        JBool b \<Rightarrow> b
      | JObj es \<Rightarrow>
          (case map_of es ''type'' of None \<Rightarrow> True | Some t \<Rightarrow> type_matches t v)
          \<and> (case map_of es ''const'' of None \<Rightarrow> True | Some c \<Rightarrow> v = c)
          \<and> (case map_of es ''enum'' of None \<Rightarrow> True | Some e \<Rightarrow> v \<in> set (elems e))
          \<and> (case map_of es ''anyOf'' of None \<Rightarrow> True | Some a \<Rightarrow> list_ex (\<lambda>s. validates s v) (elems a))
          \<and> (case map_of es ''items'' of None \<Rightarrow> True | Some i \<Rightarrow> list_all (\<lambda>w. validates i w) (elems v))
          \<and> (case map_of es ''properties'' of None \<Rightarrow> True | Some ps \<Rightarrow>
               list_all (\<lambda>e. case json_get v (fst e) of None \<Rightarrow> True | Some w \<Rightarrow> validates (snd e) w) (members ps))
          \<and> (case (map_of es ''required'', v) of (Some r, JObj fs) \<Rightarrow> list_all (\<lambda>k. k \<in> JStr ` set (map_keys fs)) (elems r) | _ \<Rightarrow> True)
          \<and> (case map_of es ''additionalProperties'' of None \<Rightarrow> True | Some a \<Rightarrow>
               list_all (\<lambda>e. fst e \<in> set (map_keys (case map_of es ''properties'' of None \<Rightarrow> [] | Some ps \<Rightarrow> members ps))
                 \<or> validates a (snd e)) (members v))
      | _ \<Rightarrow> False)"
  by pat_completeness auto

lemma size_elems: "w \<in> set (elems v) \<Longrightarrow> size w < size v"
  by (cases v) (auto simp: size_elem)

lemma size_members: "e \<in> set (members v) \<Longrightarrow> size (snd e) < size v"
  by (cases v; cases e) (auto simp: size_entry)

lemma size_member_of: "map_of es k = Some w \<Longrightarrow> size w < size (JObj es)"
  using size_json_get[of "JObj es" k w] by simp

termination validates
proof (relation "measure (\<lambda>(s, v). size s)", goal_cases)
  case (2 schema v es a s)
  then show ?case using size_elems[of s a] size_member_of[of es "''anyOf''" a] by simp
next
  case (4 schema v es ps e w)
  then show ?case using size_members[of e ps] size_member_of[of es "''properties''" ps] by simp
qed (use size_member_of in auto)

declare validates.simps [simp del]

section \<open>Round trip\<close>

text \<open>What the editor keeps: names are plain and not repeated, only a property is nullable (a union of something and
  null is not one), what is nullable is not null already, and a literal is a text, a number or a truth value.\<close>

fun is_scalar :: "json \<Rightarrow> bool" where
  "is_scalar (JStr _) = True"
| "is_scalar (JNum _) = True"
| "is_scalar (JBool _) = True"
| "is_scalar _ = False"

definition collapses :: "schema_definition list \<Rightarrow> bool" where
  "collapses variants \<longleftrightarrow> length variants = 2 \<and> length (filter (\<lambda>d. d \<noteq> Null_def) variants) = 1"

definition plain_name :: "string \<Rightarrow> bool" where
  "plain_name n \<longleftrightarrow> n \<noteq> ''__proto__'' \<and> \<not> (n \<noteq> [] \<and> list_all is_digit n)"

fun editable :: "schema_definition \<Rightarrow> bool" where
  "editable (Object_def ps) = (distinct (map pd_name ps)
     \<and> list_all (\<lambda>p. plain_name (pd_name p) \<and> editable (pd_schema p) \<and> \<not> (pd_nullable p \<and> pd_schema p = Null_def)) ps)"
| "editable (Array_def items) = editable items"
| "editable (Literal_def v) = is_scalar v"
| "editable (Union_def variants) = (list_all editable variants \<and> \<not> collapses variants)"
| "editable _ = True"

lemma schema_is_object [simp]: "is_object (definition_to_json_schema d)" "definition_to_json_schema d \<noteq> JNull"
  "\<not> is_array (definition_to_json_schema d)"
  by (cases d; simp add: type_schema_def Let_def)+

lemma schema_null [simp]: "is_null_schema (definition_to_json_schema d) = Inr (d = Null_def)"
  by (cases d) (auto simp: type_schema_def Let_def)

lemma filter_sum_Inr: "(\<And>x. x \<in> set xs \<Longrightarrow> f x = Inr (P x)) \<Longrightarrow> filter_sum f xs = Inr (filter P xs)"
  by (induction xs) auto

lemma map_sum_list_Inr: "(\<And>x. x \<in> set xs \<Longrightarrow> f x = Inr (g x)) \<Longrightarrow> map_sum_list f xs = Inr (map g xs)"
  by (induction xs) auto

lemma map_sum_list_map: "map_sum_list f (map g xs) = map_sum_list (f \<circ> g) xs"
  by (induction xs) auto

lemma split_union:
  "split_nullable (JObj [(''anyOf'', JArr (map definition_to_json_schema vs))]) =
     Inr (if collapses vs then (definition_to_json_schema (hd (filter (\<lambda>d. d \<noteq> Null_def) vs)), True)
          else (JObj [(''anyOf'', JArr (map definition_to_json_schema vs))], False))"
proof -
  have "filter_sum (\<lambda>variant. bind_sum (is_null_schema variant) (\<lambda>b. Inr (\<not> b))) (map definition_to_json_schema vs)
      = Inr (map definition_to_json_schema (filter (\<lambda>d. d \<noteq> Null_def) vs))"
    by (induction vs) auto
  moreover have "length ds = Suc 0 \<Longrightarrow> hd (map f ds) = f (hd ds)" for f :: "schema_definition \<Rightarrow> json" and ds
    by (cases ds) auto
  ultimately show ?thesis
    by (auto simp: split_nullable_def variants_of_def coalesce_def collapses_def)
qed

lemma split_schema [simp]: "split_nullable (definition_to_json_schema d) = Inr
    (case d of Union_def vs \<Rightarrow> (if collapses vs then (definition_to_json_schema (hd (filter (\<lambda>d. d \<noteq> Null_def) vs)), True)
        else (definition_to_json_schema d, False))
     | _ \<Rightarrow> (definition_to_json_schema d, False))"
  using split_union by (cases d) (auto simp: split_nullable_def variants_of_def coalesce_def type_schema_def Let_def)

lemma split_wrapped:
  "editable d \<Longrightarrow> \<not> (n \<and> d = Null_def) \<Longrightarrow>
     split_nullable (wrap_nullable (definition_to_json_schema d) n) = Inr (definition_to_json_schema d, n)"
proof (cases n)
  case True
  assume "editable d" "\<not> (n \<and> d = Null_def)"
  with True split_union[of "[d, Null_def]"] show ?thesis by (simp add: wrap_nullable_def collapses_def)
qed (auto simp: wrap_nullable_def split: schema_definition.splits)

lemma object_schema:
  "distinct (map pd_name ps) \<Longrightarrow> definition_to_json_schema (Object_def ps) = JObj ([(''type'', JStr ''object''),
       (''properties'', JObj (map (\<lambda>p. (pd_name p, wrap_nullable (definition_to_json_schema (pd_schema p)) (pd_nullable p))) ps))]
     @ (if 0 < length (filter pd_required ps) then [(''required'', JArr (map JStr (map pd_name (filter pd_required ps))))] else [])
     @ [(''additionalProperties'', JBool False)])"
  by (simp add: Let_def map_from_id comp_def)

lemma object_schema_read:
  assumes "distinct (map pd_name ps)"
  obtains es where "definition_to_json_schema (Object_def ps) = JObj es"
    "map_of es ''const'' = None" "map_of es ''enum'' = None" "map_of es ''anyOf'' = None" "map_of es ''oneOf'' = None"
    "map_of es ''items'' = None" "map_of es ''type'' = Some (JStr ''object'')"
    "map_of es ''properties'' = Some (JObj (map (\<lambda>p. (pd_name p, wrap_nullable (definition_to_json_schema (pd_schema p)) (pd_nullable p))) ps))"
    "to_set (map_of es ''required'') = Inr (map JStr (map pd_name (filter pd_required ps)))"
    "elems (or_else (map_of es ''required'') JNull) = map JStr (map pd_name (filter pd_required ps))"
    "map_of es ''additionalProperties'' = Some (JBool False)"
  by (rule that[OF object_schema[OF assms]]) (auto simp: to_set_def filter_empty_conv)

lemma schema_round_trip: "editable d \<Longrightarrow> json_schema_to_definition (definition_to_json_schema d) = Inr d"
proof (induction d rule: definition_to_json_schema.induct)
  case (5 ps)
  let ?es = "map (\<lambda>p. (pd_name p, wrap_nullable (definition_to_json_schema (pd_schema p)) (pd_nullable p))) ps"
  let ?req = "map JStr (map pd_name (filter pd_required ps))"
  have req: "List.member ?req (JStr (pd_name p)) = pd_required p" if "p \<in> set ps" for p
    using that 5(2) by (auto simp: distinct_map inj_on_def)
  have "map_sum_list (\<lambda>e. bind_sum (split_nullable (snd e)) (\<lambda>(inner, nullable).
      bind_sum (json_schema_to_definition inner) (\<lambda>d. Inr (Property (fst e) (List.member ?req (JStr (fst e))) nullable d)))) ?es
    = Inr (map id ps)"
    unfolding map_sum_list_map
    by (rule map_sum_list_Inr) (use 5 req split_wrapped in \<open>auto simp: list_all_iff property_descriptor.expand\<close>)
  note properties = this
  have "distinct (map pd_name ps)" using 5(2) by simp
  then show ?case
  proof (rule object_schema_read)
    fix es assume es: "definition_to_json_schema (Object_def ps) = JObj es"
      "map_of es ''const'' = None" "map_of es ''enum'' = None" "map_of es ''anyOf'' = None" "map_of es ''oneOf'' = None"
      "map_of es ''type'' = Some (JStr ''object'')" "map_of es ''properties'' = Some (JObj ?es)" "to_set (map_of es ''required'') = Inr ?req"
    show ?thesis unfolding es(1) json_schema_to_definition.simps[of "JObj es"]
      using properties by (simp add: es variants_of_def coalesce_def object_entries_def)
  qed
next
  case (9 variants)
  then have "map_sum_list json_schema_to_definition (map definition_to_json_schema variants) = Inr (map id variants)"
    unfolding map_sum_list_map by (intro map_sum_list_Inr) (auto simp: list_all_iff)
  with 9(2) show ?case
    by (simp add: json_schema_to_definition.simps[of "JObj _"] split_union variants_of_def coalesce_def)
qed (auto simp: json_schema_to_definition.simps type_schema_def variants_of_def coalesce_def comp_def)

section \<open>Meaning\<close>

lemma validates_wrapped:
  "validates (wrap_nullable s n) v \<longleftrightarrow> (n \<and> v = JNull) \<or> validates s v"
proof -
  have "validates (type_schema ''null'') v \<longleftrightarrow> v = JNull"
    by (cases v) (simp_all add: type_schema_def validates.simps[of "JObj _"])
  then show ?thesis by (auto simp: wrap_nullable_def validates.simps[of "JObj [(''anyOf'', _)]"])
qed

lemma required_names:
  "list_all (\<lambda>k. k \<in> JStr ` set (map_keys fs)) (map JStr ns) \<longleftrightarrow> list_all (\<lambda>n. map_of fs n \<noteq> None) ns"
  by (auto simp: list_all_iff map_of_eq_None_iff)

lemma schema_meaning: "editable d \<Longrightarrow> validates (definition_to_json_schema d) v = describes d v"
proof (induction d arbitrary: v rule: definition_to_json_schema.induct)
  case (5 ps)
  have ih: "validates (wrap_nullable (definition_to_json_schema (pd_schema p)) (pd_nullable p)) w
      \<longleftrightarrow> (pd_nullable p \<and> w = JNull) \<or> describes (pd_schema p) w" if "p \<in> set ps" for p w
    using 5 that by (simp add: validates_wrapped list_all_iff)
  have "distinct (map pd_name ps)" using 5(2) by simp
  then show ?case
  proof (rule object_schema_read)
    fix es assume es: "definition_to_json_schema (Object_def ps) = JObj es"
      "map_of es ''const'' = None" "map_of es ''enum'' = None" "map_of es ''anyOf'' = None" "map_of es ''items'' = None"
      "map_of es ''type'' = Some (JStr ''object'')"
      "map_of es ''properties'' = Some (JObj (map (\<lambda>p. (pd_name p, wrap_nullable (definition_to_json_schema (pd_schema p)) (pd_nullable p))) ps))"
      "elems (or_else (map_of es ''required'') JNull) = map JStr (map pd_name (filter pd_required ps))"
      "map_of es ''additionalProperties'' = Some (JBool False)"
    have req: "(case (map_of es ''required'', v) of (Some r, JObj fs) \<Rightarrow> list_all (\<lambda>k. k \<in> JStr ` set (map_keys fs)) (elems r) | _ \<Rightarrow> True)
        \<longleftrightarrow> (\<forall>fs. v = JObj fs \<longrightarrow> list_all (\<lambda>n. map_of fs n \<noteq> None) (map pd_name (filter pd_required ps)))"
    proof (cases "map_of es ''required''")
      case None
      with es(8) have "filter pd_required ps = []" by simp
      with None show ?thesis by simp
    next
      case (Some r)
      with es(8) have r: "elems r = map JStr (map pd_name (filter pd_required ps))" by simp
      show ?thesis
      proof (cases v)
        case (JObj fs)
        show ?thesis by (simp only: Some JObj r required_names option.case prod.case json.case json.inject) simp
      qed (simp_all add: Some)
    qed
    have keys: "map_keys (map (\<lambda>p. (pd_name p, wrap_nullable (definition_to_json_schema (pd_schema p)) (pd_nullable p))) ps) = map pd_name ps"
      by simp
    show ?thesis unfolding es(1) validates.simps[of "JObj es"]
      unfolding json.case es option.case req members.simps keys
      using ih by (cases v) (auto simp: list_all_iff validates.simps[of "JBool _"] split: option.splits)
  qed
next
  case (9 variants)
  then have "list_ex (\<lambda>s. validates s v) (map definition_to_json_schema variants) = list_ex (\<lambda>d. describes d v) variants"
    by (auto simp: list_ex_iff list_all_iff)
  then show ?case by (simp add: validates.simps[of "JObj _"])
next
  case (6 items)
  then have "validates (definition_to_json_schema items) = describes items" by (intro ext) simp
  then show ?case by (simp add: validates.simps[of "JObj [(''type'', _), (''items'', _)]"])
qed (auto simp: validates.simps[of "JObj _"] type_schema_def elim: type_matches.elims)

lemma object_schema_resolved:
  assumes "editable (Object_def ps)"
  shows "resolve_object_schema (definition_to_json_schema (Object_def ps)) = Inr (definition_to_json_schema (Object_def ps))"
proof (rule object_schema_read[of ps])
  show "distinct (map pd_name ps)" using assms by simp
  fix es assume es: "definition_to_json_schema (Object_def ps) = JObj es" "map_of es ''type'' = Some (JStr ''object'')"
    "map_of es ''properties'' = Some (JObj (map (\<lambda>p. (pd_name p, wrap_nullable (definition_to_json_schema (pd_schema p)) (pd_nullable p))) ps))"
    and req: "elems (or_else (map_of es ''required'') JNull) = map JStr (map pd_name (filter pd_required ps))"
  have shape: "es = [(''type'', JStr ''object''),
       (''properties'', JObj (map (\<lambda>p. (pd_name p, wrap_nullable (definition_to_json_schema (pd_schema p)) (pd_nullable p))) ps))]
     @ (if 0 < length (filter pd_required ps) then [(''required'', JArr (map JStr (map pd_name (filter pd_required ps))))] else [])
     @ [(''additionalProperties'', JBool False)]"
    using object_schema[of ps] es(1) assms by simp
  have texts: "filter is_text (map JStr ns) = map JStr ns" for ns by (induction ns) auto
  show ?thesis
    by (cases "0 < length (filter pd_required ps)") (simp_all add: es(1) resolve_object_schema_def shape texts del: map_map)
qed

section \<open>The property\<close>

text \<open>What is edited is what is checked. For every definition the editor can hold, reading back the
  schema written for it gives the same definition, a value satisfies the schema exactly when the
  definition describes it, and the schema of an object survives the narrowing every form and
  validator applies to it.\<close>

theorem schema_editor_faithful:
  assumes "editable d"
  shows "json_schema_to_definition (definition_to_json_schema d) = Inr d
    \<and> (\<forall>v. validates (definition_to_json_schema d) v = describes d v)
    \<and> (\<forall>ps. d = Object_def ps \<longrightarrow>
         to_object_schema toJSONSchema (Plain_schema (definition_to_json_schema d)) = Inr (definition_to_json_schema d))"
proof (intro conjI allI impI)
  fix ps assume "d = Object_def ps"
  with assms object_schema_resolved[of ps]
  show "to_object_schema toJSONSchema (Plain_schema (definition_to_json_schema d)) = Inr (definition_to_json_schema d)"
    by (simp only: to_object_schema_def schema_like.case)
qed (fact schema_round_trip[OF assms] schema_meaning[OF assms])+

definition demo_device :: schema_definition where
  "demo_device = Object_def [Property ''name'' True False String_def, Property ''note'' True True String_def,
     Property ''ports'' False False (Array_def (Union_def [Number_def, Enum_def [''usb'', ''uart'']]))]"

theorem schema_editor_faithful_witness:
  "json_schema_to_definition (definition_to_json_schema demo_device) = Inr demo_device
   \<and> validates (definition_to_json_schema demo_device)
       (JObj [(''note'', JNull), (''name'', JStr ''hub''), (''ports'', JArr [JNum 3, JStr ''usb''])])
   \<and> \<not> validates (definition_to_json_schema demo_device) (JObj [(''name'', JNull), (''note'', JNull)])"
proof -
  have d: "editable demo_device" by (simp add: demo_device_def collapses_def plain_name_def is_digit_def)
  note f = schema_editor_faithful[OF d, where toJSONSchema = id]
  have "describes demo_device (JObj [(''note'', JNull), (''name'', JStr ''hub''), (''ports'', JArr [JNum 3, JStr ''usb''])])"
    "\<not> describes demo_device (JObj [(''name'', JNull), (''note'', JNull)])"
    by (simp_all add: demo_device_def)
  with f show ?thesis by simp
qed

section \<open>Findings\<close>

text \<open>Outside a property the null of a union of two is lost, and the schema gets narrower.\<close>

lemma nullable_items_lost:
  "json_schema_to_definition (definition_to_json_schema (Array_def (Union_def [String_def, Null_def]))) = Inr (Array_def String_def)"
  "validates (definition_to_json_schema (Array_def (Union_def [String_def, Null_def]))) (JArr [JNull])"
  "\<not> validates (definition_to_json_schema (Array_def String_def)) (JArr [JNull])"
  by (simp_all add: json_schema_to_definition.simps validates.simps type_schema_def split_nullable_def variants_of_def coalesce_def)

text \<open>Some texts that parse make reading the schema fail.\<close>

lemma malformed_schema_throws:
  "json_schema_to_definition JNull = type_error"
  "json_schema_to_definition (JObj [(''enum'', JNum 1)]) = type_error"
  "json_schema_to_definition (JObj [(''type'', JStr ''object''), (''properties'', JNull)]) = type_error"
  by (simp_all add: json_schema_to_definition.simps type_error_def variants_of_def coalesce_def to_set_def object_entries_def)

text \<open>Entries of \<open>required\<close> that are no texts stay when none of them is one.\<close>

lemma required_numbers_stay:
  "resolve_object_schema (JObj [(''type'', JStr ''object''), (''required'', JArr [JNum 1])]) =
     Inr (JObj [(''type'', JStr ''object''), (''required'', JArr [JNum 1]), (''properties'', JObj [])])"
  by (simp add: resolve_object_schema_def)

end
