(* ===== verification/Schema_Type.thy ===== *)
theory Schema_Type
  imports Schema_Definition
begin

text \<open>
  Schemas as TypeScript source (\<open>web/packages/json-schema/src/type-string.ts\<close>), which makes a code
  editor typesafe, and the check of a schema that a model wrote (\<open>check_schema\<close> in \<open>ai.ts\<close>). The
  conversion follows references as deep as the stack allows; the room on the stack is an argument.
\<close>

section \<open>Separators\<close>

definition OPENERS :: string where "OPENERS = ''{[(''"
definition CLOSERS :: string where "CLOSERS = ''}])''"

fun separator_scan :: "int \<Rightarrow> char option \<Rightarrow> string \<Rightarrow> bool" where
  "separator_scan depth quoting [] = False"
| "separator_scan depth (Some q) (c # cs) =
     (if c = CHR 0x5C then separator_scan depth (Some q) (tl cs)
      else if c = q then separator_scan depth None cs
      else separator_scan depth (Some q) cs)"
| "separator_scan depth None (c # cs) =
     (if c = CHR 0x22 \<or> c = CHR 0x27 then separator_scan depth (Some c) cs
      else if c \<in> set OPENERS then separator_scan (depth + 1) None cs
      else if c \<in> set CLOSERS then separator_scan (depth - 1) None cs
      else if depth = 0 \<and> (c = CHR ''|'' \<or> c = CHR ''&'') then True
      else separator_scan depth None cs)"

definition has_top_level_separator :: "string \<Rightarrow> bool" where
  "has_top_level_separator type = separator_scan 0 None type"

section \<open>The conversion\<close>

definition INDENT :: string where "INDENT = ''  ''"

definition indent_of :: "nat \<Rightarrow> string" where
  "indent_of depth = concat (replicate depth INDENT)"

definition ident_start :: "char \<Rightarrow> bool" where
  "ident_start c = (let n = of_char c :: nat in (97 \<le> n \<and> n \<le> 122) \<or> (65 \<le> n \<and> n \<le> 90) \<or> c = CHR ''_'' \<or> c = CHR ''$'')"

definition is_identifier :: "string \<Rightarrow> bool" where
  "is_identifier s = (s \<noteq> [] \<and> ident_start (hd s) \<and> list_all (\<lambda>c. ident_start c \<or> is_digit c) (tl s))"

definition property_name :: "string \<Rightarrow> string" where
  "property_name key = (if is_identifier key then key else json_print (JStr key))"

definition ref_key :: "string \<Rightarrow> string" where
  "ref_key r = (if starts_with ''#/$defs/'' r then drop 8 r else r)"

fun truthy :: "json \<Rightarrow> bool" where
  "truthy (JBool b) = b"
| "truthy (JNum n) = (n \<noteq> 0)"
| "truthy (JStr s) = (s \<noteq> [])"
| "truthy JNull = False"
| "truthy _ = True"

text \<open>What a member says unless it is missing or \<open>false\<close>.\<close>

definition open_schema :: "json option \<Rightarrow> json option" where
  "open_schema additional = (case additional of None \<Rightarrow> None | Some (JBool False) \<Rightarrow> None | Some v \<Rightarrow> Some v)"

definition stack_overflow :: "string + 'a" where
  "stack_overflow = Inl ''Maximum call stack size exceeded''"

definition pipe :: string where "pipe = '' | ''"

fun type_convert :: "json option \<Rightarrow> nat \<Rightarrow> json \<Rightarrow> nat \<Rightarrow> string + string" where
  "type_convert defs 0 schema depth = stack_overflow"
| "type_convert defs (Suc room) schema depth =
     (let convert = type_convert defs room;
          value_text = (\<lambda>v d. if v = JBool True then Inr ''unknown'' else convert v d)
      in if \<not> is_object schema then Inr (if truthy schema then ''unknown'' else ''never'')
      else if schema = JNull then type_error
      else case json_get schema ''$ref'' of
        Some r \<Rightarrow> (case r of
            JStr s \<Rightarrow> (case Option.bind defs (\<lambda>d. json_get d (ref_key s)) of
                None \<Rightarrow> Inr ''unknown'' | Some referenced \<Rightarrow> convert referenced depth)
          | _ \<Rightarrow> type_error)
      | None \<Rightarrow> (case variants_of schema of
        Some v \<Rightarrow> bind_sum (as_array v) (\<lambda>variants.
          bind_sum (filter_sum (\<lambda>variant. bind_sum (is_null_schema variant) (\<lambda>b. Inr (\<not> b))) variants) (\<lambda>nonNull.
          bind_sum (map_sum_list (\<lambda>variant. convert variant depth) nonNull) (\<lambda>converted.
            let parts = converted @ (if length nonNull < length variants then [''null''] else [])
            in Inr (if parts = [] then ''never'' else join_with pipe parts))))
      | None \<Rightarrow> (case json_get schema ''allOf'' of
        Some v \<Rightarrow> bind_sum (as_array v) (\<lambda>variants.
          bind_sum (map_sum_list (\<lambda>variant. convert variant depth) variants) (\<lambda>parts.
            Inr (if parts = [] then ''unknown''
                 else if length parts = 1 then hd parts
                 else join_with '' & '' (map (\<lambda>part. ''('' @ part @ '')'') parts))))
      | None \<Rightarrow> (case json_get schema ''const'' of
        Some v \<Rightarrow> Inr (json_print v)
      | None \<Rightarrow> (case json_get schema ''enum'' of
        Some v \<Rightarrow> bind_sum (as_array v) (\<lambda>values. Inr (join_with pipe (map json_print values)))
      | None \<Rightarrow>
          (let t = json_get schema ''type''
           in if t = Some (JStr ''string'') then Inr ''string''
              else if t = Some (JStr ''number'') \<or> t = Some (JStr ''integer'') then Inr ''number''
              else if t = Some (JStr ''boolean'') then Inr ''boolean''
              else if t = Some (JStr ''null'') then Inr ''null''
              else if t = Some (JStr ''array'') then
                (case json_get schema ''prefixItems'' of
                   Some (JArr ps) \<Rightarrow> bind_sum (map_sum_list (\<lambda>p. convert p depth) ps) (\<lambda>parts. Inr (''['' @ join_with '', '' parts @ '']''))
                 | _ \<Rightarrow> (case json_get schema ''items'' of
                     None \<Rightarrow> Inr ''unknown[]''
                   | Some items \<Rightarrow> if is_array items then Inr ''unknown[]''
                       else bind_sum (convert items depth) (\<lambda>element.
                         Inr ((if has_top_level_separator element then ''('' @ element @ '')'' else element) @ ''[]''))))
              else if t = Some (JStr ''object'') then
                (case json_get schema ''properties'' of
                   None \<Rightarrow> (case open_schema (json_get schema ''additionalProperties'') of
                       Some a \<Rightarrow>
                         bind_sum (case json_get schema ''propertyNames'' of None \<Rightarrow> Inr ''string'' | Some n \<Rightarrow> convert n depth) (\<lambda>key.
                         bind_sum (value_text a depth) (\<lambda>v. Inr (''Record<'' @ key @ '', '' @ v @ ''>'')))
                     | None \<Rightarrow> Inr ''Record<string, unknown>'')
                 | Some properties \<Rightarrow>
                     bind_sum (to_set (json_get schema ''required'')) (\<lambda>required.
                     bind_sum (object_entries properties) (\<lambda>entries.
                       if entries = []
                       then Inr (if json_get schema ''additionalProperties'' = Some (JBool False) then ''Record<string, never>''
                                 else ''Record<string, unknown>'')
                       else
                         bind_sum (map_sum_list (\<lambda>e. bind_sum (convert (snd e) (Suc depth)) (\<lambda>v.
                             Inr (indent_of (Suc depth) @ property_name (fst e)
                               @ (if List.member required (JStr (fst e)) then [] else ''?'') @ '': '' @ v @ '';''))) entries) (\<lambda>lines.
                         bind_sum (case open_schema (json_get schema ''additionalProperties'') of
                             None \<Rightarrow> Inr []
                           | Some a \<Rightarrow> bind_sum (value_text a (Suc depth)) (\<lambda>v.
                               Inr [indent_of (Suc depth) @ ''[key: string]: '' @ v @ '';''])) (\<lambda>extra.
                           Inr (''{'' @ [CHR 0x0A] @ join_with [CHR 0x0A] (lines @ extra) @ [CHR 0x0A] @ indent_of depth @ ''}''))))))
              else Inr ''unknown''))))))"

definition json_schema_to_type_string :: "nat \<Rightarrow> json \<Rightarrow> json option \<Rightarrow> string + string" where
  "json_schema_to_type_string room root defs =
     (if defs = None \<and> root = JNull then type_error
      else type_convert (case defs of Some d \<Rightarrow> Some d | None \<Rightarrow> json_get root ''$defs'') room root 0)"

section \<open>Checking a schema\<close>

record schema_check =
  sk_supported :: bool
  sk_type :: "string option"
  sk_note :: "string option"
  sk_effectiveSchema :: "json option"
  sk_error :: "string option"

definition check_schema :: "nat \<Rightarrow> json \<Rightarrow> schema_check" where
  "check_schema room schema =
     (case bind_sum (json_schema_to_definition schema) (\<lambda>d.
        let roundTripped = definition_to_json_schema d;
            lost = (json_print roundTripped \<noteq> json_print schema)
        in bind_sum (json_schema_to_type_string room schema None) (\<lambda>t.
          Inr \<lparr>sk_supported = True, sk_type = Some t,
               sk_note = (if lost then Some ''Parts of this schema fall outside the supported subset and were dropped. The effective schema is the one below.'' else None),
               sk_effectiveSchema = (if lost then Some roundTripped else None), sk_error = None\<rparr>)) of
        Inr c \<Rightarrow> c
      | Inl e \<Rightarrow> \<lparr>sk_supported = False, sk_type = None, sk_note = None, sk_effectiveSchema = None, sk_error = Some e\<rparr>)"

section \<open>The types definitions stand for\<close>

text \<open>TypeScript types as trees; a field has its name, whether it is required, and its type.\<close>

datatype ts_type =
    Plain_type string
  | Literal_type json
  | Or_type "ts_type list"
  | Array_type ts_type
  | Fields_type "(string \<times> bool \<times> ts_type) list"

definition or_of :: "ts_type list \<Rightarrow> ts_type" where
  "or_of ts = (case ts of [] \<Rightarrow> Plain_type ''never'' | [t] \<Rightarrow> t | _ \<Rightarrow> Or_type ts)"

fun ts_of :: "schema_definition \<Rightarrow> ts_type" where
  "ts_of String_def = Plain_type ''string''"
| "ts_of Number_def = Plain_type ''number''"
| "ts_of Boolean_def = Plain_type ''boolean''"
| "ts_of Null_def = Plain_type ''null''"
| "ts_of (Object_def ps) = (if ps = [] then Plain_type ''Record<string, never>''
     else Fields_type (map (\<lambda>p. (pd_name p, pd_required p,
       if pd_nullable p then Or_type [ts_of (pd_schema p), Plain_type ''null''] else ts_of (pd_schema p))) ps))"
| "ts_of (Array_def items) = Array_type (ts_of items)"
| "ts_of (Enum_def values) = or_of (map (\<lambda>v. Literal_type (JStr v)) values)"
| "ts_of (Literal_def v) = Literal_type v"
| "ts_of (Union_def variants) =
     (let nonNull = filter (\<lambda>d. d \<noteq> Null_def) variants
      in or_of (map ts_of nonNull @ (if length nonNull < length variants then [Plain_type ''null''] else [])))"

definition is_or :: "ts_type \<Rightarrow> bool" where
  "is_or t = (case t of Or_type _ \<Rightarrow> True | _ \<Rightarrow> False)"

text \<open>Printing that knows the tree: an element of an array is in parentheses when it is a union.\<close>

fun print_type :: "nat \<Rightarrow> ts_type \<Rightarrow> string" where
  "print_type depth (Plain_type s) = s"
| "print_type depth (Literal_type v) = json_print v"
| "print_type depth (Or_type ts) = join_with pipe (map (print_type depth) ts)"
| "print_type depth (Array_type t) =
     (if is_or t then ''('' @ print_type depth t @ '')'' else print_type depth t) @ ''[]''"
| "print_type depth (Fields_type fs) =
     ''{'' @ [CHR 0x0A] @ join_with [CHR 0x0A] (map (\<lambda>f. indent_of (Suc depth) @ property_name (fst f)
        @ (if fst (snd f) then [] else ''?'') @ '': '' @ print_type (Suc depth) (snd (snd f)) @ '';'') fs)
     @ [CHR 0x0A] @ indent_of depth @ ''}''"

text \<open>How deep the conversion of a definition goes.\<close>

fun levels :: "schema_definition \<Rightarrow> nat" where
  "levels (Object_def ps) = 2 + foldr max (map (\<lambda>p. levels (pd_schema p)) ps) 0"
| "levels (Array_def items) = Suc (levels items)"
| "levels (Union_def variants) = Suc (foldr max (map levels variants) 0)"
| "levels _ = 1"

section \<open>The scan\<close>

text \<open>A text the scan runs through from any depth, and reports at the top level when \<open>b\<close> says so.\<close>

definition scans :: "string \<Rightarrow> bool \<Rightarrow> bool" where
  "scans t b \<longleftrightarrow> (\<forall>depth rest. 0 \<le> depth \<longrightarrow>
     separator_scan depth None (t @ rest) = (b \<and> depth = 0 \<or> separator_scan depth None rest))"

definition quiet :: "char \<Rightarrow> bool" where
  "quiet c \<longleftrightarrow> c \<noteq> CHR 0x22 \<and> c \<noteq> CHR 0x27 \<and> c \<notin> set OPENERS \<and> c \<notin> set CLOSERS \<and> c \<noteq> CHR ''|'' \<and> c \<noteq> CHR ''&''"

lemma scans_quiet: "list_all quiet t \<Longrightarrow> scans t False"
  unfolding scans_def by (induction t) (auto simp: quiet_def)

lemma scans_append: "scans t a \<Longrightarrow> scans u b \<Longrightarrow> scans (t @ u) (a \<or> b)"
  by (auto simp: scans_def)

lemma scans_pipe: "scans pipe True"
  by (simp add: scans_def pipe_def OPENERS_def CLOSERS_def)

lemma scans_enclosed:
  assumes "scans t b" "c \<in> set OPENERS" "d \<in> set CLOSERS"
  shows "scans (c # t @ [d]) False"
proof -
  have "quiet d = False" "d \<noteq> CHR 0x22" "d \<noteq> CHR 0x27" "d \<notin> set OPENERS" "c \<noteq> CHR 0x22" "c \<noteq> CHR 0x27"
    using assms(2,3) by (auto simp: quiet_def OPENERS_def CLOSERS_def)
  with assms show ?thesis by (simp add: scans_def)
qed

lemma scans_join:
  "list_all2 scans ts bs \<Longrightarrow> scans sep b \<Longrightarrow> scans (join_with sep ts) ((b \<and> 2 \<le> length ts) \<or> True \<in> set bs)"
proof (induction sep ts arbitrary: bs rule: join_with.induct)
  case (3 sep x y xs)
  obtain b1 b2 bs' where bs: "bs = b1 # b2 # bs'" "scans x b1" "list_all2 scans (y # xs) (b2 # bs')"
    using 3(2) by (auto simp: list_all2_Cons1)
  have "scans (join_with sep (y # xs)) ((b \<and> 2 \<le> length (y # xs)) \<or> True \<in> set (b2 # bs'))"
    using 3(1)[OF bs(3) 3(3)] .
  from scans_append[OF bs(2) scans_append[OF 3(3) this]]
  have "scans (join_with sep (x # y # xs)) (b1 \<or> b \<or> (b \<and> 2 \<le> length (y # xs)) \<or> True \<in> set (b2 # bs'))" by simp
  moreover have "(b1 \<or> b \<or> (b \<and> 2 \<le> length (y # xs)) \<or> True \<in> set (b2 # bs')) = ((b \<and> 2 \<le> length (x # y # xs)) \<or> True \<in> set bs)"
    using bs(1) by auto
  ultimately show ?case by simp
qed (auto simp: scans_def list_all2_Cons1)

text \<open>An escaped character is a backslash with what it protects, or no quote.\<close>

fun passes :: "string \<Rightarrow> bool" where
  "passes [] = True"
| "passes (c # cs) =
     (if c = CHR 0x5C then (case cs of [] \<Rightarrow> False | e # es \<Rightarrow> passes es) else c \<noteq> CHR 0x22 \<and> passes cs)"

lemma scan_passes:
  "passes t \<Longrightarrow> separator_scan depth (Some (CHR 0x22)) (t @ rest) = separator_scan depth (Some (CHR 0x22)) rest"
  by (induction t rule: passes.induct) (auto split: if_splits list.splits)

lemma passes_escape: "passes (esc_char c)"
proof -
  have "\<forall>c. passes (esc_char c)" by code_simp
  then show ?thesis ..
qed

lemma scan_escaped:
  "separator_scan depth (Some (CHR 0x22)) (concat (map esc_char s) @ CHR 0x22 # rest) = separator_scan depth None rest"
  by (induction s) (simp_all add: scan_passes[OF passes_escape])

lemma scans_text: "scans (print_str t) False"
  by (simp add: scans_def print_str_def scan_escaped)

lemma quiet_digit: "is_digit c \<Longrightarrow> quiet c" "ident_start c \<Longrightarrow> quiet c"
proof -
  have "\<forall>c. (is_digit c \<or> ident_start c) \<longrightarrow> quiet c" by code_simp
  then show "is_digit c \<Longrightarrow> quiet c" "ident_start c \<Longrightarrow> quiet c" by blast+
qed

lemma quiet_nat: "list_all quiet (nat_str n)"
  using nat_str_digits quiet_digit(1) by (fastforce simp: list_all_iff is_digit_def)

lemma scans_scalar: "is_scalar v \<Longrightarrow> scans (json_print v) False"
proof (cases v)
  case (JNum n)
  then show ?thesis using quiet_nat by (auto simp: print_int_def quiet_def OPENERS_def CLOSERS_def intro!: scans_quiet)
next
  case (JBool b)
  then show ?thesis by (cases b) (auto intro!: scans_quiet simp: quiet_def OPENERS_def CLOSERS_def)
qed (auto simp: scans_text)

lemma scans_name: "scans (property_name k) False"
proof (cases "is_identifier k")
  case True
  then have "list_all quiet k" using quiet_digit by (cases k) (auto simp: is_identifier_def list_all_iff)
  with True show ?thesis by (simp add: property_name_def scans_quiet)
qed (simp add: property_name_def scans_text)

lemma scans_indent: "scans (indent_of k) False"
  by (rule scans_quiet) (auto simp: indent_of_def INDENT_def quiet_def OPENERS_def CLOSERS_def list_all_iff)

fun ts_ok :: "ts_type \<Rightarrow> bool" where
  "ts_ok (Plain_type s) = list_all quiet s"
| "ts_ok (Literal_type v) = is_scalar v"
| "ts_ok (Or_type ts) = (2 \<le> length ts \<and> list_all ts_ok ts)"
| "ts_ok (Array_type t) = ts_ok t"
| "ts_ok (Fields_type fs) = list_all (\<lambda>f. ts_ok (snd (snd f))) fs"

lemma scans_two: "scans t False \<Longrightarrow> scans u False \<Longrightarrow> scans (t @ u) False"
  using scans_append[of t False u False] by simp

lemma scans_field:
  "scans v b \<Longrightarrow> scans (CHR ''{'' # v @ ''}'') False"
  "scans v b \<Longrightarrow> scans (CHR ''('' # v @ '')'') False"
  by (rule scans_enclosed, assumption, simp add: OPENERS_def, simp add: CLOSERS_def)+

lemma scans_braces:
  assumes "\<And>depth rest. 0 < depth \<Longrightarrow> separator_scan depth None (t @ rest) = separator_scan depth None rest"
  shows "scans (CHR ''{'' # t @ ''}'') False"
  using assms by (auto simp: scans_def OPENERS_def CLOSERS_def)

lemma scans_deep:
  "scans t b \<Longrightarrow> 0 < depth \<Longrightarrow> separator_scan depth None (t @ rest) = separator_scan depth None rest"
  by (auto simp: scans_def)

lemma deep_lines:
  assumes "\<And>t depth rest. t \<in> set ts \<Longrightarrow> 0 < depth \<Longrightarrow> separator_scan depth None (t @ rest) = separator_scan depth None rest" "0 < depth"
  shows "separator_scan depth None (join_with [CHR 0x0A] ts @ rest) = separator_scan depth None rest"
  using assms by (induction "[CHR 0x0A]" ts rule: join_with.induct) (auto simp: OPENERS_def CLOSERS_def)

lemma scans_type: "ts_ok t \<Longrightarrow> scans (print_type depth t) (is_or t)"
proof (induction depth t rule: print_type.induct)
  case (3 depth ts)
  then have "list_all2 scans (map (print_type depth) ts) (map is_or ts)"
    by (auto simp: list_all2_conv_all_nth list_all_length)
  from scans_join[OF this scans_pipe] 3(2) show ?case by (simp add: is_or_def)
next
  case (4 depth t)
  then have t: "scans (print_type depth t) (is_or t)" by (cases "is_or t") simp_all
  have "scans (if is_or t then ''('' @ print_type depth t @ '')'' else print_type depth t) False"
    using scans_field(2)[OF t] t by (cases "is_or t") simp_all
  moreover have "scans ''[]'' False" by (simp add: scans_def OPENERS_def CLOSERS_def)
  ultimately show ?case by (simp add: is_or_def scans_two)
next
  case (5 depth fs)
  let ?line = "\<lambda>f. indent_of (Suc depth) @ property_name (fst f) @ (if fst (snd f) then [] else ''?'') @ '': ''
     @ print_type (Suc depth) (snd (snd f)) @ '';''"
  have colon: "scans '': '' False" "scans '';'' False" "scans (if b then [] else ''?'') False" "scans [CHR 0x0A] False" for b
    by (auto intro!: scans_quiet simp: quiet_def OPENERS_def CLOSERS_def)
  have lines: "separator_scan d None (l @ rest) = separator_scan d None rest" if "l \<in> set (map ?line fs)" "0 < d" for l d rest
  proof -
    from that(1) obtain f where f: "f \<in> set fs" "l = ?line f" by auto
    with 5 have "scans (print_type (Suc depth) (snd (snd f))) (is_or (snd (snd f)))" by (auto simp: list_all_iff)
    then have "scans l (False \<or> False \<or> False \<or> False \<or> is_or (snd (snd f)) \<or> False)"
      unfolding f(2) by (intro scans_append scans_indent scans_name colon)
    with that(2) show ?thesis by (rule scans_deep[rotated])
  qed
  have "scans (CHR ''{'' # ([CHR 0x0A] @ join_with [CHR 0x0A] (map ?line fs) @ [CHR 0x0A] @ indent_of depth) @ ''}'') False"
  proof (rule scans_braces)
    fix d :: int and rest assume d: "0 < d"
    have deep: "separator_scan d None (join_with [CHR 0x0A] (map ?line fs) @ r) = separator_scan d None r" for r
      by (rule deep_lines) (use lines d in blast)+
    show "separator_scan d None (([CHR 0x0A] @ join_with [CHR 0x0A] (map ?line fs) @ [CHR 0x0A] @ indent_of depth) @ rest)
        = separator_scan d None rest"
      unfolding append_assoc scans_deep[OF colon(4) d] deep scans_deep[OF scans_indent d] ..
  qed
  then show ?case by (simp add: is_or_def)
qed (auto simp: scans_quiet scans_scalar is_or_def)

lemma separator_of_type: "ts_ok t \<Longrightarrow> has_top_level_separator (print_type depth t) = is_or t"
  using scans_type[of t depth] unfolding scans_def has_top_level_separator_def
  by (metis append_Nil2 order_refl separator_scan.simps(1))

section \<open>Definitions as types\<close>

text \<open>An enum without values has no type.\<close>

fun inhabited_enums :: "schema_definition \<Rightarrow> bool" where
  "inhabited_enums (Object_def ps) = list_all (\<lambda>p. inhabited_enums (pd_schema p)) ps"
| "inhabited_enums (Array_def items) = inhabited_enums items"
| "inhabited_enums (Enum_def values) = (values \<noteq> [])"
| "inhabited_enums (Union_def variants) = list_all inhabited_enums variants"
| "inhabited_enums _ = True"

lemma or_of_ok: "list_all ts_ok ts \<Longrightarrow> ts_ok (or_of ts)"
  by (auto simp: or_of_def quiet_def OPENERS_def CLOSERS_def split: list.split)

lemma ts_of_ok: "editable d \<Longrightarrow> ts_ok (ts_of d)"
proof (induction d rule: ts_of.induct)
  case (9 variants)
  then show ?case by (auto simp: list_all_iff Let_def quiet_def OPENERS_def CLOSERS_def intro!: or_of_ok)
qed (auto simp: list_all_iff quiet_def OPENERS_def CLOSERS_def intro!: or_of_ok)

lemma print_or_of: "print_type depth (or_of ts) = (if ts = [] then ''never'' else join_with pipe (map (print_type depth) ts))"
  by (auto simp: or_of_def split: list.split)

lemma foldr_max_le: "x \<in> set xs \<Longrightarrow> f x \<le> foldr max (map f xs) (0::nat)"
  by (induction xs) (auto simp: max.coboundedI2)

lemma filter_nulls:
  "filter_sum (\<lambda>variant. bind_sum (is_null_schema variant) (\<lambda>b. Inr (\<not> b))) (map definition_to_json_schema vs)
     = Inr (map definition_to_json_schema (filter (\<lambda>d. d \<noteq> Null_def) vs))"
  by (induction vs) auto

lemma convert_wrapped:
  assumes "\<And>room. levels d \<le> room \<Longrightarrow> type_convert defs room (definition_to_json_schema d) depth = Inr (print_type depth (ts_of d))"
    and "editable d" "\<not> (n \<and> d = Null_def)" "Suc (levels d) \<le> room"
  shows "type_convert defs room (wrap_nullable (definition_to_json_schema d) n) depth
    = Inr (print_type depth (if n then Or_type [ts_of d, Plain_type ''null''] else ts_of d))"
proof (cases n)
  case True
  then obtain r where r: "room = Suc r" "levels d \<le> r" "d \<noteq> Null_def" using assms(3,4) by (cases room) auto
  then show ?thesis
    using filter_nulls[of "[d, Null_def]"] assms(1)[OF r(2)] True
    by (simp add: wrap_nullable_def variants_of_def coalesce_def Let_def)
qed (use assms in \<open>simp add: wrap_nullable_def\<close>)

lemma convert_definition:
  "editable d \<Longrightarrow> inhabited_enums d \<Longrightarrow> levels d \<le> room \<Longrightarrow>
     type_convert defs room (definition_to_json_schema d) depth = Inr (print_type depth (ts_of d))"
proof (induction d arbitrary: room depth rule: definition_to_json_schema.induct)
  case (5 ps)
  let ?m = "foldr max (map (\<lambda>p. levels (pd_schema p)) ps) 0"
  obtain r where r: "room = Suc r" "Suc ?m \<le> r" using 5(4) by (cases room) auto
  have le: "Suc (levels (pd_schema p)) \<le> r" if "p \<in> set ps" for p
    using foldr_max_le[OF that, of "\<lambda>p. levels (pd_schema p)"] r(2) by simp
  let ?req = "map JStr (map pd_name (filter pd_required ps))"
  let ?line = "\<lambda>f :: string \<times> bool \<times> ts_type. indent_of (Suc depth) @ property_name (fst f)
        @ (if fst (snd f) then [] else ''?'') @ '': '' @ print_type (Suc depth) (snd (snd f)) @ '';''"
  let ?field = "\<lambda>p. (pd_name p, pd_required p,
       if pd_nullable p then Or_type [ts_of (pd_schema p), Plain_type ''null''] else ts_of (pd_schema p))"
  have req: "List.member ?req (JStr (pd_name p)) = pd_required p" if "p \<in> set ps" for p
    using that 5(2) by (auto simp: distinct_map inj_on_def)
  have conv: "type_convert defs r (wrap_nullable (definition_to_json_schema (pd_schema p)) (pd_nullable p)) (Suc depth)
      = Inr (print_type (Suc depth) (snd (snd (?field p))))" if p: "p \<in> set ps" for p
    using convert_wrapped[of "pd_schema p" defs "Suc depth" "pd_nullable p" r] 5 p le[OF p] by (auto simp: list_all_iff)
  have lines: "map_sum_list (\<lambda>e. bind_sum (type_convert defs r (snd e) (Suc depth)) (\<lambda>v.
      Inr (indent_of (Suc depth) @ property_name (fst e) @ (if List.member ?req (JStr (fst e)) then [] else ''?'') @ '': '' @ v @ '';'')))
      (map (\<lambda>p. (pd_name p, wrap_nullable (definition_to_json_schema (pd_schema p)) (pd_nullable p))) ps)
    = Inr (map (\<lambda>p. ?line (?field p)) ps)"
    unfolding map_sum_list_map by (rule map_sum_list_Inr) (use req conv in simp)
  have "distinct (map pd_name ps)" using 5(2) by simp
  then show ?case
  proof (rule object_schema_read)
    fix es assume es: "definition_to_json_schema (Object_def ps) = JObj es"
      "map_of es ''const'' = None" "map_of es ''enum'' = None" "map_of es ''anyOf'' = None" "map_of es ''oneOf'' = None"
      "map_of es ''type'' = Some (JStr ''object'')"
      "map_of es ''properties'' = Some (JObj (map (\<lambda>p. (pd_name p, wrap_nullable (definition_to_json_schema (pd_schema p)) (pd_nullable p))) ps))"
      "to_set (map_of es ''required'') = Inr ?req" "map_of es ''additionalProperties'' = Some (JBool False)"
    have more: "map_of es ''$ref'' = None" "map_of es ''allOf'' = None"
      using es(1) object_schema[OF \<open>distinct (map pd_name ps)\<close>] by auto
    show ?thesis unfolding es(1) r(1)
      using lines by (simp add: es more variants_of_def coalesce_def object_entries_def Let_def open_schema_def comp_def)
  qed
next
  case (6 items)
  then obtain r where r: "room = Suc r" "levels items \<le> r" by (cases room) auto
  have "type_convert defs r (definition_to_json_schema items) depth = Inr (print_type depth (ts_of items))"
    using 6 r by simp
  with 6(2) separator_of_type[OF ts_of_ok] show ?case unfolding r(1)
    by (simp add: variants_of_def coalesce_def Let_def)
next
  case (7 vs)
  then obtain r where "room = Suc r" by (cases room) auto
  with 7 show ?case by (simp add: variants_of_def coalesce_def Let_def print_or_of comp_def)
next
  case (8 v)
  then obtain r where "room = Suc r" by (cases room) auto
  with 8 show ?case by (simp add: variants_of_def coalesce_def Let_def)
next
  case (9 variants)
  obtain r where r: "room = Suc r" "foldr max (map levels variants) 0 \<le> r" using 9(4) by (cases room) auto
  have le: "levels d \<le> r" if "d \<in> set variants" for d
    using foldr_max_le[OF that, of levels] r(2) by simp
  let ?nonNull = "filter (\<lambda>d. d \<noteq> Null_def) variants"
  have "map_sum_list (\<lambda>variant. type_convert defs r variant depth) (map definition_to_json_schema ?nonNull)
      = Inr (map (\<lambda>d. print_type depth (ts_of d)) ?nonNull)"
    unfolding map_sum_list_map by (rule map_sum_list_Inr) (use 9 le in \<open>auto simp: list_all_iff\<close>)
  then show ?case unfolding r(1)
    using filter_nulls[of variants]
    by (cases "?nonNull = []") (simp_all add: variants_of_def coalesce_def Let_def print_or_of comp_def)
qed (case_tac room; simp add: type_schema_def variants_of_def coalesce_def Let_def)+

text \<open>The values of a type: objects may have more fields than the type names.\<close>

fun inhabits :: "ts_type \<Rightarrow> json \<Rightarrow> bool" where
  "inhabits (Plain_type s) v =
     (if s = ''null'' then v = JNull else if s = ''Record<string, never>'' then v = JObj [] else type_matches (JStr s) v)"
| "inhabits (Literal_type l) v = (v = l)"
| "inhabits (Or_type ts) v = list_ex (\<lambda>t. inhabits t v) ts"
| "inhabits (Array_type t) v = (type_matches (JStr ''array'') v \<and> list_all (inhabits t) (elems v))"
| "inhabits (Fields_type fs) v = (type_matches (JStr ''object'') v
     \<and> list_all (\<lambda>f. case json_get v (fst f) of None \<Rightarrow> \<not> fst (snd f) | Some w \<Rightarrow> inhabits (snd (snd f)) w) fs)"

lemma inhabits_or_of: "list_ex (\<lambda>t. inhabits t v) ts \<Longrightarrow> inhabits (or_of ts) v"
  by (auto simp: or_of_def split: list.split)

lemma describes_inhabits: "describes d v \<Longrightarrow> inhabits (ts_of d) v"
proof (induction d arbitrary: v rule: ts_of.induct)
  case (5 ps)
  show ?case
  proof (cases "ps = []")
    case True
    with 5(3) show ?thesis by (cases v; cases "members v") auto
  next
    case False
    have field: "(json_get v (pd_name p) = None \<longrightarrow> \<not> pd_required p)
        \<and> (\<forall>w. json_get v (pd_name p) = Some w \<longrightarrow> (pd_nullable p \<and> w = JNull) \<or> inhabits (ts_of (pd_schema p)) w)"
      if "p \<in> set ps" for p
      using that 5 False by (fastforce simp: list_all_iff split: option.splits)
    with 5(3) False show ?thesis by (auto simp: list_all_iff split: option.split)
  qed
next
  case (6 items)
  then show ?case by (auto simp: list_all_iff)
next
  case (7 vs)
  then show ?case by (auto simp: list_ex_iff intro!: inhabits_or_of)
next
  case (9 variants)
  then obtain d where d: "d \<in> set variants" "describes d v" by (auto simp: list_ex_iff)
  show ?case
  proof (cases "d = Null_def")
    case True
    with d(1) have "length (filter (\<lambda>d. d \<noteq> Null_def) variants) < length variants" by (auto intro: length_filter_less)
    with True d(2) show ?thesis by (auto simp: Let_def list_ex_iff intro!: inhabits_or_of)
  next
    case False
    then have "inhabits (ts_of d) v" using 9(1)[OF refl, of d v] d by simp
    with d(1) False show ?thesis by (auto simp: Let_def list_ex_iff intro!: inhabits_or_of)
  qed
qed simp_all

section \<open>The property\<close>

text \<open>The generated type is the type of the definition. With room on the stack for its depth, the
  schema of a definition becomes exactly the text of its type tree, in which the element of an array
  is in parentheses if and only if it is a union (the scan for separators is not misled by quoted
  names, literals or nested types), and every value the schema accepts inhabits that type.\<close>

theorem type_string_sound:
  assumes "editable d" "inhabited_enums d" "levels d \<le> room"
  shows "json_schema_to_type_string room (definition_to_json_schema d) None = Inr (print_type 0 (ts_of d))
    \<and> (\<forall>depth. has_top_level_separator (print_type depth (ts_of d)) = is_or (ts_of d))
    \<and> (\<forall>v. validates (definition_to_json_schema d) v \<longrightarrow> inhabits (ts_of d) v)"
  using convert_definition[OF assms] separator_of_type[OF ts_of_ok[OF assms(1)]] describes_inhabits schema_meaning[OF assms(1)]
  by (simp add: json_schema_to_type_string_def)

theorem type_string_sound_witness:
  "json_schema_to_type_string 9 (definition_to_json_schema demo_device) None
     = Inr (concat [''{'', [CHR 0x0A], ''  name: string;'', [CHR 0x0A], ''  note: string | null;'', [CHR 0x0A],
         ''  ports?: (number | '', print_str ''usb'', '' | '', print_str ''uart'', '')[];'', [CHR 0x0A], ''}''])"
proof -
  have d: "editable demo_device" "inhabited_enums demo_device" "levels demo_device \<le> 9"
    by (simp_all add: demo_device_def collapses_def plain_name_def is_digit_def)
  have "print_type 0 (ts_of demo_device) = concat [''{'', [CHR 0x0A], ''  name: string;'', [CHR 0x0A], ''  note: string | null;'', [CHR 0x0A],
      ''  ports?: (number | '', print_str ''usb'', '' | '', print_str ''uart'', '')[];'', [CHR 0x0A], ''}'']"
    by code_simp
  with type_string_sound[OF d] show ?thesis by simp
qed

section \<open>A finding\<close>

text \<open>A schema that refers to itself overflows the stack, however large it is.\<close>

definition linked_list :: json where
  "linked_list = JObj [(''Node'', JObj [(''type'', JStr ''array''), (''items'', JObj [(''$ref'', JStr ''#/$defs/Node'')])])]"

lemma self_reference_overflows:
  "json_schema_to_type_string room (JObj [(''$ref'', JStr ''#/$defs/Node''), (''$defs'', linked_list)]) None = stack_overflow"
proof -
  have key: "ref_key ''#/$defs/Node'' = ''Node''" by code_simp
  have "type_convert (Some linked_list) n (JObj [(''$ref'', JStr ''#/$defs/Node'')]) k = stack_overflow
      \<and> type_convert (Some linked_list) n (JObj [(''type'', JStr ''array''), (''items'', JObj [(''$ref'', JStr ''#/$defs/Node'')])]) k
        = stack_overflow" for n k
  proof (induction n)
    case (Suc n)
    then show ?case
      by (simp add: key linked_list_def variants_of_def coalesce_def Let_def stack_overflow_def)
  qed simp
  then show ?thesis
    by (cases room) (simp_all add: json_schema_to_type_string_def key linked_list_def Let_def)
qed

end
