(* ===== verification/Spec2Isabelle.thy ===== *)
theory Spec2Isabelle
  imports Plane_Laws Profile_Laws Agent_Tools Features Fs_Laws Event_Ingest Event_Lifecycle Workflow_Durable Release_Admin
    Stream_Properties Serial Packet_Transports Gateway Device_Auth Schema_Type
begin

text \<open>
  Helix is a platform for connected devices: firmware and software releases are registered by
  continuous integration, resolved for each device and published over the air; browsers talk to
  devices through an MQTT gateway and through multiplexed byte streams; device events pass a
  durable queue into a table and start workflows; administrators manage accounts, profiles,
  features and the people who may log in to a device; an assistant acts for its user, within a
  budget. The development models the TypeScript code that decides these things, under
  \<open>src/web/packages/protocol/src\<close>, \<open>src/web/packages/helix-backend/src\<close>, for the routes of the
  assistant \<open>src/web/apps/helix/src\<close>, and for schemas \<open>src/web/packages/json-schema/src\<close> (paths
  below are relative to one of the four), and proves what makes it correct.

  \<^bold>\<open>Conventions.\<close> A class or an object of the source is a record, its mutable fields are the
  record's fields, and a method maps a state to a state and what it returns. A thrown error is
  \<open>Inl\<close> of a sum or the value \<open>None\<close>; JavaScript maps and sets are association lists that keep
  insertion order (\<open>Helix_Prelude\<close>); a table is the list of its rows and a query a search of the
  list. Bytes and the fields of wire formats are machine words. Strings are sequences of the
  first 256 characters. What is not the program's own code is an argument of the definitions that
  use it: hash functions, random sources, clocks, regular expressions of the engine, the
  collation of the database, the broker, the durable step tools, the object store. Each such
  argument is left free or restricted by a named hypothesis of documented behaviour, and every
  property with a hypothesis has a witness.

  \<^bold>\<open>Shared layers.\<close> \<open>Helix_Prelude\<close> holds strings, maps, the interfaces \<open>state_machine\<close>,
  \<open>total_machine\<close>, \<open>codec\<close> and \<open>exact_codec\<close> and the generic lemmas on lists; \<open>Json\<close> models
  \<open>JSON.stringify\<close> and \<open>JSON.parse\<close> with their round trip; \<open>Trpc\<close> the errors of the API routers
  and the bearer-token check of devices (\<open>lib/device.ts\<close>).

  \<^bold>\<open>Byte streams.\<close> \<open>Stream_Frame\<close> is the wire format (\<open>stream/frame.ts\<close>), \<open>Stream_Session\<close> the
  multiplexer with its credit-based flow control (\<open>stream/stream.ts\<close>, \<open>stream/session.ts\<close>). \<open>Stream_Laws\<close> states what any host of streams keeps as a locale,
  \<open>Stream_Invariant\<close> balances windows, credits and queues, \<open>Stream_Run\<close> proves that every input
  returns and keeps the balance, and that what a stream sends is what its session puts on the wire.
  \<open>Stream_Properties\<close> concludes: flow control, order, no credit deadlock, refinement of a channel of
  bytes, every write settles once. A stream that a closed session no longer knows still takes
  writes and drops them; the statements about the wire leave such streams out, and a lemma shows one. The loop of \<open>flush\<close> may
  run forever in the source when the chunk size is zero; it is a partial function, proved to
  return for positive chunk sizes, and the endless case is a theorem of its own.

  \<^bold>\<open>Requests and transports.\<close> \<open>Protocol\<close> holds packets, the request registry and the service
  client (\<open>index.ts\<close>, \<open>service/index.ts\<close>): replies reach their own request, and
  registered ids, armed timers and unsettled requests are the same. \<open>Serial\<close> models the Web Serial
  reader from bytes, with the streaming text decoder that all its clients share, \<open>Packet_Transports\<close>
  WebSocket, MQTT and data-channel transports with the back-pressure of the channel.

  \<^bold>\<open>Gateway.\<close> \<open>Gateway\<close> models the router between browsers and devices (\<open>gateway/router.ts\<close>, and
  the bridge's handlers): a device's frame reaches only the browser that owns the request or the
  session.

  \<^bold>\<open>Logging in to a device.\<close> \<open>Offline_Code\<close> (codes of the offline challenge, \<open>device-auth/
  offline-code.ts\<close>), \<open>Enrollment\<close> (the relay that hands a credential over once), \<open>Device_Auth\<close>
  (fixture provider, device-facing API, browser routers). Providers share the locale
  \<open>authorization_provider\<close>, interpreted on the fixture. What a login needs is stated over the history of
  grants and revocations an administrator made, not over the provider's table.

  \<^bold>\<open>Releases.\<close> \<open>Storage_Keys\<close> (object keys), \<open>Release_Adapters\<close> and \<open>Adapter_Laws\<close> (artifact types
  and their contract), \<open>Release_Store\<close> (tables and \<open>ingestRelease\<close>), \<open>Release_Ingest\<close> and
  \<open>Release_Publish\<close> (well-formed tables, idempotence), \<open>Release_Resolve\<close> (what a device may run
  and fetch, \<open>releases/resolve.ts\<close>, \<open>ota.ts\<close>, \<open>device-mtls/fileRouter.ts\<close>), \<open>Release_Api\<close> (CI
  tokens, custom builds and the public API), \<open>Release_Admin\<close> (lists, product lines and builds of the
  administrators, \<open>releases/admin-router.ts\<close>).

  \<^bold>\<open>Events and workflows.\<close> \<open>Event_Bridge\<close> (topics, producer, MQTT bridge), \<open>Event_Writer\<close> (rows,
  batches, offsets: from the offset at which the group joined, nothing lost and nothing twice across
  crashes; a consumer that crashes before its first commit joins anew at the end), \<open>Event_Lifecycle\<close> (start,
  crash and stop of the consumer), \<open>Event_Ingest\<close> (the HTTP way in). \<open>Workflow_Graph\<close> and
  \<open>Workflow_Order\<close> plan a run: Kahn's loop is a partial function proved to return on every graph.
  \<open>Workflow_Run\<close> executes it with and without durable steps, \<open>Workflow_Durable\<close> shows that a run whose
  process is lost again and again, at any of its steps, agrees with an uninterrupted one.

  \<^bold>\<open>Features and files.\<close> \<open>Features\<close> resolves feature flags. \<open>File_System\<close> models the calls of
  \<open>fs/promises\<close> that \<open>Fs_Storage\<close> uses (provider and signed HTTP end point of the filesystem
  storage); \<open>Fs_Laws\<close> proves both writers against one locale, and that only a signature for
  exactly that request opens or replaces the file its key names.

  \<^bold>\<open>Administration.\<close> \<open>Admin_Query\<close> holds what list procedures share: pages, sorting (the locale
  \<open>ranking\<close>), name search. \<open>Device_Registry\<close> (\<open>devices/admin-router.ts\<close>) registers devices and
  rotates their tokens; \<open>Registry_Laws\<close> shows that the tables refine a map from device to token
  under every run of the relation \<open>registry_step\<close>, and that a replaced token never comes back.
  \<open>Pki\<close> issues and revokes device certificates (\<open>pki/*.ts\<close>) and holds the identity check of the
  mTLS gateway (\<open>device-mtls/tls.ts\<close>, \<open>roles/gateway.ts\<close>); \<open>Pki_Laws\<close> (relation \<open>fleet_step\<close>) shows who gets
  a certificate, and that a revoked one stays refused while its device is registered. \<open>Data_Plane\<close>
  is the server that joins browsers to the streams of devices (\<open>data-plane/index.ts\<close>);
  \<open>Plane_Laws\<close> shows who is served by whom and that forwarded ports lose no byte.
  \<open>Profile_Admin\<close> manages release policies and their assignment (\<open>profiles/admin-router.ts\<close>);
  \<open>Profile_Laws\<close> (relation \<open>profile_step\<close>) shows that tracks stay well-formed and which devices a
  change reaches. \<open>User_Admin\<close> holds accounts, bans and what acts for an account (\<open>users/admin-
  router.ts\<close>, \<open>account/router.ts\<close>, \<open>agent/router.ts\<close>, \<open>app/api/mcp/route.ts\<close>); \<open>User_Laws\<close> (relation
  \<open>users_step\<close>), whose actors come from a browser session or through an API key or an access token,
  shows that an administrator's account remains while no role is taken away, and stays signed in
  while only sessions act; tools also serve banned accounts, and a lemma shows one taking over.

  \<^bold>\<open>The assistant and its budget.\<close> \<open>Js_Number\<close> models numbers as rationals rounded to 53 bits.
  \<open>Ai_Usage\<close> is pricing, metering and the credit gate (\<open>ai-usage/pricing.ts\<close>, \<open>metering.ts\<close>),
  \<open>Ai_Router\<close> the pages and grants over the ledger (\<open>ai-usage/router.ts\<close>); \<open>Ai_Laws\<close> bounds what a capped
  user can overspend, \<open>Ai_Costs\<close> how far a recorded cost is from tokens times prices.
  \<open>Conversations\<close> holds chat threads and both routes that run turns on them
  (\<open>conversations/router.ts\<close>, \<open>app/api/agent/chat/route.ts\<close>, \<open>app/api/pdf-report/generate/route.ts\<close>);
  \<open>Chat_Laws\<close> (relation \<open>chat_step\<close>) keeps them private while turns end late, never or after their
  thread is gone. \<open>Agent_Tools\<close> turns the API into tools with an audit trail and lends the sandbox
  what only reads (\<open>agent/procedure-tools.ts\<close>, \<open>server/agent/capabilities.ts\<close>).

  \<^bold>\<open>Schemas.\<close> \<open>Schema_Definition\<close> is the schema editor's model (\<open>definition.ts\<close>, \<open>object-schema.ts\<close>):
  definitions, their conversion to JSON Schema and back, and what both describe; the theorem
  \<open>schema_editor_faithful\<close> joins them. \<open>Schema_Type\<close> turns schemas into TypeScript (\<open>type-string.ts\<close>)
  and checks the ones a model wrote (\<open>ai.ts\<close>); \<open>type_string_sound\<close> says that the text is the type of
  the definition and holds its values. The recursion may follow a reference forever, so the room on
  the stack is an argument.

  \<^bold>\<open>Bounds and fuel.\<close> No definition is cut off by fuel of the model's own, but for the conversion of a schema to a type, which has the
  room of the stack and the source's error when it is used up. The source's bounds are
  constants of the model (windows and chunk sizes of streams, \<open>MAX_EVENTS_PER_REQUEST\<close>, the
  maximal upload of the storage end point, the walk over blocked workflow nodes). Loops that
  might not return are partial functions: \<open>flush\<close>, Kahn's queue loop and the batches of the event
  writer; each is proved to return under a stated condition that the code's constants meet.

  \<^bold>\<open>Not modelled.\<close> React components, pages and hooks; WebRTC negotiation and Web Bluetooth, which
  only sequence browser calls; cloud storage providers, mail, the stream of a language-model call
  and code execution, which wrap third-party packages; the hardware catalog, the design system,
  the blog, the layout of PDF reports, the schema editor's components, the firmware builder, scripts;
  process start-up and environment parsing; the database driver (atomicity of a statement and of
  a transaction is assumed as its result); numbers that are not integers in JSON; overflow,
  underflow and the sign of zero of doubles.
\<close>

end
